(* ===== verification/Prelude.thy ===== *)
theory Prelude
  imports Main "HOL-Library.Word" "HOL-Library.AList" "HOL-Library.Multiset"
begin

text \<open>
  What every component theory shares: names for Rust's machine integers, a model of
  Rust's \<open>HashMap\<close> as an association list with distinct keys, big-endian encodings,
  \<open>slice::chunks\<close>, and the contract of a state machine with an invariant.
\<close>

unbundle bit_operations_syntax

section \<open>Machine integers\<close>

type_synonym u8 = "8 word"
type_synonym u16 = "16 word"
type_synonym u32 = "32 word"
type_synonym u64 = "64 word"
type_synonym byte = "8 word"

named_theorems be_simps "big-endian encodings and their inverses"
named_theorems hmap_simps "lookups in updated hash maps"

section \<open>Big-endian bytes\<close>

text \<open>\<open>u16::to_be_bytes\<close>, \<open>u32::to_be_bytes\<close> and their inverses.\<close>

definition u16_to_be :: "u16 \<Rightarrow> byte list" where
  "u16_to_be w = [ucast (drop_bit 8 w), ucast w]"

definition u32_to_be :: "u32 \<Rightarrow> byte list" where
  "u32_to_be w = [ucast (drop_bit 24 w), ucast (drop_bit 16 w), ucast (drop_bit 8 w), ucast w]"

definition u16_from_be :: "byte \<Rightarrow> byte \<Rightarrow> u16" where
  "u16_from_be a b = push_bit 8 (ucast a) OR ucast b"

definition u32_from_be :: "byte \<Rightarrow> byte \<Rightarrow> byte \<Rightarrow> byte \<Rightarrow> u32" where
  "u32_from_be a b c d =
     push_bit 24 (ucast a) OR push_bit 16 (ucast b) OR push_bit 8 (ucast c) OR ucast d"

lemma length_u16_to_be [simp, be_simps]: "length (u16_to_be w) = 2"
  by (simp add: u16_to_be_def)

lemma length_u32_to_be [simp, be_simps]: "length (u32_to_be w) = 4"
  by (simp add: u32_to_be_def)

lemma bit_byte_ge [simp]: "8 \<le> n \<Longrightarrow> \<not> bit (b :: byte) n"
  using bit_imp_le_length [of b n] by auto

lemma u16_from_to_be [simp, be_simps]:
  "u16_from_be (ucast (drop_bit 8 w)) (ucast w) = w"
  unfolding u16_from_be_def
  by (rule bit_word_eqI) (auto simp: bit_simps)

lemma u32_from_to_be [simp, be_simps]:
  "u32_from_be (ucast (drop_bit 24 w)) (ucast (drop_bit 16 w)) (ucast (drop_bit 8 w)) (ucast w) = w"
proof (rule bit_word_eqI)
  fix n :: nat
  assume "n < LENGTH(32)"
  then consider "n < 8" | "8 \<le> n" "n < 16" | "16 \<le> n" "n < 24" | "24 \<le> n" "n < 32"
    by fastforce
  then show "bit (u32_from_be (ucast (drop_bit 24 w)) (ucast (drop_bit 16 w))
      (ucast (drop_bit 8 w)) (ucast w)) n = bit w n"
    by cases (auto simp: u32_from_be_def bit_simps)
qed

lemma u16_to_from_be [simp, be_simps]: "u16_to_be (u16_from_be a b) = [a, b]"
  unfolding u16_from_be_def u16_to_be_def
  by (auto intro!: bit_word_eqI simp: bit_simps)

lemma u32_to_from_be [simp, be_simps]: "u32_to_be (u32_from_be a b c d) = [a, b, c, d]"
  unfolding u32_from_be_def u32_to_be_def
  by (auto intro!: bit_word_eqI simp: bit_simps)

lemma u16_to_be_inject [simp, be_simps]: "u16_to_be v = u16_to_be w \<longleftrightarrow> v = w"
proof
  assume "u16_to_be v = u16_to_be w"
  then have "u16_from_be (u16_to_be v ! 0) (u16_to_be v ! 1)
           = u16_from_be (u16_to_be w ! 0) (u16_to_be w ! 1)" by simp
  then show "v = w" by (simp add: u16_to_be_def)
qed simp

lemma u32_to_be_inject [simp, be_simps]: "u32_to_be v = u32_to_be w \<longleftrightarrow> v = w"
proof
  assume "u32_to_be v = u32_to_be w"
  then have "u32_from_be (u32_to_be v ! 0) (u32_to_be v ! 1) (u32_to_be v ! 2) (u32_to_be v ! 3)
           = u32_from_be (u32_to_be w ! 0) (u32_to_be w ! 1) (u32_to_be w ! 2) (u32_to_be w ! 3)"
    by simp
  then show "v = w" by (simp add: u32_to_be_def)
qed simp

section \<open>Hash maps\<close>

text \<open>
  A \<open>HashMap\<close> is an association list with distinct keys. \<open>hget\<close>, \<open>hinsert\<close>,
  \<open>hremove\<close> are \<open>get\<close>, \<open>insert\<close> and \<open>remove\<close>; \<open>hmap_values\<close> is a loop over
  \<open>values_mut\<close> or \<open>iter_mut\<close>. Rust leaves the iteration order unspecified; the list
  fixes one, and the theorems speak of sets and multisets of what an iteration produced.
\<close>

type_synonym ('k, 'v) hmap = "('k \<times> 'v) list"

abbreviation hget :: "('k, 'v) hmap \<Rightarrow> 'k \<Rightarrow> 'v option" where
  "hget m k \<equiv> map_of m k"

abbreviation hinsert :: "'k \<Rightarrow> 'v \<Rightarrow> ('k, 'v) hmap \<Rightarrow> ('k, 'v) hmap" where
  "hinsert k v m \<equiv> AList.update k v m"

abbreviation hremove :: "'k \<Rightarrow> ('k, 'v) hmap \<Rightarrow> ('k, 'v) hmap" where
  "hremove k m \<equiv> AList.delete k m"

abbreviation hmap_values :: "('k \<Rightarrow> 'v \<Rightarrow> 'w) \<Rightarrow> ('k, 'v) hmap \<Rightarrow> ('k, 'w) hmap" where
  "hmap_values f m \<equiv> AList.map_ran f m"

definition hmap_ok :: "('k, 'v) hmap \<Rightarrow> bool" where
  "hmap_ok m \<longleftrightarrow> distinct (map fst m)"

declare update_conv' [hmap_simps] delete_conv' [hmap_simps] map_ran_conv [hmap_simps]

lemma hmap_ok_Nil [simp, hmap_simps]: "hmap_ok []"
  by (simp add: hmap_ok_def)

lemma hmap_ok_insert [simp, hmap_simps]: "hmap_ok m \<Longrightarrow> hmap_ok (hinsert k v m)"
  by (simp add: hmap_ok_def distinct_update)

lemma hmap_ok_remove [simp, hmap_simps]: "hmap_ok m \<Longrightarrow> hmap_ok (hremove k m)"
  by (simp add: hmap_ok_def distinct_delete)

lemma hmap_ok_values [simp, hmap_simps]: "hmap_ok (hmap_values f m) \<longleftrightarrow> hmap_ok m"
  by (simp add: hmap_ok_def)

lemma hmap_entry_iff: "hmap_ok m \<Longrightarrow> (k, v) \<in> set m \<longleftrightarrow> hget m k = Some v"
  by (simp add: hmap_ok_def map_of_eq_Some_iff)

lemma hmap_value_iff: "hmap_ok m \<Longrightarrow> v \<in> snd ` set m \<longleftrightarrow> (\<exists>k. hget m k = Some v)"
  by (force simp: hmap_entry_iff [symmetric])

lemma hmap_card: "hmap_ok m \<Longrightarrow> card (dom (map_of m)) = length m"
  by (metis hmap_ok_def dom_map_of_conv_image_fst length_map list.set_map distinct_card)

lemma hremove_keys: "fst ` set (hremove k m) = fst ` set m - {k}"
  by (auto simp: AList.delete_eq)

lemma hinsert_keys: "fst ` set (hinsert k v m) = insert k (fst ` set m)"
  by (simp add: dom_update)

lemma hget_keys: "hget m k \<noteq> None \<longleftrightarrow> k \<in> fst ` set m"
  by (auto simp: map_of_eq_None_iff)

lemma length_hremove: "hmap_ok m \<Longrightarrow> k \<in> fst ` set m \<Longrightarrow> Suc (length (hremove k m)) = length m"
  by (induction m) (auto simp: hmap_ok_def)

lemma length_hinsert:
  "length (hinsert k v m) = (if k \<in> fst ` set m then length m else Suc (length m))"
  by (induction m) auto

section \<open>Slices cut into pieces\<close>

text \<open>\<open>slice::chunks(n)\<close>; a size of zero panics in Rust, so callers pass a positive one.\<close>

fun chunks :: "nat \<Rightarrow> 'a list \<Rightarrow> 'a list list" where
  "chunks n xs = (if n = 0 \<or> xs = [] then [] else take n xs # chunks n (drop n xs))"

declare chunks.simps [simp del]

lemma chunks_Nil [simp]: "chunks n [] = []"
  by (simp add: chunks.simps)

lemma chunks_step: "0 < n \<Longrightarrow> xs \<noteq> [] \<Longrightarrow> chunks n xs = take n xs # chunks n (drop n xs)"
  by (subst chunks.simps) simp

lemma concat_chunks [simp]: "0 < n \<Longrightarrow> concat (chunks n xs) = xs"
proof (induction n xs rule: chunks.induct)
  case (1 n xs)
  then show ?case by (cases "xs = []") (simp_all add: chunks_step)
qed

lemma length_chunks: "0 < n \<Longrightarrow> length (chunks n xs) = (length xs + n - 1) div n"
proof (induction n xs rule: chunks.induct)
  case (1 n xs)
  show ?case
  proof (cases "xs = []")
    case False
    have "(length xs + n - 1) div n = Suc ((length xs - n + n - 1) div n)"
    proof (cases "length xs < n")
      case True
      have "(length xs + n - 1) div n = 1"
        using True False "1.prems" by (intro div_nat_eqI) (cases xs; simp)+
      with True "1.prems" show ?thesis by simp
    next
      case False
      with "1.prems" have "length xs + n - 1 = (length xs - n + n - 1) + n" by simp
      then show ?thesis using "1.prems" by (metis div_add_self2 Suc_eq_plus1 less_irrefl_nat)
    qed
    with 1 False show ?thesis by (simp add: chunks_step)
  qed (use 1 in simp)
qed

lemma chunk_bounds: "0 < n \<Longrightarrow> c \<in> set (chunks n xs) \<Longrightarrow> c \<noteq> [] \<and> length c \<le> n"
proof (induction n xs rule: chunks.induct)
  case (1 n xs)
  then show ?case by (cases "xs = []") (auto simp: chunks_step)
qed

section \<open>State machines\<close>

text \<open>
  Two contracts that several components share. A transition system whose steps keep an
  invariant keeps it along every run; a component whose operations are a function of the
  state and an event is the deterministic case.
\<close>

locale invariant_system =
  fixes inv :: "'s \<Rightarrow> bool" and step :: "'s \<Rightarrow> 's \<Rightarrow> bool"
  assumes step_keeps: "step s t \<Longrightarrow> inv s \<Longrightarrow> inv t"
begin

lemma run_keeps: "step\<^sup>*\<^sup>* s t \<Longrightarrow> inv s \<Longrightarrow> inv t"
  by (induction rule: rtranclp_induct) (auto intro: step_keeps)

end

locale invariant_machine =
  fixes inv :: "'s \<Rightarrow> bool" and apply_event :: "'s \<Rightarrow> 'e \<Rightarrow> 's"
  assumes event_keeps: "inv s \<Longrightarrow> inv (apply_event s e)"
begin

lemma run_events_keep: "inv s \<Longrightarrow> inv (foldl apply_event s es)"
  by (induction es arbitrary: s) (simp_all add: event_keeps)

end

sublocale invariant_machine \<subseteq> events: invariant_system inv "\<lambda>s t. \<exists>e. t = apply_event s e"
  by unfold_locales (auto intro: event_keeps)

end
