(* ===== verification/Media.thy ===== *)
theory Media
  imports Prelude
begin

text \<open>
  The media plane of \<open>crates/boa-proto/src/media.rs\<close>: packet kinds, the 16-byte header and
  its codec, the AEAD nonce, sealing and opening datagrams, registration packets, and the
  cutting of video frames into fragments.

  The cipher (crate \<open>chacha20poly1305\<close>) and base64 (crate \<open>base64\<close>) are not in the
  repository: they are the arguments \<open>A\<close> and \<open>b64\<close>, \<open>unb64\<close> of the definitions that
  call them. What the code relies on is the predicate \<open>aead_laws\<close>: sealing a payload that
  fits adds a tag of 16 bytes and can be undone, and what opens is what sealing produces.
\<close>

section \<open>Constants\<close>

definition MAGIC :: u16 where "MAGIC = 0xB0A1"
definition MEDIA_VERSION :: u8 where "MEDIA_VERSION = 1"
definition HEADER_LEN :: nat where [simp]: "HEADER_LEN = 16"
definition TAG_LEN :: nat where [simp]: "TAG_LEN = 16"
definition MAX_DATAGRAM :: nat where [simp]: "MAX_DATAGRAM = 1200"
definition MAX_PAYLOAD :: nat where [simp]: "MAX_PAYLOAD = MAX_DATAGRAM - HEADER_LEN - TAG_LEN"
definition VOICE_SAMPLE_RATE :: u32 where "VOICE_SAMPLE_RATE = 48000"
definition VOICE_FRAME_MS :: u32 where "VOICE_FRAME_MS = 20"
definition VOICE_FRAME_SAMPLES :: nat where
  "VOICE_FRAME_SAMPLES = unat (VOICE_SAMPLE_RATE * VOICE_FRAME_MS div 1000)"

text \<open>\<open>b"boavoice/register/1"\<close>, byte by byte.\<close>

definition REGISTRATION_PLAINTEXT :: "byte list" where
  "REGISTRATION_PLAINTEXT = map of_char ''boavoice/register/1''"

lemma VOICE_FRAME_SAMPLES_eq: "VOICE_FRAME_SAMPLES = 960"
  by (simp add: VOICE_FRAME_SAMPLES_def VOICE_SAMPLE_RATE_def VOICE_FRAME_MS_def)

section \<open>Packet kinds\<close>

datatype media_kind = Voice | VideoKey | VideoDelta | Keepalive | DesktopAudio

text \<open>\<open>self.kind as u8\<close>, by the enum's explicit discriminants.\<close>

fun kind_u8 :: "media_kind \<Rightarrow> u8" where
  "kind_u8 Voice = 0"
| "kind_u8 VideoKey = 1"
| "kind_u8 VideoDelta = 2"
| "kind_u8 Keepalive = 3"
| "kind_u8 DesktopAudio = 4"

definition from_u8 :: "u8 \<Rightarrow> media_kind option" where
  "from_u8 v =
     (if v = 0 then Some Voice
      else if v = 1 then Some VideoKey
      else if v = 2 then Some VideoDelta
      else if v = 3 then Some Keepalive
      else if v = 4 then Some DesktopAudio
      else None)"

fun is_screen :: "media_kind \<Rightarrow> bool" where
  "is_screen VideoKey = True"
| "is_screen VideoDelta = True"
| "is_screen DesktopAudio = True"
| "is_screen _ = False"

fun is_video :: "media_kind \<Rightarrow> bool" where
  "is_video VideoKey = True"
| "is_video VideoDelta = True"
| "is_video _ = False"

lemma from_u8_kind [simp]: "from_u8 (kind_u8 k) = Some k"
  by (cases k) (simp_all add: from_u8_def)

lemma kind_from_u8: "from_u8 v = Some k \<Longrightarrow> kind_u8 k = v"
  by (auto simp: from_u8_def split: if_splits)

lemma kind_u8_inject [simp]: "kind_u8 k = kind_u8 l \<longleftrightarrow> k = l"
  by (metis from_u8_kind option.inject)

section \<open>The header\<close>

datatype media_error =
    TooShort nat
  | BadMagic
  | BadVersion u8
  | BadKind u8
  | NotAuthentic
  | TooLarge nat

record packet_header =
  ph_kind :: media_kind
  ph_ssrc :: u32
  ph_seq :: u32
  ph_timestamp :: u32

definition encode :: "packet_header \<Rightarrow> byte list" where
  "encode h =
     u16_to_be MAGIC @ [MEDIA_VERSION, kind_u8 (ph_kind h)]
     @ u32_to_be (ph_ssrc h) @ u32_to_be (ph_seq h) @ u32_to_be (ph_timestamp h)"

definition decode :: "byte list \<Rightarrow> media_error + packet_header" where
  "decode bytes =
     (if length bytes < HEADER_LEN then Inl (TooShort (length bytes))
      else if u16_from_be (bytes ! 0) (bytes ! 1) \<noteq> MAGIC then Inl BadMagic
      else if bytes ! 2 \<noteq> MEDIA_VERSION then Inl (BadVersion (bytes ! 2))
      else case from_u8 (bytes ! 3) of
             None \<Rightarrow> Inl (BadKind (bytes ! 3))
           | Some k \<Rightarrow> Inr
               \<lparr>ph_kind = k,
                ph_ssrc = u32_from_be (bytes ! 4) (bytes ! 5) (bytes ! 6) (bytes ! 7),
                ph_seq = u32_from_be (bytes ! 8) (bytes ! 9) (bytes ! 10) (bytes ! 11),
                ph_timestamp = u32_from_be (bytes ! 12) (bytes ! 13) (bytes ! 14) (bytes ! 15)\<rparr>)"

definition nonce :: "packet_header \<Rightarrow> byte list" where
  "nonce h = u32_to_be (ph_ssrc h) @ u32_to_be (ph_seq h) @ [kind_u8 (ph_kind h)] @ [0, 0, 0]"

lemma length_encode [simp]: "length (encode h) = HEADER_LEN"
  by (simp add: encode_def)

lemma length_nonce: "length (nonce h) = 12"
  by (simp add: nonce_def)

text \<open>Decoding reads the header only, whatever follows it.\<close>

lemma decode_encode_append: "decode (encode h @ rest) = Inr h"
  by (simp add: decode_def encode_def u16_to_be_def u32_to_be_def nth_Cons')

lemma encode_take_of_decode:
  assumes "decode bytes = Inr h"
  shows "encode h = take HEADER_LEN bytes"
proof -
  have len: "\<not> length bytes < 16"
    and magic: "u16_from_be (bytes ! 0) (bytes ! 1) = MAGIC"
    and ver: "bytes ! 2 = MEDIA_VERSION"
    using assms by (auto simp: decode_def split: if_splits)
  with assms have k: "from_u8 (bytes ! 3) = Some (ph_kind h)"
    and h: "h = \<lparr>ph_kind = ph_kind h,
                ph_ssrc = u32_from_be (bytes ! 4) (bytes ! 5) (bytes ! 6) (bytes ! 7),
                ph_seq = u32_from_be (bytes ! 8) (bytes ! 9) (bytes ! 10) (bytes ! 11),
                ph_timestamp = u32_from_be (bytes ! 12) (bytes ! 13) (bytes ! 14) (bytes ! 15)\<rparr>"
    by (auto simp: decode_def split: option.splits)
  have "encode h = [bytes ! 0, bytes ! 1, bytes ! 2, bytes ! 3, bytes ! 4, bytes ! 5, bytes ! 6,
      bytes ! 7, bytes ! 8, bytes ! 9, bytes ! 10, bytes ! 11, bytes ! 12, bytes ! 13, bytes ! 14,
      bytes ! 15]"
    by (subst h) (simp add: encode_def magic [symmetric] ver [symmetric] kind_from_u8 [OF k])
  also have "\<dots> = map (\<lambda>i. bytes ! i) [0..<16]"
    by (simp add: upt_rec numeral_eq_Suc)
  also have "\<dots> = take 16 bytes"
    using len by (simp add: list_eq_iff_nth_eq)
  finally show ?thesis by simp
qed

section \<open>The cipher\<close>

text \<open>
  \<open>encrypt_in_place\<close> works on the payload region of the datagram: it gets key, nonce,
  associated data and the region, and returns whether it succeeded and what the region holds
  afterwards. \<open>decrypt_in_place\<close> returns the plaintext, if the tag is right.
\<close>

record aead =
  encrypt_in_place :: "byte list \<Rightarrow> byte list \<Rightarrow> byte list \<Rightarrow> byte list \<Rightarrow> bool \<times> byte list"
  decrypt_in_place :: "byte list \<Rightarrow> byte list \<Rightarrow> byte list \<Rightarrow> byte list \<Rightarrow> byte list option"

definition aead_laws :: "aead \<Rightarrow> bool" where
  "aead_laws A \<longleftrightarrow>
     (\<forall>k n a p. length p \<le> MAX_PAYLOAD \<longrightarrow>
        (\<exists>c. encrypt_in_place A k n a p = (True, c) \<and> length c = length p + TAG_LEN
             \<and> decrypt_in_place A k n a c = Some p))
   \<and> (\<forall>k n a c p. decrypt_in_place A k n a c = Some p \<longrightarrow>
        length c = length p + TAG_LEN \<and> encrypt_in_place A k n a p = (True, c))"

lemma aead_encrypt:
  assumes "aead_laws A" "length p \<le> MAX_PAYLOAD"
  obtains c where "encrypt_in_place A k n a p = (True, c)" "length c = length p + TAG_LEN"
    "decrypt_in_place A k n a c = Some p"
  using assms unfolding aead_laws_def by blast

lemma aead_decrypt:
  assumes "aead_laws A" "decrypt_in_place A k n a c = Some p"
  shows "length c = length p + TAG_LEN" "encrypt_in_place A k n a p = (True, c)"
  using assms unfolding aead_laws_def by blast+

section \<open>Session keys\<close>

record session_key =
  key_bytes :: "byte list"

text \<open>\<open>from_bytes\<close> takes an array of 32 bytes; \<open>from_base64\<close> checks that length.\<close>

definition from_bytes :: "byte list \<Rightarrow> session_key" where
  "from_bytes bytes = \<lparr>key_bytes = bytes\<rparr>"

text \<open>\<open>random\<close> is a key over 32 bytes of entropy, which is the argument.\<close>

definition random_key :: "byte list \<Rightarrow> session_key" where
  "random_key entropy = from_bytes entropy"

definition to_base64 :: "(byte list \<Rightarrow> string) \<Rightarrow> session_key \<Rightarrow> string" where
  "to_base64 b64 key = b64 (key_bytes key)"

definition from_base64 :: "(string \<Rightarrow> byte list option) \<Rightarrow> string \<Rightarrow> session_key option" where
  "from_base64 unb64 txt =
     (case unb64 txt of
        None \<Rightarrow> None
      | Some bytes \<Rightarrow> if length bytes = 32 then Some (from_bytes bytes) else None)"

text \<open>
  \<open>seal\<close> writes the datagram into the caller's buffer: the result is the outcome and the
  buffer afterwards. A refused payload leaves the buffer as it was.
\<close>

definition seal ::
  "aead \<Rightarrow> session_key \<Rightarrow> packet_header \<Rightarrow> byte list \<Rightarrow> byte list
    \<Rightarrow> (media_error + unit) \<times> byte list" where
  "seal A key h plaintext out =
     (if length plaintext + HEADER_LEN + TAG_LEN > MAX_DATAGRAM
      then (Inl (TooLarge (length plaintext)), out)
      else let head = encode h;
               out = [] @ head @ plaintext;
               (ok, region) = encrypt_in_place A (key_bytes key) (nonce h) head (drop HEADER_LEN out);
               out = take HEADER_LEN out @ region
           in (if ok then Inr () else Inl NotAuthentic, out))"

definition open_datagram ::
  "aead \<Rightarrow> session_key \<Rightarrow> byte list \<Rightarrow> media_error + (packet_header \<times> byte list)" where
  "open_datagram A key datagram =
     (case decode datagram of
        Inl e \<Rightarrow> Inl e
      | Inr h \<Rightarrow>
          if length datagram < HEADER_LEN + TAG_LEN then Inl (TooShort (length datagram))
          else let head = take HEADER_LEN datagram;
                   payload = drop HEADER_LEN datagram
               in case decrypt_in_place A (key_bytes key) (nonce h) head payload of
                    None \<Rightarrow> Inl NotAuthentic
                  | Some p \<Rightarrow> Inr (h, p))"

definition verify_registration :: "aead \<Rightarrow> session_key \<Rightarrow> byte list \<Rightarrow> bool" where
  "verify_registration A key datagram =
     (case open_datagram A key datagram of
        Inr (h, payload) \<Rightarrow> ph_kind h = Keepalive \<and> payload = REGISTRATION_PLAINTEXT
      | Inl _ \<Rightarrow> False)"

text \<open>Base64 decoding undoes encoding; with that, a key survives the control plane.\<close>

lemma from_to_base64:
  assumes "\<And>bs. unb64 (b64 bs) = Some bs" and "length (key_bytes key) = 32"
  shows "from_base64 unb64 (to_base64 b64 key) = Some key"
  using assms by (simp add: from_base64_def to_base64_def from_bytes_def)

lemma seal_fits:
  assumes "aead_laws A" "length p \<le> MAX_PAYLOAD"
  obtains c where "seal A key h p out = (Inr (), encode h @ c)"
    "length c = length p + TAG_LEN"
    "encrypt_in_place A (key_bytes key) (nonce h) (encode h) p = (True, c)"
    "decrypt_in_place A (key_bytes key) (nonce h) (encode h) c = Some p"
proof -
  from assms obtain c where
    "encrypt_in_place A (key_bytes key) (nonce h) (encode h) p = (True, c)"
    "length c = length p + TAG_LEN"
    "decrypt_in_place A (key_bytes key) (nonce h) (encode h) c = Some p"
    by (rule aead_encrypt)
  with assms(2) show thesis by (intro that [of c]) (simp_all add: seal_def)
qed

lemma seal_too_large:
  "MAX_PAYLOAD < length p \<Longrightarrow> seal A key h p out = (Inl (TooLarge (length p)), out)"
  by (simp add: seal_def)

lemma open_datagram_encode:
  assumes "length c \<ge> TAG_LEN"
  shows "open_datagram A key (encode h @ c) =
    (case decrypt_in_place A (key_bytes key) (nonce h) (encode h) c of
       None \<Rightarrow> Inl NotAuthentic | Some p \<Rightarrow> Inr (h, p))"
  using assms by (simp add: open_datagram_def decode_encode_append)

lemma open_datagram_Inr:
  assumes "open_datagram A key d = Inr (h, p)"
  shows "d = encode h @ drop HEADER_LEN d"
    "decrypt_in_place A (key_bytes key) (nonce h) (encode h) (drop HEADER_LEN d) = Some p"
proof -
  from assms have dec: "decode d = Inr h"
    by (auto simp: open_datagram_def Let_def split: sum.splits option.splits if_splits)
  from encode_take_of_decode [OF dec] show eq: "d = encode h @ drop HEADER_LEN d"
    by (metis append_take_drop_id)
  from assms dec encode_take_of_decode [OF dec]
  show "decrypt_in_place A (key_bytes key) (nonce h) (encode h) (drop HEADER_LEN d) = Some p"
    by (auto simp: open_datagram_def Let_def split: option.splits if_splits)
qed

lemma seal_of_open:
  assumes "aead_laws A" "open_datagram A key d = Inr (h, p)" "length d \<le> MAX_DATAGRAM"
  shows "seal A key h p out = (Inr (), d)"
proof -
  note d = open_datagram_Inr [OF assms(2)]
  note laws = aead_decrypt [OF assms(1) d(2)]
  from laws(1) assms(3) d(1) have "length p \<le> MAX_PAYLOAD"
    by (metis (no_types, opaque_lifting) MAX_PAYLOAD_def add.commute add_le_imp_le_diff
        diff_diff_left group_cancel.add1 length_append length_encode)
  with laws(2) d(1) show ?thesis by (simp add: seal_def)
qed

lemma open_of_seal:
  assumes "aead_laws A" "length p \<le> MAX_PAYLOAD"
  shows "open_datagram A key (snd (seal A key h p out)) = Inr (h, p)"
    "length (snd (seal A key h p out)) = HEADER_LEN + length p + TAG_LEN"
    "fst (seal A key h p out) = Inr ()"
  using assms by (auto elim!: seal_fits [of A p key h out] simp: open_datagram_encode)

lemma open_iff_seal:
  assumes "aead_laws A" and "length datagram \<le> MAX_DATAGRAM"
  shows "open_datagram A key datagram = Inr (h, payload) \<longleftrightarrow>
    seal A key h payload out = (Inr (), datagram)"
proof
  assume "open_datagram A key datagram = Inr (h, payload)"
  then show "seal A key h payload out = (Inr (), datagram)"
    using assms seal_of_open by blast
next
  assume sealed: "seal A key h payload out = (Inr (), datagram)"
  then have "length payload \<le> MAX_PAYLOAD"
    by (metis Inl_Inr_False fst_conv linorder_not_le seal_too_large)
  with sealed open_of_seal [OF assms(1) this, of key h out]
  show "open_datagram A key datagram = Inr (h, payload)" by simp
qed

lemma verify_registration_iff_open:
  "verify_registration A key datagram \<longleftrightarrow>
    (\<exists>h. ph_kind h = Keepalive \<and> open_datagram A key datagram = Inr (h, REGISTRATION_PLAINTEXT))"
  by (cases "open_datagram A key datagram") (auto simp: verify_registration_def)

lemma length_REGISTRATION_PLAINTEXT [simp]: "length REGISTRATION_PLAINTEXT = 19"
  by (simp add: REGISTRATION_PLAINTEXT_def)

definition registration :: "aead \<Rightarrow> session_key \<Rightarrow> u32 \<Rightarrow> u32 \<Rightarrow> byte list" where
  "registration A key stream n =
     snd (seal A key \<lparr>ph_kind = Keepalive, ph_ssrc = stream, ph_seq = n, ph_timestamp = 0\<rparr>
            REGISTRATION_PLAINTEXT [])"

lemma verify_own_registration:
  assumes "aead_laws A"
  shows "verify_registration A key (registration A key stream n)"
    "decode (registration A key stream n) =
       Inr \<lparr>ph_kind = Keepalive, ph_ssrc = stream, ph_seq = n, ph_timestamp = 0\<rparr>"
    "length (registration A key stream n) = 51"
proof -
  let ?h = "\<lparr>ph_kind = Keepalive, ph_ssrc = stream, ph_seq = n, ph_timestamp = 0\<rparr>"
  have fits: "length REGISTRATION_PLAINTEXT \<le> MAX_PAYLOAD" by simp
  note o = open_of_seal [OF assms fits, of key ?h "[]"]
  from o(1) show "verify_registration A key (registration A key stream n)"
    by (simp add: verify_registration_def registration_def)
  from o(1) show "decode (registration A key stream n) = Inr ?h"
    by (auto simp: open_datagram_def registration_def Let_def split: sum.splits option.splits if_splits)
  from o(2) show "length (registration A key stream n) = 51"
    by (simp add: registration_def)
qed

text \<open>A transparent cipher that satisfies the laws, for concrete inputs.\<close>

definition toy_tag :: "byte list \<Rightarrow> byte list \<Rightarrow> byte list \<Rightarrow> byte list" where
  "toy_tag k n a = take 16 (k @ n @ a @ replicate 16 0)"

definition toy_aead :: aead where
  "toy_aead = \<lparr>encrypt_in_place = (\<lambda>k n a p. (True, p @ toy_tag k n a)),
     decrypt_in_place = (\<lambda>k n a c.
        if 16 \<le> length c \<and> drop (length c - 16) c = toy_tag k n a
        then Some (take (length c - 16) c) else None)\<rparr>"

lemma toy_aead_laws: "aead_laws toy_aead"
proof -
  have tag: "length (toy_tag k n a) = 16" for k n a by (simp add: toy_tag_def)
  show ?thesis
    unfolding aead_laws_def toy_aead_def
    by (auto simp: tag split: if_splits) (metis append_take_drop_id)
qed

section \<open>Video fragments\<close>

definition FRAG_HEADER_LEN :: nat where [simp]: "FRAG_HEADER_LEN = 4"
definition MAX_VIDEO_CHUNK :: nat where [simp]: "MAX_VIDEO_CHUNK = MAX_PAYLOAD - FRAG_HEADER_LEN"

text \<open>\<open>index as u16\<close> and \<open>count as u16\<close> keep the low sixteen bits.\<close>

definition fragment :: "byte list \<Rightarrow> (u16 \<times> u16 \<times> byte list) list" where
  "fragment frame =
     (let cnt = (length frame + MAX_VIDEO_CHUNK - 1) div MAX_VIDEO_CHUNK
      in map (\<lambda>(index, chunk). (word_of_nat index, word_of_nat cnt, chunk))
           (enumerate 0 (chunks MAX_VIDEO_CHUNK frame)))"

definition write_fragment :: "u16 \<Rightarrow> u16 \<Rightarrow> byte list \<Rightarrow> byte list \<Rightarrow> byte list" where
  "write_fragment index cnt chunk out =
     [] @ u16_to_be index @ u16_to_be cnt @ chunk"

definition read_fragment :: "byte list \<Rightarrow> (u16 \<times> u16 \<times> byte list) option" where
  "read_fragment payload =
     (if length payload < FRAG_HEADER_LEN then None
      else let index = u16_from_be (payload ! 0) (payload ! 1);
               cnt = u16_from_be (payload ! 2) (payload ! 3)
           in if cnt = 0 \<or> cnt \<le> index then None
              else Some (index, cnt, drop FRAG_HEADER_LEN payload))"

lemma read_write_fragment:
  assumes "index < cnt"
  shows "read_fragment (write_fragment index cnt chunk out) = Some (index, cnt, chunk)"
proof -
  from assms have "cnt \<noteq> 0" and "\<not> cnt \<le> index" by auto
  then show ?thesis
    by (simp add: read_fragment_def write_fragment_def u16_to_be_def nth_Cons')
qed

lemma read_fragment_Some:
  assumes "read_fragment payload = Some (index, cnt, chunk)"
  shows "index < cnt" "cnt \<noteq> 0" "payload = write_fragment index cnt chunk out"
proof -
  from assms have len: "\<not> length payload < 4"
    and i: "index = u16_from_be (payload ! 0) (payload ! 1)"
    and c: "cnt = u16_from_be (payload ! 2) (payload ! 3)"
    and d: "chunk = drop 4 payload"
    and lt: "\<not> (cnt = 0 \<or> cnt \<le> index)"
    by (auto simp: read_fragment_def Let_def split: if_splits)
  from lt show "index < cnt" "cnt \<noteq> 0" by auto
  have "payload = take 4 payload @ chunk" by (simp add: d)
  also have "take 4 payload = map (\<lambda>i. payload ! i) [0..<4]"
    using len by (simp add: list_eq_iff_nth_eq)
  also have "\<dots> = u16_to_be index @ u16_to_be cnt"
    by (simp add: upt_rec i c numeral_eq_Suc)
  finally show "payload = write_fragment index cnt chunk out"
    by (simp add: write_fragment_def)
qed

lemma length_fragment: "length (fragment frame) = (length frame + 1163) div 1164"
  by (simp add: fragment_def Let_def length_chunks)

lemma fragment_nth:
  assumes "i < length (fragment frame)"
  shows "fragment frame ! i =
    (word_of_nat i, word_of_nat (length (fragment frame)), chunks MAX_VIDEO_CHUNK frame ! i)"
  using assms by (simp add: fragment_def Let_def length_chunks nth_enumerate_eq)

lemma fragment_data: "map (snd \<circ> snd) (fragment frame) = chunks MAX_VIDEO_CHUNK frame"
  by (simp add: fragment_def Let_def comp_def case_prod_unfold)

lemma fragment_concat: "concat (map (snd \<circ> snd) (fragment frame)) = frame"
  unfolding fragment_data by (rule concat_chunks) simp

lemma fragment_index_lt:
  assumes "length (fragment frame) < 2 ^ 16" "i < length (fragment frame)"
  shows "(word_of_nat i :: u16) < word_of_nat (length (fragment frame))"
  using assms by (simp add: word_less_nat_alt unat_of_nat)

end
