(* ===== verification/Model.thy ===== *)
theory Model
  imports Media
begin

text \<open>
  The data of the control plane: \<open>crates/boa-proto/src/lib.rs\<close> (identifiers, time,
  protocol versions), \<open>model.rs\<close> (users, channels, messages, attachments, voice states)
  and \<open>control.rs\<close> (the messages in both directions). A Rust \<open>String\<close> is the list of its
  Unicode scalar values, so that \<open>chars().count()\<close> is the length of the list and \<open>len()\<close>
  is \<open>utf8_len\<close>. JSON (crate \<open>serde_json\<close>) is not modelled: messages travel as values.
\<close>

section \<open>Strings\<close>

type_synonym rstring = "nat list"

definition str :: "string \<Rightarrow> rstring" where
  "str s = map of_char s"

text \<open>\<open>char::is_whitespace\<close>: the code points with the Unicode property \<open>White_Space\<close>.\<close>

definition is_whitespace :: "nat \<Rightarrow> bool" where
  "is_whitespace c \<longleftrightarrow>
     (9 \<le> c \<and> c \<le> 13) \<or> c = 32 \<or> c = 133 \<or> c = 160 \<or> c = 5760 \<or> (8192 \<le> c \<and> c \<le> 8202)
     \<or> c = 8232 \<or> c = 8233 \<or> c = 8239 \<or> c = 8287 \<or> c = 12288"

definition trim_start :: "rstring \<Rightarrow> rstring" where
  "trim_start s = dropWhile is_whitespace s"

definition trim_end :: "rstring \<Rightarrow> rstring" where
  "trim_end s = rev (dropWhile is_whitespace (rev s))"

definition trim :: "rstring \<Rightarrow> rstring" where
  "trim s = trim_end (trim_start s)"

definition utf8_len :: "rstring \<Rightarrow> nat" where
  "utf8_len s =
     sum_list (map (\<lambda>c. if c < 128 then 1 else if c < 2048 then 2 else if c < 65536 then 3 else 4) s)"

lemma trim_Nil [simp]: "trim [] = []"
  by (simp add: trim_def trim_start_def trim_end_def)

lemma trim_length: "length (trim s) \<le> length s"
proof -
  have "length (trim s) \<le> length (trim_start s)"
    unfolding trim_def trim_end_def by (metis length_dropWhile_le length_rev)
  also have "\<dots> \<le> length s"
    unfolding trim_start_def by (rule length_dropWhile_le)
  finally show ?thesis .
qed

lemma trim_no_leading: "trim s \<noteq> [] \<Longrightarrow> \<not> is_whitespace (hd (trim s))"
proof -
  assume ne: "trim s \<noteq> []"
  let ?t = "dropWhile is_whitespace s"
  have "?t \<noteq> []"
  proof
    assume "?t = []"
    then have "trim s = []" by (simp only: trim_def trim_start_def trim_end_def) simp
    with ne show False ..
  qed
  then have hd: "\<not> is_whitespace (hd ?t)" by (rule hd_dropWhile)
  obtain d where "?t = trim s @ d"
    unfolding trim_def trim_start_def trim_end_def
    by (metis rev_append rev_rev_ident takeWhile_dropWhile_id)
  with ne hd show ?thesis by (metis hd_append2)
qed

lemma trim_no_trailing: "trim s \<noteq> [] \<Longrightarrow> \<not> is_whitespace (last (trim s))"
  unfolding trim_def trim_end_def
  by (metis hd_dropWhile last_rev rev_is_Nil_conv)

section \<open>Identifiers, time and versions\<close>

datatype id = Id (id_val: u64)

instantiation id :: linorder
begin

definition less_eq_id :: "id \<Rightarrow> id \<Rightarrow> bool" where
  "less_eq_id a b \<longleftrightarrow> id_val a \<le> id_val b"

definition less_id :: "id \<Rightarrow> id \<Rightarrow> bool" where
  "less_id a b \<longleftrightarrow> id_val a < id_val b"

instance
  by standard (auto simp: less_eq_id_def less_id_def id.expand)

end

lemma id_less_simps [simp]: "Id a < Id b \<longleftrightarrow> a < b" "Id a \<le> Id b \<longleftrightarrow> a \<le> b"
  by (simp_all add: less_id_def less_eq_id_def)

definition NONE_ID :: id where "NONE_ID = Id 0"

definition is_none :: "id \<Rightarrow> bool" where
  "is_none i \<longleftrightarrow> id_val i = 0"

definition PROTOCOL_VERSION :: u16 where "PROTOCOL_VERSION = 2"
definition MIN_PROTOCOL_VERSION :: u16 where "MIN_PROTOCOL_VERSION = 1"
definition ATTACHMENT_TTL_SECS :: u64 where "ATTACHMENT_TTL_SECS = 3 * 24 * 60 * 60"

text \<open>\<open>Millis\<close> is an \<open>i64\<close> count of milliseconds; the clock is an argument of the model.\<close>

type_synonym millis = int

text \<open>Decimal digits, as \<open>Display\<close> prints a \<open>u64\<close>.\<close>

fun decimal :: "nat \<Rightarrow> rstring" where
  "decimal n = (if n < 10 then [48 + n] else decimal (n div 10) @ [48 + n mod 10])"

declare decimal.simps [simp del]

section \<open>What a server contains\<close>

record user =
  u_id :: id
  u_name :: rstring
  u_display_name :: rstring
  u_online :: bool

definition label :: "user \<Rightarrow> rstring" where
  "label u = (if trim (u_display_name u) = [] then u_name u else u_display_name u)"

datatype channel_kind = Text | Voice

record channel =
  ch_id :: id
  ch_name :: rstring
  ch_kind :: channel_kind
  ch_position :: int
  ch_topic :: rstring

record attachment =
  at_id :: id
  at_name :: rstring
  at_size :: u64
  at_content_type :: rstring
  at_width :: u32
  at_height :: u32
  at_sha256 :: rstring
  at_expires_at :: millis

definition is_image :: "attachment \<Rightarrow> bool" where
  "is_image a \<longleftrightarrow> at_content_type a \<in>
     {str ''image/png'', str ''image/jpeg'', str ''image/gif'', str ''image/webp'', str ''image/bmp''}"

definition expired_at :: "attachment \<Rightarrow> millis \<Rightarrow> bool" where
  "expired_at a now \<longleftrightarrow> now \<ge> at_expires_at a"

record message =
  msg_id :: id
  msg_channel :: id
  msg_author :: id
  msg_content :: rstring
  msg_created_at :: millis
  msg_edited_at :: "millis option"
  msg_attachments :: "attachment list"
  msg_nonce :: "rstring option"

record screen_share =
  sh_ssrc :: u32
  sh_width :: u32
  sh_height :: u32
  sh_fps :: u32
  sh_kbps :: u32
  sh_with_audio :: bool

record voice_state =
  vs_user :: id
  vs_channel :: id
  vs_muted :: bool
  vs_deafened :: bool
  vs_ssrc :: u32
  vs_screen :: "screen_share option"

definition silent :: "voice_state \<Rightarrow> bool" where
  "silent v \<longleftrightarrow> vs_muted v \<or> vs_deafened v"

record server_info =
  si_name :: rstring
  si_media_port :: u16
  si_protocol_version :: u16
  si_attachment_ttl_secs :: u64
  si_max_upload_bytes :: u64
  si_wormhole_rendezvous :: "rstring option"
  si_wormhole_transit :: "rstring option"

record file_offer =
  fo_code :: rstring
  fo_name :: rstring
  fo_size :: u64
  fo_channel :: id

section \<open>The control plane's messages\<close>

record screen_request =
  rq_width :: u32
  rq_height :: u32
  rq_fps :: u32
  rq_kbps :: u32
  rq_with_audio :: bool

datatype client_msg =
    Identify rstring u16 rstring                          \<comment> \<open>token, protocol version, agent\<close>
  | History id "id option" u16                            \<comment> \<open>channel, before, limit\<close>
  | SendMessage id rstring rstring "id list"              \<comment> \<open>channel, content, nonce, attachments\<close>
  | EditMessage id rstring
  | DeleteMessage id
  | Typing id
  | CreateChannel rstring channel_kind
  | SetDisplayName rstring
  | JoinVoice id
  | LeaveVoice
  | UpdateVoiceState bool bool                            \<comment> \<open>muted, deafened\<close>
  | Speaking bool
  | StartScreen screen_request
  | StopScreen
  | WatchScreen id
  | UnwatchScreen id
  | ScreenReport id u32 u32 bool                          \<comment> \<open>user, received, lost, want keyframe\<close>
  | OfferFile id file_offer
  | CancelFileOffer id rstring
  | Ping u64

datatype error_code =
    Unauthorised | VersionMismatch | NotFound | Forbidden | BadRequest | RateLimited | Internal

datatype server_msg =
    Ready user server_info "user list" "channel list" "voice_state list"
  | MessageCreate message
  | MessageUpdate message
  | MessageDelete id id                                   \<comment> \<open>channel, id\<close>
  | History id "message list" bool                        \<comment> \<open>channel, page, complete\<close>
  | Typing id id                                          \<comment> \<open>channel, user\<close>
  | Presence id bool
  | UserUpdate user
  | ChannelCreate channel
  | VoiceReady id u32 string u16                          \<comment> \<open>channel, ssrc, key, media port\<close>
  | VoiceState voice_state
  | VoiceLeave id id                                      \<comment> \<open>user, channel\<close>
  | Speaking id bool
  | ScreenStart id screen_share
  | ScreenStop id
  | ScreenReport id u32 u32 bool                          \<comment> \<open>from, received, lost, want keyframe\<close>
  | FileOffer id file_offer
  | FileOfferCancelled id rstring
  | AttachmentReady attachment
  | Error error_code rstring bool                         \<comment> \<open>code, message, fatal\<close>
  | Pong u64

definition error :: "error_code \<Rightarrow> rstring \<Rightarrow> server_msg" where
  "error code message = Error code message False"

definition fatal :: "error_code \<Rightarrow> rstring \<Rightarrow> server_msg" where
  "fatal code message = Error code message True"

end
