(* ===== verification/Hub.thy ===== *)
theory Hub
  imports Model
begin

text \<open>
  The server's volatile state, \<open>crates/boa-server/src/hub.rs\<close>: connections, voice
  membership, stream identifiers, channel keys, and the routing decision of the relay. Each
  method of \<open>Hub\<close> is a function from the state to its result and the new state; the mutex
  makes every method one atomic step. What a method sends into the connections' channels is
  returned as a list of (connection, message) pairs. Entropy, the clock, base64 and the
  liveness of a receiver (\<open>UnboundedSender::send\<close> fails when it is gone) are arguments.
\<close>

section \<open>State\<close>

datatype socket_addr = AddrV4 u32 u16 | AddrV6 "128 word" u16 u32 u32

datatype conn_id = ConnId (conn_val: u64)

instantiation conn_id :: linorder
begin

definition less_eq_conn_id :: "conn_id \<Rightarrow> conn_id \<Rightarrow> bool" where
  "less_eq_conn_id a b \<longleftrightarrow> conn_val a \<le> conn_val b"

definition less_conn_id :: "conn_id \<Rightarrow> conn_id \<Rightarrow> bool" where
  "less_conn_id a b \<longleftrightarrow> conn_val a < conn_val b"

instance
  by standard (auto simp: less_eq_conn_id_def less_conn_id_def conn_id.expand)

end

datatype route = Register session_key id | Forward "socket_addr list" | Drop

record conn =
  cn_user :: id

type_synonym delivery = "conn_id \<times> server_msg"

record member =
  mb_channel :: id
  mb_voice_ssrc :: u32
  mb_screen_ssrc :: u32
  mb_muted :: bool
  mb_deafened :: bool
  mb_screen :: "screen_share option"
  mb_watching :: "id set"
  mb_addr :: "socket_addr option"
  mb_last_seen :: nat

record hub_state =
  conns :: "(conn_id, conn) hmap"
  members :: "(id, member) hmap"
  by_ssrc :: "(u32, id) hmap"
  keys :: "(id, session_key) hmap"
  next_conn :: u64
  next_ssrc :: u32

definition new_state :: hub_state where
  "new_state = \<lparr>conns = [], members = [], by_ssrc = [], keys = [], next_conn = 1, next_ssrc = 1\<rparr>"

section \<open>Connections\<close>

definition connect :: "hub_state \<Rightarrow> id \<Rightarrow> (conn_id \<times> bool) \<times> hub_state" where
  "connect st user =
     (let first = \<not> (\<exists>(_, c) \<in> set (conns st). cn_user c = user);
          cid = ConnId (next_conn st)
      in ((cid, first),
          st\<lparr>next_conn := next_conn st + 1, conns := hinsert cid \<lparr>cn_user = user\<rparr> (conns st)\<rparr>))"

definition disconnect :: "hub_state \<Rightarrow> conn_id \<Rightarrow> bool \<times> hub_state" where
  "disconnect st cid =
     (case hget (conns st) cid of
        None \<Rightarrow> (False, st)
      | Some gone \<Rightarrow>
          let st' = st\<lparr>conns := hremove cid (conns st)\<rparr>
          in (\<not> (\<exists>(_, c) \<in> set (conns st'). cn_user c = cn_user gone), st'))"

definition online :: "hub_state \<Rightarrow> id set" where
  "online st = (\<lambda>(_, c). cn_user c) ` set (conns st)"

definition broadcast :: "hub_state \<Rightarrow> server_msg \<Rightarrow> delivery list" where
  "broadcast st msg = map (\<lambda>(cid, _). (cid, msg)) (conns st)"

definition broadcast_except :: "hub_state \<Rightarrow> conn_id \<Rightarrow> server_msg \<Rightarrow> delivery list" where
  "broadcast_except st except msg =
     map (\<lambda>(cid, _). (cid, msg)) (filter (\<lambda>(cid, _). cid \<noteq> except) (conns st))"

definition send_to_user ::
  "(conn_id \<Rightarrow> bool) \<Rightarrow> hub_state \<Rightarrow> id \<Rightarrow> server_msg \<Rightarrow> bool \<times> delivery list" where
  "send_to_user alive st user msg =
     (let targets = filter (\<lambda>(_, c). cn_user c = user) (conns st)
      in (\<exists>(cid, _) \<in> set targets. alive cid, map (\<lambda>(cid, _). (cid, msg)) targets))"

definition send_to_conn :: "hub_state \<Rightarrow> conn_id \<Rightarrow> server_msg \<Rightarrow> delivery list" where
  "send_to_conn st cid msg = (case hget (conns st) cid of None \<Rightarrow> [] | Some _ \<Rightarrow> [(cid, msg)])"

definition decorate_presence :: "hub_state \<Rightarrow> user list \<Rightarrow> user list" where
  "decorate_presence st users = map (\<lambda>u. u\<lparr>u_online := u_id u \<in> online st\<rparr>) users"

section \<open>Voice membership\<close>

text \<open>\<open>Member::state\<close>.\<close>

definition member_state :: "member \<Rightarrow> id \<Rightarrow> voice_state" where
  "member_state m user =
     \<lparr>vs_user = user, vs_channel = mb_channel m, vs_muted = mb_muted m,
      vs_deafened = mb_deafened m, vs_ssrc = mb_voice_ssrc m, vs_screen = mb_screen m\<rparr>"

text \<open>
  \<open>State::take_ssrc\<close>: the loop runs until it finds an identifier that is not zero and not
  taken. With none left it never returns, which is the value \<open>None\<close>.
\<close>

partial_function (option) take_ssrc :: "hub_state \<Rightarrow> (u32 \<times> hub_state) option" where
  "take_ssrc st =
     (let ssrc = next_ssrc st;
          st' = st\<lparr>next_ssrc := next_ssrc st + 1\<rparr>
      in if ssrc \<noteq> 0 \<and> hget (by_ssrc st') ssrc = None then Some (ssrc, st') else take_ssrc st')"

definition remove_member :: "hub_state \<Rightarrow> id \<Rightarrow> id option \<times> hub_state" where
  "remove_member st user =
     (case hget (members st) user of
        None \<Rightarrow> (None, st)
      | Some m \<Rightarrow>
          let others = hmap_values (\<lambda>_ other. other\<lparr>mb_watching := mb_watching other - {user}\<rparr>)
                         (hremove user (members st));
              st' = st\<lparr>members := others,
                       by_ssrc := hremove (mb_screen_ssrc m) (hremove (mb_voice_ssrc m) (by_ssrc st))\<rparr>
          in (Some (mb_channel m),
              if \<not> (\<exists>(_, other) \<in> set others. mb_channel other = mb_channel m)
              then st'\<lparr>keys := hremove (mb_channel m) (keys st')\<rparr>
              else st'))"

definition join_voice ::
  "(byte list \<Rightarrow> string) \<Rightarrow> byte list \<Rightarrow> nat \<Rightarrow> hub_state \<Rightarrow> id \<Rightarrow> id
    \<Rightarrow> ((voice_state \<times> string \<times> id option) \<times> hub_state) option" where
  "join_voice b64 entropy now st user channel =
     (case remove_member st user of (previous, st0) \<Rightarrow>
      case take_ssrc st0 of
        None \<Rightarrow> None
      | Some (voice_ssrc, st1) \<Rightarrow>
      case take_ssrc st1 of
        None \<Rightarrow> None
      | Some (screen_ssrc, st2) \<Rightarrow>
          let st3 = st2\<lparr>by_ssrc := hinsert screen_ssrc user (hinsert voice_ssrc user (by_ssrc st2))\<rparr>;
              (key, st4) =
                (case hget (keys st3) channel of
                   Some key \<Rightarrow> (key, st3)
                 | None \<Rightarrow> let key = random_key entropy
                           in (key, st3\<lparr>keys := hinsert channel key (keys st3)\<rparr>));
              m = \<lparr>mb_channel = channel, mb_voice_ssrc = voice_ssrc, mb_screen_ssrc = screen_ssrc,
                   mb_muted = False, mb_deafened = False, mb_screen = None, mb_watching = {},
                   mb_addr = None, mb_last_seen = now\<rparr>;
              st5 = st4\<lparr>members := hinsert user m (members st4)\<rparr>;
              voice = \<lparr>vs_user = user, vs_channel = channel, vs_muted = False,
                       vs_deafened = False, vs_ssrc = voice_ssrc, vs_screen = None\<rparr>
          in Some ((voice, to_base64 b64 key, previous), st5))"

definition leave_voice :: "hub_state \<Rightarrow> id \<Rightarrow> id option \<times> hub_state" where
  "leave_voice st user = remove_member st user"

definition set_voice_flags ::
  "hub_state \<Rightarrow> id \<Rightarrow> bool \<Rightarrow> bool \<Rightarrow> voice_state option \<times> hub_state" where
  "set_voice_flags st user muted deafened =
     (case hget (members st) user of
        None \<Rightarrow> (None, st)
      | Some m \<Rightarrow>
          let m' = m\<lparr>mb_muted := muted, mb_deafened := deafened\<rparr>
          in (Some (member_state m' user), st\<lparr>members := hinsert user m' (members st)\<rparr>))"

definition start_screen ::
  "hub_state \<Rightarrow> id \<Rightarrow> screen_request \<Rightarrow> screen_share option \<times> hub_state" where
  "start_screen st user request =
     (case hget (members st) user of
        None \<Rightarrow> (None, st)
      | Some m \<Rightarrow>
          let share = \<lparr>sh_ssrc = mb_screen_ssrc m, sh_width = rq_width request,
                       sh_height = rq_height request, sh_fps = rq_fps request,
                       sh_kbps = rq_kbps request, sh_with_audio = rq_with_audio request\<rparr>
          in (Some share, st\<lparr>members := hinsert user (m\<lparr>mb_screen := Some share\<rparr>) (members st)\<rparr>))"

definition stop_screen :: "hub_state \<Rightarrow> id \<Rightarrow> id option \<times> hub_state" where
  "stop_screen st user =
     (case hget (members st) user of
        None \<Rightarrow> (None, st)
      | Some m \<Rightarrow>
          let ms = hinsert user (m\<lparr>mb_screen := None\<rparr>) (members st);
              ms = hmap_values (\<lambda>_ other. other\<lparr>mb_watching := mb_watching other - {user}\<rparr>) ms
          in (Some (mb_channel m), st\<lparr>members := ms\<rparr>))"

definition watch :: "hub_state \<Rightarrow> id \<Rightarrow> id \<Rightarrow> bool \<times> hub_state" where
  "watch st viewer target =
     (case map_option mb_channel (hget (members st) target) of
        None \<Rightarrow> (False, st)
      | Some target_channel \<Rightarrow>
          (case hget (members st) viewer of
             Some m \<Rightarrow>
               if mb_channel m = target_channel
               then (True, st\<lparr>members := hinsert viewer
                             (m\<lparr>mb_watching := insert target (mb_watching m)\<rparr>) (members st)\<rparr>)
               else (False, st)
           | None \<Rightarrow> (False, st)))"

definition unwatch :: "hub_state \<Rightarrow> id \<Rightarrow> id \<Rightarrow> hub_state" where
  "unwatch st viewer target =
     (case hget (members st) viewer of
        None \<Rightarrow> st
      | Some m \<Rightarrow> st\<lparr>members := hinsert viewer
                       (m\<lparr>mb_watching := mb_watching m - {target}\<rparr>) (members st)\<rparr>)"

definition is_watching :: "hub_state \<Rightarrow> id \<Rightarrow> id \<Rightarrow> bool" where
  "is_watching st viewer target =
     (let sharing = (case hget (members st) target of None \<Rightarrow> False | Some m \<Rightarrow> mb_screen m \<noteq> None);
          subscribed = (case hget (members st) viewer of None \<Rightarrow> False | Some m \<Rightarrow> target \<in> mb_watching m)
      in sharing \<and> subscribed)"

definition voice_states :: "hub_state \<Rightarrow> voice_state list" where
  "voice_states st = sort_key vs_user (map (\<lambda>(user, m). member_state m user) (members st))"

definition voice_channel_of :: "hub_state \<Rightarrow> id \<Rightarrow> id option" where
  "voice_channel_of st user = map_option mb_channel (hget (members st) user)"

definition voice_peers :: "hub_state \<Rightarrow> id \<Rightarrow> id list" where
  "voice_peers st user =
     (case map_option mb_channel (hget (members st) user) of
        None \<Rightarrow> []
      | Some channel \<Rightarrow>
          map fst (filter (\<lambda>(other, m). other \<noteq> user \<and> mb_channel m = channel) (members st)))"

section \<open>The relay's side\<close>

definition route :: "hub_state \<Rightarrow> packet_header \<Rightarrow> socket_addr \<Rightarrow> route" where
  "route st h sender =
     (case hget (by_ssrc st) (ph_ssrc h) of
        None \<Rightarrow> Drop
      | Some user \<Rightarrow>
      case hget (members st) user of
        None \<Rightarrow> Drop
      | Some m \<Rightarrow>
          if ph_kind h = Keepalive
          then (case hget (keys st) (mb_channel m) of
                  None \<Rightarrow> Drop
                | Some key \<Rightarrow> Register key user)
          else if mb_addr m \<noteq> Some sender then Drop
          else
            let expected_screen = is_screen (ph_kind h);
                matches_stream =
                  (if expected_screen then ph_ssrc h = mb_screen_ssrc m
                   else ph_ssrc h = mb_voice_ssrc m)
            in if \<not> matches_stream then Drop
               else Forward
                 (if expected_screen
                  then List.map_filter (\<lambda>(_, peer). mb_addr peer)
                         (filter (\<lambda>(other, peer). other \<noteq> user \<and> mb_channel peer = mb_channel m
                                     \<and> user \<in> mb_watching peer) (members st))
                  else List.map_filter (\<lambda>(_, peer). mb_addr peer)
                         (filter (\<lambda>(other, peer). other \<noteq> user \<and> mb_channel peer = mb_channel m
                                     \<and> \<not> mb_deafened peer) (members st))))"

definition bind_media_address ::
  "nat \<Rightarrow> hub_state \<Rightarrow> id \<Rightarrow> socket_addr \<Rightarrow> socket_addr option \<times> hub_state" where
  "bind_media_address now st user addr =
     (case hget (members st) user of
        None \<Rightarrow> (None, st)
      | Some m \<Rightarrow>
          (Some addr, st\<lparr>members := hinsert user
                          (m\<lparr>mb_addr := Some addr, mb_last_seen := now\<rparr>) (members st)\<rparr>))"

definition media_registered :: "hub_state \<Rightarrow> nat" where
  "media_registered st = length (filter (\<lambda>(_, m). mb_addr m \<noteq> None) (members st))"

end
