(* ===== verification/HubInv.thy ===== *)
theory HubInv
  imports Hub
begin

text \<open>
  The invariant of the hub's state and its preservation by every method: the stream table
  holds exactly the members' streams, a channel has a key exactly while it is occupied,
  subscriptions stay inside a channel, and a share carries its owner's screen stream. Then
  the behaviour of the allocator \<open>take_ssrc\<close>: it returns while an identifier is free, and
  hands out the next free one.
\<close>

section \<open>The invariant\<close>

definition maps_ok :: "hub_state \<Rightarrow> bool" where
  "maps_ok st \<longleftrightarrow>
     hmap_ok (conns st) \<and> hmap_ok (members st) \<and> hmap_ok (by_ssrc st) \<and> hmap_ok (keys st)"

definition streams_inv :: "hub_state \<Rightarrow> bool" where
  "streams_inv st \<longleftrightarrow>
     (\<forall>s u. hget (by_ssrc st) s = Some u \<longleftrightarrow>
        (\<exists>m. hget (members st) u = Some m \<and> (s = mb_voice_ssrc m \<or> s = mb_screen_ssrc m)))"

definition ids_inv :: "hub_state \<Rightarrow> bool" where
  "ids_inv st \<longleftrightarrow>
     (\<forall>u m. hget (members st) u = Some m \<longrightarrow>
        mb_voice_ssrc m \<noteq> mb_screen_ssrc m \<and> mb_voice_ssrc m \<noteq> 0 \<and> mb_screen_ssrc m \<noteq> 0)"

definition keys_inv :: "hub_state \<Rightarrow> bool" where
  "keys_inv st \<longleftrightarrow>
     (\<forall>c. hget (keys st) c \<noteq> None \<longleftrightarrow> (\<exists>u m. hget (members st) u = Some m \<and> mb_channel m = c))"

definition watching_inv :: "hub_state \<Rightarrow> bool" where
  "watching_inv st \<longleftrightarrow>
     (\<forall>u m w. hget (members st) u = Some m \<longrightarrow> w \<in> mb_watching m \<longrightarrow>
        (\<exists>m'. hget (members st) w = Some m' \<and> mb_channel m' = mb_channel m))"

definition share_inv :: "hub_state \<Rightarrow> bool" where
  "share_inv st \<longleftrightarrow>
     (\<forall>u m sh. hget (members st) u = Some m \<longrightarrow> mb_screen m = Some sh \<longrightarrow>
        sh_ssrc sh = mb_screen_ssrc m)"

definition hub_inv :: "hub_state \<Rightarrow> bool" where
  "hub_inv st \<longleftrightarrow>
     maps_ok st \<and> streams_inv st \<and> ids_inv st \<and> keys_inv st \<and> watching_inv st \<and> share_inv st"

lemmas hub_inv_defs = hub_inv_def maps_ok_def streams_inv_def ids_inv_def keys_inv_def
  watching_inv_def share_inv_def

lemma hub_inv_new: "hub_inv new_state"
  by (simp add: hub_inv_defs new_state_def)

lemma hub_inv_streamD:
  "hub_inv st \<Longrightarrow> hget (by_ssrc st) s = Some u \<Longrightarrow>
     \<exists>m. hget (members st) u = Some m \<and> (s = mb_voice_ssrc m \<or> s = mb_screen_ssrc m)"
  by (simp add: hub_inv_def streams_inv_def)

lemma hub_inv_keyD:
  "hub_inv st \<Longrightarrow> hget (members st) u = Some m \<Longrightarrow> \<exists>k. hget (keys st) (mb_channel m) = Some k"
  unfolding hub_inv_def keys_inv_def by blast

section \<open>Updates of one member or of all members\<close>

lemma hub_inv_same_fields:
  "hub_inv (st\<lparr>conns := cs\<rparr>) \<longleftrightarrow>
     hub_inv st \<and> hmap_ok cs" if "hmap_ok (conns st)"
  using that by (auto simp: hub_inv_defs)

lemma hub_inv_next [simp]:
  "hub_inv (st\<lparr>next_conn := n\<rparr>) = hub_inv st" "hub_inv (st\<lparr>next_ssrc := s\<rparr>) = hub_inv st"
  by (simp_all add: hub_inv_defs)

lemma hub_inv_conns: "hub_inv st \<Longrightarrow> hmap_ok (conns st)"
  by (simp add: hub_inv_defs)

lemma hub_inv_members: "hub_inv st \<Longrightarrow> hmap_ok (members st)"
  by (simp add: hub_inv_defs)

text \<open>
  The members decide the rest: a new member table with the same users, channels and streams
  keeps the invariant if its subscriptions and shares are right.
\<close>

lemma hub_inv_change_members:
  assumes inv: "hub_inv st" and ok: "hmap_ok ms"
    and same: "\<And>u. map_option (\<lambda>m. (mb_channel m, mb_voice_ssrc m, mb_screen_ssrc m)) (hget ms u)
                 = map_option (\<lambda>m. (mb_channel m, mb_voice_ssrc m, mb_screen_ssrc m))
                     (hget (members st) u)"
    and watching: "\<And>u m w. hget ms u = Some m \<Longrightarrow> w \<in> mb_watching m \<Longrightarrow>
          \<exists>m'. hget (members st) w = Some m' \<and> mb_channel m' = mb_channel m"
    and share: "\<And>u m sh. hget ms u = Some m \<Longrightarrow> mb_screen m = Some sh \<Longrightarrow>
          sh_ssrc sh = mb_screen_ssrc m"
  shows "hub_inv (st\<lparr>members := ms\<rparr>)"
proof -
  have ex: "(\<exists>m. hget ms u = Some m \<and> P (mb_channel m) (mb_voice_ssrc m) (mb_screen_ssrc m))
      \<longleftrightarrow> (\<exists>m. hget (members st) u = Some m \<and> P (mb_channel m) (mb_voice_ssrc m) (mb_screen_ssrc m))"
    for u P
    using same [of u] by (cases "hget ms u"; cases "hget (members st) u") auto
  have "maps_ok (st\<lparr>members := ms\<rparr>)"
    using inv ok by (simp add: hub_inv_defs)
  moreover have "streams_inv (st\<lparr>members := ms\<rparr>)"
    using inv ex [of _ "\<lambda>_ v sc. s = v \<or> s = sc" for s] by (simp add: hub_inv_def streams_inv_def)
  moreover have "ids_inv (st\<lparr>members := ms\<rparr>)"
    using inv ex [of _ "\<lambda>_ v sc. \<not> (v \<noteq> sc \<and> v \<noteq> 0 \<and> sc \<noteq> 0)"]
    unfolding hub_inv_def ids_inv_def by simp blast
  moreover have "keys_inv (st\<lparr>members := ms\<rparr>)"
    using inv ex [of _ "\<lambda>ch _ _. ch = c" for c] by (simp add: hub_inv_def keys_inv_def)
  moreover have "watching_inv (st\<lparr>members := ms\<rparr>)"
    using watching ex [of _ "\<lambda>ch _ _. ch = c" for c] unfolding watching_inv_def by simp
  moreover have "share_inv (st\<lparr>members := ms\<rparr>)"
    using share unfolding share_inv_def by simp
  ultimately show ?thesis by (simp add: hub_inv_def)
qed

lemma hub_inv_update_member:
  assumes inv: "hub_inv st" and m: "hget (members st) user = Some m"
    and same: "mb_channel m' = mb_channel m" "mb_voice_ssrc m' = mb_voice_ssrc m"
      "mb_screen_ssrc m' = mb_screen_ssrc m"
    and watching: "\<And>w. w \<in> mb_watching m' \<Longrightarrow>
          \<exists>mw. hget (members st) w = Some mw \<and> mb_channel mw = mb_channel m"
    and share: "\<And>sh. mb_screen m' = Some sh \<Longrightarrow> sh_ssrc sh = mb_screen_ssrc m"
  shows "hub_inv (st\<lparr>members := hinsert user m' (members st)\<rparr>)"
proof (rule hub_inv_change_members [OF inv])
  show "hmap_ok (hinsert user m' (members st))"
    using inv by (simp add: hub_inv_members)
  show "\<exists>mw. hget (members st) w = Some mw \<and> mb_channel mw = mb_channel n"
    if "hget (hinsert user m' (members st)) u = Some n" "w \<in> mb_watching n" for u n w
    using that watching inv same(1)
    by (cases "u = user") (auto simp: hmap_simps hub_inv_def watching_inv_def)
  show "sh_ssrc sh = mb_screen_ssrc n"
    if "hget (hinsert user m' (members st)) u = Some n" "mb_screen n = Some sh" for u n sh
    using that share inv same(3)
    by (cases "u = user") (auto simp: hmap_simps hub_inv_def share_inv_def)
qed (use m same in \<open>simp add: hmap_simps\<close>)

lemma watching_of: 
  "hub_inv st \<Longrightarrow> hget (members st) u = Some m \<Longrightarrow> w \<in> mb_watching m \<Longrightarrow>
     \<exists>mw. hget (members st) w = Some mw \<and> mb_channel mw = mb_channel m"
  by (simp add: hub_inv_def watching_inv_def)

lemma share_of:
  "hub_inv st \<Longrightarrow> hget (members st) u = Some m \<Longrightarrow> mb_screen m = Some sh \<Longrightarrow>
     sh_ssrc sh = mb_screen_ssrc m"
  by (simp add: hub_inv_def share_inv_def)

section \<open>Operations that do not allocate\<close>

lemma hub_inv_connect: "hub_inv st \<Longrightarrow> hub_inv (snd (connect st user))"
  by (simp add: connect_def Let_def hub_inv_defs)

lemma hub_inv_disconnect: "hub_inv st \<Longrightarrow> hub_inv (snd (disconnect st cid))"
  by (simp add: disconnect_def Let_def hub_inv_defs split: option.split)

lemma hub_inv_set_voice_flags: "hub_inv st \<Longrightarrow> hub_inv (snd (set_voice_flags st user mu de))"
  by (auto simp: set_voice_flags_def Let_def split: option.split
      intro!: hub_inv_update_member dest: watching_of share_of)

lemma hub_inv_start_screen: "hub_inv st \<Longrightarrow> hub_inv (snd (start_screen st user rq))"
  by (auto simp: start_screen_def Let_def split: option.split
      intro!: hub_inv_update_member dest: watching_of)

lemma hub_inv_unwatch: "hub_inv st \<Longrightarrow> hub_inv (unwatch st viewer target)"
  by (auto simp: unwatch_def split: option.split
      intro!: hub_inv_update_member dest: watching_of share_of)

lemma hub_inv_watch: "hub_inv st \<Longrightarrow> hub_inv (snd (watch st viewer target))"
  by (auto simp: watch_def split: option.split
      intro!: hub_inv_update_member dest: share_of) (metis watching_of)

lemma hub_inv_bind: "hub_inv st \<Longrightarrow> hub_inv (snd (bind_media_address now st user addr))"
  by (auto simp: bind_media_address_def split: option.split
      intro!: hub_inv_update_member dest: watching_of share_of)

lemma hub_inv_drop_watching:
  assumes "hub_inv st"
  shows "hub_inv (st\<lparr>members :=
    hmap_values (\<lambda>_ other. other\<lparr>mb_watching := mb_watching other - {user}\<rparr>) (members st)\<rparr>)"
  using assms
  by (intro hub_inv_change_members)
    (auto simp: hmap_simps hub_inv_members option.map_comp comp_def dest: watching_of share_of)

lemma hub_inv_stop_screen:
  assumes inv: "hub_inv st" shows "hub_inv (snd (stop_screen st user))"
proof (cases "hget (members st) user")
  case None
  with inv show ?thesis by (simp add: stop_screen_def)
next
  case (Some m)
  let ?st = "st\<lparr>members := hinsert user (m\<lparr>mb_screen := None\<rparr>) (members st)\<rparr>"
  have "hub_inv ?st"
    using inv Some by (auto intro!: hub_inv_update_member dest: watching_of)
  from hub_inv_drop_watching [OF this, of user] Some show ?thesis
    by (simp add: stop_screen_def Let_def)
qed

section \<open>Leaving\<close>

text \<open>What is left after a member has gone: the others, unsubscribed from the leaver.\<close>

lemma remove_member_None:
  "hget (members st) user = None \<Longrightarrow> remove_member st user = (None, st)"
  by (simp add: remove_member_def)

lemma remove_member_fst:
  "fst (remove_member st user) = map_option mb_channel (hget (members st) user)"
  by (simp add: remove_member_def Let_def split: option.split)

lemma remove_member_members:
  "hget (members (snd (remove_member st user))) u =
     (if u = user then None
      else map_option (\<lambda>m. if hget (members st) user = None then m
                           else m\<lparr>mb_watching := mb_watching m - {user}\<rparr>) (hget (members st) u))"
  by (auto simp: remove_member_def Let_def hmap_simps option.map_ident split: option.split)

lemma remove_member_by_ssrc:
  "hget (by_ssrc (snd (remove_member st user))) s =
     (case hget (members st) user of
        Some m \<Rightarrow> if s = mb_voice_ssrc m \<or> s = mb_screen_ssrc m then None else hget (by_ssrc st) s
      | None \<Rightarrow> hget (by_ssrc st) s)"
  by (auto simp: remove_member_def Let_def hmap_simps split: option.split)

lemma remove_member_keys:
  assumes "hmap_ok (members st)"
  shows "hget (keys (snd (remove_member st user))) c =
     (case hget (members st) user of
        Some m \<Rightarrow>
          if c = mb_channel m \<and>
             \<not> (\<exists>u o'. u \<noteq> user \<and> hget (members st) u = Some o' \<and> mb_channel o' = mb_channel m)
          then None else hget (keys st) c
      | None \<Rightarrow> hget (keys st) c)"
proof (cases "hget (members st) user")
  case (Some m)
  let ?others = "hmap_values (\<lambda>_ other. other\<lparr>mb_watching := mb_watching other - {user}\<rparr>)
                   (hremove user (members st))"
  have ok: "hmap_ok ?others" using assms by simp
  have "(\<exists>(_, other) \<in> set ?others. mb_channel other = mb_channel m) \<longleftrightarrow>
      (\<exists>u o'. hget ?others u = Some o' \<and> mb_channel o' = mb_channel m)"
    using hmap_entry_iff [OF ok] by auto
  also have "\<dots> \<longleftrightarrow>
      (\<exists>u o'. u \<noteq> user \<and> hget (members st) u = Some o' \<and> mb_channel o' = mb_channel m)"
    by (auto simp: hmap_simps)
  finally show ?thesis
    using Some by (auto simp: remove_member_def Let_def hmap_simps)
qed (simp add: remove_member_def)

lemma remove_member_ok: "maps_ok st \<Longrightarrow> maps_ok (snd (remove_member st user))"
  by (simp add: remove_member_def maps_ok_def Let_def split: option.split)

lemma remove_member_next [simp]:
  "next_ssrc (snd (remove_member st user)) = next_ssrc st"
  "next_conn (snd (remove_member st user)) = next_conn st"
  "conns (snd (remove_member st user)) = conns st"
  by (simp_all add: remove_member_def Let_def split: option.split)

lemma hub_inv_remove_member:
  assumes inv: "hub_inv st" shows "hub_inv (snd (remove_member st user))"
proof (cases "hget (members st) user")
  case None
  with inv show ?thesis by (simp add: remove_member_None)
next
  case (Some m)
  let ?st = "snd (remove_member st user)"
  note look = remove_member_members [of st user] remove_member_by_ssrc [of st user]
    remove_member_keys [OF hub_inv_members [OF inv], of user]
  have streams: "hget (by_ssrc st) s = Some u \<longleftrightarrow>
      (\<exists>m. hget (members st) u = Some m \<and> (s = mb_voice_ssrc m \<or> s = mb_screen_ssrc m))" for s u
    using inv by (simp add: hub_inv_def streams_inv_def)
  have "maps_ok ?st" using inv by (simp add: hub_inv_def remove_member_ok)
  moreover have "streams_inv ?st"
    unfolding streams_inv_def
  proof (intro allI)
    fix s u
    show "(hget (by_ssrc ?st) s = Some u) = (\<exists>m. hget (members ?st) u = Some m
        \<and> (s = mb_voice_ssrc m \<or> s = mb_screen_ssrc m))"
    proof (cases "u = user")
      case True
      then show ?thesis using Some streams [of s user] by (auto simp: look)
    next
      case False
      then have "(\<exists>m. hget (members ?st) u = Some m \<and> (s = mb_voice_ssrc m \<or> s = mb_screen_ssrc m))
          \<longleftrightarrow> hget (by_ssrc st) s = Some u"
        using Some unfolding streams by (auto simp: look(1))
      moreover have "hget (by_ssrc ?st) s = Some u \<longleftrightarrow> hget (by_ssrc st) s = Some u"
      proof (cases "s = mb_voice_ssrc m \<or> s = mb_screen_ssrc m")
        case True
        with Some have "hget (by_ssrc st) s = Some user" by (auto simp: streams)
        with True Some False show ?thesis by (auto simp: look(2))
      qed (use Some in \<open>simp add: look(2)\<close>)
      ultimately show ?thesis by simp
    qed
  qed
  moreover have "ids_inv ?st"
    using inv Some by (auto simp: ids_inv_def hub_inv_def look split: if_splits)
  moreover have "keys_inv ?st"
    unfolding keys_inv_def
  proof (intro allI)
    fix c
    have keys: "hget (keys st) c \<noteq> None \<longleftrightarrow> (\<exists>u m. hget (members st) u = Some m \<and> mb_channel m = c)"
      using inv by (simp add: hub_inv_def keys_inv_def)
    show "(hget (keys ?st) c \<noteq> None) =
        (\<exists>u m. hget (members ?st) u = Some m \<and> mb_channel m = c)"
    proof (cases "c = mb_channel m")
      case True
      with Some keys show ?thesis by (auto simp: look)
    next
      case False
      with Some have "hget (keys ?st) c = hget (keys st) c" by (simp add: look)
      moreover have "(\<exists>u m. hget (members ?st) u = Some m \<and> mb_channel m = c) \<longleftrightarrow>
          (\<exists>u m. hget (members st) u = Some m \<and> mb_channel m = c)" (is "?new \<longleftrightarrow> ?old")
      proof
        assume ?new
        then obtain u m' where "hget (members ?st) u = Some m'" "mb_channel m' = c" by blast
        then have "\<exists>z. hget (members st) u = Some z \<and> mb_channel z = c"
          by (auto simp: look(1) split: if_splits)
        then show ?old by blast
      next
        assume ?old
        then obtain u o' where u: "hget (members st) u = Some o'" "mb_channel o' = c" by auto
        with Some False have "hget (members ?st) u = Some (o'\<lparr>mb_watching := mb_watching o' - {user}\<rparr>)"
          by (auto simp: look(1))
        with u(2) show ?new by force
      qed
      ultimately show ?thesis using keys by simp
    qed
  qed
  moreover have "watching_inv ?st"
    using inv Some by (fastforce simp: watching_inv_def hub_inv_def look split: if_splits)
  moreover have "share_inv ?st"
    using inv Some by (auto simp: share_inv_def hub_inv_def look split: if_splits)
  ultimately show ?thesis by (simp add: hub_inv_def)
qed

section \<open>The allocator\<close>

definition free_ssrc :: "hub_state \<Rightarrow> u32 \<Rightarrow> bool" where
  "free_ssrc st s \<longleftrightarrow> s \<noteq> 0 \<and> hget (by_ssrc st) s = None"

lemma free_ssrc_next [simp]: "free_ssrc (st\<lparr>next_ssrc := n\<rparr>) s = free_ssrc st s"
  by (simp add: free_ssrc_def)

text \<open>The loop walks over \<open>d\<close> identifiers that are taken and returns the next one.\<close>

lemma take_ssrc_walk:
  assumes "\<forall>k < d. \<not> free_ssrc st (next_ssrc st + word_of_nat k)"
    and "free_ssrc st (next_ssrc st + word_of_nat d)"
  shows "take_ssrc st = Some (next_ssrc st + word_of_nat d,
           st\<lparr>next_ssrc := next_ssrc st + word_of_nat d + 1\<rparr>)"
  using assms
proof (induction d arbitrary: st)
  case 0
  then show ?case by (subst take_ssrc.simps) (simp add: free_ssrc_def Let_def)
next
  case (Suc d)
  let ?st = "st\<lparr>next_ssrc := next_ssrc st + 1\<rparr>"
  have "\<not> free_ssrc st (next_ssrc st)" using Suc.prems(1) [rule_format, of 0] by simp
  then have "take_ssrc st = take_ssrc ?st"
    by (subst take_ssrc.simps) (auto simp: free_ssrc_def Let_def)
  moreover have shift: "next_ssrc ?st + word_of_nat k = next_ssrc st + word_of_nat (Suc k)" for k
    by simp
  moreover have "\<forall>k < d. \<not> free_ssrc ?st (next_ssrc ?st + word_of_nat k)"
    using Suc.prems(1) unfolding shift free_ssrc_next by blast
  moreover have "free_ssrc ?st (next_ssrc ?st + word_of_nat d)"
    using Suc.prems(2) unfolding shift free_ssrc_next .
  ultimately show ?case using Suc.IH [of ?st] unfolding shift by (simp only:) simp
qed

lemma take_ssrc_total:
  assumes "card (dom (map_of (by_ssrc st))) < 2 ^ 32 - 1"
  obtains s where "take_ssrc st = Some (s, st\<lparr>next_ssrc := s + 1\<rparr>)" "free_ssrc st s"
    "\<forall>k < unat (s - next_ssrc st). \<not> free_ssrc st (next_ssrc st + word_of_nat k)"
proof -
  let ?taken = "insert 0 (dom (map_of (by_ssrc st)))"
  have "card ?taken < card (UNIV :: u32 set)"
    using assms card_insert_le_m1 [of "card ?taken"] by (simp add: card_word card_insert_if finite_dom_map_of)
  then obtain f where "f \<notin> ?taken" by (metis UNIV_eq_I nat_less_le)
  then have f: "free_ssrc st f" by (auto simp: free_ssrc_def)
  let ?P = "\<lambda>d. free_ssrc st (next_ssrc st + word_of_nat d)"
  have "?P (unat (f - next_ssrc st))" using f by simp
  then have P: "?P (Least ?P)" and small: "Least ?P \<le> unat (f - next_ssrc st)"
    by (rule LeastI, rule Least_le)
  define d where "d = Least ?P"
  define s where "s = next_ssrc st + word_of_nat d"
  have below: "\<forall>k < d. \<not> ?P k" unfolding d_def using not_less_Least by blast
  have "d < 2 ^ 32" using small unsigned_less [of "f - next_ssrc st", where ?'a = nat] by (simp add: d_def)
  then have "unat (s - next_ssrc st) = d" by (simp add: s_def unat_of_nat)
  with below P take_ssrc_walk [of d st] show thesis
    by (intro that [of s]) (simp_all add: s_def d_def)
qed

text \<open>Two identifiers in a row are different while at least two are free.\<close>

lemma take_ssrc_twice:
  assumes "card (dom (map_of (by_ssrc st))) < 2 ^ 32 - 2"
  obtains v s where "take_ssrc st = Some (v, st\<lparr>next_ssrc := v + 1\<rparr>)"
    "take_ssrc (st\<lparr>next_ssrc := v + 1\<rparr>) = Some (s, st\<lparr>next_ssrc := s + 1\<rparr>)"
    "free_ssrc st v" "free_ssrc st s" "v \<noteq> s"
proof -
  obtain v where v: "take_ssrc st = Some (v, st\<lparr>next_ssrc := v + 1\<rparr>)" "free_ssrc st v"
    using assms by (auto intro: take_ssrc_total [of st])
  let ?st = "st\<lparr>next_ssrc := v + 1\<rparr>"
  obtain s where s: "take_ssrc ?st = Some (s, ?st\<lparr>next_ssrc := s + 1\<rparr>)" "free_ssrc ?st s"
    and skipped: "\<forall>k < unat (s - next_ssrc ?st). \<not> free_ssrc ?st (next_ssrc ?st + word_of_nat k)"
    using assms by (auto intro: take_ssrc_total [of ?st])
  have "v \<noteq> s"
  proof
    assume eq: "v = s"
    let ?taken = "insert 0 (dom (map_of (by_ssrc st)))"
    have "\<not> free_ssrc st w" if "w \<noteq> v" for w
    proof -
      have "unat (w - next_ssrc ?st) < unat (s - next_ssrc ?st)"
      proof -
        have m1: "s - (v + 1) = - 1" using eq by simp
        have "w - (v + 1) \<noteq> - 1" using that by (simp add: diff_eq_eq)
        then have "w - (v + 1) < s - (v + 1)" unfolding m1 by (simp only: word_order.not_eq_extremum)
        then show ?thesis by (simp add: word_less_nat_alt)
      qed
      from skipped [rule_format, OF this] show ?thesis by simp
    qed
    then have "UNIV - {v} \<subseteq> ?taken" by (auto simp: free_ssrc_def)
    then have "card (UNIV - {v}) \<le> card ?taken"
      by (rule card_mono [rotated]) (simp add: finite_dom_map_of)
    also have "\<dots> \<le> Suc (card (dom (map_of (by_ssrc st))))"
      by (simp add: card_insert_if finite_dom_map_of)
    finally show False using assms by (simp add: card_word)
  qed
  with v s show thesis by (intro that) simp_all
qed

section \<open>Joining\<close>

text \<open>Two streams per member, so the stream table is at most twice the member table.\<close>

lemma by_ssrc_card:
  assumes inv: "hub_inv st"
  shows "card (dom (map_of (by_ssrc st))) \<le> 2 * length (members st)"
proof -
  let ?m = "\<lambda>u. the (hget (members st) u)"
  let ?D = "dom (map_of (members st))"
  have sub: "dom (map_of (by_ssrc st)) \<subseteq> (mb_voice_ssrc \<circ> ?m) ` ?D \<union> (mb_screen_ssrc \<circ> ?m) ` ?D"
  proof
    fix s assume "s \<in> dom (map_of (by_ssrc st))"
    then obtain u where "hget (by_ssrc st) s = Some u" by auto
    from hub_inv_streamD [OF inv this] obtain m where
      "hget (members st) u = Some m" "s = mb_voice_ssrc m \<or> s = mb_screen_ssrc m" by blast
    then show "s \<in> (mb_voice_ssrc \<circ> ?m) ` ?D \<union> (mb_screen_ssrc \<circ> ?m) ` ?D"
      by (auto simp: image_iff intro!: bexI [of _ u])
  qed
  have fin: "finite ?D" by (rule finite_dom_map_of)
  from sub have "card (dom (map_of (by_ssrc st))) \<le>
      card ((mb_voice_ssrc \<circ> ?m) ` ?D \<union> (mb_screen_ssrc \<circ> ?m) ` ?D)"
    using fin by (intro card_mono) auto
  also have "\<dots> \<le> card ?D + card ?D"
    using fin by (meson add_mono card_Un_le card_image_le order_trans)
  also have "card ?D = length (members st)"
    using inv by (simp add: hmap_card hub_inv_members)
  finally show ?thesis by simp
qed

lemma hub_inv_add_member:
  assumes inv: "hub_inv st" and new: "hget (members st) user = None"
    and free: "free_ssrc st v" "free_ssrc st s" "v \<noteq> s"
    and m: "mb_voice_ssrc m = v" "mb_screen_ssrc m = s" "mb_screen m = None" "mb_watching m = {}"
    and ks: "hmap_ok ks" "\<And>c. hget ks c \<noteq> None \<longleftrightarrow> c = mb_channel m \<or> hget (keys st) c \<noteq> None"
  shows "hub_inv (st\<lparr>members := hinsert user m (members st), keys := ks,
                     by_ssrc := hinsert s user (hinsert v user (by_ssrc st))\<rparr>)" (is "hub_inv ?st")
proof -
  have streams: "hget (by_ssrc st) x = Some u \<longleftrightarrow>
      (\<exists>m. hget (members st) u = Some m \<and> (x = mb_voice_ssrc m \<or> x = mb_screen_ssrc m))" for x u
    using inv by (simp add: hub_inv_def streams_inv_def)
  have "maps_ok ?st" using inv ks(1) by (simp add: hub_inv_def maps_ok_def)
  moreover have "streams_inv ?st"
    unfolding streams_inv_def
  proof (intro allI)
    fix x u
    show "(hget (by_ssrc ?st) x = Some u) = (\<exists>m. hget (members ?st) u = Some m
        \<and> (x = mb_voice_ssrc m \<or> x = mb_screen_ssrc m))"
    proof (cases "u = user")
      case True
      with new have "hget (by_ssrc st) x \<noteq> Some u" by (simp add: streams)
      with True m show ?thesis by (auto simp: hmap_simps)
    next
      case False
      then have "hget (by_ssrc ?st) x = Some u \<longleftrightarrow> hget (by_ssrc st) x = Some u"
        using free by (auto simp: hmap_simps free_ssrc_def)
      with False show ?thesis by (simp add: hmap_simps streams)
    qed
  qed
  moreover have "ids_inv ?st"
    using inv free m by (auto simp: ids_inv_def hub_inv_def hmap_simps free_ssrc_def)
  moreover have "keys_inv ?st"
    unfolding keys_inv_def
  proof (intro allI)
    fix c
    have "hget (keys st) c \<noteq> None \<longleftrightarrow> (\<exists>u m. hget (members st) u = Some m \<and> mb_channel m = c)"
      using inv by (simp add: hub_inv_def keys_inv_def)
    moreover have "(\<exists>u n. hget (members ?st) u = Some n \<and> mb_channel n = c) \<longleftrightarrow>
        c = mb_channel m \<or> (\<exists>u m. hget (members st) u = Some m \<and> mb_channel m = c)"
      using new by (auto simp: hmap_simps) (metis option.distinct(1))
    ultimately show "(hget (keys ?st) c \<noteq> None) = (\<exists>u n. hget (members ?st) u = Some n \<and> mb_channel n = c)"
      using ks(2) [of c] by simp
  qed
  moreover have "watching_inv ?st"
    using inv new m by (auto simp: watching_inv_def hub_inv_def hmap_simps)
      (metis option.distinct(1) option.sel)+
  moreover have "share_inv ?st"
    using inv m by (auto simp: share_inv_def hub_inv_def hmap_simps)
  ultimately show ?thesis by (simp add: hub_inv_def)
qed

text \<open>
  What joining returns and leaves behind. The bound is far beyond any server: fewer than
  \<open>2\<^sup>31 - 1\<close> members, so that two of the \<open>2\<^sup>32 - 1\<close> stream identifiers are free.
\<close>

definition fresh_member :: "nat \<Rightarrow> id \<Rightarrow> u32 \<Rightarrow> u32 \<Rightarrow> member" where
  "fresh_member now channel v s =
     \<lparr>mb_channel = channel, mb_voice_ssrc = v, mb_screen_ssrc = s, mb_muted = False,
      mb_deafened = False, mb_screen = None, mb_watching = {}, mb_addr = None, mb_last_seen = now\<rparr>"

lemma join_voice_spec:
  fixes user :: id
  assumes inv: "hub_inv st" and bound: "length (members st) < 2 ^ 31 - 1"
  defines "st0 \<equiv> snd (remove_member st user)"
  obtains v s where
    "free_ssrc st0 v" "free_ssrc st0 s" "v \<noteq> s"
    "join_voice b64 entropy now st user channel = Some
       ((member_state (fresh_member now channel v s) user,
         to_base64 b64 (case hget (keys st0) channel of Some k \<Rightarrow> k | None \<Rightarrow> random_key entropy),
         voice_channel_of st user),
        st0\<lparr>next_ssrc := s + 1,
            members := hinsert user (fresh_member now channel v s) (members st0),
            keys := (case hget (keys st0) channel of
                       Some _ \<Rightarrow> keys st0 | None \<Rightarrow> hinsert channel (random_key entropy) (keys st0)),
            by_ssrc := hinsert s user (hinsert v user (by_ssrc st0))\<rparr>)"
proof -
  have inv0: "hub_inv st0" unfolding st0_def by (rule hub_inv_remove_member [OF inv])
  have len: "length (members st0) \<le> length (members st)"
    by (auto simp: st0_def remove_member_def Let_def length_delete_le split: option.split)
  have "card (dom (map_of (by_ssrc st0))) < 2 ^ 32 - 2"
    using by_ssrc_card [OF inv0] len bound by simp
  then obtain v s where vs: "take_ssrc st0 = Some (v, st0\<lparr>next_ssrc := v + 1\<rparr>)"
    "take_ssrc (st0\<lparr>next_ssrc := v + 1\<rparr>) = Some (s, st0\<lparr>next_ssrc := s + 1\<rparr>)"
    "free_ssrc st0 v" "free_ssrc st0 s" "v \<noteq> s"
    by (rule take_ssrc_twice)
  have rm: "remove_member st user = (voice_channel_of st user, st0)"
    by (simp add: st0_def voice_channel_of_def prod_eq_iff remove_member_fst)
  show thesis
    by (rule that [OF vs(3-5)], cases "hget (keys st0) channel")
      (simp_all add: join_voice_def rm vs(1,2) Let_def fresh_member_def member_state_def)
qed

lemma hub_inv_join_voice:
  assumes inv: "hub_inv st" and bound: "length (members st) < 2 ^ 31 - 1"
    and join: "join_voice b64 entropy now st user channel = Some (r, st')"
  shows "hub_inv st'"
proof -
  let ?st0 = "snd (remove_member st user)"
  have inv0: "hub_inv ?st0" by (rule hub_inv_remove_member [OF inv])
  obtain v s where vs: "free_ssrc ?st0 v" "free_ssrc ?st0 s" "v \<noteq> s"
    and st': "st' = ?st0\<lparr>next_ssrc := s + 1,
            members := hinsert user (fresh_member now channel v s) (members ?st0),
            keys := (case hget (keys ?st0) channel of
                       Some _ \<Rightarrow> keys ?st0 | None \<Rightarrow> hinsert channel (random_key entropy) (keys ?st0)),
            by_ssrc := hinsert s user (hinsert v user (by_ssrc ?st0))\<rparr>"
    using join by (auto intro: join_voice_spec [OF inv bound, of user b64 entropy now channel])
  let ?st1 = "?st0\<lparr>next_ssrc := s + 1\<rparr>"
  let ?m = "fresh_member now channel v s"
  let ?ks = "case hget (keys ?st0) channel of Some _ \<Rightarrow> keys ?st0
               | None \<Rightarrow> hinsert channel (random_key entropy) (keys ?st0)"
  have "hub_inv (?st1\<lparr>members := hinsert user ?m (members ?st1), keys := ?ks,
                      by_ssrc := hinsert s user (hinsert v user (by_ssrc ?st1))\<rparr>)"
  proof (rule hub_inv_add_member)
    show "hub_inv ?st1" using inv0 by simp
    show "hget (members ?st1) user = None" by (simp add: remove_member_members)
    show "hmap_ok ?ks" using inv0 by (auto simp: hub_inv_defs split: option.split)
    show "hget ?ks c \<noteq> None \<longleftrightarrow> c = mb_channel ?m \<or> hget (keys ?st1) c \<noteq> None" for c
      by (auto simp: hmap_simps fresh_member_def split: option.split)
  qed (use vs in \<open>simp_all add: fresh_member_def\<close>)
  then show ?thesis by (simp add: st')
qed

section \<open>Reachable states\<close>

text \<open>
  One rule per public method that changes the state, for any connection, user and clock. The
  control plane calls all of them but \<open>bind_media_address\<close>, which is the relay's.
\<close>

inductive control_step :: "hub_state \<Rightarrow> hub_state \<Rightarrow> bool" where
  ctl_connect: "control_step st (snd (connect st user))"
| ctl_disconnect: "control_step st (snd (disconnect st cid))"
| ctl_join: "length (members st) < 2 ^ 31 - 1 \<Longrightarrow>
    join_voice b64 entropy now st user channel = Some (r, st') \<Longrightarrow> control_step st st'"
| ctl_leave: "control_step st (snd (leave_voice st user))"
| ctl_flags: "control_step st (snd (set_voice_flags st user muted deafened))"
| ctl_start_screen: "control_step st (snd (start_screen st user request))"
| ctl_stop_screen: "control_step st (snd (stop_screen st user))"
| ctl_watch: "control_step st (snd (watch st viewer target))"
| ctl_unwatch: "control_step st (unwatch st viewer target)"

inductive hub_step :: "hub_state \<Rightarrow> hub_state \<Rightarrow> bool" where
  step_control: "control_step st st' \<Longrightarrow> hub_step st st'"
| step_bind: "hub_step st (snd (bind_media_address now st user addr))"

lemmas step_join = step_control [OF ctl_join]
lemmas step_watch = step_control [OF ctl_watch]

lemma hub_inv_control: "control_step st st' \<Longrightarrow> hub_inv st \<Longrightarrow> hub_inv st'"
proof (induction rule: control_step.induct)
  case (ctl_leave st user)
  then show ?case by (simp add: leave_voice_def hub_inv_remove_member)
qed (simp_all add: hub_inv_connect hub_inv_disconnect hub_inv_set_voice_flags hub_inv_start_screen
    hub_inv_stop_screen hub_inv_watch hub_inv_unwatch hub_inv_join_voice)

lemma hub_inv_step: "hub_step st st' \<Longrightarrow> hub_inv st \<Longrightarrow> hub_inv st'"
  by (induction rule: hub_step.induct) (simp_all add: hub_inv_control hub_inv_bind)

interpretation hub: invariant_system hub_inv hub_step
  by unfold_locales (rule hub_inv_step)

definition hub_reachable :: "hub_state \<Rightarrow> bool" where
  "hub_reachable st \<longleftrightarrow> hub_step\<^sup>*\<^sup>* new_state st"

lemma hub_reachable_inv: "hub_reachable st \<Longrightarrow> hub_inv st"
  unfolding hub_reachable_def by (rule hub.run_keeps [OF _ hub_inv_new])

end
