(* ===== verification/HubProps.thy ===== *)
theory HubProps
  imports HubInv
begin

text \<open>
  What the hub promises its callers, in every reachable state: who owns a stream, whom a
  packet is forwarded to, what a key lasts for, what leaving and stopping retire, and when
  an account is online.
\<close>

section \<open>Routing, as a specification\<close>

text \<open>The people who should get a packet of a given kind from a member.\<close>

definition wants :: "member \<Rightarrow> id \<Rightarrow> media_kind \<Rightarrow> bool" where
  "wants listener user k \<longleftrightarrow> (if is_screen k then user \<in> mb_watching listener else \<not> mb_deafened listener)"

definition audience :: "hub_state \<Rightarrow> id \<Rightarrow> media_kind \<Rightarrow> id set" where
  "audience st user k =
     {other. other \<noteq> user \<and>
        (\<exists>m peer. hget (members st) user = Some m \<and> hget (members st) other = Some peer
          \<and> mb_channel peer = mb_channel m
          \<and> wants peer user k)}"

lemma audience_iff:
  assumes "hget (members st) user = Some m" "hget (members st) other = Some peer"
  shows "other \<in> audience st user k \<longleftrightarrow>
    other \<noteq> user \<and> mb_channel peer = mb_channel m \<and> wants peer user k"
  using assms by (auto simp: audience_def)

lemma audience_iff_entry:
  assumes "hget (members st) user = Some m"
  shows "other \<in> audience st user k \<and> hget (members st) other = Some peer \<and> Q \<longleftrightarrow>
    hget (members st) other = Some peer
    \<and> (other \<noteq> user \<and> mb_channel peer = mb_channel m \<and> wants peer user k) \<and> Q"
  using audience_iff [OF assms, of other peer k]
  by (cases "hget (members st) other = Some peer") auto

lemma map_filter_members:
  assumes "hmap_ok ms"
  shows "set (List.map_filter (\<lambda>(_, peer). mb_addr peer) (filter P ms)) =
    {a. \<exists>u peer. hget ms u = Some peer \<and> P (u, peer) \<and> mb_addr peer = Some a}"
  unfolding List.map_filter_def using hmap_entry_iff [OF assms]
  by (force simp: image_iff Bex_def)

lemma route_Forward_cases:
  assumes "route st h sender = Forward targets"
  obtains user m where "hget (by_ssrc st) (ph_ssrc h) = Some user"
    "hget (members st) user = Some m" "mb_addr m = Some sender" "ph_kind h \<noteq> Keepalive"
    "ph_ssrc h = (if is_screen (ph_kind h) then mb_screen_ssrc m else mb_voice_ssrc m)"
    "targets = List.map_filter (\<lambda>(_, peer). mb_addr peer)
       (filter (\<lambda>(other, peer). other \<noteq> user \<and> mb_channel peer = mb_channel m
          \<and> wants peer user (ph_kind h))
          (members st))"
  using assms by (auto simp: route_def wants_def Let_def split: option.splits if_splits)

text \<open>
  Claim C12. In every reachable state, a packet is forwarded only if its stream belongs to a
  member who registered the address it came from and is the stream for its kind of media; it
  then goes to exactly the registered addresses of the members that should get it: the others
  in the channel, for screen media those subscribed to the sender, for voice those not
  deafened.
\<close>

theorem route_forwards_to_audience:
  assumes "hub_reachable st" and "route st h sender = Forward targets"
  shows "\<exists>user m. hget (members st) user = Some m \<and> mb_addr m = Some sender
    \<and> ph_ssrc h = (if is_screen (ph_kind h) then mb_screen_ssrc m else mb_voice_ssrc m)
    \<and> set targets = {a. \<exists>other peer. other \<in> audience st user (ph_kind h)
                        \<and> hget (members st) other = Some peer \<and> mb_addr peer = Some a}"
proof -
  from assms(1) have ok: "hmap_ok (members st)"
    by (rule hub_inv_members [OF hub_reachable_inv])
  from assms(2) obtain user m where m: "hget (members st) user = Some m"
    and rest: "mb_addr m = Some sender"
      "ph_ssrc h = (if is_screen (ph_kind h) then mb_screen_ssrc m else mb_voice_ssrc m)"
    and targets: "targets = List.map_filter (\<lambda>(_, peer). mb_addr peer)
       (filter (\<lambda>(other, peer). other \<noteq> user \<and> mb_channel peer = mb_channel m
          \<and> wants peer user (ph_kind h))
          (members st))"
    by (rule route_Forward_cases)
  have "set targets = {a. \<exists>other peer. other \<in> audience st user (ph_kind h)
                        \<and> hget (members st) other = Some peer \<and> mb_addr peer = Some a}"
    unfolding targets map_filter_members [OF ok] prod.case audience_iff_entry [OF m, symmetric] ..
  with m rest show ?thesis by blast
qed

section \<open>A call of two\<close>

text \<open>Two people join a channel and register: the reachable states the witnesses use.\<close>

definition no_base64 :: "byte list \<Rightarrow> string" where
  "no_base64 bs = []"

definition addr_a :: socket_addr where "addr_a = AddrV4 2130706433 1001"
definition addr_b :: socket_addr where "addr_b = AddrV4 2130706433 1002"

definition ada_joined :: hub_state where
  "ada_joined = \<lparr>conns = [], members = [(Id 1, fresh_member 0 (Id 10) 1 2)],
     by_ssrc = [(1, Id 1), (2, Id 1)], keys = [(Id 10, random_key [7])],
     next_conn = 1, next_ssrc = 3\<rparr>"

definition call_joined :: hub_state where
  "call_joined = \<lparr>conns = [],
     members = [(Id 1, fresh_member 0 (Id 10) 1 2), (Id 2, fresh_member 0 (Id 10) 3 4)],
     by_ssrc = [(1, Id 1), (2, Id 1), (3, Id 2), (4, Id 2)], keys = [(Id 10, random_key [7])],
     next_conn = 1, next_ssrc = 5\<rparr>"

definition call_state :: hub_state where
  "call_state = snd (bind_media_address 0 (snd (bind_media_address 0 call_joined (Id 1) addr_a))
                  (Id 2) addr_b)"

lemma ada_joins:
  "join_voice no_base64 [7] 0 new_state (Id 1) (Id 10) =
     Some ((member_state (fresh_member 0 (Id 10) 1 2) (Id 1), [], None), ada_joined)"
  by (simp add: join_voice_def remove_member_def new_state_def take_ssrc.simps Let_def
      ada_joined_def fresh_member_def member_state_def to_base64_def no_base64_def)

lemma bob_joins:
  "join_voice no_base64 [8] 0 ada_joined (Id 2) (Id 10) =
     Some ((member_state (fresh_member 0 (Id 10) 3 4) (Id 2), [], None), call_joined)"
  by (simp add: join_voice_def remove_member_def ada_joined_def take_ssrc.simps Let_def
      call_joined_def fresh_member_def member_state_def to_base64_def no_base64_def)

lemma ada_joined_reachable: "hub_reachable ada_joined"
  unfolding hub_reachable_def
  by (rule r_into_rtranclp, rule step_join [OF _ ada_joins]) (simp add: new_state_def)

lemma call_joined_reachable: "hub_reachable call_joined"
proof -
  have "hub_step ada_joined call_joined"
    by (rule step_join [OF _ bob_joins]) (simp add: ada_joined_def)
  with ada_joined_reachable show ?thesis
    unfolding hub_reachable_def by (rule rtranclp.rtrancl_into_rtrancl)
qed

lemma call_reachable: "hub_reachable call_state"
  using call_joined_reachable unfolding hub_reachable_def call_state_def
  by (blast intro: rtranclp.rtrancl_into_rtrancl step_bind)

lemma call_state_members:
  "members call_state =
     [(Id 1, (fresh_member 0 (Id 10) 1 2)\<lparr>mb_addr := Some addr_a\<rparr>),
      (Id 2, (fresh_member 0 (Id 10) 3 4)\<lparr>mb_addr := Some addr_b\<rparr>)]"
  "by_ssrc call_state = [(1, Id 1), (2, Id 1), (3, Id 2), (4, Id 2)]"
  "keys call_state = [(Id 10, random_key [7])]"
  "next_ssrc call_state = 5"
  "conns call_state = []"
  by (simp_all add: call_state_def call_joined_def bind_media_address_def fresh_member_def)

definition voice_from_ada :: packet_header where
  "voice_from_ada = \<lparr>ph_kind = media_kind.Voice, ph_ssrc = 1, ph_seq = 7, ph_timestamp = 0\<rparr>"

lemma call_state_route: "route call_state voice_from_ada addr_a = Forward [addr_b]"
  by (simp add: route_def call_state_members voice_from_ada_def fresh_member_def Let_def
      List.map_filter_def addr_a_def)

theorem route_forwards_to_audience_witness:
  "\<exists>user m. hget (members call_state) user = Some m \<and> mb_addr m = Some addr_a
    \<and> ph_ssrc voice_from_ada =
        (if is_screen (ph_kind voice_from_ada) then mb_screen_ssrc m else mb_voice_ssrc m)
    \<and> set [addr_b] = {a. \<exists>other peer. other \<in> audience call_state user (ph_kind voice_from_ada)
                        \<and> hget (members call_state) other = Some peer \<and> mb_addr peer = Some a}"
  by (rule route_forwards_to_audience [OF call_reachable call_state_route])

section \<open>Streams, keys and subscriptions in reachable states\<close>

text \<open>
  In every reachable state the stream table holds exactly the two streams of each
  member, none of them is zero, a member's two streams differ, and no two members share one.
\<close>

theorem streams_identify_members:
  assumes "hub_reachable st"
  shows "(hget (by_ssrc st) s = Some u \<longleftrightarrow>
            (\<exists>m. hget (members st) u = Some m \<and> (s = mb_voice_ssrc m \<or> s = mb_screen_ssrc m)))
    \<and> (hget (members st) u = Some m \<longrightarrow> mb_voice_ssrc m \<noteq> mb_screen_ssrc m
         \<and> mb_voice_ssrc m \<noteq> 0 \<and> mb_screen_ssrc m \<noteq> 0)
    \<and> (hget (members st) u = Some m \<longrightarrow> hget (members st) v = Some n \<longrightarrow>
         {mb_voice_ssrc m, mb_screen_ssrc m} \<inter> {mb_voice_ssrc n, mb_screen_ssrc n} \<noteq> {} \<longrightarrow> u = v)"
proof (intro conjI impI)
  from hub_reachable_inv [OF assms] have streams: "\<And>s u. hget (by_ssrc st) s = Some u \<longleftrightarrow>
      (\<exists>m. hget (members st) u = Some m \<and> (s = mb_voice_ssrc m \<or> s = mb_screen_ssrc m))"
    and ids: "ids_inv st"
    by (auto simp: hub_inv_def streams_inv_def)
  show "hget (by_ssrc st) s = Some u \<longleftrightarrow>
      (\<exists>m. hget (members st) u = Some m \<and> (s = mb_voice_ssrc m \<or> s = mb_screen_ssrc m))"
    by (rule streams)
  show "mb_voice_ssrc m \<noteq> mb_screen_ssrc m" "mb_voice_ssrc m \<noteq> 0" "mb_screen_ssrc m \<noteq> 0"
    if "hget (members st) u = Some m"
    using ids that by (simp_all add: ids_inv_def)
  show "u = v"
    if m: "hget (members st) u = Some m" and n: "hget (members st) v = Some n"
      and common: "{mb_voice_ssrc m, mb_screen_ssrc m} \<inter> {mb_voice_ssrc n, mb_screen_ssrc n} \<noteq> {}"
  proof -
    from common obtain x where
      "x = mb_voice_ssrc m \<or> x = mb_screen_ssrc m" "x = mb_voice_ssrc n \<or> x = mb_screen_ssrc n"
      by auto
    with m n have "hget (by_ssrc st) x = Some u" "hget (by_ssrc st) x = Some v"
      unfolding streams by blast+
    then show "u = v" by simp
  qed
qed

theorem streams_identify_members_witness:
  "hget (by_ssrc call_state) 3 = Some (Id 2) \<longleftrightarrow>
     (\<exists>m. hget (members call_state) (Id 2) = Some m \<and> (3 = mb_voice_ssrc m \<or> 3 = mb_screen_ssrc m))"
  using streams_identify_members [OF call_reachable, of 3 "Id 2"] by (rule conjunct1)

lemma key_after_removal:
  assumes inv: "hub_inv st"
  shows "(case hget (keys (snd (remove_member st user))) channel of
            Some k \<Rightarrow> k | None \<Rightarrow> fresh) =
    (if \<exists>u m. u \<noteq> user \<and> hget (members st) u = Some m \<and> mb_channel m = channel
     then the (hget (keys st) channel) else fresh)"
proof (cases "\<exists>u m. u \<noteq> user \<and> hget (members st) u = Some m \<and> mb_channel m = channel")
  case True
  then obtain u m where u: "u \<noteq> user" "hget (members st) u = Some m" "mb_channel m = channel"
    by blast
  with hub_inv_keyD [OF inv u(2)] obtain k where "hget (keys st) channel = Some k" by blast
  moreover have "hget (keys (snd (remove_member st user))) channel = hget (keys st) channel"
    using u by (auto simp: remove_member_keys [OF hub_inv_members [OF inv]] split: option.split)
  ultimately show ?thesis using True by simp
next
  case False
  have "hget (keys (snd (remove_member st user))) channel = None"
  proof (rule ccontr)
    assume "hget (keys (snd (remove_member st user))) channel \<noteq> None"
    with hub_inv_remove_member [OF inv, of user] obtain u m where
      "hget (members (snd (remove_member st user))) u = Some m" "mb_channel m = channel"
      unfolding hub_inv_def keys_inv_def by blast
    with False show False by (auto simp: remove_member_members split: if_splits)
  qed
  then show ?thesis unfolding if_not_P [OF False] by simp
qed

lemma free_after_removal:
  assumes inv: "hub_inv st" and free: "free_ssrc (snd (remove_member st user)) x" and "u \<noteq> user"
  shows "hget (by_ssrc st) x \<noteq> Some u"
proof (cases "hget (members st) user")
  case None
  with free show ?thesis by (simp add: free_ssrc_def remove_member_None)
next
  case (Some m)
  have "hget (by_ssrc st) x = Some user" if "x = mb_voice_ssrc m \<or> x = mb_screen_ssrc m"
    using inv Some that by (simp add: hub_inv_def streams_inv_def)
  with free Some assms(3) show ?thesis
    by (auto simp: free_ssrc_def remove_member_by_ssrc split: if_splits)
qed

text \<open>
  Claim C17. Joining returns while fewer than \<open>2\<^sup>31 - 1\<close> people are in calls (the search for
  stream identifiers ends): the caller is then in exactly the channel asked for, muted and
  deafened off, no address, no share and no subscription; the answer names the channel left
  behind. The two streams were free, and the key is the channel's if somebody else is in it
  and the fresh one otherwise.
\<close>

theorem join_voice_returns:
  fixes user :: id
  assumes "hub_reachable st" and "length (members st) < 2 ^ 31 - 1"
  shows "\<exists>v s st'. join_voice b64 entropy now st user channel = Some
      ((member_state (fresh_member now channel v s) user,
        to_base64 b64
          (if \<exists>u m. u \<noteq> user \<and> hget (members st) u = Some m \<and> mb_channel m = channel
           then the (hget (keys st) channel) else random_key entropy),
        voice_channel_of st user), st')
    \<and> hget (members st') user = Some (fresh_member now channel v s)
    \<and> v \<noteq> s \<and> v \<noteq> 0 \<and> s \<noteq> 0
    \<and> (\<forall>u. u \<noteq> user \<longrightarrow> hget (by_ssrc st) v \<noteq> Some u \<and> hget (by_ssrc st) s \<noteq> Some u)
    \<and> hub_reachable st'"
proof -
  note inv = hub_reachable_inv [OF assms(1)]
  let ?st0 = "snd (remove_member st user)"
  obtain v s where vs: "free_ssrc ?st0 v" "free_ssrc ?st0 s" "v \<noteq> s"
    and join: "join_voice b64 entropy now st user channel = Some
       ((member_state (fresh_member now channel v s) user,
         to_base64 b64 (case hget (keys ?st0) channel of Some k \<Rightarrow> k | None \<Rightarrow> random_key entropy),
         voice_channel_of st user),
        ?st0\<lparr>next_ssrc := s + 1,
            members := hinsert user (fresh_member now channel v s) (members ?st0),
            keys := (case hget (keys ?st0) channel of
                       Some _ \<Rightarrow> keys ?st0 | None \<Rightarrow> hinsert channel (random_key entropy) (keys ?st0)),
            by_ssrc := hinsert s user (hinsert v user (by_ssrc ?st0))\<rparr>)"
    by (rule join_voice_spec [OF inv assms(2)])
  have keys: "(case hget (keys ?st0) channel of Some k \<Rightarrow> k | None \<Rightarrow> random_key entropy) =
      (if \<exists>u m. u \<noteq> user \<and> hget (members st) u = Some m \<and> mb_channel m = channel
       then the (hget (keys st) channel) else random_key entropy)"
    by (rule key_after_removal [OF inv])
  note free = free_after_removal [OF inv]
  show ?thesis
    unfolding keys [symmetric]
  proof (intro exI conjI, rule join)
    show "hub_reachable (?st0\<lparr>next_ssrc := s + 1,
            members := hinsert user (fresh_member now channel v s) (members ?st0),
            keys := (case hget (keys ?st0) channel of
                       Some _ \<Rightarrow> keys ?st0 | None \<Rightarrow> hinsert channel (random_key entropy) (keys ?st0)),
            by_ssrc := hinsert s user (hinsert v user (by_ssrc ?st0))\<rparr>)"
      using assms(1) step_join [OF assms(2) join] unfolding hub_reachable_def
      by (rule rtranclp.rtrancl_into_rtrancl)
    show "\<forall>u. u \<noteq> user \<longrightarrow> hget (by_ssrc st) v \<noteq> Some u \<and> hget (by_ssrc st) s \<noteq> Some u"
      using vs free by blast
  qed (use vs in \<open>simp_all add: free_ssrc_def hmap_simps\<close>)
qed

theorem join_voice_returns_witness:
  "\<exists>v s st'. join_voice no_base64 [8] 0 ada_joined (Id 2) (Id 10) = Some
      ((member_state (fresh_member 0 (Id 10) v s) (Id 2),
        to_base64 no_base64
          (if \<exists>u m. u \<noteq> Id 2 \<and> hget (members ada_joined) u = Some m \<and> mb_channel m = Id 10
           then the (hget (keys ada_joined) (Id 10)) else random_key [8]),
        voice_channel_of ada_joined (Id 2)), st')
    \<and> hget (members st') (Id 2) = Some (fresh_member 0 (Id 10) v s)
    \<and> v \<noteq> s \<and> v \<noteq> 0 \<and> s \<noteq> 0
    \<and> (\<forall>u. u \<noteq> Id 2 \<longrightarrow> hget (by_ssrc ada_joined) v \<noteq> Some u \<and> hget (by_ssrc ada_joined) s \<noteq> Some u)
    \<and> hub_reachable st'"
  by (rule join_voice_returns [OF ada_joined_reachable]) (simp add: ada_joined_def)

text \<open>
  A channel has a key exactly while somebody is in it, so when the last member
  leaves the key is gone and the next to join gets one made from fresh entropy.
\<close>

theorem key_lives_with_the_call:
  assumes "hub_reachable st"
  shows "((hget (keys st) c \<noteq> None) = (\<exists>u m. hget (members st) u = Some m \<and> mb_channel m = c))
    \<and> (hget (members st) user = Some m \<longrightarrow>
       (\<forall>u n. u \<noteq> user \<longrightarrow> hget (members st) u = Some n \<longrightarrow> mb_channel n \<noteq> mb_channel m) \<longrightarrow>
       hget (keys (snd (leave_voice st user))) (mb_channel m) = None)"
proof (intro conjI impI)
  note inv = hub_reachable_inv [OF assms]
  from inv show "(hget (keys st) c \<noteq> None) = (\<exists>u m. hget (members st) u = Some m \<and> mb_channel m = c)"
    by (simp add: hub_inv_def keys_inv_def)
  show "hget (keys (snd (leave_voice st user))) (mb_channel m) = None"
    if "hget (members st) user = Some m"
      "\<forall>u n. u \<noteq> user \<longrightarrow> hget (members st) u = Some n \<longrightarrow> mb_channel n \<noteq> mb_channel m"
    using that by (auto simp: leave_voice_def remove_member_keys [OF hub_inv_members [OF inv]])
qed

theorem key_lives_with_the_call_witness:
  "hget (keys (snd (leave_voice ada_joined (Id 1)))) (Id 10) = None"
  using key_lives_with_the_call [OF ada_joined_reachable, THEN conjunct2,
      of "Id 1" "fresh_member 0 (Id 10) 1 2"]
  by (simp add: ada_joined_def fresh_member_def)

text \<open>
  In every reachable state a member watches only people in its own channel. Leaving
  returns the channel, retires both stream identifiers (whatever the header, a packet on them
  is dropped), and removes every subscription to the leaver; everybody else stays as they
  were.
\<close>

theorem leaving_retires_streams:
  assumes "hub_reachable st" and "hget (members st) user = Some m"
  defines "st' \<equiv> snd (leave_voice st user)"
  shows "fst (leave_voice st user) = Some (mb_channel m)
    \<and> hget (members st') user = None
    \<and> (ph_ssrc h \<in> {mb_voice_ssrc m, mb_screen_ssrc m} \<longrightarrow> route st' h sender = Drop)
    \<and> (\<forall>u n. hget (members st') u = Some n \<longrightarrow> user \<notin> mb_watching n
          \<and> (\<exists>n0. hget (members st) u = Some n0 \<and> n = n0\<lparr>mb_watching := mb_watching n0 - {user}\<rparr>))
    \<and> (\<forall>w \<in> mb_watching m. voice_channel_of st w = Some (mb_channel m))"
  using assms(2) watching_of [OF hub_reachable_inv [OF assms(1)] assms(2)]
  by (auto simp: st'_def leave_voice_def remove_member_fst remove_member_members
      remove_member_by_ssrc route_def voice_channel_of_def split: if_splits)

theorem leaving_retires_streams_witness:
  "fst (leave_voice call_state (Id 1)) = Some (Id 10)
   \<and> route (snd (leave_voice call_state (Id 1))) voice_from_ada addr_a = Drop"
  using leaving_retires_streams [OF call_reachable, of "Id 1" _ voice_from_ada addr_a]
  by (simp add: call_state_members fresh_member_def voice_from_ada_def)

text \<open>
  Stopping a share clears it and every subscription to it: until somebody
  subscribes again, screen media of that member is forwarded to nobody.
\<close>

theorem stopping_clears_subscriptions:
  assumes "hub_reachable st" and "hget (members st) user = Some m"
  defines "st' \<equiv> snd (stop_screen st user)"
  shows "fst (stop_screen st user) = Some (mb_channel m)
    \<and> (\<forall>viewer. \<not> is_watching st' viewer user)
    \<and> (\<forall>viewer n. hget (members st') viewer = Some n \<longrightarrow> user \<notin> mb_watching n)
    \<and> (ph_ssrc h = mb_screen_ssrc m \<longrightarrow> ph_kind h \<noteq> Keepalive \<longrightarrow>
         route st' h sender = Forward [] \<or> route st' h sender = Drop)"
proof -
  have look: "hget (members st') u = (if u = user
      then Some (m\<lparr>mb_screen := None, mb_watching := mb_watching m - {user}\<rparr>)
      else map_option (\<lambda>n. n\<lparr>mb_watching := mb_watching n - {user}\<rparr>) (hget (members st) u))" for u
    using assms(2) by (auto simp: st'_def stop_screen_def Let_def hmap_simps)
  have nobody: "\<forall>viewer n. hget (members st') viewer = Some n \<longrightarrow> user \<notin> mb_watching n"
    by (auto simp: look split: if_splits)
  have inv': "hub_inv st'"
    unfolding st'_def by (rule hub_inv_stop_screen [OF hub_reachable_inv [OF assms(1)]])
  have "route st' h sender = Forward [] \<or> route st' h sender = Drop"
    if own: "ph_ssrc h = mb_screen_ssrc m" and kind: "ph_kind h \<noteq> Keepalive"
  proof (cases "route st' h sender")
    case (Register key u)
    with kind show ?thesis by (auto simp: route_def Let_def split: option.splits if_splits)
  next
    case (Forward targets)
    then obtain u n where u: "hget (by_ssrc st') (ph_ssrc h) = Some u" "hget (members st') u = Some n"
      "ph_ssrc h = (if is_screen (ph_kind h) then mb_screen_ssrc n else mb_voice_ssrc n)"
      and targets: "targets = List.map_filter (\<lambda>(_, peer). mb_addr peer)
       (filter (\<lambda>(other, peer). other \<noteq> u \<and> mb_channel peer = mb_channel n
          \<and> wants peer u (ph_kind h)) (members st'))"
      by (rule route_Forward_cases)
    have m': "hget (members st') user = Some (m\<lparr>mb_screen := None, mb_watching := mb_watching m - {user}\<rparr>)"
      by (simp add: look)
    have "hget (by_ssrc st') (mb_screen_ssrc m) = Some user"
      using inv' m' by (fastforce simp: hub_inv_def streams_inv_def)
    with u(1) own have "u = user" by simp
    have "mb_voice_ssrc m \<noteq> mb_screen_ssrc m"
      using hub_reachable_inv [OF assms(1)] assms(2) by (simp add: hub_inv_def ids_inv_def)
    with u(2,3) m' own \<open>u = user\<close> have "is_screen (ph_kind h)"
      by (auto split: if_splits)
    have "user \<notin> mb_watching peer" if "(other, peer) \<in> set (members st')" for other peer
      using that nobody hmap_entry_iff [OF hub_inv_members [OF inv']] by blast
    with \<open>is_screen (ph_kind h)\<close> \<open>u = user\<close> have "targets = []"
      unfolding targets by (auto simp: filter_empty_conv wants_def List.map_filter_def)
    with Forward show ?thesis by simp
  qed simp
  moreover have "fst (stop_screen st user) = Some (mb_channel m)"
    using assms(2) by (simp add: stop_screen_def Let_def)
  moreover have "\<not> is_watching st' viewer user" for viewer
    using nobody by (auto simp: is_watching_def split: option.splits)
  ultimately show ?thesis using nobody by blast
qed

definition watched_call :: hub_state where
  "watched_call = snd (watch call_state (Id 2) (Id 1))"

lemma watched_call_reachable: "hub_reachable watched_call"
  using call_reachable step_watch unfolding hub_reachable_def watched_call_def
  by (rule rtranclp.rtrancl_into_rtrancl)

lemma watched_call_ada:
  "hget (members watched_call) (Id 1) = Some ((fresh_member 0 (Id 10) 1 2)\<lparr>mb_addr := Some addr_a\<rparr>)"
  by (simp add: watched_call_def watch_def call_state_members fresh_member_def)

theorem stopping_clears_subscriptions_witness:
  "(\<forall>rq. is_watching (snd (start_screen watched_call (Id 1) rq)) (Id 2) (Id 1))
   \<and> fst (stop_screen watched_call (Id 1)) = Some (Id 10)
   \<and> (\<forall>viewer. \<not> is_watching (snd (stop_screen watched_call (Id 1))) viewer (Id 1))"
proof (intro conjI)
  show "\<forall>rq. is_watching (snd (start_screen watched_call (Id 1) rq)) (Id 2) (Id 1)"
    by (simp add: is_watching_def start_screen_def watched_call_def watch_def call_state_members
        fresh_member_def Let_def)
  note stop = stopping_clears_subscriptions [OF watched_call_reachable watched_call_ada]
  then show "fst (stop_screen watched_call (Id 1)) = Some (Id 10)"
    by (simp add: fresh_member_def)
  from stop show "\<forall>viewer. \<not> is_watching (snd (stop_screen watched_call (Id 1))) viewer (Id 1)"
    by blast
qed

text \<open>
  An account is online exactly while it has a connection: \<open>connect\<close> reports
  whether the account was offline before, \<open>disconnect\<close> whether it is offline now, nobody
  else's presence changes, and closing a connection twice changes nothing. The identifier of
  a new connection is a 64-bit counter; the statement is for a counter that has not come
  round to a connection still open.
\<close>

theorem presence_follows_connections:
  assumes "hub_reachable st" and "hget (conns st) (ConnId (next_conn st)) = None"
  shows "(case connect st user of ((cid, first), st') \<Rightarrow>
            online st' = insert user (online st) \<and> (first \<longleftrightarrow> user \<notin> online st)
            \<and> hget (conns st') cid = Some \<lparr>cn_user = user\<rparr>)
    \<and> (case disconnect st c of (gone_offline, st') \<Rightarrow>
         (case hget (conns st) c of
           None \<Rightarrow> \<not> gone_offline \<and> st' = st
         | Some gone \<Rightarrow> online st = insert (cn_user gone) (online st')
             \<and> (gone_offline \<longleftrightarrow> cn_user gone \<notin> online st')
             \<and> hget (conns st') c = None))"
proof -
  have online: "u \<in> online s \<longleftrightarrow> (\<exists>cid e. hget (conns s) cid = Some e \<and> cn_user e = u)"
    if "hmap_ok (conns s)" for s u
    unfolding online_def using hmap_entry_iff [OF that] by (force simp: image_iff)
  have ok: "hmap_ok (conns st)" using hub_reachable_inv [OF assms(1)] by (rule hub_inv_conns)
  have some_conn: "(\<exists>(_, e) \<in> set (conns s). cn_user e = u) \<longleftrightarrow> u \<in> online s" for s u
    by (auto simp: online_def)
  let ?up = "st\<lparr>next_conn := next_conn st + 1,
                conns := hinsert (ConnId (next_conn st)) \<lparr>cn_user = user\<rparr> (conns st)\<rparr>"
  have "online ?up = insert user (online st)"
    using ok assms(2) by (auto simp: set_eq_iff online hmap_simps) (metis option.distinct(1))
  then have up: "case connect st user of ((cid, first), st') \<Rightarrow>
            online st' = insert user (online st) \<and> (first \<longleftrightarrow> user \<notin> online st)
            \<and> hget (conns st') cid = Some \<lparr>cn_user = user\<rparr>"
    by (simp add: connect_def Let_def some_conn hmap_simps)
  have "online st = insert (cn_user gone) (online (st\<lparr>conns := hremove c (conns st)\<rparr>))"
    if "hget (conns st) c = Some gone" for gone
    using ok that by (auto simp: set_eq_iff online hmap_simps) (metis option.inject)
  with up show ?thesis
    by (auto simp: disconnect_def Let_def some_conn hmap_simps split: option.split)
qed

theorem presence_follows_connections_witness:
  "online (snd (connect call_state (Id 1))) = {Id 1}"
  using presence_follows_connections [OF call_reachable, of "Id 1"]
  by (simp add: call_state_members online_def connect_def Let_def)

end
