(* ===== verification/Relay.thy ===== *)
theory Relay
  imports HubProps
begin

text \<open>
  The media relay, \<open>crates/boa-server/src/relay.rs\<close>: the loop around \<open>Hub::route\<close>. One
  iteration takes what \<open>recv_from\<close> returned and yields the new hub, the counters and the
  datagrams sent. The hub's two methods are the interface \<open>media_router\<close>: the loop's body is
  defined over any pair of them, its guarantees are proved from their laws, and the
  interpretation on \<open>route\<close> and \<open>bind_media_address\<close> discharges those. Whether a \<open>send_to\<close>
  succeeds is an argument.
\<close>

section \<open>Counters\<close>

record stats =
  st_received :: u64
  st_forwarded :: u64
  st_dropped :: u64

definition new_stats :: stats where
  "new_stats = \<lparr>st_received = 0, st_forwarded = 0, st_dropped = 0\<rparr>"

text \<open>\<open>fetch_add(1)\<close> on the three counters, which wraps, and \<open>snapshot\<close>.\<close>

definition count_received :: "stats \<Rightarrow> stats" where
  "count_received s = s\<lparr>st_received := st_received s + 1\<rparr>"

definition count_forwarded :: "stats \<Rightarrow> stats" where
  "count_forwarded s = s\<lparr>st_forwarded := st_forwarded s + 1\<rparr>"

definition count_dropped :: "stats \<Rightarrow> stats" where
  "count_dropped s = s\<lparr>st_dropped := st_dropped s + 1\<rparr>"

definition snapshot :: "stats \<Rightarrow> u64 \<times> u64 \<times> u64" where
  "snapshot s = (st_received s, st_forwarded s, st_dropped s)"

section \<open>The loop\<close>

datatype io_error_kind =
  ConnectionReset | ConnectionRefused | ConnectionAborted | Interrupted | OtherKind nat

definition is_transient :: "io_error_kind \<Rightarrow> bool" where
  "is_transient e \<longleftrightarrow> e \<in> {ConnectionReset, ConnectionRefused, ConnectionAborted, Interrupted}"

datatype received = Datagram "byte list" socket_addr | Failed io_error_kind

type_synonym sent = "socket_addr \<times> byte list"

text \<open>The \<open>for target in targets\<close> loop: a failed send costs only its own copy.\<close>

fun forward_all ::
  "(socket_addr \<Rightarrow> bool) \<Rightarrow> byte list \<Rightarrow> socket_addr list \<Rightarrow> stats \<Rightarrow> stats \<times> sent list" where
  "forward_all send_ok datagram [] s = (s, [])"
| "forward_all send_ok datagram (target # targets) s =
     (let s' = (if send_ok target then count_forwarded s else count_dropped s);
          (s'', out) = forward_all send_ok datagram targets s'
      in (s'', (target, datagram) # out))"

text \<open>
  One datagram, after \<open>recv_from\<close>: the buffer is one byte longer than the protocol allows,
  and a longer datagram is cut to it.
\<close>

definition handle_datagram ::
  "('s \<Rightarrow> packet_header \<Rightarrow> socket_addr \<Rightarrow> route) \<Rightarrow> ('s \<Rightarrow> id \<Rightarrow> socket_addr \<Rightarrow> 's) \<Rightarrow> aead
    \<Rightarrow> (socket_addr \<Rightarrow> bool) \<Rightarrow> 's \<times> stats \<Rightarrow> byte list \<Rightarrow> socket_addr \<Rightarrow> ('s \<times> stats) \<times> sent list" where
  "handle_datagram rt bind A send_ok hs bytes sender =
     (let (hub, s) = hs;
          datagram = take (MAX_DATAGRAM + 1) bytes;
          len = length datagram;
          s = count_received s
      in if \<not> (HEADER_LEN \<le> len \<and> len \<le> MAX_DATAGRAM) then ((hub, count_dropped s), [])
         else case decode datagram of
           Inl _ \<Rightarrow> ((hub, count_dropped s), [])
         | Inr h \<Rightarrow>
             (case rt hub h sender of
                Register key user \<Rightarrow>
                  if \<not> verify_registration A key datagram then ((hub, count_dropped s), [])
                  else ((bind hub user sender, s), [(sender, datagram)])
              | Forward targets \<Rightarrow>
                  let (s, out) = forward_all send_ok datagram targets s in ((hub, s), out)
              | Drop \<Rightarrow> ((hub, count_dropped s), [])))"

text \<open>
  \<open>serve\<close> over the results of successive receives: it ends with the error that is not
  transient, here the first component, and otherwise waits for the next datagram.
\<close>

fun serve_over ::
  "('s \<Rightarrow> packet_header \<Rightarrow> socket_addr \<Rightarrow> route) \<Rightarrow> ('s \<Rightarrow> id \<Rightarrow> socket_addr \<Rightarrow> 's) \<Rightarrow> aead
    \<Rightarrow> (socket_addr \<Rightarrow> bool) \<Rightarrow> 's \<times> stats \<Rightarrow> received list
    \<Rightarrow> io_error_kind option \<times> ('s \<times> stats) \<times> sent list" where
  "serve_over rt bind A send_ok hs [] = (None, hs, [])"
| "serve_over rt bind A send_ok hs (Failed e # rest) =
     (if is_transient e then serve_over rt bind A send_ok hs rest else (Some e, hs, []))"
| "serve_over rt bind A send_ok hs (Datagram bytes sender # rest) =
     (let (hs', out) = handle_datagram rt bind A send_ok hs bytes sender;
          (result, hs'', out') = serve_over rt bind A send_ok hs' rest
      in (result, hs'', out @ out'))"

text \<open>The relay of the server: the loop over the hub.\<close>

definition hub_bind :: "nat \<Rightarrow> hub_state \<Rightarrow> id \<Rightarrow> socket_addr \<Rightarrow> hub_state" where
  "hub_bind now st user addr = snd (bind_media_address now st user addr)"

definition relay_datagram ::
  "aead \<Rightarrow> (socket_addr \<Rightarrow> bool) \<Rightarrow> nat \<Rightarrow> hub_state \<times> stats \<Rightarrow> byte list \<Rightarrow> socket_addr
    \<Rightarrow> (hub_state \<times> stats) \<times> sent list" where
  "relay_datagram A send_ok now = handle_datagram route (hub_bind now) A send_ok"

definition serve ::
  "aead \<Rightarrow> (socket_addr \<Rightarrow> bool) \<Rightarrow> nat \<Rightarrow> hub_state \<times> stats \<Rightarrow> received list
    \<Rightarrow> io_error_kind option \<times> (hub_state \<times> stats) \<times> sent list" where
  "serve A send_ok now = serve_over route (hub_bind now) A send_ok"

section \<open>What the loop needs of the hub\<close>

lemma forward_all_sent: "snd (forward_all ok d ts s) = map (\<lambda>t. (t, d)) ts"
  by (induction ts arbitrary: s) (auto simp: Let_def case_prod_unfold)

lemma forward_all_counts:
  "fst (forward_all ok d ts s) = s\<lparr>
     st_forwarded := st_forwarded s + word_of_nat (length (filter ok ts)),
     st_dropped := st_dropped s + word_of_nat (length (filter (\<lambda>t. \<not> ok t) ts))\<rparr>"
  by (induction ts arbitrary: s)
    (auto simp: Let_def count_forwarded_def count_dropped_def algebra_simps case_prod_unfold)

locale media_router =
  fixes inv :: "'s \<Rightarrow> bool" and addrs :: "'s \<Rightarrow> socket_addr set"
    and rt :: "'s \<Rightarrow> packet_header \<Rightarrow> socket_addr \<Rightarrow> route"
    and bind :: "'s \<Rightarrow> id \<Rightarrow> socket_addr \<Rightarrow> 's"
  assumes forward_registered:
      "inv s \<Longrightarrow> rt s h a = Forward ts \<Longrightarrow> set ts \<subseteq> addrs s \<and> a \<in> addrs s"
    and bind_addrs: "inv s \<Longrightarrow> addrs (bind s u a) \<subseteq> insert a (addrs s)"
    and bind_inv: "inv s \<Longrightarrow> inv (bind s u a)"
begin

text \<open>
  A datagram is answered to its sender after a verified registration, or passed on to
  registered addresses on behalf of a registered one; nothing else is ever sent.
\<close>

lemma datagram_cases:
  assumes "inv hub" and "handle_datagram rt bind A send_ok (hub, s) bytes sender = (hs', out)"
  shows "inv (fst hs')"
    and "addrs (fst hs') \<subseteq> insert sender (addrs hub)"
    and "(t, d) \<in> set out \<Longrightarrow> d = bytes \<and> (t \<in> addrs hub \<and> sender \<in> addrs hub \<or> t = sender)"
    and "\<not> (\<exists>key user h. decode bytes = Inr h \<and> rt hub h sender = Register key user
             \<and> verify_registration A key bytes) \<Longrightarrow>
           fst hs' = hub \<and> ((t, d) \<in> set out \<longrightarrow> t \<in> addrs hub \<and> sender \<in> addrs hub)"
proof -
  let ?d = "take (MAX_DATAGRAM + 1) bytes"
  consider (bad) "hs' = (hub, count_dropped (count_received s))" "out = []"
    | (reg) h key user where "length bytes \<le> MAX_DATAGRAM" "decode bytes = Inr h"
        "rt hub h sender = Register key user" "verify_registration A key bytes"
        "fst hs' = bind hub user sender" "out = [(sender, bytes)]"
    | (fwd) h ts where "length bytes \<le> MAX_DATAGRAM" "rt hub h sender = Forward ts" "fst hs' = hub"
        "out = map (\<lambda>t. (t, bytes)) ts"
  proof (cases "HEADER_LEN \<le> length ?d \<and> length ?d \<le> MAX_DATAGRAM")
    case False
    with assms(2) show ?thesis by (intro bad) (auto simp: handle_datagram_def Let_def)
  next
    case True
    then have short: "length bytes \<le> MAX_DATAGRAM" and same: "?d = bytes" by auto
    show ?thesis
    proof (cases "decode bytes")
      case (Inl e)
      with assms(2) True same show ?thesis by (intro bad) (auto simp: handle_datagram_def Let_def)
    next
      case (Inr h)
      show ?thesis
      proof (cases "rt hub h sender")
        case (Register key user)
        show ?thesis
        proof (cases "verify_registration A key bytes")
          case True
          with \<open>HEADER_LEN \<le> length ?d \<and> length ?d \<le> MAX_DATAGRAM\<close> Inr Register assms(2) same
          show ?thesis
            by (intro reg [OF short Inr Register True]) (auto simp: handle_datagram_def Let_def)
        next
          case False
          with \<open>HEADER_LEN \<le> length ?d \<and> length ?d \<le> MAX_DATAGRAM\<close> Inr Register assms(2) same
          show ?thesis by (intro bad) (auto simp: handle_datagram_def Let_def)
        qed
      next
        case (Forward ts)
        with Inr assms(2) True same show ?thesis
          by (intro fwd [OF short Forward])
            (auto simp: handle_datagram_def Let_def case_prod_unfold forward_all_sent)
      next
        case Drop
        with Inr assms(2) True same show ?thesis by (intro bad) (auto simp: handle_datagram_def Let_def)
      qed
    qed
  qed
  then show "inv (fst hs')"
    "addrs (fst hs') \<subseteq> insert sender (addrs hub)"
    "(t, d) \<in> set out \<Longrightarrow> d = bytes \<and> (t \<in> addrs hub \<and> sender \<in> addrs hub \<or> t = sender)"
    "\<not> (\<exists>key user h. decode bytes = Inr h \<and> rt hub h sender = Register key user
             \<and> verify_registration A key bytes) \<Longrightarrow>
           fst hs' = hub \<and> ((t, d) \<in> set out \<longrightarrow> t \<in> addrs hub \<and> sender \<in> addrs hub)"
    by (cases; use assms(1) forward_registered bind_addrs bind_inv in fastforce)+
qed

end

section \<open>The hub is such a router\<close>

definition registered_addrs :: "hub_state \<Rightarrow> socket_addr set" where
  "registered_addrs st = {a. \<exists>u m. hget (members st) u = Some m \<and> mb_addr m = Some a}"

lemma registered_addrs_unchanged:
  assumes "\<And>u m. hget (members t) u = Some m \<Longrightarrow> mb_addr m \<noteq> None \<Longrightarrow>
    \<exists>n. hget (members s) u = Some n \<and> mb_addr n = mb_addr m"
  shows "registered_addrs t \<subseteq> registered_addrs s"
  using assms unfolding registered_addrs_def by (force)

text \<open>Only the relay adds addresses: no method the control plane calls does.\<close>

lemma control_step_addrs: "control_step s t \<Longrightarrow> hub_inv s \<Longrightarrow> registered_addrs t \<subseteq> registered_addrs s"
proof (induction rule: control_step.induct)
  case (ctl_join st b64 entropy now user channel r st')
  let ?st0 = "snd (remove_member st user)"
  obtain v s where "members st' = hinsert user (fresh_member now channel v s) (members ?st0)"
    by (rule join_voice_spec [OF ctl_join.prems ctl_join.hyps(1), of user b64 entropy now channel])
      (use ctl_join.hyps(2) in auto)
  then show ?case
    by (intro registered_addrs_unchanged)
      (auto simp: hmap_simps fresh_member_def remove_member_members split: if_splits)
qed (rule registered_addrs_unchanged;
    force simp: connect_def disconnect_def leave_voice_def remove_member_members set_voice_flags_def
      start_screen_def stop_screen_def watch_def unwatch_def Let_def hmap_simps
      split: option.splits if_splits)+

interpretation hub_router: media_router hub_inv registered_addrs route "hub_bind now"
proof
  show "set ts \<subseteq> registered_addrs s \<and> a \<in> registered_addrs s"
    if inv: "hub_inv s" and fwd: "route s h a = Forward ts" for s h a ts
  proof -
    from fwd obtain user m where m: "hget (members s) user = Some m" "mb_addr m = Some a"
      and ts: "ts = List.map_filter (\<lambda>(_, peer). mb_addr peer)
       (filter (\<lambda>(other, peer). other \<noteq> user \<and> mb_channel peer = mb_channel m
          \<and> wants peer user (ph_kind h)) (members s))"
      by (rule route_Forward_cases)
    then show ?thesis
      unfolding ts map_filter_members [OF hub_inv_members [OF inv]]
      by (auto simp: registered_addrs_def)
  qed
  show "registered_addrs (hub_bind now s u a) \<subseteq> insert a (registered_addrs s)" if "hub_inv s" for s u a
    by (auto simp: registered_addrs_def hub_bind_def bind_media_address_def hmap_simps
        split: option.splits if_splits)
  show "hub_inv (hub_bind now s u a)" if "hub_inv s" for s u a
    using that by (simp add: hub_bind_def hub_inv_bind)
qed

section \<open>The server's media side as a system\<close>

text \<open>
  The relay and the control plane interleaved: any control step of the hub, or one datagram
  through the relay. Two fields record the past: the addresses from which a registration
  that verified has come, and everything sent.
\<close>

record media_system =
  ms_hub :: hub_state
  ms_stats :: stats
  ms_verified :: "socket_addr set"
  ms_sent :: "sent list"

definition registers :: "aead \<Rightarrow> hub_state \<Rightarrow> byte list \<Rightarrow> socket_addr \<Rightarrow> bool" where
  "registers A hub bytes sender \<longleftrightarrow>
     (case decode bytes of
        Inl _ \<Rightarrow> False
      | Inr h \<Rightarrow> (case route hub h sender of
                    Register key user \<Rightarrow> verify_registration A key bytes
                  | _ \<Rightarrow> False))"

inductive media_step :: "aead \<Rightarrow> media_system \<Rightarrow> media_system \<Rightarrow> bool" for A where
  media_control: "control_step (ms_hub y) hub' \<Longrightarrow> media_step A y (y\<lparr>ms_hub := hub'\<rparr>)"
| media_datagram: "relay_datagram A send_ok now (ms_hub y, ms_stats y) bytes sender = ((hub', s'), out) \<Longrightarrow>
    media_step A y
      (y\<lparr>ms_hub := hub', ms_stats := s', ms_sent := ms_sent y @ out,
        ms_verified := (if registers A (ms_hub y) bytes sender
                        then insert sender (ms_verified y) else ms_verified y)\<rparr>)"

definition media_start :: media_system where
  "media_start = \<lparr>ms_hub = new_state, ms_stats = new_stats, ms_verified = {}, ms_sent = []\<rparr>"

definition media_inv :: "media_system \<Rightarrow> bool" where
  "media_inv y \<longleftrightarrow> hub_inv (ms_hub y) \<and> registered_addrs (ms_hub y) \<subseteq> ms_verified y
     \<and> (\<forall>(t, d) \<in> set (ms_sent y). t \<in> ms_verified y)"

lemma media_inv_step:
  assumes "media_step A y z" and inv: "media_inv y" shows "media_inv z"
  using assms
proof (induction rule: media_step.induct)
  case (media_control y hub')
  then show ?case
    using hub_inv_control control_step_addrs by (fastforce simp: media_inv_def)
next
  case (media_datagram send_ok now y bytes sender hub' s' out)
  have hub: "hub_inv (ms_hub y)" and reg: "registered_addrs (ms_hub y) \<subseteq> ms_verified y"
    and sent: "\<forall>(t, d) \<in> set (ms_sent y). t \<in> ms_verified y"
    using media_datagram.prems by (auto simp: media_inv_def)
  note step = media_datagram.hyps [unfolded relay_datagram_def]
  note cases = hub_router.datagram_cases [OF hub step]
  show ?case
  proof (cases "registers A (ms_hub y) bytes sender")
    case True
    with cases(1-3) reg sent show ?thesis by (fastforce simp: media_inv_def)
  next
    case False
    then have no: "\<not> (\<exists>key user h. decode bytes = Inr h \<and> route (ms_hub y) h sender = Register key user
        \<and> verify_registration A key bytes)"
      by (auto simp: registers_def)
    from cases(4) [OF no] have "hub' = ms_hub y"
      "\<And>t d. (t, d) \<in> set out \<Longrightarrow> t \<in> registered_addrs (ms_hub y)" by auto
    with False hub reg sent show ?thesis by (fastforce simp: media_inv_def)
  qed
qed

interpretation media: invariant_system media_inv "media_step A" for A
  by unfold_locales (rule media_inv_step)

text \<open>
  Claim C11. The relay is not a reflector: along every interleaving of control operations and
  arriving datagrams, whatever their content and source, every datagram the relay ever sends
  goes to an address from which a registration that verified under a channel's key has come.
\<close>

theorem relay_sends_only_to_registered:
  assumes "(media_step A)\<^sup>*\<^sup>* media_start y" and "(target, datagram) \<in> set (ms_sent y)"
  shows "target \<in> ms_verified y"
proof -
  have "media_inv media_start"
    using hub_inv_new by (auto simp: media_inv_def media_start_def registered_addrs_def new_state_def)
  with assms(1) have "media_inv y" by (rule media.run_keeps)
  with assms(2) show ?thesis by (auto simp: media_inv_def)
qed

definition ada_calling :: media_system where
  "ada_calling = media_start\<lparr>ms_hub := ada_joined\<rparr>"

definition ada_registration :: "byte list" where
  "ada_registration = registration toy_aead (random_key [7]) 1 1"

definition ada_registered :: media_system where
  "ada_registered = \<lparr>ms_hub = hub_bind 0 ada_joined (Id 1) addr_a, ms_stats = count_received new_stats,
     ms_verified = {addr_a}, ms_sent = [(addr_a, ada_registration)]\<rparr>"

lemma ada_routes_to_register:
  "route ada_joined \<lparr>ph_kind = Keepalive, ph_ssrc = 1, ph_seq = 1, ph_timestamp = 0\<rparr> sender =
     Register (random_key [7]) (Id 1)"
  by (simp add: route_def ada_joined_def fresh_member_def)

lemma ada_registers:
  "relay_datagram toy_aead (\<lambda>_. True) 0 (ada_joined, new_stats) ada_registration sender =
     ((hub_bind 0 ada_joined (Id 1) sender, count_received new_stats), [(sender, ada_registration)])"
  using verify_own_registration [OF toy_aead_laws, of "random_key [7]" 1 1]
  by (simp add: relay_datagram_def handle_datagram_def Let_def ada_routes_to_register
      ada_registration_def)

lemma ada_registered_reached: "(media_step toy_aead)\<^sup>*\<^sup>* media_start ada_registered"
proof -
  have "media_step toy_aead media_start ada_calling"
    unfolding ada_calling_def
    by (rule media_control, simp only: media_start_def media_system.simps,
        rule ctl_join [OF _ ada_joins]) (simp add: new_state_def)
  moreover have "registers toy_aead ada_joined ada_registration addr_a"
    using verify_own_registration [OF toy_aead_laws, of "random_key [7]" 1 1]
    by (simp add: registers_def ada_routes_to_register ada_registration_def)
  then have "media_step toy_aead ada_calling ada_registered"
    using media_datagram [of toy_aead "\<lambda>_. True" 0 ada_calling ada_registration addr_a]
      ada_registers [of addr_a]
    by (simp add: ada_calling_def media_start_def ada_registered_def)
  ultimately show ?thesis by simp
qed

theorem relay_sends_only_to_registered_witness:
  "(addr_a, ada_registration) \<in> set (ms_sent ada_registered) \<and> addr_a \<in> ms_verified ada_registered"
proof -
  have sent: "(addr_a, ada_registration) \<in> set (ms_sent ada_registered)"
    by (simp add: ada_registered_def)
  with relay_sends_only_to_registered [OF ada_registered_reached sent] show ?thesis by blast
qed

text \<open>
  What one datagram costs, on every branch of the loop's body: each is counted as
  received; a datagram of the wrong length, without a decodable header, with a registration
  that does not verify, or that the hub refuses is dropped without an answer and without a
  change of the hub; a good registration binds the sender's address and is echoed to it; and
  what is forwarded goes out unmodified to the addresses the hub named, with one count of
  forwarded or dropped for each. A datagram forwarded to an empty audience counts as neither.
\<close>

lemma relay_datagram_outcomes:
  "relay_datagram A ok now (hub, s) bytes sender =
     (let drop = ((hub, s\<lparr>st_received := st_received s + 1, st_dropped := st_dropped s + 1\<rparr>), [])
      in if length bytes < HEADER_LEN \<or> MAX_DATAGRAM < length bytes then drop
         else case decode bytes of
           Inl _ \<Rightarrow> drop
         | Inr h \<Rightarrow>
             (case route hub h sender of
                Drop \<Rightarrow> drop
              | Register key user \<Rightarrow>
                  if verify_registration A key bytes
                  then ((snd (bind_media_address now hub user sender),
                         s\<lparr>st_received := st_received s + 1\<rparr>), [(sender, bytes)])
                  else drop
              | Forward targets \<Rightarrow>
                  ((hub, s\<lparr>st_received := st_received s + 1,
                           st_forwarded := st_forwarded s + word_of_nat (length (filter ok targets)),
                           st_dropped := st_dropped s
                             + word_of_nat (length (filter (\<lambda>t. \<not> ok t) targets))\<rparr>),
                   map (\<lambda>t. (t, bytes)) targets)))"
proof -
  have pair: "forward_all ok d ts s0 = (fst (forward_all ok d ts s0), map (\<lambda>t. (t, d)) ts)" for d ts s0
    by (simp add: prod_eq_iff forward_all_sent)
  show ?thesis
  proof (cases "length bytes < HEADER_LEN \<or> MAX_DATAGRAM < length bytes")
    case True
    then show ?thesis
      by (auto simp: relay_datagram_def handle_datagram_def Let_def count_received_def count_dropped_def)
  next
    case False
    then have "take (MAX_DATAGRAM + 1) bytes = bytes" by simp
    with False show ?thesis
      by (subst (2) pair [symmetric] | simp add: relay_datagram_def handle_datagram_def Let_def
          count_received_def count_dropped_def hub_bind_def forward_all_counts case_prod_unfold
          forward_all_sent split: sum.split route.split)+
  qed
qed

text \<open>
  A registration that verified is not tied to the address it came from: the same
  bytes, replayed from any other address while the member is still in the call, verify again
  and move the member's media address there, with the echo as confirmation. (The comment on
  \<open>REGISTRATION_PLAINTEXT\<close> says only a member of the session can move the binding.)
\<close>

theorem replayed_registration_moves_address:
  assumes "decode bytes = Inr h" and "route hub h sender = Register key user"
    and "verify_registration A key bytes" and "length bytes \<le> MAX_DATAGRAM"
    and "hget (members hub) user = Some m"
  shows "route hub h other = Register key user
    \<and> relay_datagram A ok now (hub, s) bytes other =
        ((snd (bind_media_address now hub user other), s\<lparr>st_received := st_received s + 1\<rparr>),
         [(other, bytes)])
    \<and> map_option mb_addr (hget (members (snd (bind_media_address now hub user other))) user)
        = Some (Some other)"
proof -
  have kind: "route hub h other = Register key user"
    using assms(2) by (auto simp: route_def Let_def split: option.splits if_splits)
  have len: "HEADER_LEN \<le> length bytes"
    using assms(1) by (auto simp: decode_def split: if_splits)
  have "relay_datagram A ok now (hub, s) bytes other =
        ((snd (bind_media_address now hub user other), s\<lparr>st_received := st_received s + 1\<rparr>),
         [(other, bytes)])"
    using assms(1,3,4) kind len
    by (simp add: relay_datagram_def handle_datagram_def Let_def hub_bind_def count_received_def)
  with kind assms(5) show ?thesis
    by (simp add: bind_media_address_def hmap_simps)
qed

theorem replayed_registration_moves_address_witness:
  "relay_datagram toy_aead (\<lambda>_. True) 0 (ada_joined, new_stats) ada_registration addr_b =
     ((snd (bind_media_address 0 ada_joined (Id 1) addr_b), new_stats\<lparr>st_received := 1\<rparr>),
      [(addr_b, ada_registration)])"
proof -
  let ?h = "\<lparr>ph_kind = Keepalive, ph_ssrc = 1, ph_seq = 1, ph_timestamp = 0\<rparr>"
  have member: "hget (members ada_joined) (Id 1) = Some (fresh_member 0 (Id 10) 1 2)"
    by (simp add: ada_joined_def)
  have "decode ada_registration = Inr ?h" "verify_registration toy_aead (random_key [7]) ada_registration"
    "length ada_registration \<le> MAX_DATAGRAM"
    using verify_own_registration [OF toy_aead_laws, of "random_key [7]" 1 1]
    by (simp_all add: ada_registration_def)
  from replayed_registration_moves_address [OF this(1) ada_routes_to_register this(2,3) member,
      of addr_b "\<lambda>_. True" 0 new_stats]
  show ?thesis by (simp add: new_stats_def)
qed

end
