(* ===== verification/MediaProps.thy ===== *)
theory MediaProps
  imports Media
begin

text \<open>
  What the media plane promises: the header codec is exact, a datagram opens under a key
  exactly if it is what sealing under that key writes, the nonce names the packet, a refused
  payload leaves nothing behind, and a cut frame crosses the wire fragment by fragment.
\<close>

text \<open>
  The header codec is exact in both directions: a datagram decodes to a header if
  and only if it begins with that header's encoding, whatever follows. Hence decoding an
  encoded header gives it back, no two headers share an encoding, and no malformed datagram
  (short, wrong magic, wrong version, unknown kind) decodes at all.
\<close>

theorem header_codec_exact:
  "decode bytes = Inr h \<longleftrightarrow> (\<exists>rest. bytes = encode h @ rest)"
  by (metis append_take_drop_id decode_encode_append encode_take_of_decode)

text \<open>
  Claim C16. For a cipher that keeps its contract, a datagram opens under a key to a header and
  a payload if and only if sealing that payload under that key and header writes exactly this
  datagram. So what was sealed always opens, to the same bytes, and nothing else opens: a
  change of any byte of the header, which stays in the clear for the relay, is refused, as is
  one of the ciphertext.
\<close>

theorem opens_iff_sealed:
  assumes "aead_laws A" and "length datagram \<le> MAX_DATAGRAM"
  shows "open_datagram A key datagram = Inr (h, payload) \<longleftrightarrow>
    seal A key h payload out = (Inr (), datagram)"
  by (rule open_iff_seal [OF assms])

definition sample_header :: packet_header where
  "sample_header = \<lparr>ph_kind = Voice, ph_ssrc = 7, ph_seq = 1, ph_timestamp = 960\<rparr>"

theorem opens_iff_sealed_witness:
  "let d = snd (seal toy_aead (random_key [7]) sample_header [1, 2, 3] [])
   in length d = 35 \<and> open_datagram toy_aead (random_key [7]) d = Inr (sample_header, [1, 2, 3])"
proof -
  let ?d = "snd (seal toy_aead (random_key [7]) sample_header [1, 2, 3] [])"
  have "length [1, 2, 3 :: byte] \<le> MAX_PAYLOAD" by simp
  note seals = open_of_seal [OF toy_aead_laws this, of "random_key [7]" sample_header "[]"]
  have "length ?d = 35" using seals(2) by simp
  moreover have "seal toy_aead (random_key [7]) sample_header [1, 2, 3] [] = (Inr (), ?d)"
    using seals(3) by (metis prod.collapse)
  ultimately show ?thesis
    using opens_iff_sealed [OF toy_aead_laws, of ?d "random_key [7]" sample_header "[1, 2, 3]" "[]"]
    by simp
qed

text \<open>
  Sealing decides by the payload's length alone. A payload that does not fit one
  datagram is refused with its length and the caller's buffer keeps its content; one that fits
  is written over whatever the buffer held before, no stale tail left, as header, ciphertext
  and tag, at most \<open>MAX_DATAGRAM\<close> bytes.
\<close>

theorem seal_outcomes:
  assumes "aead_laws A"
  shows "if MAX_PAYLOAD < length payload
    then seal A key h payload out = (Inl (TooLarge (length payload)), out)
    else \<exists>c. seal A key h payload out = (Inr (), encode h @ c)
          \<and> length c = length payload + TAG_LEN
          \<and> length (encode h @ c) \<le> MAX_DATAGRAM
          \<and> seal A key h payload [] = (Inr (), encode h @ c)"
proof (cases "MAX_PAYLOAD < length payload")
  case True
  then show ?thesis by (simp add: seal_too_large)
next
  case False
  then have fits: "length payload \<le> MAX_PAYLOAD" by simp
  from seal_fits [OF assms fits, of key h out] obtain c where c:
    "seal A key h payload out = (Inr (), encode h @ c)" "length c = length payload + TAG_LEN" by blast
  moreover have "seal A key h payload [] = (Inr (), encode h @ c)"
    using c(1) False by (simp add: seal_def)
  moreover have "length (encode h @ c) \<le> MAX_DATAGRAM"
    using c(2) fits by simp
  ultimately show ?thesis using False by auto
qed

theorem seal_outcomes_witness:
  "seal toy_aead (random_key [7]) sample_header (replicate 1169 0) [9]
     = (Inl (TooLarge 1169), [9])"
  using seal_outcomes [OF toy_aead_laws, of "replicate 1169 0" "random_key [7]" sample_header "[9]"]
  by simp

text \<open>
  The nonce is the packet's identity: two headers give the same nonce if and only if
  they agree on stream, sequence number and kind. Under one key, a sender that never reuses a
  sequence number within a stream and kind never reuses a nonce; the timestamp plays no part.
\<close>

theorem nonce_identifies_packet:
  "nonce g = nonce h \<longleftrightarrow> ph_ssrc g = ph_ssrc h \<and> ph_seq g = ph_seq h \<and> ph_kind g = ph_kind h"
  by (auto simp: nonce_def)

text \<open>
  A datagram verifies as a registration under a key if and only if it is what
  sealing the fixed registration plaintext under that key, with some keepalive header, writes:
  the relay's check accepts what a holder of the channel's key produced and nothing else.
\<close>

theorem registration_verifies_iff:
  assumes "aead_laws A" and "length datagram \<le> MAX_DATAGRAM"
  shows "verify_registration A key datagram \<longleftrightarrow>
    (\<exists>h. ph_kind h = Keepalive \<and> seal A key h REGISTRATION_PLAINTEXT [] = (Inr (), datagram))"
  by (simp only: verify_registration_iff_open open_iff_seal [OF assms, where out = "[]"])

theorem registration_verifies_iff_witness:
  "verify_registration toy_aead (random_key [7]) (registration toy_aead (random_key [7]) 3 1)"
proof -
  let ?h = "\<lparr>ph_kind = Keepalive, ph_ssrc = 3, ph_seq = 1, ph_timestamp = 0\<rparr>"
  have "length REGISTRATION_PLAINTEXT \<le> MAX_PAYLOAD" by simp
  note seals = open_of_seal [OF toy_aead_laws this, of "random_key [7]" ?h "[]"]
  from seals(3) have "seal toy_aead (random_key [7]) ?h REGISTRATION_PLAINTEXT []
      = (Inr (), registration toy_aead (random_key [7]) 3 1)"
    unfolding registration_def by (metis prod.collapse)
  moreover have "length (registration toy_aead (random_key [7]) 3 1) \<le> MAX_DATAGRAM"
    using seals(2) by (simp add: registration_def)
  ultimately show ?thesis
    using registration_verifies_iff [OF toy_aead_laws, of "registration toy_aead (random_key [7]) 3 1"
        "random_key [7]"]
    by (metis packet_header.select_convs(1))
qed

text \<open>
  A video frame of at most 65535 fragments crosses the wire whole: fragment \<open>i\<close>
  carries its own index and the number of fragments unclipped in their sixteen bits, its
  payload fits one datagram, and what the receiver opens and reads is that index, that count
  and that chunk; and the chunks in order are the frame.
\<close>

theorem fragments_cross_the_wire:
  assumes "aead_laws A" and "length (fragment frame) < 2 ^ 16" and "i < length (fragment frame)"
  shows "\<exists>index cnt chunk datagram.
     fragment frame ! i = (index, cnt, chunk)
   \<and> unat index = i \<and> unat cnt = length (fragment frame)
   \<and> seal A key h (write_fragment index cnt chunk buffer) out = (Inr (), datagram)
   \<and> length datagram \<le> MAX_DATAGRAM
   \<and> open_datagram A key datagram = Inr (h, write_fragment index cnt chunk buffer)
   \<and> read_fragment (write_fragment index cnt chunk buffer) = Some (index, cnt, chunk)
   \<and> concat (map (snd \<circ> snd) (fragment frame)) = frame"
proof -
  define index :: u16 where "index = word_of_nat i"
  define cnt :: u16 where "cnt = word_of_nat (length (fragment frame))"
  define chunk where "chunk = chunks MAX_VIDEO_CHUNK frame ! i"
  have i: "i < length (chunks MAX_VIDEO_CHUNK frame)"
    using assms(3) by (simp add: length_fragment length_chunks)
  have "length chunk \<le> MAX_VIDEO_CHUNK"
    unfolding chunk_def using chunk_bounds [OF _ nth_mem [OF i]] by simp
  then have fits: "length (write_fragment index cnt chunk buffer) \<le> MAX_PAYLOAD"
    by (simp add: write_fragment_def)
  let ?d = "snd (seal A key h (write_fragment index cnt chunk buffer) out)"
  note seals = open_of_seal [OF assms(1) fits, of key h out]
  have "unat index = i" "unat cnt = length (fragment frame)"
    using assms(2,3) by (simp_all add: index_def cnt_def unat_of_nat)
  moreover have "fragment frame ! i = (index, cnt, chunk)"
    unfolding index_def cnt_def chunk_def by (rule fragment_nth [OF assms(3)])
  moreover have "seal A key h (write_fragment index cnt chunk buffer) out = (Inr (), ?d)"
    using seals(3) by (metis prod.collapse)
  moreover have "length ?d \<le> MAX_DATAGRAM" using seals(2) fits by simp
  moreover have "read_fragment (write_fragment index cnt chunk buffer) = Some (index, cnt, chunk)"
    unfolding index_def cnt_def
    by (intro read_write_fragment fragment_index_lt assms)
  ultimately show ?thesis
    using seals(1) fragment_concat by blast
qed

theorem fragments_cross_the_wire_witness:
  "\<exists>index cnt chunk datagram. fragment (replicate 1165 5) ! 1 = (index, cnt, chunk)
     \<and> unat index = 1 \<and> unat cnt = 2
     \<and> open_datagram toy_aead (random_key [7]) datagram
         = Inr (sample_header, write_fragment index cnt chunk [])"
proof -
  have len: "length (fragment (replicate 1165 5)) = 2" by (simp add: length_fragment)
  then have "length (fragment (replicate 1165 5)) < 2 ^ 16" "1 < length (fragment (replicate 1165 5))"
    by simp_all
  from fragments_cross_the_wire [OF toy_aead_laws this, of "random_key [7]" sample_header "[]" "[]"] len
  show ?thesis by auto
qed

end
