(* ===== verification/Ring.thy ===== *)
theory Ring
  imports Prelude
begin

text \<open>
  The sample queue of \<open>crates/boa-client/src/audio/ring.rs\<close>: a power-of-two array and two
  indices, one advanced by the producer and one by the consumer. Samples are the bit patterns
  the cells hold (\<open>f32::to_bits\<close>); indices are 64-bit words with the code's wrapping
  subtraction and mask. The abstraction \<open>contents\<close> reads the queue as a list, and the
  interface \<open>bounded_fifo\<close> is what the operations promise of it.
\<close>

type_synonym sample = u32

record ring =
  cells :: "sample list"
  read_ix :: u64
  write_ix :: u64
  mask :: u64

section \<open>Operations\<close>

text \<open>\<open>usize::next_power_of_two\<close>, for arguments that do not overflow it.\<close>

function next_power_from :: "nat \<Rightarrow> nat \<Rightarrow> nat" where
  "next_power_from p n = (if p = 0 \<or> n \<le> p then p else next_power_from (2 * p) n)"
  by auto
termination by (relation "measure (\<lambda>(p, n). n - p)") auto

declare next_power_from.simps [simp del]

definition next_power_of_two :: "nat \<Rightarrow> nat" where
  "next_power_of_two n = next_power_from 1 n"

definition ring_new :: "nat \<Rightarrow> ring" where
  "ring_new wanted =
     (let cap = max (next_power_of_two wanted) 2
      in \<lparr>cells = replicate cap 0, read_ix = 0, write_ix = 0, mask = word_of_nat (cap - 1)\<rparr>)"

definition ring_capacity :: "ring \<Rightarrow> nat" where
  "ring_capacity r = length (cells r) - 1"

definition ring_len :: "ring \<Rightarrow> nat" where
  "ring_len r = unat ((write_ix r - read_ix r) AND mask r)"

definition ring_is_empty :: "ring \<Rightarrow> bool" where
  "ring_is_empty r \<longleftrightarrow> ring_len r = 0"

text \<open>\<open>(base + i) & self.mask\<close>, the cell of the \<open>i\<close>-th sample from an index.\<close>

definition slot :: "ring \<Rightarrow> u64 \<Rightarrow> nat \<Rightarrow> nat" where
  "slot r base i = unat ((base + word_of_nat i) AND mask r)"

definition store_cell :: "ring \<Rightarrow> u64 \<Rightarrow> nat \<Rightarrow> sample \<Rightarrow> ring" where
  "store_cell r base i x = r\<lparr>cells := (cells r)[slot r base i := x]\<rparr>"

definition load_cell :: "ring \<Rightarrow> u64 \<Rightarrow> nat \<Rightarrow> sample" where
  "load_cell r base i = cells r ! slot r base i"

text \<open>The loop over \<open>samples[..taken].iter().enumerate()\<close>.\<close>

fun store_from :: "ring \<Rightarrow> u64 \<Rightarrow> nat \<Rightarrow> sample list \<Rightarrow> ring" where
  "store_from r base i [] = r"
| "store_from r base i (x # xs) = store_from (store_cell r base i x) base (i + 1) xs"

definition push :: "ring \<Rightarrow> sample list \<Rightarrow> nat \<times> ring" where
  "push r samples =
     (let write = write_ix r;
          read = read_ix r;
          free = ring_capacity r - unat ((write - read) AND mask r);
          taken = min (length samples) free;
          r' = store_from r write 0 (take taken samples)
      in (taken, r'\<lparr>write_ix := (write + word_of_nat taken) AND mask r\<rparr>))"

definition pop :: "ring \<Rightarrow> sample list \<Rightarrow> (nat \<times> sample list) \<times> ring" where
  "pop r out =
     (let read = read_ix r;
          write = write_ix r;
          available = unat ((write - read) AND mask r);
          taken = min (length out) available;
          out' = map (load_cell r read) [0..<taken] @ drop taken out
      in ((taken, out'), r\<lparr>read_ix := (read + word_of_nat taken) AND mask r\<rparr>))"

definition clear :: "ring \<Rightarrow> ring" where
  "clear r = r\<lparr>read_ix := write_ix r\<rparr>"

section \<open>The queue as a list\<close>

definition contents :: "ring \<Rightarrow> sample list" where
  "contents r = map (load_cell r (read_ix r)) [0..<ring_len r]"

definition ring_ok :: "nat \<Rightarrow> ring \<Rightarrow> bool" where
  "ring_ok k r \<longleftrightarrow> 0 < k \<and> k < 64 \<and> length (cells r) = 2 ^ k \<and> mask r = Bit_Operations.mask k
     \<and> unat (read_ix r) < 2 ^ k \<and> unat (write_ix r) < 2 ^ k"

definition ring_inv :: "ring \<Rightarrow> bool" where
  "ring_inv r \<longleftrightarrow> (\<exists>k. ring_ok k r)"

lemma contents_length [simp]: "length (contents r) = ring_len r"
  by (simp add: contents_def)

lemma unat_mask: "unat (w AND Bit_Operations.mask k) = unat w mod 2 ^ k" for w :: "'a::len word"
proof -
  have "unat (w AND Bit_Operations.mask k) = unat (take_bit k w)"
    by (simp only: take_bit_eq_mask)
  also have "\<dots> = take_bit k (unat w)" by (rule unsigned_take_bit_eq)
  also have "\<dots> = unat w mod 2 ^ k" by (rule take_bit_nat_def)
  finally show ?thesis .
qed

lemma unat_add_mod:
  fixes a b :: u64
  assumes "k \<le> 64"
  shows "unat (a + b) mod 2 ^ k = (unat a + unat b) mod 2 ^ k"
proof -
  have dvd: "(2::nat) ^ k dvd 2 ^ LENGTH(64)"
    using assms by (intro le_imp_power_dvd) simp
  show ?thesis
    unfolding unat_word_ariths(1) by (rule mod_mod_cancel [OF dvd])
qed

lemma unat_of_nat_mod: "k \<le> 64 \<Longrightarrow> unat (word_of_nat i :: u64) mod 2 ^ k = i mod 2 ^ k"
  unfolding unat_of_nat by (intro mod_mod_cancel le_imp_power_dvd) simp

lemma slot_mod:
  assumes "ring_ok k r"
  shows "slot r base i = (unat base + i) mod 2 ^ k"
proof -
  from assms have k: "k \<le> 64" and m: "mask r = Bit_Operations.mask k" by (simp_all add: ring_ok_def)
  have "slot r base i = unat (base + word_of_nat i) mod 2 ^ k"
    by (simp only: slot_def m unat_mask)
  also have "\<dots> = (unat base + unat (word_of_nat i :: u64) mod 2 ^ k) mod 2 ^ k"
    by (simp only: unat_add_mod [OF k] mod_add_right_eq)
  also have "\<dots> = (unat base + i) mod 2 ^ k"
    by (simp only: unat_of_nat_mod [OF k] mod_add_right_eq)
  finally show ?thesis .
qed

lemma ring_len_mod:
  assumes "ring_ok k r"
  shows "ring_len r < 2 ^ k" "(unat (read_ix r) + ring_len r) mod 2 ^ k = unat (write_ix r)"
proof -
  from assms have k: "k \<le> 64" and m: "mask r = Bit_Operations.mask k"
    and w: "unat (write_ix r) < 2 ^ k" by (simp_all add: ring_ok_def)
  have len: "ring_len r = unat (write_ix r - read_ix r) mod 2 ^ k"
    by (simp only: ring_len_def m unat_mask)
  then show "ring_len r < 2 ^ k" by simp
  have "(unat (read_ix r) + ring_len r) mod 2 ^ k = unat (read_ix r + (write_ix r - read_ix r)) mod 2 ^ k"
    by (simp only: len mod_add_right_eq unat_add_mod [OF k])
  with w show "(unat (read_ix r) + ring_len r) mod 2 ^ k = unat (write_ix r)" by simp
qed

lemma add_mod_inj:
  fixes a i j n :: nat
  assumes "(a + i) mod n = (a + j) mod n" "i < n" "j < n"
  shows "i = j"
proof -
  have "i = j" if eq: "(a + i) mod n = (a + j) mod n" and lt: "j < n" and le: "i \<le> j" for i j
  proof -
    from le have "a + i \<le> a + j" by simp
    from mod_eq_dvd_iff_nat [OF this, of n] eq have "n dvd j - i" by simp
    with lt le show "i = j" by (metis diff_is_0_eq dvd_imp_le le_antisym less_imp_diff_less not_gr_zero not_le)
  qed
  with assms show ?thesis by (metis linorder_le_cases)
qed

text \<open>What the length is, given the indices: the one distance that fits.\<close>

lemma ring_len_unique:
  assumes "ring_ok k r" and "(unat (read_ix r) + n) mod 2 ^ k = unat (write_ix r)" and "n < 2 ^ k"
  shows "ring_len r = n"
  using add_mod_inj ring_len_mod [OF assms(1)] assms(2,3) by metis

lemma slot_inj:
  assumes "ring_ok k r" "i < 2 ^ k" "j < 2 ^ k"
  shows "slot r b i = slot r b j \<longleftrightarrow> i = j"
  using add_mod_inj assms by (metis slot_mod)

lemma slot_lt: "ring_ok k r \<Longrightarrow> slot r b i < length (cells r)"
  by (simp add: slot_mod) (simp add: ring_ok_def)

text \<open>A cell beyond the waiting samples is not one of them.\<close>

lemma slot_beyond:
  assumes "ring_ok k r" "ring_len r + i < 2 ^ k" "j < ring_len r + i"
  shows "slot r (write_ix r) i \<noteq> slot r (read_ix r) j"
proof -
  have "slot r (write_ix r) i = (unat (read_ix r) + (ring_len r + i)) mod 2 ^ k"
    by (simp add: slot_mod [OF assms(1)] ring_len_mod(2) [OF assms(1), symmetric] mod_add_left_eq add.assoc)
  then have "slot r (write_ix r) i = slot r (read_ix r) (ring_len r + i)"
    by (simp only: slot_mod [OF assms(1)])
  with slot_inj [OF assms(1,2), of j "read_ix r"] assms(2,3) show ?thesis by auto
qed

section \<open>One step of each loop\<close>

lemma store_cell_fields [simp]:
  "read_ix (store_cell r b i x) = read_ix r" "write_ix (store_cell r b i x) = write_ix r"
  "mask (store_cell r b i x) = mask r" "length (cells (store_cell r b i x)) = length (cells r)"
  "ring_len (store_cell r b i x) = ring_len r" "slot (store_cell r b i x) = slot r"
  by (auto simp: store_cell_def ring_len_def slot_def fun_eq_iff)

lemma ring_ok_store_cell [simp]: "ring_ok k (store_cell r b i x) \<longleftrightarrow> ring_ok k r"
  by (simp add: ring_ok_def)

lemma load_store_cell:
  assumes "ring_ok k r"
  shows "load_cell (store_cell r b i x) c j = (if slot r c j = slot r b i then x else load_cell r c j)"
  using slot_lt [OF assms] by (simp add: load_cell_def store_cell_def slot_def)

text \<open>Storing beyond the waiting samples changes none of them.\<close>

lemma contents_store_cell:
  assumes "ring_ok k r" "ring_len r + i < 2 ^ k"
  shows "contents (store_cell r (write_ix r) i x) = contents r"
  using slot_beyond [OF assms] by (auto simp: contents_def load_store_cell [OF assms(1)]) (metis trans_less_add1)

text \<open>Publishing the write index makes the stored samples visible, behind the old ones.\<close>

lemma advance_write:
  assumes ok: "ring_ok k r" and fits: "ring_len r + n < 2 ^ k"
  defines "r' \<equiv> r\<lparr>write_ix := (write_ix r + word_of_nat n) AND mask r\<rparr>"
  shows "ring_ok k r'" "ring_len r' = ring_len r + n"
    "contents r' = contents r @ map (load_cell r (write_ix r)) [0..<n]"
proof -
  have w: "unat (write_ix r') = (unat (write_ix r) + n) mod 2 ^ k"
    using slot_mod [OF ok, of "write_ix r" n] by (simp add: r'_def slot_def)
  with ok show ok': "ring_ok k r'" by (simp add: ring_ok_def r'_def)
  have "(unat (read_ix r) + (ring_len r + n)) mod 2 ^ k = unat (write_ix r')"
    by (simp add: w ring_len_mod(2) [OF ok, symmetric] mod_add_left_eq add.assoc)
  then show len: "ring_len r' = ring_len r + n"
    by (intro ring_len_unique [OF ok' _ fits]) (simp add: r'_def)
  have load: "load_cell r' = load_cell r"
    by (simp add: fun_eq_iff load_cell_def slot_def r'_def)
  have shift: "load_cell r (write_ix r) i = load_cell r (read_ix r) (ring_len r + i)" for i
    by (simp add: load_cell_def slot_mod [OF ok] ring_len_mod(2) [OF ok, symmetric] mod_add_left_eq add.assoc)
  have "map (load_cell r (read_ix r)) [ring_len r..<ring_len r + n]
      = map (load_cell r (write_ix r)) [0..<n]"
    by (rule nth_equalityI) (simp_all add: shift)
  then show "contents r' = contents r @ map (load_cell r (write_ix r)) [0..<n]"
    using upt_add_eq_append [of 0 "ring_len r" n]
    by (simp add: contents_def len load) (simp add: r'_def)
qed

text \<open>Publishing the read index drops what was read from the front.\<close>

lemma advance_read:
  assumes ok: "ring_ok k r" and n: "n \<le> ring_len r"
  defines "r' \<equiv> r\<lparr>read_ix := (read_ix r + word_of_nat n) AND mask r\<rparr>"
  shows "ring_ok k r'" "ring_len r' = ring_len r - n" "contents r' = drop n (contents r)"
proof -
  have rd: "unat (read_ix r') = (unat (read_ix r) + n) mod 2 ^ k"
    using slot_mod [OF ok, of "read_ix r" n] by (simp add: r'_def slot_def)
  with ok show ok': "ring_ok k r'" by (simp add: ring_ok_def r'_def)
  have "(unat (read_ix r') + (ring_len r - n)) mod 2 ^ k
      = (unat (read_ix r) + (n + (ring_len r - n))) mod 2 ^ k"
    by (simp only: rd mod_add_left_eq add.assoc)
  also have "\<dots> = unat (write_ix r')"
    using n by (simp add: ring_len_mod(2) [OF ok]) (simp add: r'_def)
  finally have "(unat (read_ix r') + (ring_len r - n)) mod 2 ^ k = unat (write_ix r')" .
  then show len: "ring_len r' = ring_len r - n"
    using ring_len_mod(1) [OF ok] by (intro ring_len_unique [OF ok']) simp_all
  have shift: "load_cell r' (read_ix r') i = load_cell r (read_ix r) (n + i)" for i
    by (simp add: load_cell_def slot_mod [OF ok] slot_mod [OF ok'] rd mod_add_left_eq add.assoc)
      (simp add: r'_def)
  show "contents r' = drop n (contents r)"
    by (rule nth_equalityI) (simp_all add: len, simp add: contents_def len shift)
qed

section \<open>The operations on the list\<close>

lemma store_from_spec:
  assumes "ring_ok k r" "ring_len r + i + length xs < 2 ^ k"
  shows "ring_ok k (store_from r (write_ix r) i xs)
    \<and> contents (store_from r (write_ix r) i xs) = contents r
    \<and> read_ix (store_from r (write_ix r) i xs) = read_ix r
    \<and> write_ix (store_from r (write_ix r) i xs) = write_ix r
    \<and> mask (store_from r (write_ix r) i xs) = mask r
    \<and> (\<forall>j < i. load_cell (store_from r (write_ix r) i xs) (write_ix r) j = load_cell r (write_ix r) j)
    \<and> (\<forall>j < length xs. load_cell (store_from r (write_ix r) i xs) (write_ix r) (i + j) = xs ! j)"
  using assms
proof (induction xs arbitrary: r i)
  case (Cons x xs)
  let ?r = "store_cell r (write_ix r) i x"
  have ok: "ring_ok k ?r" and len: "ring_len ?r + (i + 1) + length xs < 2 ^ k"
    using Cons.prems by simp_all
  have load: "load_cell ?r (write_ix r) j = (if j = i then x else load_cell r (write_ix r) j)"
    if "j \<le> i" for j
    using slot_inj [OF Cons.prems(1), of j i "write_ix r"] Cons.prems(2) that
    by (simp add: load_store_cell [OF Cons.prems(1)])
  note IH = Cons.IH [OF ok len, simplified]
  have later: "load_cell (store_from ?r (write_ix r) (i + 1) xs) (write_ix r) (i + j) = (x # xs) ! j"
    if "j < length (x # xs)" for j
    using that IH load [of i] by (cases j) auto
  show ?case
    using IH load later contents_store_cell [OF Cons.prems(1), of i x] Cons.prems(2) by simp
qed simp

lemma ring_capacity_ok: "ring_ok k r \<Longrightarrow> ring_capacity r = 2 ^ k - 1"
  by (simp add: ring_capacity_def ring_ok_def)

lemma push_spec:
  assumes "ring_inv r" and "push r samples = (n, r')"
  shows "ring_inv r' \<and> ring_capacity r' = ring_capacity r
    \<and> n = min (length samples) (ring_capacity r - length (contents r))
    \<and> contents r' = contents r @ take n samples"
proof -
  from assms(1) obtain k where ok: "ring_ok k r" by (auto simp: ring_inv_def)
  define m where "m = min (length samples) (ring_capacity r - ring_len r)"
  have fits: "ring_len r + m < 2 ^ k"
    using ring_len_mod(1) [OF ok] by (simp add: m_def ring_capacity_ok [OF ok])
  let ?s = "store_from r (write_ix r) 0 (take m samples)"
  have "ring_len r + 0 + length (take m samples) < 2 ^ k" using fits by (simp add: m_def)
  note store = store_from_spec [OF ok this]
  have len: "ring_len ?s = ring_len r" using store by (metis contents_length)
  then have fits': "ring_len ?s + m < 2 ^ k" using fits by simp
  have r': "push r samples = (m, ?s\<lparr>write_ix := (write_ix ?s + word_of_nat m) AND mask ?s\<rparr>)"
    using store by (simp add: push_def Let_def m_def ring_len_def)
  note adv = advance_write [OF conjunct1 [OF store] fits']
  have new: "map (load_cell ?s (write_ix ?s)) [0..<m] = take m samples"
    using store by (intro nth_equalityI) (simp_all add: m_def)
  have ok': "ring_ok k (snd (push r samples))" using adv(1) r' by simp
  then have "ring_inv (snd (push r samples))" "ring_capacity (snd (push r samples)) = ring_capacity r"
    by (auto simp: ring_inv_def ring_capacity_ok [OF ok] ring_capacity_ok)
  moreover have "contents (snd (push r samples)) = contents r @ take m samples"
    using adv(3) new store r' by simp
  ultimately have "ring_inv (snd (push r samples))" "ring_capacity (snd (push r samples)) = ring_capacity r"
    "contents (snd (push r samples)) = contents r @ take m samples" by simp_all
  moreover have "r' = snd (push r samples)" by (simp only: assms(2) snd_conv)
  moreover have "n = m" using arg_cong [OF r', of fst] by (simp only: assms(2) fst_conv)
  ultimately show ?thesis by (simp add: m_def)
qed

lemma pop_spec:
  assumes "ring_inv r" and "pop r out = ((n, out'), r')"
  shows "ring_inv r' \<and> ring_capacity r' = ring_capacity r
    \<and> n = min (length out) (length (contents r))
    \<and> out' = take n (contents r) @ drop n out
    \<and> contents r' = drop n (contents r)"
proof -
  from assms(1) obtain k where ok: "ring_ok k r" by (auto simp: ring_inv_def)
  have n: "n = min (length out) (ring_len r)"
    and out: "out' = map (load_cell r (read_ix r)) [0..<n] @ drop n out"
    and r': "r' = r\<lparr>read_ix := (read_ix r + word_of_nat n) AND mask r\<rparr>"
    using assms(2) by (auto simp: pop_def Let_def ring_len_def)
  have "n \<le> ring_len r" by (simp add: n)
  note adv = advance_read [OF ok this, folded r']
  have "map (load_cell r (read_ix r)) [0..<n] = take n (contents r)"
    by (simp add: contents_def take_map n)
  with adv n out show ?thesis
    by (auto simp: ring_inv_def ring_capacity_ok [OF ok] ring_capacity_ok [OF adv(1)])
qed

lemma clear_spec:
  assumes "ring_inv r"
  shows "ring_inv (clear r)" "contents (clear r) = []" "ring_capacity (clear r) = ring_capacity r"
  using assms by (auto simp: ring_inv_def ring_ok_def clear_def ring_len_def contents_def ring_capacity_def)

lemma next_power_from:
  assumes "0 < p"
  shows "n \<le> next_power_from p n \<and> (next_power_from p n = p \<or> next_power_from p n < 2 * n)
    \<and> (\<exists>m. next_power_from p n = p * 2 ^ m)"
  using assms
proof (induction p n rule: next_power_from.induct)
  case (1 p n)
  show ?case
  proof (cases "n \<le> p")
    case True
    then show ?thesis by (auto simp: next_power_from.simps [of p n] intro: exI [of _ 0])
  next
    case False
    with "1.prems" have step: "next_power_from p n = next_power_from (2 * p) n"
      by (simp add: next_power_from.simps [of p n])
    from 1 False obtain m where "next_power_from (2 * p) n = 2 * p * 2 ^ m" by auto
    then have "\<exists>m. next_power_from (2 * p) n = p * 2 ^ m" by (intro exI [of _ "m + 1"]) simp
    with 1 False show ?thesis unfolding step by auto
  qed
qed

lemma ring_new_spec:
  assumes "wanted \<le> 2 ^ 62"
  shows "ring_inv (ring_new wanted)" "contents (ring_new wanted) = []"
    "wanted \<le> ring_capacity (ring_new wanted) + 1"
    "ring_capacity (ring_new wanted) < max 2 (2 * wanted)"
proof -
  note pow = next_power_from [of 1 wanted, folded next_power_of_two_def]
  from pow obtain m where m: "next_power_of_two wanted = 2 ^ m" by auto
  obtain k where k: "max (next_power_of_two wanted) 2 = 2 ^ k" "0 < k"
  proof (cases m)
    case 0
    with m that [of 1] show ?thesis by simp
  next
    case (Suc j)
    have "(2::nat) * 1 \<le> 2 * 2 ^ j" by (intro mult_le_mono2) simp
    then have "max ((2::nat) ^ m) 2 = 2 ^ m" by (intro max.absorb1) (simp add: Suc)
    with m Suc that [of m] show ?thesis by simp
  qed
  have "(2::nat) ^ k < 2 ^ 64" using k pow assms by (auto simp: max_def split: if_splits)
  then have "k < 64" by (rule power_less_imp_less_exp [rotated]) simp
  moreover have "(word_of_nat (2 ^ k - 1) :: u64) = Bit_Operations.mask k"
    by (simp add: mask_eq_exp_minus_1 of_nat_diff)
  ultimately show "ring_inv (ring_new wanted)"
    using k by (auto simp: ring_inv_def ring_ok_def ring_new_def Let_def)
  show "contents (ring_new wanted) = []"
    by (simp add: contents_def ring_len_def ring_new_def Let_def)
  show "wanted \<le> ring_capacity (ring_new wanted) + 1"
    "ring_capacity (ring_new wanted) < max 2 (2 * wanted)"
    using pow by (auto simp: ring_capacity_def ring_new_def Let_def)
qed

section \<open>The interface of a bounded queue\<close>

text \<open>
  What the audio pipeline relies on: \<open>put\<close> takes what fits, behind what waits; \<open>get\<close> fills
  the front of the caller's buffer with the oldest samples and leaves the rest of it alone;
  \<open>reset\<close> forgets what waits.
\<close>

locale bounded_fifo =
  fixes ok :: "'q \<Rightarrow> bool" and waiting :: "'q \<Rightarrow> 'a list" and room :: "'q \<Rightarrow> nat"
    and put :: "'q \<Rightarrow> 'a list \<Rightarrow> nat \<times> 'q"
    and get :: "'q \<Rightarrow> 'a list \<Rightarrow> (nat \<times> 'a list) \<times> 'q"
    and reset :: "'q \<Rightarrow> 'q"
  assumes put_law: "ok q \<Longrightarrow> put q xs = (n, q') \<Longrightarrow>
      ok q' \<and> room q' = room q \<and> n = min (length xs) (room q - length (waiting q))
        \<and> waiting q' = waiting q @ take n xs"
    and get_law: "ok q \<Longrightarrow> get q out = ((n, out'), q') \<Longrightarrow>
      ok q' \<and> room q' = room q \<and> n = min (length out) (length (waiting q))
        \<and> out' = take n (waiting q) @ drop n out \<and> waiting q' = drop n (waiting q)"
    and reset_law: "ok q \<Longrightarrow> ok (reset q) \<and> room (reset q) = room q \<and> waiting (reset q) = []"
begin

lemma get_after_put:
  assumes "ok q" and "length (waiting q) + length xs \<le> room q"
    and "length out = length (waiting q) + length xs"
  shows "fst (get (snd (put q xs)) out) = (length out, waiting q @ xs)"
    and "waiting (snd (get (snd (put q xs)) out)) = []"
proof -
  obtain n q' where put: "put q xs = (n, q')" by fastforce
  obtain m out' q'' where get: "get q' out = ((m, out'), q'')" by (metis prod.collapse)
  from put_law [OF assms(1) put] assms(2) have q': "ok q'" "waiting q' = waiting q @ xs" by auto
  from get_law [OF q'(1) get] q'(2) assms(3)
  show "fst (get (snd (put q xs)) out) = (length out, waiting q @ xs)"
    and "waiting (snd (get (snd (put q xs)) out)) = []"
    by (auto simp: put get)
qed

lemma put_get_keep:
  assumes "ok q"
  shows "ok (snd (put q xs))" "ok (snd (get q out))"
    "length (waiting q) \<le> room q \<Longrightarrow> length (waiting (snd (put q xs))) \<le> room (snd (put q xs))"
    "length (waiting q) \<le> room q \<Longrightarrow> length (waiting (snd (get q out))) \<le> room (snd (get q out))"
proof -
  obtain n q' where put: "put q xs = (n, q')" by fastforce
  obtain m out' q'' where get: "get q out = ((m, out'), q'')" by (metis prod.collapse)
  from put_law [OF assms put] get_law [OF assms get]
  show "ok (snd (put q xs))" "ok (snd (get q out))"
    "length (waiting q) \<le> room q \<Longrightarrow> length (waiting (snd (put q xs))) \<le> room (snd (put q xs))"
    "length (waiting q) \<le> room q \<Longrightarrow> length (waiting (snd (get q out))) \<le> room (snd (get q out))"
    by (auto simp: put get)
qed

end

interpretation ring_fifo: bounded_fifo ring_inv contents ring_capacity push pop clear
proof
  show "ring_inv q' \<and> ring_capacity q' = ring_capacity q
      \<and> n = min (length xs) (ring_capacity q - length (contents q)) \<and> contents q' = contents q @ take n xs"
    if "ring_inv q" "push q xs = (n, q')" for q xs n q'
    using push_spec [OF that] .
  show "ring_inv q' \<and> ring_capacity q' = ring_capacity q \<and> n = min (length out) (length (contents q))
      \<and> out' = take n (contents q) @ drop n out \<and> contents q' = drop n (contents q)"
    if "ring_inv q" "pop q out = ((n, out'), q')" for q out n out' q'
    using pop_spec [OF that] .
qed (use clear_spec in auto)

end
