(* ===== verification/RingThreads.thy ===== *)
theory RingThreads
  imports Ring
begin

text \<open>
  The ring under its two threads. \<open>push\<close>, \<open>pop\<close> and \<open>clear\<close> are cut at every access to
  shared memory, and a run interleaves the producer's accesses with the consumer's in any
  order. The interleaving is sequentially consistent, which is what the release store and the
  acquire load of each index provide for a single producer and a single consumer.

  Ghost fields record the samples the producer's calls accepted, how many of them the
  consumer is past (taken or cleared), how many it cleared, and what each call to \<open>pop\<close> returned, with the
  position in the accepted stream it started from.
\<close>

datatype producer =
    P_idle
  | P_pushing "sample list" u64
  | P_storing "sample list" u64 nat nat

datatype consumer =
    C_idle
  | C_popping nat u64
  | C_loading u64 nat "sample list"
  | C_clearing u64

record ring_system =
  rs_ring :: ring
  rs_producer :: producer
  rs_consumer :: consumer
  rs_accepted :: "sample list"
  rs_past :: nat
  rs_cleared :: nat
  rs_returned :: "(nat \<times> sample list) list"

inductive ring_step :: "ring_system \<Rightarrow> ring_system \<Rightarrow> bool" where
  push_load_write:
    "rs_producer y = P_idle \<Longrightarrow>
     ring_step y (y\<lparr>rs_producer := P_pushing samples (write_ix (rs_ring y))\<rparr>)"
| push_load_read:
    "rs_producer y = P_pushing samples write \<Longrightarrow>
     taken = min (length samples)
       (ring_capacity (rs_ring y) - unat ((write - read_ix (rs_ring y)) AND mask (rs_ring y))) \<Longrightarrow>
     ring_step y (y\<lparr>rs_producer := P_storing samples write taken 0\<rparr>)"
| push_store:
    "rs_producer y = P_storing samples write taken i \<Longrightarrow> i < taken \<Longrightarrow>
     ring_step y (y\<lparr>rs_ring := store_cell (rs_ring y) write i (samples ! i),
                   rs_producer := P_storing samples write taken (i + 1)\<rparr>)"
| push_publish:
    "rs_producer y = P_storing samples write taken taken \<Longrightarrow>
     ring_step y (y\<lparr>rs_ring := (rs_ring y)\<lparr>write_ix := (write + word_of_nat taken) AND mask (rs_ring y)\<rparr>,
                   rs_producer := P_idle,
                   rs_accepted := rs_accepted y @ take taken samples\<rparr>)"
| pop_load_read:
    "rs_consumer y = C_idle \<Longrightarrow>
     ring_step y (y\<lparr>rs_consumer := C_popping n (read_ix (rs_ring y))\<rparr>)"
| pop_load_write:
    "rs_consumer y = C_popping n read \<Longrightarrow>
     taken = min n (unat ((write_ix (rs_ring y) - read) AND mask (rs_ring y))) \<Longrightarrow>
     ring_step y (y\<lparr>rs_consumer := C_loading read taken []\<rparr>)"
| pop_load:
    "rs_consumer y = C_loading read taken got \<Longrightarrow> length got < taken \<Longrightarrow>
     ring_step y (y\<lparr>rs_consumer :=
                     C_loading read taken (got @ [load_cell (rs_ring y) read (length got)])\<rparr>)"
| pop_publish:
    "rs_consumer y = C_loading read taken got \<Longrightarrow> length got = taken \<Longrightarrow>
     ring_step y (y\<lparr>rs_ring := (rs_ring y)\<lparr>read_ix := (read + word_of_nat taken) AND mask (rs_ring y)\<rparr>,
                   rs_consumer := C_idle,
                   rs_past := rs_past y + taken,
                   rs_returned := rs_returned y @ [(rs_past y, got)]\<rparr>)"
| clear_load_write:
    "rs_consumer y = C_idle \<Longrightarrow>
     ring_step y (y\<lparr>rs_consumer := C_clearing (write_ix (rs_ring y))\<rparr>)"
| clear_publish:
    "rs_consumer y = C_clearing write \<Longrightarrow>
     ring_step y (y\<lparr>rs_ring := (rs_ring y)\<lparr>read_ix := write\<rparr>,
                   rs_consumer := C_idle,
                   rs_cleared := rs_cleared y
                     + unat ((write - read_ix (rs_ring y)) AND mask (rs_ring y)),
                   rs_past := rs_past y
                     + unat ((write - read_ix (rs_ring y)) AND mask (rs_ring y))\<rparr>)"

definition ring_start :: "nat \<Rightarrow> ring_system" where
  "ring_start wanted = \<lparr>rs_ring = ring_new wanted, rs_producer = P_idle, rs_consumer = C_idle,
     rs_accepted = [], rs_past = 0, rs_cleared = 0, rs_returned = []\<rparr>"

section \<open>The invariant\<close>

fun producer_ok :: "ring \<Rightarrow> producer \<Rightarrow> bool" where
  "producer_ok r P_idle = True"
| "producer_ok r (P_pushing samples w) \<longleftrightarrow> w = write_ix r"
| "producer_ok r (P_storing samples w taken i) \<longleftrightarrow>
     w = write_ix r \<and> taken \<le> length samples \<and> i \<le> taken \<and> ring_len r + taken \<le> ring_capacity r
     \<and> (\<forall>j < i. load_cell r w j = samples ! j)"

fun consumer_ok :: "ring \<Rightarrow> consumer \<Rightarrow> bool" where
  "consumer_ok r C_idle = True"
| "consumer_ok r (C_popping n rd) \<longleftrightarrow> rd = read_ix r"
| "consumer_ok r (C_loading rd taken got) \<longleftrightarrow>
     rd = read_ix r \<and> taken \<le> ring_len r \<and> length got \<le> taken \<and> got = take (length got) (contents r)"
| "consumer_ok r (C_clearing w) \<longleftrightarrow>
     unat ((w - read_ix r) AND mask r) \<le> ring_len r
     \<and> w = (read_ix r + word_of_nat (unat ((w - read_ix r) AND mask r))) AND mask r"

text \<open>Each returned piece is where it says in the accepted stream, and the pieces are in order.\<close>

fun pieces_ok :: "sample list \<Rightarrow> nat \<Rightarrow> (nat \<times> sample list) list \<Rightarrow> bool" where
  "pieces_ok accepted past [] = True"
| "pieces_ok accepted past ((p, got) # rest) \<longleftrightarrow>
     past \<le> p \<and> p + length got \<le> length accepted \<and> got = take (length got) (drop p accepted)
     \<and> pieces_ok accepted (p + length got) rest"

definition pieces_end :: "(nat \<times> sample list) list \<Rightarrow> nat" where
  "pieces_end ps = (if ps = [] then 0 else fst (last ps) + length (snd (last ps)))"

definition ring_system_inv :: "ring_system \<Rightarrow> bool" where
  "ring_system_inv y \<longleftrightarrow>
     ring_inv (rs_ring y)
   \<and> producer_ok (rs_ring y) (rs_producer y) \<and> consumer_ok (rs_ring y) (rs_consumer y)
   \<and> rs_past y \<le> length (rs_accepted y) \<and> contents (rs_ring y) = drop (rs_past y) (rs_accepted y)
   \<and> pieces_ok (rs_accepted y) 0 (rs_returned y) \<and> pieces_end (rs_returned y) \<le> rs_past y
   \<and> rs_past y = sum_list (map (length \<circ> snd) (rs_returned y)) + rs_cleared y"

lemma pieces_ok_append: "pieces_ok acc p ps \<Longrightarrow> pieces_ok (acc @ xs) p ps"
  by (induction acc p ps rule: pieces_ok.induct) auto

lemma pieces_end_ge: "pieces_ok acc p ps \<Longrightarrow> ps \<noteq> [] \<Longrightarrow> p \<le> pieces_end ps"
  by (induction acc p ps rule: pieces_ok.induct) (force simp: pieces_end_def)+

lemma pieces_ok_snoc:
  assumes "pieces_ok acc p ps" "p \<le> q" "pieces_end ps \<le> q" "q + length got \<le> length acc"
    "got = take (length got) (drop q acc)"
  shows "pieces_ok acc p (ps @ [(q, got)])"
  using assms
proof (induction acc p ps rule: pieces_ok.induct)
  case (2 acc p r piece rest)
  have "r + length piece \<le> q \<and> pieces_end rest \<le> q"
    using "2.prems" pieces_end_ge [of acc "r + length piece" rest]
    by (cases "rest = []") (auto simp: pieces_end_def)
  with 2 show ?case by simp
qed simp

lemma pieces_end_snoc [simp]: "pieces_end (ps @ [(q, got)]) = q + length got"
  by (simp add: pieces_end_def)

section \<open>Each thread leaves the other's view intact\<close>

text \<open>What the producer changes under the consumer: the queue may only grow at the end.\<close>

lemma consumer_ok_grow:
  assumes "consumer_ok r c" "read_ix r' = read_ix r" "mask r' = mask r"
    and "contents r' = contents r @ xs"
  shows "consumer_ok r' c"
proof -
  have len: "ring_len r' = ring_len r + length xs"
    using assms(4) by (metis contents_length length_append)
  show ?thesis
  proof (cases c)
    case (C_loading rd taken got)
    with assms(1) have "length got \<le> length (contents r)" by simp
    with C_loading assms len show ?thesis by auto
  qed (use assms len in auto)
qed

text \<open>What the consumer changes under the producer: there may only be more room.\<close>

lemma producer_ok_shrink:
  assumes "producer_ok r p" "write_ix r' = write_ix r" "load_cell r' = load_cell r"
    "ring_len r' \<le> ring_len r" "ring_capacity r' = ring_capacity r"
  shows "producer_ok r' p"
  using assms by (cases p) auto

lemma producer_step_inv:
  assumes ok: "ring_ok k r" and p: "producer_ok r (P_storing samples w taken i)"
  shows "i < taken \<Longrightarrow> ring_ok k (store_cell r w i (samples ! i))
      \<and> contents (store_cell r w i (samples ! i)) = contents r
      \<and> producer_ok (store_cell r w i (samples ! i)) (P_storing samples w taken (i + 1))"
    and "i = taken \<Longrightarrow> ring_ok k (r\<lparr>write_ix := (w + word_of_nat taken) AND mask r\<rparr>)
      \<and> contents (r\<lparr>write_ix := (w + word_of_nat taken) AND mask r\<rparr>) = contents r @ take taken samples"
proof -
  from p have w: "w = write_ix r" and taken: "taken \<le> length samples" "ring_len r + taken < 2 ^ k"
    and stored: "\<forall>j < i. load_cell r w j = samples ! j"
    using ring_capacity_ok [OF ok] zero_less_power [of "2::nat" k]
    by (auto simp add: le_diff_conv2 Suc_le_eq)
  show "ring_ok k (store_cell r w i (samples ! i))
      \<and> contents (store_cell r w i (samples ! i)) = contents r
      \<and> producer_ok (store_cell r w i (samples ! i)) (P_storing samples w taken (i + 1))"
    if "i < taken"
  proof -
    have "load_cell (store_cell r w i (samples ! i)) w j = samples ! j" if "j < i + 1" for j
      using that stored \<open>i < taken\<close> taken(2) slot_inj [OF ok, of j i w]
      by (auto simp: load_store_cell [OF ok] less_Suc_eq)
    then show ?thesis
      using ok p that taken contents_store_cell [OF ok, of i "samples ! i"]
      by (auto simp: w ring_capacity_def)
  qed
  show "ring_ok k (r\<lparr>write_ix := (w + word_of_nat taken) AND mask r\<rparr>)
      \<and> contents (r\<lparr>write_ix := (w + word_of_nat taken) AND mask r\<rparr>) = contents r @ take taken samples"
    if "i = taken"
  proof -
    have "map (load_cell r (write_ix r)) [0..<taken] = take taken samples"
      using stored taken(1) that w by (intro nth_equalityI) auto
    with advance_write [OF ok taken(2)] show ?thesis by (simp add: w)
  qed
qed

lemma clear_position:
  assumes "ring_ok k r"
  shows "write_ix r = (read_ix r + word_of_nat (ring_len r)) AND mask r"
  using slot_mod [OF assms, of "read_ix r" "ring_len r"] ring_len_mod(2) [OF assms]
  by (auto simp: slot_def word_unat_eq_iff)

lemma read_publish:
  assumes ok: "ring_ok k r" and n: "n \<le> ring_len r"
    and r': "r' = r\<lparr>read_ix := (read_ix r + word_of_nat n) AND mask r\<rparr>"
  shows "ring_inv r'" "contents r' = drop n (contents r)" "producer_ok r p \<Longrightarrow> producer_ok r' p"
proof -
  note adv = advance_read [OF ok n, folded r']
  show "ring_inv r'" "contents r' = drop n (contents r)"
    using adv by (auto simp: ring_inv_def)
  show "producer_ok r' p" if "producer_ok r p"
    by (rule producer_ok_shrink [OF that])
      (use adv(2) in \<open>auto simp: r' load_cell_def slot_def fun_eq_iff ring_capacity_def\<close>)
qed

lemma ring_step_inv:
  assumes "ring_step y z" and "ring_system_inv y"
  shows "ring_system_inv z"
  using assms
proof (induction rule: ring_step.induct)
  case (push_load_write y samples)
  then show ?case by (simp add: ring_system_inv_def)
next
  case (push_load_read y samples "write" taken)
  then have "write = write_ix (rs_ring y)" by (simp add: ring_system_inv_def)
  moreover obtain k where "ring_ok k (rs_ring y)"
    using push_load_read.prems by (auto simp: ring_system_inv_def ring_inv_def)
  then have "ring_len (rs_ring y) \<le> ring_capacity (rs_ring y)"
    using ring_len_mod(1) ring_capacity_ok by fastforce
  ultimately show ?case
    using push_load_read by (auto simp: ring_system_inv_def ring_len_def)
next
  case (push_store y samples "write" taken i)
  then obtain k where ok: "ring_ok k (rs_ring y)" by (auto simp: ring_system_inv_def ring_inv_def)
  have p: "producer_ok (rs_ring y) (P_storing samples write taken i)"
    using push_store.prems unfolding ring_system_inv_def push_store.hyps(1) by blast
  note step = producer_step_inv(1) [OF ok p push_store.hyps(2)]
  have "consumer_ok (store_cell (rs_ring y) write i (samples ! i)) (rs_consumer y)"
    by (rule consumer_ok_grow [where r = "rs_ring y" and xs = "[]"])
      (use push_store.prems step in \<open>auto simp: ring_system_inv_def\<close>)
  with step push_store.prems show ?case by (auto simp: ring_system_inv_def ring_inv_def)
next
  case (push_publish y samples "write" taken)
  then obtain k where ok: "ring_ok k (rs_ring y)" by (auto simp: ring_system_inv_def ring_inv_def)
  let ?r = "(rs_ring y)\<lparr>write_ix := (write + word_of_nat taken) AND mask (rs_ring y)\<rparr>"
  have p: "producer_ok (rs_ring y) (P_storing samples write taken taken)"
    using push_publish.prems unfolding ring_system_inv_def push_publish.hyps(1) by blast
  note step = producer_step_inv(2) [OF ok p refl]
  have "consumer_ok ?r (rs_consumer y)"
    by (rule consumer_ok_grow [where r = "rs_ring y" and xs = "take taken samples"])
      (use push_publish.prems step in \<open>auto simp: ring_system_inv_def\<close>)
  with step push_publish.prems pieces_ok_append show ?case
    by (auto simp: ring_system_inv_def ring_inv_def)
next
  case (pop_load_read y n)
  then show ?case by (simp add: ring_system_inv_def)
next
  case (pop_load_write y n "read" taken)
  then show ?case by (auto simp: ring_system_inv_def ring_len_def)
next
  case (pop_load y "read" taken got)
  then have c: "read = read_ix (rs_ring y)" "taken \<le> ring_len (rs_ring y)"
    "got = take (length got) (contents (rs_ring y))" by (auto simp: ring_system_inv_def)
  with pop_load.hyps(2) have "take (Suc (length got)) (contents (rs_ring y))
      = got @ [load_cell (rs_ring y) read (length got)]"
    by (simp add: take_Suc_conv_app_nth) (simp add: contents_def)
  with pop_load show ?case by (auto simp: ring_system_inv_def)
next
  case (pop_publish y "read" taken got)
  then obtain k where ok: "ring_ok k (rs_ring y)" by (auto simp: ring_system_inv_def ring_inv_def)
  from pop_publish have c: "read = read_ix (rs_ring y)" "taken \<le> ring_len (rs_ring y)"
    "got = take taken (contents (rs_ring y))" "length got = taken" by (auto simp: ring_system_inv_def)
  have past: "rs_past y + taken \<le> length (rs_accepted y)"
    using c(2) pop_publish.prems by (simp add: ring_system_inv_def) (metis contents_length length_drop le_diff_conv2 add.commute)
  from c pop_publish.prems have "got = take taken (drop (rs_past y) (rs_accepted y))"
    by (simp add: ring_system_inv_def)
  with past c(4) pop_publish.prems have "pieces_ok (rs_accepted y) 0 (rs_returned y @ [(rs_past y, got)])"
    by (intro pieces_ok_snoc) (auto simp: ring_system_inv_def)
  with read_publish [OF ok c(2) refl] past c pop_publish.prems show ?case
    by (auto simp: ring_system_inv_def add.commute)
next
  case (clear_load_write y)
  then obtain k where ok: "ring_ok k (rs_ring y)" by (auto simp: ring_system_inv_def ring_inv_def)
  have "consumer_ok (rs_ring y) (C_clearing (write_ix (rs_ring y)))"
    using clear_position [OF ok] by (simp add: ring_len_def)
  with clear_load_write show ?case by (simp add: ring_system_inv_def)
next
  case (clear_publish y "write")
  then obtain k where ok: "ring_ok k (rs_ring y)" by (auto simp: ring_system_inv_def ring_inv_def)
  let ?n = "unat ((write - read_ix (rs_ring y)) AND mask (rs_ring y))"
  from clear_publish have c: "?n \<le> ring_len (rs_ring y)"
    "write = (read_ix (rs_ring y) + word_of_nat ?n) AND mask (rs_ring y)"
    by (auto simp: ring_system_inv_def)
  have "rs_past y + ?n \<le> length (rs_accepted y)"
    using c(1) clear_publish.prems by (simp add: ring_system_inv_def) (metis contents_length length_drop le_diff_conv2 add.commute)
  moreover have "(rs_ring y)\<lparr>read_ix := write\<rparr>
      = (rs_ring y)\<lparr>read_ix := (read_ix (rs_ring y) + word_of_nat ?n) AND mask (rs_ring y)\<rparr>"
    using c(2) by simp
  note read_publish [OF ok c(1) this]
  ultimately show ?case
    using clear_publish.prems by (auto simp: ring_system_inv_def add.commute)
qed

interpretation ring_threads: invariant_system ring_system_inv ring_step
  by unfold_locales (rule ring_step_inv)

lemma ring_start_inv: "wanted \<le> 2 ^ 62 \<Longrightarrow> ring_system_inv (ring_start wanted)"
  using ring_new_spec [of wanted] by (simp add: ring_system_inv_def ring_start_def pieces_end_def)

section \<open>Properties\<close>

text \<open>
  Claim C13. However the two threads interleave, the audio comes out as it went in: every call
  to \<open>pop\<close> returns a contiguous run of the samples \<open>push\<close> accepted, each run starts at or
  after the end of the one before, so that no sample is returned twice, out of order, torn or
  before it was written; what waits is exactly the accepted samples nobody took or cleared, never more than
  the capacity; and every accepted sample is returned, cleared or waiting.
\<close>

theorem ring_delivers_in_order:
  assumes "wanted \<le> 2 ^ 62" and "ring_step\<^sup>*\<^sup>* (ring_start wanted) y"
  shows "pieces_ok (rs_accepted y) 0 (rs_returned y)
    \<and> contents (rs_ring y) = drop (rs_past y) (rs_accepted y)
    \<and> length (contents (rs_ring y)) \<le> ring_capacity (rs_ring y)
    \<and> length (rs_accepted y) =
        sum_list (map (length \<circ> snd) (rs_returned y)) + rs_cleared y + length (contents (rs_ring y))"
proof -
  have inv: "ring_system_inv y"
    by (rule ring_threads.run_keeps [OF assms(2) ring_start_inv [OF assms(1)]])
  then obtain k where ok: "ring_ok k (rs_ring y)" by (auto simp: ring_system_inv_def ring_inv_def)
  have "length (contents (rs_ring y)) \<le> ring_capacity (rs_ring y)"
    using ring_len_mod(1) [OF ok] by (simp add: ring_capacity_ok [OF ok] less_eq_Suc_le [symmetric])
  moreover have "length (rs_accepted y) = rs_past y + length (contents (rs_ring y))"
    using inv unfolding ring_system_inv_def by (metis le_add_diff_inverse length_drop)
  ultimately show ?thesis using inv by (simp add: ring_system_inv_def)
qed

definition one_pushed :: ring_system where
  "one_pushed = (ring_start 2)\<lparr>
     rs_ring := (store_cell (ring_new 2) 0 0 7)\<lparr>write_ix := 1\<rparr>, rs_accepted := [7]\<rparr>"

lemma one_pushed_reached: "ring_step\<^sup>*\<^sup>* (ring_start 2) one_pushed"
proof -
  let ?y = "ring_start 2"
  let ?r = "store_cell (ring_new 2) 0 0 7"
  have new: "ring_new 2 = \<lparr>cells = [0, 0], read_ix = 0, write_ix = 0, mask = 1\<rparr>"
    by (simp add: ring_new_def next_power_of_two_def next_power_from.simps numeral_eq_Suc)
  have "ring_step ?y (?y\<lparr>rs_producer := P_pushing [7] 0\<rparr>)" (is "ring_step _ ?a")
    using push_load_write [of ?y "[7]"] by (simp add: ring_start_def new)
  moreover have "ring_step ?a (?y\<lparr>rs_producer := P_storing [7] 0 1 0\<rparr>)" (is "ring_step _ ?b")
    using push_load_read [of ?a "[7]" 0 1] by (simp add: ring_start_def new ring_capacity_def)
  moreover have "ring_step ?b (?y\<lparr>rs_ring := ?r, rs_producer := P_storing [7] 0 1 1\<rparr>)" (is "ring_step _ ?c")
    using push_store [of ?b "[7]" 0 1 0] by (simp add: ring_start_def)
  moreover have "ring_step ?c one_pushed"
    using push_publish [of ?c "[7]" 0 1]
    by (simp add: ring_start_def one_pushed_def) (simp add: store_cell_def new)
  ultimately show ?thesis
    by (blast intro: converse_rtranclp_into_rtranclp)
qed

theorem ring_delivers_in_order_witness:
  "contents (rs_ring one_pushed) = [7] \<and> length (rs_accepted one_pushed) = 1"
proof -
  have "(2::nat) \<le> 2 ^ 62" by simp
  from ring_delivers_in_order [OF this one_pushed_reached]
  show ?thesis by (simp add: one_pushed_def ring_start_def)
qed

text \<open>
  On any ring, \<open>push\<close> appends to what waits as many samples as there is room for,
  reports that number, and drops the rest, the newest; nothing that waited changes and the
  capacity stays. \<open>pop\<close> into a buffer of any length then writes the oldest samples to its
  front, leaves the rest of the buffer alone, and keeps what did not fit.
\<close>

theorem push_then_pop:
  assumes "ring_inv r" and "push r samples = (taken, r')" and "pop r' out = ((got, out'), r'')"
  shows "taken = min (length samples) (ring_capacity r - length (contents r))
    \<and> contents r' = contents r @ take taken samples
    \<and> got = min (length out) (length (contents r'))
    \<and> out' = take got (contents r') @ drop got out
    \<and> contents r'' = drop got (contents r')
    \<and> ring_inv r'' \<and> ring_capacity r'' = ring_capacity r"
  using ring_fifo.put_law [OF assms(1,2)] ring_fifo.get_law [OF _ assms(3)] by auto

theorem push_then_pop_witness:
  "\<exists>r' r''. push (ring_new 2) [5, 6] = (1, r') \<and> pop r' [8, 9] = ((1, [5, 9]), r'')
     \<and> contents r'' = []"
proof -
  have new: "ring_inv (ring_new 2)" "contents (ring_new 2) = []"
    by (rule ring_new_spec; simp)+
  have cap: "ring_capacity (ring_new 2) = 1"
    by (simp add: ring_capacity_def ring_new_def next_power_of_two_def next_power_from.simps)
  obtain n r' where push: "push (ring_new 2) [5, 6] = (n, r')" by fastforce
  obtain m out' r'' where pop: "pop r' [8, 9] = ((m, out'), r'')" by (metis prod.collapse)
  note both = push_then_pop [OF new(1) push pop]
  then have n: "n = 1" and r': "contents r' = [5]"
    unfolding new(2) cap by auto
  from both have m: "m = 1" unfolding r' by simp
  from both have "out' = [5, 9]" "contents r'' = []" unfolding r' m by simp_all
  with n m push pop show ?thesis by auto
qed

end
