(* ===== verification/Recv.thy ===== *)
theory Recv
  imports Media
begin

text \<open>
  The watching side of a screen share, \<open>crates/boa-client/src/screen/recv.rs\<close>: the
  reassembler that puts fragments back into pictures, the tap the network thread feeds, the
  bounded queue between it and the decoder, and the decoder's loop with its wait for a
  keyframe. The H.264 decoder (crate \<open>openh264\<close>) is a parameter.
\<close>

definition IN_FLIGHT :: nat where [simp]: "IN_FLIGHT = 2"
definition QUEUE :: nat where [simp]: "QUEUE = 4"

section \<open>The reassembler\<close>

record partial =
  pt_pieces :: "byte list option list"
  pt_have :: nat

record reassembler =
  building :: "(u32, partial) hmap"
  newest :: "u32 option"

definition empty_reassembler :: reassembler where
  "empty_reassembler = \<lparr>building = [], newest = None\<rparr>"

definition is_newer :: "u32 \<Rightarrow> u32 \<Rightarrow> bool" where
  "is_newer timestamp newest_seen \<longleftrightarrow> timestamp - newest_seen < 0xFFFFFFFF div 2"

text \<open>The loop over the stale timestamps, with the counter it moves.\<close>

fun abandon :: "u32 list \<Rightarrow> (u32, partial) hmap \<times> u64 \<Rightarrow> (u32, partial) hmap \<times> u64" where
  "abandon [] bd = bd"
| "abandon (stale # rest) (b, dropped) = abandon rest (hremove stale b, dropped + 1)"

definition note_newest :: "reassembler \<Rightarrow> u64 \<Rightarrow> u32 \<Rightarrow> reassembler \<times> u64" where
  "note_newest r dropped timestamp =
     (let newer = (case newest r of None \<Rightarrow> True | Some n \<Rightarrow> is_newer timestamp n);
          r = (if newer then r\<lparr>newest := Some timestamp\<rparr> else r)
      in case newest r of
           None \<Rightarrow> (r, dropped)
         | Some n \<Rightarrow>
             if length (building r) > IN_FLIGHT
             then let timestamps = sort_key (\<lambda>t. n - t) (map fst (building r));
                      (b, dropped) = abandon (drop IN_FLIGHT timestamps) (building r, dropped)
                  in (r\<lparr>building := b\<rparr>, dropped)
             else (r, dropped))"

text \<open>\<open>pieces.into_iter().flatten()\<close>, appended in order.\<close>

fun flatten :: "'a option list \<Rightarrow> 'a list" where
  "flatten [] = []"
| "flatten (None # xs) = flatten xs"
| "flatten (Some x # xs) = x # flatten xs"

definition assemble :: "byte list option list \<Rightarrow> byte list" where
  "assemble pieces = concat (flatten pieces)"

definition fresh_partial :: "u16 \<Rightarrow> partial" where
  "fresh_partial cnt = \<lparr>pt_pieces = replicate (unat cnt) None, pt_have = 0\<rparr>"

definition add_piece :: "partial \<Rightarrow> nat \<Rightarrow> byte list \<Rightarrow> partial" where
  "add_piece p i data =
     (if pt_pieces p ! i = None
      then p\<lparr>pt_pieces := (pt_pieces p)[i := Some data], pt_have := pt_have p + 1\<rparr>
      else p)"

text \<open>The result, the reassembler and the counter of dropped pictures afterwards.\<close>

definition feed ::
  "reassembler \<Rightarrow> u64 \<Rightarrow> packet_header \<Rightarrow> byte list \<Rightarrow> byte list option \<times> reassembler \<times> u64" where
  "feed r dropped h payload =
     (case read_fragment payload of
        None \<Rightarrow> (None, r, dropped)
      | Some (index, cnt, data) \<Rightarrow>
          if cnt = 1 then (Some data, note_newest r dropped (ph_timestamp h))
          else
            let ts = ph_timestamp h;
                partial = (case hget (building r) ts of None \<Rightarrow> fresh_partial cnt | Some p \<Rightarrow> p)
            in if length (pt_pieces partial) \<noteq> unat cnt
               then (None, r\<lparr>building := hremove ts (building r)\<rparr>, dropped + 1)
               else
                 let partial = add_piece partial (unat index) data;
                     complete = (pt_have partial = length (pt_pieces partial));
                     (r, dropped) = note_newest (r\<lparr>building := hinsert ts partial (building r)\<rparr>) dropped ts
                 in if \<not> complete then (None, r, dropped)
                    else case hget (building r) ts of
                           None \<Rightarrow> (None, r, dropped)
                         | Some p \<Rightarrow>
                             (Some (assemble (pt_pieces p)), r\<lparr>building := hremove ts (building r)\<rparr>, dropped))"

definition in_flight :: "reassembler \<Rightarrow> nat" where
  "in_flight r = length (building r)"

text \<open>A run of feeds: what each one returned, and where it ended.\<close>

type_synonym packet = "packet_header \<times> byte list"

fun feed_all ::
  "reassembler \<Rightarrow> u64 \<Rightarrow> packet list \<Rightarrow> byte list option list \<times> reassembler \<times> u64" where
  "feed_all r dropped [] = ([], r, dropped)"
| "feed_all r dropped ((h, payload) # rest) =
     (let (picture, r, dropped) = feed r dropped h payload;
          (pictures, r, dropped) = feed_all r dropped rest
      in (picture # pictures, r, dropped))"

section \<open>The tap\<close>

record loss =
  ls_incomplete :: u64
  ls_no_room :: u64
  ls_fragments :: u64
  ls_keyframes_lost :: u64

type_synonym picture = "bool \<times> byte list"

text \<open>
  \<open>Tap\<close> with the channel it sends on: what waits in the channel, its depth, and whether the
  receiving end still exists.
\<close>

record tap =
  tp_queue :: "picture list"
  tp_depth :: nat
  tp_connected :: bool
  tp_assembler :: reassembler
  tp_ssrc :: u32
  tp_dropped :: u64
  tp_why :: loss

definition tap_pair :: "u32 \<Rightarrow> nat \<Rightarrow> tap" where
  "tap_pair stream depth =
     \<lparr>tp_queue = [], tp_depth = depth, tp_connected = True, tp_assembler = empty_reassembler,
      tp_ssrc = stream, tp_dropped = 0,
      tp_why = \<lparr>ls_incomplete = 0, ls_no_room = 0, ls_fragments = 0, ls_keyframes_lost = 0\<rparr>\<rparr>"

definition try_send :: "tap \<Rightarrow> picture \<Rightarrow> bool \<times> tap" where
  "try_send t p =
     (if tp_connected t \<and> length (tp_queue t) < tp_depth t
      then (True, t\<lparr>tp_queue := tp_queue t @ [p]\<rparr>)
      else (False, t))"

definition tap_feed :: "tap \<Rightarrow> packet_header \<Rightarrow> byte list \<Rightarrow> tap" where
  "tap_feed t h payload =
     (if ph_ssrc h \<noteq> tp_ssrc t \<or> \<not> is_video (ph_kind h) then t
      else
        let t = t\<lparr>tp_why := (tp_why t)\<lparr>ls_fragments := ls_fragments (tp_why t) + 1\<rparr>\<rparr>;
            keyframe = (ph_kind h = VideoKey);
            before = tp_dropped t;
            (picture, r, dropped) = feed (tp_assembler t) (tp_dropped t) h payload;
            t = t\<lparr>tp_assembler := r, tp_dropped := dropped\<rparr>;
            abandoned = dropped - before;
            why = tp_why t;
            why = (if abandoned > 0
                   then why\<lparr>ls_incomplete := ls_incomplete why + abandoned,
                            ls_keyframes_lost := (if keyframe then ls_keyframes_lost why + abandoned
                                                  else ls_keyframes_lost why)\<rparr>
                   else why);
            t = t\<lparr>tp_why := why\<rparr>
        in case picture of
             None \<Rightarrow> t
           | Some picture \<Rightarrow>
               let (sent, t) = try_send t (keyframe, picture)
               in if sent then t
                  else t\<lparr>tp_dropped := tp_dropped t + 1,
                         tp_why := why\<lparr>ls_no_room := ls_no_room why + 1,
                                       ls_keyframes_lost := (if keyframe then ls_keyframes_lost why + 1
                                                             else ls_keyframes_lost why)\<rparr>\<rparr>)"

section \<open>The decoder's loop\<close>

record frame =
  fr_width :: nat
  fr_height :: nat
  fr_rgba :: "byte list"
  fr_generation :: u64

text \<open>
  What the decoder answers for one picture: an image (its dimensions and pixels), nothing yet,
  or an error.
\<close>

datatype decoded = Image nat nat "byte list" | Nothing_yet | Refused

text \<open>The loop's variables, and the counters and cells it shares with the watcher.\<close>

record 'd decoding =
  dc_decoder :: 'd
  dc_generation :: u64
  dc_latest :: "frame option"
  dc_frames :: u64
  dc_failed :: u64
  dc_started :: bool

definition decode_picture ::
  "('d \<Rightarrow> byte list \<Rightarrow> decoded \<times> 'd) \<Rightarrow> 'd decoding \<Rightarrow> picture \<Rightarrow> 'd decoding" where
  "decode_picture dec s p =
     (case p of (keyframe, picture) \<Rightarrow>
        if \<not> dc_started s \<and> \<not> keyframe then s
        else
          let s = s\<lparr>dc_started := True\<rparr>;
              (answer, d) = dec (dc_decoder s) picture;
              s = s\<lparr>dc_decoder := d\<rparr>
          in case answer of
               Image width height rgba \<Rightarrow>
                 let generation = dc_generation s + 1
                 in s\<lparr>dc_generation := generation, dc_frames := dc_frames s + 1,
                      dc_latest := Some \<lparr>fr_width = width, fr_height = height, fr_rgba = rgba,
                                          fr_generation = generation\<rparr>\<rparr>
             | Nothing_yet \<Rightarrow> s
             | Refused \<Rightarrow> s\<lparr>dc_failed := dc_failed s + 1, dc_started := False\<rparr>)"

text \<open>The loop over the pictures received until the channel closes or \<open>stop\<close> is set.\<close>

definition decode_loop ::
  "('d \<Rightarrow> byte list \<Rightarrow> decoded \<times> 'd) \<Rightarrow> 'd decoding \<Rightarrow> picture list \<Rightarrow> 'd decoding" where
  "decode_loop dec s pictures = foldl (decode_picture dec) s pictures"

text \<open>\<open>take_frame\<close>: the frame, if newer than \<open>seen\<close>, and what is left in the cell.\<close>

definition take_frame :: "frame option \<Rightarrow> u64 \<Rightarrow> frame option \<times> frame option" where
  "take_frame latest seen =
     (case latest of
        Some f \<Rightarrow> if fr_generation f > seen then (Some f, None) else (None, latest)
      | None \<Rightarrow> (None, latest))"

end
