(* ===== verification/RecvInv.thy ===== *)
theory RecvInv
  imports Recv
begin

text \<open>
  The reassembler's lemmas: what giving up on stale pictures removes, the invariant that every
  piece held came from a fragment with its picture's timestamp, and the bookkeeping of
  pictures started, completed and dropped.
\<close>

section \<open>Giving up on stale pictures\<close>

lemma abandon_hget:
  "hget (fst (abandon ts (b, d))) t = (if t \<in> set ts then None else hget b t)"
  by (induction ts arbitrary: b d) (auto simp: hmap_simps)

lemma abandon_ok: "hmap_ok b \<Longrightarrow> hmap_ok (fst (abandon ts (b, d)))"
  by (induction ts arbitrary: b d) auto

lemma abandon_dropped: "snd (abandon ts (b, d)) = d + word_of_nat (length ts)"
  by (induction ts arbitrary: b d) (auto simp: algebra_simps)

lemma abandon_length:
  assumes "hmap_ok b" "distinct ts" "set ts \<subseteq> fst ` set b"
  shows "length (fst (abandon ts (b, d))) + length ts = length b"
  using assms
proof (induction ts arbitrary: b d)
  case (Cons t ts)
  have "set ts \<subseteq> fst ` set (hremove t b)"
    using Cons.prems unfolding hremove_keys by auto
  with Cons.IH [of "hremove t b" "d + 1"] Cons.prems length_hremove [of b t] show ?case by auto
qed simp

definition ranked :: "u32 \<Rightarrow> (u32, partial) hmap \<Rightarrow> u32 list" where
  "ranked n b = sort_key (\<lambda>t. n - t) (map fst b)"

lemma ranked_set [simp]: "set (ranked n b) = fst ` set b"
  by (simp add: ranked_def)

lemma ranked_distinct: "hmap_ok b \<Longrightarrow> distinct (ranked n b)"
  by (simp add: ranked_def hmap_ok_def)

lemma length_ranked [simp]: "length (ranked n b) = length b"
  by (simp add: ranked_def)

text \<open>A timestamp with at most one other nearer to the newest is not given up.\<close>

lemma ranked_stale:
  assumes ok: "hmap_ok b" and stale: "t \<in> set (drop 2 (ranked n b))"
  shows "\<exists>u v. u \<noteq> v \<and> u \<in> fst ` set b \<and> v \<in> fst ` set b \<and> n - u < n - t \<and> n - v < n - t"
proof -
  let ?l = "ranked n b"
  from stale obtain i where i: "i + 2 < length ?l" "t = ?l ! (i + 2)"
    by (auto simp: in_set_conv_nth add.commute less_diff_conv)
  have key: "(\<lambda>t. n - t) (?l ! j) \<le> (\<lambda>t. n - t) (?l ! (i + 2))" if "j < 2" for j
    using sorted_sort_key [of "\<lambda>t. n - t" "map fst b"] i(1) that
    unfolding ranked_def [symmetric] by (auto simp: sorted_iff_nth_mono)
  have ne: "?l ! j \<noteq> ?l ! k" if "j < k" "k < length ?l" for j k
    using ranked_distinct [OF ok] that by (auto simp: distinct_conv_nth)
  have lt: "n - ?l ! j < n - t" if "j < 2" for j
    using key [OF that] ne [of j "i + 2"] that i by (auto simp: order_le_less)
  have mem: "?l ! j \<in> fst ` set b" if "j < 2" for j
    using that i nth_mem [of j ?l] by simp
  show ?thesis
    using lt [of 0] lt [of 1] mem [of 0] mem [of 1] ne [of 0 1] i
    by (intro exI [of _ "?l ! 0"] exI [of _ "?l ! 1"] conjI) auto
qed

lemma note_newest_newest:
  "newest (fst (note_newest r d ts)) =
     Some (case newest r of None \<Rightarrow> ts | Some n \<Rightarrow> if is_newer ts n then ts else n)"
  by (auto simp: note_newest_def Let_def case_prod_unfold split: option.splits)

lemma note_newest_building:
  assumes "newest (fst (note_newest r d ts)) = Some n"
  shows "building (fst (note_newest r d ts)) =
      (if length (building r) > 2
       then fst (abandon (drop 2 (ranked n (building r))) (building r, d)) else building r)"
    and "snd (note_newest r d ts) =
      (if length (building r) > 2 then d + word_of_nat (length (building r) - 2) else d)"
  using assms
  by (auto simp: note_newest_def Let_def case_prod_unfold ranked_def abandon_dropped
      split: option.splits if_splits)

lemma note_newest_counts:
  assumes ok: "hmap_ok (building r)"
  shows "hmap_ok (building (fst (note_newest r d ts)))"
    "length (building (fst (note_newest r d ts))) = min 2 (length (building r))"
    "snd (note_newest r d ts) = d + word_of_nat (length (building r) - 2)"
    "hget (building (fst (note_newest r d ts))) t \<in> {None, hget (building r) t}"
proof -
  obtain n where n: "newest (fst (note_newest r d ts)) = Some n"
    using note_newest_newest by blast
  note b = note_newest_building [OF n]
  show "hmap_ok (building (fst (note_newest r d ts)))"
    using ok by (simp add: b abandon_ok)
  have "set (drop 2 (ranked n (building r))) \<subseteq> fst ` set (building r)"
    using set_drop_subset [of 2 "ranked n (building r)"] by simp
  with abandon_length [OF ok, of "drop 2 (ranked n (building r))" d] ranked_distinct [OF ok]
  show "length (building (fst (note_newest r d ts))) = min 2 (length (building r))"
    by (auto simp: b)
  show "snd (note_newest r d ts) = d + word_of_nat (length (building r) - 2)"
    by (simp add: b)
  show "hget (building (fst (note_newest r d ts))) t \<in> {None, hget (building r) t}"
    by (simp add: b abandon_hget)
qed

lemma note_newest_survives:
  assumes ok: "hmap_ok (building r)" and n: "newest (fst (note_newest r d ts)) = Some n"
    and near: "\<And>u v. u \<in> fst ` set (building r) \<Longrightarrow> v \<in> fst ` set (building r) \<Longrightarrow>
      n - u < n - t \<Longrightarrow> n - v < n - t \<Longrightarrow> u = v"
  shows "hget (building (fst (note_newest r d ts))) t = hget (building r) t"
proof -
  have "t \<notin> set (drop 2 (ranked n (building r)))"
    using ranked_stale [OF ok, of t n] near by blast
  then show ?thesis by (simp add: note_newest_building [OF n] abandon_hget)
qed

section \<open>Where the pieces come from\<close>

text \<open>Fragment \<open>i\<close> of \<open>n\<close> of the picture at \<open>ts\<close>, holding \<open>data\<close>, is among the packets.\<close>

definition came :: "packet set \<Rightarrow> u32 \<Rightarrow> nat \<Rightarrow> nat \<Rightarrow> byte list \<Rightarrow> bool" where
  "came hist ts i n data \<longleftrightarrow> (\<exists>h payload index cnt. (h, payload) \<in> hist \<and> ph_timestamp h = ts
     \<and> read_fragment payload = Some (index, cnt, data) \<and> unat index = i \<and> unat cnt = n)"

definition partial_ok :: "packet set \<Rightarrow> u32 \<Rightarrow> partial \<Rightarrow> bool" where
  "partial_ok hist ts p \<longleftrightarrow>
     pt_have p = length (flatten (pt_pieces p))
   \<and> (\<forall>i < length (pt_pieces p). \<forall>data. pt_pieces p ! i = Some data \<longrightarrow>
        came hist ts i (length (pt_pieces p)) data)"

definition assembler_inv :: "packet set \<Rightarrow> reassembler \<Rightarrow> bool" where
  "assembler_inv hist r \<longleftrightarrow> hmap_ok (building r) \<and> length (building r) \<le> 2
     \<and> (\<forall>ts p. hget (building r) ts = Some p \<longrightarrow> partial_ok hist ts p)"

lemma came_mono: "came hist ts i n data \<Longrightarrow> hist \<subseteq> hist' \<Longrightarrow> came hist' ts i n data"
  unfolding came_def by blast

lemma partial_ok_mono: "partial_ok hist ts p \<Longrightarrow> hist \<subseteq> hist' \<Longrightarrow> partial_ok hist' ts p"
  unfolding partial_ok_def using came_mono by blast

lemma flatten_replicate_None [simp]: "flatten (replicate n None) = []"
  by (induction n) simp_all

lemma fresh_partial_ok: "partial_ok hist ts (fresh_partial cnt)"
  by (simp add: partial_ok_def fresh_partial_def)

lemma length_flatten_update:
  "i < length xs \<Longrightarrow> xs ! i = None \<Longrightarrow>
    length (flatten (xs[i := Some x])) = Suc (length (flatten xs))"
proof (induction xs arbitrary: i)
  case (Cons y xs)
  then show ?case by (cases i; cases y) auto
qed simp

lemma add_piece_ok:
  assumes "partial_ok hist ts p" and "came hist ts i (length (pt_pieces p)) data"
    and "i < length (pt_pieces p)"
  shows "partial_ok hist ts (add_piece p i data)" "length (pt_pieces (add_piece p i data)) = length (pt_pieces p)"
  using assms
  by (auto simp: partial_ok_def add_piece_def length_flatten_update nth_list_update)

lemma length_flatten_le: "length (flatten xs) \<le> length xs"
  by (induction xs rule: flatten.induct) auto

lemma flatten_all:
  "length (flatten xs) = length xs \<Longrightarrow> xs = map Some (flatten xs)"
proof (induction xs)
  case (Cons x xs)
  with length_flatten_le [of xs] show ?case
    by (cases x) auto
qed simp

text \<open>A complete picture is its pieces in order, each of which came under its timestamp.\<close>

lemma assemble_complete:
  assumes "partial_ok hist ts p" and "pt_have p = length (pt_pieces p)"
  shows "\<exists>ds. assemble (pt_pieces p) = concat ds \<and> length ds = length (pt_pieces p)
    \<and> (\<forall>i < length ds. came hist ts i (length ds) (ds ! i))"
proof (intro exI conjI allI impI)
  let ?ds = "flatten (pt_pieces p)"
  show "assemble (pt_pieces p) = concat ?ds" by (simp add: assemble_def)
  show len: "length ?ds = length (pt_pieces p)"
    using assms by (simp add: partial_ok_def)
  fix i assume "i < length ?ds"
  moreover from this have "pt_pieces p ! i = Some (?ds ! i)"
    by (subst flatten_all [OF len]) simp
  ultimately show "came hist ts i (length ?ds) (?ds ! i)"
    using assms(1) len by (auto simp: partial_ok_def)
qed

section \<open>One feed\<close>

lemma came_now:
  assumes "read_fragment payload = Some (index, cnt, data)"
  shows "came (insert (h, payload) hist) (ph_timestamp h) (unat index) (unat cnt) data"
  using assms unfolding came_def by blast

text \<open>The four ways a feed can go, with the state it leaves.\<close>

lemma feed_cases:
  assumes "feed r d h payload = (out, r', d')" and inv: "assembler_inv hist r"
  obtains
    (unreadable) "read_fragment payload = None" "out = None" "r' = r" "d' = d"
  | (single) index data where "read_fragment payload = Some (index, 1, data)" "out = Some data"
      "(r', d') = note_newest r d (ph_timestamp h)"
  | (corrupt) index cnt data q where "read_fragment payload = Some (index, cnt, data)" "cnt \<noteq> 1"
      "hget (building r) (ph_timestamp h) = Some q" "out = None"
      "r' = r\<lparr>building := hremove (ph_timestamp h) (building r)\<rparr>" "d' = d + 1"
      "length (pt_pieces q) \<noteq> unat cnt"
  | (piece) index cnt data old p r1 where "read_fragment payload = Some (index, cnt, data)" "cnt \<noteq> 1"
      "old = (case hget (building r) (ph_timestamp h) of None \<Rightarrow> fresh_partial cnt | Some p \<Rightarrow> p)"
      "length (pt_pieces old) = unat cnt" "p = add_piece old (unat index) data"
      "(r1, d') = note_newest (r\<lparr>building := hinsert (ph_timestamp h) p (building r)\<rparr>) d (ph_timestamp h)"
      "(out, r') = (if pt_have p = length (pt_pieces p) \<and> hget (building r1) (ph_timestamp h) = Some p
          then (Some (assemble (pt_pieces p)), r1\<lparr>building := hremove (ph_timestamp h) (building r1)\<rparr>)
          else (None, r1))"
proof (cases "read_fragment payload")
  case None
  with assms(1) show thesis by (intro unreadable) (auto simp: feed_def)
next
  case (Some f)
  obtain index cnt data where f: "f = (index, cnt, data)" by (metis prod_cases3)
  note rd = Some [unfolded f]
  show thesis
  proof (cases "cnt = 1")
    case True
    with rd assms(1) show thesis by (intro single) (auto simp: feed_def prod_eq_iff)
  next
    case False
    let ?ts = "ph_timestamp h"
    define old where "old = (case hget (building r) ?ts of None \<Rightarrow> fresh_partial cnt | Some p \<Rightarrow> p)"
    show thesis
    proof (cases "length (pt_pieces old) = unat cnt")
      case False
      then obtain q where q: "hget (building r) ?ts = Some q" "old = q"
        by (auto simp: old_def fresh_partial_def split: option.splits)
      with False rd \<open>cnt \<noteq> 1\<close> assms(1) show thesis
        by (intro corrupt [of index cnt data q]) (auto simp: feed_def Let_def)
    next
      case True
      define p where "p = add_piece old (unat index) data"
      define y where "y = r\<lparr>building := hinsert ?ts p (building r)\<rparr>"
      obtain r1 d1 where n: "note_newest y d ?ts = (r1, d1)" by fastforce
      have "hget (building r1) ?ts \<in> {None, Some p}"
        using note_newest_counts(4) [of y d ?ts ?ts] inv n
        by (simp add: y_def assembler_inv_def hmap_simps)
      moreover have "feed r d h payload =
        (if pt_have p \<noteq> length (pt_pieces p) then (None, r1, d1)
         else case hget (building r1) ?ts of
                None \<Rightarrow> (None, r1, d1)
              | Some q \<Rightarrow> (Some (assemble (pt_pieces q)), r1\<lparr>building := hremove ?ts (building r1)\<rparr>, d1))"
        using rd \<open>cnt \<noteq> 1\<close> True n
        by (simp add: feed_def Let_def old_def [symmetric] p_def [symmetric] y_def [symmetric])
      ultimately show thesis
        using assms(1) n rd \<open>cnt \<noteq> 1\<close> True
        by (intro piece [OF rd \<open>cnt \<noteq> 1\<close> old_def True p_def, of r1])
          (auto simp: y_def split: if_splits)
    qed
  qed
qed

lemma assembler_inv_feed:
  assumes "feed r d h payload = (out, r', d')" and inv: "assembler_inv hist r"
  shows "assembler_inv (insert (h, payload) hist) r'"
    and "out = Some picture \<Longrightarrow> \<exists>ds. picture = concat ds
      \<and> (\<forall>i < length ds. came (insert (h, payload) hist) (ph_timestamp h) i (length ds) (ds ! i))"
proof -
  let ?H = "insert (h, payload) hist"
  have inv': "assembler_inv ?H r"
    using inv partial_ok_mono [OF _ subset_insertI] unfolding assembler_inv_def by blast
  have noted: "assembler_inv ?H (fst (note_newest y d (ph_timestamp h)))"
    if "hmap_ok (building y)" "\<And>ts p. hget (building y) ts = Some p \<Longrightarrow> partial_ok ?H ts p" for y
    using note_newest_counts(1,2) [OF that(1)] note_newest_counts(4) [OF that(1), of d "ph_timestamp h"] that(2)
    unfolding assembler_inv_def by (metis empty_iff insert_iff min.cobounded1 option.distinct(1))
  have "assembler_inv ?H r' \<and> (out = Some picture \<longrightarrow> (\<exists>ds. picture = concat ds
      \<and> (\<forall>i < length ds. came ?H (ph_timestamp h) i (length ds) (ds ! i))))"
    using assms
  proof (cases rule: feed_cases)
    case unreadable
    with inv' show ?thesis by simp
  next
    case (single index data)
    have "unat index = 0"
      using read_fragment_Some(1) [OF single(1)] by (simp add: word_less_nat_alt)
    with came_now [OF single(1), of h hist]
    have "\<forall>i < length [data]. came ?H (ph_timestamp h) i (length [data]) ([data] ! i)" by simp
    moreover have "assembler_inv ?H (fst (note_newest r d (ph_timestamp h)))"
      using inv' by (intro noted) (auto simp: assembler_inv_def)
    moreover have "r' = fst (note_newest r d (ph_timestamp h))" using single(3) by (metis fst_conv)
    ultimately show ?thesis
      using single(2) by (intro conjI impI exI [of _ "[data]"]) simp_all
  next
    case (corrupt index cnt data q)
    have "length (hremove (ph_timestamp h) (building r)) \<le> 2"
      using length_delete_le inv' unfolding assembler_inv_def by (meson le_trans)
    with inv' corrupt show ?thesis by (auto simp: assembler_inv_def hmap_simps split: if_splits)
  next
    case (piece index cnt data old p r1)
    have old: "partial_ok ?H (ph_timestamp h) old"
      using inv' piece(3) fresh_partial_ok by (auto simp: assembler_inv_def split: option.splits)
    have lt: "unat index < length (pt_pieces old)"
      using read_fragment_Some(1) [OF piece(1)] piece(4) by (simp add: word_less_nat_alt)
    have p: "partial_ok ?H (ph_timestamp h) p"
      unfolding piece(5) using came_now [OF piece(1), of h hist] piece(4) by (intro add_piece_ok(1) old lt) simp
    have "assembler_inv ?H (fst (note_newest (r\<lparr>building := hinsert (ph_timestamp h) p (building r)\<rparr>) d (ph_timestamp h)))"
      using inv' p by (intro noted) (auto simp: assembler_inv_def hmap_simps split: if_splits)
    then have r1: "assembler_inv ?H r1" using piece(6) by (metis fst_conv)
    show ?thesis
    proof (cases "pt_have p = length (pt_pieces p) \<and> hget (building r1) (ph_timestamp h) = Some p")
      case True
      have "length (hremove (ph_timestamp h) (building r1)) \<le> 2"
        using length_delete_le r1 unfolding assembler_inv_def by (meson le_trans)
      then have "assembler_inv ?H (r1\<lparr>building := hremove (ph_timestamp h) (building r1)\<rparr>)"
        using r1 by (auto simp: assembler_inv_def hmap_simps split: if_splits)
      with True piece(7) assemble_complete [OF p] show ?thesis by auto
    next
      case False
      with piece(7) r1 show ?thesis by auto
    qed
  qed
  then show "assembler_inv ?H r'" "out = Some picture \<Longrightarrow> \<exists>ds. picture = concat ds
      \<and> (\<forall>i < length ds. came ?H (ph_timestamp h) i (length ds) (ds ! i))" by blast+
qed

end
