(* ===== verification/RecvProps.thy ===== *)
theory RecvProps
  imports RecvInv
begin

text \<open>
  What the watching side promises: pictures are never mixed up, none disappears uncounted,
  a picture completes whatever the order of its fragments, the queue sheds whole pictures, and
  the decoder sees nothing before a keyframe.
\<close>

section \<open>Runs of the reassembler\<close>

text \<open>One packet of a run; the state carries the packets so far.\<close>

fun assembler_step ::
  "packet list \<times> reassembler \<times> u64 \<Rightarrow> packet \<Rightarrow> packet list \<times> reassembler \<times> u64" where
  "assembler_step (hist, r, d) (h, payload) = (hist @ [(h, payload)], snd (feed r d h payload))"

interpretation reassembly: invariant_machine "\<lambda>(hist, r, d). assembler_inv (set hist) r" assembler_step
proof
  show "case assembler_step s e of (hist, r, d) \<Rightarrow> assembler_inv (set hist) r"
    if "case s of (hist, r, d) \<Rightarrow> assembler_inv (set hist) r" for s e
  proof -
    obtain hist r d h payload where s: "s = (hist, r, d)" "e = (h, payload)" by (metis prod_cases3 surj_pair)
    obtain out r' d' where f: "feed r d h payload = (out, r', d')" by (metis prod_cases3)
    from assembler_inv_feed(1) [OF f] that show ?thesis by (simp add: s f)
  qed
qed

lemma feed_all_run:
  "foldl assembler_step (hist, rd) packets = (hist @ packets, snd (feed_all (fst rd) (snd rd) packets))"
proof (induction packets arbitrary: hist rd)
  case (Cons e packets)
  then show ?case by (cases e; cases rd) (simp add: Let_def case_prod_unfold)
qed simp

lemma length_feed_all [simp]: "length (fst (feed_all r d packets)) = length packets"
  by (induction packets arbitrary: r d) (auto simp: Let_def case_prod_unfold)

lemma feed_all_append:
  "feed_all r d (xs @ ys) =
     (let (outs, r', d') = feed_all r d xs; (outs', r'', d'') = feed_all r' d' ys in (outs @ outs', r'', d''))"
  by (induction xs arbitrary: r d) (auto simp: Let_def case_prod_unfold)

lemma feed_all_nth:
  assumes "i < length packets" and "packets ! i = (h, payload)"
  shows "fst (feed_all r d packets) ! i =
    fst (feed (fst (snd (feed_all r d (take i packets)))) (snd (snd (feed_all r d (take i packets)))) h payload)"
proof -
  have "packets = take i packets @ (h, payload) # drop (Suc i) packets"
    using assms by (metis id_take_nth_drop)
  then have "fst (feed_all r d packets) ! i =
      fst (feed_all r d (take i packets @ (h, payload) # drop (Suc i) packets)) ! i" by simp
  also have "\<dots> = fst (feed (fst (snd (feed_all r d (take i packets))))
      (snd (snd (feed_all r d (take i packets)))) h payload)"
    using assms(1) by (simp add: feed_all_append Let_def case_prod_unfold nth_append)
  finally show ?thesis .
qed

lemma empty_assembler_inv: "assembler_inv {} empty_reassembler"
  by (simp add: assembler_inv_def empty_reassembler_def)

lemma feed_all_inv:
  "assembler_inv (set packets) (fst (snd (feed_all empty_reassembler d packets)))"
  using reassembly.run_events_keep [of "([], empty_reassembler, d)" packets] empty_assembler_inv
  by (simp add: feed_all_run case_prod_unfold)

text \<open>
  Claim C15. Whatever packets arrive, forged, corrupt, repeated or out of order, a picture that
  comes out is never mixed: it is the pieces \<open>0, 1, \<dots>, n - 1\<close> in order, each of which came in
  a fragment that carried the picture's timestamp, that index and the count \<open>n\<close>, among the packets up to the
  one that completed it; and never more than two pictures are being built.
\<close>

theorem pictures_are_never_mixed:
  assumes "i < length packets" and "packets ! i = (h, payload)"
    and "fst (feed_all empty_reassembler d packets) ! i = Some picture"
  shows "(\<exists>ds. picture = concat ds
      \<and> (\<forall>j < length ds. came (set (take (Suc i) packets)) (ph_timestamp h) j (length ds) (ds ! j)))
    \<and> in_flight (fst (snd (feed_all empty_reassembler d packets))) \<le> 2"
proof -
  let ?before = "feed_all empty_reassembler d (take i packets)"
  obtain out r' d' where f: "feed (fst (snd ?before)) (snd (snd ?before)) h payload = (out, r', d')"
    by (metis prod_cases3)
  have "out = Some picture" using assms(3) feed_all_nth [OF assms(1,2), of empty_reassembler d] f by simp
  moreover have "insert (h, payload) (set (take i packets)) = set (take (Suc i) packets)"
    using assms(1,2) by (simp add: take_Suc_conv_app_nth)
  ultimately show ?thesis
    using assembler_inv_feed(2) [OF f feed_all_inv] feed_all_inv [of packets d]
    by (simp add: in_flight_def assembler_inv_def)
qed

text \<open>
  No picture disappears uncounted: at every feed, the pictures in progress before
  it and the one it starts are, after it, in progress, returned, or counted as dropped, one
  by one.
\<close>

theorem every_picture_is_accounted_for:
  assumes "assembler_inv hist r" and "feed r d h payload = (out, r', d')"
  shows "\<exists>lost. d' = d + word_of_nat lost
    \<and> in_flight r
        + (case read_fragment payload of None \<Rightarrow> 0 | Some (_, cnt, _) \<Rightarrow>
             if cnt = 1 \<or> hget (building r) (ph_timestamp h) = None then 1 else 0)
      = in_flight r' + (case out of None \<Rightarrow> 0 | Some _ \<Rightarrow> 1) + lost"
  using assms(2,1)
proof (cases rule: feed_cases)
  case unreadable
  then show ?thesis by (intro exI [of _ 0]) simp
next
  case (single index data)
  have "hmap_ok (building r)" "length (building r) \<le> 2" using assms(1) by (auto simp: assembler_inv_def)
  with note_newest_counts(2,3) [of r d "ph_timestamp h"] single show ?thesis
    by (intro exI [of _ 0]) (simp add: in_flight_def prod_eq_iff)
next
  case (corrupt index cnt data q)
  have "Suc (length (hremove (ph_timestamp h) (building r))) = length (building r)"
    using corrupt(3) assms(1) hget_keys [of "building r" "ph_timestamp h"]
    by (intro length_hremove) (auto simp: assembler_inv_def)
  with corrupt show ?thesis by (intro exI [of _ 1]) (auto simp: in_flight_def)
next
  case (piece index cnt data old p r1)
  let ?b = "hinsert (ph_timestamp h) p (building r)"
  let ?y = "r\<lparr>building := ?b\<rparr>"
  have ok: "hmap_ok (building ?y)" using assms(1) by (simp add: assembler_inv_def)
  have len: "length ?b = length (building r) + (if hget (building r) (ph_timestamp h) = None then 1 else 0)"
    using hget_keys [of "building r" "ph_timestamp h"] by (auto simp: length_hinsert)
  have r1: "length (building r1) = min 2 (length ?b)" "d' = d + word_of_nat (length ?b - 2)"
    "hmap_ok (building r1)"
    using note_newest_counts(1-3) [OF ok, of d "ph_timestamp h"] piece(6) by (simp_all add: prod_eq_iff)
  have removed: "Suc (length (hremove (ph_timestamp h) (building r1))) = length (building r1)"
    if "hget (building r1) (ph_timestamp h) = Some p"
    using r1(3) that by (intro length_hremove) (auto simp: hget_keys [symmetric])
  have out: "out = None \<and> r' = r1 \<or>
      (\<exists>q. out = Some q) \<and> Suc (length (building r')) = length (building r1)"
    using piece(7) removed by (auto split: if_splits)
  show ?thesis
    by (rule exI [of _ "length ?b - 2"]) (use out piece(1,2) r1(1,2) len in \<open>auto simp: in_flight_def\<close>)
qed

text \<open>A delta picture of one fragment, and a second fragment of another picture.\<close>

definition small_header :: packet_header where
  "small_header = \<lparr>ph_kind = VideoDelta, ph_ssrc = 7, ph_seq = 1, ph_timestamp = 3\<rparr>"

lemma small_read: "read_fragment (write_fragment 0 1 [8] []) = Some (0, 1, [8])"
  by (rule read_write_fragment) simp

theorem pictures_are_never_mixed_witness:
  "fst (feed_all empty_reassembler 0 [(small_header, write_fragment 0 1 [8] [])]) ! 0 = Some [8]
   \<and> (\<exists>ds. [8] = concat ds \<and> (\<forall>j < length ds.
        came {(small_header, write_fragment 0 1 [8] [])} 3 j (length ds) (ds ! j)))"
proof -
  let ?es = "[(small_header, write_fragment 0 1 [8] [])]"
  have out: "fst (feed_all empty_reassembler 0 ?es) ! 0 = Some [8]"
    by (simp add: feed_def small_read Let_def case_prod_unfold)
  have "0 < length ?es" "?es ! 0 = (small_header, write_fragment 0 1 [8] [])" by simp_all
  from pictures_are_never_mixed [OF this out] out show ?thesis
    by (simp add: small_header_def)
qed

theorem every_picture_is_accounted_for_witness:
  "\<exists>lost. snd (snd (feed empty_reassembler 0 small_header (write_fragment 0 1 [8] []))) = 0 + word_of_nat lost
    \<and> 0 + 1 = in_flight (fst (snd (feed empty_reassembler 0 small_header (write_fragment 0 1 [8] [])))) + 1 + lost"
proof -
  have feed: "feed empty_reassembler 0 small_header (write_fragment 0 1 [8] [])
      = (Some [8], note_newest empty_reassembler 0 3)"
    by (simp add: feed_def small_read small_header_def)
  obtain r d where n: "note_newest empty_reassembler 0 3 = (r, d)" by fastforce
  from every_picture_is_accounted_for [OF empty_assembler_inv feed [unfolded n]]
  show ?thesis unfolding feed n by (simp add: small_read in_flight_def empty_reassembler_def)
qed

section \<open>The tap\<close>

text \<open>What can happen to a tap: a packet, the decoder taking a picture, the decoder going away.\<close>

inductive tap_step :: "tap \<Rightarrow> tap \<Rightarrow> bool" where
  tap_packet: "tap_step t (tap_feed t h payload)"
| tap_taken: "tp_queue t = p # rest \<Longrightarrow> tap_step t (t\<lparr>tp_queue := rest\<rparr>)"
| tap_closed: "tap_step t (t\<lparr>tp_connected := False\<rparr>)"

definition tap_inv :: "tap \<Rightarrow> bool" where
  "tap_inv t \<longleftrightarrow> tp_dropped t = ls_incomplete (tp_why t) + ls_no_room (tp_why t)
     \<and> length (tp_queue t) \<le> tp_depth t"

lemma tap_feed_inv:
  assumes "tap_inv t"
  shows "tap_inv (tap_feed t h payload)"
proof (cases "ph_ssrc h \<noteq> tp_ssrc t \<or> \<not> is_video (ph_kind h)")
  case True
  with assms show ?thesis by (simp add: tap_feed_def)
next
  case False
  obtain out r d where f: "feed (tp_assembler t) (tp_dropped t) h payload = (out, r, d)"
    by (metis prod_cases3)
  have zero: "\<not> 0 < d - tp_dropped t \<Longrightarrow> d = tp_dropped t" by (simp add: word_gt_0)
  from assms have sum: "ls_incomplete (tp_why t) + ls_no_room (tp_why t) = tp_dropped t"
    and room: "length (tp_queue t) \<le> tp_depth t" by (simp_all add: tap_inv_def)
  have more: "ls_incomplete (tp_why t) + (d - tp_dropped t) + ls_no_room (tp_why t) = d"
    using sum by (simp add: algebra_simps)
  show ?thesis
  proof (cases out)
    case None
    with False sum room zero more show ?thesis
      by (simp add: tap_feed_def f Let_def tap_inv_def algebra_simps)
  next
    case (Some picture)
    with False sum room zero more show ?thesis
      by (auto simp: tap_feed_def f Let_def tap_inv_def try_send_def algebra_simps)
  qed
qed

interpretation tap: invariant_system tap_inv tap_step
proof
  show "tap_inv t" if "tap_step s t" "tap_inv s" for s t
    using that tap_feed_inv by cases (auto simp: tap_inv_def)
qed

text \<open>
  Whatever the wire and the decoder do, the tap never holds more pictures than the
  queue is deep, and the counters add up: the pictures counted as dropped are those counted
  as incomplete and those for which there was no room. Packets of another stream or kind
  change nothing.
\<close>

theorem tap_counts_add_up:
  assumes "tap_step\<^sup>*\<^sup>* (tap_pair stream depth) t"
  shows "tp_dropped t = ls_incomplete (tp_why t) + ls_no_room (tp_why t)
    \<and> length (tp_queue t) \<le> tp_depth t
    \<and> (\<not> is_video (ph_kind h) \<or> ph_ssrc h \<noteq> tp_ssrc t \<longrightarrow> tap_feed t h payload = t)"
proof -
  have "tap_inv (tap_pair stream depth)" by (simp add: tap_inv_def tap_pair_def)
  from tap.run_keeps [OF assms this] show ?thesis by (auto simp: tap_inv_def tap_feed_def)
qed

theorem tap_counts_add_up_witness:
  "tap_step\<^sup>*\<^sup>* (tap_pair 7 0) (tap_feed (tap_pair 7 0) small_header (write_fragment 0 1 [8] []))
   \<and> tp_dropped (tap_feed (tap_pair 7 0) small_header (write_fragment 0 1 [8] [])) =
       ls_incomplete (tp_why (tap_feed (tap_pair 7 0) small_header (write_fragment 0 1 [8] [])))
     + ls_no_room (tp_why (tap_feed (tap_pair 7 0) small_header (write_fragment 0 1 [8] [])))"
proof -
  have run: "tap_step\<^sup>*\<^sup>* (tap_pair 7 0) (tap_feed (tap_pair 7 0) small_header (write_fragment 0 1 [8] []))"
    by (intro r_into_rtranclp tap_packet)
  from tap_counts_add_up [OF run] run show ?thesis by blast
qed

section \<open>The decoder\<close>

definition state_at :: "('d \<Rightarrow> byte list \<Rightarrow> decoded \<times> 'd) \<Rightarrow> 'd decoding \<Rightarrow> picture list \<Rightarrow> nat \<Rightarrow> 'd decoding" where
  "state_at dec s pictures i = decode_loop dec s (take i pictures)"

text \<open>Whether the decoder would refuse picture \<open>i\<close> of the run.\<close>

definition refused :: "('d \<Rightarrow> byte list \<Rightarrow> decoded \<times> 'd) \<Rightarrow> 'd decoding \<Rightarrow> picture list \<Rightarrow> nat \<Rightarrow> bool" where
  "refused dec s pictures i \<longleftrightarrow>
     fst (dec (dc_decoder (state_at dec s pictures i)) (snd (pictures ! i))) = Refused"

lemma state_at_Suc:
  "i < length pictures \<Longrightarrow>
    state_at dec s pictures (Suc i) = decode_picture dec (state_at dec s pictures i) (pictures ! i)"
  by (simp add: state_at_def decode_loop_def take_Suc_conv_app_nth)

lemma decode_picture_started:
  "dc_started (decode_picture dec s p) \<longleftrightarrow>
    (dc_started s \<or> fst p) \<and> fst (dec (dc_decoder s) (snd p)) \<noteq> Refused"
  by (cases p) (auto simp: decode_picture_def Let_def case_prod_unfold split: decoded.splits)

lemma since_Suc:
  "(\<exists>j < Suc i. K j \<and> (\<forall>k. j \<le> k \<and> k < Suc i \<longrightarrow> \<not> R k)) \<longleftrightarrow>
    ((\<exists>j < i. K j \<and> (\<forall>k. j \<le> k \<and> k < i \<longrightarrow> \<not> R k)) \<or> K i) \<and> \<not> R i"
proof -
  have "(\<forall>k. j \<le> k \<and> k < Suc i \<longrightarrow> \<not> R k) \<longleftrightarrow> (\<forall>k. j \<le> k \<and> k < i \<longrightarrow> \<not> R k) \<and> \<not> R i"
    if "j \<le> i" for j
    using that by (auto simp: less_Suc_eq)
  then show ?thesis
    by (auto simp: less_Suc_eq_le le_less)
qed

text \<open>
  Claim C23. Nothing is decoded without its reference: started fresh, the loop passes picture
  \<open>i\<close> to the decoder if and only if it is a keyframe or some keyframe came before it since which
  the decoder has refused nothing; a skipped picture leaves the decoder as it was.
\<close>

theorem deltas_wait_for_a_keyframe:
  assumes "\<not> dc_started s" and "i < length pictures"
  shows "(dc_started (state_at dec s pictures i) \<longleftrightarrow>
      (\<exists>j < i. fst (pictures ! j) \<and> (\<forall>k. j \<le> k \<and> k < i \<longrightarrow> \<not> refused dec s pictures k)))
    \<and> (\<not> fst (pictures ! i) \<and> \<not> dc_started (state_at dec s pictures i) \<longrightarrow>
        state_at dec s pictures (Suc i) = state_at dec s pictures i)"
proof
  show "dc_started (state_at dec s pictures i) \<longleftrightarrow>
      (\<exists>j < i. fst (pictures ! j) \<and> (\<forall>k. j \<le> k \<and> k < i \<longrightarrow> \<not> refused dec s pictures k))"
    using assms(2)
  proof (induction i)
    case 0
    then show ?case using assms(1) by (simp add: state_at_def decode_loop_def)
  next
    case (Suc i)
    have "dc_started (state_at dec s pictures (Suc i)) \<longleftrightarrow>
        (dc_started (state_at dec s pictures i) \<or> fst (pictures ! i)) \<and> \<not> refused dec s pictures i"
      using Suc.prems by (simp add: state_at_Suc decode_picture_started refused_def)
    also have "\<dots> \<longleftrightarrow> (\<exists>j < Suc i. fst (pictures ! j)
        \<and> (\<forall>k. j \<le> k \<and> k < Suc i \<longrightarrow> \<not> refused dec s pictures k))"
      unfolding since_Suc using Suc.IH Suc.prems by simp
    finally show ?case .
  qed
  show "\<not> fst (pictures ! i) \<and> \<not> dc_started (state_at dec s pictures i) \<longrightarrow>
      state_at dec s pictures (Suc i) = state_at dec s pictures i"
    using assms(2) by (simp add: state_at_Suc decode_picture_def case_prod_unfold)
qed

definition fresh_decoding :: "unit decoding" where
  "fresh_decoding = \<lparr>dc_decoder = (), dc_generation = 0, dc_latest = None, dc_frames = 0,
     dc_failed = 0, dc_started = False\<rparr>"

definition picky :: "unit \<Rightarrow> byte list \<Rightarrow> decoded \<times> unit" where
  "picky d picture = ((if picture = [] then Refused else Image 1 1 picture), ())"

theorem deltas_wait_for_a_keyframe_witness:
  "\<not> dc_started (state_at picky fresh_decoding [(False, [1]), (True, [2]), (False, []), (False, [3])] 3)
   \<and> state_at picky fresh_decoding [(False, [1]), (True, [2]), (False, []), (False, [3])] 4
     = state_at picky fresh_decoding [(False, [1]), (True, [2]), (False, []), (False, [3])] 3"
proof -
  let ?ps = "[(False, [1]), (True, [2]), (False, []), (False, [3])]"
  have fresh: "\<not> dc_started fresh_decoding" by (simp add: fresh_decoding_def)
  have "refused picky fresh_decoding ?ps 2"
    by (simp add: refused_def picky_def)
  with deltas_wait_for_a_keyframe [OF fresh, of 3 ?ps picky]
  show ?thesis by (auto simp: less_Suc_eq numeral_eq_Suc)
qed

end
