(* ===== verification/RecvOrder.thy ===== *)
theory RecvOrder
  imports RecvProps
begin

text \<open>
  A picture completes whatever the order of its fragments. Timestamps are compared on the
  circle of 32-bit words: \<open>T\<close> is the picture's, \<open>U\<close> that of the one picture that may have
  started after it (or \<open>T\<close> itself), and everything else that arrives is older than \<open>T\<close> by
  less than \<open>2\<^sup>30\<close>.
\<close>

definition older :: "u32 \<Rightarrow> u32 \<Rightarrow> bool" where
  "older T t \<longleftrightarrow> 0 < T - t \<and> T - t < 2 ^ 30"

definition allowed :: "u32 \<Rightarrow> u32 \<Rightarrow> u32 \<Rightarrow> bool" where
  "allowed T U t \<longleftrightarrow> t = T \<or> t = U \<or> older T t"

section \<open>Distances on the circle\<close>

lemma unat_diff_add:
  fixes a b c :: u32
  assumes "unat (a - b) + unat (b - c) < 2 ^ 32"
  shows "unat (a - c) = unat (a - b) + unat (b - c)"
proof -
  have "a - c = (a - b) + (b - c)" by simp
  then have "unat (a - c) = unat ((a - b) + (b - c))" by (rule arg_cong)
  also have "\<dots> = unat (a - b) + unat (b - c)"
    using assms by (subst unat_word_ariths(1)) simp
  finally show ?thesis .
qed

lemma unat_diff_rev:
  fixes a b :: u32
  assumes "a \<noteq> b"
  shows "unat (b - a) = 2 ^ 32 - unat (a - b)"
proof -
  have "unat ((b - a) + (a - b)) = (unat (b - a) + unat (a - b)) mod 2 ^ 32"
    by (subst unat_word_ariths(1)) simp
  then have sum: "(unat (b - a) + unat (a - b)) mod 2 ^ 32 = 0" by simp
  have pos: "0 < unat (a - b)" using assms by (simp add: unat_eq_0 neq0_conv [symmetric])
  have "unat (b - a) < 2 ^ 32" "unat (a - b) < 2 ^ 32"
    using unsigned_less [of "b - a", where ?'a = nat] unsigned_less [of "a - b", where ?'a = nat] by simp_all
  moreover from sum obtain k where "unat (b - a) + unat (a - b) = 2 ^ 32 * k" by (auto simp: mod_eq_0_iff_dvd)
  ultimately have "k = 1" using pos by (cases k rule: nat.exhaust) auto
  with \<open>unat (b - a) + unat (a - b) = 2 ^ 32 * k\<close> show ?thesis by simp
qed

lemma older_unat: "older T t \<longleftrightarrow> 0 < unat (T - t) \<and> unat (T - t) < 2 ^ 30"
  by (simp add: older_def word_less_nat_alt)

lemma older_after:
  assumes "unat (U - T) < 2 ^ 30" and "older T t"
  shows "unat (U - t) = unat (U - T) + unat (T - t)"
  using assms by (intro unat_diff_add) (simp add: older_unat)

lemma is_newer_unat: "is_newer t n \<longleftrightarrow> unat (t - n) < 2 ^ 31 - 1"
  by (simp add: is_newer_def word_less_nat_alt)

lemma old_not_newer:
  assumes "unat (U - T) < 2 ^ 30" and "older T t" and "n = T \<or> n = U"
  shows "\<not> is_newer t n" and "is_newer n t"
proof -
  from assms older_after [OF assms(1,2)] have pos: "0 < unat (n - t)" and small: "unat (n - t) < 2 ^ 31 - 1"
    by (auto simp: older_unat)
  then show "is_newer n t" by (simp add: is_newer_unat)
  from pos have "n \<noteq> t" by auto
  from unat_diff_rev [OF this] small show "\<not> is_newer t n" by (simp add: is_newer_unat)
qed

lemma nearer_than_T:
  assumes "unat (U - T) < 2 ^ 30" and "allowed T U t" and "n = T \<or> n = U" and "n - t < n - T"
  shows "t = U"
proof -
  have lt: "unat (n - t) < unat (n - T)" using assms(4) by (simp add: word_less_nat_alt)
  then have "n \<noteq> T" "t \<noteq> T" by auto
  with assms(3) have n: "n = U" by simp
  have "\<not> older T t"
    using older_after [OF assms(1), of t] lt unfolding n by auto
  with assms(2) \<open>t \<noteq> T\<close> show ?thesis by (auto simp: allowed_def)
qed

section \<open>The picture in progress\<close>

definition pieces_of :: "byte list \<Rightarrow> nat set \<Rightarrow> partial" where
  "pieces_of frame S =
     \<lparr>pt_pieces = map (\<lambda>j. if j \<in> S then Some (chunks MAX_VIDEO_CHUNK frame ! j) else None)
                    [0..<length (fragment frame)],
      pt_have = card S\<rparr>"

definition tracks :: "byte list \<Rightarrow> u32 \<Rightarrow> u32 \<Rightarrow> nat set \<Rightarrow> reassembler \<Rightarrow> bool" where
  "tracks frame T U S r \<longleftrightarrow>
     hmap_ok (building r) \<and> (\<forall>t \<in> fst ` set (building r). allowed T U t)
   \<and> (\<forall>n. newest r = Some n \<longrightarrow> allowed T U n)
   \<and> (S = {} \<longrightarrow> hget (building r) T = None)
   \<and> (S \<noteq> {} \<longrightarrow> newest r \<in> {Some T, Some U} \<and> hget (building r) T = Some (pieces_of frame S))"

definition settled :: "u32 \<Rightarrow> u32 \<Rightarrow> reassembler \<Rightarrow> bool" where
  "settled T U r \<longleftrightarrow> hmap_ok (building r) \<and> (\<forall>t \<in> fst ` set (building r). allowed T U t)
   \<and> (\<forall>n. newest r = Some n \<longrightarrow> allowed T U n)"

lemma tracks_settled: "tracks frame T U S r \<Longrightarrow> settled T U r"
  by (simp add: tracks_def settled_def)

lemma settled_note:
  assumes set: "settled T U r" and "unat (U - T) < 2 ^ 30" and e: "allowed T U e"
  shows "settled T U (fst (note_newest r d e))"
    and "e = T \<or> e = U \<or> newest r \<in> {Some T, Some U} \<Longrightarrow>
      newest (fst (note_newest r d e)) \<in> {Some T, Some U}
      \<and> hget (building (fst (note_newest r d e))) T = hget (building r) T"
proof -
  have ok: "hmap_ok (building r)" using set by (simp add: settled_def)
  let ?r = "fst (note_newest r d e)"
  have keys: "fst ` set (building ?r) \<subseteq> fst ` set (building r)"
    using note_newest_counts(4) [OF ok, of d e] unfolding hget_keys [symmetric] subset_iff
    by (metis empty_iff insert_iff)
  have "\<forall>t \<in> fst ` set (building ?r). allowed T U t"
    using keys set unfolding settled_def by blast
  moreover have "\<forall>n. newest ?r = Some n \<longrightarrow> allowed T U n"
    using set e by (auto simp: settled_def note_newest_newest split: option.splits)
  ultimately show "settled T U ?r"
    using note_newest_counts(1) [OF ok, of d e] unfolding settled_def by blast
  show "newest ?r \<in> {Some T, Some U} \<and> hget (building ?r) T = hget (building r) T"
    if cur: "e = T \<or> e = U \<or> newest r \<in> {Some T, Some U}"
  proof
    show new: "newest ?r \<in> {Some T, Some U}"
    proof (cases "newest r")
      case None
      with cur show ?thesis by (simp add: note_newest_newest)
    next
      case (Some n)
      consider "n = T \<or> n = U" | "older T n" "e = T \<or> e = U"
        using Some cur set by (auto simp: settled_def allowed_def)
      then show ?thesis
      proof cases
        case 1
        with Some e old_not_newer(1) [OF assms(2), of e n] show ?thesis
          by (auto simp: note_newest_newest allowed_def)
      next
        case 2
        with Some old_not_newer(2) [OF assms(2), of n e] show ?thesis
          by (auto simp: note_newest_newest)
      qed
    qed
    then obtain n where n: "newest ?r = Some n" "n = T \<or> n = U" by auto
    show "hget (building ?r) T = hget (building r) T"
      by (rule note_newest_survives [OF ok n(1)])
        (use nearer_than_T [OF assms(2) _ n(2)] set in \<open>auto simp: settled_def\<close>)
  qed
qed

text \<open>A packet with another timestamp leaves the picture in progress alone.\<close>

lemma tracks_other:
  assumes tr: "tracks frame T U S r" and near: "unat (U - T) < 2 ^ 30"
    and e: "allowed T U (ph_timestamp h)" "ph_timestamp h \<noteq> T"
    and inv: "assembler_inv hist r" and feed: "feed r d h payload = (out, r', d')"
  shows "tracks frame T U S r'"
proof -
  let ?e = "ph_timestamp h"
  have noted: "tracks frame T U S (fst (note_newest y d ?e))"
    if "settled T U y" "newest y = newest r" "hget (building y) T = hget (building r) T" for y
  proof -
    note n = settled_note [OF that(1) near e(1), of d]
    have gone: "hget (building y) T = None \<Longrightarrow> hget (building (fst (note_newest y d ?e))) T = None"
      using note_newest_counts(4) [of y d ?e T] that(1) by (simp add: settled_def)
    show ?thesis
      using tr n gone that by (cases "S = {}") (auto simp: tracks_def settled_def)
  qed
  have ins: "settled T U (r\<lparr>building := hinsert ?e p (building r)\<rparr>)" for p
    using tracks_settled [OF tr] e(1) by (auto simp: settled_def hinsert_keys)
  have del: "tracks frame T U S (y\<lparr>building := hremove ?e (building y)\<rparr>)" if "tracks frame T U S y" for y
    using that e(2) by (auto simp: tracks_def hremove_keys)
  show ?thesis
    using feed inv
  proof (cases rule: feed_cases)
    case unreadable
    with tr show ?thesis by simp
  next
    case (single index data)
    then have "r' = fst (note_newest r d ?e)" by (metis fst_conv)
    with noted [OF tracks_settled [OF tr]] show ?thesis by simp
  next
    case (corrupt index cnt data q)
    with del [OF tr] show ?thesis by simp
  next
    case (piece index cnt data old p r1)
    have "tracks frame T U S (fst (note_newest (r\<lparr>building := hinsert ?e p (building r)\<rparr>) d ?e))"
      using e(2) by (intro noted ins) (auto simp: hmap_simps)
    then have "tracks frame T U S r1" using piece(6) by (metis fst_conv)
    with piece(7) del show ?thesis by (auto split: if_splits)
  qed
qed

lemma flatten_Some [simp]: "flatten (map Some xs) = xs"
  by (induction xs) simp_all

lemma pieces_of_all: "assemble (pt_pieces (pieces_of frame {..<length (fragment frame)})) = frame"
proof -
  have n: "length (fragment frame) = length (chunks MAX_VIDEO_CHUNK frame)"
    by (simp add: length_fragment length_chunks)
  have "pt_pieces (pieces_of frame {..<length (fragment frame)})
      = map Some (chunks MAX_VIDEO_CHUNK frame)"
    unfolding n by (rule nth_equalityI) (simp_all add: pieces_of_def n)
  then show ?thesis by (simp add: assemble_def)
qed

lemma add_piece_of:
  assumes "i < length (fragment frame)" "finite S"
  shows "add_piece (pieces_of frame S) i (chunks MAX_VIDEO_CHUNK frame ! i) = pieces_of frame (insert i S)"
proof (cases "i \<in> S")
  case True
  with assms show ?thesis by (simp add: add_piece_def pieces_of_def insert_absorb)
next
  case False
  have "(pt_pieces (pieces_of frame S))[i := Some (chunks MAX_VIDEO_CHUNK frame ! i)]
      = pt_pieces (pieces_of frame (insert i S))"
    by (rule nth_equalityI) (auto simp: pieces_of_def nth_list_update assms)
  with False assms show ?thesis by (simp add: add_piece_def) (simp add: pieces_of_def)
qed

text \<open>A fragment of the picture itself: the last one missing completes it.\<close>

lemma tracks_own:
  assumes tr: "tracks frame T U S r" and near: "unat (U - T) < 2 ^ 30"
    and S: "S \<subseteq> {..<length (fragment frame)}" and n: "length (fragment frame) < 2 ^ 16"
    and i: "i < length (fragment frame)"
    and h: "ph_timestamp h = T" "read_fragment payload = Some (fragment frame ! i)"
    and inv: "assembler_inv hist r" and feed: "feed r d h payload = (out, r', d')"
  shows "insert i S = {..<length (fragment frame)} \<Longrightarrow> out = Some frame"
    and "insert i S \<noteq> {..<length (fragment frame)} \<Longrightarrow> out = None \<and> tracks frame T U (insert i S) r'"
proof -
  let ?n = "length (fragment frame)"
  have fin: "finite S" using S finite_subset by blast
  have rd: "read_fragment payload =
      Some (word_of_nat i, word_of_nat ?n, chunks MAX_VIDEO_CHUNK frame ! i)"
    using h(2) fragment_nth [OF i] by simp
  have cnt: "unat (word_of_nat ?n :: u16) = ?n" using n by (simp only: unat_of_nat len_num1 len_bit0) simp
  have idx: "unat (word_of_nat i :: u16) = i" using n i by (simp only: unat_of_nat len_num1 len_bit0) simp
  have full: "insert i S = {..<?n} \<longleftrightarrow> card (insert i S) = ?n"
  proof
    assume "card (insert i S) = ?n"
    then have "card (insert i S) = card {..<?n}" by simp
    moreover have "insert i S \<subseteq> {..<?n}" using S i by simp
    ultimately show "insert i S = {..<?n}" by (intro card_subset_eq) simp_all
  qed simp
  have "(insert i S = {..<?n} \<longrightarrow> out = Some frame)
    \<and> (insert i S \<noteq> {..<?n} \<longrightarrow> out = None \<and> tracks frame T U (insert i S) r')"
    using feed inv
  proof (cases rule: feed_cases)
    case unreadable
    with rd show ?thesis by simp
  next
    case (single index data)
    then have one: "word_of_nat ?n = (1 :: u16)" using rd by simp
    have "?n = 1" using cnt unfolding one by simp
    then have "length (chunks MAX_VIDEO_CHUNK frame) = 1"
      by (simp add: length_fragment length_chunks)
    then obtain x where "chunks MAX_VIDEO_CHUNK frame = [x]" by (auto simp: length_Suc_conv)
    then have "chunks MAX_VIDEO_CHUNK frame = [frame]"
      using concat_chunks [of MAX_VIDEO_CHUNK frame] by simp
    with single rd i \<open>?n = 1\<close> S show ?thesis by auto
  next
    case (corrupt index cnt' data q)
    then have "hget (building r) T = Some (pieces_of frame S)"
      using tr h(1) by (cases "S = {}") (auto simp: tracks_def)
    then have "q = pieces_of frame S" using corrupt(3) h(1) by simp
    then have "length (pt_pieces q) = ?n" by (simp add: pieces_of_def)
    moreover have "unat cnt' = ?n" using corrupt(1) rd cnt by simp
    ultimately show ?thesis using corrupt(7) by simp
  next
    case (piece index cnt' data old p r1)
    have eq: "index = word_of_nat i" "cnt' = word_of_nat ?n" "data = chunks MAX_VIDEO_CHUNK frame ! i"
      using piece(1) rd by simp_all
    have "old = pieces_of frame S"
    proof (cases "S = {}")
      case True
      have "fresh_partial cnt' = pieces_of frame {}"
        by (simp only: fresh_partial_def eq cnt pieces_of_def) (simp add: map_replicate_const)
      with piece(3) tr h(1) True show ?thesis by (simp add: tracks_def)
    next
      case False
      with piece(3) tr h(1) show ?thesis by (simp add: tracks_def)
    qed
    then have p: "p = pieces_of frame (insert i S)"
      using piece(5) add_piece_of [OF i fin] by (simp only: eq idx)
    let ?y = "r\<lparr>building := hinsert T p (building r)\<rparr>"
    have "settled T U ?y"
      using tracks_settled [OF tr] by (auto simp: settled_def hinsert_keys allowed_def)
    note y = settled_note [OF this near, of T d]
    have r1: "r1 = fst (note_newest ?y d T)" using piece(6) h(1) by (metis fst_conv)
    have set1: "settled T U r1" "newest r1 \<in> {Some T, Some U}" "hget (building r1) T = Some p"
      using y by (simp_all add: r1 allowed_def hmap_simps)
    have complete: "pt_have p = length (pt_pieces p) \<longleftrightarrow> insert i S = {..<?n}"
      unfolding full by (simp add: p pieces_of_def)
    have "tracks frame T U (insert i S) r1"
      using set1 by (simp add: tracks_def settled_def p)
    with piece(7) set1(3) h(1) complete pieces_of_all [of frame] show ?thesis
      by (auto simp: p split: if_splits)
  qed
  then show "insert i S = {..<?n} \<Longrightarrow> out = Some frame"
    and "insert i S \<noteq> {..<?n} \<Longrightarrow> out = None \<and> tracks frame T U (insert i S) r'" by blast+
qed

section \<open>The run\<close>

text \<open>The fragments of the picture among the packets, by index.\<close>

definition seen :: "byte list \<Rightarrow> u32 \<Rightarrow> packet set \<Rightarrow> nat set" where
  "seen frame T es = {j. j < length (fragment frame) \<and> (\<exists>h payload. (h, payload) \<in> es
     \<and> ph_timestamp h = T \<and> read_fragment payload = Some (fragment frame ! j))}"

lemma fragment_inject:
  assumes "length (fragment frame) < 2 ^ 16" "i < length (fragment frame)" "j < length (fragment frame)"
    and "fragment frame ! i = fragment frame ! j"
  shows "i = j"
proof -
  from assms(4) have "unat (word_of_nat i :: u16) = unat (word_of_nat j :: u16)"
    by (simp add: fragment_nth [OF assms(2)] fragment_nth [OF assms(3)])
  with assms(1-3) show ?thesis by (simp only: unat_of_nat len_num1 len_bit0) simp
qed

definition traffic_ok :: "byte list \<Rightarrow> u32 \<Rightarrow> u32 \<Rightarrow> packet \<Rightarrow> bool" where
  "traffic_ok frame T U e \<longleftrightarrow>
     (if ph_timestamp (fst e) = T
      then \<exists>j < length (fragment frame). read_fragment (snd e) = Some (fragment frame ! j)
      else ph_timestamp (fst e) = U \<or> older T (ph_timestamp (fst e)))"

lemma seen_other: "ph_timestamp h \<noteq> T \<Longrightarrow> seen frame T (insert (h, payload) es) = seen frame T es"
  by (auto simp: seen_def)

lemma seen_own:
  assumes "length (fragment frame) < 2 ^ 16" and "i < length (fragment frame)"
    and "ph_timestamp h = T" and "read_fragment payload = Some (fragment frame ! i)"
  shows "seen frame T (insert (h, payload) es) = insert i (seen frame T es)"
proof (rule set_eqI)
  fix j
  have "j < length (fragment frame) \<and> read_fragment payload = Some (fragment frame ! j) \<longleftrightarrow> j = i"
    using assms(2,4) fragment_inject [OF assms(1,2), of j] by (metis option.inject)
  then show "j \<in> seen frame T (insert (h, payload) es) \<longleftrightarrow> j \<in> insert i (seen frame T es)"
    using assms(3) unfolding seen_def by blast
qed

lemma seen_mono: "es \<subseteq> es' \<Longrightarrow> seen frame T es \<subseteq> seen frame T es'"
  unfolding seen_def by blast

lemma seen_bound: "seen frame T es \<subseteq> {..<length (fragment frame)}"
  by (auto simp: seen_def)

lemma run_tracks:
  assumes near: "unat (U - T) < 2 ^ 30" and n: "length (fragment frame) < 2 ^ 16"
    and ok: "\<forall>e \<in> set es. traffic_ok frame T U e"
    and part: "seen frame T (set es) \<noteq> {..<length (fragment frame)}"
  shows "tracks frame T U (seen frame T (set es)) (fst (snd (feed_all empty_reassembler d es)))
    \<and> (\<forall>k < length es. ph_timestamp (fst (es ! k)) = T \<longrightarrow> fst (feed_all empty_reassembler d es) ! k = None)"
  using ok part
proof (induction es rule: rev_induct)
  case Nil
  then show ?case by (simp add: tracks_def empty_reassembler_def seen_def)
next
  case (snoc e es)
  obtain h payload where e: "e = (h, payload)" by fastforce
  let ?S = "seen frame T (set es)"
  obtain outs r d' where run: "feed_all empty_reassembler d es = (outs, r, d')" by (metis prod_cases3)
  obtain out r' d'' where feed: "feed r d' h payload = (out, r', d'')" by (metis prod_cases3)
  have run': "feed_all empty_reassembler d (es @ [e]) = (outs @ [out], r', d'')"
    by (simp add: feed_all_append run e feed)
  have len: "length outs = length es" using run length_feed_all by (metis fst_conv)
  have inv: "assembler_inv (set es) r" using feed_all_inv [of es d] run by simp
  have part: "?S \<noteq> {..<length (fragment frame)}"
    using snoc.prems(2) seen_bound [of frame T "set (es @ [e])"] seen_mono [of "set es" "set (es @ [e])" frame T]
    by auto
  have IH: "tracks frame T U ?S r"
    "\<forall>k < length es. ph_timestamp (fst (es ! k)) = T \<longrightarrow> outs ! k = None"
    using snoc.IH part snoc.prems(1) run by auto
  have set': "set (es @ [e]) = insert (h, payload) (set es)" by (simp add: e)
  have "tracks frame T U (seen frame T (insert (h, payload) (set es))) r'
      \<and> (ph_timestamp h = T \<longrightarrow> out = None)"
  proof (cases "ph_timestamp h = T")
    case True
    then obtain i where i: "i < length (fragment frame)" "read_fragment payload = Some (fragment frame ! i)"
      using snoc.prems(1) by (auto simp: e traffic_ok_def)
    note own = seen_own [OF n i(1) True i(2), of "set es"]
    have "insert i ?S \<noteq> {..<length (fragment frame)}"
      using snoc.prems(2) unfolding set' own .
    from tracks_own(2) [OF IH(1) near seen_bound n i(1) True i(2) inv feed this]
    show ?thesis by (simp add: own)
  next
    case False
    have "allowed T U (ph_timestamp h)"
      using snoc.prems(1) False by (auto simp: e traffic_ok_def allowed_def)
    from tracks_other [OF IH(1) near this False inv feed] False show ?thesis
      by (simp add: seen_other)
  qed
  then show ?case
    using IH(2) unfolding run' set' by (auto simp: nth_append len e less_Suc_eq)
qed

text \<open>
  Claim C14. A picture completes whatever the order of its fragments: the receiver may get them
  permuted and repeated, between packets of older pictures and of one newer picture, however
  broken those are. The one that was missing returns the picture, byte for byte; no fragment
  before it returns anything. So a picture overtaken by the next one still arrives: two may be in
  the making at a time. The module's description in \<open>recv.rs\<close> has it otherwise, that a picture not
  complete when the next one starts is abandoned; that is so only once a second newer one starts.
\<close>

theorem picture_completes_in_any_order:
  assumes "length (fragment frame) < 2 ^ 16" and "unat (U - T) < 2 ^ 30"
    and "\<forall>e \<in> set es. traffic_ok frame T U e"
    and "i < length (fragment frame)" and "ph_timestamp h = T"
    and "read_fragment payload = Some (fragment frame ! i)"
    and "seen frame T (set es) = {..<length (fragment frame)} - {i}"
  shows "fst (feed_all empty_reassembler d (es @ [(h, payload)])) ! length es = Some frame
    \<and> (\<forall>k < length es. ph_timestamp (fst (es ! k)) = T \<longrightarrow>
         fst (feed_all empty_reassembler d (es @ [(h, payload)])) ! k = None)"
proof -
  obtain outs r d' where run: "feed_all empty_reassembler d es = (outs, r, d')" by (metis prod_cases3)
  obtain out r' d'' where feed: "feed r d' h payload = (out, r', d'')" by (metis prod_cases3)
  have len: "length outs = length es" using run length_feed_all by (metis fst_conv)
  have inv: "assembler_inv (set es) r" using feed_all_inv [of es d] run by simp
  have "seen frame T (set es) \<noteq> {..<length (fragment frame)}" using assms(4,7) by auto
  note tracked = run_tracks [OF assms(2,1,3) this, of d, unfolded run, simplified]
  have "insert i (seen frame T (set es)) = {..<length (fragment frame)}"
    using assms(4,7) by auto
  from tracks_own(1) [OF conjunct1 [OF tracked] assms(2) seen_bound assms(1,4,5,6) inv feed this]
  show ?thesis
    using tracked by (simp add: feed_all_append run feed nth_append len)
qed

text \<open>A picture of two fragments, the second of which arrives first and again.\<close>

definition two_fragments :: "byte list" where
  "two_fragments = replicate 1165 5"

definition screen_header :: "u32 \<Rightarrow> u32 \<Rightarrow> packet_header" where
  "screen_header seq ts = \<lparr>ph_kind = VideoKey, ph_ssrc = 7, ph_seq = seq, ph_timestamp = ts\<rparr>"

lemma two_fragments_eq: "fragment two_fragments = [(0, 2, replicate 1164 5), (1, 2, [5])]"
  by (simp add: fragment_def two_fragments_def Let_def chunks_step)

lemma two_fragments_read:
  "read_fragment (write_fragment 1 2 [5] []) = Some (1, 2, [5])"
  "read_fragment (write_fragment 0 2 (replicate 1164 5) []) = Some (0, 2, replicate 1164 5)"
  by (rule read_write_fragment; simp)+

theorem picture_completes_in_any_order_witness:
  "fst (feed_all empty_reassembler 0
      [(screen_header 2 9, write_fragment 1 2 [5] []), (screen_header 2 9, write_fragment 1 2 [5] []),
       (screen_header 1 9, write_fragment 0 2 (replicate 1164 5) [])]) ! 2 = Some two_fragments"
proof -
  let ?second = "(screen_header 2 9, write_fragment 1 2 [5] [])"
  have ts: "ph_timestamp (screen_header n t) = t" for n t by (simp add: screen_header_def)
  have ok: "\<forall>e \<in> set [?second, ?second]. traffic_ok two_fragments 9 9 e"
    by (auto simp: traffic_ok_def ts two_fragments_eq two_fragments_read intro: exI [of _ 1])
  have "\<And>j. j < 2 \<Longrightarrow> j = 0 \<or> j = (1::nat)" by auto
  then have seen: "seen two_fragments 9 (set [?second, ?second]) = {..<length (fragment two_fragments)} - {0}"
    by (auto simp: seen_def two_fragments_eq two_fragments_read ts less_Suc_eq)
  have bounds: "length (fragment two_fragments) < 2 ^ 16" "unat (9 - 9 :: u32) < 2 ^ 30"
    "0 < length (fragment two_fragments)"
    by (simp_all add: two_fragments_eq)
  have read: "read_fragment (write_fragment 0 2 (replicate 1164 5) []) = Some (fragment two_fragments ! 0)"
    by (simp add: two_fragments_eq two_fragments_read)
  from picture_completes_in_any_order [OF bounds(1,2) ok bounds(3) ts [of 1] read seen, of 0]
  show ?thesis by (simp only: append_Cons append_Nil list.size One_nat_def add_0 add_0_right add_Suc numeral_2_eq_2)
qed

end
