(* ===== verification/Governor.thy ===== *)
theory Governor
  imports Prelude
begin

text \<open>
  The bitrate controller of \<open>crates/boa-client/src/screen/governor.rs\<close>. Its two products are
  of 32-bit floats: a non-negative float is \<open>F32 m k\<close>, the number \<open>m / 2\<^sup>k\<close>, and the result
  of a conversion or a product is rounded to 24 significant bits, ties to even, as the
  hardware does. The numbers here are neither subnormal nor near overflow.
\<close>

section \<open>Floats\<close>

datatype f32 = F32 nat nat

fun bit_len :: "nat \<Rightarrow> nat" where
  "bit_len n = (if n = 0 then 0 else Suc (bit_len (n div 2)))"

declare bit_len.simps [simp del]

definition round24 :: "nat \<Rightarrow> nat" where
  "round24 n =
     (let s = bit_len n - 24;
          q = n div 2 ^ s;
          r = n mod 2 ^ s
      in if 2 * r > 2 ^ s \<or> 2 * r = 2 ^ s \<and> odd q then (q + 1) * 2 ^ s else q * 2 ^ s)"

definition u32_to_f32 :: "u32 \<Rightarrow> f32" where
  "u32_to_f32 w = F32 (round24 (unat w)) 0"

fun f32_mul :: "f32 \<Rightarrow> f32 \<Rightarrow> f32" where
  "f32_mul (F32 a i) (F32 b j) = F32 (round24 (a * b)) (i + j)"

text \<open>\<open>as u32\<close> truncates and saturates.\<close>

fun f32_to_u32 :: "f32 \<Rightarrow> u32" where
  "f32_to_u32 (F32 a k) = word_of_nat (min (2 ^ 32 - 1) (a div 2 ^ k))"

section \<open>The controller\<close>

definition TOO_MUCH :: u32 where "TOO_MUCH = 10"
definition COMFORTABLE :: u32 where "COMFORTABLE = 2"

text \<open>The floats nearest to 0.7 and 0.05.\<close>

definition BACK_OFF :: f32 where "BACK_OFF = F32 11744051 24"
definition CREEP :: f32 where "CREEP = F32 13421773 28"

definition FLOOR :: u32 where "FLOOR = 400"

record governor =
  gv_ceiling :: u32
  gv_target :: u32
  gv_worst :: u32
  gv_keyframe_wanted :: bool

record decision =
  de_kbps :: u32
  de_changed :: bool
  de_keyframe :: bool

definition governor_new :: "u32 \<Rightarrow> governor" where
  "governor_new ceil =
     \<lparr>gv_ceiling = max ceil FLOOR, gv_target = max ceil FLOOR, gv_worst = 0, gv_keyframe_wanted = False\<rparr>"

definition governor_target :: "governor \<Rightarrow> u32" where
  "governor_target g = gv_target g"

definition governor_loss :: "governor \<Rightarrow> u32" where
  "governor_loss g = gv_worst g"

definition saturating_mul :: "u32 \<Rightarrow> u32 \<Rightarrow> u32" where
  "saturating_mul a b = word_of_nat (min (2 ^ 32 - 1) (unat a * unat b))"

text \<open>The sum wraps, as in a release build; a debug build panics where it would.\<close>

definition report :: "governor \<Rightarrow> u32 \<Rightarrow> u32 \<Rightarrow> bool \<Rightarrow> governor" where
  "report g received lost want_keyframe =
     (let sum = received + lost;
          g = (if sum \<ge> 5
               then g\<lparr>gv_worst := max (gv_worst g) (saturating_mul lost 100 div sum)\<rparr>
               else g)
      in g\<lparr>gv_keyframe_wanted := gv_keyframe_wanted g \<or> want_keyframe\<rparr>)"

definition abs_diff :: "u32 \<Rightarrow> u32 \<Rightarrow> u32" where
  "abs_diff a b = (if a < b then b - a else a - b)"

definition decide :: "governor \<Rightarrow> decision \<times> governor" where
  "decide g =
     (let before = gv_target g;
          target =
            (if gv_worst g \<ge> TOO_MUCH
             then max (f32_to_u32 (f32_mul (u32_to_f32 (gv_target g)) BACK_OFF)) FLOOR
             else if gv_worst g \<le> COMFORTABLE
             then min (gv_target g + f32_to_u32 (f32_mul (u32_to_f32 (gv_target g)) CREEP) + 1)
                    (gv_ceiling g)
             else gv_target g);
          changed = (abs_diff before target * 20 > before);
          keyframe = gv_keyframe_wanted g
      in (\<lparr>de_kbps = target, de_changed = changed, de_keyframe = keyframe\<rparr>,
          g\<lparr>gv_target := target, gv_keyframe_wanted := False, gv_worst := 0\<rparr>))"

section \<open>Rounding\<close>

lemma bit_len_0 [simp]: "bit_len 0 = 0"
  by (simp add: bit_len.simps)

lemma bit_len_bounds: "0 < n \<Longrightarrow> 2 ^ (bit_len n - 1) \<le> n \<and> n < 2 ^ bit_len n \<and> 0 < bit_len n"
proof (induction n rule: bit_len.induct)
  case (1 n)
  show ?case
  proof (cases "n div 2 = 0")
    case True
    with "1.prems" have "n = 1" by simp
    then show ?thesis by (simp add: bit_len.simps)
  next
    case False
    with 1 have IH: "2 ^ (bit_len (n div 2) - 1) \<le> n div 2" "n div 2 < 2 ^ bit_len (n div 2)"
      "0 < bit_len (n div 2)" by auto
    then obtain b where b: "bit_len (n div 2) = Suc b" by (cases "bit_len (n div 2)") auto
    have n: "bit_len n = Suc (bit_len (n div 2))" using "1.prems" by (simp add: bit_len.simps [of n])
    have "2 * 2 ^ b \<le> 2 * (n div 2)" using IH(1) b by simp
    moreover have "n div 2 + 1 \<le> 2 ^ Suc b" using IH(2) b by simp
    then have "2 * (n div 2) + 2 \<le> 2 ^ Suc (Suc b)" by simp
    ultimately show ?thesis unfolding n b by auto
  qed
qed

lemma round24_bounds:
  "round24 n * 2 ^ 23 \<le> n * (2 ^ 23 + 1)" "n * (2 ^ 23 - 1) \<le> round24 n * 2 ^ 23"
proof -
  define s where "s = bit_len n - 24"
  define q where "q = n div 2 ^ s"
  define r where "r = n mod 2 ^ s"
  have split: "n = q * 2 ^ s + r" and r: "r < 2 ^ s"
    by (simp only: q_def r_def div_mult_mod_eq) (simp add: r_def)
  have next_q: "(q + 1) * 2 ^ s = q * 2 ^ s + 2 ^ s" by simp
  have "round24 n = q * 2 ^ s + 2 ^ s \<and> s \<noteq> 0 \<or> round24 n = q * 2 ^ s"
    using r unfolding round24_def s_def [symmetric] Let_def q_def [symmetric] r_def [symmetric] next_q
    by (cases "s = 0") auto
  with split r have "round24 n \<le> n + 2 ^ s \<and> n \<le> round24 n + 2 ^ s \<and> (s = 0 \<longrightarrow> round24 n = n)"
    by auto
  moreover have "2 ^ s * 2 ^ 23 \<le> n" if "s \<noteq> 0"
  proof -
    from that have len: "bit_len n - 1 = s + 23" by (simp add: s_def)
    have "0 < n" using that by (cases n) (auto simp: s_def)
    from bit_len_bounds [OF this] show ?thesis unfolding len by (simp add: power_add)
  qed
  ultimately show "round24 n * 2 ^ 23 \<le> n * (2 ^ 23 + 1)" "n * (2 ^ 23 - 1) \<le> round24 n * 2 ^ 23"
    by (cases "s = 0"; simp)+
qed

text \<open>A product with a constant, as integers: the error of two roundings is below \<open>2\<^sup>-\<^sup>21\<close>.\<close>

lemma scaled_upper: "round24 (round24 t * m) * 2 ^ 46 \<le> t * m * (2 ^ 23 + 1) ^ 2"
proof -
  have "round24 (round24 t * m) * 2 ^ 46 = (round24 (round24 t * m) * 2 ^ 23) * 2 ^ 23" by simp
  also have "\<dots> \<le> (round24 t * m * (2 ^ 23 + 1)) * 2 ^ 23"
    by (intro mult_right_mono round24_bounds) simp
  also have "\<dots> = (round24 t * 2 ^ 23) * (m * (2 ^ 23 + 1))" by (simp only: ac_simps)
  also have "\<dots> \<le> (t * (2 ^ 23 + 1)) * (m * (2 ^ 23 + 1))"
    by (intro mult_right_mono round24_bounds) simp
  also have "\<dots> = t * m * (2 ^ 23 + 1) ^ 2" by (simp only: power2_eq_square ac_simps)
  finally show ?thesis .
qed

lemma scaled_lower: "t * m * (2 ^ 23 - 1) ^ 2 \<le> round24 (round24 t * m) * 2 ^ 46"
proof -
  have "t * m * (2 ^ 23 - 1) ^ 2 = (t * (2 ^ 23 - 1)) * (m * (2 ^ 23 - 1))"
    by (simp only: power2_eq_square ac_simps)
  also have "\<dots> \<le> (round24 t * 2 ^ 23) * (m * (2 ^ 23 - 1))"
    by (intro mult_right_mono round24_bounds) simp
  also have "\<dots> = (round24 t * m * (2 ^ 23 - 1)) * 2 ^ 23" by (simp only: ac_simps)
  also have "\<dots> \<le> (round24 (round24 t * m) * 2 ^ 23) * 2 ^ 23"
    by (intro mult_right_mono round24_bounds) simp
  finally show ?thesis by simp
qed

text \<open>Rounding does not fall below a representable number.\<close>

lemma round24_above:
  assumes "y < 2 ^ 24" and "y * 2 ^ k \<le> n"
  shows "y * 2 ^ k \<le> round24 n"
proof -
  define s where "s = bit_len n - 24"
  have q: "n div 2 ^ s * 2 ^ s \<le> round24 n"
    by (auto simp: round24_def s_def [symmetric] Let_def)
  show ?thesis
  proof (cases "s \<le> k")
    case True
    then have pow: "(2::nat) ^ k = 2 ^ (k - s) * 2 ^ s" by (simp add: power_add [symmetric])
    then have "y * 2 ^ (k - s) * 2 ^ s \<le> n" using assms(2) by (simp add: ac_simps)
    then have "y * 2 ^ (k - s) \<le> n div 2 ^ s" by (simp add: less_eq_div_iff_mult_less_eq)
    then have "y * 2 ^ (k - s) * 2 ^ s \<le> n div 2 ^ s * 2 ^ s" by (rule mult_right_mono) simp
    then have "y * 2 ^ k \<le> n div 2 ^ s * 2 ^ s" unfolding pow by (simp only: mult.assoc)
    with q show ?thesis by (rule order_trans [rotated])
  next
    case False
    have "0 < n" using False by (cases n) (auto simp: s_def)
    moreover from False have "bit_len n - 1 = 23 + s" by (simp add: s_def)
    ultimately have "2 ^ (23 + s) \<le> n" using bit_len_bounds [of n] by simp
    then have "2 ^ 23 * 2 ^ s \<le> n" by (simp add: power_add)
    then have "(2::nat) ^ 23 \<le> n div 2 ^ s" by (simp add: less_eq_div_iff_mult_less_eq)
    then have "2 ^ 23 * 2 ^ s \<le> n div 2 ^ s * 2 ^ s" by (rule mult_right_mono) simp
    moreover have "y * 2 ^ k \<le> 2 ^ 24 * 2 ^ k" using assms(1) by (intro mult_right_mono) simp_all
    moreover have "(2::nat) ^ 24 * 2 ^ k \<le> 2 ^ 23 * 2 ^ s"
    proof -
      have "(2::nat) ^ (24 + k) \<le> 2 ^ (23 + s)" using False by (intro power_increasing) simp_all
      then show ?thesis by (simp add: power_add)
    qed
    ultimately show ?thesis using q by linarith
  qed
qed

section \<open>One step down, one step up\<close>

definition step_down :: "u32 \<Rightarrow> u32" where
  "step_down t = f32_to_u32 (f32_mul (u32_to_f32 t) BACK_OFF)"

definition step_up :: "u32 \<Rightarrow> u32" where
  "step_up t = f32_to_u32 (f32_mul (u32_to_f32 t) CREEP)"

lemma step_down_bounds:
  "100 * unat (step_down t) \<le> 71 * unat t" "69 * unat t \<le> 100 * unat (step_down t) + 100"
proof -
  let ?r = "round24 (round24 (unat t) * 11744051)"
  have t: "unat t < 2 ^ 32" using unsigned_less [of t, where ?'a = nat] by simp
  have up: "100 * (?r div 2 ^ 24) \<le> 71 * unat t"
    using scaled_upper [of "unat t" 11744051] by (simp add: power2_eq_square)
  then have "unat (step_down t) = ?r div 2 ^ 24"
    using t by (simp add: step_down_def u32_to_f32_def BACK_OFF_def unat_of_nat)
  moreover have "69 * unat t \<le> 100 * (?r div 2 ^ 24) + 100"
    using scaled_lower [of "unat t" 11744051] by (simp add: power2_eq_square)
  ultimately show "100 * unat (step_down t) \<le> 71 * unat t" "69 * unat t \<le> 100 * unat (step_down t) + 100"
    using up by simp_all
qed

lemma step_up_bounds:
  "19 * unat (step_up t) \<le> unat t" "unat t < 2 ^ 24 \<Longrightarrow> unat t < 20 * (unat (step_up t) + 1)"
proof -
  let ?r = "round24 (round24 (unat t) * 13421773)"
  have t: "unat t < 2 ^ 32" using unsigned_less [of t, where ?'a = nat] by simp
  have up: "19 * (?r div 2 ^ 28) \<le> unat t"
    using scaled_upper [of "unat t" 13421773] by (simp add: power2_eq_square)
  then have eq: "unat (step_up t) = ?r div 2 ^ 28"
    using t by (simp add: step_up_def u32_to_f32_def CREEP_def unat_of_nat)
  with up show "19 * unat (step_up t) \<le> unat t" by simp
  assume small: "unat t < 2 ^ 24"
  have "unat t \<le> round24 (unat t)" using round24_above [of "unat t" 0 "unat t"] small by simp
  have "unat t div 20 * 2 ^ 28 \<le> unat t * 13421773" by simp
  also have "\<dots> \<le> round24 (unat t) * 13421773"
    using \<open>unat t \<le> round24 (unat t)\<close> by (rule mult_right_mono) simp
  finally have "unat t div 20 * 2 ^ 28 \<le> ?r" using small by (intro round24_above) simp_all
  then have "unat t div 20 \<le> unat (step_up t)" unfolding eq by (simp add: less_eq_div_iff_mult_less_eq)
  then show "unat t < 20 * (unat (step_up t) + 1)" by simp
qed

section \<open>The target stays between floor and ceiling\<close>

datatype governor_event = Report u32 u32 bool | Decide

fun governor_step :: "governor \<Rightarrow> governor_event \<Rightarrow> governor" where
  "governor_step g (Report received lost want) = report g received lost want"
| "governor_step g Decide = snd (decide g)"

definition governor_inv :: "u32 \<Rightarrow> governor \<Rightarrow> bool" where
  "governor_inv c g \<longleftrightarrow> gv_ceiling g = c \<and> unat c < 2 ^ 31
     \<and> 400 \<le> unat (gv_target g) \<and> gv_target g \<le> c"

lemma report_fields [simp]:
  "gv_ceiling (report g r l k) = gv_ceiling g" "gv_target (report g r l k) = gv_target g"
  "gv_keyframe_wanted (report g r l k) \<longleftrightarrow> gv_keyframe_wanted g \<or> k"
  by (simp_all add: report_def Let_def)

lemma decide_fields [simp]:
  "gv_ceiling (snd (decide g)) = gv_ceiling g" "gv_worst (snd (decide g)) = 0"
  "\<not> gv_keyframe_wanted (snd (decide g))"
  "de_kbps (fst (decide g)) = gv_target (snd (decide g))"
  "de_keyframe (fst (decide g)) = gv_keyframe_wanted g"
  by (simp_all add: decide_def Let_def)

text \<open>The new target, in numbers that do not wrap.\<close>

lemma decide_target:
  assumes "governor_inv c g"
  shows "unat (gv_target (snd (decide g))) =
    (if 10 \<le> unat (gv_worst g) then max (unat (step_down (gv_target g))) 400
     else if unat (gv_worst g) \<le> 2
     then min (unat (gv_target g) + unat (step_up (gv_target g)) + 1) (unat c)
     else unat (gv_target g))"
proof -
  let ?t = "gv_target g"
  have c: "gv_ceiling g = c" "unat c < 2 ^ 31" and t: "unat ?t \<le> unat c"
    using assms by (auto simp: governor_inv_def word_le_nat_alt)
  have "unat (?t + step_up ?t + 1) = unat ?t + unat (step_up ?t) + 1"
    using step_up_bounds(1) [of ?t] t c(2) by (simp add: unat_word_ariths)
  moreover have "unat (max a b) = max (unat a) (unat b)" "unat (min a b) = min (unat a) (unat b)"
    for a b :: u32
    by (simp_all add: max_def min_def word_le_nat_alt)
  ultimately show ?thesis
    using c by (auto simp: decide_def Let_def step_down_def [symmetric] step_up_def [symmetric]
        TOO_MUCH_def COMFORTABLE_def FLOOR_def word_le_nat_alt)
qed

lemma governor_inv_step: "governor_inv c g \<Longrightarrow> governor_inv c (governor_step g e)"
proof (cases e)
  case Decide
  assume inv: "governor_inv c g"
  note target = decide_target [OF inv]
  from inv have t: "400 \<le> unat (gv_target g)" "unat (gv_target g) \<le> unat c"
    by (auto simp: governor_inv_def word_le_nat_alt)
  then have "400 \<le> unat (gv_target (snd (decide g)))" "unat (gv_target (snd (decide g))) \<le> unat c"
    using step_down_bounds(1) [of "gv_target g"] unfolding target by auto
  with inv Decide show ?thesis by (simp add: governor_inv_def word_le_nat_alt)
qed (simp add: governor_inv_def)

interpretation governor: invariant_machine "governor_inv c" governor_step
  by unfold_locales (rule governor_inv_step)

lemma governor_new_inv:
  "unat ceil < 2 ^ 31 \<Longrightarrow> governor_inv (max ceil FLOOR) (governor_new ceil)"
  by (auto simp: governor_inv_def governor_new_def FLOOR_def max_def word_le_nat_alt)

text \<open>
  Claim C19. At every point of every run the controller's next decision is a rate from the
  floor of 400 to the configured ceiling, and moves the right way: at ten percent loss or more
  down to between 69 and 71 percent of the rate (or the floor), at two percent or less up by at
  most a nineteenth plus one but at least one (or to the ceiling), between them not at all. A
  wanted keyframe is asked for exactly once, the next round starts from no loss, and every
  step up short of the ceiling is reported as a change.
\<close>

theorem governor_decides:
  assumes "unat ceil < 2 ^ 31" and "g = foldl governor_step (governor_new ceil) events"
    and "decide g = (d, g')"
  shows "de_kbps d = gv_target g'
    \<and> 400 \<le> unat (gv_target g') \<and> unat (gv_target g') \<le> max (unat ceil) 400
    \<and> (10 \<le> unat (gv_worst g) \<longrightarrow> unat (gv_target g') = 400
        \<or> 100 * unat (gv_target g') \<le> 71 * unat (gv_target g)
          \<and> 69 * unat (gv_target g) \<le> 100 * unat (gv_target g') + 100)
    \<and> (unat (gv_worst g) \<le> 2 \<longrightarrow> gv_target g' = gv_ceiling g
        \<or> unat (gv_target g) < unat (gv_target g')
          \<and> 19 * (unat (gv_target g') - unat (gv_target g) - 1) \<le> unat (gv_target g)
          \<and> (unat (gv_target g) < 2 ^ 24 \<longrightarrow> de_changed d))
    \<and> (2 < unat (gv_worst g) \<and> unat (gv_worst g) < 10 \<longrightarrow> gv_target g' = gv_target g)
    \<and> de_keyframe d = gv_keyframe_wanted g \<and> \<not> gv_keyframe_wanted g' \<and> gv_worst g' = 0"
proof -
  let ?c = "max ceil FLOOR" and ?t = "gv_target g"
  have inv: "governor_inv ?c g"
    unfolding assms(2) by (rule governor.run_events_keep [OF governor_new_inv [OF assms(1)]])
  have g': "g' = snd (decide g)" and d: "d = fst (decide g)" using assms(3) by simp_all
  note target = decide_target [OF inv, folded g']
  have "governor_inv ?c g'" using governor_inv_step [OF inv, of Decide] by (simp add: g')
  then have bounds: "400 \<le> unat (gv_target g')" "unat (gv_target g') \<le> max (unat ceil) 400"
    by (auto simp: governor_inv_def word_le_nat_alt max_def FLOOR_def split: if_splits)
  have ceil: "gv_ceiling g = ?c" using inv by (simp add: governor_inv_def)
  have changed: "de_changed d \<longleftrightarrow> abs_diff ?t (gv_target g') * 20 > ?t"
    by (simp add: d g' decide_def Let_def)
  have up: "de_changed d" if more: "unat (gv_target g') = unat ?t + unat (step_up ?t) + 1"
    and small: "unat ?t < 2 ^ 24"
  proof -
    have "abs_diff ?t (gv_target g') = gv_target g' - ?t"
      using more by (simp add: abs_diff_def word_less_nat_alt)
    then have diff: "unat (abs_diff ?t (gv_target g')) = unat (step_up ?t) + 1"
      using more by (simp add: unat_sub word_le_nat_alt)
    have "unat (abs_diff ?t (gv_target g') * 20) = (unat (step_up ?t) + 1) * 20"
      using step_up_bounds(1) [of ?t] small diff by (simp add: unat_word_ariths)
    with step_up_bounds(2) [OF small] changed show ?thesis by (simp add: word_less_nat_alt)
  qed
  have same: "gv_target g' = gv_target g" if "2 < unat (gv_worst g)" "unat (gv_worst g) < 10"
    using target that by (simp add: word_unat_eq_iff)
  have "gv_target g' = gv_ceiling g \<or> unat (gv_target g') = unat ?t + unat (step_up ?t) + 1"
    if "unat (gv_worst g) \<le> 2"
    using target that unfolding ceil by (auto simp: word_unat_eq_iff min_def split: if_splits)
  with up step_up_bounds(1) [of ?t]
  have rise: "unat (gv_worst g) \<le> 2 \<longrightarrow> gv_target g' = gv_ceiling g
        \<or> unat (gv_target g) < unat (gv_target g')
          \<and> 19 * (unat (gv_target g') - unat (gv_target g) - 1) \<le> unat (gv_target g)
          \<and> (unat (gv_target g) < 2 ^ 24 \<longrightarrow> de_changed d)" by auto
  have fall: "10 \<le> unat (gv_worst g) \<longrightarrow> unat (gv_target g') = 400
        \<or> 100 * unat (gv_target g') \<le> 71 * unat (gv_target g)
          \<and> 69 * unat (gv_target g) \<le> 100 * unat (gv_target g') + 100"
    using target step_down_bounds [of ?t] by (auto simp: max_def)
  show ?thesis
    using bounds rise fall same by (simp add: d g')
qed

theorem governor_decides_witness:
  "400 \<le> unat (gv_target (snd (decide (governor_step (governor_new 8000) (Report 60 30 True)))))
   \<and> de_keyframe (fst (decide (governor_step (governor_new 8000) (Report 60 30 True))))
   \<and> unat (gv_target (snd (decide (governor_step (governor_new 8000) (Report 60 30 True))))) \<le> 5680"
proof -
  let ?g = "governor_step (governor_new 8000) (Report 60 30 True)"
  have run: "?g = foldl governor_step (governor_new 8000) [Report 60 30 True]" by simp
  have "unat (8000 :: u32) < 2 ^ 31" by simp
  moreover obtain d g' where "decide ?g = (d, g')" by fastforce
  moreover have "gv_worst ?g = 33" "gv_target ?g = 8000"
    by (simp_all add: report_def governor_new_def saturating_mul_def FLOOR_def max_def Let_def)
  ultimately show ?thesis
    using governor_decides [OF _ run, of d g'] by auto
qed

section \<open>It settles\<close>

text \<open>The loss one report amounts to, and a second's reports followed by a decision.\<close>

definition report_loss :: "u32 \<times> u32 \<times> bool \<Rightarrow> nat" where
  "report_loss = (\<lambda>(received, lost, _).
     if received + lost \<ge> 5 then unat (saturating_mul lost 100 div (received + lost)) else 0)"

definition second :: "governor \<Rightarrow> (u32 \<times> u32 \<times> bool) list \<Rightarrow> governor" where
  "second g reports =
     snd (decide (foldl (\<lambda>g (received, lost, want). report g received lost want) g reports))"

lemma reports_worst:
  "unat (gv_worst (foldl (\<lambda>g (r, l, k). report g r l k) g reports)) =
     Max (insert (unat (gv_worst g)) (report_loss ` set reports))
   \<and> gv_target (foldl (\<lambda>g (r, l, k). report g r l k) g reports) = gv_target g
   \<and> gv_ceiling (foldl (\<lambda>g (r, l, k). report g r l k) g reports) = gv_ceiling g"
proof (induction reports arbitrary: g)
  case (Cons e reports)
  obtain r l k where e: "e = (r, l, k)" by (metis prod_cases3)
  have "unat (gv_worst (report g r l k)) = max (unat (gv_worst g)) (report_loss e)"
    by (auto simp: report_def report_loss_def e Let_def max_def word_le_nat_alt)
  moreover have "Max (insert (max a b) S) = Max (insert a (insert b S))" if "finite S" for a b :: nat and S
    using that by (cases "S = {}") (auto simp: max.assoc)
  ultimately show ?case using Cons.IH [of "report g r l k"] by (simp add: e)
qed simp

lemma second_inv: "governor_inv c g \<Longrightarrow> governor_inv c (second g reports)"
proof -
  assume inv: "governor_inv c g"
  have "governor_inv c (foldl (\<lambda>g (r, l, k). report g r l k) g reports)"
    using inv reports_worst [of g reports] by (simp add: governor_inv_def)
  from governor_inv_step [OF this, of Decide] show ?thesis by (simp add: second_def)
qed

lemma second_worst [simp]: "gv_worst (second g reports) = 0"
  by (simp add: second_def)

lemma second_target:
  assumes inv: "governor_inv c g" and "gv_worst g = 0"
  shows "\<forall>r \<in> set reports. report_loss r \<le> 2 \<Longrightarrow>
      min (unat (gv_target g) + 1) (unat c) \<le> unat (gv_target (second g reports))"
    and "\<exists>r \<in> set reports. 10 \<le> report_loss r \<Longrightarrow>
      unat (gv_target (second g reports)) \<le> max (unat (gv_target g) - 1) 400"
proof -
  let ?h = "foldl (\<lambda>g (r, l, k). report g r l k) g reports"
  have w: "unat (gv_worst ?h) = Max (insert 0 (report_loss ` set reports))"
    and t: "gv_target ?h = gv_target g" "gv_ceiling ?h = gv_ceiling g"
    using reports_worst [of g reports] assms(2) by auto
  have "governor_inv c ?h" using inv t by (simp add: governor_inv_def)
  note target = decide_target [OF this, unfolded t]
  have low: "400 \<le> unat (gv_target g)" using inv by (simp add: governor_inv_def)
  show "min (unat (gv_target g) + 1) (unat c) \<le> unat (gv_target (second g reports))"
    if "\<forall>r \<in> set reports. report_loss r \<le> 2"
  proof -
    have "unat (gv_worst ?h) \<le> 2" using that by (auto simp: w)
    then show ?thesis unfolding second_def target by auto
  qed
  show "unat (gv_target (second g reports)) \<le> max (unat (gv_target g) - 1) 400"
    if bad: "\<exists>r \<in> set reports. 10 \<le> report_loss r"
  proof -
    from bad obtain r where "r \<in> set reports" "10 \<le> report_loss r" by blast
    moreover from this(1) have "report_loss r \<le> Max (insert 0 (report_loss ` set reports))"
      by (intro Max_ge) auto
    ultimately have "10 \<le> unat (gv_worst ?h)" unfolding w by linarith
    then show ?thesis
      using step_down_bounds(1) [of "gv_target g"] low unfolding second_def target by auto
  qed
qed

text \<open>
  The controller settles. After as many seconds without loss above two percent as
  there are units between the current rate and the ceiling, the rate is the ceiling; after as many
  seconds with one watcher losing ten percent as there are units down to the floor, it is the
  floor: the worst report of a second decides, whatever the others say and in any order.
\<close>

theorem governor_settles:
  assumes "governor_inv c g" and "gv_worst g = 0"
  shows "((\<forall>reports \<in> set seconds. \<forall>r \<in> set reports. report_loss r \<le> 2)
      \<longrightarrow> unat c \<le> unat (gv_target g) + length seconds
      \<longrightarrow> gv_target (foldl second g seconds) = c)
    \<and> ((\<forall>reports \<in> set seconds. \<exists>r \<in> set reports. 10 \<le> report_loss r)
      \<longrightarrow> unat (gv_target g) \<le> 400 + length seconds
      \<longrightarrow> unat (gv_target (foldl second g seconds)) = 400)"
  using assms
proof (induction seconds arbitrary: g)
  case Nil
  then show ?case by (auto simp: governor_inv_def word_le_nat_alt word_unat_eq_iff)
next
  case (Cons reports seconds)
  note IH = Cons.IH [OF second_inv [OF Cons.prems(1), of reports] second_worst]
  note target = second_target [OF Cons.prems, of reports]
  show ?case
  proof (intro conjI impI)
    assume clean: "\<forall>reports \<in> set (reports # seconds). \<forall>r \<in> set reports. report_loss r \<le> 2"
      and far: "unat c \<le> unat (gv_target g) + length (reports # seconds)"
    have "unat c \<le> unat (gv_target (second g reports)) + length seconds"
      using target(1) clean far by auto
    with IH clean show "gv_target (foldl second g (reports # seconds)) = c" by simp
  next
    assume bad: "\<forall>reports \<in> set (reports # seconds). \<exists>r \<in> set reports. 10 \<le> report_loss r"
      and far: "unat (gv_target g) \<le> 400 + length (reports # seconds)"
    have "unat (gv_target (second g reports)) \<le> 400 + length seconds"
      using target(2) bad far by auto
    with IH bad show "unat (gv_target (foldl second g (reports # seconds))) = 400" by simp
  qed
qed

theorem governor_settles_witness:
  "unat (gv_target (foldl second (governor_new 402) [[(90, 10, True)], [(0, 100, False), (50, 0, False)]])) = 400"
proof -
  have inv: "governor_inv (max 402 FLOOR) (governor_new 402)"
    by (rule governor_new_inv) simp
  have w: "gv_worst (governor_new 402) = 0" "unat (gv_target (governor_new 402)) = 402"
    by (simp_all add: governor_new_def FLOOR_def max_def)
  have "10 \<le> report_loss (90, 10, True)" "10 \<le> report_loss (0, 100, False)"
    by (simp_all add: report_loss_def saturating_mul_def)
  then have "\<forall>reports \<in> set [[(90, 10, True)], [(0, 100, False), (50, 0, False)]].
      \<exists>r \<in> set reports. 10 \<le> report_loss r" by auto
  with conjunct2 [OF governor_settles [OF inv w(1), of "[[(90, 10, True)], [(0, 100, False), (50, 0, False)]]"]] w(2)
  show ?thesis by simp
qed

end
