(* ===== verification/ClientState.thy ===== *)
theory ClientState
  imports Model "HOL-Library.List_Lexorder" "HOL-Library.Product_Lexorder"
begin

text \<open>
  What the client believes about the server, \<open>crates/boa-client/src/state.rs\<close>: the state, the
  one function that changes it on a frame from the server, and the views the interface
  reads. Instants are counts of nanoseconds, and the clock an operation reads is its argument
  \<open>now\<close>; \<open>str::to_lowercase\<close> is the argument \<open>lower\<close>.
\<close>

definition TYPING_TTL :: nat where "TYPING_TTL = 5 * 10 ^ 9"
definition SPEAKING_TTL :: nat where "SPEAKING_TTL = 2 * 10 ^ 9"

record channel_log =
  lg_messages :: "message list"
  lg_complete :: bool
  lg_loading :: bool
  lg_visited :: bool

definition default_log :: channel_log where
  "default_log = \<lparr>lg_messages = [], lg_complete = False, lg_loading = False, lg_visited = False\<rparr>"

record pending =
  pd_nonce :: rstring
  pd_channel :: id
  pd_content :: rstring
  pd_attachment_names :: "rstring list"
  pd_sent_at :: nat

definition is_slow :: "nat \<Rightarrow> pending \<Rightarrow> bool" where
  "is_slow now p \<longleftrightarrow> now - pd_sent_at p > 5 * 10 ^ 9"

record client_state =
  cs_me :: "user option"
  cs_server :: "server_info option"
  cs_users :: "(id, user) hmap"
  cs_channels :: "channel list"
  cs_logs :: "(id, channel_log) hmap"
  cs_pending :: "pending list"
  cs_voice :: "(id, voice_state) hmap"
  cs_speaking :: "(id, nat) hmap"
  cs_typing :: "(id \<times> id, nat) hmap"
  cs_offers :: "(id \<times> file_offer) list"

definition default_state :: client_state where
  "default_state = \<lparr>cs_me = None, cs_server = None, cs_users = [], cs_channels = [], cs_logs = [],
     cs_pending = [], cs_voice = [], cs_speaking = [], cs_typing = [], cs_offers = []\<rparr>"

definition reset :: "client_state \<Rightarrow> client_state" where
  "reset s = default_state"

section \<open>What the interface reads\<close>

definition state_label :: "client_state \<Rightarrow> id \<Rightarrow> rstring" where
  "state_label s i =
     (case hget (cs_users s) i of
        Some u \<Rightarrow> label u
      | None \<Rightarrow> 35 # decimal (unat (id_val i)))"

definition state_channel :: "client_state \<Rightarrow> id \<Rightarrow> channel option" where
  "state_channel s i = find (\<lambda>c. ch_id c = i) (cs_channels s)"

definition log_of :: "client_state \<Rightarrow> id \<Rightarrow> channel_log" where
  "log_of s ch = (case hget (cs_logs s) ch of Some l \<Rightarrow> l | None \<Rightarrow> default_log)"

text \<open>\<open>log_mut\<close>: the entry is created if absent, then changed.\<close>

definition log_mut :: "client_state \<Rightarrow> id \<Rightarrow> (channel_log \<Rightarrow> channel_log) \<Rightarrow> client_state" where
  "log_mut s ch f = s\<lparr>cs_logs := hinsert ch (f (log_of s ch)) (cs_logs s)\<rparr>"

definition first_text_channel :: "client_state \<Rightarrow> id option" where
  "first_text_channel s = map_option ch_id (find (\<lambda>c. ch_kind c = Text) (cs_channels s))"

definition my_voice :: "client_state \<Rightarrow> voice_state option" where
  "my_voice s = Option.bind (cs_me s) (\<lambda>me. hget (cs_voice s) (u_id me))"

definition my_channel :: "client_state \<Rightarrow> id option" where
  "my_channel s = map_option vs_channel (my_voice s)"

definition voice_members :: "(rstring \<Rightarrow> rstring) \<Rightarrow> client_state \<Rightarrow> id \<Rightarrow> voice_state list" where
  "voice_members lower s ch =
     sort_key (\<lambda>v. (lower (state_label s (vs_user v)), vs_user v))
       (filter (\<lambda>v. vs_channel v = ch) (map snd (cs_voice s)))"

definition is_speaking :: "nat \<Rightarrow> client_state \<Rightarrow> id \<Rightarrow> bool" where
  "is_speaking now s u =
     (case hget (cs_speaking s) u of None \<Rightarrow> False | Some at \<Rightarrow> now - at < SPEAKING_TTL)"

definition sharers :: "client_state \<Rightarrow> id \<Rightarrow> (id \<times> screen_share) list" where
  "sharers s ch =
     sort_key fst
       (List.map_filter (\<lambda>v. map_option (\<lambda>share. (vs_user v, share)) (vs_screen v))
          (filter (\<lambda>v. vs_channel v = ch) (map snd (cs_voice s))))"

definition typers :: "nat \<Rightarrow> client_state \<Rightarrow> id \<Rightarrow> id list" where
  "typers now s ch =
     sort (map (\<lambda>((_, u), _). u)
       (filter (\<lambda>((c, u), at). c = ch \<and> Some u \<noteq> map_option u_id (cs_me s) \<and> now - at < TYPING_TTL)
          (cs_typing s)))"

definition expire :: "nat \<Rightarrow> client_state \<Rightarrow> client_state" where
  "expire now s =
     s\<lparr>cs_typing := filter (\<lambda>(_, at). now - at < TYPING_TTL) (cs_typing s),
       cs_speaking := filter (\<lambda>(_, at). now - at < SPEAKING_TTL) (cs_speaking s)\<rparr>"

definition add_pending :: "pending \<Rightarrow> client_state \<Rightarrow> client_state" where
  "add_pending p s = s\<lparr>cs_pending := cs_pending s @ [p]\<rparr>"

definition pending_for :: "client_state \<Rightarrow> id \<Rightarrow> pending list" where
  "pending_for s ch = filter (\<lambda>p. pd_channel p = ch) (cs_pending s)"

section \<open>The log of a channel\<close>

text \<open>
  \<open>binary_search_by_key\<close> on a slice sorted by the key: \<open>Inr at\<close> is \<open>Ok(at)\<close>, the position of
  the key, and \<open>Inl at\<close> is \<open>Err(at)\<close>, the position where it belongs.
\<close>

definition binary_search :: "message list \<Rightarrow> id \<Rightarrow> nat + nat" where
  "binary_search ms k =
     (let at = length (takeWhile (\<lambda>m. msg_id m < k) ms)
      in if at < length ms \<and> msg_id (ms ! at) = k then Inr at else Inl at)"

definition insert_into :: "message list \<Rightarrow> message \<Rightarrow> message list" where
  "insert_into ms m =
     (case binary_search ms (msg_id m) of
        Inr at \<Rightarrow> ms[at := m]
      | Inl at \<Rightarrow> take at ms @ m # drop at ms)"

fun kind_order :: "channel_kind \<Rightarrow> nat" where
  "kind_order Text = 0"
| "kind_order channel_kind.Voice = 1"

text \<open>\<open>State::insert\<close>.\<close>

definition insert_message :: "client_state \<Rightarrow> message \<Rightarrow> client_state" where
  "insert_message s m =
     log_mut s (msg_channel m) (\<lambda>l. l\<lparr>lg_messages := insert_into (lg_messages l) m\<rparr>)"

section \<open>One frame\<close>

text \<open>\<open>collect\<close> into a map: a later entry with the same key replaces an earlier one.\<close>

definition collect_map :: "('k \<times> 'v) list \<Rightarrow> ('k, 'v) hmap" where
  "collect_map kvs = foldl (\<lambda>m (k, v). hinsert k v m) [] kvs"

fun apply_msg :: "nat \<Rightarrow> client_state \<Rightarrow> server_msg \<Rightarrow> client_state" where
  "apply_msg now s (Ready user server users channels voice_states) =
     default_state\<lparr>cs_me := Some user, cs_server := Some server,
       cs_users := collect_map (map (\<lambda>u. (u_id u, u)) users), cs_channels := channels,
       cs_voice := collect_map (map (\<lambda>v. (vs_user v, v)) voice_states),
       cs_logs := cs_logs s, cs_pending := cs_pending s\<rparr>"
| "apply_msg now s (MessageCreate m) =
     (let s = (case msg_nonce m of
                 Some n \<Rightarrow> s\<lparr>cs_pending := filter (\<lambda>p. pd_nonce p \<noteq> n) (cs_pending s)\<rparr>
               | None \<Rightarrow> s)
      in insert_message s m)"
| "apply_msg now s (MessageUpdate m) =
     log_mut s (msg_channel m) (\<lambda>l. l\<lparr>lg_messages :=
       (case binary_search (lg_messages l) (msg_id m) of
          Inr at \<Rightarrow> (lg_messages l)[at := m]
        | Inl at \<Rightarrow> take at (lg_messages l) @ m # drop at (lg_messages l))\<rparr>)"
| "apply_msg now s (MessageDelete ch i) =
     log_mut s ch (\<lambda>l. l\<lparr>lg_messages := filter (\<lambda>m. msg_id m \<noteq> i) (lg_messages l)\<rparr>)"
| "apply_msg now s (server_msg.History ch messages complete) =
     log_mut s ch (\<lambda>l. l\<lparr>lg_loading := False, lg_complete := lg_complete l \<or> complete,
       lg_messages := foldl insert_into (lg_messages l) messages\<rparr>)"
| "apply_msg now s (server_msg.Typing ch user) = s\<lparr>cs_typing := hinsert (ch, user) now (cs_typing s)\<rparr>"
| "apply_msg now s (Presence user online) =
     (case hget (cs_users s) user of
        Some known \<Rightarrow> s\<lparr>cs_users := hinsert user (known\<lparr>u_online := online\<rparr>) (cs_users s)\<rparr>
      | None \<Rightarrow> s)"
| "apply_msg now s (UserUpdate user) = s\<lparr>cs_users := hinsert (u_id user) user (cs_users s)\<rparr>"
| "apply_msg now s (ChannelCreate ch) =
     (if \<not> (\<exists>c \<in> set (cs_channels s). ch_id c = ch_id ch)
      then s\<lparr>cs_channels := sort_key (\<lambda>c. (kind_order (ch_kind c), ch_position c, ch_id c))
                             (cs_channels s @ [ch])\<rparr>
      else s)"
| "apply_msg now s (VoiceState v) = s\<lparr>cs_voice := hinsert (vs_user v) v (cs_voice s)\<rparr>"
| "apply_msg now s (VoiceLeave user ch) =
     (let s = (case hget (cs_voice s) user of
                 Some v \<Rightarrow> if vs_channel v = ch then s\<lparr>cs_voice := hremove user (cs_voice s)\<rparr> else s
               | None \<Rightarrow> s)
      in s\<lparr>cs_speaking := hremove user (cs_speaking s)\<rparr>)"
| "apply_msg now s (server_msg.Speaking user speaking) =
     (if speaking then s\<lparr>cs_speaking := hinsert user now (cs_speaking s)\<rparr>
      else s\<lparr>cs_speaking := hremove user (cs_speaking s)\<rparr>)"
| "apply_msg now s (ScreenStart user share) =
     (case hget (cs_voice s) user of
        Some v \<Rightarrow> s\<lparr>cs_voice := hinsert user (v\<lparr>vs_screen := Some share\<rparr>) (cs_voice s)\<rparr>
      | None \<Rightarrow> s)"
| "apply_msg now s (ScreenStop user) =
     (case hget (cs_voice s) user of
        Some v \<Rightarrow> s\<lparr>cs_voice := hinsert user (v\<lparr>vs_screen := None\<rparr>) (cs_voice s)\<rparr>
      | None \<Rightarrow> s)"
| "apply_msg now s (FileOffer sender offer) =
     s\<lparr>cs_offers := filter (\<lambda>(_, existing). fo_code existing \<noteq> fo_code offer) (cs_offers s)
                     @ [(sender, offer)]\<rparr>"
| "apply_msg now s (FileOfferCancelled sender code) =
     s\<lparr>cs_offers := filter (\<lambda>(who, offer). \<not> (who = sender \<and> fo_code offer = code)) (cs_offers s)\<rparr>"
| "apply_msg now s (VoiceReady ch stream key port) = s"
| "apply_msg now s (AttachmentReady a) = s"
| "apply_msg now s (server_msg.ScreenReport user received lost want) = s"
| "apply_msg now s (Error code txt fatally) = s"
| "apply_msg now s (Pong n) = s"

section \<open>Asking for history\<close>

text \<open>
  \<open>ensure_history\<close> and the \<open>LoadOlder\<close> action of \<open>crates/boa-client/src/ui/mod.rs\<close>: the
  request sent, if any, and the state with the log's flags set.
\<close>

definition ensure_history :: "client_state \<Rightarrow> id \<Rightarrow> client_msg option \<times> client_state" where
  "ensure_history s ch =
     (if lg_visited (log_of s ch) then (None, log_mut s ch (\<lambda>l. l))
      else (Some (client_msg.History ch None 50),
            log_mut s ch (\<lambda>l. l\<lparr>lg_visited := True, lg_loading := True\<rparr>)))"

definition load_older :: "client_state \<Rightarrow> id \<Rightarrow> client_msg option \<times> client_state" where
  "load_older s ch =
     (let before = (case lg_messages (log_of s ch) of [] \<Rightarrow> None | m # _ \<Rightarrow> Some (msg_id m))
      in if lg_loading (log_of s ch) \<or> lg_complete (log_of s ch) then (None, log_mut s ch (\<lambda>l. l))
         else (Some (client_msg.History ch before 50), log_mut s ch (\<lambda>l. l\<lparr>lg_loading := True\<rparr>)))"

end
