(* ===== verification/ClientLog.thy ===== *)
theory ClientLog
  imports ClientState
begin

text \<open>
  The log of a channel as a map from identifiers to messages: the interface \<open>keyed_log\<close> of a
  list kept sorted and unique by a key under insert-or-replace, what follows from it, and its
  interpretation on \<open>insert_into\<close>.
\<close>

definition lookup :: "('m \<Rightarrow> 'k) \<Rightarrow> 'm list \<Rightarrow> 'k \<Rightarrow> 'm option" where
  "lookup key ms k = find (\<lambda>m. key m = k) ms"

lemma lookup_Nil [simp]: "lookup key [] k = None"
  by (simp add: lookup_def)

lemma lookup_Cons [simp]: "lookup key (m # ms) k = (if key m = k then Some m else lookup key ms k)"
  by (simp add: lookup_def)

lemma lookup_append: "lookup key (xs @ ys) k =
    (case lookup key xs k of None \<Rightarrow> lookup key ys k | Some m \<Rightarrow> Some m)"
  by (induction xs) auto

lemma lookup_None: "lookup key ms k = None \<longleftrightarrow> k \<notin> key ` set ms"
  by (induction ms) auto

lemma lookup_key: "lookup key ms k = Some m \<Longrightarrow> key m = k \<and> m \<in> set ms"
  by (induction ms) (auto split: if_splits)

lemma lookup_filter:
  "lookup key (filter (\<lambda>m. key m \<noteq> j) ms) k = (if k = j then None else lookup key ms k)"
  by (induction ms) auto

abbreviation by_key :: "('m \<Rightarrow> 'k::linorder) \<Rightarrow> 'm list \<Rightarrow> bool" where
  "by_key key ms \<equiv> sorted_wrt (\<lambda>a b. key a < key b) ms"

text \<open>A sorted, unique list is determined by what it maps each key to.\<close>

lemma by_key_ext:
  assumes "by_key key xs" "by_key key ys" "\<And>k. lookup key xs k = lookup key ys k"
  shows "xs = ys"
  using assms
proof (induction xs arbitrary: ys)
  case Nil
  show ?case
  proof (cases ys)
    case (Cons y zs)
    with Nil.prems(3) [of "key y"] show ?thesis by simp
  qed simp
next
  case (Cons x xs)
  have mem: "lookup key ys (key x) = Some x" using Cons.prems(3) [of "key x"] by simp
  then obtain y zs where ys: "ys = y # zs" by (cases ys) auto
  have "key y = key x"
  proof (rule ccontr)
    assume ne: "key y \<noteq> key x"
    with mem ys Cons.prems(2) have "key y < key x" by (auto dest: lookup_key)
    moreover have "lookup key (x # xs) (key y) = Some y" using Cons.prems(3) [of "key y"] ys by simp
    with ne Cons.prems(1) have "key x < key y" by (auto dest: lookup_key)
    ultimately show False by simp
  qed
  with mem ys have y: "y = x" by simp
  have "lookup key xs k = lookup key zs k" for k
  proof (cases "k = key x")
    case True
    have "key x \<notin> key ` set xs" "key x \<notin> key ` set zs" using Cons.prems(1,2) ys y by auto
    with True lookup_None show ?thesis by metis
  next
    case False
    with Cons.prems(3) [of k] ys y show ?thesis by simp
  qed
  with Cons.IH [of zs] Cons.prems ys y show ?case by simp
qed

locale keyed_log =
  fixes key :: "'m \<Rightarrow> 'k::linorder" and ins :: "'m list \<Rightarrow> 'm \<Rightarrow> 'm list"
  assumes ins_sorted: "by_key key ms \<Longrightarrow> by_key key (ins ms m)"
    and ins_lookup: "by_key key ms \<Longrightarrow>
      lookup key (ins ms m) k = (if k = key m then Some m else lookup key ms k)"
begin

lemma ins_all_sorted: "by_key key ms \<Longrightarrow> by_key key (foldl ins ms new)"
  by (induction new arbitrary: ms) (simp_all add: ins_sorted)

text \<open>The last message inserted under a key is the one kept.\<close>

lemma ins_all_lookup:
  "by_key key ms \<Longrightarrow> lookup key (foldl ins ms new) k =
     (case lookup key (rev new) k of Some m \<Rightarrow> Some m | None \<Rightarrow> lookup key ms k)"
  by (induction new arbitrary: ms) (auto simp: ins_sorted ins_lookup lookup_append split: option.split)

lemma lookup_distinct:
  "distinct (map key xs) \<Longrightarrow> m \<in> set xs \<Longrightarrow> lookup key xs (key m) = Some m"
  by (induction xs) (auto simp: image_iff)

text \<open>Messages with distinct keys may arrive in any order.\<close>

lemma ins_all_perm:
  assumes "by_key key ms" and "mset new = mset new'" and "distinct (map key new)"
  shows "foldl ins ms new = foldl ins ms new'"
proof (rule by_key_ext)
  show "by_key key (foldl ins ms new)" "by_key key (foldl ins ms new')"
    using assms(1) by (simp_all add: ins_all_sorted)
  have dist: "distinct (map key (rev new))" "distinct (map key (rev new'))"
    using assms(2,3) by (metis distinct_rev rev_map mset_map mset_eq_imp_distinct_iff)+
  have same: "set (rev new) = set (rev new')" using assms(2) by (metis set_mset_mset set_rev)
  have "lookup key (rev new) k = lookup key (rev new') k" for k
  proof (cases "k \<in> key ` set new")
    case True
    then obtain m where m: "m \<in> set (rev new)" "k = key m" by auto
    from m lookup_distinct [OF dist(1) m(1)] lookup_distinct [OF dist(2)] same
    show ?thesis by simp
  next
    case False
    with same have "k \<notin> key ` set (rev new)" "k \<notin> key ` set (rev new')" by auto
    then show ?thesis by (metis lookup_None)
  qed
  then show "lookup key (foldl ins ms new) k = lookup key (foldl ins ms new') k" for k
    using assms(1) by (simp add: ins_all_lookup)
qed

end

section \<open>Binary search and insertion\<close>

lemma by_key_split:
  assumes "by_key msg_id ms"
  obtains xs ys where "ms = xs @ ys" "\<forall>m \<in> set xs. msg_id m < k" "\<forall>m \<in> set ys. k \<le> msg_id m"
    "length (takeWhile (\<lambda>m. msg_id m < k) ms) = length xs"
proof -
  let ?xs = "takeWhile (\<lambda>m. msg_id m < k) ms" and ?ys = "dropWhile (\<lambda>m. msg_id m < k) ms"
  have "k \<le> msg_id m" if "m \<in> set ?ys" for m
  proof (cases ?ys)
    case Nil
    with that show ?thesis by simp
  next
    case (Cons y ys)
    have "by_key msg_id (?xs @ ?ys)" using assms by simp
    then have "by_key msg_id ?ys" unfolding sorted_wrt_append by blast
    moreover have "\<not> msg_id y < k" using Cons hd_dropWhile [of "\<lambda>m. msg_id m < k" ms] by simp
    ultimately show ?thesis using that Cons by auto
  qed
  then show thesis
    by (intro that [of ?xs ?ys]) (auto dest: set_takeWhileD)
qed

lemma insert_into_split:
  assumes "ms = xs @ ys" "\<forall>m \<in> set xs. msg_id m < msg_id new" "\<forall>m \<in> set ys. msg_id new \<le> msg_id m"
    "length (takeWhile (\<lambda>m. msg_id m < msg_id new) ms) = length xs"
  shows "insert_into ms new =
    (case ys of [] \<Rightarrow> xs @ [new]
     | y # zs \<Rightarrow> if msg_id y = msg_id new then xs @ new # zs else xs @ new # ys)"
  using assms by (cases ys) (auto simp: insert_into_def binary_search_def Let_def)

interpretation message_log: keyed_log msg_id insert_into
proof
  show "by_key msg_id (insert_into ms m)" if sorted: "by_key msg_id ms" for ms m
  proof -
    obtain xs ys where s: "ms = xs @ ys" "\<forall>x \<in> set xs. msg_id x < msg_id m" "\<forall>y \<in> set ys. msg_id m \<le> msg_id y"
      "length (takeWhile (\<lambda>x. msg_id x < msg_id m) ms) = length xs"
      by (rule by_key_split [OF sorted])
    have xs: "by_key msg_id xs" and ys: "by_key msg_id ys" and below: "\<forall>x \<in> set xs. \<forall>y \<in> set ys. msg_id x < msg_id y"
      using sorted unfolding s(1) sorted_wrt_append by blast+
    show ?thesis
    proof (cases ys)
      case Nil
      then show ?thesis unfolding insert_into_split [OF s] using xs s(2) by (simp add: sorted_wrt_append)
    next
      case (Cons y zs)
      have above: "msg_id m < msg_id z" if "z \<in> set zs" for z
        using ys s(3) that unfolding Cons by auto
      have "msg_id y = msg_id m \<or> msg_id m < msg_id y" using s(3) Cons by auto
      then show ?thesis
      proof
        assume eq: "msg_id y = msg_id m"
        have "by_key msg_id (xs @ m # zs)"
          using xs ys s(2) below above unfolding Cons sorted_wrt_append by auto
        with eq show ?thesis unfolding insert_into_split [OF s] Cons by simp
      next
        assume lt: "msg_id m < msg_id y"
        then have ne: "msg_id y \<noteq> msg_id m" by simp
        have "by_key msg_id (xs @ m # y # zs)"
          using xs ys s(2) below above lt unfolding Cons sorted_wrt_append by auto
        with ne show ?thesis unfolding insert_into_split [OF s] Cons by simp
      qed
    qed
  qed
  show "lookup msg_id (insert_into ms m) k = (if k = msg_id m then Some m else lookup msg_id ms k)"
    if sorted: "by_key msg_id ms" for ms m k
  proof -
    obtain xs ys where s: "ms = xs @ ys" "\<forall>x \<in> set xs. msg_id x < msg_id m" "\<forall>y \<in> set ys. msg_id m \<le> msg_id y"
      "length (takeWhile (\<lambda>x. msg_id x < msg_id m) ms) = length xs"
      by (rule by_key_split [OF sorted])
    have none: "lookup msg_id xs (msg_id m) = None" using s(2) by (auto simp: lookup_None)
    show ?thesis
      unfolding insert_into_split [OF s] unfolding s(1)
      using none by (cases ys) (simp_all add: lookup_append split: option.split)
  qed
qed

lemma insert_into_member: "m \<in> set (insert_into ms m)"
  by (auto simp: insert_into_def binary_search_def Let_def set_update_memI split: sum.split)

end
