(* ===== verification/ClientProps.thy ===== *)
theory ClientProps
  imports ClientLog
begin

text \<open>
  What the client's state promises: its invariant along every run of frames, logs that do not
  depend on the order or the paging of their messages, and what a reconnect keeps.
\<close>

lemma log_of_mut: "log_of (log_mut s ch f) c = (if c = ch then f (log_of s ch) else log_of s c)"
  by (auto simp: log_of_def log_mut_def hmap_simps)

lemma log_mut_fields [simp]:
  "cs_pending (log_mut s ch f) = cs_pending s" "cs_voice (log_mut s ch f) = cs_voice s"
  "cs_users (log_mut s ch f) = cs_users s" "cs_channels (log_mut s ch f) = cs_channels s"
  "cs_offers (log_mut s ch f) = cs_offers s" "cs_me (log_mut s ch f) = cs_me s"
  "cs_typing (log_mut s ch f) = cs_typing s" "cs_speaking (log_mut s ch f) = cs_speaking s"
  by (simp_all add: log_mut_def)

lemma log_of_update [simp]:
  "log_of (s\<lparr>cs_pending := p\<rparr>) ch = log_of s ch" "log_of (s\<lparr>cs_users := us\<rparr>) ch = log_of s ch"
  "log_of (s\<lparr>cs_voice := v\<rparr>) ch = log_of s ch" "log_of (s\<lparr>cs_channels := cs\<rparr>) ch = log_of s ch"
  "log_of (s\<lparr>cs_offers := os\<rparr>) ch = log_of s ch" "log_of (s\<lparr>cs_speaking := sp\<rparr>) ch = log_of s ch"
  "log_of (s\<lparr>cs_typing := ty\<rparr>) ch = log_of s ch"
  by (simp_all add: log_of_def)

section \<open>The invariant\<close>

definition logs_inv :: "client_state \<Rightarrow> bool" where
  "logs_inv s \<longleftrightarrow> (\<forall>ch. by_key msg_id (lg_messages (log_of s ch)))"

definition roster_inv :: "client_state \<Rightarrow> bool" where
  "roster_inv s \<longleftrightarrow>
     hmap_ok (cs_users s) \<and> hmap_ok (cs_voice s)
   \<and> (\<forall>u x. hget (cs_users s) u = Some x \<longrightarrow> u_id x = u)
   \<and> (\<forall>u v. hget (cs_voice s) u = Some v \<longrightarrow> vs_user v = u)
   \<and> distinct (map (fo_code \<circ> snd) (cs_offers s))"

definition client_inv :: "client_state \<Rightarrow> bool" where
  "client_inv s \<longleftrightarrow> logs_inv s \<and> roster_inv s"

text \<open>
  A channel list without repetitions depends on the server: the client takes over the list of a
  \<open>Ready\<close> as it comes. A frame is plain if it does not bring such a list, or one with no channel twice.
\<close>

fun frame_ok :: "server_msg \<Rightarrow> bool" where
  "frame_ok (Ready user server users channels voice_states) \<longleftrightarrow> distinct (map ch_id channels)"
| "frame_ok _ \<longleftrightarrow> True"

lemma distinct_map_mset: "mset xs = mset ys \<Longrightarrow> distinct (map f xs) \<longleftrightarrow> distinct (map f ys)"
  by (rule mset_eq_imp_distinct_iff) (simp add: mset_map)

lemma collect_map_ok: "hmap_ok (collect_map kvs)"
proof -
  have "hmap_ok m \<Longrightarrow> hmap_ok (foldl (\<lambda>m (k, v). hinsert k v m) m kvs)" for m
    by (induction kvs arbitrary: m) auto
  then show ?thesis by (simp add: collect_map_def)
qed

lemma collect_map_get: "hget (collect_map kvs) k = Some v \<Longrightarrow> (k, v) \<in> set kvs"
proof -
  have "hget (foldl (\<lambda>m (k, v). hinsert k v m) m kvs) k = Some v \<Longrightarrow> (k, v) \<in> set kvs \<or> hget m k = Some v" for m
  proof (induction kvs arbitrary: m)
    case (Cons e kvs)
    obtain a b where e: "e = (a, b)" by fastforce
    from Cons.IH [of "hinsert a b m"] Cons.prems show ?case
      by (auto simp: e hmap_simps split: if_splits)
  qed simp
  then show "hget (collect_map kvs) k = Some v \<Longrightarrow> (k, v) \<in> set kvs"
    by (force simp: collect_map_def)
qed

lemma by_key_filter: "by_key key xs \<Longrightarrow> by_key key (filter P xs)"
  by (rule sorted_wrt_filter)

text \<open>The update frame runs the same insertion as a new message.\<close>

lemma update_is_insert:
  "apply_msg now s (MessageUpdate m) = insert_message s m"
  by (simp add: insert_message_def insert_into_def)

lemma logs_inv_mut:
  assumes "logs_inv s" and "by_key msg_id (lg_messages (log_of s ch)) \<Longrightarrow> by_key msg_id (lg_messages (f (log_of s ch)))"
  shows "logs_inv (log_mut s ch f)"
  using assms by (auto simp: logs_inv_def log_of_mut)

lemma logs_inv_insert: "logs_inv s \<Longrightarrow> logs_inv (insert_message s m)"
  unfolding insert_message_def by (rule logs_inv_mut) (simp_all add: message_log.ins_sorted)

lemma logs_inv_step:
  assumes "logs_inv s" shows "logs_inv (apply_msg now s msg)"
proof (cases msg)
  case (Ready user server users channels voice_states)
  with assms show ?thesis by (simp add: logs_inv_def log_of_def)
next
  case (MessageCreate m)
  have "logs_inv (s\<lparr>cs_pending := p\<rparr>)" for p using assms by (simp add: logs_inv_def)
  with MessageCreate assms show ?thesis by (auto simp: Let_def intro: logs_inv_insert split: option.split)
next
  case (MessageUpdate m)
  with assms show ?thesis unfolding MessageUpdate update_is_insert by (intro logs_inv_insert)
next
  case (MessageDelete ch i)
  with assms show ?thesis by (auto intro!: logs_inv_mut by_key_filter)
next
  case (History ch messages complete)
  with assms show ?thesis by (auto intro!: logs_inv_mut message_log.ins_all_sorted)
qed (use assms in \<open>auto simp: logs_inv_def Let_def split: option.split\<close>)

lemma roster_inv_step:
  assumes "roster_inv s" shows "roster_inv (apply_msg now s msg)"
proof (cases msg)
  case (Ready user server users channels voice_states)
  then show ?thesis
    by (auto simp: roster_inv_def default_state_def collect_map_ok dest: collect_map_get)
next
  case (MessageCreate m)
  with assms show ?thesis
    by (auto simp: roster_inv_def Let_def insert_message_def split: option.split)
next
  case (FileOffer sender offer)
  have "distinct (map (fo_code \<circ> snd) (filter (\<lambda>(_, e). fo_code e \<noteq> fo_code offer) (cs_offers s)))"
    using assms(1) by (simp add: roster_inv_def distinct_map_filter)
  with FileOffer assms(1) show ?thesis by (auto simp: roster_inv_def)
next
  case (FileOfferCancelled sender code)
  with assms(1) show ?thesis by (simp add: roster_inv_def distinct_map_filter)
qed (use assms in \<open>auto simp: roster_inv_def hmap_simps Let_def split: option.split if_splits\<close>)

definition channels_once :: "client_state \<Rightarrow> bool" where
  "channels_once s \<longleftrightarrow> distinct (map ch_id (cs_channels s))"

lemma channels_once_frame:
  assumes "channels_once s" "frame_ok msg" shows "channels_once (apply_msg now s msg)"
proof (cases msg)
  case (Ready user server users channels voice_states)
  with assms(2) show ?thesis by (simp add: channels_once_def)
next
  case (ChannelCreate ch)
  let ?f = "\<lambda>c. (kind_order (ch_kind c), ch_position c, ch_id c)"
  have "distinct (map ch_id (sort_key ?f (cs_channels s @ [ch]))) \<longleftrightarrow> distinct (map ch_id (cs_channels s @ [ch]))"
    by (rule distinct_map_mset) simp
  with ChannelCreate assms(1) show ?thesis by (auto simp: channels_once_def)
qed (use assms in \<open>auto simp: channels_once_def insert_message_def Let_def split: option.split\<close>)

text \<open>
  A run of the client: the frames that arrive, of which \<open>ok\<close> may ask something, and the
  interface's own writes.
\<close>

inductive client_step :: "(server_msg \<Rightarrow> bool) \<Rightarrow> client_state \<Rightarrow> client_state \<Rightarrow> bool" for ok where
  client_frame: "ok msg \<Longrightarrow> client_step ok s (apply_msg now s msg)"
| client_expire: "client_step ok s (expire now s)"
| client_pending: "client_step ok s (add_pending p s)"
| client_reset: "client_step ok s (reset s)"
| client_visit: "client_step ok s (snd (ensure_history s ch))"
| client_older: "client_step ok s (snd (load_older s ch))"

lemma channels_once_step:
  assumes "client_step ok s t" "\<And>m. ok m \<Longrightarrow> frame_ok m" "channels_once s"
  shows "channels_once t"
  using assms(1)
proof cases
  case (client_frame msg now)
  with assms(2,3) show ?thesis by (simp add: channels_once_frame)
qed (use assms(3) in \<open>auto simp: channels_once_def expire_def add_pending_def reset_def default_state_def
      ensure_history_def load_older_def Let_def\<close>)

lemma client_inv_default: "client_inv default_state"
  by (simp add: client_inv_def logs_inv_def roster_inv_def default_state_def log_of_def default_log_def)

lemma client_inv_mut_flags:
  "client_inv s \<Longrightarrow> lg_messages (f (log_of s ch)) = lg_messages (log_of s ch) \<Longrightarrow> client_inv (log_mut s ch f)"
  by (auto simp: client_inv_def roster_inv_def intro: logs_inv_mut)

interpretation client: invariant_system client_inv "client_step ok" for ok
proof
  show "client_inv t" if "client_step ok s t" "client_inv s" for s t
    using that
  proof cases
    case (client_frame msg now)
    with that(2) show ?thesis by (simp add: client_inv_def logs_inv_step roster_inv_step)
  next
    case (client_expire now)
    with that(2) show ?thesis
      by (simp add: client_inv_def roster_inv_def expire_def logs_inv_def)
  next
    case (client_pending p)
    with that(2) show ?thesis
      by (simp add: client_inv_def roster_inv_def add_pending_def logs_inv_def)
  next
    case client_reset
    then show ?thesis using client_inv_default by (simp add: reset_def)
  next
    case (client_visit ch)
    with that(2) show ?thesis by (auto simp: ensure_history_def intro!: client_inv_mut_flags)
  next
    case (client_older ch)
    with that(2) show ?thesis by (auto simp: load_older_def Let_def intro!: client_inv_mut_flags)
  qed
qed

interpretation listing: invariant_system "\<lambda>s. (\<forall>m. ok m \<longrightarrow> frame_ok m) \<longrightarrow> channels_once s" "client_step ok" for ok
  by unfold_locales (blast intro: channels_once_step)

text \<open>
  Claim C21. Whatever frames arrive, in whatever order, interleaved with the interface's own
  writes: every log stays strictly sorted by message identifier, so no message shows twice or
  out of place; no offer code is listed twice; and the roster and the voice map hold each person
  once, under their own identifier. Nor is a channel listed twice, as long as no \<open>Ready\<close> that
  arrives lists one twice: that list is the server's, and is taken over unchecked; a channel that
  is announced later is added only if it is not there.
\<close>

theorem client_state_stays_consistent:
  assumes "(client_step ok)\<^sup>*\<^sup>* default_state s"
  shows "(\<forall>ch. by_key msg_id (lg_messages (log_of s ch)))
    \<and> distinct (map (fo_code \<circ> snd) (cs_offers s))
    \<and> hmap_ok (cs_users s) \<and> hmap_ok (cs_voice s)
    \<and> (\<forall>u x. hget (cs_users s) u = Some x \<longrightarrow> u_id x = u)
    \<and> (\<forall>u v. hget (cs_voice s) u = Some v \<longrightarrow> vs_user v = u)
    \<and> ((\<forall>m. ok m \<longrightarrow> frame_ok m) \<longrightarrow> distinct (map ch_id (cs_channels s)))"
proof -
  have "client_inv s" by (rule client.run_keeps [OF assms client_inv_default])
  moreover have "(\<forall>m. ok m \<longrightarrow> frame_ok m) \<longrightarrow> channels_once s"
    by (rule listing.run_keeps [OF assms]) (simp add: channels_once_def default_state_def)
  ultimately show ?thesis by (simp add: client_inv_def logs_inv_def roster_inv_def channels_once_def)
qed

definition sample_message :: "u64 \<Rightarrow> rstring option \<Rightarrow> message" where
  "sample_message n tag = \<lparr>msg_id = Id n, msg_channel = Id 10, msg_author = Id 1, msg_content = [104],
     msg_created_at = 0, msg_edited_at = None, msg_attachments = [], msg_nonce = tag\<rparr>"

theorem client_state_stays_consistent_witness:
  "by_key msg_id (lg_messages (log_of
     (apply_msg 1 (apply_msg 0 default_state (MessageCreate (sample_message 5 None)))
        (MessageCreate (sample_message 3 None))) (Id 10)))
   \<and> distinct (map ch_id (cs_channels
     (apply_msg 1 (apply_msg 0 default_state (MessageCreate (sample_message 5 None)))
        (MessageCreate (sample_message 3 None)))))"
proof -
  have "client_step frame_ok default_state (apply_msg 0 default_state (MessageCreate (sample_message 5 None)))"
    by (rule client_frame) simp
  moreover have "client_step frame_ok (apply_msg 0 default_state (MessageCreate (sample_message 5 None)))
      (apply_msg 1 (apply_msg 0 default_state (MessageCreate (sample_message 5 None)))
        (MessageCreate (sample_message 3 None)))"
    by (rule client_frame) simp
  ultimately have "(client_step frame_ok)\<^sup>*\<^sup>* default_state (apply_msg 1 (apply_msg 0 default_state
      (MessageCreate (sample_message 5 None))) (MessageCreate (sample_message 3 None)))"
    by (rule rtranclp.rtrancl_into_rtrancl [OF r_into_rtranclp])
  from client_state_stays_consistent [OF this] show ?thesis by blast
qed

section \<open>Messages in any order\<close>

text \<open>The messages a frame brings to a channel's log: a live one, or a page of history.\<close>

fun arrivals :: "id \<Rightarrow> server_msg \<Rightarrow> message list" where
  "arrivals ch (MessageCreate m) = (if msg_channel m = ch then [m] else [])"
| "arrivals ch (server_msg.History c messages complete) = (if c = ch then messages else [])"
| "arrivals ch _ = []"

fun brings_messages :: "server_msg \<Rightarrow> bool" where
  "brings_messages (MessageCreate m) \<longleftrightarrow> True"
| "brings_messages (server_msg.History c messages complete) \<longleftrightarrow> True"
| "brings_messages _ \<longleftrightarrow> False"

lemma arrivals_log:
  assumes "brings_messages msg"
  shows "lg_messages (log_of (apply_msg now s msg) ch) = foldl insert_into (lg_messages (log_of s ch)) (arrivals ch msg)"
  using assms by (cases msg) (auto simp: Let_def insert_message_def log_of_mut split: option.split)

lemma arrivals_run:
  assumes "\<forall>(now, msg) \<in> set frames. brings_messages msg"
  shows "lg_messages (log_of (foldl (\<lambda>s (now, msg). apply_msg now s msg) s frames) ch) =
    foldl insert_into (lg_messages (log_of s ch)) (concat (map (\<lambda>(_, msg). arrivals ch msg) frames))"
  using assms by (induction frames arbitrary: s) (auto simp: arrivals_log)

text \<open>
  Claim C20. Live messages, history pages and the refill after a reconnect may reach a channel
  in any order and cut into pages in any way: two runs of frames that bring the channel the
  same messages, no identifier twice, leave it with the same log, message for message.
\<close>

theorem log_does_not_depend_on_order:
  assumes "client_inv s"
    and "\<forall>(now, msg) \<in> set frames \<union> set frames'. brings_messages msg"
    and "mset (concat (map (\<lambda>(_, msg). arrivals ch msg) frames)) =
         mset (concat (map (\<lambda>(_, msg). arrivals ch msg) frames'))"
    and "distinct (map msg_id (concat (map (\<lambda>(_, msg). arrivals ch msg) frames)))"
  shows "lg_messages (log_of (foldl (\<lambda>s (now, msg). apply_msg now s msg) s frames) ch) =
    lg_messages (log_of (foldl (\<lambda>s (now, msg). apply_msg now s msg) s frames') ch)"
proof -
  have sorted: "by_key msg_id (lg_messages (log_of s ch))"
    using assms(1) by (simp add: client_inv_def logs_inv_def)
  have "\<forall>(now, msg) \<in> set frames. brings_messages msg" "\<forall>(now, msg) \<in> set frames'. brings_messages msg"
    using assms(2) by auto
  then show ?thesis
    by (simp add: arrivals_run message_log.ins_all_perm [OF sorted assms(3,4)])
qed

theorem log_does_not_depend_on_order_witness:
  "lg_messages (log_of (foldl (\<lambda>s (now, msg). apply_msg now s msg) default_state
      [(0, MessageCreate (sample_message 5 None)),
       (1, server_msg.History (Id 10) [sample_message 1 None, sample_message 3 None] True)]) (Id 10))
   = lg_messages (log_of (foldl (\<lambda>s (now, msg). apply_msg now s msg) default_state
      [(0, MessageCreate (sample_message 3 None)), (1, MessageCreate (sample_message 1 None)),
       (2, MessageCreate (sample_message 5 None))]) (Id 10))"
  by (rule log_does_not_depend_on_order [OF client_inv_default]) (auto simp: sample_message_def)

text \<open>
  A sent message shows exactly once after the server confirms it: the frame drops every
  optimistic copy with its nonce and no other, puts the message in its channel's log as the one
  entry with its identifier, and leaves every other message and every other log as it was.
\<close>

theorem confirmed_message_shows_once:
  assumes "client_inv s" and "msg_nonce m = Some n" and "s' = apply_msg now s (MessageCreate m)"
  shows "cs_pending s' = filter (\<lambda>p. pd_nonce p \<noteq> n) (cs_pending s)
    \<and> filter (\<lambda>x. msg_id x = msg_id m) (lg_messages (log_of s' (msg_channel m))) = [m]
    \<and> (\<forall>k. k \<noteq> msg_id m \<longrightarrow> lookup msg_id (lg_messages (log_of s' (msg_channel m))) k
          = lookup msg_id (lg_messages (log_of s (msg_channel m))) k)
    \<and> (\<forall>ch. ch \<noteq> msg_channel m \<longrightarrow> log_of s' ch = log_of s ch)"
proof -
  let ?ms = "lg_messages (log_of s (msg_channel m))"
  have sorted: "by_key msg_id ?ms" using assms(1) by (simp add: client_inv_def logs_inv_def)
  have s': "s' = insert_message (s\<lparr>cs_pending := filter (\<lambda>p. pd_nonce p \<noteq> n) (cs_pending s)\<rparr>) m"
    by (simp add: assms(2,3))
  have log: "lg_messages (log_of s' (msg_channel m)) = insert_into ?ms m"
    by (simp add: s' insert_message_def log_of_mut)
  have once: "filter (\<lambda>x. msg_id x = msg_id m) xs = [m]"
    if "by_key msg_id xs" "lookup msg_id xs (msg_id m) = Some m" for xs
    using that
  proof (induction xs)
    case (Cons x xs)
    have "filter (\<lambda>y. msg_id y = msg_id x) xs = []" using Cons.prems(1) by (auto simp: filter_empty_conv)
    with Cons show ?case by (auto split: if_splits)
  qed simp
  have "filter (\<lambda>x. msg_id x = msg_id m) (insert_into ?ms m) = [m]"
    by (rule once) (simp_all add: message_log.ins_sorted message_log.ins_lookup sorted)
  then show ?thesis
    using message_log.ins_lookup [OF sorted, of m] unfolding log
    by (simp add: s' insert_message_def log_of_mut)
qed

theorem confirmed_message_shows_once_witness:
  "filter (\<lambda>x. msg_id x = Id 5) (lg_messages (log_of
     (apply_msg 0 default_state (MessageCreate (sample_message 5 (Some [110])))) (Id 10)))
   = [sample_message 5 (Some [110])]"
  using confirmed_message_shows_once [OF client_inv_default, of "sample_message 5 (Some [110])" "[110]" _ 0]
  by (simp add: sample_message_def)

text \<open>
  A reconnect replaces the roster, the channels and the calls, and keeps the logs
  and the unconfirmed sends exactly, flags included: a channel visited before is not asked for
  again, so what was said while the connection was down is not fetched, and a log whose page was
  outstanding when the connection dropped stays loading and asks for nothing more.
\<close>

theorem reconnect_keeps_logs:
  assumes "s' = apply_msg now s (Ready user server users channels voice_states)"
  shows "log_of s' ch = log_of s ch \<and> cs_pending s' = cs_pending s
    \<and> cs_me s' = Some user \<and> cs_channels s' = channels
    \<and> cs_speaking s' = [] \<and> cs_typing s' = [] \<and> cs_offers s' = []
    \<and> (\<forall>u. hget (cs_voice s') u \<noteq> None \<longleftrightarrow> (\<exists>v \<in> set voice_states. vs_user v = u))
    \<and> (lg_visited (log_of s ch) \<longrightarrow> fst (ensure_history s' ch) = None)
    \<and> (lg_loading (log_of s ch) \<longrightarrow> fst (load_older s' ch) = None)"
proof -
  have "hget (collect_map kvs) k \<noteq> None \<longleftrightarrow> k \<in> fst ` set kvs" for k :: id and kvs :: "(id \<times> voice_state) list"
  proof -
    have "hget (foldl (\<lambda>m (k, v). hinsert k v m) m kvs) k \<noteq> None \<longleftrightarrow> k \<in> fst ` set kvs \<or> hget m k \<noteq> None" for m
      by (induction kvs arbitrary: m) (auto simp: hmap_simps split: if_splits)
    then show ?thesis by (simp add: collect_map_def)
  qed
  then have "hget (cs_voice s') u \<noteq> None \<longleftrightarrow> (\<exists>v \<in> set voice_states. vs_user v = u)" for u
    unfolding assms by (auto simp: default_state_def image_image)
  moreover have "log_of s' c = log_of s c" for c by (simp add: assms log_of_def)
  ultimately show ?thesis
    by (simp add: assms default_state_def ensure_history_def load_older_def Let_def)
qed

theorem reconnect_keeps_logs_witness:
  "\<forall>user server. fst (ensure_history (apply_msg 1 (snd (ensure_history default_state (Id 10)))
      (Ready user server [] [] [])) (Id 10)) = None"
proof (intro allI)
  fix user server
  let ?s = "snd (ensure_history default_state (Id 10))"
  have "lg_visited (log_of ?s (Id 10))"
    by (auto simp: ensure_history_def log_of_mut)
  with reconnect_keeps_logs [where s = ?s and ch = "Id 10" and now = 1, OF refl, of user server "[]" "[]" "[]"]
  show "fst (ensure_history (apply_msg 1 ?s (Ready user server [] [] [])) (Id 10)) = None" by blast
qed

end
