(* ===== verification/Db.thy ===== *)
theory Db
  imports Model "HOL-Library.List_Lexorder" "HOL-Library.Product_Lexorder"
begin

text \<open>
  The store of \<open>crates/boa-server/src/db.rs\<close>: each table of its schema is a list of rows, each
  method its SQL statements as operations on the tables, with the constraints the schema
  declares. SQLite's choice of a new row identifier is the argument \<open>alloc\<close>, applied to the
  identifiers in use, and \<open>now_millis()\<close> the argument \<open>now\<close>. Failures of the file system
  and of SQLite itself are left out: what can fail here fails by a constraint of the schema.
  Row identifiers are signed 64-bit integers, into which the code casts identifiers.
\<close>

definition HISTORY_MAX :: u16 where "HISTORY_MAX = 200"

section \<open>The tables\<close>

record user_row =
  ur_id :: int
  ur_name :: rstring
  ur_display_name :: rstring
  ur_password_hash :: rstring
  ur_created_at :: millis

record token_row =
  tk_token :: rstring
  tk_user_id :: int
  tk_created_at :: millis
  tk_agent :: rstring

record channel_row =
  cr_id :: int
  cr_name :: rstring
  cr_kind :: rstring
  cr_position :: int
  cr_topic :: rstring
  cr_created_at :: millis

record message_row =
  mr_id :: int
  mr_channel_id :: int
  mr_author_id :: int
  mr_content :: rstring
  mr_created_at :: millis
  mr_edited_at :: "millis option"
  mr_nonce :: "rstring option"

record attachment_row =
  ar_id :: int
  ar_message_id :: "int option"
  ar_uploader_id :: int
  ar_name :: rstring
  ar_size :: int
  ar_content_type :: rstring
  ar_width :: u32
  ar_height :: u32
  ar_sha256 :: rstring
  ar_created_at :: millis
  ar_expires_at :: millis
  ar_blob_deleted :: bool

record db =
  db_users :: "user_row list"
  db_tokens :: "token_row list"
  db_channels :: "channel_row list"
  db_messages :: "message_row list"
  db_attachments :: "attachment_row list"

definition empty_db :: db where
  "empty_db = \<lparr>db_users = [], db_tokens = [], db_channels = [], db_messages = [], db_attachments = []\<rparr>"

datatype db_error = Name_taken | Constraint_violation | Vanished

text \<open>\<open>id.0 as i64\<close> and back.\<close>

definition to_row :: "id \<Rightarrow> int" where
  "to_row i = sint (id_val i)"

definition of_row :: "int \<Rightarrow> id" where
  "of_row r = Id (word_of_int r)"

text \<open>The collation \<open>NOCASE\<close>, which folds the 26 letters of ASCII.\<close>

definition nocase :: "rstring \<Rightarrow> rstring" where
  "nocase s = map (\<lambda>c. if 65 \<le> c \<and> c \<le> 90 then c + 32 else c) s"

section \<open>Users and tokens\<close>

definition row_to_user :: "user_row \<Rightarrow> user" where
  "row_to_user r = \<lparr>u_id = of_row (ur_id r), u_name = ur_name r,
     u_display_name = ur_display_name r, u_online = False\<rparr>"

definition create_user ::
  "(int list \<Rightarrow> int) \<Rightarrow> millis \<Rightarrow> db \<Rightarrow> rstring \<Rightarrow> rstring \<Rightarrow> rstring \<Rightarrow> (db_error + user) \<times> db" where
  "create_user alloc now db name display_name password_hash =
     (if \<exists>r \<in> set (db_users db). nocase (ur_name r) = nocase name then (Inl Name_taken, db)
      else let r = \<lparr>ur_id = alloc (map ur_id (db_users db)), ur_name = name,
                    ur_display_name = display_name, ur_password_hash = password_hash,
                    ur_created_at = now\<rparr>
           in (Inr \<lparr>u_id = of_row (ur_id r), u_name = name, u_display_name = display_name,
                    u_online = False\<rparr>,
               db\<lparr>db_users := db_users db @ [r]\<rparr>))"

definition user_by_name :: "db \<Rightarrow> rstring \<Rightarrow> (user \<times> rstring) option" where
  "user_by_name db name =
     map_option (\<lambda>r. (row_to_user r, ur_password_hash r))
       (find (\<lambda>r. nocase (ur_name r) = nocase name) (db_users db))"

definition user_by_id :: "db \<Rightarrow> id \<Rightarrow> user option" where
  "user_by_id db i = map_option row_to_user (find (\<lambda>r. ur_id r = to_row i) (db_users db))"

definition users :: "db \<Rightarrow> user list" where
  "users db = map row_to_user (sort_key ur_id (db_users db))"

definition set_display_name :: "db \<Rightarrow> id \<Rightarrow> rstring \<Rightarrow> db" where
  "set_display_name db i display_name =
     db\<lparr>db_users := map (\<lambda>r. if ur_id r = to_row i then r\<lparr>ur_display_name := display_name\<rparr> else r)
                     (db_users db)\<rparr>"

definition is_empty :: "db \<Rightarrow> bool" where
  "is_empty db \<longleftrightarrow> length (db_users db) = 0"

definition store_token :: "millis \<Rightarrow> db \<Rightarrow> rstring \<Rightarrow> id \<Rightarrow> rstring \<Rightarrow> (db_error + unit) \<times> db" where
  "store_token now db token user agent =
     (if (\<exists>t \<in> set (db_tokens db). tk_token t = token)
         \<or> \<not> (\<exists>r \<in> set (db_users db). ur_id r = to_row user)
      then (Inl Constraint_violation, db)
      else (Inr (), db\<lparr>db_tokens := db_tokens db @
              [\<lparr>tk_token = token, tk_user_id = to_row user, tk_created_at = now, tk_agent = agent\<rparr>]\<rparr>))"

definition user_for_token :: "db \<Rightarrow> rstring \<Rightarrow> user option" where
  "user_for_token db token =
     (case find (\<lambda>t. tk_token t = token) (db_tokens db) of
        None \<Rightarrow> None
      | Some t \<Rightarrow> map_option row_to_user (find (\<lambda>r. ur_id r = tk_user_id t) (db_users db)))"

definition revoke_token :: "db \<Rightarrow> rstring \<Rightarrow> db" where
  "revoke_token db token = db\<lparr>db_tokens := filter (\<lambda>t. tk_token t \<noteq> token) (db_tokens db)\<rparr>"

section \<open>Channels\<close>

fun kind_str :: "channel_kind \<Rightarrow> rstring" where
  "kind_str Text = str ''text''"
| "kind_str channel_kind.Voice = str ''voice''"

definition parse_kind :: "rstring \<Rightarrow> channel_kind" where
  "parse_kind txt = (if txt = str ''voice'' then channel_kind.Voice else Text)"

text \<open>\<open>as i32\<close>.\<close>

definition as_i32 :: "int \<Rightarrow> int" where
  "as_i32 n = sint (word_of_int n :: 32 word)"

definition create_channel ::
  "(int list \<Rightarrow> int) \<Rightarrow> millis \<Rightarrow> db \<Rightarrow> rstring \<Rightarrow> channel_kind \<Rightarrow> channel \<times> db" where
  "create_channel alloc now db name kind =
     (let positions = map cr_position (filter (\<lambda>c. cr_kind c = kind_str kind) (db_channels db));
          position = (if positions = [] then -1 else Max (set positions)) + 1;
          r = \<lparr>cr_id = alloc (map cr_id (db_channels db)), cr_name = name, cr_kind = kind_str kind,
               cr_position = position, cr_topic = [], cr_created_at = now\<rparr>
      in (\<lparr>ch_id = of_row (cr_id r), ch_name = name, ch_kind = kind, ch_position = as_i32 position,
           ch_topic = []\<rparr>,
          db\<lparr>db_channels := db_channels db @ [r]\<rparr>))"

definition row_to_channel :: "channel_row \<Rightarrow> channel" where
  "row_to_channel r = \<lparr>ch_id = of_row (cr_id r), ch_name = cr_name r, ch_kind = parse_kind (cr_kind r),
     ch_position = cr_position r, ch_topic = cr_topic r\<rparr>"

definition channels :: "db \<Rightarrow> channel list" where
  "channels db = map row_to_channel (sort_key (\<lambda>c. (cr_kind c, cr_position c, cr_id c)) (db_channels db))"

definition channel_by_id :: "db \<Rightarrow> id \<Rightarrow> channel option" where
  "channel_by_id db i = find (\<lambda>c. ch_id c = i) (channels db)"

section \<open>Attachments\<close>

definition row_to_attachment :: "attachment_row \<Rightarrow> attachment" where
  "row_to_attachment r = \<lparr>at_id = of_row (ar_id r), at_name = ar_name r,
     at_size = word_of_int (ar_size r), at_content_type = ar_content_type r,
     at_width = ar_width r, at_height = ar_height r, at_sha256 = ar_sha256 r,
     at_expires_at = ar_expires_at r\<rparr>"

definition attachments_for :: "db \<Rightarrow> id \<Rightarrow> attachment list" where
  "attachments_for db message =
     map row_to_attachment
       (sort_key ar_id (filter (\<lambda>a. ar_message_id a = Some (to_row message)) (db_attachments db)))"

definition insert_attachment ::
  "(int list \<Rightarrow> int) \<Rightarrow> millis \<Rightarrow> db \<Rightarrow> id \<Rightarrow> rstring \<Rightarrow> u64 \<Rightarrow> rstring \<Rightarrow> u32 \<Rightarrow> u32 \<Rightarrow> rstring
    \<Rightarrow> (db_error + attachment) \<times> db" where
  "insert_attachment alloc now db uploader name sz content_type width height sha256 =
     (let expires_at = now + uint ATTACHMENT_TTL_SECS * 1000
      in if \<not> (\<exists>u \<in> set (db_users db). ur_id u = to_row uploader) then (Inl Constraint_violation, db)
         else let r = \<lparr>ar_id = alloc (map ar_id (db_attachments db)), ar_message_id = None,
                       ar_uploader_id = to_row uploader, ar_name = name, ar_size = sint sz,
                       ar_content_type = content_type, ar_width = width, ar_height = height,
                       ar_sha256 = sha256, ar_created_at = now, ar_expires_at = expires_at,
                       ar_blob_deleted = False\<rparr>
              in (Inr \<lparr>at_id = of_row (ar_id r), at_name = name, at_size = sz,
                       at_content_type = content_type, at_width = width, at_height = height,
                       at_sha256 = sha256, at_expires_at = expires_at\<rparr>,
                  db\<lparr>db_attachments := db_attachments db @ [r]\<rparr>))"

definition attachment_by_id :: "db \<Rightarrow> id \<Rightarrow> (attachment \<times> bool) option" where
  "attachment_by_id db i =
     map_option (\<lambda>r. (row_to_attachment r, ar_blob_deleted r))
       (find (\<lambda>r. ar_id r = to_row i) (db_attachments db))"

definition expired_blobs :: "db \<Rightarrow> millis \<Rightarrow> rstring list" where
  "expired_blobs db now =
     remdups (map ar_sha256
       (filter (\<lambda>a. ar_expires_at a \<le> now \<and> \<not> ar_blob_deleted a
                  \<and> ar_sha256 a \<notin> set (map ar_sha256 (filter (\<lambda>b. ar_expires_at b > now) (db_attachments db))))
          (db_attachments db)))"

definition mark_blob_deleted :: "db \<Rightarrow> rstring \<Rightarrow> nat \<times> db" where
  "mark_blob_deleted db sha256 =
     (length (filter (\<lambda>a. ar_sha256 a = sha256) (db_attachments db)),
      db\<lparr>db_attachments := map (\<lambda>a. if ar_sha256 a = sha256 then a\<lparr>ar_blob_deleted := True\<rparr> else a)
                             (db_attachments db)\<rparr>)"

definition orphaned_blobs :: "db \<Rightarrow> rstring list \<Rightarrow> rstring list" where
  "orphaned_blobs db known =
     filter (\<lambda>sha. \<not> (\<exists>a \<in> set (db_attachments db). ar_sha256 a = sha)) known"

section \<open>Messages\<close>

definition row_to_message :: "message_row \<Rightarrow> message" where
  "row_to_message r = \<lparr>msg_id = of_row (mr_id r), msg_channel = of_row (mr_channel_id r),
     msg_author = of_row (mr_author_id r), msg_content = mr_content r,
     msg_created_at = mr_created_at r, msg_edited_at = mr_edited_at r,
     msg_attachments = [], msg_nonce = None\<rparr>"

definition message_by_id :: "db \<Rightarrow> id \<Rightarrow> message option" where
  "message_by_id db i =
     map_option (\<lambda>r. (row_to_message r)\<lparr>msg_attachments := attachments_for db i\<rparr>)
       (find (\<lambda>r. mr_id r = to_row i) (db_messages db))"

text \<open>One claim of the loop: the \<open>UPDATE\<close> that takes an unclaimed upload of the author's.\<close>

definition claim_attachment :: "int \<Rightarrow> id \<Rightarrow> attachment_row list \<Rightarrow> id \<Rightarrow> attachment_row list" where
  "claim_attachment message author rows a =
     map (\<lambda>r. if ar_id r = to_row a \<and> ar_uploader_id r = to_row author \<and> ar_message_id r = None
              then r\<lparr>ar_message_id := Some message\<rparr> else r) rows"

definition db_insert_message ::
  "(int list \<Rightarrow> int) \<Rightarrow> millis \<Rightarrow> db \<Rightarrow> id \<Rightarrow> id \<Rightarrow> rstring \<Rightarrow> rstring option \<Rightarrow> id list
    \<Rightarrow> (db_error + message) \<times> db" where
  "db_insert_message alloc now db channel author content nonc attachments =
     (let existing = (case nonc of
            Some n \<Rightarrow> find (\<lambda>r. mr_author_id r = to_row author \<and> mr_nonce r = Some n) (db_messages db)
          | None \<Rightarrow> None)
      in case existing of
           Some r \<Rightarrow>
             (case message_by_id db (of_row (mr_id r)) of
                Some m \<Rightarrow> (Inr m, db)
              | None \<Rightarrow> (Inl Vanished, db))
         | None \<Rightarrow>
             if \<not> (\<exists>c \<in> set (db_channels db). cr_id c = to_row channel)
                \<or> \<not> (\<exists>u \<in> set (db_users db). ur_id u = to_row author)
             then (Inl Constraint_violation, db)
             else
               let r = \<lparr>mr_id = alloc (map mr_id (db_messages db)), mr_channel_id = to_row channel,
                        mr_author_id = to_row author, mr_content = content, mr_created_at = now,
                        mr_edited_at = None, mr_nonce = nonc\<rparr>;
                   db' = db\<lparr>db_messages := db_messages db @ [r],
                            db_attachments := foldl (claim_attachment (mr_id r) author)
                                                (db_attachments db) attachments\<rparr>
               in case message_by_id db' (of_row (mr_id r)) of
                    Some m \<Rightarrow> (Inr (m\<lparr>msg_nonce := nonc\<rparr>), db')
                  | None \<Rightarrow> (Inl Vanished, db'))"

definition clamp_limit :: "u16 \<Rightarrow> nat" where
  "clamp_limit limit = unat (max 1 (min HISTORY_MAX limit))"

definition history :: "db \<Rightarrow> id \<Rightarrow> id option \<Rightarrow> u16 \<Rightarrow> message list \<times> bool" where
  "history db channel before limit =
     (let limit = clamp_limit limit;
          before = (case before of Some i \<Rightarrow> to_row i | None \<Rightarrow> 2 ^ 63 - 1);
          rows = take (limit + 1) (rev (sort_key mr_id
                   (filter (\<lambda>r. mr_channel_id r = to_row channel \<and> mr_id r < before) (db_messages db))));
          complete = (length rows \<le> limit);
          rows = rev (take limit (map row_to_message rows))
      in (map (\<lambda>m. m\<lparr>msg_attachments := attachments_for db (msg_id m)\<rparr>) rows, complete))"

definition edit_message :: "millis \<Rightarrow> db \<Rightarrow> id \<Rightarrow> id \<Rightarrow> rstring \<Rightarrow> message option \<times> db" where
  "edit_message now db i author content =
     (let mine = (\<lambda>r. mr_id r = to_row i \<and> mr_author_id r = to_row author)
      in if \<not> (\<exists>r \<in> set (db_messages db). mine r) then (None, db)
         else let db' = db\<lparr>db_messages := map (\<lambda>r. if mine r
                             then r\<lparr>mr_content := content, mr_edited_at := Some now\<rparr> else r)
                           (db_messages db)\<rparr>
              in (message_by_id db' i, db'))"

definition delete_message :: "db \<Rightarrow> id \<Rightarrow> id \<Rightarrow> id option \<times> db" where
  "delete_message db i author =
     (case find (\<lambda>r. mr_id r = to_row i \<and> mr_author_id r = to_row author) (db_messages db) of
        None \<Rightarrow> (None, db)
      | Some r \<Rightarrow>
          (Some (of_row (mr_channel_id r)),
           db\<lparr>db_attachments := filter (\<lambda>a. ar_message_id a \<noteq> Some (to_row i)) (db_attachments db),
              db_messages := filter (\<lambda>r. mr_id r \<noteq> to_row i) (db_messages db)\<rparr>))"

end
