(* ===== verification/DbInv.thy ===== *)
theory DbInv
  imports Db
begin

text \<open>
  The invariant of the store (the schema's uniqueness and reference constraints, and who an
  attachment may belong to) and that every method keeps it. A method that inserts a row is
  considered where SQLite found an identifier for it: one in range and above those in use.
\<close>

definition rowid_ok :: "(int list \<Rightarrow> int) \<Rightarrow> int list \<Rightarrow> bool" where
  "rowid_ok alloc ids \<longleftrightarrow> 0 < alloc ids \<and> alloc ids < 2 ^ 63 - 1 \<and> (\<forall>i \<in> set ids. i < alloc ids)"

definition small :: "int \<Rightarrow> bool" where
  "small r \<longleftrightarrow> 0 < r \<and> r < 2 ^ 63 - 1"

lemma to_of_row [simp]: "small r \<Longrightarrow> to_row (of_row r) = r"
  by (simp add: to_row_def of_row_def small_def signed_of_int signed_take_bit_int_eq_self)

lemma of_row_inject: "small r \<Longrightarrow> small s \<Longrightarrow> of_row r = of_row s \<longleftrightarrow> r = s"
  by (metis to_of_row)

lemma of_row_less: "small r \<Longrightarrow> small s \<Longrightarrow> of_row r < of_row s \<longleftrightarrow> r < s"
  by (simp add: of_row_def small_def word_less_def uint_word_of_int)

lemma of_row_le: "small r \<Longrightarrow> small s \<Longrightarrow> of_row r \<le> of_row s \<longleftrightarrow> r \<le> s"
  using of_row_less [of s r] by (simp add: not_less [symmetric])

definition good_ids :: "int list \<Rightarrow> bool" where
  "good_ids ids \<longleftrightarrow> distinct ids \<and> (\<forall>i \<in> set ids. small i)"

definition nonces_unique :: "message_row list \<Rightarrow> bool" where
  "nonces_unique ms \<longleftrightarrow> (\<forall>r \<in> set ms. \<forall>s \<in> set ms. \<forall>n. mr_nonce r = Some n \<longrightarrow> mr_nonce s = Some n
     \<longrightarrow> mr_author_id r = mr_author_id s \<longrightarrow> mr_id r = mr_id s)"

definition refs_ok :: "int list \<Rightarrow> int list \<Rightarrow> bool" where
  "refs_ok refs ids \<longleftrightarrow> set refs \<subseteq> set ids"

text \<open>An attachment on a message was uploaded by the message's author.\<close>

definition owners_ok :: "message_row list \<Rightarrow> attachment_row list \<Rightarrow> bool" where
  "owners_ok ms as \<longleftrightarrow> (\<forall>a \<in> set as. \<forall>m. ar_message_id a = Some m \<longrightarrow>
     (\<exists>r \<in> set ms. mr_id r = m \<and> mr_author_id r = ar_uploader_id a))"

definition db_inv :: "db \<Rightarrow> bool" where
  "db_inv db \<longleftrightarrow>
     good_ids (map ur_id (db_users db)) \<and> good_ids (map cr_id (db_channels db))
   \<and> good_ids (map mr_id (db_messages db)) \<and> good_ids (map ar_id (db_attachments db))
   \<and> distinct (map (nocase \<circ> ur_name) (db_users db)) \<and> distinct (map tk_token (db_tokens db))
   \<and> nonces_unique (db_messages db)
   \<and> refs_ok (map tk_user_id (db_tokens db)) (map ur_id (db_users db))
   \<and> refs_ok (map mr_author_id (db_messages db)) (map ur_id (db_users db))
   \<and> refs_ok (map mr_channel_id (db_messages db)) (map cr_id (db_channels db))
   \<and> refs_ok (map ar_uploader_id (db_attachments db)) (map ur_id (db_users db))
   \<and> owners_ok (db_messages db) (db_attachments db)"

lemma nonces_uniqueD:
  "nonces_unique ms \<Longrightarrow> r \<in> set ms \<Longrightarrow> s \<in> set ms \<Longrightarrow> mr_nonce r = Some n \<Longrightarrow> mr_nonce s = Some n
    \<Longrightarrow> mr_author_id r = mr_author_id s \<Longrightarrow> mr_id r = mr_id s"
  unfolding nonces_unique_def by blast

lemma nonces_uniqueI:
  "(\<And>r s n. r \<in> set ms \<Longrightarrow> s \<in> set ms \<Longrightarrow> mr_nonce r = Some n \<Longrightarrow> mr_nonce s = Some n
    \<Longrightarrow> mr_author_id r = mr_author_id s \<Longrightarrow> mr_id r = mr_id s) \<Longrightarrow> nonces_unique ms"
  unfolding nonces_unique_def by blast

lemma owners_okD:
  "owners_ok ms rows \<Longrightarrow> a \<in> set rows \<Longrightarrow> ar_message_id a = Some m
    \<Longrightarrow> \<exists>r \<in> set ms. mr_id r = m \<and> mr_author_id r = ar_uploader_id a"
  unfolding owners_ok_def by blast

lemma owners_okI:
  "(\<And>a m. a \<in> set rows \<Longrightarrow> ar_message_id a = Some m
    \<Longrightarrow> \<exists>r \<in> set ms. mr_id r = m \<and> mr_author_id r = ar_uploader_id a) \<Longrightarrow> owners_ok ms rows"
  unfolding owners_ok_def by blast

lemma db_invD:
  assumes "db_inv db"
  shows "good_ids (map mr_id (db_messages db))" "good_ids (map ar_id (db_attachments db))"
    "nonces_unique (db_messages db)" "owners_ok (db_messages db) (db_attachments db)"
    "refs_ok (map ar_uploader_id (db_attachments db)) (map ur_id (db_users db))"
  using assms by (simp_all add: db_inv_def)

lemma db_inv_empty: "db_inv empty_db"
  by (simp add: db_inv_def good_ids_def nonces_unique_def refs_ok_def owners_ok_def empty_db_def)

section \<open>One method after the other\<close>

lemma rowid_fresh: "rowid_ok alloc ids \<Longrightarrow> small (alloc ids) \<and> alloc ids \<notin> set ids"
  by (auto simp: rowid_ok_def small_def)

lemma good_ids_snoc: "good_ids ids \<Longrightarrow> rowid_ok alloc ids \<Longrightarrow> good_ids (ids @ [alloc ids])"
  using rowid_fresh [of alloc ids] by (auto simp: good_ids_def)

lemma refs_ok_more: "refs_ok refs ids \<Longrightarrow> refs_ok refs (ids @ extra)"
  by (auto simp: refs_ok_def)

lemma refs_ok_snoc: "refs_ok (refs @ [r]) ids \<longleftrightarrow> refs_ok refs ids \<and> r \<in> set ids"
  by (auto simp: refs_ok_def)

lemma refs_ok_filter: "refs_ok (map f xs) ids \<Longrightarrow> refs_ok (map f (filter P xs)) ids"
  by (auto simp: refs_ok_def)

lemma good_ids_filter: "good_ids (map f xs) \<Longrightarrow> good_ids (map f (filter P xs))"
  by (auto simp: good_ids_def distinct_map_filter)

lemma in_ids: "(\<exists>r \<in> set rs. f r = i) \<longleftrightarrow> i \<in> set (map f rs)"
  by auto

lemma db_inv_create_user:
  assumes "db_inv db" "rowid_ok alloc (map ur_id (db_users db))"
  shows "db_inv (snd (create_user alloc now db name display_name hash))"
proof (cases "\<exists>r \<in> set (db_users db). nocase (ur_name r) = nocase name")
  case True
  with assms(1) show ?thesis by (simp add: create_user_def)
next
  case False
  then have "nocase name \<notin> set (map (nocase \<circ> ur_name) (db_users db))" by auto
  with False assms good_ids_snoc [OF _ assms(2)] show ?thesis
    by (simp add: create_user_def Let_def db_inv_def refs_ok_more del: list.set_map)
qed

lemma map_user_update:
  "map ur_id (map (\<lambda>r. if P r then r\<lparr>ur_display_name := d\<rparr> else r) rs) = map ur_id rs"
  "map (nocase \<circ> ur_name) (map (\<lambda>r. if P r then r\<lparr>ur_display_name := d\<rparr> else r) rs) = map (nocase \<circ> ur_name) rs"
  by (induction rs) auto

lemma db_inv_set_display_name: "db_inv db \<Longrightarrow> db_inv (set_display_name db i d)"
  by (simp add: set_display_name_def db_inv_def map_user_update del: map_map)

lemma db_inv_store_token: "db_inv db \<Longrightarrow> db_inv (snd (store_token now db token u agent))"
  by (simp add: store_token_def db_inv_def refs_ok_snoc in_ids del: list.set_map)

lemma db_inv_revoke_token: "db_inv db \<Longrightarrow> db_inv (revoke_token db token)"
  by (simp add: revoke_token_def db_inv_def distinct_map_filter refs_ok_filter)

lemma db_inv_create_channel:
  assumes "db_inv db" "rowid_ok alloc (map cr_id (db_channels db))"
  shows "db_inv (snd (create_channel alloc now db name kind))"
  using assms good_ids_snoc [OF _ assms(2)]
  by (simp add: create_channel_def Let_def db_inv_def refs_ok_more)

lemma owners_ok_snoc: "owners_ok ms as \<Longrightarrow> ar_message_id a = None \<Longrightarrow> owners_ok ms (as @ [a])"
  unfolding owners_ok_def by auto

lemma db_inv_insert_attachment:
  assumes "db_inv db" "rowid_ok alloc (map ar_id (db_attachments db))"
  shows "db_inv (snd (insert_attachment alloc now db uploader name sz ct w h sha))"
  using assms good_ids_snoc [OF _ assms(2)]
  by (simp add: insert_attachment_def Let_def db_inv_def refs_ok_snoc owners_ok_snoc in_ids del: list.set_map)

lemma map_mark:
  "map ar_id (map (\<lambda>a. if P a then a\<lparr>ar_blob_deleted := True\<rparr> else a) as) = map ar_id as"
  "map ar_uploader_id (map (\<lambda>a. if P a then a\<lparr>ar_blob_deleted := True\<rparr> else a) as) = map ar_uploader_id as"
  "owners_ok ms as \<Longrightarrow> owners_ok ms (map (\<lambda>a. if P a then a\<lparr>ar_blob_deleted := True\<rparr> else a) as)"
  by (induction as) (auto simp: owners_ok_def)

lemma db_inv_mark: "db_inv db \<Longrightarrow> db_inv (snd (mark_blob_deleted db sha))"
  by (simp add: mark_blob_deleted_def db_inv_def map_mark del: map_map)

section \<open>Messages\<close>

lemma claim_attachment_ids [simp]:
  "map ar_id (foldl (claim_attachment m author) rows as) = map ar_id rows"
proof (induction as arbitrary: rows)
  case (Cons a as)
  have "map ar_id (claim_attachment m author rows a) = map ar_id rows"
    by (simp add: claim_attachment_def)
  with Cons show ?case by simp
qed simp

text \<open>What a claiming loop leaves: each row as it was, or one of the author's, newly claimed.\<close>

lemma claimed_rows:
  assumes "a \<in> set (foldl (claim_attachment m author) rows as)"
  shows "\<exists>b \<in> set rows. a = b \<or> (a = b\<lparr>ar_message_id := Some m\<rparr> \<and> ar_message_id b = None
    \<and> ar_uploader_id b = to_row author \<and> ar_id b \<in> to_row ` set as)"
  using assms
proof (induction as arbitrary: rows)
  case (Cons x as)
  from Cons.IH Cons.prems obtain b where b: "b \<in> set (claim_attachment m author rows x)"
    "a = b \<or> (a = b\<lparr>ar_message_id := Some m\<rparr> \<and> ar_message_id b = None
      \<and> ar_uploader_id b = to_row author \<and> ar_id b \<in> to_row ` set as)" by auto
  then show ?case by (auto simp: claim_attachment_def split: if_splits)
qed auto

lemma insert_message_fresh:
  assumes "db_insert_message alloc now db channel author content nonc as = (res, db')"
    and "nonc = None \<or> \<not> (\<exists>r \<in> set (db_messages db). mr_author_id r = to_row author \<and> mr_nonce r = nonc)"
    and "rowid_ok alloc (map mr_id (db_messages db))"
  shows "db' = db \<and> res = Inl Constraint_violation \<or>
    to_row channel \<in> set (map cr_id (db_channels db)) \<and> to_row author \<in> set (map ur_id (db_users db))
    \<and> (let r = \<lparr>mr_id = alloc (map mr_id (db_messages db)), mr_channel_id = to_row channel,
                mr_author_id = to_row author, mr_content = content, mr_created_at = now,
                mr_edited_at = None, mr_nonce = nonc\<rparr>
       in db' = db\<lparr>db_messages := db_messages db @ [r],
                   db_attachments := foldl (claim_attachment (mr_id r) author) (db_attachments db) as\<rparr>
        \<and> res = Inr ((row_to_message r)\<lparr>msg_attachments := attachments_for db' (of_row (mr_id r)), msg_nonce := nonc\<rparr>))"
proof -
  have none: "(case nonc of Some n \<Rightarrow> find (\<lambda>r. mr_author_id r = to_row author \<and> mr_nonce r = Some n) (db_messages db)
      | None \<Rightarrow> None) = None"
    using assms(2) by (auto simp: find_None_iff split: option.split)
  let ?n = "alloc (map mr_id (db_messages db))"
  have fresh: "small ?n" "\<forall>r \<in> set (db_messages db). mr_id r \<noteq> ?n"
    using rowid_fresh [OF assms(3)] by (simp, metis imageI set_map rowid_fresh assms(3))
  have snoc: "find P (rs @ [r]) = Some r" if "\<forall>s \<in> set rs. \<not> P s" "P r" for P rs and r :: message_row
    using that by (induction rs) auto
  have find: "find (\<lambda>r. mr_id r = ?n) (db_messages db @ [r]) = Some r" if "mr_id r = ?n" for r
    using fresh(2) that by (intro snoc) metis+
  show ?thesis
    using assms(1) fresh(1) unfolding db_insert_message_def none in_ids
    by (auto simp: Let_def message_by_id_def find simp del: set_map split: if_splits)
qed

lemma insert_message_again:
  assumes "db_inv db" and "r \<in> set (db_messages db)" and "mr_author_id r = to_row author" and "mr_nonce r = Some n"
  shows "db_insert_message alloc now db channel author content (Some n) as =
    (Inr ((row_to_message r)\<lparr>msg_attachments := attachments_for db (of_row (mr_id r))\<rparr>), db)"
proof -
  have dist: "distinct (map mr_id (db_messages db))" and small: "small (mr_id r)"
    using assms(1,2) by (auto simp: db_inv_def good_ids_def)
  have row: "s = r" if "s \<in> set (db_messages db)" "mr_id s = mr_id r" for s
    using dist that assms(2) by (auto simp: distinct_map inj_on_def)
  have "find (\<lambda>r. mr_author_id r = to_row author \<and> mr_nonce r = Some n) (db_messages db) = Some r"
  proof -
    obtain s where s: "find (\<lambda>r. mr_author_id r = to_row author \<and> mr_nonce r = Some n) (db_messages db) = Some s"
      using assms(2-4) by (cases "find (\<lambda>r. mr_author_id r = to_row author \<and> mr_nonce r = Some n) (db_messages db)")
        (auto simp: find_None_iff)
    then have "s \<in> set (db_messages db)" "mr_author_id s = to_row author" "mr_nonce s = Some n"
      by (auto simp: find_Some_iff)
    with assms have "mr_id s = mr_id r" by (metis nonces_uniqueD db_invD(3))
    with row s \<open>s \<in> set (db_messages db)\<close> show ?thesis by blast
  qed
  moreover have "find (\<lambda>s. mr_id s = mr_id r) (db_messages db) = Some r"
  proof -
    obtain s where s: "find (\<lambda>s. mr_id s = mr_id r) (db_messages db) = Some s"
      using assms(2) by (cases "find (\<lambda>s. mr_id s = mr_id r) (db_messages db)") (auto simp: find_None_iff)
    then have "s \<in> set (db_messages db)" "mr_id s = mr_id r" by (auto simp: find_Some_iff)
    with row s show ?thesis by blast
  qed
  ultimately show ?thesis
    by (simp add: db_insert_message_def message_by_id_def small)
qed

lemma db_inv_insert_message:
  assumes inv: "db_inv db" and rowid: "rowid_ok alloc (map mr_id (db_messages db))"
    and ins: "db_insert_message alloc now db channel author content nonc as = (res, db')"
  shows "db_inv db'"
proof (cases "nonc = None \<or> \<not> (\<exists>r \<in> set (db_messages db). mr_author_id r = to_row author \<and> mr_nonce r = nonc)")
  case False
  then obtain n r where "nonc = Some n" "r \<in> set (db_messages db)" "mr_author_id r = to_row author" "mr_nonce r = Some n"
    by (cases nonc) auto
  with insert_message_again [OF inv this(2-4)] ins inv show ?thesis by simp
next
  case True
  let ?n = "alloc (map mr_id (db_messages db))"
  define r where "r = \<lparr>mr_id = ?n, mr_channel_id = to_row channel,
                mr_author_id = to_row author, mr_content = content, mr_created_at = now,
                mr_edited_at = None, mr_nonce = nonc\<rparr>"
  let ?as = "foldl (claim_attachment ?n author) (db_attachments db) as"
  consider "db' = db" | "to_row channel \<in> set (map cr_id (db_channels db))" "to_row author \<in> set (map ur_id (db_users db))"
      "db' = db\<lparr>db_messages := db_messages db @ [r], db_attachments := ?as\<rparr>"
    using insert_message_fresh [OF ins True rowid] unfolding Let_def r_def by auto
  then show ?thesis
  proof cases
    case 2
    have ids: "good_ids (map mr_id (db_messages db @ [r]))"
      using good_ids_snoc [OF _ rowid] inv by (simp add: db_inv_def r_def)
    have new: "mr_author_id r = to_row author" "mr_nonce r = nonc" by (simp_all add: r_def)
    have uniq: "nonces_unique (db_messages db @ [r])"
    proof (rule nonces_uniqueI)
      fix a b n assume ab: "a \<in> set (db_messages db @ [r])" "b \<in> set (db_messages db @ [r])"
        "mr_nonce a = Some n" "mr_nonce b = Some n" "mr_author_id a = mr_author_id b"
      have old: False if "x \<in> set (db_messages db)" "mr_author_id x = mr_author_id r" "mr_nonce x = Some n" "mr_nonce r = Some n" for x
        using True that new by (metis option.distinct(1))
      from ab consider "a = b" | "a \<in> set (db_messages db)" "b \<in> set (db_messages db)"
        | "a \<in> set (db_messages db)" "b = r" | "b \<in> set (db_messages db)" "a = r" by fastforce
      then show "mr_id a = mr_id b"
        by cases (use ab old nonces_uniqueD [OF db_invD(3) [OF inv]] in metis)+
    qed
    have same: "ar_uploader_id ` set ?as \<subseteq> ar_uploader_id ` set (db_attachments db)"
      by (force dest: claimed_rows)
    have own: "owners_ok (db_messages db @ [r]) ?as"
    proof (rule owners_okI)
      fix a m assume a: "a \<in> set ?as" "ar_message_id a = Some m"
      from claimed_rows [OF a(1)] obtain b where b: "b \<in> set (db_attachments db)"
        "a = b \<or> (a = b\<lparr>ar_message_id := Some ?n\<rparr> \<and> ar_uploader_id b = to_row author)" by blast
      then show "\<exists>r' \<in> set (db_messages db @ [r]). mr_id r' = m \<and> mr_author_id r' = ar_uploader_id a"
      proof (elim disjE conjE)
        assume "a = b"
        with owners_okD [OF db_invD(4) [OF inv] b(1)] a(2) show ?thesis by auto
      next
        assume "a = b\<lparr>ar_message_id := Some ?n\<rparr>" "ar_uploader_id b = to_row author"
        with a(2) show ?thesis by (auto simp: r_def)
      qed
    qed
    have refs: "refs_ok (map ar_uploader_id ?as) (map ur_id (db_users db))"
      using subset_trans [OF same] db_invD(5) [OF inv] by (simp add: refs_ok_def)
    have msgs: "refs_ok (map mr_author_id (db_messages db @ [r])) (map ur_id (db_users db))"
      "refs_ok (map mr_channel_id (db_messages db @ [r])) (map cr_id (db_channels db))"
      using inv 2(1,2) by (simp_all add: db_inv_def refs_ok_snoc r_def del: list.set_map)
    show ?thesis
      using inv ids uniq own refs msgs unfolding 2(3) by (simp add: db_inv_def del: map_append)
  qed (use inv in simp)
qed

lemma map_edit:
  "map mr_id (map (\<lambda>r. if P r then r\<lparr>mr_content := c, mr_edited_at := e\<rparr> else r) ms) = map mr_id ms"
  "map mr_author_id (map (\<lambda>r. if P r then r\<lparr>mr_content := c, mr_edited_at := e\<rparr> else r) ms) = map mr_author_id ms"
  "map mr_channel_id (map (\<lambda>r. if P r then r\<lparr>mr_content := c, mr_edited_at := e\<rparr> else r) ms) = map mr_channel_id ms"
  by (induction ms) auto

lemma db_inv_edit_message: "db_inv db \<Longrightarrow> db_inv (snd (edit_message now db i author content))"
proof -
  assume inv: "db_inv db"
  let ?f = "\<lambda>r. if mr_id r = to_row i \<and> mr_author_id r = to_row author
      then r\<lparr>mr_content := content, mr_edited_at := Some now\<rparr> else r"
  have keeps: "mr_id (?f r) = mr_id r" "mr_author_id (?f r) = mr_author_id r" "mr_nonce (?f r) = mr_nonce r"
    for r by simp_all
  have "nonces_unique (map ?f (db_messages db))"
  proof (rule nonces_uniqueI)
    fix r s n assume *: "r \<in> set (map ?f (db_messages db))" "s \<in> set (map ?f (db_messages db))"
      "mr_nonce r = Some n" "mr_nonce s = Some n" "mr_author_id r = mr_author_id s"
    obtain r' s' where rs: "r = ?f r'" "r' \<in> set (db_messages db)" "s = ?f s'" "s' \<in> set (db_messages db)"
      using *(1,2) unfolding set_map by blast
    show "mr_id r = mr_id s"
      using nonces_uniqueD [OF db_invD(3) [OF inv] rs(2,4)] *(3-5) unfolding rs(1,3) keeps by blast
  qed
  moreover have "owners_ok (map ?f (db_messages db)) (db_attachments db)"
  proof (rule owners_okI)
    fix a m assume "a \<in> set (db_attachments db)" "ar_message_id a = Some m"
    then obtain r where "r \<in> set (db_messages db)" "mr_id r = m" "mr_author_id r = ar_uploader_id a"
      using owners_okD [OF db_invD(4) [OF inv]] by blast
    moreover from this have "?f r \<in> set (map ?f (db_messages db))" unfolding set_map by (intro imageI)
    ultimately show "\<exists>r \<in> set (map ?f (db_messages db)). mr_id r = m \<and> mr_author_id r = ar_uploader_id a"
      using keeps [of r] by (intro bexI [where x = "?f r"]) simp_all
  qed
  ultimately show ?thesis
    using inv by (simp add: edit_message_def Let_def db_inv_def map_edit del: map_map)
qed

lemma db_inv_delete_message: "db_inv db \<Longrightarrow> db_inv (snd (delete_message db i author))"
proof -
  assume inv: "db_inv db"
  let ?ms = "filter (\<lambda>r. mr_id r \<noteq> to_row i) (db_messages db)"
  let ?as = "filter (\<lambda>a. ar_message_id a \<noteq> Some (to_row i)) (db_attachments db)"
  have "nonces_unique ?ms"
    using nonces_uniqueD [OF db_invD(3) [OF inv]] by (intro nonces_uniqueI) (metis filter_is_subset subsetD)
  moreover have "owners_ok ?ms ?as"
  proof (rule owners_okI)
    fix a m assume a: "a \<in> set ?as" "ar_message_id a = Some m"
    then obtain r where "r \<in> set (db_messages db)" "mr_id r = m" "mr_author_id r = ar_uploader_id a"
      using owners_okD [OF db_invD(4) [OF inv]] by (metis filter_is_subset subsetD)
    moreover have "m \<noteq> to_row i" using a by simp
    ultimately show "\<exists>r \<in> set ?ms. mr_id r = m \<and> mr_author_id r = ar_uploader_id a" by auto
  qed
  moreover note inv
  ultimately show ?thesis
    by (auto simp: delete_message_def db_inv_def good_ids_filter refs_ok_filter split: option.split)
qed

section \<open>Runs\<close>

inductive db_step :: "db \<Rightarrow> db \<Rightarrow> bool" where
  db_create_user: "rowid_ok alloc (map ur_id (db_users db)) \<Longrightarrow>
    db_step db (snd (create_user alloc now db name display_name hash))"
| db_set_display_name: "db_step db (set_display_name db i display_name)"
| db_store_token: "db_step db (snd (store_token now db token u agent))"
| db_revoke_token: "db_step db (revoke_token db token)"
| db_create_channel: "rowid_ok alloc (map cr_id (db_channels db)) \<Longrightarrow>
    db_step db (snd (create_channel alloc now db name kind))"
| db_insert_attachment: "rowid_ok alloc (map ar_id (db_attachments db)) \<Longrightarrow>
    db_step db (snd (insert_attachment alloc now db uploader name sz ct w h sha))"
| db_mark: "db_step db (snd (mark_blob_deleted db sha))"
| db_send: "rowid_ok alloc (map mr_id (db_messages db)) \<Longrightarrow>
    db_step db (snd (db_insert_message alloc now db channel author content nonc as))"
| db_edit: "db_step db (snd (edit_message now db i author content))"
| db_delete: "db_step db (snd (delete_message db i author))"

lemma db_inv_step: "db_step db db' \<Longrightarrow> db_inv db \<Longrightarrow> db_inv db'"
proof (induction rule: db_step.induct)
  case (db_send alloc db now channel author content nonc as)
  then show ?case using db_inv_insert_message by (metis prod.collapse)
qed (simp_all add: db_inv_create_user db_inv_set_display_name db_inv_store_token db_inv_revoke_token
    db_inv_create_channel db_inv_insert_attachment db_inv_mark db_inv_edit_message db_inv_delete_message)

interpretation store: invariant_system db_inv db_step
  by unfold_locales (rule db_inv_step)

end
