(* ===== verification/DbProps.thy ===== *)
theory DbProps
  imports DbInv
begin

text \<open>
  What the store promises its callers: it stays consistent, a resent message is not stored
  twice, and a message takes the uploads its author may attach and no others.
\<close>

lemma find_unique:
  assumes "distinct (map f xs)" "x \<in> set xs"
  shows "find (\<lambda>y. f y = f x) xs = Some x"
  using assms by (induction xs) (auto simp: image_iff)

lemma good_ids_distinct [simp]: "good_ids ids \<Longrightarrow> distinct ids"
  by (simp add: good_ids_def)

lemma good_ids_small: "good_ids (map f xs) \<Longrightarrow> x \<in> set xs \<Longrightarrow> small (f x)"
  by (auto simp: good_ids_def)

section \<open>Two concrete stores\<close>

definition next_row :: "int list \<Rightarrow> int" where
  "next_row ids = foldr max ids 0 + 1"

text \<open>One user, one channel and an upload of theirs; then a message of theirs with the upload.\<close>

definition sample_db :: db where
  "sample_db =
     (let db1 = snd (create_user next_row 5 empty_db [97] [65] []);
          db2 = snd (create_channel next_row 6 db1 [103] Text)
      in snd (insert_attachment next_row 7 db2 (Id 1) [98] 9 [] 1 1 [99]))"

definition sample_sent :: "(db_error + message) \<times> db" where
  "sample_sent = db_insert_message next_row 8 sample_db (Id 1) (Id 1) [104] (Some [110]) [Id 1]"

lemmas sample_simps = sample_db_def sample_sent_def next_row_def empty_db_def create_user_def
  create_channel_def insert_attachment_def Let_def to_row_def of_row_def ATTACHMENT_TTL_SECS_def
  as_i32_def db_insert_message_def message_by_id_def attachments_for_def row_to_message_def
  row_to_attachment_def claim_attachment_def

lemma sample_inv: "db_inv sample_db"
  by (simp add: sample_simps db_inv_def good_ids_def small_def nonces_unique_def refs_ok_def owners_ok_def)

lemma sample_rowid: "rowid_ok next_row (map mr_id (db_messages sample_db))"
  by (simp add: sample_simps rowid_ok_def)

section \<open>Consistency\<close>

text \<open>
  Claim C30. The store is consistent after every sequence of its operations: identifiers and
  login names are unique, up to the case of letters, no author has two messages with one nonce,
  every token, message and attachment names users and channels that exist, and an attachment is
  on a message only if the author of the message uploaded it.
\<close>

theorem store_stays_consistent:
  assumes "db_step\<^sup>*\<^sup>* empty_db db"
  shows "db_inv db"
  using store.run_keeps [OF assms db_inv_empty] .

lemma sample_run: "db_step\<^sup>*\<^sup>* empty_db sample_db"
proof -
  let ?db1 = "snd (create_user next_row 5 empty_db [97] [65] [])"
  let ?db2 = "snd (create_channel next_row 6 ?db1 [103] Text)"
  have 1: "db_step empty_db ?db1"
    by (rule db_create_user) (simp add: rowid_ok_def next_row_def empty_db_def)
  have 2: "db_step ?db1 ?db2"
    by (rule db_create_channel) (simp add: rowid_ok_def sample_simps)
  have 3: "db_step ?db2 (snd (insert_attachment next_row 7 ?db2 (Id 1) [98] 9 [] 1 1 [99]))"
    by (rule db_insert_attachment) (simp add: rowid_ok_def sample_simps)
  show ?thesis
    unfolding sample_db_def Let_def
    using 1 2 3 by (blast intro: rtranclp.rtrancl_into_rtrancl)
qed

theorem store_stays_consistent_witness: "db_inv sample_db \<and> length (db_attachments sample_db) = 1"
  using store_stays_consistent [OF sample_run] by (simp add: sample_simps)

section \<open>Sending again\<close>

text \<open>
  Claim C27. Sending a message again is harmless: once a message with a nonce is stored, and
  as long as it is there, its author sending anything with that nonce gets the stored message
  back, and the store is left as it is. What comes back is what the store holds under the
  identifier of the first answer at that moment, whatever the repeated request says: the stored
  channel, content, times and uploads, but not the nonce.
\<close>

theorem resend_returns_the_stored_message:
  assumes "db_inv db" "rowid_ok alloc (map mr_id (db_messages db))"
    and "db_insert_message alloc now db ch author content (Some n) ups = (Inr m, db1)"
    and "db_step\<^sup>*\<^sup>* db1 db2"
    and "r \<in> set (db_messages db2)" "mr_id r = to_row (msg_id m)" "mr_author_id r = to_row author" "mr_nonce r = Some n"
  shows "db_insert_message alloc' now' db2 ch' author content' (Some n) ups' =
    (Inr \<lparr>msg_id = msg_id m, msg_channel = of_row (mr_channel_id r), msg_author = author, msg_content = mr_content r,
        msg_created_at = mr_created_at r, msg_edited_at = mr_edited_at r,
        msg_attachments = map row_to_attachment
          (sort_key ar_id (filter (\<lambda>a. ar_message_id a = Some (mr_id r)) (db_attachments db2))),
        msg_nonce = None\<rparr>, db2)"
proof -
  have inv: "db_inv db2"
    using store.run_keeps [OF assms(4)] db_inv_insert_message [OF assms(1-3)] by blast
  have "of_row (mr_id r) = msg_id m" "of_row (mr_author_id r) = author"
    using assms(6,7) by (simp_all add: of_row_def to_row_def id.expand)
  with insert_message_again [OF inv assms(5,7,8)] assms(6) show ?thesis
    by (simp add: row_to_message_def attachments_for_def)
qed

lemma sample_sent_eq: "db_insert_message next_row 8 sample_db (Id 1) (Id 1) [104] (Some [110]) [Id 1] =
    (Inr \<lparr>msg_id = Id 1, msg_channel = Id 1, msg_author = Id 1, msg_content = [104], msg_created_at = 8,
       msg_edited_at = None,
       msg_attachments = [\<lparr>at_id = Id 1, at_name = [98], at_size = 9, at_content_type = [],
         at_width = 1, at_height = 1, at_sha256 = [99], at_expires_at = 259200007\<rparr>],
       msg_nonce = Some [110]\<rparr>, snd sample_sent)"
  by (simp add: sample_simps)

theorem resend_returns_the_stored_message_witness:
  "db_insert_message next_row 9 (snd sample_sent) (Id 5) (Id 1) [105] (Some [110]) [] =
    (Inr \<lparr>msg_id = Id 1, msg_channel = Id 1, msg_author = Id 1, msg_content = [104], msg_created_at = 8,
       msg_edited_at = None,
       msg_attachments = [\<lparr>at_id = Id 1, at_name = [98], at_size = 9, at_content_type = [],
         at_width = 1, at_height = 1, at_sha256 = [99], at_expires_at = 259200007\<rparr>],
       msg_nonce = None\<rparr>, snd sample_sent)"
  using resend_returns_the_stored_message [OF sample_inv sample_rowid sample_sent_eq rtranclp.rtrancl_refl,
      where r = "\<lparr>mr_id = 1, mr_channel_id = 1, mr_author_id = 1, mr_content = [104], mr_created_at = 8,
        mr_edited_at = None, mr_nonce = Some [110]\<rparr>" and alloc' = next_row and now' = 9 and ch' = "Id 5"
        and content' = "[105]" and ups' = "[]"]
  by (simp add: sample_simps)

section \<open>Attachments\<close>

lemma claim_loop:
  "foldl (claim_attachment m author) rows ups =
     map (\<lambda>r. if ar_id r \<in> to_row ` set ups \<and> ar_uploader_id r = to_row author \<and> ar_message_id r = None
              then r\<lparr>ar_message_id := Some m\<rparr> else r) rows"
proof (induction ups arbitrary: rows)
  case (Cons x ups)
  show ?case
    unfolding foldl_Cons Cons by (auto simp: claim_attachment_def)
qed simp

lemma insort_key_map: "(\<And>x. k (f x) = k x) \<Longrightarrow> insort_key k (f x) (map f xs) = map f (insort_key k x xs)"
  by (induction xs) auto

lemma sort_key_map: "(\<And>x. k (f x) = k x) \<Longrightarrow> sort_key k (map f xs) = map f (sort_key k xs)"
  by (induction xs) (simp_all add: insort_key_map)

lemma of_to_row [simp]: "of_row (to_row i) = i"
  by (simp add: of_row_def to_row_def id.expand)

lemma attachments_after_claims:
  assumes "\<forall>a \<in> set rows. ar_message_id a \<noteq> Some n"
  shows "map row_to_attachment (sort_key ar_id (filter (\<lambda>a. ar_message_id a = Some n)
           (foldl (claim_attachment n author) rows ups)))
       = map row_to_attachment (sort_key ar_id (filter (\<lambda>a. ar_id a \<in> to_row ` set ups
           \<and> ar_uploader_id a = to_row author \<and> ar_message_id a = None) rows))"
proof -
  let ?p = "\<lambda>a. ar_id a \<in> to_row ` set ups \<and> ar_uploader_id a = to_row author \<and> ar_message_id a = None"
  let ?f = "\<lambda>a. if ?p a then a\<lparr>ar_message_id := Some n\<rparr> else a"
  have pick: "filter (\<lambda>a. ar_message_id a = Some n) (map ?f rows) = map ?f (filter ?p rows)"
    using assms by (induction rows) auto
  have same: "row_to_attachment (?f a) = row_to_attachment a" for a
    by (simp add: row_to_attachment_def)
  have sorts: "sort_key ar_id (map ?f rs) = map ?f (sort_key ar_id rs)" for rs
    by (rule sort_key_map) simp
  show ?thesis
    unfolding claim_loop pick sorts by (simp only: map_map comp_def same)
qed

lemma attachments_of_others:
  assumes "k \<noteq> n"
  shows "filter (\<lambda>a. ar_message_id a = Some k) (foldl (claim_attachment n author) rows ups)
       = filter (\<lambda>a. ar_message_id a = Some k) rows"
  unfolding claim_loop using assms by (induction rows) auto

text \<open>
  Claim C29. A stored message takes exactly those uploads that its author listed, uploaded
  and has not attached before, in the order of their identifiers; whatever else is listed is
  left out, and the attachments of every other message stay what they were.
\<close>

theorem message_takes_its_authors_uploads:
  assumes "db_inv db" "rowid_ok alloc (map mr_id (db_messages db))"
    and "\<not> (\<exists>r \<in> set (db_messages db). mr_author_id r = to_row author \<and> mr_nonce r = nonc) \<or> nonc = None"
    and "db_insert_message alloc now db ch author content nonc ups = (Inr m, db')"
  shows "msg_attachments m = map row_to_attachment (sort_key ar_id
           (filter (\<lambda>a. ar_id a \<in> to_row ` set ups \<and> ar_uploader_id a = to_row author \<and> ar_message_id a = None)
              (db_attachments db)))
    \<and> (\<forall>j. j \<noteq> msg_id m \<longrightarrow> attachments_for db' j = attachments_for db j)"
proof -
  let ?n = "alloc (map mr_id (db_messages db))"
  have new: "small ?n" "?n \<notin> set (map mr_id (db_messages db))" using rowid_fresh [OF assms(2)] by blast+
  have free: "\<forall>a \<in> set (db_attachments db). ar_message_id a \<noteq> Some ?n"
  proof (intro ballI notI)
    fix a assume "a \<in> set (db_attachments db)" "ar_message_id a = Some ?n"
    from owners_okD [OF db_invD(4) [OF assms(1)] this] new(2) show False by (metis in_ids)
  qed
  have made: "db_attachments db' = foldl (claim_attachment ?n author) (db_attachments db) ups"
    "msg_attachments m = attachments_for db' (of_row ?n)" "msg_id m = of_row ?n"
    using insert_message_fresh [OF assms(4) _ assms(2)] assms(3)
    by (auto simp: Let_def row_to_message_def)
  have "msg_attachments m = map row_to_attachment (sort_key ar_id
           (filter (\<lambda>a. ar_id a \<in> to_row ` set ups \<and> ar_uploader_id a = to_row author \<and> ar_message_id a = None)
              (db_attachments db)))"
    unfolding made(2) attachments_for_def made(1) to_of_row [OF new(1)]
    by (rule attachments_after_claims [OF free])
  moreover have "attachments_for db' j = attachments_for db j" if "j \<noteq> msg_id m" for j
  proof -
    have ne: "to_row j \<noteq> ?n" using that made(3) by (metis of_to_row)
    show ?thesis unfolding attachments_for_def made(1) attachments_of_others [OF ne] ..
  qed
  ultimately show ?thesis by blast
qed

theorem message_takes_its_authors_uploads_witness:
  "map at_id (msg_attachments (projr (fst sample_sent))) = [Id 1]
    \<and> attachments_for (snd sample_sent) (Id 2) = attachments_for sample_db (Id 2)"
  using message_takes_its_authors_uploads [OF sample_inv sample_rowid _ sample_sent_eq]
  by (simp add: sample_simps)

end
