(* ===== verification/HistoryPaging.thy ===== *)
theory HistoryPaging
  imports DbProps ClientProps
begin

text \<open>
  Reading a channel back, over both ends: the client's requests (\<open>load_older\<close>), the page the
  store answers with (\<open>history\<close>) and the client's merge of the page into its log. The session
  passes the request's arguments to the store and the result back unchanged.
\<close>

definition scroll_back :: "nat \<Rightarrow> db \<Rightarrow> id \<Rightarrow> client_state \<Rightarrow> client_state" where
  "scroll_back now db ch s =
     (case load_older s ch of
        (Some (client_msg.History c before limit), s') \<Rightarrow>
          (let (page, complete) = history db c before limit
           in apply_msg now s' (server_msg.History c page complete))
      | (_, s') \<Rightarrow> s')"

text \<open>The messages of a channel, oldest first, as a page shows them.\<close>

definition channel_messages :: "db \<Rightarrow> id \<Rightarrow> message list" where
  "channel_messages db ch =
     map (\<lambda>r. (row_to_message r)\<lparr>msg_attachments := attachments_for db (of_row (mr_id r))\<rparr>)
       (sort_key mr_id (filter (\<lambda>r. mr_channel_id r = to_row ch) (db_messages db)))"

section \<open>One page\<close>

lemma sorted_rows:
  assumes "good_ids (map mr_id ms)"
  shows "sorted_wrt (\<lambda>r s. mr_id r < mr_id s) (sort_key mr_id (filter P ms))"
proof -
  let ?rs = "sort_key mr_id (filter P ms)"
  have "distinct (map mr_id (filter P ms))"
    using assms by (simp add: good_ids_def distinct_map_filter)
  then have "distinct (map mr_id ?rs)"
    by (metis mset_map mset_sort mset_eq_imp_distinct_iff)
  moreover have "sorted (map mr_id ?rs)" by simp
  ultimately have "sorted_wrt (<) (map mr_id ?rs)" by (simp add: strict_sorted_iff)
  then show ?thesis by (simp add: sorted_wrt_map)
qed

lemma rows_before:
  assumes "sorted_wrt (\<lambda>r s. mr_id r < mr_id s) rs" "k < length rs"
  shows "filter (\<lambda>r. mr_id r < mr_id (rs ! k)) rs = take k rs"
proof -
  obtain a x b where split: "rs = a @ x # b" "k = length a"
    using assms(2) by (metis id_take_nth_drop length_take less_imp_le_nat min.absorb2)
  with assms(1) have "\<forall>r \<in> set a. mr_id r < mr_id x" "\<forall>r \<in> set b. \<not> mr_id r < mr_id x"
    by (auto simp: sorted_wrt_append)
  then show ?thesis by (simp add: split)
qed

text \<open>
  The page that ends before the \<open>k\<close>-th message: the \<open>clamp_limit limit\<close> messages below it, or
  all of them, and then the page says so.
\<close>

lemma history_page:
  fixes db ch
  defines "ms \<equiv> channel_messages db ch"
  assumes "db_inv db" and "k \<le> length ms"
    and "before = (if k < length ms then Some (msg_id (ms ! k)) else None)"
  shows "history db ch before limit =
    (drop (k - clamp_limit limit) (take k ms), k \<le> clamp_limit limit)"
proof -
  define rs where "rs = sort_key mr_id (filter (\<lambda>r. mr_channel_id r = to_row ch) (db_messages db))"
  define l where "l = clamp_limit limit"
  let ?full = "\<lambda>r. (row_to_message r)\<lparr>msg_attachments := attachments_for db (of_row (mr_id r))\<rparr>"
  have ms: "ms = map ?full rs" by (simp add: ms_def channel_messages_def rs_def)
  then have len: "length ms = length rs" by simp
  have small: "small (mr_id r)" if "r \<in> set rs" for r
    using good_ids_small [OF db_invD(1) [OF assms(2)]] that by (simp add: rs_def)
  have sorted: "sorted_wrt (\<lambda>r s. mr_id r < mr_id s) rs"
    unfolding rs_def by (rule sorted_rows [OF db_invD(1) [OF assms(2)]])
  define b where "b = (case before of Some i \<Rightarrow> to_row i | None \<Rightarrow> 2 ^ 63 - 1)"
  have "filter (\<lambda>r. mr_id r < b) rs = take k rs"
  proof (cases "k < length ms")
    case True
    then have "b = mr_id (rs ! k)"
      using small [of "rs ! k"] len by (simp add: b_def assms(4) ms row_to_message_def)
    with rows_before [OF sorted] True len show ?thesis by simp
  next
    case False
    have "filter (\<lambda>r. mr_id r < b) rs = rs"
      using small False by (intro filter_True) (auto simp: b_def assms(4) small_def)
    with False assms(3) len show ?thesis by simp
  qed
  then have rows: "sort_key mr_id (filter (\<lambda>r. mr_channel_id r = to_row ch \<and> mr_id r < b) (db_messages db)) = take k rs"
    unfolding rs_def by (simp add: filter_sort conj_commute)
  have lenk: "length (take k rs) = k" using assms(3) len by simp
  have "history db ch before limit =
      (map ?full (rev (take l (take (l + 1) (rev (take k rs))))), length (take (l + 1) (rev (take k rs))) \<le> l)"
    unfolding history_def Let_def b_def [symmetric] l_def [symmetric] rows
    by (simp add: take_map rev_map row_to_message_def comp_def)
  also have "rev (take l (take (l + 1) (rev (take k rs)))) = drop (k - l) (take k rs)"
    using lenk rev_take [of l "rev (take k rs)"] by (simp only: take_take length_rev rev_rev_ident) simp
  also have "(length (take (l + 1) (rev (take k rs))) \<le> l) = (k \<le> l)"
    using lenk by auto
  finally show ?thesis
    by (simp add: l_def ms drop_map take_map)
qed

section \<open>The client's log\<close>

lemma channel_messages_sorted:
  assumes "db_inv db"
  shows "by_key msg_id (channel_messages db ch)"
proof -
  let ?rs = "sort_key mr_id (filter (\<lambda>r. mr_channel_id r = to_row ch) (db_messages db))"
  have "sorted_wrt (\<lambda>r s. mr_id r < mr_id s) ?rs"
    by (rule sorted_rows [OF db_invD(1) [OF assms]])
  moreover have "small (mr_id r)" if "r \<in> set ?rs" for r
    using good_ids_small [OF db_invD(1) [OF assms]] that by simp
  ultimately have "sorted_wrt (\<lambda>r s. of_row (mr_id r) < of_row (mr_id s)) ?rs"
    by (metis (no_types, lifting) of_row_less sorted_wrt_mono_rel)
  then show ?thesis
    by (simp add: channel_messages_def sorted_wrt_map row_to_message_def)
qed

lemma lookup_rev: "by_key key ms \<Longrightarrow> lookup key (rev ms) k = lookup key ms k"
proof (induction ms)
  case (Cons m ms)
  then have "key m \<notin> key ` set ms" by auto
  then have "lookup key ms (key m) = None" by (simp add: lookup_None)
  with Cons show ?case by (auto simp: lookup_append split: option.split)
qed simp

text \<open>Merging the page below a suffix of the history gives the longer suffix.\<close>

lemma merge_page:
  assumes sorted: "by_key msg_id ms" and "j \<le> k"
  shows "foldl insert_into (drop k ms) (drop j (take k ms)) = drop j ms"
proof -
  have split: "drop j ms = drop j (take k ms) @ drop k ms"
    using assms(2) append_take_drop_id [of "k - j" "drop j ms"] by (simp add: drop_take)
  have parts: "by_key msg_id (drop j ms)" "by_key msg_id (drop k ms)" "by_key msg_id (drop j (take k ms))"
    using sorted by (simp_all add: sorted_wrt_drop sorted_wrt_take)
  show ?thesis
  proof (rule by_key_ext [OF message_log.ins_all_sorted [OF parts(2)] parts(1)])
    fix i show "lookup msg_id (foldl insert_into (drop k ms) (drop j (take k ms))) i = lookup msg_id (drop j ms) i"
      unfolding message_log.ins_all_lookup [OF parts(2)] lookup_rev [OF parts(3)]
      unfolding split by (simp add: lookup_append)
  qed
qed

declare log_of_mut [simp]

lemma clamp_50 [simp]: "clamp_limit 50 = 50"
  by (simp add: clamp_limit_def HISTORY_MAX_def max_def min_def)

lemma scroll_back_page:
  fixes db ch
  defines "ms \<equiv> channel_messages db ch"
  assumes "db_inv db" and "k \<le> length ms" and log: "lg_messages (log_of s ch) = drop k ms"
    "\<not> lg_loading (log_of s ch)" "\<not> lg_complete (log_of s ch)"
  shows "log_of (scroll_back now db ch s) ch =
    (log_of s ch)\<lparr>lg_messages := drop (k - 50) ms, lg_complete := k \<le> 50, lg_loading := False\<rparr>"
proof -
  let ?before = "if k < length ms then Some (msg_id (ms ! k)) else None"
  have before: "(case lg_messages (log_of s ch) of [] \<Rightarrow> None | m # _ \<Rightarrow> Some (msg_id m)) = ?before"
    using assms(3) by (simp add: log Cons_nth_drop_Suc [symmetric] split: list.split)
  have page: "history db ch ?before 50 = (drop (k - 50) (take k ms), k \<le> 50)"
    using history_page [OF assms(2) assms(3) [unfolded ms_def] refl, of 50]
    unfolding ms_def clamp_50 .
  have merge: "foldl insert_into (drop k ms) (drop (k - 50) (take k ms)) = drop (k - 50) ms"
    using channel_messages_sorted [OF assms(2)] by (intro merge_page) (simp_all add: ms_def)
  show ?thesis
    using log unfolding scroll_back_def load_older_def Let_def before
    by (simp add: page merge)
qed

text \<open>
  Claim C28. Scrolling back shows a channel whole: starting from an empty log, after \<open>n\<close> rounds
  of asking for older messages the client's log holds exactly the newest \<open>50 * n\<close> messages of the
  channel, each once, oldest first, with their attachments, and it is marked complete exactly when
  nothing older is left.
\<close>

theorem scrolling_back_shows_the_whole_channel:
  fixes db ch
  defines "ms \<equiv> channel_messages db ch"
  assumes "db_inv db"
    and "log_of s ch = \<lparr>lg_messages = [], lg_complete = False, lg_loading = False, lg_visited = v\<rparr>"
  shows "log_of ((scroll_back now db ch ^^ n) s) ch =
    \<lparr>lg_messages = drop (length ms - 50 * n) ms, lg_complete = (0 < n \<and> length ms \<le> 50 * n),
     lg_loading = False, lg_visited = v\<rparr>"
proof (induction n)
  case 0
  with assms(3) show ?case by simp
next
  case (Suc n)
  let ?s = "(scroll_back now db ch ^^ n) s"
  show ?case
  proof (cases "lg_complete (log_of ?s ch)")
    case True
    then have "log_of (scroll_back now db ch ?s) ch = log_of ?s ch"
      by (simp add: scroll_back_def load_older_def)
    with True Suc show ?thesis by simp
  next
    case False
    have "log_of (scroll_back now db ch ?s) ch =
        (log_of ?s ch)\<lparr>lg_messages := drop (length ms - 50 * n - 50) ms,
          lg_complete := length ms - 50 * n \<le> 50, lg_loading := False\<rparr>"
      unfolding ms_def using False Suc assms(2) by (intro scroll_back_page) (simp_all add: ms_def)
    with Suc show ?thesis by (auto simp: add.commute)
  qed
qed

theorem scrolling_back_shows_the_whole_channel_witness:
  "map msg_content (lg_messages (log_of ((scroll_back 9 (snd sample_sent) (Id 1) ^^ 1) default_state) (Id 1))) = [[104]]"
proof -
  have inv: "db_inv (snd sample_sent)"
    using db_inv_insert_message [OF sample_inv sample_rowid sample_sent_eq] .
  have empty: "log_of default_state (Id 1) =
      \<lparr>lg_messages = [], lg_complete = False, lg_loading = False, lg_visited = False\<rparr>"
    by (simp add: log_of_def default_state_def default_log_def)
  show ?thesis
    using scrolling_back_shows_the_whole_channel [OF inv empty, of 1 9]
    by (simp add: channel_messages_def sample_simps)
qed

end
