(* ===== verification/Config.thy ===== *)
theory Config
  imports Hub
begin

text \<open>
  What the operator decides, \<open>crates/boa-server/src/config.rs\<close>: the settings, their defaults,
  the flags and environment variables that set them and the checks on the result. Parsing of
  socket and IP addresses (\<open>std::net\<close>) and the environment are arguments.
\<close>

section \<open>Settings\<close>

definition DEFAULT_PORT :: u16 where "DEFAULT_PORT = 8787"
definition DEFAULT_MEDIA_PORT :: u16 where "DEFAULT_MEDIA_PORT = 8788"
definition DEFAULT_MAX_UPLOAD :: u64 where "DEFAULT_MAX_UPLOAD = 64 * 1024 * 1024"

record config =
  cf_bind :: socket_addr
  cf_media_port :: u16
  cf_data_dir :: rstring
  cf_name :: rstring
  cf_max_upload_bytes :: u64
  cf_open_registration :: bool
  cf_wormhole_rendezvous :: "rstring option"
  cf_wormhole_transit :: "rstring option"

definition default_config :: config where
  "default_config = \<lparr>cf_bind = AddrV6 0 DEFAULT_PORT 0 0, cf_media_port = DEFAULT_MEDIA_PORT,
     cf_data_dir = str ''boavoice-data'', cf_name = str ''BoaVoice'',
     cf_max_upload_bytes = DEFAULT_MAX_UPLOAD, cf_open_registration = True,
     cf_wormhole_rendezvous = None, cf_wormhole_transit = None\<rparr>"

text \<open>\<open>SocketAddr::port\<close> and \<open>set_port\<close>.\<close>

fun addr_port :: "socket_addr \<Rightarrow> u16" where
  "addr_port (AddrV4 ip port) = port"
| "addr_port (AddrV6 ip port flow scope) = port"

fun set_port :: "u16 \<Rightarrow> socket_addr \<Rightarrow> socket_addr" where
  "set_port p (AddrV4 ip port) = AddrV4 ip p"
| "set_port p (AddrV6 ip port flow scope) = AddrV6 ip p flow scope"

definition registration_allowed :: "config \<Rightarrow> bool \<Rightarrow> bool" where
  "registration_allowed c first_account \<longleftrightarrow> first_account \<or> cf_open_registration c"

definition server_info :: "config \<Rightarrow> server_info" where
  "server_info c =
     \<lparr>si_name = cf_name c, si_media_port = cf_media_port c, si_protocol_version = PROTOCOL_VERSION,
      si_attachment_ttl_secs = ATTACHMENT_TTL_SECS, si_max_upload_bytes = cf_max_upload_bytes c,
      si_wormhole_rendezvous = cf_wormhole_rendezvous c, si_wormhole_transit = cf_wormhole_transit c\<rparr>"

datatype config_error =
    Needs_value rstring | Not_a_number rstring | Not_an_address rstring | Unknown_argument rstring
  | Exit_help | Exit_version
  | Ports_equal | Media_port_zero | Empty_name

definition validate :: "config \<Rightarrow> config_error option" where
  "validate c =
     (if cf_media_port c = addr_port (cf_bind c) then Some Ports_equal
      else if cf_media_port c = 0 then Some Media_port_zero
      else if trim (cf_name c) = [] then Some Empty_name
      else None)"

section \<open>Parsing values\<close>

text \<open>\<open>str::parse\<close> of an unsigned integer below \<open>bound\<close>: an optional plus sign, then digits.\<close>

definition digits_value :: "rstring \<Rightarrow> nat" where
  "digits_value ds = foldl (\<lambda>n d. 10 * n + (d - 48)) 0 ds"

definition parse_uint :: "nat \<Rightarrow> rstring \<Rightarrow> nat option" where
  "parse_uint bound s =
     (let ds = (case s of c # cs \<Rightarrow> if c = 43 then cs else s | [] \<Rightarrow> [])
      in if ds \<noteq> [] \<and> (\<forall>d \<in> set ds. 48 \<le> d \<and> d \<le> 57) \<and> digits_value ds < bound
         then Some (digits_value ds) else None)"

definition parse_u16 :: "rstring \<Rightarrow> u16 option" where
  "parse_u16 s = map_option of_nat (parse_uint (2 ^ 16) s)"

definition parse_u64 :: "rstring \<Rightarrow> u64 option" where
  "parse_u64 s = map_option of_nat (parse_uint (2 ^ 64) s)"

datatype ip_addr = IpV4 u32 | IpV6 "128 word"

fun socket_of_ip :: "ip_addr \<Rightarrow> u16 \<Rightarrow> socket_addr" where
  "socket_of_ip (IpV4 ip) port = AddrV4 ip port"
| "socket_of_ip (IpV6 ip) port = AddrV6 ip port 0 0"

record addr_parsers =
  parse_socket :: "rstring \<Rightarrow> socket_addr option"
  parse_ip :: "rstring \<Rightarrow> ip_addr option"

definition parse_bind :: "addr_parsers \<Rightarrow> rstring \<Rightarrow> config_error + socket_addr" where
  "parse_bind P txt =
     (case parse_socket P txt of
        Some a \<Rightarrow> Inr a
      | None \<Rightarrow>
      case parse_u16 txt of
        Some port \<Rightarrow> Inr (set_port port (cf_bind default_config))
      | None \<Rightarrow>
      case parse_ip P txt of
        Some ip \<Rightarrow> Inr (socket_of_ip ip DEFAULT_PORT)
      | None \<Rightarrow> Inl (Not_an_address txt))"

definition ascii_lower :: "rstring \<Rightarrow> rstring" where
  "ascii_lower s = map (\<lambda>c. if 65 \<le> c \<and> c \<le> 90 then c + 32 else c) s"

definition truthy :: "rstring \<Rightarrow> bool" where
  "truthy v \<longleftrightarrow> ascii_lower (trim v) \<in> {str ''1'', str ''true'', str ''yes'', str ''on''}"

section \<open>Setting one thing\<close>

text \<open>The settings, and what a value does to one of them, from a flag or from the environment.\<close>

datatype setting = Bind | Port | Media_port | Data_dir | Name | Max_upload_mb | Rendezvous | Transit

fun set_setting :: "addr_parsers \<Rightarrow> setting \<Rightarrow> rstring \<Rightarrow> config \<Rightarrow> config_error + config" where
  "set_setting P Bind v c =
     (case parse_bind P v of Inl e \<Rightarrow> Inl e | Inr a \<Rightarrow> Inr (c\<lparr>cf_bind := a\<rparr>))"
| "set_setting P Port v c =
     (case parse_u16 v of None \<Rightarrow> Inl (Not_a_number v)
      | Some p \<Rightarrow> Inr (c\<lparr>cf_bind := set_port p (cf_bind c)\<rparr>))"
| "set_setting P Media_port v c =
     (case parse_u16 v of None \<Rightarrow> Inl (Not_a_number v) | Some p \<Rightarrow> Inr (c\<lparr>cf_media_port := p\<rparr>))"
| "set_setting P Data_dir v c = Inr (c\<lparr>cf_data_dir := v\<rparr>)"
| "set_setting P Name v c = Inr (c\<lparr>cf_name := v\<rparr>)"
| "set_setting P Max_upload_mb v c =
     (case parse_u64 v of None \<Rightarrow> Inl (Not_a_number v)
      | Some mb \<Rightarrow> Inr (c\<lparr>cf_max_upload_bytes := mb * 1024 * 1024\<rparr>))"
| "set_setting P Rendezvous v c = Inr (c\<lparr>cf_wormhole_rendezvous := Some v\<rparr>)"
| "set_setting P Transit v c = Inr (c\<lparr>cf_wormhole_transit := Some v\<rparr>)"

definition from_env :: "addr_parsers \<Rightarrow> (rstring \<Rightarrow> rstring option) \<Rightarrow> config_error + config" where
  "from_env P var =
     (let from = (\<lambda>name what r. case r of Inl e \<Rightarrow> Inl e | Inr c \<Rightarrow>
            (case var (str name) of None \<Rightarrow> Inr c | Some v \<Rightarrow> set_setting P what v c));
          closed = (\<lambda>r. case r of Inl e \<Rightarrow> Inl e | Inr c \<Rightarrow>
            (case var (str ''BOA_CLOSED_REGISTRATION'') of None \<Rightarrow> Inr c
             | Some v \<Rightarrow> Inr (c\<lparr>cf_open_registration := \<not> truthy v\<rparr>)))
      in from ''BOA_WORMHOLE_TRANSIT'' Transit (from ''BOA_WORMHOLE_RENDEZVOUS'' Rendezvous
         (closed (from ''BOA_MAX_UPLOAD_MB'' Max_upload_mb (from ''BOA_NAME'' Name
         (from ''BOA_DATA_DIR'' Data_dir (from ''BOA_MEDIA_PORT'' Media_port
         (from ''BOA_PORT'' Port (from ''BOA_BIND'' Bind (Inr default_config))))))))))"

definition value_flag :: "rstring \<Rightarrow> setting option" where
  "value_flag arg =
     (if arg = str ''--bind'' then Some Bind
      else if arg = str ''--port'' then Some Port
      else if arg = str ''--media-port'' then Some Media_port
      else if arg = str ''--data-dir'' then Some Data_dir
      else if arg = str ''--name'' then Some Name
      else if arg = str ''--max-upload-mb'' then Some Max_upload_mb
      else if arg = str ''--wormhole-rendezvous'' then Some Rendezvous
      else if arg = str ''--wormhole-transit'' then Some Transit
      else None)"

fun parse_args :: "addr_parsers \<Rightarrow> rstring list \<Rightarrow> config \<Rightarrow> config_error + config" where
  "parse_args P [] c = Inr c"
| "parse_args P (arg # args) c =
     (case value_flag arg of
        Some what \<Rightarrow>
          (case args of
             [] \<Rightarrow> Inl (Needs_value arg)
           | v # rest \<Rightarrow>
               (case set_setting P what v c of Inl e \<Rightarrow> Inl e | Inr c' \<Rightarrow> parse_args P rest c'))
      | None \<Rightarrow>
          if arg = str ''--closed-registration'' then parse_args P args (c\<lparr>cf_open_registration := False\<rparr>)
          else if arg = str ''--open-registration'' then parse_args P args (c\<lparr>cf_open_registration := True\<rparr>)
          else if arg = str ''--help'' \<or> arg = str ''-h'' then Inl Exit_help
          else if arg = str ''--version'' then Inl Exit_version
          else Inl (Unknown_argument arg))"

definition parse_config ::
  "addr_parsers \<Rightarrow> (rstring \<Rightarrow> rstring option) \<Rightarrow> rstring list \<Rightarrow> config_error + config" where
  "parse_config P var args =
     (case from_env P var of
        Inl e \<Rightarrow> Inl e
      | Inr c \<Rightarrow>
          (case parse_args P args c of
             Inl e \<Rightarrow> Inl e
           | Inr c' \<Rightarrow> (case validate c' of Some e \<Rightarrow> Inl e | None \<Rightarrow> Inr c')))"

end
