(* ===== verification/Blobs.thy ===== *)
theory Blobs
  imports Config Db
begin

text \<open>
  Attachment bytes on disk and the janitor, \<open>crates/boa-server/src/blobs.rs\<close>. The directory is
  a map from file names to contents, of finished blobs only: \<open>store\<close> renames a file into place
  once it is written. The digest (crate \<open>sha2\<close>) and the reading of image headers (crate
  \<open>image\<close>) are arguments, and so is which files the file system refuses to remove.
\<close>

type_synonym blobs = "(rstring, byte list) hmap"

section \<open>Names\<close>

definition hex_digit :: "nat \<Rightarrow> nat" where
  "hex_digit n = (if n < 10 then 48 + n else 87 + n)"

definition sha256_hex :: "(byte list \<Rightarrow> byte list) \<Rightarrow> byte list \<Rightarrow> rstring" where
  "sha256_hex digest bytes =
     concat (map (\<lambda>b. [hex_digit (unat b div 16), hex_digit (unat b mod 16)]) (digest bytes))"

definition is_hexdigit :: "nat \<Rightarrow> bool" where
  "is_hexdigit c \<longleftrightarrow> 48 \<le> c \<and> c \<le> 57 \<or> 65 \<le> c \<and> c \<le> 70 \<or> 97 \<le> c \<and> c \<le> 102"

text \<open>The check of \<open>Blobs::path\<close>; the path is the root, the first two digits and the name.\<close>

definition is_digest :: "rstring \<Rightarrow> bool" where
  "is_digest sha256 \<longleftrightarrow> utf8_len sha256 = 64 \<and> (\<forall>c \<in> set sha256. is_hexdigit c)"

section \<open>The store\<close>

definition blob_store :: "(byte list \<Rightarrow> byte list) \<Rightarrow> blobs \<Rightarrow> byte list \<Rightarrow> rstring option \<times> blobs" where
  "blob_store digest files bytes =
     (let sha256 = sha256_hex digest bytes
      in if \<not> is_digest sha256 then (None, files)
         else if hget files sha256 \<noteq> None then (Some sha256, files)
         else (Some sha256, hinsert sha256 bytes files))"

definition blob_read :: "blobs \<Rightarrow> rstring \<Rightarrow> byte list option" where
  "blob_read files sha256 = (if is_digest sha256 then hget files sha256 else None)"

definition blob_exists :: "blobs \<Rightarrow> rstring \<Rightarrow> bool" where
  "blob_exists files sha256 \<longleftrightarrow> is_digest sha256 \<and> hget files sha256 \<noteq> None"

text \<open>\<open>None\<close> where the code returns an error.\<close>

definition blob_remove :: "(rstring \<Rightarrow> bool) \<Rightarrow> blobs \<Rightarrow> rstring \<Rightarrow> blobs option" where
  "blob_remove stuck files sha256 =
     (if \<not> is_digest sha256 \<or> stuck sha256 then None else Some (hremove sha256 files))"

definition blob_list :: "blobs \<Rightarrow> rstring list" where
  "blob_list files = filter is_digest (map fst files)"

definition total_bytes :: "blobs \<Rightarrow> nat" where
  "total_bytes files =
     sum_list (map (\<lambda>sha. case hget files sha of Some bytes \<Rightarrow> length bytes | None \<Rightarrow> 0) (blob_list files))"

section \<open>The janitor\<close>

text \<open>One turn of each of the two loops of \<open>sweep\<close>, over the database, the files and the count.\<close>

type_synonym sweep_state = "db \<times> blobs \<times> nat"

definition drop_expired :: "(rstring \<Rightarrow> bool) \<Rightarrow> sweep_state \<Rightarrow> rstring \<Rightarrow> sweep_state" where
  "drop_expired stuck s sha =
     (case s of (db, files, removed) \<Rightarrow>
        (case blob_remove stuck files sha of
           None \<Rightarrow> (db, files, removed)
         | Some files' \<Rightarrow> (snd (mark_blob_deleted db sha), files', removed + 1)))"

definition drop_orphan :: "(rstring \<Rightarrow> bool) \<Rightarrow> sweep_state \<Rightarrow> rstring \<Rightarrow> sweep_state" where
  "drop_orphan stuck s sha =
     (case s of (db, files, removed) \<Rightarrow>
        (case blob_remove stuck files sha of
           None \<Rightarrow> (db, files, removed)
         | Some files' \<Rightarrow> (db, files', removed + 1)))"

definition sweep :: "(rstring \<Rightarrow> bool) \<Rightarrow> millis \<Rightarrow> db \<Rightarrow> blobs \<Rightarrow> sweep_state" where
  "sweep stuck now db files =
     (let s = foldl (drop_expired stuck) (db, files, 0) (expired_blobs db now)
      in foldl (drop_orphan stuck) s (orphaned_blobs (fst s) (blob_list (fst (snd s)))))"

section \<open>What is known about a file from its name\<close>

text \<open>
  \<open>Path::extension\<close>: of the last component that is neither empty nor a dot, unless that is the
  parent directory; a leading dot does not start an extension.
\<close>

fun split_at :: "nat \<Rightarrow> rstring \<Rightarrow> rstring list" where
  "split_at sep [] = [[]]"
| "split_at sep (c # cs) =
     (if c = sep then [] # split_at sep cs
      else (case split_at sep cs of w # ws \<Rightarrow> (c # w) # ws | [] \<Rightarrow> [[c]]))"

definition file_name :: "rstring \<Rightarrow> rstring option" where
  "file_name path =
     (let parts = filter (\<lambda>w. w \<noteq> [] \<and> w \<noteq> [46]) (split_at 47 path)
      in if parts = [] \<or> last parts = [46, 46] then None else Some (last parts))"

definition extension :: "rstring \<Rightarrow> rstring" where
  "extension path =
     (case file_name path of
        None \<Rightarrow> []
      | Some name \<Rightarrow>
          let after = takeWhile (\<lambda>c. c \<noteq> 46) (rev name)
          in if length after = length name \<or> length after + 1 = length name then [] else rev after)"

definition content_type_for :: "rstring \<Rightarrow> rstring" where
  "content_type_for name =
     (let e = ascii_lower (extension name)
      in if e = str ''png'' then str ''image/png''
         else if e = str ''jpg'' \<or> e = str ''jpeg'' then str ''image/jpeg''
         else if e = str ''gif'' then str ''image/gif''
         else if e = str ''webp'' then str ''image/webp''
         else if e = str ''bmp'' then str ''image/bmp''
         else if e = str ''mp4'' then str ''video/mp4''
         else if e = str ''webm'' then str ''video/webm''
         else if e = str ''mov'' then str ''video/quicktime''
         else if e = str ''mp3'' then str ''audio/mpeg''
         else if e = str ''ogg'' \<or> e = str ''opus'' then str ''audio/ogg''
         else if e = str ''flac'' then str ''audio/flac''
         else if e = str ''wav'' then str ''audio/wav''
         else if e = str ''pdf'' then str ''application/pdf''
         else if e = str ''txt'' \<or> e = str ''log'' \<or> e = str ''md'' then str ''text/plain''
         else if e = str ''zip'' then str ''application/zip''
         else str ''application/octet-stream'')"

text \<open>\<open>char::is_control\<close>: the general category \<open>Cc\<close>.\<close>

definition is_control :: "nat \<Rightarrow> bool" where
  "is_control c \<longleftrightarrow> c < 32 \<or> 127 \<le> c \<and> c < 160"

definition sanitise_name :: "rstring \<Rightarrow> rstring" where
  "sanitise_name name =
     (let base = rev (takeWhile (\<lambda>c. c \<noteq> 47 \<and> c \<noteq> 92) (rev name));
          cleaned = take 200 (filter (\<lambda>c. \<not> is_control c \<and> c \<noteq> 34 \<and> c \<noteq> 10 \<and> c \<noteq> 13) base);
          trimmed = dropWhile (\<lambda>c. c = 46) (trim cleaned)
      in if trimmed = [] then str ''attachment'' else trimmed)"

end
