(* ===== verification/Session.thy ===== *)
theory Session
  imports Config Db
begin

text \<open>
  One client's control connection, \<open>crates/boa-server/src/session.rs\<close>. A connection is
  opened (\<open>identify\<close>, then \<open>session_open\<close>), handles the frames that arrive one after the
  other (\<open>handle\<close>, one definition per kind of frame), and is torn down (\<open>session_close\<close>).
  Each returns what it puts into the connections' queues, in order. Handlers of different
  connections are interleaved whole. The clock, entropy, base64, row identifiers and which
  queues still have a reader are the environment's. Parsing JSON and failures of SQLite are
  left out: a frame is a message, or one that could not be read.
\<close>

record server =
  sv_config :: config
  sv_hub :: hub_state
  sv_db :: db

record env =
  en_b64 :: "byte list \<Rightarrow> string"
  en_entropy :: "byte list"
  en_now :: nat
  en_millis :: millis
  en_alive :: "conn_id \<Rightarrow> bool"
  en_alloc :: "int list \<Rightarrow> int"

record session =
  se_conn :: conn_id
  se_user :: user
  se_last_typing :: "(id, nat) hmap"

datatype control_flow = Continue | Break

type_synonym reply = "control_flow \<times> session \<times> server \<times> delivery list"

definition MAX_CONTENT :: nat where "MAX_CONTENT = 4000"
definition MAX_ATTACHMENTS :: nat where "MAX_ATTACHMENTS = 10"
definition TYPING_INTERVAL :: nat where "TYPING_INTERVAL = 3 * 10 ^ 9"
definition MAX_DISPLAY_NAME :: nat where "MAX_DISPLAY_NAME = 48"

section \<open>Names and share requests\<close>

function split_whitespace :: "rstring \<Rightarrow> rstring list" where
  "split_whitespace s =
     (case dropWhile is_whitespace s of
        [] \<Rightarrow> []
      | t \<Rightarrow> takeWhile (\<lambda>c. \<not> is_whitespace c) t # split_whitespace (dropWhile (\<lambda>c. \<not> is_whitespace c) t))"
  by pat_completeness auto

termination
proof (relation "measure length")
  fix s c cs assume "dropWhile is_whitespace s = c # cs"
  then have "\<not> is_whitespace c" and len: "length (c # cs) \<le> length s"
    by (metis hd_dropWhile list.distinct(1) list.sel(1), metis length_dropWhile_le)
  then have "dropWhile (\<lambda>c. \<not> is_whitespace c) (c # cs) = dropWhile (\<lambda>c. \<not> is_whitespace c) cs" by simp
  with len have "length (dropWhile (\<lambda>c. \<not> is_whitespace c) (c # cs)) < length s"
    using length_dropWhile_le [of "\<lambda>c. \<not> is_whitespace c" cs] by simp
  then show "(dropWhile (\<lambda>c. \<not> is_whitespace c) (c # cs), s) \<in> measure length" by simp
qed simp

declare split_whitespace.simps [simp del]

fun join :: "rstring \<Rightarrow> rstring list \<Rightarrow> rstring" where
  "join sep [] = []"
| "join sep [w] = w"
| "join sep (w # v # ws) = w @ sep @ join sep (v # ws)"

definition normalise_channel_name :: "rstring \<Rightarrow> rstring" where
  "normalise_channel_name name =
     (let name = dropWhile (\<lambda>c. c = 35) (trim name)
      in take 48 (join [45] (split_whitespace name)))"

definition check_screen_request :: "screen_request \<Rightarrow> rstring + unit" where
  "check_screen_request r =
     (if rq_width r = 0 \<or> rq_height r = 0 then Inl (str ''a share needs a size'')
      else if rq_width r > 16384 \<or> rq_height r > 16384 then Inl (str ''that is not a screen size'')
      else if rq_fps r = 0 \<or> rq_fps r > 240 then Inl (str ''frame rate must be between 1 and 240'')
      else if rq_kbps r = 0 then Inl (str ''bitrate must be greater than zero'')
      else Inr ())"

section \<open>Identifying\<close>

datatype frame =
    Readable client_msg | Unreadable rstring | Binary | Ping_or_pong | Close | Socket_error

text \<open>
  What a connection that has not identified may bring, in order: frames, and at some point
  the deadline; the end of the list is the end of the stream. The result is the user and the
  last frame sent, which hangs up.
\<close>

datatype arrival = Frame frame | Deadline

definition speaks_version :: "u16 \<Rightarrow> bool" where
  "speaks_version v \<longleftrightarrow> MIN_PROTOCOL_VERSION \<le> v \<and> v \<le> PROTOCOL_VERSION"

definition version_refusal :: "u16 \<Rightarrow> rstring" where
  "version_refusal v =
     str ''this server speaks protocol '' @ decimal (unat MIN_PROTOCOL_VERSION) @ [8211]
     @ decimal (unat PROTOCOL_VERSION) @ str '', the client speaks '' @ decimal (unat v)"

definition check_identify :: "db \<Rightarrow> client_msg \<Rightarrow> server_msg + user" where
  "check_identify db first =
     (case first of
        Identify token v agent \<Rightarrow>
          if \<not> speaks_version v then Inl (fatal VersionMismatch (version_refusal v))
          else (case user_for_token db token of
                  Some user \<Rightarrow> Inr user
                | None \<Rightarrow> Inl (fatal Unauthorised (str ''that token is not valid'')))
      | _ \<Rightarrow> Inl (fatal Unauthorised (str ''identify first'')))"

fun identify :: "db \<Rightarrow> arrival list \<Rightarrow> user option \<times> server_msg option" where
  "identify db [] = (None, None)"
| "identify db (Deadline # as) = (None, None)"
| "identify db (Frame f # as) =
     (case f of
        Ping_or_pong \<Rightarrow> identify db as
      | Readable first \<Rightarrow>
          (case check_identify db first of
             Inr user \<Rightarrow> (Some user, None)
           | Inl refusal \<Rightarrow> (None, Some refusal))
      | Unreadable err \<Rightarrow> (None, Some (fatal BadRequest err))
      | _ \<Rightarrow> (None, None))"

section \<open>Opening and closing\<close>

definition send_ready :: "session \<Rightarrow> server \<Rightarrow> delivery list" where
  "send_ready ses srv =
     send_to_conn (sv_hub srv) (se_conn ses)
       (Ready ((se_user ses)\<lparr>u_online := True\<rparr>) (server_info (sv_config srv))
          (decorate_presence (sv_hub srv) (users (sv_db srv))) (channels (sv_db srv))
          (voice_states (sv_hub srv)))"

text \<open>The part of \<open>run\<close> before its loop.\<close>

definition session_open :: "server \<Rightarrow> user \<Rightarrow> session \<times> server \<times> delivery list" where
  "session_open srv user =
     (case connect (sv_hub srv) (u_id user) of
        ((cid, first), hub) \<Rightarrow>
          let ses = \<lparr>se_conn = cid, se_user = user, se_last_typing = []\<rparr>;
              srv = srv\<lparr>sv_hub := hub\<rparr>
          in (ses, srv,
              send_ready ses srv
              @ (if first then broadcast_except hub cid (Presence (u_id user) True) else [])))"

text \<open>The part of \<open>run\<close> after its loop.\<close>

definition session_close :: "session \<Rightarrow> server \<Rightarrow> server \<times> delivery list" where
  "session_close ses srv =
     (let user = u_id (se_user ses)
      in case disconnect (sv_hub srv) (se_conn ses) of
        (False, hub) \<Rightarrow> (srv\<lparr>sv_hub := hub\<rparr>, [])
      | (True, hub) \<Rightarrow>
          (case (if voice_channel_of hub user \<noteq> None
                 then (case stop_screen hub user of (stopped, hub1) \<Rightarrow>
                       case leave_voice hub1 user of
                         (Some channel, hub2) \<Rightarrow>
                           (hub2, (if stopped \<noteq> None then broadcast hub2 (ScreenStop user) else [])
                                  @ broadcast hub2 (VoiceLeave user channel))
                       | (None, hub2) \<Rightarrow> (hub2, []))
                 else (hub, [])) of
             (hub, ds) \<Rightarrow>
               (srv\<lparr>sv_hub := hub\<rparr>, ds @ broadcast hub (Presence user False))))"

section \<open>One frame\<close>

definition send :: "session \<Rightarrow> server \<Rightarrow> server_msg \<Rightarrow> delivery list" where
  "send ses srv msg = send_to_conn (sv_hub srv) (se_conn ses) msg"

definition fail :: "session \<Rightarrow> server \<Rightarrow> error_code \<Rightarrow> rstring \<Rightarrow> delivery list" where
  "fail ses srv code txt = send ses srv (error code txt)"

definition internal :: "session \<Rightarrow> server \<Rightarrow> delivery list" where
  "internal ses srv = fail ses srv Internal (str ''the server could not do that'')"

definition handle_history :: "session \<Rightarrow> server \<Rightarrow> id \<Rightarrow> id option \<Rightarrow> u16 \<Rightarrow> reply" where
  "handle_history ses srv channel before limit =
     (case history (sv_db srv) channel before (min limit HISTORY_MAX) of
        (messages, complete) \<Rightarrow>
          (Continue, ses, srv, send ses srv (server_msg.History channel messages complete)))"

definition handle_send_message ::
  "env \<Rightarrow> session \<Rightarrow> server \<Rightarrow> id \<Rightarrow> rstring \<Rightarrow> rstring \<Rightarrow> id list \<Rightarrow> reply" where
  "handle_send_message E ses srv channel content nonc attachments =
     (let content = trim content
      in if length content > MAX_CONTENT
         then (Continue, ses, srv,
               fail ses srv BadRequest (str ''messages are limited to 4000 characters''))
         else if length attachments > MAX_ATTACHMENTS
         then (Continue, ses, srv, fail ses srv BadRequest (str ''at most 10 attachments''))
         else if content = [] \<and> attachments = []
         then (Continue, ses, srv, fail ses srv BadRequest (str ''nothing to send''))
         else if channel_by_id (sv_db srv) channel = None
         then (Continue, ses, srv, fail ses srv NotFound (str ''no such channel''))
         else
           let nonc = (if nonc = [] then None else Some nonc)
           in case db_insert_message (en_alloc E) (en_millis E) (sv_db srv) channel
                     (u_id (se_user ses)) content nonc attachments of
                (Inr m, db) \<Rightarrow>
                  let srv = srv\<lparr>sv_db := db\<rparr>;
                      public = m\<lparr>msg_nonce := None\<rparr>
                  in (Continue, ses, srv,
                      broadcast_except (sv_hub srv) (se_conn ses) (MessageCreate public)
                      @ send ses srv (MessageCreate m))
              | (Inl _, db) \<Rightarrow>
                  let srv = srv\<lparr>sv_db := db\<rparr> in (Continue, ses, srv, internal ses srv))"

definition handle_edit_message :: "env \<Rightarrow> session \<Rightarrow> server \<Rightarrow> id \<Rightarrow> rstring \<Rightarrow> reply" where
  "handle_edit_message E ses srv i content =
     (let content = trim content
      in if content = [] \<or> length content > MAX_CONTENT
         then (Continue, ses, srv,
               fail ses srv BadRequest (str ''an edit needs between 1 and 4000 characters''))
         else
           case edit_message (en_millis E) (sv_db srv) i (u_id (se_user ses)) content of
             (Some m, db) \<Rightarrow>
               let srv = srv\<lparr>sv_db := db\<rparr>
               in (Continue, ses, srv, broadcast (sv_hub srv) (MessageUpdate m))
           | (None, db) \<Rightarrow>
               let srv = srv\<lparr>sv_db := db\<rparr>
               in (Continue, ses, srv, fail ses srv Forbidden (str ''that is not your message'')))"

definition handle_delete_message :: "session \<Rightarrow> server \<Rightarrow> id \<Rightarrow> reply" where
  "handle_delete_message ses srv i =
     (case delete_message (sv_db srv) i (u_id (se_user ses)) of
        (Some channel, db) \<Rightarrow>
          let srv = srv\<lparr>sv_db := db\<rparr>
          in (Continue, ses, srv, broadcast (sv_hub srv) (MessageDelete channel i))
      | (None, db) \<Rightarrow>
          (Continue, ses, srv, fail ses srv Forbidden (str ''that is not your message'')))"

definition handle_typing :: "env \<Rightarrow> session \<Rightarrow> server \<Rightarrow> id \<Rightarrow> reply" where
  "handle_typing E ses srv channel =
     (let fresh = (case hget (se_last_typing ses) channel of
                     None \<Rightarrow> True
                   | Some at \<Rightarrow> en_now E - at \<ge> TYPING_INTERVAL)
      in if fresh
         then (Continue, ses\<lparr>se_last_typing := hinsert channel (en_now E) (se_last_typing ses)\<rparr>, srv,
               broadcast_except (sv_hub srv) (se_conn ses)
                 (server_msg.Typing channel (u_id (se_user ses))))
         else (Continue, ses, srv, []))"

definition handle_create_channel :: "env \<Rightarrow> session \<Rightarrow> server \<Rightarrow> rstring \<Rightarrow> channel_kind \<Rightarrow> reply" where
  "handle_create_channel E ses srv name kind =
     (let name = normalise_channel_name name
      in if name = []
         then (Continue, ses, srv, fail ses srv BadRequest (str ''a channel needs a name''))
         else
           case create_channel (en_alloc E) (en_millis E) (sv_db srv) name kind of
             (channel, db) \<Rightarrow>
               let srv = srv\<lparr>sv_db := db\<rparr>
               in (Continue, ses, srv, broadcast (sv_hub srv) (ChannelCreate channel)))"

definition handle_set_display_name :: "session \<Rightarrow> server \<Rightarrow> rstring \<Rightarrow> reply" where
  "handle_set_display_name ses srv name =
     (let name = take MAX_DISPLAY_NAME (trim name);
          srv = srv\<lparr>sv_db := set_display_name (sv_db srv) (u_id (se_user ses)) name\<rparr>;
          ses = ses\<lparr>se_user := (se_user ses)\<lparr>u_display_name := name\<rparr>\<rparr>
      in (Continue, ses, srv,
          broadcast (sv_hub srv) (UserUpdate ((se_user ses)\<lparr>u_online := True\<rparr>))))"

definition handle_join_voice :: "env \<Rightarrow> session \<Rightarrow> server \<Rightarrow> id \<Rightarrow> reply option" where
  "handle_join_voice E ses srv channel =
     (let user = u_id (se_user ses)
      in case channel_by_id (sv_db srv) channel of
           None \<Rightarrow> Some (Continue, ses, srv, fail ses srv NotFound (str ''no such channel''))
         | Some c \<Rightarrow>
             if ch_kind c \<noteq> channel_kind.Voice
             then Some (Continue, ses, srv, fail ses srv BadRequest (str ''that is a text channel''))
             else
               case join_voice (en_b64 E) (en_entropy E) (en_now E) (sv_hub srv) user channel of
                 None \<Rightarrow> None
               | Some ((state, key, previous), hub) \<Rightarrow>
                   let srv = srv\<lparr>sv_hub := hub\<rparr>
                   in Some (Continue, ses, srv,
                        (case previous of Some p \<Rightarrow> broadcast hub (VoiceLeave user p) | None \<Rightarrow> [])
                        @ send ses srv
                            (VoiceReady channel (vs_ssrc state) key (cf_media_port (sv_config srv)))
                        @ broadcast hub (VoiceState state)))"

definition handle_leave_voice :: "session \<Rightarrow> server \<Rightarrow> reply" where
  "handle_leave_voice ses srv =
     (let user = u_id (se_user ses)
      in case stop_screen (sv_hub srv) user of (stopped, hub1) \<Rightarrow>
         case leave_voice hub1 user of
           (Some channel, hub) \<Rightarrow>
             (Continue, ses, srv\<lparr>sv_hub := hub\<rparr>,
              (if stopped \<noteq> None then broadcast hub (ScreenStop user) else [])
              @ broadcast hub (VoiceLeave user channel))
         | (None, hub) \<Rightarrow> (Continue, ses, srv\<lparr>sv_hub := hub\<rparr>, []))"

definition handle_voice_flags :: "session \<Rightarrow> server \<Rightarrow> bool \<Rightarrow> bool \<Rightarrow> reply" where
  "handle_voice_flags ses srv muted deafened =
     (case set_voice_flags (sv_hub srv) (u_id (se_user ses)) muted deafened of
        (Some state, hub) \<Rightarrow>
          (Continue, ses, srv\<lparr>sv_hub := hub\<rparr>, broadcast hub (VoiceState state))
      | (None, hub) \<Rightarrow>
          (Continue, ses, srv, fail ses srv BadRequest (str ''you are not in a voice channel'')))"

definition handle_speaking :: "env \<Rightarrow> session \<Rightarrow> server \<Rightarrow> bool \<Rightarrow> reply" where
  "handle_speaking E ses srv speaking =
     (let user = u_id (se_user ses)
      in (Continue, ses, srv,
          concat (map (\<lambda>peer. snd (send_to_user (en_alive E) (sv_hub srv) peer
                                     (server_msg.Speaking user speaking)))
            (voice_peers (sv_hub srv) user))))"

definition handle_start_screen :: "session \<Rightarrow> server \<Rightarrow> screen_request \<Rightarrow> reply" where
  "handle_start_screen ses srv request =
     (case check_screen_request request of
        Inl txt \<Rightarrow> (Continue, ses, srv, fail ses srv BadRequest txt)
      | Inr _ \<Rightarrow>
          (case start_screen (sv_hub srv) (u_id (se_user ses)) request of
             (Some share, hub) \<Rightarrow>
               (Continue, ses, srv\<lparr>sv_hub := hub\<rparr>,
                broadcast hub (ScreenStart (u_id (se_user ses)) share))
           | (None, hub) \<Rightarrow>
               (Continue, ses, srv, fail ses srv BadRequest (str ''join a voice channel first''))))"

definition handle_stop_screen :: "session \<Rightarrow> server \<Rightarrow> reply" where
  "handle_stop_screen ses srv =
     (case stop_screen (sv_hub srv) (u_id (se_user ses)) of
        (Some _, hub) \<Rightarrow>
          (Continue, ses, srv\<lparr>sv_hub := hub\<rparr>, broadcast hub (ScreenStop (u_id (se_user ses))))
      | (None, hub) \<Rightarrow> (Continue, ses, srv\<lparr>sv_hub := hub\<rparr>, []))"

definition handle_watch :: "session \<Rightarrow> server \<Rightarrow> id \<Rightarrow> reply" where
  "handle_watch ses srv target =
     (case watch (sv_hub srv) (u_id (se_user ses)) target of
        (True, hub) \<Rightarrow> (Continue, ses, srv\<lparr>sv_hub := hub\<rparr>, [])
      | (False, hub) \<Rightarrow>
          (Continue, ses, srv, fail ses srv NotFound (str ''they are not in your voice channel'')))"

definition handle_screen_report ::
  "env \<Rightarrow> session \<Rightarrow> server \<Rightarrow> id \<Rightarrow> u32 \<Rightarrow> u32 \<Rightarrow> bool \<Rightarrow> reply" where
  "handle_screen_report E ses srv user received lost want =
     (Continue, ses, srv,
      if is_watching (sv_hub srv) (u_id (se_user ses)) user
      then snd (send_to_user (en_alive E) (sv_hub srv) user
                  (server_msg.ScreenReport (u_id (se_user ses)) received lost want))
      else [])"

definition handle_offer_file :: "env \<Rightarrow> session \<Rightarrow> server \<Rightarrow> id \<Rightarrow> file_offer \<Rightarrow> reply" where
  "handle_offer_file E ses srv to_user offer =
     (case send_to_user (en_alive E) (sv_hub srv) to_user (FileOffer (u_id (se_user ses)) offer) of
        (reached, ds) \<Rightarrow>
          (Continue, ses, srv,
           ds @ (if reached then [] else fail ses srv NotFound (str ''they are not online''))))"

fun handle :: "env \<Rightarrow> session \<Rightarrow> server \<Rightarrow> client_msg \<Rightarrow> reply option" where
  "handle E ses srv (Identify token v agent) =
     Some (Break, ses, srv, send ses srv (fatal Unauthorised (str ''already identified'')))"
| "handle E ses srv (Ping n) = Some (Continue, ses, srv, send ses srv (Pong n))"
| "handle E ses srv (client_msg.History channel before limit) =
     Some (handle_history ses srv channel before limit)"
| "handle E ses srv (SendMessage channel content nonc attachments) =
     Some (handle_send_message E ses srv channel content nonc attachments)"
| "handle E ses srv (EditMessage i content) = Some (handle_edit_message E ses srv i content)"
| "handle E ses srv (DeleteMessage i) = Some (handle_delete_message ses srv i)"
| "handle E ses srv (client_msg.Typing channel) = Some (handle_typing E ses srv channel)"
| "handle E ses srv (CreateChannel name kind) = Some (handle_create_channel E ses srv name kind)"
| "handle E ses srv (SetDisplayName name) = Some (handle_set_display_name ses srv name)"
| "handle E ses srv (JoinVoice channel) = handle_join_voice E ses srv channel"
| "handle E ses srv LeaveVoice = Some (handle_leave_voice ses srv)"
| "handle E ses srv (UpdateVoiceState muted deafened) =
     Some (handle_voice_flags ses srv muted deafened)"
| "handle E ses srv (client_msg.Speaking speaking) = Some (handle_speaking E ses srv speaking)"
| "handle E ses srv (StartScreen request) = Some (handle_start_screen ses srv request)"
| "handle E ses srv StopScreen = Some (handle_stop_screen ses srv)"
| "handle E ses srv (WatchScreen user) = Some (handle_watch ses srv user)"
| "handle E ses srv (UnwatchScreen user) =
     Some (Continue, ses, srv\<lparr>sv_hub := unwatch (sv_hub srv) (u_id (se_user ses)) user\<rparr>, [])"
| "handle E ses srv (client_msg.ScreenReport user received lost want) =
     Some (handle_screen_report E ses srv user received lost want)"
| "handle E ses srv (OfferFile to_user offer) = Some (handle_offer_file E ses srv to_user offer)"
| "handle E ses srv (CancelFileOffer to_user code) =
     Some (Continue, ses, srv,
       snd (send_to_user (en_alive E) (sv_hub srv) to_user
              (FileOfferCancelled (u_id (se_user ses)) code)))"

text \<open>The body of the loop of \<open>run\<close>: a frame of the socket, whatever it is.\<close>

fun handle_frame :: "env \<Rightarrow> session \<Rightarrow> server \<Rightarrow> frame \<Rightarrow> reply option" where
  "handle_frame E ses srv (Readable msg) = handle E ses srv msg"
| "handle_frame E ses srv (Unreadable err) =
     Some (Continue, ses, srv,
       send ses srv (error BadRequest (str ''could not read that frame: '' @ err)))"
| "handle_frame E ses srv Binary =
     Some (Continue, ses, srv, send ses srv (error BadRequest (str ''the control plane is text only'')))"
| "handle_frame E ses srv Ping_or_pong = Some (Continue, ses, srv, [])"
| "handle_frame E ses srv Close = Some (Break, ses, srv, [])"
| "handle_frame E ses srv Socket_error = Some (Break, ses, srv, [])"

end
