(* ===== verification/Http.thy ===== *)
theory Http
  imports Blobs Session
begin

text \<open>
  Accounts and attachments over HTTP: \<open>crates/boa-server/src/auth.rs\<close> and \<open>http.rs\<close>. Password
  hashing (crate \<open>argon2\<close>), the random bytes of a token and their base64 form, the folding of
  letters to lower case, the digest and the reading of image headers are the crypt record's.
  Extraction of requests and the encoding of responses (crate \<open>axum\<close>) are left out.
\<close>

record crypt =
  cy_hash :: "rstring \<Rightarrow> rstring option"
  cy_verify :: "rstring \<Rightarrow> rstring \<Rightarrow> bool"
  cy_token :: rstring
  cy_lower :: "rstring \<Rightarrow> rstring"
  cy_digest :: "byte list \<Rightarrow> byte list"
  cy_dimensions :: "byte list \<Rightarrow> u32 \<times> u32"

section \<open>Names and passwords\<close>

definition MIN_PASSWORD :: nat where "MIN_PASSWORD = 12"
definition MAX_PASSWORD :: nat where "MAX_PASSWORD = 1024"

definition check_password_rules :: "rstring \<Rightarrow> rstring + unit" where
  "check_password_rules password =
     (if length password < MIN_PASSWORD then Inl (str ''a password needs at least 12 characters'')
      else if utf8_len password > MAX_PASSWORD then Inl (str ''that password is unreasonably long'')
      else Inr ())"

definition normalise_name :: "crypt \<Rightarrow> rstring \<Rightarrow> rstring" where
  "normalise_name Y name = cy_lower Y (trim name)"

definition is_ascii_alphanumeric :: "nat \<Rightarrow> bool" where
  "is_ascii_alphanumeric c \<longleftrightarrow> 48 \<le> c \<and> c \<le> 57 \<or> 65 \<le> c \<and> c \<le> 90 \<or> 97 \<le> c \<and> c \<le> 122"

definition check_name_rules :: "crypt \<Rightarrow> rstring \<Rightarrow> rstring + unit" where
  "check_name_rules Y name =
     (let name = normalise_name Y name
      in if length name < 2 then Inl (str ''a name needs at least two characters'')
         else if length name > 32 then Inl (str ''a name can be at most 32 characters'')
         else if \<not> (\<forall>c \<in> set name. is_ascii_alphanumeric c \<or> c = 46 \<or> c = 95 \<or> c = 45)
         then Inl (str ''names may use letters, digits, dot, dash and underscore'')
         else if name = [] \<or> \<not> is_ascii_alphanumeric (hd name)
         then Inl (str ''a name has to start with a letter or a digit'')
         else Inr ())"

section \<open>Failures\<close>

record failure =
  fl_status :: nat
  fl_message :: rstring

definition bad :: "rstring \<Rightarrow> failure" where
  "bad message = \<lparr>fl_status = 400, fl_message = message\<rparr>"

definition unauthorised :: "rstring \<Rightarrow> failure" where
  "unauthorised message = \<lparr>fl_status = 401, fl_message = message\<rparr>"

definition internal_failure :: failure where
  "internal_failure = \<lparr>fl_status = 500, fl_message = str ''the server could not do that''\<rparr>"

fun db_error_text :: "db_error \<Rightarrow> rstring" where
  "db_error_text Name_taken = str ''that name is taken''"
| "db_error_text Constraint_violation = str ''constraint violation''"
| "db_error_text Vanished = str ''message vanished after insert''"

section \<open>Public information\<close>

record info =
  in_server :: server_info
  in_registration_open :: bool

definition http_info :: "server \<Rightarrow> info" where
  "http_info srv =
     (let first_account = is_empty (sv_db srv)
      in \<lparr>in_server = server_info (sv_config srv),
          in_registration_open = registration_allowed (sv_config srv) first_account\<rparr>)"

section \<open>Accounts\<close>

record credentials =
  cd_name :: rstring
  cd_password :: rstring
  cd_display_name :: rstring
  cd_agent :: rstring

definition issue_token :: "crypt \<Rightarrow> env \<Rightarrow> db \<Rightarrow> id \<Rightarrow> rstring \<Rightarrow> (failure + rstring) \<times> db" where
  "issue_token Y E db user agent =
     (let token = cy_token Y;
          agent = take 120 agent
      in case store_token (en_millis E) db token user agent of
           (Inl _, db) \<Rightarrow> (Inl internal_failure, db)
         | (Inr _, db) \<Rightarrow> (Inr token, db))"

definition register :: "crypt \<Rightarrow> env \<Rightarrow> server \<Rightarrow> credentials \<Rightarrow> (failure + rstring \<times> user) \<times> server" where
  "register Y E srv body =
     (let first_account = is_empty (sv_db srv)
      in if \<not> registration_allowed (sv_config srv) first_account
         then (Inl \<lparr>fl_status = 403, fl_message = str ''this server is not accepting new accounts''\<rparr>, srv)
         else
      case check_name_rules Y (cd_name body) of Inl e \<Rightarrow> (Inl (bad e), srv) | Inr _ \<Rightarrow>
      case check_password_rules (cd_password body) of Inl e \<Rightarrow> (Inl (bad e), srv) | Inr _ \<Rightarrow>
        let name = normalise_name Y (cd_name body);
            display_name = (if trim (cd_display_name body) = [] then trim (cd_name body)
                            else take 48 (trim (cd_display_name body)))
        in case cy_hash Y (cd_password body) of
             None \<Rightarrow> (Inl internal_failure, srv)
           | Some hash \<Rightarrow>
               (case create_user (en_alloc E) (en_millis E) (sv_db srv) name display_name hash of
                  (Inl e, db) \<Rightarrow> (Inl (bad (db_error_text e)), srv\<lparr>sv_db := db\<rparr>)
                | (Inr user, db) \<Rightarrow>
                    let db = (if first_account
                              then snd (create_channel (en_alloc E) (en_millis E)
                                     (snd (create_channel (en_alloc E) (en_millis E) db (str ''general'') Text))
                                     (str ''Lounge'') channel_kind.Voice)
                              else db)
                    in case issue_token Y E db (u_id user) (cd_agent body) of
                         (Inl e, db) \<Rightarrow> (Inl e, srv\<lparr>sv_db := db\<rparr>)
                       | (Inr token, db) \<Rightarrow> (Inr (token, user), srv\<lparr>sv_db := db\<rparr>)))"

definition DUMMY_HASH :: rstring where
  "DUMMY_HASH = str ''$argon2id$v=19$m=19456,t=2,p=1$c29tZXNhbHRzb21lc2FsdA$Q0kKJTQ0hZ8s5xJZ9k7VYnP+P9ZQZ6z6mFhKZ8Xn5Cw''"

definition login :: "crypt \<Rightarrow> env \<Rightarrow> server \<Rightarrow> credentials \<Rightarrow> (failure + rstring \<times> user) \<times> server" where
  "login Y E srv body =
     (let name = normalise_name Y (cd_name body)
      in case (case user_by_name (sv_db srv) name of
                 Some pair \<Rightarrow> pair
               | None \<Rightarrow> (\<lparr>u_id = NONE_ID, u_name = name, u_display_name = [], u_online = False\<rparr>, DUMMY_HASH)) of
           (user, stored) \<Rightarrow>
             let ok = cy_verify Y (cd_password body) stored
             in if \<not> ok \<or> is_none (u_id user)
                then (Inl (unauthorised (str ''wrong name or password'')), srv)
                else case issue_token Y E (sv_db srv) (u_id user) (cd_agent body) of
                       (Inl e, db) \<Rightarrow> (Inl e, srv\<lparr>sv_db := db\<rparr>)
                     | (Inr token, db) \<Rightarrow> (Inr (token, user), srv\<lparr>sv_db := db\<rparr>))"

section \<open>Attachments\<close>

text \<open>The \<open>Authorization\<close> header, if it is text, and the \<open>token\<close> parameter.\<close>

definition authenticate :: "db \<Rightarrow> rstring option \<Rightarrow> rstring option \<Rightarrow> failure + id" where
  "authenticate db header query =
     (let prefix = str ''Bearer '';
          bearer = Option.bind header (\<lambda>v. if take (length prefix) v = prefix then Some (drop (length prefix) v) else None)
      in case (case bearer of Some t \<Rightarrow> Some t | None \<Rightarrow> query) of
           None \<Rightarrow> Inl (unauthorised (str ''no token''))
         | Some token \<Rightarrow>
             (case user_for_token db token of
                Some user \<Rightarrow> Inr (u_id user)
              | None \<Rightarrow> Inl (unauthorised (str ''that token is not valid''))))"

definition upload ::
  "crypt \<Rightarrow> env \<Rightarrow> server \<Rightarrow> blobs \<Rightarrow> rstring option \<Rightarrow> rstring option \<Rightarrow> rstring \<Rightarrow> byte list
    \<Rightarrow> (failure + attachment) \<times> server \<times> blobs" where
  "upload Y E srv files header query given_name body =
     (case authenticate (sv_db srv) header query of
        Inl e \<Rightarrow> (Inl e, srv, files)
      | Inr uploader \<Rightarrow>
          if body = [] then (Inl (bad (str ''an empty upload'')), srv, files)
          else if length body > unat (cf_max_upload_bytes (sv_config srv))
          then (Inl \<lparr>fl_status = 413,
                     fl_message = str ''the limit here is ''
                       @ decimal (unat (cf_max_upload_bytes (sv_config srv)) div 1024 div 1024) @ str '' MB''\<rparr>,
                srv, files)
          else
            let name = sanitise_name given_name;
                content_type = content_type_for name;
                (width, height) = cy_dimensions Y body
            in case blob_store (cy_digest Y) files body of
                 (None, files) \<Rightarrow> (Inl internal_failure, srv, files)
               | (Some sha256, files) \<Rightarrow>
                   (case insert_attachment (en_alloc E) (en_millis E) (sv_db srv) uploader name
                           (of_nat (length body)) content_type width height sha256 of
                      (Inl _, db) \<Rightarrow> (Inl internal_failure, srv\<lparr>sv_db := db\<rparr>, files)
                    | (Inr a, db) \<Rightarrow> (Inr a, srv\<lparr>sv_db := db\<rparr>, files)))"

record response =
  rs_content_type :: rstring
  rs_disposition :: rstring
  rs_cache_control :: rstring
  rs_etag :: rstring
  rs_body :: "byte list"

definition download ::
  "server \<Rightarrow> blobs \<Rightarrow> rstring option \<Rightarrow> rstring option \<Rightarrow> id \<Rightarrow> failure + response" where
  "download srv files header query i =
     (case authenticate (sv_db srv) header query of
        Inl e \<Rightarrow> Inl e
      | Inr _ \<Rightarrow>
      case attachment_by_id (sv_db srv) i of
        None \<Rightarrow> Inl \<lparr>fl_status = 404, fl_message = str ''no such attachment''\<rparr>
      | Some (a, blob_deleted) \<Rightarrow>
          if blob_deleted
          then Inl \<lparr>fl_status = 410,
                    fl_message = str ''that attachment's ''
                      @ decimal (unat (si_attachment_ttl_secs (server_info (sv_config srv))) div 86400)
                      @ str '' days on the server are up; whoever had it open still has their own copy''\<rparr>
          else
            (case blob_read files (at_sha256 a) of
               None \<Rightarrow> Inl \<lparr>fl_status = 410, fl_message = str ''the bytes for that attachment are missing''\<rparr>
             | Some bytes \<Rightarrow>
                 Inr \<lparr>rs_content_type = at_content_type a,
                      rs_disposition = str ''attachment; filename='' @ [34] @ at_name a @ [34],
                      rs_cache_control = str ''private, max-age=604800, immutable'',
                      rs_etag = [34] @ at_sha256 a @ [34],
                      rs_body = bytes\<rparr>))"

end
