(* ===== verification/Roster.thy ===== *)
theory Roster
  imports Session HubInv ClientProps
begin

text \<open>
  Who is in which call, on both sides: the hub's members as the abstract roster, what each
  frame from the server means for a roster, and the simulation between the two. A client that
  applies the frames of its queue in order holds the hub's roster.
\<close>

type_synonym roster = "id \<Rightarrow> voice_state option"

section \<open>The abstract roster\<close>

definition hub_roster :: "hub_state \<Rightarrow> roster" where
  "hub_roster hub = (\<lambda>u. map_option (\<lambda>m. member_state m u) (hget (members hub) u))"

text \<open>What a frame does to a roster.\<close>

fun roster_msg :: "roster \<Rightarrow> server_msg \<Rightarrow> roster" where
  "roster_msg r (Ready user server us chs voices) = map_of (rev (map (\<lambda>v. (vs_user v, v)) voices))"
| "roster_msg r (VoiceState v) = r(vs_user v \<mapsto> v)"
| "roster_msg r (VoiceLeave user ch) =
     (if map_option vs_channel (r user) = Some ch then r(user := None) else r)"
| "roster_msg r (ScreenStart user share) =
     r(user := map_option (\<lambda>v. v\<lparr>vs_screen := Some share\<rparr>) (r user))"
| "roster_msg r (ScreenStop user) = r(user := map_option (\<lambda>v. v\<lparr>vs_screen := None\<rparr>) (r user))"
| "roster_msg r _ = r"

lemma collect_map_hget: "hget (collect_map kvs) = map_of (rev kvs)"
proof (induction kvs rule: rev_induct)
  case (snoc kv kvs)
  then show ?case
    by (cases kv) (auto simp: collect_map_def update_conv' fun_eq_iff map_add_def)
qed (simp add: collect_map_def)

lemma log_mut_voice [simp]: "cs_voice (log_mut s ch f) = cs_voice s"
  by (simp add: log_mut_def)

text \<open>The client's table follows the abstract roster.\<close>

lemma client_roster: "hget (cs_voice (apply_msg now s m)) = roster_msg (hget (cs_voice s)) m"
  by (cases m)
    (auto simp: fun_eq_iff hmap_simps collect_map_hget insert_message_def Let_def split: option.split)

lemma client_rosters:
  "hget (cs_voice (foldl (apply_msg now) s ms)) = foldl roster_msg (hget (cs_voice s)) ms"
  by (induction ms arbitrary: s) (simp_all add: client_roster)

section \<open>What a connection's queue receives\<close>

definition frames_for :: "conn_id \<Rightarrow> delivery list \<Rightarrow> server_msg list" where
  "frames_for c ds = map snd (filter (\<lambda>d. fst d = c) ds)"

lemma frames_for_Nil [simp]: "frames_for c [] = []"
  by (simp add: frames_for_def)

lemma frames_for_append [simp]: "frames_for c (ds @ es) = frames_for c ds @ frames_for c es"
  by (simp add: frames_for_def)

lemma filter_key:
  "hmap_ok m \<Longrightarrow> filter (\<lambda>(k, _). k = c) m = (case hget m c of None \<Rightarrow> [] | Some v \<Rightarrow> [(c, v)])"
proof (induction m)
  case (Cons kv m)
  then have "c = fst kv \<Longrightarrow> hget m c = None" by (auto simp: hmap_ok_def map_of_eq_None_iff)
  with Cons show ?case by (cases kv) (auto simp: hmap_ok_def)
qed simp

lemma frames_broadcast:
  assumes "hmap_ok (conns hub)"
  shows "frames_for c (broadcast hub msg) = (if hget (conns hub) c = None then [] else [msg])"
  using filter_key [OF assms, of c]
  by (auto simp: frames_for_def broadcast_def filter_map comp_def case_prod_unfold split: option.splits)

lemma frames_broadcast_except:
  assumes "hmap_ok (conns hub)"
  shows "frames_for c (broadcast_except hub x msg) =
    (if c = x \<or> hget (conns hub) c = None then [] else [msg])"
proof -
  have "filter (\<lambda>p. fst p = c) (filter (\<lambda>p. fst p \<noteq> x) (conns hub)) =
      (if c = x then [] else filter (\<lambda>p. fst p = c) (conns hub))"
    by (auto simp: filter_empty_conv intro: filter_cong)
  with filter_key [OF assms, of c] show ?thesis
    by (auto simp: frames_for_def broadcast_except_def filter_map comp_def case_prod_unfold split: option.splits)
qed

lemma frames_send_to_conn:
  "frames_for c (send_to_conn hub x msg) = (if c = x \<and> hget (conns hub) x \<noteq> None then [msg] else [])"
  by (auto simp: frames_for_def send_to_conn_def split: option.split)

lemmas frames_simps = frames_broadcast frames_broadcast_except frames_send_to_conn

text \<open>Frames that say nothing about calls.\<close>

definition silent_frames :: "delivery list \<Rightarrow> bool" where
  "silent_frames ds \<longleftrightarrow> (\<forall>d \<in> set ds. \<forall>r. roster_msg r (snd d) = r)"

lemma silent_Nil [simp]: "silent_frames []"
  by (simp add: silent_frames_def)

lemma silent_append [simp]: "silent_frames (ds @ es) \<longleftrightarrow> silent_frames ds \<and> silent_frames es"
  by (auto simp: silent_frames_def)

lemma silent_rosters: "silent_frames ds \<Longrightarrow> foldl roster_msg r (frames_for c ds) = r"
  by (induction ds arbitrary: r) (auto simp: silent_frames_def frames_for_def)

lemma silent_broadcast: "(\<And>r. roster_msg r msg = r) \<Longrightarrow> silent_frames (broadcast hub msg)"
  by (auto simp: silent_frames_def broadcast_def)

lemma silent_broadcast_except: "(\<And>r. roster_msg r msg = r) \<Longrightarrow> silent_frames (broadcast_except hub x msg)"
  by (auto simp: silent_frames_def broadcast_except_def)

lemma silent_send: "(\<And>r. roster_msg r msg = r) \<Longrightarrow> silent_frames (send_to_conn hub x msg)"
  by (auto simp: silent_frames_def send_to_conn_def split: option.split)

lemma silent_user: "(\<And>r. roster_msg r msg = r) \<Longrightarrow> silent_frames (snd (send_to_user alive hub u msg))"
  by (auto simp: silent_frames_def send_to_user_def Let_def)

lemma silent_error [simp]: "roster_msg r (error code txt) = r" "roster_msg r (fatal code txt) = r"
  by (simp_all add: error_def fatal_def)

lemma silent_concat: "(\<And>x. x \<in> set xs \<Longrightarrow> silent_frames (f x)) \<Longrightarrow> silent_frames (concat (map f xs))"
  by (auto simp: silent_frames_def)

lemmas silent_intros = silent_broadcast silent_broadcast_except silent_send silent_user silent_concat

section \<open>What each operation of the hub does to the roster\<close>

lemma roster_set_member:
  "hget (members hub) user = Some m \<Longrightarrow>
    hub_roster (hub\<lparr>members := hinsert user m' (members hub)\<rparr>) = (hub_roster hub)(user \<mapsto> member_state m' user)"
  by (auto simp: hub_roster_def hmap_simps)

lemma roster_flags:
  "set_voice_flags hub user mu de = (Some v, hub') \<Longrightarrow>
    hub_roster hub' = (hub_roster hub)(user \<mapsto> v) \<and> vs_user v = user \<and> conns hub' = conns hub"
  by (auto simp: set_voice_flags_def hub_roster_def hmap_simps member_state_def split: option.splits)

lemma roster_start:
  "start_screen hub user rq = (Some share, hub') \<Longrightarrow>
    hub_roster hub' = roster_msg (hub_roster hub) (ScreenStart user share) \<and> conns hub' = conns hub"
  by (auto simp: start_screen_def hub_roster_def hmap_simps member_state_def fun_eq_iff Let_def split: option.splits)

lemma roster_stop:
  "hub_roster (snd (stop_screen hub user)) = roster_msg (hub_roster hub) (ScreenStop user)
    \<and> conns (snd (stop_screen hub user)) = conns hub
    \<and> (fst (stop_screen hub user) = None \<longleftrightarrow> hub_roster hub user = None)"
  by (auto simp: stop_screen_def hub_roster_def hmap_simps member_state_def fun_eq_iff Let_def
      option.map_comp comp_def split: option.splits)

lemma roster_remove:
  "hub_roster (snd (remove_member hub user)) = (hub_roster hub)(user := None)"
  by (cases "hget (members hub) user")
    (auto simp: hub_roster_def remove_member_members member_state_def fun_eq_iff option.map_comp comp_def)

lemma roster_leave:
  "hub_roster (snd (leave_voice hub user)) = (hub_roster hub)(user := None)
    \<and> fst (leave_voice hub user) = map_option vs_channel (hub_roster hub user)
    \<and> conns (snd (leave_voice hub user)) = conns hub"
  unfolding leave_voice_def
  by (simp add: roster_remove remove_member_fst) (simp add: hub_roster_def option.map_comp comp_def member_state_def)

lemma take_ssrc_roster:
  assumes "take_ssrc hub = Some r" shows "members (snd r) = members hub \<and> conns (snd r) = conns hub"
  using assms
proof (rule take_ssrc.raw_induct [of "\<lambda>hub r. members (snd r) = members hub \<and> conns (snd r) = conns hub", rotated])
  fix f st r
  assume "\<And>st r. f st = Some r \<Longrightarrow> members (snd r) = members st \<and> conns (snd r) = conns st"
    and "(let ssrc = next_ssrc st; st' = st\<lparr>next_ssrc := next_ssrc st + 1\<rparr>
          in if ssrc \<noteq> 0 \<and> hget (by_ssrc st') ssrc = None then Some (ssrc, st') else f st') = Some r"
  then show "members (snd r) = members st \<and> conns (snd r) = conns st"
    by (fastforce simp: Let_def split: if_splits)
qed

lemma roster_join:
  assumes "join_voice b64 entropy now hub user channel = Some ((state, key, previous), hub')"
  shows "hub_roster hub' = (hub_roster hub)(user \<mapsto> state) \<and> vs_user state = user
    \<and> previous = map_option vs_channel (hub_roster hub user) \<and> conns hub' = conns hub"
proof -
  obtain hub0 where rm: "remove_member hub user = (previous, hub0)"
    using assms by (auto simp: join_voice_def Let_def split: prod.splits option.splits)
  with assms obtain v hub1 s hub2 where ts: "take_ssrc hub0 = Some (v, hub1)" "take_ssrc hub1 = Some (s, hub2)"
    by (auto simp: join_voice_def Let_def split: prod.splits option.splits)
  have 0: "hub_roster hub0 = (hub_roster hub)(user := None)" "conns hub0 = conns hub"
    "previous = map_option mb_channel (hget (members hub) user)"
    using roster_remove [of hub user] remove_member_next(3) [of hub user] remove_member_fst [of hub user]
    by (simp_all add: rm)
  have mem: "members hub2 = members hub0" "conns hub2 = conns hub0"
    using take_ssrc_roster [OF ts(1)] take_ssrc_roster [OF ts(2)] by simp_all
  have new: "members hub' = hinsert user \<lparr>mb_channel = channel, mb_voice_ssrc = v, mb_screen_ssrc = s,
                   mb_muted = False, mb_deafened = False, mb_screen = None, mb_watching = {},
                   mb_addr = None, mb_last_seen = now\<rparr> (members hub2)"
    "conns hub' = conns hub2"
    "state = \<lparr>vs_user = user, vs_channel = channel, vs_muted = False,
                       vs_deafened = False, vs_ssrc = v, vs_screen = None\<rparr>"
    using assms by (auto simp: join_voice_def rm ts Let_def split: option.splits)
  have "hub_roster hub' = (hub_roster hub0)(user \<mapsto> state)"
    by (auto simp: hub_roster_def new mem hmap_simps member_state_def)
  with 0 show ?thesis
    by (simp add: new mem hub_roster_def option.map_comp comp_def member_state_def)
qed

lemma roster_watch: "hub_roster (snd (watch hub a b)) = hub_roster hub \<and> conns (snd (watch hub a b)) = conns hub"
  by (auto simp: watch_def hub_roster_def hmap_simps member_state_def fun_eq_iff split: option.split)

lemma roster_unwatch: "hub_roster (unwatch hub a b) = hub_roster hub \<and> conns (unwatch hub a b) = conns hub"
  by (auto simp: unwatch_def hub_roster_def hmap_simps member_state_def fun_eq_iff split: option.split)

lemma roster_ready:
  assumes "hmap_ok (members hub)"
  shows "map_of (rev (map (\<lambda>v. (vs_user v, v)) (voice_states hub))) = hub_roster hub"
proof -
  let ?kvs = "map (\<lambda>v. (vs_user v, v)) (voice_states hub)"
  have users: "map vs_user (map (\<lambda>(user, m). member_state m user) (members hub)) = map fst (members hub)"
    by (auto simp: member_state_def)
  have "mset (map vs_user (voice_states hub)) = mset (map fst (members hub))"
    by (metis (no_types, lifting) users mset_map mset_sort voice_states_def)
  then have dist: "distinct (map fst ?kvs)"
    using assms mset_eq_imp_distinct_iff [of "map vs_user (voice_states hub)" "map fst (members hub)"] by (simp add: hmap_ok_def comp_def)
  have "map_of ?kvs u = hub_roster hub u" for u
  proof (cases "hget (members hub) u")
    case None
    then have "u \<notin> fst ` set (members hub)" by (simp add: map_of_eq_None_iff)
    then have "u \<notin> fst ` set ?kvs" by (auto simp: voice_states_def member_state_def image_iff)
    then have "map_of ?kvs u = None" unfolding map_of_eq_None_iff .
    with None show ?thesis by (simp add: hub_roster_def)
  next
    case (Some m)
    then have "(u, m) \<in> set (members hub)" by (rule map_of_SomeD)
    then have "(u, member_state m u) \<in> set ?kvs"
      by (auto simp: voice_states_def member_state_def image_iff intro!: bexI [of _ "(u, m)"])
    with dist Some show ?thesis by (simp add: hub_roster_def)
  qed
  then show ?thesis
    using dist map_of_inject_set [of ?kvs "rev ?kvs"] by (simp add: rev_map [symmetric] fun_eq_iff)
qed

section \<open>One frame, and the two ends of a connection\<close>

text \<open>What a reply leaves behind agrees with what it tells every connection.\<close>

definition announces :: "hub_state \<Rightarrow> hub_state \<Rightarrow> delivery list \<Rightarrow> bool" where
  "announces hub hub' ds \<longleftrightarrow>
     (\<forall>c. hget (conns hub') c \<noteq> None \<longrightarrow> foldl roster_msg (hub_roster hub) (frames_for c ds) = hub_roster hub')"

lemma announces_silent: "silent_frames ds \<Longrightarrow> hub_roster hub' = hub_roster hub \<Longrightarrow> announces hub hub' ds"
  by (simp add: announces_def silent_rosters)

text \<open>The replies whose hub is the one they found.\<close>

lemmas quiet_defs = send_def fail_def internal_def handle_history_def handle_send_message_def
  handle_edit_message_def handle_delete_message_def handle_typing_def handle_create_channel_def
  handle_set_display_name_def handle_speaking_def handle_screen_report_def handle_offer_file_def

lemma quiet_send [simp]:
  "(\<And>r. roster_msg r msg = r) \<Longrightarrow> silent_frames (send ses srv msg)"
  "silent_frames (fail ses srv code txt)" "silent_frames (internal ses srv)"
  by (auto simp: send_def fail_def internal_def intro!: silent_send)

lemma quiet_broadcast [simp]:
  "(\<And>r. roster_msg r msg = r) \<Longrightarrow> silent_frames (broadcast hub msg)"
  "(\<And>r. roster_msg r msg = r) \<Longrightarrow> silent_frames (broadcast_except hub x msg)"
  "(\<And>r. roster_msg r msg = r) \<Longrightarrow> silent_frames (snd (send_to_user alive hub u msg))"
  by (rule silent_intros; simp)+

abbreviation reply_announces :: "server \<Rightarrow> reply \<Rightarrow> bool" where
  "reply_announces srv r \<equiv>
     announces (sv_hub srv) (sv_hub (fst (snd (snd r)))) (snd (snd (snd r)))
     \<and> conns (sv_hub (fst (snd (snd r)))) = conns (sv_hub srv)"

lemma quiet_replies:
  "reply_announces srv (handle_history ses srv ch before limit)"
  "reply_announces srv (handle_send_message E ses srv ch content nonc ups)"
  "reply_announces srv (handle_edit_message E ses srv i content)"
  "reply_announces srv (handle_delete_message ses srv i)"
  "reply_announces srv (handle_typing E ses srv ch)"
  "reply_announces srv (handle_create_channel E ses srv name kind)"
  "reply_announces srv (handle_set_display_name ses srv name)"
  "reply_announces srv (handle_speaking E ses srv sp)"
  "reply_announces srv (handle_screen_report E ses srv user received lost want)"
  by (auto simp: handle_history_def handle_send_message_def handle_edit_message_def
      handle_delete_message_def handle_typing_def handle_create_channel_def handle_set_display_name_def
      handle_speaking_def handle_screen_report_def Let_def
      intro!: announces_silent silent_concat split: prod.split option.split sum.split)

lemma offer_reply: "reply_announces srv (handle_offer_file E ses srv to_user offer)"
proof -
  obtain reached ds where sent:
    "send_to_user (en_alive E) (sv_hub srv) to_user (FileOffer (u_id (se_user ses)) offer) = (reached, ds)"
    by fastforce
  then have "silent_frames ds"
    using quiet_broadcast(3) [of "FileOffer (u_id (se_user ses)) offer" "en_alive E" "sv_hub srv" to_user] by simp
  then show ?thesis by (simp add: handle_offer_file_def sent announces_silent)
qed

lemma flags_reply:
  assumes "hmap_ok (conns (sv_hub srv))"
  shows "reply_announces srv (handle_voice_flags ses srv mu de)"
  using assms
  by (auto simp: handle_voice_flags_def announces_def frames_broadcast silent_rosters
      dest: roster_flags split: prod.split option.split)

lemma start_reply:
  assumes "hmap_ok (conns (sv_hub srv))"
  shows "reply_announces srv (handle_start_screen ses srv rq)"
  using assms
  by (auto simp: handle_start_screen_def announces_def frames_broadcast silent_rosters
      dest: roster_start split: prod.split option.split sum.split)

lemma stop_reply:
  assumes "hmap_ok (conns (sv_hub srv))"
  shows "reply_announces srv (handle_stop_screen ses srv)"
  using assms roster_stop [of "sv_hub srv" "u_id (se_user ses)"]
  by (auto simp: handle_stop_screen_def announces_def frames_broadcast fun_eq_iff
      split: prod.split option.split)

lemma watch_reply: "reply_announces srv (handle_watch ses srv target)"
  using roster_watch [of "sv_hub srv" "u_id (se_user ses)" target]
  by (auto simp: handle_watch_def intro!: announces_silent split: prod.split bool.split)

lemma join_reply:
  assumes "hmap_ok (conns (sv_hub srv))" "handle_join_voice E ses srv ch = Some r"
  shows "reply_announces srv r"
  using assms
  by (auto simp: handle_join_voice_def announces_def frames_simps silent_rosters send_def Let_def
      intro!: announces_silent dest!: roster_join split: option.splits if_splits prod.splits)

text \<open>Stopping a share and leaving, as both \<open>LeaveVoice\<close> and the teardown do it.\<close>

lemma leaving_announces:
  assumes "hmap_ok (conns hub)" "hget (conns hub) c \<noteq> None"
    and "stop_screen hub user = (stopped, hub1)" "leave_voice hub1 user = (Some channel, hub2)"
  shows "foldl roster_msg (hub_roster hub)
      (frames_for c ((if stopped \<noteq> None then broadcast hub2 (ScreenStop user) else [])
        @ broadcast hub2 (VoiceLeave user channel))) = hub_roster hub2"
    and "conns hub2 = conns hub"
proof -
  have 1: "hub_roster hub1 = roster_msg (hub_roster hub) (ScreenStop user)" "conns hub1 = conns hub"
    "stopped = None \<longleftrightarrow> hub_roster hub user = None"
    using roster_stop [of hub user] by (simp_all add: assms(3))
  have 2: "hub_roster hub2 = (hub_roster hub1)(user := None)" "conns hub2 = conns hub1"
    "Some channel = map_option vs_channel (hub_roster hub1 user)"
    using roster_leave [of hub1 user] by (simp_all add: assms(4))
  show "conns hub2 = conns hub" by (simp add: 1 2)
  obtain v where "hub_roster hub user = Some v" "vs_channel v = channel"
    using 2(3) 1(1) by (cases "hub_roster hub user") auto
  moreover obtain conn where "hget (conns hub) c = Some conn" using assms(2) by blast
  ultimately show "foldl roster_msg (hub_roster hub)
      (frames_for c ((if stopped \<noteq> None then broadcast hub2 (ScreenStop user) else [])
        @ broadcast hub2 (VoiceLeave user channel))) = hub_roster hub2"
    using assms(1) 1 2(1,2) by (simp add: frames_broadcast)
qed

lemma leave_nobody:
  assumes "stop_screen hub user = (stopped, hub1)" "leave_voice hub1 user = (None, hub2)"
  shows "hub_roster hub2 = hub_roster hub" "conns hub2 = conns hub"
  using roster_stop [of hub user] roster_leave [of hub1 user] assms by (auto simp: fun_eq_iff)

lemma leave_reply:
  assumes "hmap_ok (conns (sv_hub srv))"
  shows "reply_announces srv (handle_leave_voice ses srv)"
proof -
  let ?user = "u_id (se_user ses)"
  obtain stopped hub1 where st: "stop_screen (sv_hub srv) ?user = (stopped, hub1)" by fastforce
  obtain left hub2 where lv: "leave_voice hub1 ?user = (left, hub2)" by fastforce
  show ?thesis
  proof (cases left)
    case None
    with leave_nobody [of "sv_hub srv" ?user stopped hub1 hub2] st lv show ?thesis
      by (simp add: handle_leave_voice_def announces_silent)
  next
    case (Some channel)
    have conns: "conns hub2 = conns (sv_hub srv)"
      using st lv Some by (auto simp: stop_screen_def leave_voice_def remove_member_def Let_def split: option.splits)
    show ?thesis
      using leaving_announces(1) [OF assms _ st lv [unfolded Some]] Some
      by (simp add: handle_leave_voice_def Let_def st lv announces_def conns)
  qed
qed

lemma handle_reply:
  assumes "hmap_ok (conns (sv_hub srv))" "handle E ses srv msg = Some r"
  shows "reply_announces srv r"
proof (cases msg)
  case (JoinVoice ch)
  with assms join_reply show ?thesis by simp
qed (use assms(2) roster_unwatch in \<open>clarsimp simp: announces_silent quiet_replies offer_reply watch_reply
  flags_reply [OF assms(1)] start_reply [OF assms(1)] stop_reply [OF assms(1)] leave_reply [OF assms(1)]\<close>)+

lemma handle_announces:
  assumes "hmap_ok (conns (sv_hub srv))" "handle E ses srv msg = Some (flow, ses', srv', ds)"
  shows "announces (sv_hub srv) (sv_hub srv') ds" "conns (sv_hub srv') = conns (sv_hub srv)"
  using handle_reply [OF assms] by simp_all

lemma handle_frame_announces:
  assumes "hmap_ok (conns (sv_hub srv))" "handle_frame E ses srv f = Some (flow, ses', srv', ds)"
  shows "announces (sv_hub srv) (sv_hub srv') ds" "conns (sv_hub srv') = conns (sv_hub srv)"
  using assms handle_announces [OF assms(1)]
  by (cases f; auto simp: announces_silent)+

lemma open_announces:
  assumes "hmap_ok (conns (sv_hub srv))" "hmap_ok (members (sv_hub srv))"
    and "session_open srv user = (ses, srv', ds)" and "hget (conns (sv_hub srv')) c \<noteq> None"
  shows "foldl roster_msg r (frames_for c ds) = (if c = se_conn ses then hub_roster (sv_hub srv') else r)"
    and "hub_roster (sv_hub srv') = hub_roster (sv_hub srv)"
proof -
  obtain cid first hub where conn: "connect (sv_hub srv) (u_id user) = ((cid, first), hub)" by (metis prod.exhaust)
  have hub: "conns hub = hinsert cid \<lparr>cn_user = u_id user\<rparr> (conns (sv_hub srv))" "members hub = members (sv_hub srv)"
    using conn by (auto simp: connect_def Let_def)
  have ok: "hmap_ok (conns hub)" by (simp add: hub assms(1))
  have made: "se_conn ses = cid" "sv_hub srv' = hub"
    "ds = send_ready ses srv' @ (if first then broadcast_except hub cid (Presence (u_id user) True) else [])"
    using assms(3) by (auto simp: session_open_def conn Let_def)
  have "silent_frames (if first then broadcast_except hub cid (Presence (u_id user) True) else [])" by simp
  then show "foldl roster_msg r (frames_for c ds) = (if c = se_conn ses then hub_roster (sv_hub srv') else r)"
    by (simp add: made silent_rosters send_ready_def frames_send_to_conn hub hmap_simps
        roster_ready assms(2))
  show "hub_roster (sv_hub srv') = hub_roster (sv_hub srv)" by (simp add: made hub_roster_def hub)
qed

lemma close_announces:
  assumes "hmap_ok (conns (sv_hub srv))" "session_close ses srv = (srv', ds)"
  shows "announces (sv_hub srv) (sv_hub srv') ds"
    and "conns (sv_hub srv') = hremove (se_conn ses) (conns (sv_hub srv)) \<or> conns (sv_hub srv') = conns (sv_hub srv)"
proof -
  let ?user = "u_id (se_user ses)"
  obtain final hub where dis: "disconnect (sv_hub srv) (se_conn ses) = (final, hub)" by fastforce
  have hub: "hub_roster hub = hub_roster (sv_hub srv)" "hmap_ok (conns hub)"
      "conns hub = hremove (se_conn ses) (conns (sv_hub srv)) \<or> conns hub = conns (sv_hub srv)"
    using dis assms(1) by (auto simp: disconnect_def Let_def hub_roster_def split: option.splits)
  obtain stopped hub1 where st: "stop_screen hub ?user = (stopped, hub1)" by fastforce
  obtain left hub2 where lv: "leave_voice hub1 ?user = (left, hub2)" by fastforce
  have silent: "silent_frames (broadcast h (Presence ?user False))" for h by simp
  have "announces (sv_hub srv) (sv_hub srv') ds \<and>
    (conns (sv_hub srv') = hremove (se_conn ses) (conns (sv_hub srv)) \<or> conns (sv_hub srv') = conns (sv_hub srv))"
  proof (cases "final \<and> voice_channel_of hub ?user \<noteq> None \<and> left \<noteq> None")
    case True
    then obtain ch where ch: "left = Some ch" by blast
    have conns: "conns hub2 = conns hub"
      using st lv by (auto simp: stop_screen_def leave_voice_def remove_member_def Let_def split: option.splits)
    have made: "sv_hub srv' = hub2"
      "ds = ((if stopped \<noteq> None then broadcast hub2 (ScreenStop ?user) else [])
             @ broadcast hub2 (VoiceLeave ?user ch)) @ broadcast hub2 (Presence ?user False)"
      using assms(2) True by (auto simp: session_close_def Let_def dis st lv ch)
    have "foldl roster_msg (hub_roster hub) (frames_for c ds) = hub_roster hub2" if "hget (conns hub) c \<noteq> None" for c
      using leaving_announces(1) [OF hub(2) that st lv [unfolded ch]] silent_rosters [OF silent]
      unfolding made(2) frames_for_append [of c _ "broadcast hub2 (Presence ?user False)"] foldl_append by simp
    then show ?thesis using hub conns by (simp add: announces_def made(1))
  next
    case False
    with assms(2) leave_nobody [of hub ?user stopped hub1 hub2] st lv hub show ?thesis
      by (cases final; cases "voice_channel_of hub ?user"; cases left)
        (auto simp: session_close_def Let_def dis announces_silent)
  qed
  then show "announces (sv_hub srv) (sv_hub srv') ds"
    "conns (sv_hub srv') = hremove (se_conn ses) (conns (sv_hub srv)) \<or> conns (sv_hub srv') = conns (sv_hub srv)"
    by simp_all
qed

end
