(* ===== verification/World.thy ===== *)
theory World
  imports Roster DbProps HubProps
begin

text \<open>
  The server with all its connections and the clients at their other ends: a step relation
  that interleaves connections opening, their frames, their teardown and the relay's address
  bindings, each delivering what it sends to the clients. A handler is one step: these are the
  serial runs, in which no handler starts before another one has queued its frames. The invariant
  is the simulation of \<open>Roster\<close> for every connected client. The server's tasks are not kept
  apart like that, and the last section shows what becomes of a greeting that is overtaken.
\<close>

record world =
  w_server :: server
  w_sessions :: "(conn_id, session) hmap"
  w_clients :: "conn_id \<Rightarrow> client_state"

text \<open>Each client applies what reaches its connection, in order.\<close>

definition deliver :: "nat \<Rightarrow> delivery list \<Rightarrow> (conn_id \<Rightarrow> client_state) \<Rightarrow> conn_id \<Rightarrow> client_state" where
  "deliver now ds clients = (\<lambda>c. foldl (apply_msg now) (clients c) (frames_for c ds))"

text \<open>
  Handlers run one after the other: each takes and releases the hub's lock several times, and
  here nothing comes in between.
\<close>

inductive serial_step :: "world \<Rightarrow> world \<Rightarrow> bool" where
  w_open: "session_open (w_server w) user = (ses, srv, ds) \<Longrightarrow>
    serial_step w \<lparr>w_server = srv, w_sessions = hinsert (se_conn ses) ses (w_sessions w),
      w_clients = deliver now ds ((w_clients w)(se_conn ses := before))\<rparr>"
| w_frame: "hget (w_sessions w) c = Some ses \<Longrightarrow>
    handle_frame E ses (w_server w) f = Some (flow, ses', srv, ds) \<Longrightarrow>
    serial_step w \<lparr>w_server = srv, w_sessions = hinsert c ses' (w_sessions w),
      w_clients = deliver now ds (w_clients w)\<rparr>"
| w_close: "hget (w_sessions w) c = Some ses \<Longrightarrow> session_close ses (w_server w) = (srv, ds) \<Longrightarrow>
    serial_step w \<lparr>w_server = srv, w_sessions = hremove c (w_sessions w),
      w_clients = deliver now ds (w_clients w)\<rparr>"
| w_bind: "serial_step w (w\<lparr>w_server := (w_server w)\<lparr>sv_hub :=
      snd (bind_media_address now (sv_hub (w_server w)) user addr)\<rparr>\<rparr>)"

definition server_start :: "config \<Rightarrow> db \<Rightarrow> world" where
  "server_start config db =
     \<lparr>w_server = \<lparr>sv_config = config, sv_hub = new_state, sv_db = db\<rparr>, w_sessions = [],
      w_clients = (\<lambda>_. default_state)\<rparr>"

section \<open>The invariant\<close>

definition tables_ok :: "hub_state \<Rightarrow> bool" where
  "tables_ok hub \<longleftrightarrow> hmap_ok (conns hub) \<and> hmap_ok (members hub)"

definition world_ok :: "world \<Rightarrow> bool" where
  "world_ok w \<longleftrightarrow> tables_ok (sv_hub (w_server w))
     \<and> (\<forall>c. hget (conns (sv_hub (w_server w))) c \<noteq> None \<longrightarrow>
          hget (cs_voice (w_clients w c)) = hub_roster (sv_hub (w_server w)))"

lemma tables_ops [simp]:
  "tables_ok hub \<Longrightarrow> tables_ok (snd (connect hub u))"
  "tables_ok hub \<Longrightarrow> tables_ok (snd (disconnect hub cid))"
  "tables_ok hub \<Longrightarrow> tables_ok (snd (set_voice_flags hub u mu de))"
  "tables_ok hub \<Longrightarrow> tables_ok (snd (start_screen hub u rq))"
  "tables_ok hub \<Longrightarrow> tables_ok (snd (stop_screen hub u))"
  "tables_ok hub \<Longrightarrow> tables_ok (snd (leave_voice hub u))"
  "tables_ok hub \<Longrightarrow> tables_ok (snd (watch hub a b))"
  "tables_ok hub \<Longrightarrow> tables_ok (unwatch hub a b)"
  "tables_ok hub \<Longrightarrow> tables_ok (snd (bind_media_address now hub u addr))"
  by (auto simp: tables_ok_def connect_def disconnect_def set_voice_flags_def start_screen_def
      stop_screen_def leave_voice_def remove_member_def watch_def unwatch_def bind_media_address_def
      Let_def split: option.split)

lemma tables_join:
  assumes "tables_ok hub" "join_voice b64 entropy now hub user ch = Some (r, hub')"
  shows "tables_ok hub'"
proof -
  obtain p hub0 where rm: "remove_member hub user = (p, hub0)" by fastforce
  with assms obtain v hub1 s hub2 where ts: "take_ssrc hub0 = Some (v, hub1)" "take_ssrc hub1 = Some (s, hub2)"
    by (auto simp: join_voice_def Let_def split: option.splits)
  have "tables_ok hub0" using tables_ops(6) [OF assms(1), of user] by (simp add: leave_voice_def rm)
  with take_ssrc_roster [OF ts(1)] take_ssrc_roster [OF ts(2)] assms(2) show ?thesis
    by (auto simp: join_voice_def rm ts Let_def tables_ok_def split: option.splits)
qed

lemma tables_results:
  "disconnect hub cid = (x, hub') \<Longrightarrow> tables_ok hub \<Longrightarrow> tables_ok hub'"
  "connect hub u = (y, hub') \<Longrightarrow> tables_ok hub \<Longrightarrow> tables_ok hub'"
  "set_voice_flags hub u mu de = (v, hub') \<Longrightarrow> tables_ok hub \<Longrightarrow> tables_ok hub'"
  "start_screen hub u rq = (sh, hub') \<Longrightarrow> tables_ok hub \<Longrightarrow> tables_ok hub'"
  "stop_screen hub u = (i, hub') \<Longrightarrow> tables_ok hub \<Longrightarrow> tables_ok hub'"
  "leave_voice hub u = (i, hub') \<Longrightarrow> tables_ok hub \<Longrightarrow> tables_ok hub'"
  "watch hub a b = (x, hub') \<Longrightarrow> tables_ok hub \<Longrightarrow> tables_ok hub'"
  using tables_ops by (metis snd_conv)+

lemma tables_reply:
  assumes "tables_ok (sv_hub srv)" "handle E ses srv msg = Some r"
  shows "tables_ok (sv_hub (fst (snd (snd r))))"
proof (cases msg)
  case (JoinVoice ch)
  with assms show ?thesis
    by (auto simp: handle_join_voice_def Let_def split: option.splits if_splits prod.splits intro: tables_join)
qed (use assms in \<open>auto simp: handle_history_def handle_send_message_def handle_edit_message_def
      handle_delete_message_def handle_typing_def handle_create_channel_def handle_set_display_name_def
      handle_speaking_def handle_screen_report_def handle_offer_file_def handle_leave_voice_def
      handle_voice_flags_def handle_start_screen_def handle_stop_screen_def handle_watch_def Let_def
      intro: tables_results tables_results(6) [OF _ tables_results(5)] split: prod.splits option.splits sum.splits bool.splits\<close>)

lemma tables_frame:
  "tables_ok (sv_hub srv) \<Longrightarrow> handle_frame E ses srv f = Some (flow, ses', srv', ds) \<Longrightarrow> tables_ok (sv_hub srv')"
  using tables_reply [of srv E ses _ "(flow, ses', srv', ds)"] by (cases f) auto

lemma tables_open: "tables_ok (sv_hub srv) \<Longrightarrow> session_open srv user = (ses, srv', ds) \<Longrightarrow> tables_ok (sv_hub srv')"
  by (auto simp: session_open_def Let_def intro: tables_results tables_results(6) [OF _ tables_results(5)] split: prod.splits)

lemma tables_close: "tables_ok (sv_hub srv) \<Longrightarrow> session_close ses srv = (srv', ds) \<Longrightarrow> tables_ok (sv_hub srv')"
  by (auto simp: session_close_def Let_def intro: tables_results tables_results(6) [OF _ tables_results(5)] split: prod.splits bool.splits option.splits if_splits)

lemma deliver_roster:
  "hget (cs_voice (deliver now ds clients c)) = foldl roster_msg (hget (cs_voice (clients c))) (frames_for c ds)"
  by (simp add: deliver_def client_rosters)

text \<open>A step that announces what it did and connects nobody keeps every connected client in step.\<close>

lemma world_announced:
  assumes "world_ok w" "announces (sv_hub (w_server w)) (sv_hub srv) ds" "tables_ok (sv_hub srv)"
    and "\<And>c. hget (conns (sv_hub srv)) c \<noteq> None \<Longrightarrow> hget (conns (sv_hub (w_server w))) c \<noteq> None"
  shows "world_ok \<lparr>w_server = srv, w_sessions = sessions, w_clients = deliver now ds (w_clients w)\<rparr>"
  using assms by (auto simp: world_ok_def deliver_roster announces_def)

lemma world_ok_step: "serial_step w w' \<Longrightarrow> world_ok w \<Longrightarrow> world_ok w'"
proof (induction rule: serial_step.induct)
  case (w_open w user ses srv ds now before)
  let ?hub = "sv_hub (w_server w)"
  have ok: "hmap_ok (conns ?hub)" "hmap_ok (members ?hub)" "tables_ok ?hub"
    using w_open.prems by (auto simp: world_ok_def tables_ok_def)
  note opened = open_announces [OF ok(1,2) w_open.hyps]
  have "hget (conns ?hub) c \<noteq> None" if "hget (conns (sv_hub srv)) c \<noteq> None" "c \<noteq> se_conn ses" for c
    using that w_open.hyps by (auto simp: session_open_def connect_def Let_def hmap_simps)
  then show ?case
    using w_open.prems opened tables_open [OF ok(3) w_open.hyps]
    by (auto simp: world_ok_def deliver_roster)
next
  case (w_frame w c ses E f flow ses' srv ds now)
  then have ok: "hmap_ok (conns (sv_hub (w_server w)))" "tables_ok (sv_hub (w_server w))"
    by (auto simp: world_ok_def tables_ok_def)
  show ?case
    using w_frame handle_frame_announces [OF ok(1) w_frame.hyps(2)] tables_frame [OF ok(2) w_frame.hyps(2)]
    by (intro world_announced) auto
next
  case (w_close w c ses srv ds now)
  then have ok: "hmap_ok (conns (sv_hub (w_server w)))" "tables_ok (sv_hub (w_server w))"
    by (auto simp: world_ok_def tables_ok_def)
  have "hget (conns (sv_hub (w_server w))) c \<noteq> None" if "hget (conns (sv_hub srv)) c \<noteq> None" for c
    using that close_announces(2) [OF ok(1) w_close.hyps(2)] by (auto simp: hmap_simps split: if_splits)
  then show ?case
    using w_close close_announces(1) [OF ok(1) w_close.hyps(2)] tables_close [OF ok(2) w_close.hyps(2)]
    by (intro world_announced) auto
next
  case (w_bind w now user addr)
  have "hub_roster (snd (bind_media_address now (sv_hub (w_server w)) user addr)) = hub_roster (sv_hub (w_server w))"
    "conns (snd (bind_media_address now (sv_hub (w_server w)) user addr)) = conns (sv_hub (w_server w))"
    by (auto simp: bind_media_address_def hub_roster_def hmap_simps member_state_def fun_eq_iff split: option.split)
  with w_bind show ?case by (simp add: world_ok_def)
qed

interpretation world: invariant_system world_ok serial_step
  by unfold_locales (rule world_ok_step)

lemma world_ok_start: "world_ok (server_start config db)"
  by (simp add: world_ok_def server_start_def tables_ok_def new_state_def)

text \<open>
  Claim C1. As long as handlers do not overlap, every client knows who is in which call: in every
  serial run of the server (each handler has queued its frames before the next one starts),
  whatever connections open, send and close, a connected client that has applied the frames sent
  to it holds for each user exactly the voice state the hub holds, mute flags and screen share
  included, and none for a user who is in no call. Every handler announces exactly what it did to
  the roster, to everybody who has to know. Handlers of different connections can overlap in the
  server; then it may fail, see \<open>an_overtaken_ready_is_stale\<close>.
\<close>

theorem clients_know_who_is_in_a_call:
  assumes "serial_step\<^sup>*\<^sup>* (server_start config db) w"
    and "hget (conns (sv_hub (w_server w))) c \<noteq> None"
  shows "hget (cs_voice (w_clients w c)) u =
    map_option (\<lambda>m. member_state m u) (hget (members (sv_hub (w_server w))) u)"
  using world.run_keeps [OF assms(1) world_ok_start] assms(2) by (simp add: world_ok_def hub_roster_def)

text \<open>
  A greeting reads the voice states under one lock and is queued under another. If a member leaves
  in between, the announcement is queued first and the greeting brings the member back: the
  client shows somebody in a call whom the hub does not know.
\<close>

theorem an_overtaken_ready_is_stale:
  assumes ok: "tables_ok (sv_hub srv)" and conn: "hget (conns (sv_hub srv)) (se_conn ses) \<noteq> None"
    and member: "hget (members (sv_hub srv)) (u_id (se_user leaver)) = Some m"
    and leaves: "handle_leave_voice leaver srv = (flow, leaver', srv', announced)"
  shows "hget (members (sv_hub srv')) (u_id (se_user leaver)) = None
    \<and> hget (cs_voice (deliver now (send_ready ses srv) (deliver now announced clients) (se_conn ses)))
        (u_id (se_user leaver)) = Some (member_state m (u_id (se_user leaver)))"
proof
  let ?u = "u_id (se_user leaver)"
  obtain stopped hub1 where stop: "stop_screen (sv_hub srv) ?u = (stopped, hub1)" by fastforce
  obtain ch hub where leave: "leave_voice hub1 ?u = (ch, hub)" by fastforce
  have "sv_hub srv' = hub"
    using leaves by (auto simp: handle_leave_voice_def Let_def stop leave split: option.splits)
  moreover have "hub_roster hub ?u = None" using roster_leave [of hub1 ?u] leave by simp
  ultimately show "hget (members (sv_hub srv')) ?u = None" by (simp add: hub_roster_def)
  have "hmap_ok (members (sv_hub srv))" using ok by (simp add: tables_ok_def)
  from roster_ready [OF this] conn member
  show "hget (cs_voice (deliver now (send_ready ses srv) (deliver now announced clients) (se_conn ses))) ?u =
      Some (member_state m ?u)"
    by (simp add: deliver_roster send_ready_def frames_simps hub_roster_def)
qed

section \<open>A run\<close>

definition lounge_db :: db where
  "lounge_db = snd (create_channel next_row 6 sample_db [76] channel_kind.Voice)"

definition ada :: user where
  "ada = \<lparr>u_id = Id 1, u_name = [97], u_display_name = [65], u_online = False\<rparr>"

definition quiet_env :: env where
  "quiet_env = \<lparr>en_b64 = no_base64, en_entropy = replicate 32 7, en_now = 3, en_millis = 9,
     en_alive = (\<lambda>_. True), en_alloc = next_row\<rparr>"

definition ada_session :: session where
  "ada_session = \<lparr>se_conn = ConnId 1, se_user = ada, se_last_typing = []\<rparr>"

definition ada_online :: server where
  "ada_online = \<lparr>sv_config = default_config,
     sv_hub = new_state\<lparr>conns := [(ConnId 1, \<lparr>cn_user = Id 1\<rparr>)], next_conn := 2\<rparr>, sv_db = lounge_db\<rparr>"

definition ada_in_lounge :: server where
  "ada_in_lounge = ada_online\<lparr>sv_hub := (sv_hub ada_online)\<lparr>
     members := [(Id 1, fresh_member 3 (Id 2) 1 2)], by_ssrc := [(1, Id 1), (2, Id 1)],
     keys := [(Id 2, random_key (replicate 32 7))], next_ssrc := 3\<rparr>\<rparr>"

lemma ada_opens:
  "session_open (w_server (server_start default_config lounge_db)) ada =
     (ada_session, ada_online, send_ready ada_session ada_online)"
  by (simp add: session_open_def server_start_def connect_def new_state_def ada_session_def ada_online_def
      Let_def ada_def broadcast_except_def)

lemma lounge_channels: "channel_by_id lounge_db (Id 2) =
    Some \<lparr>ch_id = Id 2, ch_name = [76], ch_kind = channel_kind.Voice, ch_position = 0, ch_topic = []\<rparr>"
  by (simp add: lounge_db_def sample_simps channel_by_id_def channels_def row_to_channel_def str_def parse_kind_def)

lemma ada_joins_lounge:
  "handle_frame quiet_env ada_session ada_online (Readable (JoinVoice (Id 2))) =
     Some (Continue, ada_session, ada_in_lounge,
       [(ConnId 1, VoiceReady (Id 2) 1 [] 8788),
        (ConnId 1, VoiceState (member_state (fresh_member 3 (Id 2) 1 2) (Id 1)))])"
  by (simp add: handle_join_voice_def Let_def ada_session_def ada_online_def ada_in_lounge_def lounge_channels
      join_voice_def remove_member_def new_state_def take_ssrc.simps quiet_env_def ada_def fresh_member_def
      member_state_def to_base64_def no_base64_def send_def send_to_conn_def broadcast_def
      default_config_def DEFAULT_MEDIA_PORT_def)

definition lounge_world :: world where
  "lounge_world = \<lparr>w_server = ada_in_lounge, w_sessions = [(ConnId 1, ada_session)],
     w_clients = deliver 4 [(ConnId 1, VoiceReady (Id 2) 1 [] 8788),
        (ConnId 1, VoiceState (member_state (fresh_member 3 (Id 2) 1 2) (Id 1)))]
       (deliver 4 (send_ready ada_session ada_online)
         ((\<lambda>_. default_state)(ConnId 1 := default_state)))\<rparr>"

lemma lounge_run: "serial_step\<^sup>*\<^sup>* (server_start default_config lounge_db) lounge_world"
proof -
  let ?w = "server_start default_config lounge_db"
  have 1: "serial_step ?w \<lparr>w_server = ada_online, w_sessions = [(ConnId 1, ada_session)],
      w_clients = deliver 4 (send_ready ada_session ada_online) ((\<lambda>_. default_state)(ConnId 1 := default_state))\<rparr>"
    using w_open [OF ada_opens, of 4 default_state] by (simp add: server_start_def ada_session_def)
  have 2: "serial_step \<lparr>w_server = ada_online, w_sessions = [(ConnId 1, ada_session)],
      w_clients = deliver 4 (send_ready ada_session ada_online) ((\<lambda>_. default_state)(ConnId 1 := default_state))\<rparr>
      lounge_world"
    using w_frame [of "\<lparr>w_server = ada_online, w_sessions = [(ConnId 1, ada_session)],
      w_clients = deliver 4 (send_ready ada_session ada_online) ((\<lambda>_. default_state)(ConnId 1 := default_state))\<rparr>"
      "ConnId 1" ada_session quiet_env "Readable (JoinVoice (Id 2))" _ _ _ _ 4]
    unfolding lounge_world_def by (simp only: world.simps ada_joins_lounge) simp
  from 1 2 show ?thesis by (blast intro: rtranclp.rtrancl_into_rtrancl)
qed

theorem clients_know_who_is_in_a_call_witness:
  "hget (cs_voice (w_clients lounge_world (ConnId 1))) (Id 1) =
     Some (member_state (fresh_member 3 (Id 2) 1 2) (Id 1))"
  using clients_know_who_is_in_a_call [OF lounge_run, of "ConnId 1" "Id 1"]
  by (simp add: lounge_world_def ada_in_lounge_def ada_online_def new_state_def)

end
