(* ===== verification/SessionProps.thy ===== *)
theory SessionProps
  imports World
begin

text \<open>
  What a connection may do and what it brings about: it is let in only with a valid token, acts
  only on what belongs to its user, and a message it sends reaches every connection once.
\<close>

section \<open>Authorisation\<close>

text \<open>Between two states of the store, only what belongs to the user \<open>me\<close> and new channels differ.\<close>

definition leaves_others :: "int \<Rightarrow> db \<Rightarrow> db \<Rightarrow> bool" where
  "leaves_others me db db' \<longleftrightarrow>
     filter (\<lambda>r. mr_author_id r \<noteq> me) (db_messages db') = filter (\<lambda>r. mr_author_id r \<noteq> me) (db_messages db)
   \<and> filter (\<lambda>a. ar_uploader_id a \<noteq> me) (db_attachments db') = filter (\<lambda>a. ar_uploader_id a \<noteq> me) (db_attachments db)
   \<and> filter (\<lambda>r. ur_id r \<noteq> me) (db_users db') = filter (\<lambda>r. ur_id r \<noteq> me) (db_users db)
   \<and> db_tokens db' = db_tokens db
   \<and> (\<exists>new. db_channels db' = db_channels db @ new)"

lemma leaves_others_refl [simp]: "leaves_others me db db"
  by (simp add: leaves_others_def)

lemma filter_map_same:
  "(\<And>x. x \<in> set xs \<Longrightarrow> P x \<Longrightarrow> f x = x) \<Longrightarrow> (\<And>x. x \<in> set xs \<Longrightarrow> P (f x) = P x) \<Longrightarrow> filter P (map f xs) = filter P xs"
  by (induction xs) auto

lemma insert_leaves_others:
  "leaves_others (to_row u) db (snd (db_insert_message alloc now db ch u content nonc ups))"
proof -
  have claims: "filter (\<lambda>a. ar_uploader_id a \<noteq> to_row u) (foldl (claim_attachment m u) rows ups)
      = filter (\<lambda>a. ar_uploader_id a \<noteq> to_row u) rows" for m rows
    unfolding claim_loop by (rule filter_map_same) auto
  show ?thesis
    by (auto simp: db_insert_message_def Let_def leaves_others_def claims split: option.split)
qed

lemma edit_leaves_others:
  "leaves_others (to_row u) db (snd (edit_message now db i u content))"
proof -
  have "filter (\<lambda>r. mr_author_id r \<noteq> to_row u) (map (\<lambda>r. if mr_id r = to_row i \<and> mr_author_id r = to_row u
        then r\<lparr>mr_content := content, mr_edited_at := Some now\<rparr> else r) rows)
      = filter (\<lambda>r. mr_author_id r \<noteq> to_row u) rows" for rows :: "message_row list"
    by (rule filter_map_same) auto
  then show ?thesis by (simp add: edit_message_def Let_def leaves_others_def)
qed

lemma delete_leaves_others:
  assumes inv: "db_inv db"
  shows "leaves_others (to_row u) db (snd (delete_message db i u))"
proof (cases "find (\<lambda>r. mr_id r = to_row i \<and> mr_author_id r = to_row u) (db_messages db)")
  case (Some r)
  then have r: "r \<in> set (db_messages db)" "mr_id r = to_row i" "mr_author_id r = to_row u"
    by (auto simp: find_Some_iff)
  have dist: "distinct (map mr_id (db_messages db))" using db_invD(1) [OF inv] by simp
  have mine: "s = r" if "s \<in> set (db_messages db)" "mr_id s = to_row i" for s
    using dist that r by (auto simp: distinct_map inj_on_def)
  have "filter (\<lambda>s. mr_author_id s \<noteq> to_row u) (filter (\<lambda>s. mr_id s \<noteq> to_row i) (db_messages db))
      = filter (\<lambda>s. mr_author_id s \<noteq> to_row u) (db_messages db)"
    unfolding filter_filter using mine r(3) by (intro filter_cong) auto
  moreover have "filter (\<lambda>a. ar_uploader_id a \<noteq> to_row u) (filter (\<lambda>a. ar_message_id a \<noteq> Some (to_row i)) (db_attachments db))
      = filter (\<lambda>a. ar_uploader_id a \<noteq> to_row u) (db_attachments db)"
  proof -
    have "ar_uploader_id a = to_row u" if "a \<in> set (db_attachments db)" "ar_message_id a = Some (to_row i)" for a
      using owners_okD [OF db_invD(4) [OF inv] that] mine r(3) by auto
    then show ?thesis unfolding filter_filter by (intro filter_cong) auto
  qed
  ultimately show ?thesis
    using Some by (simp add: delete_message_def leaves_others_def)
qed (simp add: delete_message_def)

lemma name_leaves_others: "leaves_others (to_row u) db (set_display_name db u name)"
proof -
  have "filter (\<lambda>r. ur_id r \<noteq> to_row u) (map (\<lambda>r. if ur_id r = to_row u then r\<lparr>ur_display_name := name\<rparr> else r) rows)
      = filter (\<lambda>r. ur_id r \<noteq> to_row u) rows" for rows
    by (rule filter_map_same) auto
  then show ?thesis by (simp add: set_display_name_def leaves_others_def)
qed

lemma channel_leaves_others: "leaves_others me db (snd (create_channel alloc now db name kind))"
  by (simp add: create_channel_def Let_def leaves_others_def)

text \<open>A reply of the session's, against the server it found.\<close>

definition acts_for_self :: "session \<Rightarrow> server \<Rightarrow> reply \<Rightarrow> bool" where
  "acts_for_self ses srv r \<longleftrightarrow>
     leaves_others (to_row (u_id (se_user ses))) (sv_db srv) (sv_db (fst (snd (snd r))))
   \<and> u_id (se_user (fst (snd r))) = u_id (se_user ses) \<and> se_conn (fst (snd r)) = se_conn ses"

lemma acts_unchanged: "acts_for_self ses srv (flow, ses, srv\<lparr>sv_hub := hub\<rparr>, ds)" "acts_for_self ses srv (flow, ses, srv, ds)"
  by (simp_all add: acts_for_self_def)

lemma acts_on_store: "leaves_others (to_row (u_id (se_user ses))) (sv_db srv) db \<Longrightarrow>
    acts_for_self ses srv (flow, ses, srv\<lparr>sv_db := db\<rparr>, ds)"
  by (simp add: acts_for_self_def)

lemma store_replies:
  "acts_for_self ses srv (handle_send_message E ses srv ch content nonc ups)"
  "acts_for_self ses srv (handle_edit_message E ses srv i content)"
  "acts_for_self ses srv (handle_create_channel E ses srv name kind)"
  "acts_for_self ses srv (handle_set_display_name ses srv name)"
  "acts_for_self ses srv (handle_typing E ses srv ch)"
proof -
  show "acts_for_self ses srv (handle_send_message E ses srv ch content nonc ups)"
    using insert_leaves_others [of "u_id (se_user ses)" "sv_db srv"]
    by (auto simp: handle_send_message_def Let_def acts_unchanged split: prod.split sum.split intro!: acts_on_store)
      (metis snd_conv)+
  show "acts_for_self ses srv (handle_edit_message E ses srv i content)"
    using edit_leaves_others [of "u_id (se_user ses)" "sv_db srv"]
    by (auto simp: handle_edit_message_def Let_def acts_unchanged split: prod.split option.split intro!: acts_on_store)
      (metis snd_conv)+
  show "acts_for_self ses srv (handle_create_channel E ses srv name kind)"
    using channel_leaves_others [of "to_row (u_id (se_user ses))" "sv_db srv"]
    by (auto simp: handle_create_channel_def Let_def acts_unchanged split: prod.split intro!: acts_on_store)
      (metis snd_conv)+
  show "acts_for_self ses srv (handle_set_display_name ses srv name)"
    by (simp add: handle_set_display_name_def Let_def acts_for_self_def name_leaves_others)
  show "acts_for_self ses srv (handle_typing E ses srv ch)"
    by (simp add: handle_typing_def Let_def acts_for_self_def)
qed

lemma delete_reply:
  assumes "db_inv (sv_db srv)"
  shows "acts_for_self ses srv (handle_delete_message ses srv i)"
  using delete_leaves_others [OF assms, of "u_id (se_user ses)" i]
  by (auto simp: handle_delete_message_def acts_unchanged split: prod.split option.split intro!: acts_on_store)

lemma hub_replies:
  "acts_for_self ses srv (handle_history ses srv ch before limit)"
  "acts_for_self ses srv (handle_leave_voice ses srv)"
  "acts_for_self ses srv (handle_voice_flags ses srv mu de)"
  "acts_for_self ses srv (handle_speaking E ses srv sp)"
  "acts_for_self ses srv (handle_start_screen ses srv rq)"
  "acts_for_self ses srv (handle_stop_screen ses srv)"
  "acts_for_self ses srv (handle_watch ses srv target)"
  "acts_for_self ses srv (handle_screen_report E ses srv user received lost want)"
  "acts_for_self ses srv (handle_offer_file E ses srv user offer)"
  by (auto simp: handle_history_def handle_leave_voice_def handle_voice_flags_def handle_speaking_def
      handle_start_screen_def handle_stop_screen_def handle_watch_def handle_screen_report_def
      handle_offer_file_def Let_def acts_unchanged split: prod.split option.split sum.split bool.split)

lemma join_acts: "handle_join_voice E ses srv ch = Some r \<Longrightarrow> acts_for_self ses srv r"
  by (auto simp: handle_join_voice_def Let_def acts_unchanged split: option.splits if_splits prod.splits)

lemma handle_acts:
  assumes "db_inv (sv_db srv)" "handle E ses srv msg = Some r"
  shows "acts_for_self ses srv r"
proof (cases msg)
  case (JoinVoice ch)
  with assms join_acts show ?thesis by simp
qed (use assms(2) in \<open>clarsimp simp: acts_unchanged store_replies hub_replies delete_reply [OF assms(1)]\<close>)+

text \<open>
  Claim C10. Nobody acts for somebody else: whatever a connection sends, the messages, uploads and
  accounts of all other users are afterwards exactly what they were before, in number, order and
  content; tokens do not change, channels are only added, and the connection goes on speaking for
  the user it identified as.
\<close>

theorem frames_act_only_for_their_user:
  assumes "db_inv (sv_db srv)" and "handle_frame E ses srv f = Some (flow, ses', srv', ds)"
  shows "leaves_others (to_row (u_id (se_user ses))) (sv_db srv) (sv_db srv')
    \<and> u_id (se_user ses') = u_id (se_user ses) \<and> se_conn ses' = se_conn ses"
  using assms handle_acts [OF assms(1)]
  by (cases f) (auto simp: acts_for_self_def)

theorem frames_act_only_for_their_user_witness:
  "leaves_others 1 lounge_db (sv_db ada_in_lounge)"
  using frames_act_only_for_their_user [OF _ ada_joins_lounge]
    db_inv_create_channel [OF sample_inv, of next_row 6 "[76]" channel_kind.Voice]
  by (simp add: ada_session_def ada_online_def ada_def lounge_db_def to_row_def rowid_ok_def sample_simps)

section \<open>Letting a connection in\<close>

text \<open>
  A connection gets in exactly when, after nothing but pings, its first frame arrives
  before the deadline, is an \<open>Identify\<close> with protocol version 1 or 2 and carries a token of the
  store, and then it is let in as the user that token belongs to.
\<close>

theorem identified_exactly_with_a_token:
  "fst (identify db incoming) = Some user \<longleftrightarrow>
     (\<exists>n token v agent rest.
        incoming = replicate n (Frame Ping_or_pong) @ Frame (Readable (Identify token v agent)) # rest
      \<and> (v = 1 \<or> v = 2) \<and> user_for_token db token = Some user)"
proof (induction incoming)
  case (Cons a incoming)
  have versions: "speaks_version v \<longleftrightarrow> v = 1 \<or> v = 2" for v
  proof -
    have "1 \<le> v \<and> v \<le> 2 \<longleftrightarrow> uint v = 1 \<or> uint v = 2" by (auto simp: word_le_def)
    then show ?thesis
      by (simp add: speaks_version_def MIN_PROTOCOL_VERSION_def PROTOCOL_VERSION_def word_uint_eq_iff)
  qed
  show ?case
  proof (cases "a = Frame Ping_or_pong")
    case True
    have "(\<exists>n token v agent rest. a # incoming = replicate n (Frame Ping_or_pong)
            @ Frame (Readable (Identify token v agent)) # rest \<and> (v = 1 \<or> v = 2) \<and> user_for_token db token = Some user)
      \<longleftrightarrow> (\<exists>n token v agent rest. incoming = replicate n (Frame Ping_or_pong)
            @ Frame (Readable (Identify token v agent)) # rest \<and> (v = 1 \<or> v = 2) \<and> user_for_token db token = Some user)"
      (is "?L \<longleftrightarrow> ?R")
    proof
      assume ?L
      then obtain n token v agent rest where *: "a # incoming = replicate n (Frame Ping_or_pong)
            @ Frame (Readable (Identify token v agent)) # rest" "v = 1 \<or> v = 2" "user_for_token db token = Some user" by blast
      then obtain k where "n = Suc k" using True by (cases n) auto
      with * have "incoming = replicate k (Frame Ping_or_pong) @ Frame (Readable (Identify token v agent)) # rest" by simp
      with *(2,3) show ?R by blast
    next
      assume ?R
      then obtain n token v agent rest where "incoming = replicate n (Frame Ping_or_pong)
            @ Frame (Readable (Identify token v agent)) # rest" "v = 1 \<or> v = 2" "user_for_token db token = Some user" by blast
      then show ?L using True by (intro exI [of _ "Suc n"] exI [of _ token] exI [of _ v] exI [of _ agent]) simp
    qed
    with Cons True show ?thesis by simp
  next
    case False
    have "(\<exists>n token v agent rest. a # incoming = replicate n (Frame Ping_or_pong)
            @ Frame (Readable (Identify token v agent)) # rest \<and> (v = 1 \<or> v = 2) \<and> user_for_token db token = Some user)
      \<longleftrightarrow> (\<exists>token v agent. a = Frame (Readable (Identify token v agent)) \<and> (v = 1 \<or> v = 2)
            \<and> user_for_token db token = Some user)" (is "?L \<longleftrightarrow> ?R")
    proof
      assume ?L
      then obtain n token v agent rest where *: "a # incoming = replicate n (Frame Ping_or_pong)
            @ Frame (Readable (Identify token v agent)) # rest" "v = 1 \<or> v = 2" "user_for_token db token = Some user" by blast
      then show ?R using False by (cases n) auto
    next
      assume ?R
      then show ?L by (metis append_Nil replicate_0)
    qed
    with False show ?thesis
      by (cases a) (auto simp: check_identify_def versions split: frame.splits client_msg.splits option.splits)
  qed
qed simp

section \<open>Sending a message\<close>

lemma message_by_row:
  assumes "db_inv db" "r \<in> set (db_messages db)"
  shows "message_by_id db (of_row (mr_id r)) =
    Some ((row_to_message r)\<lparr>msg_attachments := attachments_for db (of_row (mr_id r))\<rparr>)"
  using find_unique [of mr_id "db_messages db" r] db_invD(1) [OF assms(1)] assms(2)
  by (simp add: message_by_id_def good_ids_small)

lemma insert_outcome:
  assumes "db_inv db" "rowid_ok alloc (map mr_id (db_messages db))"
    and "db_insert_message alloc now db ch u content nonc ups = (res, db')"
  obtains e where "res = Inl e" "db' = db"
    | m where "res = Inr m" "message_by_id db' (msg_id m) = Some (m\<lparr>msg_nonce := None\<rparr>)"
proof (cases "nonc = None \<or> \<not> (\<exists>r \<in> set (db_messages db). mr_author_id r = to_row u \<and> mr_nonce r = nonc)")
  case True
  let ?r = "\<lparr>mr_id = alloc (map mr_id (db_messages db)), mr_channel_id = to_row ch, mr_author_id = to_row u,
      mr_content = content, mr_created_at = now, mr_edited_at = None, mr_nonce = nonc\<rparr>"
  from insert_message_fresh [OF assms(3) True assms(2)]
  have "db' = db \<and> res = Inl Constraint_violation \<or> ?r \<in> set (db_messages db')
    \<and> res = Inr ((row_to_message ?r)\<lparr>msg_attachments := attachments_for db' (of_row (mr_id ?r)), msg_nonce := nonc\<rparr>)"
    unfolding Let_def by (elim disjE conjE) simp_all
  then consider "db' = db" "res = Inl Constraint_violation"
    | r where "r \<in> set (db_messages db')"
        "res = Inr ((row_to_message r)\<lparr>msg_attachments := attachments_for db' (of_row (mr_id r)), msg_nonce := nonc\<rparr>)"
    by blast
  then show thesis
  proof cases
    case 1
    then show thesis using that(1) by blast
  next
    case 2
    with message_by_row [OF db_inv_insert_message [OF assms] 2(1)] show thesis
      by (intro that(2)) (auto simp: row_to_message_def)
  qed
next
  case False
  then obtain n r where r: "nonc = Some n" "r \<in> set (db_messages db)" "mr_author_id r = to_row u" "mr_nonce r = Some n"
    by (cases nonc) auto
  with insert_message_again [OF assms(1) r(2-4)] assms(3) message_by_row [OF assms(1) r(2)] show thesis
    by (intro that(2)) (auto simp: row_to_message_def)
qed

text \<open>
  Claim C24. A message is delivered once: a frame that asks to send one is either refused, with one
  error to the connection it came from and the store as it was, or every connection of the server
  gets exactly one \<open>MessageCreate\<close>, of the message as the store now holds it, in which only the
  connection it came from may see a nonce.
\<close>

theorem message_reaches_every_connection_once:
  assumes "db_inv (sv_db srv)" "rowid_ok (en_alloc E) (map mr_id (db_messages (sv_db srv)))"
    and "hmap_ok (conns (sv_hub srv))" "hget (conns (sv_hub srv)) (se_conn ses) \<noteq> None"
    and "handle E ses srv (SendMessage ch content n ups) = Some (flow, ses', srv', ds)"
  shows "(\<exists>code txt. ds = [(se_conn ses, Error code txt False)] \<and> srv' = srv)
    \<or> (\<exists>m. message_by_id (sv_db srv') (msg_id m) = Some (m\<lparr>msg_nonce := None\<rparr>)
         \<and> (\<forall>c. frames_for c ds =
              (if hget (conns (sv_hub srv)) c = None then []
               else if c = se_conn ses then [MessageCreate m] else [MessageCreate (m\<lparr>msg_nonce := None\<rparr>)])))"
proof -
  let ?n = "if n = [] then None else Some n"
  obtain res db where ins: "db_insert_message (en_alloc E) (en_millis E) (sv_db srv) ch (u_id (se_user ses))
      (trim content) ?n ups = (res, db)" by fastforce
  have refused: "fail ses srv code t = [(se_conn ses, Error code t False)]" for code t
    using assms(4) by (auto simp: fail_def send_def send_to_conn_def error_def split: option.split)
  have conn: "\<exists>cn. hget (conns (sv_hub srv)) (se_conn ses) = Some cn" using assms(4) by blast
  show ?thesis
  proof (rule insert_outcome [OF assms(1,2) ins])
    fix e assume "res = Inl e" "db = sv_db srv"
    with assms(5) ins show ?thesis
      by (auto simp: handle_send_message_def Let_def refused internal_def split: if_splits)
  next
    fix m assume m: "res = Inr m" "message_by_id db (msg_id m) = Some (m\<lparr>msg_nonce := None\<rparr>)"
    show ?thesis
    proof (cases "\<exists>code t. ds = fail ses srv code t \<and> srv' = srv")
      case True
      then show ?thesis using refused by auto
    next
      case False
      with assms(5) ins m(1) have
        "ds = broadcast_except (sv_hub srv) (se_conn ses) (MessageCreate (m\<lparr>msg_nonce := None\<rparr>)) @ send ses srv (MessageCreate m)"
        "sv_db srv' = db"
        by (auto simp: handle_send_message_def Let_def send_def split: if_splits)
      with m(2) assms(3) conn show ?thesis
        by (intro disjI2 exI [of _ m]) (auto simp: frames_simps send_def)
    qed
  qed
qed

definition ada_says :: reply where
  "ada_says = handle_send_message quiet_env ada_session ada_online (Id 1) [104] [110] []"

lemma lounge_inv: "db_inv lounge_db"
  using db_inv_create_channel [OF sample_inv, of next_row 6 "[76]" channel_kind.Voice]
  by (simp add: lounge_db_def rowid_ok_def sample_simps)

lemma ada_says_frames: "\<exists>m. snd (snd (snd ada_says)) = [(ConnId 1, MessageCreate m)]"
proof -
  have channel: "\<exists>c. channel_by_id lounge_db (Id 1) = Some c"
    by (simp add: lounge_db_def sample_simps channel_by_id_def channels_def row_to_channel_def)
  have content: "trim [104] = [104]"
    by (simp add: trim_def trim_start_def trim_end_def is_whitespace_def)
  obtain m db where "db_insert_message next_row 9 lounge_db (Id 1) (Id 1) [104] (Some [110]) [] = (Inr m, db)"
    by (simp add: lounge_db_def sample_simps)
  with channel content show ?thesis
    by (auto simp: ada_says_def handle_send_message_def ada_online_def ada_session_def ada_def quiet_env_def
      MAX_CONTENT_def MAX_ATTACHMENTS_def Let_def new_state_def send_def send_to_conn_def broadcast_except_def)
qed

theorem message_reaches_every_connection_once_witness:
  "\<exists>m. \<forall>c. frames_for c (snd (snd (snd ada_says))) = (if c = ConnId 1 then [MessageCreate m] else [])"
proof -
  have inv: "db_inv (sv_db ada_online)" by (simp add: ada_online_def lounge_inv)
  have rowid: "rowid_ok (en_alloc quiet_env) (map mr_id (db_messages (sv_db ada_online)))"
    by (simp add: quiet_env_def ada_online_def lounge_db_def sample_simps rowid_ok_def)
  have hub: "hmap_ok (conns (sv_hub ada_online))" "hget (conns (sv_hub ada_online)) (se_conn ada_session) \<noteq> None"
    by (simp_all add: ada_online_def ada_session_def new_state_def hmap_ok_def)
  have run: "handle quiet_env ada_session ada_online (SendMessage (Id 1) [104] [110] []) =
      Some (fst ada_says, fst (snd ada_says), fst (snd (snd ada_says)), snd (snd (snd ada_says)))"
    by (simp add: ada_says_def)
  from ada_says_frames message_reaches_every_connection_once [OF inv rowid hub run] show ?thesis
    by (auto simp: ada_online_def ada_session_def new_state_def split: if_splits)
qed

end
