(* ===== verification/HttpProps.thy ===== *)
theory HttpProps
  imports Http SessionProps
begin

text \<open>
  What the attachment store and the accounts promise: a sweep takes exactly the bytes nobody
  needs, an upload can be downloaded until its time is up, and who registers can log in.
\<close>

lemma find_SomeD: "find P xs = Some x \<Longrightarrow> x \<in> set xs \<and> P x"
  by (auto simp: find_Some_iff)

section \<open>One sweep\<close>

text \<open>All attachments with these bytes are past their time, and one is not yet marked.\<close>

definition blob_due :: "db \<Rightarrow> millis \<Rightarrow> rstring \<Rightarrow> bool" where
  "blob_due db now h \<longleftrightarrow>
     (\<exists>a \<in> set (db_attachments db). ar_sha256 a = h \<and> \<not> ar_blob_deleted a)
   \<and> (\<forall>a \<in> set (db_attachments db). ar_sha256 a = h \<longrightarrow> ar_expires_at a \<le> now)"

lemma expired_blobs_iff: "h \<in> set (expired_blobs db now) \<longleftrightarrow> blob_due db now h"
proof -
  have "h \<in> set (expired_blobs db now) \<longleftrightarrow> (\<exists>a \<in> set (db_attachments db). ar_sha256 a = h \<and> ar_expires_at a \<le> now
      \<and> \<not> ar_blob_deleted a) \<and> \<not> (\<exists>b \<in> set (db_attachments db). ar_sha256 b = h \<and> ar_expires_at b > now)"
    unfolding expired_blobs_def by (simp add: image_iff, intro iffI; (elim exE bexE conjE; metis))
  then show ?thesis unfolding blob_due_def not_less [symmetric] by blast
qed

definition mark_all :: "(rstring \<Rightarrow> bool) \<Rightarrow> db \<Rightarrow> db" where
  "mark_all P db = db\<lparr>db_attachments :=
     map (\<lambda>a. if P (ar_sha256 a) then a\<lparr>ar_blob_deleted := True\<rparr> else a) (db_attachments db)\<rparr>"

lemma mark_all_none [simp]: "mark_all (\<lambda>_. False) db = db"
  by (simp add: mark_all_def)

lemma mark_all_twice [simp]: "mark_all P (mark_all Q db) = mark_all (\<lambda>h. P h \<or> Q h) db"
  by (auto simp: mark_all_def comp_def)

lemma mark_is_mark_all: "snd (mark_blob_deleted db sha) = mark_all (\<lambda>h. h = sha) db"
  by (simp add: mark_blob_deleted_def mark_all_def)

lemma mark_all_shas: "map ar_sha256 (db_attachments (mark_all P db)) = map ar_sha256 (db_attachments db)"
  by (simp add: mark_all_def)

lemma mark_all_rows: "(\<exists>a \<in> set (db_attachments (mark_all P db)). ar_sha256 a = h) \<longleftrightarrow>
    (\<exists>a \<in> set (db_attachments db). ar_sha256 a = h)"
  unfolding in_ids mark_all_shas ..

lemma drop_expired_loop:
  "foldl (drop_expired stuck) (db, files, n) shas = (db', files', n') \<Longrightarrow>
     db' = mark_all (\<lambda>h. h \<in> set shas \<and> is_digest h \<and> \<not> stuck h) db
   \<and> hget files' h = (if h \<in> set shas \<and> is_digest h \<and> \<not> stuck h then None else hget files h)"
proof (induction shas arbitrary: db files n)
  case (Cons sha shas)
  obtain db1 files1 n1 where one: "drop_expired stuck (db, files, n) sha = (db1, files1, n1)" by (metis prod.exhaust)
  have 1: "db1 = mark_all (\<lambda>h. h = sha \<and> is_digest h \<and> \<not> stuck h) db"
    "hget files1 h = (if h = sha \<and> is_digest h \<and> \<not> stuck h then None else hget files h)"
  proof -
    have "(\<lambda>h. h = sha \<and> is_digest h \<and> \<not> stuck h) = (if is_digest sha \<and> \<not> stuck sha then (\<lambda>h. h = sha) else (\<lambda>_. False))"
      by auto
    with one show "db1 = mark_all (\<lambda>h. h = sha \<and> is_digest h \<and> \<not> stuck h) db"
      by (auto simp: drop_expired_def blob_remove_def mark_is_mark_all split: if_splits)
    show "hget files1 h = (if h = sha \<and> is_digest h \<and> \<not> stuck h then None else hget files h)"
      using one by (auto simp: drop_expired_def blob_remove_def hmap_simps split: if_splits)
  qed
  have "foldl (drop_expired stuck) (db1, files1, n1) shas = (db', files', n')" using Cons.prems one by simp
  from Cons.IH [OF this] show ?case
    unfolding 1 by (auto intro!: arg_cong [of _ _ "\<lambda>P. mark_all P db"])
qed simp

lemma drop_orphan_loop:
  "foldl (drop_orphan stuck) (db, files, n) shas = (db', files', n') \<Longrightarrow>
     db' = db \<and> hget files' h = (if h \<in> set shas \<and> is_digest h \<and> \<not> stuck h then None else hget files h)"
proof (induction shas arbitrary: files n)
  case (Cons sha shas)
  obtain files1 n1 where one: "drop_orphan stuck (db, files, n) sha = (db, files1, n1)"
    by (cases "blob_remove stuck files sha") (simp_all add: drop_orphan_def)
  then have "hget files1 h = (if h = sha \<and> is_digest h \<and> \<not> stuck h then None else hget files h)"
    by (auto simp: drop_orphan_def blob_remove_def hmap_simps split: if_splits)
  moreover have "foldl (drop_orphan stuck) (db, files1, n1) shas = (db', files', n')" using Cons.prems one by simp
  ultimately show ?case using Cons.IH by auto
qed simp

lemma sweep_result:
  assumes "sweep stuck now db files = (db', files', removed)"
  shows "db' = mark_all (\<lambda>h. blob_due db now h \<and> is_digest h \<and> \<not> stuck h) db
    \<and> (\<forall>h. hget files' h =
          (if is_digest h \<and> \<not> stuck h \<and> (blob_due db now h \<or> \<not> (\<exists>a \<in> set (db_attachments db). ar_sha256 a = h))
           then None else hget files h))"
proof -
  obtain db1 files1 n1 where one: "foldl (drop_expired stuck) (db, files, 0) (expired_blobs db now) = (db1, files1, n1)"
    by (metis prod.exhaust)
  note 1 = drop_expired_loop [OF one, unfolded expired_blobs_iff]
  have two: "foldl (drop_orphan stuck) (db1, files1, n1) (orphaned_blobs db1 (blob_list files1)) = (db', files', removed)"
    using assms by (simp add: sweep_def one Let_def)
  note 2 = drop_orphan_loop [OF two]
  have orphan: "h \<in> set (orphaned_blobs db1 (blob_list files1)) \<longleftrightarrow>
      is_digest h \<and> hget files1 h \<noteq> None \<and> \<not> (\<exists>a \<in> set (db_attachments db). ar_sha256 a = h)" for h
  proof -
    have "h \<in> set (blob_list files1) \<longleftrightarrow> is_digest h \<and> hget files1 h \<noteq> None"
      unfolding hget_keys by (simp add: blob_list_def conj_commute)
    then show ?thesis unfolding orphaned_blobs_def 1 [THEN conjunct1] mark_all_rows by auto
  qed
  have "db' = mark_all (\<lambda>h. blob_due db now h \<and> is_digest h \<and> \<not> stuck h) db" using 1 2 by simp
  moreover have "hget files' h = (if is_digest h \<and> \<not> stuck h \<and> (blob_due db now h \<or> \<not> (\<exists>a \<in> set (db_attachments db). ar_sha256 a = h))
           then None else hget files h)" for h
    unfolding 2 [THEN conjunct2] orphan 1 [THEN conjunct2] by auto
  ultimately show ?thesis by blast
qed

text \<open>
  Claim C26. The janitor takes exactly the bytes nobody needs: after a sweep a file is gone, unless
  the file system refused to remove it, precisely if all attachments with its bytes are past their
  time and one of them was not yet marked, or no attachment has its bytes; every other file is
  untouched. The attachments whose bytes went are marked, and nothing else of the store changes.
\<close>

theorem sweep_takes_exactly_what_nobody_needs:
  assumes "sweep stuck now db files = (db', files', removed)"
  shows "db' = mark_all (\<lambda>h. blob_due db now h \<and> is_digest h \<and> \<not> stuck h) db
    \<and> (\<forall>h. hget files' h =
          (if is_digest h \<and> \<not> stuck h \<and> (blob_due db now h \<or> \<not> (\<exists>a \<in> set (db_attachments db). ar_sha256 a = h))
           then None else hget files h))"
  by (rule sweep_result [OF assms])

section \<open>Uploads stay until their time is up\<close>

text \<open>
  Steps of the server that matter to attachments, with sweeps before the time \<open>T\<close> only: uploads,
  sweeps, whatever a connection sends, and accounts.
\<close>

type_synonym site = "server \<times> blobs"

inductive site_step :: "crypt \<Rightarrow> millis \<Rightarrow> site \<Rightarrow> site \<Rightarrow> bool" for Y T where
  site_upload: "rowid_ok (en_alloc E) (map ar_id (db_attachments (sv_db srv))) \<Longrightarrow>
    upload Y E srv files header query name body = (res, srv', files') \<Longrightarrow>
    site_step Y T (srv, files) (srv', files')"
| site_sweep: "now < T \<Longrightarrow> sweep stuck now (sv_db srv) files = (db', files', n) \<Longrightarrow>
    site_step Y T (srv, files) (srv\<lparr>sv_db := db'\<rparr>, files')"
| site_frame: "handle_frame E ses srv f = Some (flow, ses', srv', ds) \<Longrightarrow>
    site_step Y T (srv, files) (srv', files)"
| site_register: "register Y E srv body = (r, srv') \<Longrightarrow> site_step Y T (srv, files) (srv', files)"
| site_login: "login Y E srv body = (r, srv') \<Longrightarrow> site_step Y T (srv, files) (srv', files)"

text \<open>
  Unmarked attachments have their bytes on disk, a file's name is the digest of its contents, and
  the attachment \<open>i\<close>, if it expires at \<open>T\<close> or later, is not marked.
\<close>

definition files_ok :: "(byte list \<Rightarrow> byte list) \<Rightarrow> attachment_row list \<Rightarrow> blobs \<Rightarrow> bool" where
  "files_ok D rows files \<longleftrightarrow>
     (\<forall>a \<in> set rows. \<not> ar_blob_deleted a \<longrightarrow> is_digest (ar_sha256 a) \<and> hget files (ar_sha256 a) \<noteq> None)
   \<and> (\<forall>h b. hget files h = Some b \<longrightarrow> sha256_hex D b = h)"

definition kept_until :: "millis \<Rightarrow> int \<Rightarrow> attachment_row list \<Rightarrow> bool" where
  "kept_until T i rows \<longleftrightarrow> (\<forall>a \<in> set rows. ar_id a = i \<and> T \<le> ar_expires_at a \<longrightarrow> \<not> ar_blob_deleted a)"

definition site_ok :: "(byte list \<Rightarrow> byte list) \<Rightarrow> millis \<Rightarrow> int \<Rightarrow> site \<Rightarrow> bool" where
  "site_ok D T i s \<longleftrightarrow> files_ok D (db_attachments (sv_db (fst s))) (snd s)
     \<and> kept_until T i (db_attachments (sv_db (fst s)))"

text \<open>What connections do to attachments: put them on a message, or delete them.\<close>

definition rows_from :: "attachment_row list \<Rightarrow> attachment_row list \<Rightarrow> bool" where
  "rows_from rows rows' \<longleftrightarrow> (\<forall>a' \<in> set rows'. \<exists>a \<in> set rows. ar_id a' = ar_id a \<and> ar_sha256 a' = ar_sha256 a
     \<and> ar_expires_at a' = ar_expires_at a \<and> ar_blob_deleted a' = ar_blob_deleted a)"

lemma rows_from_refl [simp]: "rows_from rows rows"
  by (auto simp: rows_from_def)

lemma rows_from_filter [simp]: "rows_from rows (filter P rows)"
  by (auto simp: rows_from_def)

lemma rows_from_claims [simp]: "rows_from rows (foldl (claim_attachment m u) rows ups)"
  unfolding rows_from_def
proof (rule ballI)
  fix a' assume "a' \<in> set (foldl (claim_attachment m u) rows ups)"
  from claimed_rows [OF this] obtain b where "b \<in> set rows" "a' = b \<or> a' = b\<lparr>ar_message_id := Some m\<rparr>" by blast
  then show "\<exists>a \<in> set rows. ar_id a' = ar_id a \<and> ar_sha256 a' = ar_sha256 a
     \<and> ar_expires_at a' = ar_expires_at a \<and> ar_blob_deleted a' = ar_blob_deleted a"
    by (intro bexI [of _ b]) auto
qed

lemma site_ok_rows_from:
  assumes "rows_from rows rows'"
  shows "files_ok D rows files \<Longrightarrow> files_ok D rows' files" "kept_until T i rows \<Longrightarrow> kept_until T i rows'"
  using assms unfolding rows_from_def files_ok_def kept_until_def by metis+

lemma reply_rows:
  assumes "handle E ses srv msg = Some r"
  shows "rows_from (db_attachments (sv_db srv)) (db_attachments (sv_db (fst (snd (snd r)))))"
proof (cases msg)
  case (JoinVoice ch)
  with assms show ?thesis
    by (auto simp: handle_join_voice_def Let_def split: option.splits if_splits prod.splits)
qed (use assms in \<open>auto simp: handle_history_def handle_send_message_def handle_edit_message_def
      handle_delete_message_def handle_typing_def handle_create_channel_def handle_set_display_name_def
      handle_speaking_def handle_screen_report_def handle_offer_file_def handle_leave_voice_def
      handle_voice_flags_def handle_start_screen_def handle_stop_screen_def handle_watch_def
      db_insert_message_def edit_message_def delete_message_def create_channel_def set_display_name_def Let_def
      split: prod.splits option.splits sum.splits bool.splits if_splits\<close>)

lemma frame_rows:
  "handle_frame E ses srv f = Some (flow, ses', srv', ds) \<Longrightarrow>
     rows_from (db_attachments (sv_db srv)) (db_attachments (sv_db srv'))"
  using reply_rows [of E ses srv _ "(flow, ses', srv', ds)"] by (cases f) auto

lemma token_rows: "issue_token Y E db u agent = (r, db') \<Longrightarrow> db_attachments db' = db_attachments db"
  by (auto simp: issue_token_def Let_def store_token_def split: prod.splits sum.splits if_splits)

lemma register_rows:
  assumes "register Y E srv body = (r, srv')"
  shows "db_attachments (sv_db srv') = db_attachments (sv_db srv)"
  using assms
  by (auto simp: register_def Let_def create_user_def create_channel_def
      dest!: token_rows split: if_splits sum.splits option.splits prod.splits)

lemma login_rows:
  assumes "login Y E srv body = (r, srv')"
  shows "db_attachments (sv_db srv') = db_attachments (sv_db srv)"
  using assms
  by (auto simp: login_def Let_def dest!: token_rows split: if_splits sum.splits option.splits prod.splits)

text \<open>What a successful upload adds.\<close>

lemma upload_result:
  assumes "upload Y E srv files header query name body = (res, srv', files')"
  shows "(db_attachments (sv_db srv') = db_attachments (sv_db srv) \<and> (\<forall>a. res \<noteq> Inr a) \<and>
      (files' = files \<or> is_digest (sha256_hex (cy_digest Y) body)
        \<and> files' = hinsert (sha256_hex (cy_digest Y) body) body files))
    \<or> (\<exists>a r. res = Inr a \<and> db_attachments (sv_db srv') = db_attachments (sv_db srv) @ [r]
        \<and> ar_id r = en_alloc E (map ar_id (db_attachments (sv_db srv))) \<and> at_id a = of_row (ar_id r)
        \<and> \<not> ar_blob_deleted r \<and> ar_expires_at r = at_expires_at a
        \<and> ar_sha256 r = sha256_hex (cy_digest Y) body \<and> is_digest (ar_sha256 r)
        \<and> (files' = hinsert (ar_sha256 r) body files \<or> hget files (ar_sha256 r) \<noteq> None \<and> files' = files))"
    (is "?nothing \<or> ?stored")
proof -
  let ?h = "sha256_hex (cy_digest Y) body" and ?db = "sv_db srv"
  obtain w h where dim: "cy_dimensions Y body = (w, h)" by fastforce
  consider (early) "srv' = srv" "files' = files" "\<forall>a. res \<noteq> Inr a"
    | (late) u where "(case blob_store (cy_digest Y) files body of
                 (None, files) \<Rightarrow> (Inl internal_failure, srv, files)
               | (Some sha256, files) \<Rightarrow>
                   (case insert_attachment (en_alloc E) (en_millis E) ?db u (sanitise_name name)
                           (of_nat (length body)) (content_type_for (sanitise_name name)) w h sha256 of
                      (Inl _, db) \<Rightarrow> (Inl internal_failure, srv\<lparr>sv_db := db\<rparr>, files)
                    | (Inr a, db) \<Rightarrow> (Inr a, srv\<lparr>sv_db := db\<rparr>, files))) = (res, srv', files')"
    using assms unfolding upload_def Let_def dim by (auto split: sum.splits if_splits)
  then show ?thesis
  proof cases
    case early
    then show ?thesis by simp
  next
    case (late u)
    show ?thesis
    proof (cases "is_digest ?h")
      case False
      with late show ?thesis by (auto simp: blob_store_def)
    next
      case True
      define files1 where "files1 = (if hget files ?h \<noteq> None then files else hinsert ?h body files)"
      have store: "blob_store (cy_digest Y) files body = (Some ?h, files1)"
        using True by (simp add: blob_store_def files1_def Let_def)
      have files: "files1 = hinsert ?h body files \<or> hget files ?h \<noteq> None \<and> files1 = files"
        by (simp add: files1_def)
      show ?thesis
        using late files True unfolding store by (auto simp: insert_attachment_def Let_def split: if_splits)
    qed
  qed
qed

lemma files_ok_store:
  "files_ok D rows files \<Longrightarrow> is_digest (sha256_hex D body) \<Longrightarrow> files_ok D rows (hinsert (sha256_hex D body) body files)"
  by (auto simp: files_ok_def hmap_simps)

lemma files_ok_snoc:
  "files_ok D rows files \<Longrightarrow> is_digest (ar_sha256 r) \<Longrightarrow> hget files (ar_sha256 r) \<noteq> None \<Longrightarrow> files_ok D (rows @ [r]) files"
  unfolding files_ok_def by auto

lemma kept_until_snoc: "kept_until T i rows \<Longrightarrow> \<not> ar_blob_deleted r \<Longrightarrow> kept_until T i (rows @ [r])"
  unfolding kept_until_def by auto

lemma site_ok_upload:
  assumes ok: "site_ok (cy_digest Y) T i (srv, files)"
    and up: "upload Y E srv files header query name body = (res, srv', files')"
  shows "site_ok (cy_digest Y) T i (srv', files')"
proof -
  let ?h = "sha256_hex (cy_digest Y) body"
  have stored: "files_ok (cy_digest Y) (db_attachments (sv_db srv)) files'"
    using upload_result [OF up] ok by (auto simp: site_ok_def intro: files_ok_store)
  have kept: "kept_until T i (db_attachments (sv_db srv))" using ok by (simp add: site_ok_def)
  from upload_result [OF up] show ?thesis
  proof (elim disjE exE conjE)
    assume "db_attachments (sv_db srv') = db_attachments (sv_db srv)"
    with stored kept show ?thesis by (simp add: site_ok_def)
  next
    fix a r assume r: "db_attachments (sv_db srv') = db_attachments (sv_db srv) @ [r]" "\<not> ar_blob_deleted r"
      "is_digest (ar_sha256 r)" "files' = hinsert (ar_sha256 r) body files"
    then have "hget files' (ar_sha256 r) \<noteq> None" by (simp add: hmap_simps)
    with r files_ok_snoc [OF stored] kept_until_snoc [OF kept] show ?thesis by (simp add: site_ok_def)
  next
    fix a r assume r: "db_attachments (sv_db srv') = db_attachments (sv_db srv) @ [r]" "\<not> ar_blob_deleted r"
      "is_digest (ar_sha256 r)" "hget files (ar_sha256 r) \<noteq> None" "files' = files"
    with files_ok_snoc [OF stored] kept_until_snoc [OF kept] show ?thesis by (simp add: site_ok_def)
  qed (use stored kept in \<open>simp add: site_ok_def\<close>)
qed

lemma site_ok_sweep:
  assumes ok: "site_ok D T i (srv, files)" and "now < T" and sw: "sweep stuck now (sv_db srv) files = (db', files', n)"
  shows "site_ok D T i (srv\<lparr>sv_db := db'\<rparr>, files')"
proof -
  let ?P = "\<lambda>h. blob_due (sv_db srv) now h \<and> is_digest h \<and> \<not> stuck h"
  let ?rows = "db_attachments (sv_db srv)"
  have db: "db' = mark_all ?P (sv_db srv)"
    and files: "hget files' h = (if is_digest h \<and> \<not> stuck h \<and> (blob_due (sv_db srv) now h \<or> \<not> (\<exists>a \<in> set ?rows. ar_sha256 a = h))
           then None else hget files h)" for h
    using sweep_result [OF sw] by blast+
  have rows: "\<exists>a \<in> set ?rows. a' = (if ?P (ar_sha256 a) then a\<lparr>ar_blob_deleted := True\<rparr> else a)"
    if "a' \<in> set (db_attachments db')" for a'
    using that unfolding db mark_all_def by auto
  have old: "is_digest (ar_sha256 a) \<and> hget files' (ar_sha256 a) \<noteq> None"
    if a: "a \<in> set (db_attachments db')" "\<not> ar_blob_deleted a" for a
  proof -
    from rows [OF a(1)] obtain b where b: "b \<in> set ?rows" "a = (if ?P (ar_sha256 b) then b\<lparr>ar_blob_deleted := True\<rparr> else b)" by blast
    with a(2) have same: "a = b" "\<not> ?P (ar_sha256 a)" by (auto split: if_splits)
    with b(1) a(2) ok have "is_digest (ar_sha256 a)" "hget files (ar_sha256 a) \<noteq> None"
      by (auto simp: site_ok_def files_ok_def)
    with files [of "ar_sha256 a"] same b(1) show ?thesis by auto
  qed
  have named: "sha256_hex D b = h" if "hget files' h = Some b" for h b
    using that files [of h] ok by (auto simp: site_ok_def files_ok_def split: if_splits)
  have kept: "\<not> ar_blob_deleted a" if a: "a \<in> set (db_attachments db')" "ar_id a = i" "T \<le> ar_expires_at a" for a
  proof -
    from rows [OF a(1)] obtain b where b: "b \<in> set ?rows" "a = (if ?P (ar_sha256 b) then b\<lparr>ar_blob_deleted := True\<rparr> else b)" by blast
    with a(2,3) have "ar_id b = i" "T \<le> ar_expires_at b" by (auto split: if_splits)
    with b(1) assms(2) have "\<not> ?P (ar_sha256 b)" unfolding blob_due_def by fastforce
    with b ok \<open>ar_id b = i\<close> \<open>T \<le> ar_expires_at b\<close> show ?thesis by (auto simp: site_ok_def kept_until_def)
  qed
  show ?thesis
    using old named kept by (auto simp: site_ok_def files_ok_def kept_until_def)
qed

lemma site_ok_step: "site_step Y T s s' \<Longrightarrow> site_ok (cy_digest Y) T i s \<Longrightarrow> site_ok (cy_digest Y) T i s'"
proof (induction rule: site_step.induct)
  case (site_upload E srv files header query name body res srv' files')
  then show ?case by (blast intro: site_ok_upload)
next
  case (site_sweep now stuck srv files db' files' n)
  then show ?case by (blast intro: site_ok_sweep)
next
  case (site_frame E ses srv f flow ses' srv' ds files)
  then show ?case using site_ok_rows_from [OF frame_rows] by (simp add: site_ok_def)
qed (simp_all add: site_ok_def register_rows login_rows)

interpretation site: invariant_system "site_ok (cy_digest Y) T i" "site_step Y T" for Y T i
  by unfold_locales (rule site_ok_step)

lemma upload_still_served:
  assumes "files_ok (cy_digest Y) (db_attachments (sv_db srv)) files"
    and "rowid_ok (en_alloc E) (map ar_id (db_attachments (sv_db srv)))"
    and "upload Y E srv files header query name body = (Inr a, srv1, files1)"
    and "(site_step Y (at_expires_at a))\<^sup>*\<^sup>* (srv1, files1) (srv2, files2)"
    and "attachment_by_id (sv_db srv2) (at_id a) = Some (a', deleted)" "at_expires_at a' = at_expires_at a"
    and "authenticate (sv_db srv2) header' query' = Inr u"
  shows "at_id a' = at_id a \<and> is_digest (at_sha256 a') \<and> (\<exists>r. download srv2 files2 header' query' (at_id a) = Inr r
    \<and> sha256_hex (cy_digest Y) (rs_body r) = at_sha256 a' \<and> rs_content_type r = at_content_type a')"
proof -
  let ?i = "en_alloc E (map ar_id (db_attachments (sv_db srv)))" and ?T = "at_expires_at a"
  have fresh: "small ?i" "?i \<notin> set (map ar_id (db_attachments (sv_db srv)))"
    using rowid_fresh [OF assms(2)] by blast+
  have id: "at_id a = of_row ?i" using upload_result [OF assms(3)] by auto
  have "kept_until ?T ?i (db_attachments (sv_db srv))"
    unfolding kept_until_def using fresh(2) by (metis in_ids)
  with assms(1) have "site_ok (cy_digest Y) ?T ?i (srv, files)" by (simp add: site_ok_def)
  from site.run_keeps [OF assms(4) site_ok_upload [OF this assms(3)]]
  have ok: "files_ok (cy_digest Y) (db_attachments (sv_db srv2)) files2" "kept_until ?T ?i (db_attachments (sv_db srv2))"
    by (simp_all add: site_ok_def)
  obtain r where r: "r \<in> set (db_attachments (sv_db srv2))" "ar_id r = ?i" "a' = row_to_attachment r"
      "deleted = ar_blob_deleted r"
    using assms(5) fresh(1) by (auto simp: attachment_by_id_def id dest: find_SomeD)
  have "\<not> ar_blob_deleted r"
    using ok(2) r assms(6) by (simp add: kept_until_def row_to_attachment_def)
  with ok(1) r(1) obtain b where b: "is_digest (ar_sha256 r)" "hget files2 (ar_sha256 r) = Some b"
      "sha256_hex (cy_digest Y) b = ar_sha256 r"
    unfolding files_ok_def by blast
  moreover have "at_id a' = at_id a"
    using r fresh(1) by (simp add: id row_to_attachment_def)
  ultimately show ?thesis
    using \<open>\<not> ar_blob_deleted r\<close> r assms(5,7) by (simp add: download_def blob_read_def row_to_attachment_def)
qed

text \<open>
  Claim C25. An upload can be downloaded until its time is up: after an upload that succeeded,
  whatever uploads, messages, accounts and sweeps before its expiry follow, anybody with a valid
  token who asks for it gets bytes whose digest is the one recorded for the attachment, as long
  as the attachment is not deleted.
\<close>

theorem uploads_stay_until_their_time_is_up:
  assumes "files_ok (cy_digest Y) (db_attachments (sv_db srv)) files"
    and "rowid_ok (en_alloc E) (map ar_id (db_attachments (sv_db srv)))"
    and "upload Y E srv files header query name body = (Inr a, srv1, files1)"
    and "(site_step Y (at_expires_at a))\<^sup>*\<^sup>* (srv1, files1) (srv2, files2)"
    and "attachment_by_id (sv_db srv2) (at_id a) = Some (a', deleted)" "at_expires_at a' = at_expires_at a"
    and "authenticate (sv_db srv2) header' query' = Inr u"
  shows "\<exists>r. download srv2 files2 header' query' (at_id a) = Inr r
    \<and> sha256_hex (cy_digest Y) (rs_body r) = at_sha256 a' \<and> rs_content_type r = at_content_type a'"
  using upload_still_served [OF assms] by blast

section \<open>Accounts\<close>

text \<open>What a successful registration leaves: the new row, and everything that finds it.\<close>

lemma register_result:
  assumes "register Y E srv body = (Inr (token, user), srv1)"
  obtains r h where "cy_hash Y (cd_password body) = Some h"
    and "db_users (sv_db srv1) = db_users (sv_db srv) @ [r]"
    and "\<not> (\<exists>s \<in> set (db_users (sv_db srv)). nocase (ur_name s) = nocase (ur_name r))"
    and "ur_id r = en_alloc E (map ur_id (db_users (sv_db srv)))" "ur_name r = normalise_name Y (cd_name body)"
    and "ur_password_hash r = h" "u_id user = of_row (ur_id r)"
proof -
  let ?name = "normalise_name Y (cd_name body)"
  obtain h dn db1 where h: "cy_hash Y (cd_password body) = Some h"
    and made: "create_user (en_alloc E) (en_millis E) (sv_db srv) ?name dn h = (Inr user, db1)"
    and later: "db_users (sv_db srv1) = db_users db1"
    using assms
    by (auto simp: register_def Let_def create_channel_def issue_token_def store_token_def
        split: if_splits sum.splits option.splits prod.splits)
  from made later h show thesis
    by (intro that [of h "\<lparr>ur_id = en_alloc E (map ur_id (db_users (sv_db srv))), ur_name = ?name,
                    ur_display_name = dn, ur_password_hash = h, ur_created_at = en_millis E\<rparr>"])
      (auto simp: create_user_def Let_def split: if_splits)
qed

lemma find_last: "\<not> (\<exists>x \<in> set xs. P x) \<Longrightarrow> P y \<Longrightarrow> find P (xs @ [y]) = Some y"
  by (induction xs) auto

text \<open>
  Who registers can log in: if a registration succeeds, then logging in with the same
  password and a name that folds to the same login name succeeds as the same user, and the token
  this returns authenticates as that user, as long as a password verifies against its own hash,
  the random token is new and SQLite chooses a new row identifier.
\<close>

theorem who_registers_can_log_in:
  assumes "\<forall>p h. cy_hash Y p = Some h \<longrightarrow> cy_verify Y p h"
    and "db_inv (sv_db srv)" "rowid_ok (en_alloc E) (map ur_id (db_users (sv_db srv)))"
    and "register Y E srv body = (Inr (token, user), srv1)"
    and "normalise_name Y (cd_name body') = normalise_name Y (cd_name body)" "cd_password body' = cd_password body"
    and "\<not> (\<exists>t \<in> set (db_tokens (sv_db srv1)). tk_token t = new)"
  shows "\<exists>user' srv2. login (Y\<lparr>cy_token := new\<rparr>) E' srv1 body' = (Inr (new, user'), srv2)
    \<and> u_id user' = u_id user \<and> authenticate (sv_db srv2) None (Some new) = Inr (u_id user)"
proof -
  let ?db = "sv_db srv1" and ?Y = "Y\<lparr>cy_token := new\<rparr>"
  from register_result [OF assms(4)] obtain r h where r: "cy_hash Y (cd_password body) = Some h"
    "db_users ?db = db_users (sv_db srv) @ [r]"
    "\<not> (\<exists>s \<in> set (db_users (sv_db srv)). nocase (ur_name s) = nocase (ur_name r))"
    "ur_id r = en_alloc E (map ur_id (db_users (sv_db srv)))" "ur_name r = normalise_name Y (cd_name body)"
    "ur_password_hash r = h" "u_id user = of_row (ur_id r)" by metis
  have fresh: "small (ur_id r)" "ur_id r \<notin> set (map ur_id (db_users (sv_db srv)))"
    using rowid_fresh [OF assms(3)] unfolding r(4) by blast+
  have name: "normalise_name ?Y (cd_name body') = ur_name r" using assms(5) by (simp add: r(5) normalise_name_def)
  have found: "user_by_name ?db (normalise_name ?Y (cd_name body')) = Some (row_to_user r, h)"
    unfolding user_by_name_def name r(2) using find_last [OF r(3)] by (simp add: r(6))
  have byid: "find (\<lambda>s. ur_id s = ur_id r) (db_users ?db) = Some r"
    unfolding r(2) using fresh(2) by (intro find_last) (metis in_ids, simp)
  have some: "\<not> is_none (u_id (row_to_user r))"
  proof
    assume "is_none (u_id (row_to_user r))"
    then have "to_row (of_row (ur_id r)) = 0" by (simp add: is_none_def row_to_user_def to_row_def of_row_def)
    with fresh(1) show False by (simp add: small_def)
  qed
  have ok: "cy_verify ?Y (cd_password body') h" using assms(1,6) r(1) by simp
  have exists: "\<exists>s \<in> set (db_users ?db). ur_id s = to_row (u_id (row_to_user r))"
    using fresh(1) by (simp add: r(2) row_to_user_def)
  define tok where "tok = \<lparr>tk_token = new, tk_user_id = to_row (u_id (row_to_user r)),
      tk_created_at = en_millis E', tk_agent = take 120 (cd_agent body')\<rparr>"
  have issued: "issue_token ?Y E' ?db (u_id (row_to_user r)) (cd_agent body') =
      (Inr new, ?db\<lparr>db_tokens := db_tokens ?db @ [tok]\<rparr>)"
    using assms(7) exists by (simp add: issue_token_def Let_def store_token_def tok_def)
  have "login ?Y E' srv1 body' = (Inr (new, row_to_user r), srv1\<lparr>sv_db := ?db\<lparr>db_tokens := db_tokens ?db @ [tok]\<rparr>\<rparr>)"
    using ok some by (simp add: login_def Let_def found issued)
  moreover have "find (\<lambda>t. tk_token t = new) (db_tokens ?db @ [tok]) = Some tok"
    using assms(7) by (intro find_last) (simp_all add: tok_def)
  ultimately show ?thesis
    using byid fresh(1) by (simp add: authenticate_def Let_def user_for_token_def tok_def row_to_user_def r(7))
qed

section \<open>Concrete runs\<close>

text \<open>A crypt whose hashes are the passwords and whose digests are all zero.\<close>

definition toy_crypt :: crypt where
  "toy_crypt = \<lparr>cy_hash = Some, cy_verify = (=), cy_token = [116], cy_lower = id,
     cy_digest = (\<lambda>_. replicate 32 0), cy_dimensions = (\<lambda>_. (0, 0))\<rparr>"

definition old_db :: db where
  "old_db = empty_db\<lparr>db_attachments := [\<lparr>ar_id = 1, ar_message_id = None, ar_uploader_id = 1, ar_name = [98],
     ar_size = 9, ar_content_type = [], ar_width = 1, ar_height = 1, ar_sha256 = replicate 64 97,
     ar_created_at = 7, ar_expires_at = 10, ar_blob_deleted = False\<rparr>]\<rparr>"

definition old_swept :: sweep_state where
  "old_swept = sweep (\<lambda>_. False) 10 old_db [(replicate 64 97, [1])]"

lemma a_digest: "is_digest (replicate 64 97)" "is_digest (replicate 64 48)"
  by (simp_all add: is_digest_def utf8_len_def is_hexdigit_def sum_list_replicate)

theorem sweep_takes_exactly_what_nobody_needs_witness:
  "hget (fst (snd old_swept)) (replicate 64 97) = None \<and> map ar_blob_deleted (db_attachments (fst old_swept)) = [True]"
proof -
  have due: "blob_due old_db 10 (replicate 64 97)"
    by (simp add: blob_due_def old_db_def)
  have "sweep (\<lambda>_. False) 10 old_db [(replicate 64 97, [1])] = (fst old_swept, fst (snd old_swept), snd (snd old_swept))"
    by (simp add: old_swept_def)
  from sweep_takes_exactly_what_nobody_needs [OF this] due a_digest(1) show ?thesis
    by (simp add: mark_all_def) (simp add: old_db_def)
qed

definition token_server :: server where
  "token_server = \<lparr>sv_config = default_config, sv_hub = new_state,
     sv_db = sample_db\<lparr>db_attachments := [], db_tokens := [\<lparr>tk_token = [116], tk_user_id = 1, tk_created_at = 1, tk_agent = []\<rparr>]\<rparr>\<rparr>"

definition uploaded_row :: attachment where
  "uploaded_row = \<lparr>at_id = Id 1, at_name = [98], at_size = 2, at_content_type = str ''application/octet-stream'',
     at_width = 0, at_height = 0, at_sha256 = replicate 64 48, at_expires_at = 259200009\<rparr>"

definition uploaded :: "(failure + attachment) \<times> server \<times> blobs" where
  "uploaded = upload toy_crypt quiet_env token_server [] None (Some [116]) [98] [1, 2]"

lemma toy_name: "sanitise_name [98] = [98]"
  by (simp add: sanitise_name_def is_control_def trim_def trim_start_def trim_end_def is_whitespace_def)

lemma toy_type: "content_type_for [98] = str ''application/octet-stream''"
proof -
  have "extension [98] = []" by (simp add: extension_def file_name_def)
  then show ?thesis by (simp add: content_type_for_def ascii_lower_def str_def)
qed

lemma concat_pairs: "concat (map (\<lambda>_. [a, a]) (replicate n x)) = replicate (2 * n) a"
  by (induction n) simp_all

lemma toy_hex: "sha256_hex (cy_digest toy_crypt) bs = replicate 64 48"
proof -
  have "sha256_hex (cy_digest toy_crypt) bs = concat (map (\<lambda>_. [48, 48]) (replicate 32 (0::byte)))"
    unfolding sha256_hex_def toy_crypt_def
    by (intro arg_cong [of _ _ concat] map_cong) (auto simp: hex_digit_def)
  then show ?thesis by (simp only: concat_pairs) simp
qed

lemma toy_auth: "authenticate (sv_db token_server) None (Some [116]) = Inr (Id 1)"
  by (simp add: authenticate_def user_for_token_def token_server_def sample_simps row_to_user_def)

lemma toy_upload: "fst uploaded = Inr uploaded_row"
  "attachment_by_id (sv_db (fst (snd uploaded))) (Id 1) = Some (uploaded_row, False)"
  "authenticate (sv_db (fst (snd uploaded))) None (Some [116]) = Inr (Id 1)"
  by (simp_all add: uploaded_def upload_def toy_auth toy_name toy_type blob_store_def toy_hex a_digest Let_def
      insert_attachment_def uploaded_row_def)
    (simp_all add: toy_type token_server_def quiet_env_def toy_crypt_def sample_simps default_config_def DEFAULT_MAX_UPLOAD_def
      attachment_by_id_def authenticate_def user_for_token_def row_to_user_def)

theorem uploads_stay_until_their_time_is_up_witness:
  "\<exists>r. download (fst (snd uploaded)) (snd (snd uploaded)) None (Some [116]) (Id 1) = Inr r
    \<and> sha256_hex (cy_digest toy_crypt) (rs_body r) = replicate 64 48"
proof -
  have ok: "files_ok (cy_digest toy_crypt) (db_attachments (sv_db token_server)) []"
    "rowid_ok (en_alloc quiet_env) (map ar_id (db_attachments (sv_db token_server)))"
    by (simp_all add: files_ok_def rowid_ok_def token_server_def quiet_env_def next_row_def)
  have up: "upload toy_crypt quiet_env token_server [] None (Some [116]) [98] [1, 2] =
      (Inr uploaded_row, fst (snd uploaded), snd (snd uploaded))"
    using toy_upload(1) by (metis prod.collapse uploaded_def)
  have found: "attachment_by_id (sv_db (fst (snd uploaded))) (at_id uploaded_row) = Some (uploaded_row, False)"
    using toy_upload(2) by (simp add: uploaded_row_def)
  from uploads_stay_until_their_time_is_up [OF ok up rtranclp.rtrancl_refl found refl toy_upload(3)] show ?thesis
    by (auto simp: uploaded_row_def)
qed

definition newcomer :: credentials where
  "newcomer = \<lparr>cd_name = [97, 98], cd_password = replicate 12 112, cd_display_name = [], cd_agent = []\<rparr>"

definition empty_server :: server where
  "empty_server = \<lparr>sv_config = default_config, sv_hub = new_state, sv_db = empty_db\<rparr>"

definition registered :: "(failure + rstring \<times> user) \<times> server" where
  "registered = register toy_crypt quiet_env empty_server newcomer"

lemma newcomer_registers: "\<exists>token user. fst registered = Inr (token, user)"
  "\<not> (\<exists>t \<in> set (db_tokens (sv_db (snd registered))). tk_token t = [117])"
  by (simp_all add: registered_def register_def Let_def empty_server_def registration_allowed_def newcomer_def
      check_name_rules_def normalise_name_def toy_crypt_def trim_def trim_start_def trim_end_def is_whitespace_def
      is_ascii_alphanumeric_def check_password_rules_def MIN_PASSWORD_def MAX_PASSWORD_def utf8_len_def
      sum_list_replicate create_user_def create_channel_def issue_token_def store_token_def quiet_env_def
      is_empty_def empty_db_def next_row_def to_row_def of_row_def)

theorem who_registers_can_log_in_witness:
  "\<exists>user' srv2 i. login (toy_crypt\<lparr>cy_token := [117]\<rparr>) quiet_env (snd registered) newcomer = (Inr ([117], user'), srv2)
    \<and> u_id user' = i \<and> authenticate (sv_db srv2) None (Some [117]) = Inr i"
proof -
  from newcomer_registers(1) obtain token user where reg:
    "register toy_crypt quiet_env empty_server newcomer = (Inr (token, user), snd registered)"
    by (metis prod.collapse registered_def)
  have hash: "\<forall>p h. cy_hash toy_crypt p = Some h \<longrightarrow> cy_verify toy_crypt p h" by (simp add: toy_crypt_def)
  have inv: "db_inv (sv_db empty_server)" "rowid_ok (en_alloc quiet_env) (map ur_id (db_users (sv_db empty_server)))"
    by (simp_all add: empty_server_def db_inv_empty)
      (simp add: empty_db_def rowid_ok_def quiet_env_def next_row_def)
  from who_registers_can_log_in [OF hash inv reg refl refl newcomer_registers(2), of quiet_env] show ?thesis by blast
qed

end
