(* ===== verification/Transport.thy ===== *)
theory Transport
  imports Hub
begin

text \<open>
  The client's end of the media path, \<open>crates/boa-client/src/media/mod.rs\<close>: one socket, the
  relay's address and the session key. The socket is the environment: whether a \<open>send_to\<close>
  succeeds and what \<open>recv_from\<close> returned are arguments, and what was handed to the socket is
  returned.
\<close>

definition READ_TIMEOUT :: nat where "READ_TIMEOUT = 200000000"
definition KEEPALIVE :: nat where "KEEPALIVE = 10 ^ 9"

record transport =
  tr_relay :: socket_addr
  tr_key :: session_key

fun is_ipv6 :: "socket_addr \<Rightarrow> bool" where
  "is_ipv6 (AddrV4 ip port) = False"
| "is_ipv6 (AddrV6 ip port flow scope) = True"

text \<open>\<open>0.0.0.0:0\<close> or \<open>[::]:0\<close>, of the family of the relay.\<close>

definition bind_address :: "socket_addr \<Rightarrow> socket_addr" where
  "bind_address relay = (if is_ipv6 relay then AddrV6 0 0 0 0 else AddrV4 0 0)"

datatype socket_error = WouldBlock | TimedOut | ResetByPeer | OtherError nat

text \<open>Opening: the local address to bind to, and whether the system let us.\<close>

definition transport_open ::
  "(socket_addr \<Rightarrow> socket_error option) \<Rightarrow> socket_addr \<Rightarrow> session_key \<Rightarrow> socket_error + transport" where
  "transport_open bind relay key =
     (case bind (bind_address relay) of
        Some e \<Rightarrow> Inl e
      | None \<Rightarrow> Inr \<lparr>tr_relay = relay, tr_key = key\<rparr>)"

datatype send_error = Sealing media_error | Sending

text \<open>\<open>send\<close>: the result, and what went to the socket.\<close>

definition transport_send ::
  "aead \<Rightarrow> bool \<Rightarrow> transport \<Rightarrow> packet_header \<Rightarrow> byte list
    \<Rightarrow> (send_error + unit) \<times> (socket_addr \<times> byte list) list" where
  "transport_send A ok t h payload =
     (case seal A (tr_key t) h payload [] of
        (Inl e, _) \<Rightarrow> (Inl (Sealing e), [])
      | (Inr _, datagram) \<Rightarrow>
          (if ok then (Inr (), [(tr_relay t, datagram)]) else (Inl Sending, [])))"

definition transport_register ::
  "aead \<Rightarrow> bool \<Rightarrow> transport \<Rightarrow> u32 \<Rightarrow> u32 \<Rightarrow> (send_error + unit) \<times> (socket_addr \<times> byte list) list" where
  "transport_register A ok t ssrc seq =
     transport_send A ok t \<lparr>ph_kind = Keepalive, ph_ssrc = ssrc, ph_seq = seq, ph_timestamp = 0\<rparr>
       REGISTRATION_PLAINTEXT"

datatype inbound = Arrived "byte list" socket_addr | Silent socket_error

definition is_timeout :: "socket_error \<Rightarrow> bool" where
  "is_timeout e \<longleftrightarrow> e = WouldBlock \<or> e = TimedOut"

fun same_ip :: "socket_addr \<Rightarrow> socket_addr \<Rightarrow> bool" where
  "same_ip (AddrV4 a _) (AddrV4 b _) \<longleftrightarrow> a = b"
| "same_ip (AddrV6 a _ _ _) (AddrV6 b _ _ _) \<longleftrightarrow> a = b"
| "same_ip _ _ \<longleftrightarrow> False"

text \<open>\<open>recv\<close>: the buffer holds one datagram of the protocol, and a longer one is cut to it.\<close>

fun transport_recv ::
  "aead \<Rightarrow> transport \<Rightarrow> inbound \<Rightarrow> socket_error + (packet_header \<times> byte list) option" where
  "transport_recv A t (Arrived bytes sender) =
     (if \<not> same_ip sender (tr_relay t) then Inr None
      else case open_datagram A (tr_key t) (take MAX_DATAGRAM bytes) of
             Inr opened \<Rightarrow> Inr (Some opened)
           | Inl _ \<Rightarrow> Inr None)"
| "transport_recv A t (Silent e) =
     (if is_timeout e then Inr None else if e = ResetByPeer then Inr None else Inl e)"

section \<open>What one end seals the other opens\<close>

lemma same_ip_refl [simp]: "same_ip a a"
  by (cases a) auto

definition sealed :: "aead \<Rightarrow> session_key \<Rightarrow> packet_header \<Rightarrow> byte list \<Rightarrow> byte list" where
  "sealed A key h payload = snd (seal A key h payload [])"

lemma transport_send_fits:
  assumes "aead_laws A" "length payload \<le> MAX_PAYLOAD"
  shows "transport_send A ok t h payload =
    (if ok then (Inr (), [(tr_relay t, sealed A (tr_key t) h payload)]) else (Inl Sending, []))"
  using assms by (auto elim!: seal_fits [of A payload "tr_key t" h "[]"] simp: transport_send_def sealed_def)

lemma sealed_opens:
  assumes "aead_laws A" "length payload \<le> MAX_PAYLOAD"
  shows "open_datagram A key (sealed A key h payload) = Inr (h, payload)"
    "decode (sealed A key h payload) = Inr h"
    "length (sealed A key h payload) = HEADER_LEN + length payload + TAG_LEN"
    "length (sealed A key h payload) \<le> MAX_DATAGRAM"
proof -
  show "open_datagram A key (sealed A key h payload) = Inr (h, payload)"
    "length (sealed A key h payload) = HEADER_LEN + length payload + TAG_LEN"
    using open_of_seal [OF assms, of key h "[]"] by (simp_all add: sealed_def)
  then show "length (sealed A key h payload) \<le> MAX_DATAGRAM" using assms(2) by simp
  show "decode (sealed A key h payload) = Inr h"
    using open_datagram_Inr(1) [OF open_of_seal(1) [OF assms, of key h "[]"]]
    by (metis decode_encode_append sealed_def)
qed

lemma transport_recv_sealed:
  assumes "aead_laws A" "length payload \<le> MAX_PAYLOAD"
    "same_ip sender (tr_relay t)"
  shows "transport_recv A t (Arrived (sealed A (tr_key t) h payload) sender) = Inr (Some (h, payload))"
  using assms(3) sealed_opens [OF assms(1,2), of "tr_key t" h] by simp

end
