(* ===== verification/Annexb.thy ===== *)
theory Annexb
  imports Media
begin

text \<open>
  Splitting an encoder's byte stream into pictures, the \<open>Annexb\<close> reader of
  \<open>crates/boa-client/src/screen/send.rs\<close>. What a pipe delivers is cut anywhere. A slice of the
  buffer that would panic is \<open>None\<close>. The reference for the reader is the stream cut at every
  start code (\<open>segments\<close>), with no notion of a read.
\<close>

section \<open>The reader\<close>

record share_picture =
  sp_data :: "byte list"
  sp_keyframe :: bool

record annexb =
  ax_pending :: "byte list"
  ax_in_nal :: bool
  ax_prefix :: "byte list"
  ax_prefix_has_parameters :: bool

definition default_annexb :: annexb where
  "default_annexb =
     \<lparr>ax_pending = [], ax_in_nal = False, ax_prefix = [], ax_prefix_has_parameters = False\<rparr>"

definition append_nal :: "byte list \<Rightarrow> byte list \<Rightarrow> byte list" where
  "append_nal out nal = out @ [0, 0, 0, 1] @ nal"

fun trim_zeros :: "byte list \<Rightarrow> nat \<Rightarrow> nat" where
  "trim_zeros bytes 0 = 0"
| "trim_zeros bytes (Suc e) = (if bytes ! e = 0 then trim_zeros bytes e else Suc e)"

definition nal_end :: "byte list \<Rightarrow> nat \<Rightarrow> nat" where
  "nal_end bytes next_start = trim_zeros bytes (next_start - 3)"

function start_codes_from :: "byte list \<Rightarrow> nat \<Rightarrow> nat list" where
  "start_codes_from bytes i =
     (if i + 3 \<le> length bytes
      then if bytes ! i = 0 \<and> bytes ! (i + 1) = 0 \<and> bytes ! (i + 2) = 1
           then (i + 3) # start_codes_from bytes (i + 3)
           else start_codes_from bytes (i + 1)
      else [])"
  by pat_completeness auto
termination by (relation "measure (\<lambda>(bytes, i). length bytes - i)") auto

declare start_codes_from.simps [simp del]

definition start_codes :: "byte list \<Rightarrow> nat list" where
  "start_codes bytes = start_codes_from bytes 0"

definition nal_type :: "byte list \<Rightarrow> u8 option" where
  "nal_type nal = map_option (\<lambda>b. b AND 0x1F) (find (\<lambda>b. b \<noteq> 0) nal)"

text \<open>The body of the loop for one unit: the reader and the pictures so far.\<close>

definition take_unit :: "annexb \<times> share_picture list \<Rightarrow> byte list \<Rightarrow> annexb \<times> share_picture list" where
  "take_unit axo nal =
     (case axo of (ax, out) \<Rightarrow>
        case nal_type nal of
          None \<Rightarrow> (ax, out)
        | Some kind \<Rightarrow>
            if kind = 1 \<or> kind = 5
            then (ax\<lparr>ax_prefix := [], ax_prefix_has_parameters := False\<rparr>,
                  out @ [\<lparr>sp_data = append_nal (ax_prefix ax) nal,
                          sp_keyframe = (kind = 5 \<or> ax_prefix_has_parameters ax)\<rparr>])
            else if 6 \<le> kind \<and> kind \<le> 9
            then (ax\<lparr>ax_prefix := append_nal (ax_prefix ax) nal,
                     ax_prefix_has_parameters := (kind = 7 \<or> kind = 8 \<or> ax_prefix_has_parameters ax)\<rparr>,
                  out)
            else (ax\<lparr>ax_prefix := append_nal (ax_prefix ax) nal\<rparr>, out))"

definition slice :: "byte list \<Rightarrow> nat \<Rightarrow> nat \<Rightarrow> byte list option" where
  "slice bytes start e =
     (if start \<le> e \<and> e \<le> length bytes then Some (take (e - start) (drop start bytes)) else None)"

fun take_units ::
  "byte list \<Rightarrow> (nat \<times> nat) list \<Rightarrow> annexb \<times> share_picture list \<Rightarrow> (annexb \<times> share_picture list) option" where
  "take_units bytes [] axo = Some axo"
| "take_units bytes ((start, next_start) # pairs) axo =
     (case slice bytes start (nal_end bytes next_start) of
        None \<Rightarrow> None
      | Some nal \<Rightarrow> take_units bytes pairs (take_unit axo nal))"

definition annexb_feed :: "annexb \<Rightarrow> byte list \<Rightarrow> (share_picture list \<times> annexb) option" where
  "annexb_feed ax bytes =
     (let ax = ax\<lparr>ax_pending := ax_pending ax @ bytes\<rparr>;
          boundaries = (if ax_in_nal ax then [0] else []) @ start_codes (ax_pending ax)
      in if length boundaries < 2 then Some ([], ax)
         else case take_units (ax_pending ax) (zip boundaries (tl boundaries)) (ax, []) of
                None \<Rightarrow> None
              | Some (ax, out) \<Rightarrow>
                  Some (out, ax\<lparr>ax_pending := drop (last boundaries) (ax_pending ax),
                                ax_in_nal := True\<rparr>))"

text \<open>The reads of a pump, one after the other, and everything they completed.\<close>

fun feed_reads :: "annexb \<Rightarrow> byte list list \<Rightarrow> (share_picture list \<times> annexb) option" where
  "feed_reads ax [] = Some ([], ax)"
| "feed_reads ax (bytes # reads) =
     (case annexb_feed ax bytes of
        None \<Rightarrow> None
      | Some (out, ax) \<Rightarrow> map_option (\<lambda>(rest, ax). (out @ rest, ax)) (feed_reads ax reads))"

section \<open>The stream cut at its start codes\<close>

text \<open>What comes before the first start code, and what follows each.\<close>

function segments :: "byte list \<Rightarrow> byte list \<times> byte list list" where
  "segments [] = ([], [])"
| "segments (x # xs) =
     (if x = 0 \<and> take 2 xs = [0, 1]
      then let (first, rest) = segments (drop 2 xs) in ([], first # rest)
      else let (first, rest) = segments xs in (x # first, rest))"
  by pat_completeness auto
termination by (relation "measure length") auto

definition trimmed :: "byte list \<Rightarrow> byte list" where
  "trimmed s = rev (dropWhile (\<lambda>b. b = 0) (rev s))"

text \<open>The units of a stream that are complete: the last one is still arriving.\<close>

definition complete_units :: "byte list \<Rightarrow> byte list list" where
  "complete_units stream = map trimmed (butlast (snd (segments stream)))"

definition pictures_of :: "byte list list \<Rightarrow> share_picture list" where
  "pictures_of us = snd (foldl take_unit (default_annexb, []) us)"

end
