(* ===== verification/Share.thy ===== *)
theory Share
  imports Transport Annexb
begin

text \<open>
  The sending side of a screen share, \<open>crates/boa-client/src/screen/send.rs\<close>: the pacer, which
  spaces datagrams out, and the wire, which cuts each picture into fragments and sends them
  through the transport. Instants are nanoseconds. The environment gives, for each datagram, the
  clock the pacer reads and whether the socket takes it; a call to \<open>sleep\<close> is returned.
\<close>

section \<open>The pacer\<close>

record pacer =
  pc_next :: nat
  pc_per_byte :: u32

definition per_byte_for :: "u32 \<Rightarrow> u32" where
  "per_byte_for kbps =
     (let ceiling_bits = max ((ucast kbps :: u64) * 3 * 1000 div 2) 3000000
      in ucast (max ((8000000000 :: u64) div ceiling_bits) 1))"

definition pacer_new :: "nat \<Rightarrow> u32 \<Rightarrow> pacer" where
  "pacer_new now kbps = \<lparr>pc_next = now, pc_per_byte = per_byte_for kbps\<rparr>"

definition aim_at :: "u32 \<Rightarrow> pacer \<Rightarrow> pacer" where
  "aim_at kbps p =
     (let per_byte = per_byte_for kbps
      in if per_byte \<noteq> pc_per_byte p then p\<lparr>pc_per_byte := per_byte\<rparr> else p)"

definition NOT_WORTH_A_SLEEP :: nat where "NOT_WORTH_A_SLEEP = 100000"

text \<open>How long to sleep before the datagram, if at all, and the pacer after charging it.\<close>

definition pacer_take :: "nat \<Rightarrow> nat \<Rightarrow> pacer \<Rightarrow> nat option \<times> pacer" where
  "pacer_take now bytes p =
     (let (sleep, p) =
            (if pc_next p > now
             then let wait = pc_next p - now in (if wait > NOT_WORTH_A_SLEEP then Some wait else None, p)
             else (None, p\<lparr>pc_next := now\<rparr>))
      in (sleep, p\<lparr>pc_next := pc_next p + unat ((ucast (pc_per_byte p) :: u64) * of_nat bytes)\<rparr>))"

section \<open>The wire\<close>

text \<open>
  \<open>wr_preview\<close> is the bounded queue to the local preview: what waits in it and its depth, or
  nothing when nobody previews.
\<close>

record wire =
  wr_transport :: transport
  wr_ssrc :: u32
  wr_frames :: u64
  wr_packets :: u64
  wr_preview :: "((bool \<times> byte list) list \<times> nat) option"
  wr_seq :: u32
  wr_start :: nat
  wr_pacer :: pacer

definition wire_new ::
  "transport \<Rightarrow> u32 \<Rightarrow> ((bool \<times> byte list) list \<times> nat) option \<Rightarrow> nat \<Rightarrow> u32 \<Rightarrow> wire" where
  "wire_new t ssrc preview now kbps =
     \<lparr>wr_transport = t, wr_ssrc = ssrc, wr_frames = 0, wr_packets = 0, wr_preview = preview,
      wr_seq = 0, wr_start = now, wr_pacer = pacer_new now kbps\<rparr>"

text \<open>What happens around one datagram: the pacer's clock, and whether the socket takes it.\<close>

record moment =
  mo_now :: nat
  mo_ok :: bool

text \<open>What the wire does, in order: sleeps and datagrams.\<close>

datatype act = Sleep nat | Out "socket_addr \<times> byte list"

definition put_fragment ::
  "aead \<Rightarrow> media_kind \<Rightarrow> u32 \<Rightarrow> wire \<Rightarrow> moment \<Rightarrow> u16 \<times> u16 \<times> byte list \<Rightarrow> wire \<times> act list" where
  "put_fragment A kind timestamp w mo fr =
     (case fr of (index, cnt, chunk) \<Rightarrow>
        let payload = write_fragment index cnt chunk [];
            (sleep, pacer) = pacer_take (mo_now mo) (length payload + HEADER_LEN + 16) (wr_pacer w);
            seq = wr_seq w + 1;
            h = \<lparr>ph_kind = kind, ph_ssrc = wr_ssrc w, ph_seq = seq, ph_timestamp = timestamp\<rparr>;
            (result, out) = transport_send A (mo_ok mo) (wr_transport w) h payload;
            w = w\<lparr>wr_pacer := pacer, wr_seq := seq\<rparr>;
            w = (case result of Inr _ \<Rightarrow> w\<lparr>wr_packets := wr_packets w + 1\<rparr> | Inl _ \<Rightarrow> w)
        in (w, (case sleep of Some d \<Rightarrow> [Sleep d] | None \<Rightarrow> []) @ map Out out))"

text \<open>\<open>moments\<close> gives the moment of each fragment of the picture, by its position.\<close>

fun put_fragments ::
  "aead \<Rightarrow> media_kind \<Rightarrow> u32 \<Rightarrow> (nat \<Rightarrow> moment) \<Rightarrow> wire \<Rightarrow> (u16 \<times> u16 \<times> byte list) list \<Rightarrow> wire \<times> act list" where
  "put_fragments A kind timestamp moments w [] = (w, [])"
| "put_fragments A kind timestamp moments w (fr # frs) =
     (let (w, out) = put_fragment A kind timestamp w (moments 0) fr;
          (w, rest) = put_fragments A kind timestamp (moments \<circ> Suc) w frs
      in (w, out @ rest))"

definition offer_preview :: "share_picture \<Rightarrow> wire \<Rightarrow> wire" where
  "offer_preview p w =
     (case wr_preview w of
        Some (queue, depth) \<Rightarrow>
          if length queue < depth
          then w\<lparr>wr_preview := Some (queue @ [(sp_keyframe p, sp_data p)], depth)\<rparr>
          else w
      | None \<Rightarrow> w)"

text \<open>\<open>rate\<close> is the bitrate shared with the interface, \<open>now\<close> the clock \<open>elapsed\<close> reads.\<close>

definition put :: "aead \<Rightarrow> u32 \<Rightarrow> nat \<Rightarrow> (nat \<Rightarrow> moment) \<Rightarrow> wire \<Rightarrow> share_picture \<Rightarrow> wire \<times> act list" where
  "put A rate now moments w p =
     (let w = w\<lparr>wr_pacer := aim_at rate (wr_pacer w)\<rparr>;
          w = w\<lparr>wr_frames := wr_frames w + 1\<rparr>;
          w = offer_preview p w;
          kind = (if sp_keyframe p then VideoKey else VideoDelta);
          timestamp = word_of_nat ((now - wr_start w) div 1000000)
      in put_fragments A kind timestamp moments w (fragment (sp_data p)))"

text \<open>
  The pump over what ffmpeg's pipe delivers: each read with the rate, clock and moments of the
  pictures it completes. An empty read is the end of the stream.
\<close>

record tick =
  ti_rate :: u32
  ti_now :: nat
  ti_moments :: "nat \<Rightarrow> moment"

fun put_all :: "aead \<Rightarrow> (nat \<Rightarrow> tick) \<Rightarrow> wire \<Rightarrow> share_picture list \<Rightarrow> wire \<times> act list" where
  "put_all A ticks w [] = (w, [])"
| "put_all A ticks w (p # ps) =
     (let (w, out) = put A (ti_rate (ticks 0)) (ti_now (ticks 0)) (ti_moments (ticks 0)) w p;
          (w, rest) = put_all A (ticks \<circ> Suc) w ps
      in (w, out @ rest))"

fun pump ::
  "aead \<Rightarrow> annexb \<times> wire \<Rightarrow> (byte list \<times> (nat \<Rightarrow> tick)) list \<Rightarrow> ((annexb \<times> wire) \<times> act list) option" where
  "pump A rw [] = Some (rw, [])"
| "pump A (reader, w) ((bytes, ticks) # reads) =
     (if bytes = [] then Some ((reader, w), [])
      else case annexb_feed reader bytes of
             None \<Rightarrow> None
           | Some (ps, reader) \<Rightarrow>
               let (w, out) = put_all A ticks w ps
               in map_option (\<lambda>(rw, rest). (rw, out @ rest)) (pump A (reader, w) reads))"

end
