(* ===== verification/ShareProps.thy ===== *)
theory ShareProps
  imports Share
begin

text \<open>
  The pacer's promise: no burst. A datagram may leave when the bytes before it have had the time
  they cost, whatever the clock did in between, and idle time is not saved up.
\<close>

section \<open>The price of a byte\<close>

lemma ceiling_nat:
  "unat (max ((ucast (kbps :: u32) :: u64) * 3 * 1000 div 2) 3000000) = max (unat kbps * 3000 div 2) 3000000"
proof -
  have kbps: "unat kbps < 2 ^ 32" using unsigned_less [of kbps, where ?'a = nat] by simp
  have "unat ((ucast kbps :: u64) * 3 * 1000) = unat kbps * 3000"
    using kbps by (simp add: unat_word_ariths unsigned_ucast_eq take_bit_eq_mod mult.assoc)
  then show ?thesis by (simp add: max_def word_le_nat_alt unat_div_distrib)
qed

lemma per_byte_nat:
  "unat (per_byte_for kbps) = max (8000000000 div max (unat kbps * 3000 div 2) 3000000) 1"
proof -
  let ?c = "max ((ucast kbps :: u64) * 3 * 1000 div 2) 3000000"
  have "unat (8000000000 div ?c) = 8000000000 div max (unat kbps * 3000 div 2) 3000000"
    by (simp only: unat_div_distrib ceiling_nat) simp
  then have "unat (max (8000000000 div ?c) 1) = max (8000000000 div max (unat kbps * 3000 div 2) 3000000) 1"
    unfolding max_def [of "8000000000 div ?c"] word_le_nat_alt by (simp add: max_def)
  moreover have "8000000000 div max (unat kbps * 3000 div 2) 3000000 \<le> 2666"
    using div_le_mono2 [of 3000000 "max (unat kbps * 3000 div 2) 3000000" 8000000000] by simp
  ultimately show ?thesis
    by (simp add: per_byte_for_def Let_def unsigned_ucast_eq take_bit_eq_mod)
qed

lemma per_byte_bounds: "1 \<le> unat (per_byte_for kbps)" "unat (per_byte_for kbps) \<le> 2666"
  using div_le_mono2 [of 3000000 "max (unat kbps * 3000 div 2) 3000000" 8000000000]
  by (simp_all add: per_byte_nat)

section \<open>Runs of the pacer\<close>

text \<open>
  A datagram to send: the bitrate in force, the clock when the pacer looks at it, and its size.
  \<open>departs now slept t\<close>: it leaves at \<open>t\<close>, not before the clock was read, and not before a
  sleep that was asked for is over (\<open>thread::sleep\<close> lasts at least as long as asked).
\<close>

record due =
  du_kbps :: u32
  du_now :: nat
  du_bytes :: nat

definition due_cost :: "due \<Rightarrow> nat" where
  "due_cost d = unat (per_byte_for (du_kbps d)) * du_bytes d"

definition pace :: "due \<Rightarrow> pacer \<Rightarrow> nat option \<times> pacer" where
  "pace d p = pacer_take (du_now d) (du_bytes d) (aim_at (du_kbps d) p)"

fun pacer_at :: "pacer \<Rightarrow> (nat \<Rightarrow> due) \<Rightarrow> nat \<Rightarrow> pacer" where
  "pacer_at p ds 0 = p"
| "pacer_at p ds (Suc i) = snd (pace (ds i) (pacer_at p ds i))"

definition departs :: "nat \<Rightarrow> nat option \<Rightarrow> nat \<Rightarrow> bool" where
  "departs now slept t \<longleftrightarrow> now + (case slept of None \<Rightarrow> 0 | Some d \<Rightarrow> d) \<le> t"

lemma pace_next:
  assumes "du_bytes d < 2 ^ 32"
  shows "pc_next (snd (pace d p)) = max (pc_next p) (du_now d) + due_cost d"
    "fst (pace d p) = (let wait = pc_next p - du_now d in if wait > 100000 then Some wait else None)"
proof -
  have pb: "pc_per_byte (aim_at k p) = per_byte_for k" "pc_next (aim_at k p) = pc_next p" for k
    by (simp_all add: aim_at_def Let_def)
  have "unat (per_byte_for (du_kbps d)) * du_bytes d < 2666 * 2 ^ 32 + 1"
    using mult_le_mono [OF per_byte_bounds(2) less_imp_le [OF assms], of "du_kbps d"] by simp
  then have "unat ((ucast (per_byte_for (du_kbps d)) :: u64) * of_nat (du_bytes d)) = due_cost d"
    using assms unsigned_less [of "per_byte_for (du_kbps d)", where ?'a = nat]
    by (simp add: due_cost_def unat_word_ariths unsigned_ucast_eq unat_of_nat take_bit_eq_mod)
  then show "pc_next (snd (pace d p)) = max (pc_next p) (du_now d) + due_cost d"
    "fst (pace d p) = (let wait = pc_next p - du_now d in if wait > 100000 then Some wait else None)"
    by (auto simp: pace_def pacer_take_def pb Let_def NOT_WORTH_A_SLEEP_def max_def)
qed

lemma pacer_at_ge:
  assumes "\<And>k. du_bytes (ds k) < 2 ^ 32" "i < j"
  shows "du_now (ds i) + (\<Sum>k = i..<j. due_cost (ds k)) \<le> pc_next (pacer_at p ds j)"
  using assms(2)
proof (induction j)
  case (Suc j)
  then show ?case
  proof (cases "i = j")
    case True
    then show ?thesis by (simp add: pace_next [OF assms(1)])
  next
    case False
    with Suc show ?thesis by (simp add: pace_next [OF assms(1)])
  qed
qed simp

lemma pacer_at_le:
  assumes "\<And>k. du_bytes (ds k) < 2 ^ 32" "pc_next p \<le> du_now (ds 0)" "0 < j"
  shows "\<exists>i < j. pc_next (pacer_at p ds j) = du_now (ds i) + (\<Sum>k = i..<j. due_cost (ds k))"
  using assms(3)
proof (induction j)
  case (Suc j)
  show ?case
  proof (cases "j = 0 \<or> pc_next (pacer_at p ds j) \<le> du_now (ds j)")
    case True
    then have "pc_next (pacer_at p ds (Suc j)) = du_now (ds j) + (\<Sum>k = j..<Suc j. due_cost (ds k))"
      using assms(2) by (auto simp: pace_next [OF assms(1)] max_def)
    then show ?thesis by blast
  next
    case False
    then obtain i where "i < j" "pc_next (pacer_at p ds j) = du_now (ds i) + (\<Sum>k = i..<j. due_cost (ds k))"
      using Suc.IH by auto
    then show ?thesis using False by (intro exI [of _ i]) (simp add: pace_next [OF assms(1)])
  qed
qed simp

text \<open>
  Claim C37. The wire never bursts, and never stalls. For datagrams under any bitrates and any
  readings of the clock: datagram \<open>j\<close> does not depart before the bytes of the datagrams from
  any earlier \<open>i\<close> on have had the time they cost, counted from when \<open>i\<close> was looked at, but for
  the tenth of a millisecond not worth a sleep; so idle time is never saved up for a burst. And
  when it is made to sleep, it is for exactly the cost of the bytes since some earlier datagram.
\<close>

theorem pacer_spreads_bursts:
  assumes "\<And>k. du_bytes (ds k) < 2 ^ 32" "i < j" "pc_next p \<le> du_now (ds 0)"
    and "departs (du_now (ds j)) (fst (pace (ds j) (pacer_at p ds j))) t"
  shows "du_now (ds i) + (\<Sum>k = i..<j. due_cost (ds k)) \<le> t + 100000
    \<and> (\<forall>d. fst (pace (ds j) (pacer_at p ds j)) = Some d \<longrightarrow>
         (\<exists>i < j. du_now (ds j) + d = du_now (ds i) + (\<Sum>k = i..<j. due_cost (ds k))))"
  using pacer_at_ge [where ds = ds and p = p, OF assms(1,2)] pacer_at_le [where ds = ds and p = p and j = j, OF assms(1,3)] assms(2,4)
  by (auto simp: pace_next [OF assms(1)] departs_def Let_def split: if_splits)

text \<open>Two full datagrams at 2 Mbit/s, looked at in the same instant.\<close>

definition two_due :: "nat \<Rightarrow> due" where
  "two_due k = \<lparr>du_kbps = 2000, du_now = 5000, du_bytes = 1200\<rparr>"

theorem pacer_spreads_bursts_witness:
  "fst (pace (two_due 1) (pacer_at (pacer_new 5000 2000) two_due 1)) = Some (2666 * 1200)
   \<and> 5000 + (\<Sum>k = 0..<1. due_cost (two_due k)) \<le> (5000 + 2666 * 1200) + 100000
   \<and> (\<exists>i < 1. 5000 + 2666 * 1200 = 5000 + (\<Sum>k = i..<1. due_cost (two_due k)))"
proof -
  have small: "du_bytes (two_due k) < 2 ^ 32" for k by (simp add: two_due_def)
  have "unat (per_byte_for 2000) = 2666" by (simp add: per_byte_nat)
  then have cost: "due_cost (two_due k) = 2666 * 1200" for k by (simp add: due_cost_def two_due_def)
  have sleep: "fst (pace (two_due 1) (pacer_at (pacer_new 5000 2000) two_due 1)) = Some (2666 * 1200)"
    using pace_next [OF small] cost by (simp add: pacer_new_def) (simp add: two_due_def)
  have "pc_next (pacer_new 5000 2000) \<le> du_now (two_due 0)" by (simp add: pacer_new_def two_due_def)
  from pacer_spreads_bursts [where ds = two_due and i = 0 and j = 1, OF small _ this, of "5000 + 2666 * 1200"] sleep
  show ?thesis by (simp add: departs_def two_due_def)
qed

end
