(* ===== verification/AnnexbProps.thy ===== *)
theory AnnexbProps
  imports Annexb
begin

text \<open>
  What the reader promises: it never slices out of range, what it finds does not depend on how
  the stream was cut into reads, and it hands on every unit of the stream, whole and in order.
\<close>

section \<open>Segments\<close>

lemma segments_cases:
  obtains a segs where "segments s = (a, segs)" by (cases "segments s")

lemma segments_short: "length s < 3 \<Longrightarrow> segments s = (s, [])"
  by (induction s) (auto simp: take_Cons' split: if_splits)

lemma segments_concat:
  "segments s = (a, segs) \<Longrightarrow> s = a @ concat (map (\<lambda>x. [0, 0, 1] @ x) segs)"
proof (induction s arbitrary: a segs rule: segments.induct)
  case (2 x xs)
  then show ?case
    by (cases "x = 0 \<and> take 2 xs = [0, 1]")
      (auto split: prod.splits, metis append_Cons append_Nil append_take_drop_id)
qed simp

lemma segments_start:
  "segments ([0, 0, 1] @ s) = (let (first, rest) = segments s in ([], first # rest))"
  by simp

lemma segments_append:
  "segments s = (a, segs) \<Longrightarrow> segs \<noteq> [] \<Longrightarrow>
   segments (s @ t) = (let (first, rest) = segments (last segs @ t) in (a, butlast segs @ first # rest))"
proof (induction s arbitrary: a segs rule: segments.induct)
  case (2 x xs)
  show ?case
  proof (cases "x = 0 \<and> take 2 xs = [0, 1]")
    case True
    obtain f r where fr: "segments (drop 2 xs) = (f, r)" by (rule segments_cases)
    have t: "take 2 (xs @ t) = [0, 1]" "drop 2 (xs @ t) = drop 2 xs @ t"
      using True by (auto simp: take_Cons' drop_Cons' split: if_splits) (cases xs; cases "tl xs"; auto)+
    from fr True 2(3) have eq: "a = []" "segs = f # r" by auto
    show ?thesis
    proof (cases "r = []")
      case True
      then have "f = drop 2 xs" using segments_concat[OF fr] by simp
      then show ?thesis using True eq t \<open>x = 0 \<and> take 2 xs = [0, 1]\<close> by (simp split: prod.splits)
    next
      case False
      then show ?thesis using 2(1)[OF True fr False] eq t True by (simp split: prod.splits)
    qed
  next
    case False
    obtain f r where fr: "segments xs = (f, r)" by (rule segments_cases)
    then have eq: "a = x # f" "segs = r" using False 2(3) by auto
    have "length xs \<ge> 3" using segments_short[of xs] fr eq 2(4) by fastforce
    then have "take 2 (xs @ t) = take 2 xs" by simp
    then have "segments ((x # xs) @ t) = (let (f, r) = segments (xs @ t) in (x # f, r))"
      using False by (cases "x = 0") (auto simp del: take_append)
    then show ?thesis using 2(2)[OF False fr] eq 2(4) by (simp split: prod.splits)
  qed
qed simp

lemma segments_last:
  "segments s = (a, segs) \<Longrightarrow> segs \<noteq> [] \<Longrightarrow> segments (last segs) = (last segs, [])"
proof (induction s arbitrary: a segs rule: segments.induct)
  case (2 x xs)
  show ?case
  proof (cases "x = 0 \<and> take 2 xs = [0, 1]")
    case True
    obtain f r where fr: "segments (drop 2 xs) = (f, r)" by (rule segments_cases)
    then show ?thesis
      using 2(1)[OF True fr] segments_concat[OF fr] True 2(3) by (cases "r = []") auto
  next
    case False
    obtain f r where fr: "segments xs = (f, r)" by (rule segments_cases)
    then show ?thesis using 2(2)[OF False fr] False 2(3,4) by auto
  qed
qed simp

section \<open>Boundaries\<close>

text \<open>Where each segment begins, the first at \<open>n\<close>.\<close>

fun offsets :: "nat \<Rightarrow> byte list list \<Rightarrow> nat list" where
  "offsets n [] = []"
| "offsets n (s # ss) = n # offsets (n + length s + 3) ss"

lemma length_offsets [simp]: "length (offsets n ss) = length ss"
  by (induction ss arbitrary: n) auto

lemma offsets_Nil [simp]: "offsets n ss = [] \<longleftrightarrow> ss = []"
  by (cases ss) auto

lemma last_offsets: "ss \<noteq> [] \<Longrightarrow>
  last (offsets n ss) + length (last ss) + 3 = n + length (concat (map (\<lambda>x. [0, 0, 1] @ x) ss))"
proof (induction ss arbitrary: n)
  case (Cons s ss)
  then show ?case using Cons.IH[of "n + length s + 3"] by (cases "ss = []") auto
qed simp

lemma start_codes_from_segments:
  "segments (drop i bytes) = (a, segs) \<Longrightarrow>
   start_codes_from bytes i = offsets (i + length a + 3) segs"
proof (induction bytes i arbitrary: a segs rule: start_codes_from.induct)
  case (1 bytes i)
  show ?case
  proof (cases "i + 3 \<le> length bytes")
    case True
    then have d: "drop i bytes = bytes ! i # bytes ! (i + 1) # bytes ! (i + 2) # drop (i + 3) bytes"
      by (simp add: Cons_nth_drop_Suc numeral_3_eq_3)
    have d1: "drop (Suc i) bytes = bytes ! (i + 1) # bytes ! (i + 2) # drop (i + 3) bytes"
      using True by (simp add: Cons_nth_drop_Suc numeral_3_eq_3)
    show ?thesis
    proof (cases "bytes ! i = 0 \<and> bytes ! (i + 1) = 0 \<and> bytes ! (i + 2) = 1")
      case code: True
      obtain f r where fr: "segments (drop (i + 3) bytes) = (f, r)" by (rule segments_cases)
      with 1(3) d code have "a = []" "segs = f # r" by auto
      then show ?thesis
        using 1(1)[OF True code fr] True code
        by (subst start_codes_from.simps) simp
    next
      case code: False
      obtain f r where fr: "segments (drop (i + 1) bytes) = (f, r)" by (rule segments_cases)
      with 1(3) d d1 code have "a = bytes ! i # f" "segs = r" by (auto split: prod.splits)
      then show ?thesis
        using 1(2)[OF True code fr] True code by (subst start_codes_from.simps) auto
    qed
  next
    case False
    then have "segments (drop i bytes) = (drop i bytes, [])" by (intro segments_short) simp
    with 1(3) False show ?thesis by (subst start_codes_from.simps) simp
  qed
qed

section \<open>One unit\<close>

lemma trimmed_snoc: "trimmed (s @ [x]) = (if x = 0 then trimmed s else s @ [x])"
  by (simp add: trimmed_def)

lemma trim_zeros_unit:
  assumes "l = [] \<or> last l \<noteq> 0"
  shows "trim_zeros (l @ s @ r) (length l + length s) = length l + length (trimmed s)"
proof (induction s arbitrary: r rule: rev_induct)
  case Nil
  show ?case using assms by (cases l rule: rev_cases) (auto simp: trimmed_def nth_append)
next
  case (snoc x s)
  have "(l @ (s @ [x]) @ r) ! (length l + length s) = x" by (simp add: nth_append)
  then show ?case using snoc[of "x # r"] by (cases "x = 0") (auto simp: trimmed_snoc nth_append)
qed

lemma trimmed_prefix: "\<exists>zs. s = trimmed s @ zs"
  by (metis rev_append rev_rev_ident takeWhile_dropWhile_id trimmed_def)

lemma slice_unit:
  assumes "l = [] \<or> last l \<noteq> 0" "bytes = l @ s @ [0, 0, 1] @ r"
  shows "slice bytes (length l) (nal_end bytes (length l + length s + 3)) = Some (trimmed s)"
proof -
  obtain zs where zs: "s = trimmed s @ zs" using trimmed_prefix by blast
  have "nal_end bytes (length l + length s + 3) = length l + length (trimmed s)"
    using trim_zeros_unit[OF assms(1), of s "[0, 0, 1] @ r"] assms(2) by (simp add: nal_end_def)
  moreover have "take (length (trimmed s)) (s @ [0, 0, 1] @ r) = trimmed s"
    by (subst (2) zs) simp
  moreover have "length (trimmed s) \<le> length s" by (subst (2) zs) simp
  ultimately show ?thesis using assms(2) by (simp add: slice_def)
qed

lemma take_units_segments:
  assumes "l = [] \<or> last l \<noteq> 0" "bytes = l @ s @ concat (map (\<lambda>x. [0, 0, 1] @ x) segs)"
    "bs = length l # offsets (length l + length s + 3) segs"
  shows "take_units bytes (zip bs (tl bs)) axo
       = Some (foldl take_unit axo (map trimmed (butlast (s # segs))))"
  using assms
proof (induction segs arbitrary: l s bs axo)
  case (Cons t segs)
  let ?l = "l @ s @ [0, 0, 1]"
  have "take_units bytes (zip (tl bs) (tl (tl bs))) (take_unit axo (trimmed s))
      = Some (foldl take_unit (take_unit axo (trimmed s)) (map trimmed (butlast (t # segs))))"
    using Cons.prems by (intro Cons.IH[of ?l]) (auto simp: ac_simps)
  moreover have "slice bytes (length l) (nal_end bytes (length l + length s + 3)) = Some (trimmed s)"
    using Cons.prems by (intro slice_unit) auto
  ultimately show ?case using Cons.prems(3) by simp
qed simp

section \<open>What the reader holds after some reads\<close>

lemma take_unit_out: "take_unit (ax, out) u =
    (fst (take_unit (ax\<lparr>ax_pending := p, ax_in_nal := b\<rparr>, []) u)\<lparr>ax_pending := ax_pending ax, ax_in_nal := ax_in_nal ax\<rparr>,
     out @ snd (take_unit (ax\<lparr>ax_pending := p, ax_in_nal := b\<rparr>, []) u))"
  by (simp add: take_unit_def split: option.splits)

lemma foldl_take_unit: "foldl take_unit (ax, out) us =
    (fst (foldl take_unit (ax\<lparr>ax_pending := p, ax_in_nal := b\<rparr>, []) us)\<lparr>ax_pending := ax_pending ax, ax_in_nal := ax_in_nal ax\<rparr>,
     out @ snd (foldl take_unit (ax\<lparr>ax_pending := p, ax_in_nal := b\<rparr>, []) us))"
proof (induction us arbitrary: ax out)
  case (Cons u us)
  obtain ax1 o1 where 1: "take_unit (ax\<lparr>ax_pending := p, ax_in_nal := b\<rparr>, []) u = (ax1, o1)" by fastforce
  have "ax_pending ax1 = p" "ax_in_nal ax1 = b"
    using 1 by (auto simp: take_unit_def split: option.splits if_splits)
  then have "ax1\<lparr>ax_pending := p, ax_in_nal := b\<rparr> = ax1" by simp
  then show ?case
    using Cons[of "ax1\<lparr>ax_pending := ax_pending ax, ax_in_nal := ax_in_nal ax\<rparr>" "out @ o1"] Cons[of ax1 o1] 1
    by (simp add: take_unit_out[of ax out u b p])
qed simp

text \<open>After the bytes \<open>s\<close>, with the pictures \<open>out\<close> returned so far.\<close>

definition reader_inv :: "byte list \<Rightarrow> share_picture list \<Rightarrow> annexb \<Rightarrow> bool" where
  "reader_inv s out ax \<longleftrightarrow>
     (let segs = snd (segments s)
      in (if ax_in_nal ax then segs \<noteq> [] \<and> ax_pending ax = last segs
          else ax_pending ax = s \<and> length segs < 2)
       \<and> foldl take_unit (default_annexb, []) (complete_units s)
         = (ax\<lparr>ax_pending := [], ax_in_nal := False\<rparr>, out))"

lemma reader_inv_start: "reader_inv [] [] default_annexb"
  by (simp add: reader_inv_def default_annexb_def complete_units_def)

lemma complete_units_append:
  assumes "segments s = (a, segs)" "segs \<noteq> []" "segments (last segs @ t) = (b, segs')"
  shows "complete_units (s @ t) = complete_units s @ map trimmed (butlast (b # segs'))"
    "last (snd (segments (s @ t))) = last (b # segs')" "snd (segments (s @ t)) \<noteq> []"
  using segments_append[OF assms(1,2)] assms by (auto simp: complete_units_def butlast_append)

lemma drop_last_offset:
  assumes "s = l @ concat (map (\<lambda>x. [0, 0, 1] @ x) segs)" "segs \<noteq> []"
  shows "drop (last (offsets (length l + 3) segs)) s = last segs"
proof -
  have "s = (l @ concat (map (\<lambda>x. [0, 0, 1] @ x) (butlast segs)) @ [0, 0, 1]) @ last segs" (is "_ = ?p @ _")
    by (subst assms(1), subst append_butlast_last_id[OF assms(2), symmetric], subst map_append) simp
  moreover have "last (offsets (length l + 3) segs) = length ?p"
  proof -
    have "length s = length ?p + length (last segs)" by (subst calculation) simp
    then show ?thesis using last_offsets[OF assms(2), of "length l + 3"] assms(1) by simp
  qed
  ultimately show ?thesis by simp
qed

lemma take_unit_pending [simp]:
  "ax_pending (fst (take_unit axo u)) = ax_pending (fst axo)"
  "ax_in_nal (fst (take_unit axo u)) = ax_in_nal (fst axo)"
  by (simp_all add: take_unit_def split: option.splits prod.splits)

lemma foldl_take_unit_pending [simp]:
  "ax_pending (fst (foldl take_unit axo us)) = ax_pending (fst axo)"
  "ax_in_nal (fst (foldl take_unit axo us)) = ax_in_nal (fst axo)"
  by (induction us arbitrary: axo) auto

lemma annexb_feed_few:
  assumes "bs = (if ax_in_nal ax then [0] else []) @ start_codes (ax_pending ax @ t)" "length bs < 2"
  shows "annexb_feed ax t = Some ([], ax\<lparr>ax_pending := ax_pending ax @ t\<rparr>)"
  using assms by (simp add: annexb_feed_def Let_def)

lemma annexb_feed_units:
  assumes "bs = (if ax_in_nal ax then [0] else []) @ start_codes (ax_pending ax @ t)" "\<not> length bs < 2"
    "take_units (ax_pending ax @ t) (zip bs (tl bs)) (ax\<lparr>ax_pending := ax_pending ax @ t\<rparr>, [])
     = Some (foldl take_unit (ax\<lparr>ax_pending := ax_pending ax @ t\<rparr>, []) us)"
    "foldl take_unit (ax\<lparr>ax_pending := ax_pending ax @ t\<rparr>, []) us = (ax', out)"
  shows "annexb_feed ax t =
    Some (out, ax'\<lparr>ax_pending := drop (last bs) (ax_pending ax @ t), ax_in_nal := True\<rparr>)"
proof -
  have "ax_pending ax' = ax_pending ax @ t"
    using foldl_take_unit_pending(1)[of "(ax\<lparr>ax_pending := ax_pending ax @ t\<rparr>, [])" us] assms(4) by simp
  moreover have "ax_pending (ax\<lparr>ax_pending := ax_pending ax @ t\<rparr>) = ax_pending ax @ t"
    "ax_in_nal (ax\<lparr>ax_pending := ax_pending ax @ t\<rparr>) = ax_in_nal ax" by simp_all
  ultimately show ?thesis
    using assms(3,4) unfolding annexb_feed_def Let_def
    by (simp only: assms(1)[symmetric] assms(2) if_False option.case prod.case)
qed

text \<open>A reader that has seen \<open>s\<close> takes the next bytes without a panic, and has then seen both.\<close>

lemma reader_inv_step:
  assumes inv: "reader_inv s out ax"
    and g: "foldl take_unit (ax\<lparr>ax_pending := p\<rparr>, []) (map trimmed us) = (ax', out')"
    and us: "complete_units (s @ t) = complete_units s @ map trimmed us" "snd (segments (s @ t)) \<noteq> []"
  shows "reader_inv (s @ t) (out @ out')
    (ax'\<lparr>ax_pending := last (snd (segments (s @ t))), ax_in_nal := True\<rparr>)"
proof -
  have "foldl take_unit (default_annexb, []) (complete_units s) = (ax\<lparr>ax_pending := [], ax_in_nal := False\<rparr>, out)"
    using inv by (simp add: reader_inv_def Let_def)
  then have "foldl take_unit (default_annexb, []) (complete_units (s @ t))
      = (ax'\<lparr>ax_pending := [], ax_in_nal := False\<rparr>, out @ out')"
    using foldl_take_unit[of "ax\<lparr>ax_pending := [], ax_in_nal := False\<rparr>" out "map trimmed us" "ax_in_nal ax" p] g
    by (simp add: us(1))
  then show ?thesis using us(2) by (simp add: reader_inv_def Let_def)
qed

lemma annexb_feed_inv:
  assumes "reader_inv s out ax"
  shows "\<exists>out' ax'. annexb_feed ax t = Some (out', ax') \<and> reader_inv (s @ t) (out @ out') ax'"
proof -
  obtain a segs where ss: "segments s = (a, segs)" by (rule segments_cases)
  obtain b segs' where tt: "segments (ax_pending ax @ t) = (b, segs')" by (rule segments_cases)
  have codes: "start_codes (ax_pending ax @ t) = offsets (length b + 3) segs'"
    using start_codes_from_segments[of 0 "ax_pending ax @ t"] tt by (simp add: start_codes_def)
  have bytes: "ax_pending ax @ t = b @ concat (map (\<lambda>x. [0, 0, 1] @ x) segs')"
    using segments_concat[OF tt] .
  have finish: ?thesis
    if "take_units (ax_pending ax @ t) (zip bs (tl bs)) (ax\<lparr>ax_pending := ax_pending ax @ t\<rparr>, [])
        = Some (foldl take_unit (ax\<lparr>ax_pending := ax_pending ax @ t\<rparr>, []) (map trimmed us))"
      and "bs = (if ax_in_nal ax then [0] else []) @ offsets (length b + 3) segs'" "\<not> length bs < 2"
      and "complete_units (s @ t) = complete_units s @ map trimmed us" "snd (segments (s @ t)) \<noteq> []"
      and "drop (last bs) (ax_pending ax @ t) = last (snd (segments (s @ t)))"
    for bs us
  proof -
    obtain ax' out' where g: "foldl take_unit (ax\<lparr>ax_pending := ax_pending ax @ t\<rparr>, []) (map trimmed us) = (ax', out')"
      by fastforce
    show ?thesis
      using annexb_feed_units[OF _ that(3,1) g] reader_inv_step[OF assms g that(4,5)] that(2,6) codes by metis
  qed
  show ?thesis
  proof (cases "ax_in_nal ax")
    case True
    then have segs: "segs \<noteq> []" "ax_pending ax = last segs"
      using assms ss by (auto simp: reader_inv_def Let_def)
    note app = complete_units_append[OF ss segs(1) tt[unfolded segs(2)]]
    show ?thesis
    proof (cases "segs' = []")
      case none: True
      then have "annexb_feed ax t = Some ([], ax\<lparr>ax_pending := ax_pending ax @ t\<rparr>)"
        using True codes by (intro annexb_feed_few[OF refl]) simp
      moreover have "reader_inv (s @ t) (out @ []) (ax\<lparr>ax_pending := ax_pending ax @ t\<rparr>)"
        using app none bytes True assms by (simp add: reader_inv_def Let_def)
      ultimately show ?thesis by blast
    next
      case False
      then show ?thesis
        using take_units_segments[of "[]", OF _ _ refl] bytes True app drop_last_offset[OF bytes False]
        by (intro finish[of "0 # offsets (length b + 3) segs'" "butlast (b # segs')"])
          (simp_all add: Suc_le_eq)
    qed
  next
    case False
    then have p: "ax_pending ax = s" "length segs < 2"
      using assms ss by (auto simp: reader_inv_def Let_def)
    then have none: "complete_units s = []" using ss by (cases segs) (auto simp: complete_units_def)
    have st: "segments (s @ t) = (b, segs')" using tt p by simp
    show ?thesis
    proof (cases "length segs' < 2")
      case True
      then have "annexb_feed ax t = Some ([], ax\<lparr>ax_pending := ax_pending ax @ t\<rparr>)"
        using False codes by (intro annexb_feed_few[OF refl]) simp
      moreover have "complete_units (s @ t) = []"
        using True st by (cases segs') (auto simp: complete_units_def)
      then have "reader_inv (s @ t) (out @ []) (ax\<lparr>ax_pending := ax_pending ax @ t\<rparr>)"
        using p st True False assms none by (simp add: reader_inv_def Let_def)
      ultimately show ?thesis by blast
    next
      case two: False
      then obtain c segs'' where c: "segs' = c # segs''" "segs'' \<noteq> []" by (cases segs') auto
      have "take_units (s @ t) (zip (offsets (length b + 3) segs') (tl (offsets (length b + 3) segs'))) axo
          = Some (foldl take_unit axo (map trimmed (butlast segs')))" for axo
        using take_units_segments[of "b @ [0, 0, 1]" "s @ t" c segs'' _ axo, OF _ _ refl] bytes c p(1)
        by (simp add: ac_simps numeral_3_eq_3)
      moreover have "drop (last (offsets (length b + 3) segs')) (s @ t) = last segs'"
        using drop_last_offset[of "s @ t" b segs'] bytes c p(1) by simp
      ultimately show ?thesis
        using two False st none p(1) c
        by (intro finish[of "offsets (length b + 3) segs'" "butlast segs'"]) (auto simp: complete_units_def)
    qed
  qed
qed

lemma feed_reads_inv:
  "reader_inv s out ax \<Longrightarrow>
   \<exists>out' ax'. feed_reads ax reads = Some (out', ax') \<and> reader_inv (s @ concat reads) (out @ out') ax'"
proof (induction reads arbitrary: s out ax)
  case (Cons t reads)
  obtain o1 ax1 where 1: "annexb_feed ax t = Some (o1, ax1)" "reader_inv (s @ t) (out @ o1) ax1"
    using annexb_feed_inv[OF Cons.prems] by blast
  then show ?case using Cons.IH[OF 1(2)] by fastforce
qed simp

lemma feed_reads_total:
  "\<exists>ax. feed_reads default_annexb reads = Some (pictures_of (complete_units (concat reads)), ax)
    \<and> reader_inv (concat reads) (pictures_of (complete_units (concat reads))) ax"
proof -
  obtain out ax where "feed_reads default_annexb reads = Some (out, ax)" "reader_inv (concat reads) out ax"
    using feed_reads_inv[OF reader_inv_start, of reads] by auto
  moreover from this(2) have "out = pictures_of (complete_units (concat reads))"
    by (simp add: reader_inv_def pictures_of_def Let_def)
  ultimately show ?thesis by blast
qed

text \<open>
  Claim C31. What the reader makes of an encoder's output does not depend on how the pipe cuts it:
  whatever the reads, even one byte at a time, it never slices its buffer out of range, and the
  pictures it has returned are those of the units complete in the stream so far, that is, of the
  stream cut at its start codes with trailing zeros taken off, grouped into a picture at every
  slice.
\<close>

theorem pictures_do_not_depend_on_reads:
  "map_option fst (feed_reads default_annexb reads) = Some (pictures_of (complete_units (concat reads)))"
  using feed_reads_total[of reads] by auto

section \<open>From units to pictures and back\<close>

text \<open>The encoder's side: a unit after a start code with \<open>k\<close> extra zeros.\<close>

definition annexb_stream :: "(nat \<times> byte list) list \<Rightarrow> byte list" where
  "annexb_stream us = concat (map (\<lambda>(k, u). replicate k 0 @ [0, 0, 1] @ u) us)"

text \<open>A unit as the standard allows it: no start code inside, not empty, not ending in a zero.\<close>

definition proper_unit :: "byte list \<Rightarrow> bool" where
  "proper_unit u \<longleftrightarrow> u \<noteq> [] \<and> last u \<noteq> 0 \<and> segments u = (u, [])"

lemma segments_no_code:
  "segments u = (u, []) \<Longrightarrow> u = [] \<or> last u \<noteq> 0 \<Longrightarrow>
   segments (u @ replicate k 0 @ [0, 0, 1] @ t) = (let (first, rest) = segments t in (u @ replicate k 0, first # rest))"
proof (induction u)
  case Nil
  show ?case by (induction k) (auto simp: replicate_app_Cons_same take_Cons' split: prod.splits)
next
  case (Cons x xs)
  obtain f r where fr: "segments t = (f, r)" by (rule segments_cases)
  have not_code: "\<not> (x = 0 \<and> take 2 xs = [0, 1])" and rest: "segments xs = (xs, [])"
    using Cons.prems(1) by (auto split: if_splits prod.splits)
  have "xs = [] \<or> last xs \<noteq> 0" using Cons.prems(2) by (auto split: if_splits)
  note IH = Cons.IH[OF rest this]
  have "\<not> (x = 0 \<and> take 2 (xs @ replicate k 0 @ [0, 0, 1] @ t) = [0, 1])"
  proof (cases xs)
    case Nil
    then show ?thesis using Cons.prems(2) by simp
  next
    case (Cons y ys)
    then show ?thesis
      using not_code \<open>xs = [] \<or> last xs \<noteq> 0\<close> by (cases ys) (auto split: if_splits)
  qed
  then have "segments ((x # xs) @ replicate k 0 @ [0, 0, 1] @ t)
      = (let (f, r) = segments (xs @ replicate k 0 @ [0, 0, 1] @ t) in (x # f, r))"
    by (cases "x = 0") (auto simp del: take_append)
  then show ?case using IH fr by simp
qed

lemma segments_stream:
  "\<forall>(k, u) \<in> set us. proper_unit u \<Longrightarrow>
   \<exists>k segs. segments (annexb_stream us @ [0, 0, 1]) = (replicate k 0, segs) \<and> segs \<noteq> []
     \<and> map trimmed (butlast segs) = map snd us
     \<and> (\<exists>t. annexb_stream us @ [0, 0, 1] = replicate k 0 @ [0, 0, 1] @ t)"
proof (induction us)
  case Nil
  show ?case by (rule exI[of _ 0], rule exI[of _ "[[]]"]) (simp add: annexb_stream_def)
next
  case (Cons ku us)
  obtain k u where ku: "ku = (k, u)" by fastforce
  obtain k' segs t where IH: "segments (annexb_stream us @ [0, 0, 1]) = (replicate k' 0, segs)" "segs \<noteq> []"
    "map trimmed (butlast segs) = map snd us" "annexb_stream us @ [0, 0, 1] = replicate k' 0 @ [0, 0, 1] @ t"
    using Cons by auto
  have u: "u \<noteq> []" "last u \<noteq> 0" "segments u = (u, [])" using Cons.prems ku by (auto simp: proper_unit_def)
  have "segments (u @ annexb_stream us @ [0, 0, 1]) = (u @ replicate k' 0, segs)"
    using segments_no_code[of u k' t] segments_no_code[of "[]" k' t] u IH(1,4) by (auto split: prod.splits)
  moreover have "annexb_stream (ku # us) @ [0, 0, 1] = [] @ replicate k 0 @ [0, 0, 1] @ u @ annexb_stream us @ [0, 0, 1]"
    by (simp add: ku annexb_stream_def)
  ultimately have "segments (annexb_stream (ku # us) @ [0, 0, 1]) = (replicate k 0, (u @ replicate k' 0) # segs)"
    using segments_no_code[of "[]" k "u @ annexb_stream us @ [0, 0, 1]"] by simp
  moreover have "trimmed (u @ replicate j 0) = u" for j
  proof (induction j)
    case 0
    show ?case using u(1,2) by (cases u rule: rev_cases) (auto simp: trimmed_snoc)
  next
    case (Suc j)
    have "u @ replicate (Suc j) 0 = (u @ replicate j 0) @ [0]" by (simp add: replicate_append_same)
    then show ?case using Suc by (metis trimmed_snoc)
  qed
  ultimately show ?case
    using IH(2,3) ku by (intro exI[of _ k] exI[of _ "(u @ replicate k' 0) # segs"]) (auto simp: annexb_stream_def)
qed

definition is_slice :: "byte list \<Rightarrow> bool" where
  "is_slice u \<longleftrightarrow> nal_type u = Some 1 \<or> nal_type u = Some 5"

lemma take_units_keep_bytes:
  assumes "\<forall>u \<in> set us. u \<noteq> [] \<and> last u \<noteq> 0" "foldl take_unit (ax, out) us = (ax', out')"
  shows "concat (map sp_data out') @ ax_prefix ax'
       = concat (map sp_data out) @ ax_prefix ax @ concat (map (append_nal []) us)
    \<and> length out' = length out + length (filter is_slice us)"
  using assms
proof (induction us arbitrary: ax out)
  case (Cons u us)
  obtain ax1 o1 where 1: "take_unit (ax, out) u = (ax1, o1)" by fastforce
  have "last u \<in> set u" "last u \<noteq> 0" using Cons.prems(1) by simp_all
  then have "find (\<lambda>b. b \<noteq> 0) u \<noteq> None" unfolding find_None_iff by blast
  then obtain kind where kind: "nal_type u = Some kind" by (auto simp: nal_type_def)
  have "concat (map sp_data o1) @ ax_prefix ax1 = concat (map sp_data out) @ ax_prefix ax @ append_nal [] u
      \<and> length o1 = length out + length (filter is_slice [u])"
    using 1 kind by (auto simp: take_unit_def append_nal_def is_slice_def split: if_splits)
  moreover have "concat (map sp_data out') @ ax_prefix ax'
      = concat (map sp_data o1) @ ax_prefix ax1 @ concat (map (append_nal []) us)
    \<and> length out' = length o1 + length (filter is_slice us)"
    using Cons 1 by simp
  ultimately show ?case by simp
qed simp

text \<open>
  Nothing of the stream is lost, altered or added on the way to the wire: if the encoder
  writes units the standard allows, each after a start code of three bytes or more, in whatever
  reads they arrive, then once the next start code is in, the pictures returned followed by
  the prefix held for the next are exactly the units, in order, each after the four-byte start
  code a decoder needs; and there is one picture for each slice.
\<close>

theorem every_unit_reaches_a_picture:
  assumes "\<forall>(k, u) \<in> set us. proper_unit u" "concat reads = annexb_stream us @ [0, 0, 1]"
  shows "\<exists>ps ax. feed_reads default_annexb reads = Some (ps, ax)
    \<and> concat (map sp_data ps) @ ax_prefix ax = concat (map (\<lambda>(k, u). [0, 0, 0, 1] @ u) us)
    \<and> length ps = length (filter (\<lambda>(k, u). is_slice u) us)"
proof -
  obtain ax where ax: "feed_reads default_annexb reads = Some (pictures_of (complete_units (concat reads)), ax)"
    "reader_inv (concat reads) (pictures_of (complete_units (concat reads))) ax"
    using feed_reads_total by blast
  have us: "complete_units (concat reads) = map snd us"
    using segments_stream[OF assms(1)] assms(2) by (auto simp: complete_units_def)
  have fold: "foldl take_unit (default_annexb, []) (map snd us)
      = (ax\<lparr>ax_pending := [], ax_in_nal := False\<rparr>, pictures_of (map snd us))"
    using ax(2) us by (simp add: reader_inv_def Let_def)
  have "\<forall>u \<in> set (map snd us). u \<noteq> [] \<and> last u \<noteq> 0"
    using assms(1) by (auto simp: proper_unit_def)
  from take_units_keep_bytes[OF this fold] show ?thesis
    using ax(1) us by (auto simp: default_annexb_def append_nal_def comp_def case_prod_unfold filter_map)
qed

text \<open>A parameter set and an IDR slice, in a stream read in the middle of a start code.\<close>

theorem every_unit_reaches_a_picture_witness:
  "\<exists>ps ax. feed_reads default_annexb [[0, 0, 0, 1, 0x67, 9, 0], [0, 1, 0x65, 5, 0, 0], [1]] = Some (ps, ax)
    \<and> concat (map sp_data ps) @ ax_prefix ax = [0, 0, 0, 1, 0x67, 9, 0, 0, 0, 1, 0x65, 5]
    \<and> length ps = 1"
proof -
  have "\<forall>(k, u) \<in> set [(1, [0x67, 9]), (0, [0x65, 5 :: byte])]. proper_unit u"
    by (simp add: proper_unit_def)
  from every_unit_reaches_a_picture[OF this,
      of "[[0, 0, 0, 1, 0x67, 9, 0], [0, 1, 0x65, 5, 0, 0], [1]]"]
  show ?thesis by (simp add: annexb_stream_def is_slice_def nal_type_def)
qed

end
