(* ===== verification/Floats.thy ===== *)
theory Floats
  imports Prelude
begin

text \<open>
  Rust's \<open>f32\<close> and \<open>f64\<close> (IEEE 754 binary32 and binary64): bit patterns are words, as
  \<open>to_bits\<close> and \<open>from_bits\<close> have them, and every operation rounds its exact result to
  nearest, ties to even. A number is read as \<open>Finite s m e\<close>, which is \<open>m * 2\<^sup>e\<close>, negative if \<open>s\<close>.
  The language leaves the bits of a computed NaN open; here there is one.
\<close>

section \<open>Numbers and rounding\<close>

datatype flt = Nan | Infinite bool | Finite bool nat int

record format =
  fm_prec :: nat
  fm_emin :: int
  fm_emax :: int

definition binary32 :: format where
  "binary32 = \<lparr>fm_prec = 24, fm_emin = - 149, fm_emax = 127\<rparr>"

definition binary64 :: format where
  "binary64 = \<lparr>fm_prec = 53, fm_emin = - 1074, fm_emax = 1023\<rparr>"

fun bits_in :: "nat \<Rightarrow> nat" where
  "bits_in n = (if n = 0 then 0 else Suc (bits_in (n div 2)))"

declare bits_in.simps [simp del]

definition round_to :: "format \<Rightarrow> bool \<Rightarrow> nat \<Rightarrow> int \<Rightarrow> flt" where
  "round_to fm s m e =
     (let k = nat (max (int (bits_in m) - int (fm_prec fm)) (fm_emin fm - e));
          q = m div 2 ^ k;
          r = m mod 2 ^ k;
          q = (if 2 * r > 2 ^ k \<or> (2 * r = 2 ^ k \<and> odd q) then q + 1 else q)
      in if q = 0 then Finite s 0 0
         else if int (bits_in q) + e + int k > fm_emax fm + 1 then Infinite s
         else Finite s q (e + int k))"

definition signed_of :: "bool \<Rightarrow> nat \<Rightarrow> int" where
  "signed_of s m = (if s then - int m else int m)"

section \<open>Arithmetic and comparison\<close>

fun fl_add :: "format \<Rightarrow> flt \<Rightarrow> flt \<Rightarrow> flt" where
  "fl_add fm Nan y = Nan"
| "fl_add fm x Nan = Nan"
| "fl_add fm (Infinite s) (Infinite t) = (if s = t then Infinite s else Nan)"
| "fl_add fm (Infinite s) (Finite t n f) = Infinite s"
| "fl_add fm (Finite s m e) (Infinite t) = Infinite t"
| "fl_add fm (Finite s m e) (Finite t n f) =
     (let k = min e f;
          sum = signed_of s m * 2 ^ nat (e - k) + signed_of t n * 2 ^ nat (f - k)
      in if sum = 0 then Finite (s \<and> t) 0 0 else round_to fm (sum < 0) (nat \<bar>sum\<bar>) k)"

fun fl_neg :: "flt \<Rightarrow> flt" where
  "fl_neg Nan = Nan"
| "fl_neg (Infinite s) = Infinite (\<not> s)"
| "fl_neg (Finite s m e) = Finite (\<not> s) m e"

definition fl_sub :: "format \<Rightarrow> flt \<Rightarrow> flt \<Rightarrow> flt" where
  "fl_sub fm x y = fl_add fm x (fl_neg y)"

fun fl_abs :: "flt \<Rightarrow> flt" where
  "fl_abs Nan = Nan"
| "fl_abs (Infinite s) = Infinite False"
| "fl_abs (Finite s m e) = Finite False m e"

fun fl_mul :: "format \<Rightarrow> flt \<Rightarrow> flt \<Rightarrow> flt" where
  "fl_mul fm Nan y = Nan"
| "fl_mul fm x Nan = Nan"
| "fl_mul fm (Infinite s) (Infinite t) = Infinite (s \<noteq> t)"
| "fl_mul fm (Infinite s) (Finite t n f) = (if n = 0 then Nan else Infinite (s \<noteq> t))"
| "fl_mul fm (Finite s m e) (Infinite t) = (if m = 0 then Nan else Infinite (s \<noteq> t))"
| "fl_mul fm (Finite s m e) (Finite t n f) = round_to fm (s \<noteq> t) (m * n) (e + f)"

text \<open>A quotient is taken to more bits than are kept, with one more for a remainder.\<close>

fun fl_div :: "format \<Rightarrow> flt \<Rightarrow> flt \<Rightarrow> flt" where
  "fl_div fm Nan y = Nan"
| "fl_div fm x Nan = Nan"
| "fl_div fm (Infinite s) (Infinite t) = Nan"
| "fl_div fm (Infinite s) (Finite t n f) = Infinite (s \<noteq> t)"
| "fl_div fm (Finite s m e) (Infinite t) = Finite (s \<noteq> t) 0 0"
| "fl_div fm (Finite s m e) (Finite t n f) =
     (if n = 0 then (if m = 0 then Nan else Infinite (s \<noteq> t))
      else let k = fm_prec fm + 2 + bits_in n;
               q = (m * 2 ^ k) div n;
               rest = (if (m * 2 ^ k) mod n = 0 then 0 else 1)
           in round_to fm (s \<noteq> t) (2 * q + rest) (e - f - int k - 1))"

fun fl_le :: "flt \<Rightarrow> flt \<Rightarrow> bool" where
  "fl_le Nan y \<longleftrightarrow> False"
| "fl_le x Nan \<longleftrightarrow> False"
| "fl_le (Infinite s) (Infinite t) \<longleftrightarrow> s \<or> \<not> t"
| "fl_le (Infinite s) (Finite t n f) \<longleftrightarrow> s"
| "fl_le (Finite s m e) (Infinite t) \<longleftrightarrow> \<not> t"
| "fl_le (Finite s m e) (Finite t n f) \<longleftrightarrow>
     (let k = min e f in signed_of s m * 2 ^ nat (e - k) \<le> signed_of t n * 2 ^ nat (f - k))"

definition fl_lt :: "flt \<Rightarrow> flt \<Rightarrow> bool" where
  "fl_lt x y \<longleftrightarrow> fl_le x y \<and> \<not> fl_le y x"

section \<open>Bit patterns\<close>

definition unpack :: "nat \<Rightarrow> nat \<Rightarrow> nat \<Rightarrow> flt" where
  "unpack fraction_bits exponent_bits n =
     (let s = odd (n div 2 ^ (fraction_bits + exponent_bits));
          ex = n div 2 ^ fraction_bits mod 2 ^ exponent_bits;
          fr = n mod 2 ^ fraction_bits;
          bias = 2 ^ (exponent_bits - 1) - 1
      in if ex = 2 ^ exponent_bits - 1 then (if fr = 0 then Infinite s else Nan)
         else if ex = 0 then Finite s fr (1 - int bias - int fraction_bits)
         else Finite s (2 ^ fraction_bits + fr) (int ex - int bias - int fraction_bits))"

text \<open>The pattern of a number the format represents.\<close>

fun pack :: "nat \<Rightarrow> nat \<Rightarrow> flt \<Rightarrow> nat" where
  "pack fraction_bits exponent_bits Nan =
     (2 ^ exponent_bits - 1) * 2 ^ fraction_bits + 2 ^ (fraction_bits - 1)"
| "pack fraction_bits exponent_bits (Infinite s) =
     (if s then 2 ^ (fraction_bits + exponent_bits) else 0) + (2 ^ exponent_bits - 1) * 2 ^ fraction_bits"
| "pack fraction_bits exponent_bits (Finite s m e) =
     (if s then 2 ^ (fraction_bits + exponent_bits) else 0)
     + (if m = 0 then 0
        else let bias = 2 ^ (exponent_bits - 1) - 1;
                 ex = int (bits_in m) - 1 + e + int bias
             in if ex \<ge> 1
                then nat ex * 2 ^ fraction_bits
                     + (if bits_in m \<le> fraction_bits + 1
                        then m * 2 ^ (fraction_bits + 1 - bits_in m)
                        else m div 2 ^ (bits_in m - (fraction_bits + 1))) - 2 ^ fraction_bits
                else (let k = e + int bias + int fraction_bits - 1
                      in if k \<ge> 0 then m * 2 ^ nat k else m div 2 ^ nat (- k)))"

type_synonym f32bits = u32
type_synonym f64bits = u64

definition of32 :: "f32bits \<Rightarrow> flt" where "of32 b = unpack 23 8 (unat b)"
definition to32 :: "flt \<Rightarrow> f32bits" where "to32 x = of_nat (pack 23 8 x)"
definition of64 :: "f64bits \<Rightarrow> flt" where "of64 b = unpack 52 11 (unat b)"
definition to64 :: "flt \<Rightarrow> f64bits" where "to64 x = of_nat (pack 52 11 x)"

definition f32_add :: "f32bits \<Rightarrow> f32bits \<Rightarrow> f32bits" where
  "f32_add a b = to32 (fl_add binary32 (of32 a) (of32 b))"

definition f32_sub :: "f32bits \<Rightarrow> f32bits \<Rightarrow> f32bits" where
  "f32_sub a b = to32 (fl_sub binary32 (of32 a) (of32 b))"

definition f32_times :: "f32bits \<Rightarrow> f32bits \<Rightarrow> f32bits" where
  "f32_times a b = to32 (fl_mul binary32 (of32 a) (of32 b))"

definition f32_divide :: "f32bits \<Rightarrow> f32bits \<Rightarrow> f32bits" where
  "f32_divide a b = to32 (fl_div binary32 (of32 a) (of32 b))"

definition f32_le :: "f32bits \<Rightarrow> f32bits \<Rightarrow> bool" where
  "f32_le a b \<longleftrightarrow> fl_le (of32 a) (of32 b)"

text \<open>\<open>clamp\<close> and \<open>max\<close> of the standard library: a NaN passes through one, and not the other.\<close>

definition f32_clamp :: "f32bits \<Rightarrow> f32bits \<Rightarrow> f32bits \<Rightarrow> f32bits" where
  "f32_clamp lo hi x =
     (let x = (if fl_lt (of32 x) (of32 lo) then lo else x) in if fl_lt (of32 hi) (of32 x) then hi else x)"

definition f32_max :: "f32bits \<Rightarrow> f32bits \<Rightarrow> f32bits" where
  "f32_max a b =
     (if of32 a = Nan then b else if of32 b = Nan then a else if fl_lt (of32 a) (of32 b) then b else a)"

definition f32_abs :: "f32bits \<Rightarrow> f32bits" where
  "f32_abs a = a AND 0x7FFFFFFF"

definition f32_one :: f32bits where "f32_one = 0x3F800000"
definition f32_minus_one :: f32bits where "f32_minus_one = 0xBF800000"
definition f32_two :: f32bits where "f32_two = 0x40000000"
definition f32_half :: f32bits where "f32_half = 0x3F000000"

text \<open>\<open>as f32\<close> of an integer and of an \<open>f64\<close>, \<open>as f64\<close>, and \<open>as i16\<close>, which saturates.\<close>

definition f32_of_int :: "int \<Rightarrow> f32bits" where
  "f32_of_int i = to32 (round_to binary32 (i < 0) (nat \<bar>i\<bar>) 0)"

definition f64_of_nat :: "nat \<Rightarrow> f64bits" where
  "f64_of_nat n = to64 (round_to binary64 False n 0)"

fun fl_round :: "format \<Rightarrow> flt \<Rightarrow> flt" where
  "fl_round fm Nan = Nan"
| "fl_round fm (Infinite s) = Infinite s"
| "fl_round fm (Finite s m e) = (if m = 0 then Finite s 0 0 else round_to fm s m e)"

definition f32_of_f64 :: "f64bits \<Rightarrow> f32bits" where
  "f32_of_f64 b = to32 (fl_round binary32 (of64 b))"

text \<open>Truncation towards zero, and towards plus infinity.\<close>

definition fl_trunc :: "nat \<Rightarrow> int \<Rightarrow> nat" where
  "fl_trunc m e = (if e \<ge> 0 then m * 2 ^ nat e else m div 2 ^ nat (- e))"

definition fl_ceiling :: "nat \<Rightarrow> int \<Rightarrow> nat" where
  "fl_ceiling m e = (if e \<ge> 0 then m * 2 ^ nat e else (m + 2 ^ nat (- e) - 1) div 2 ^ nat (- e))"

fun i16_of :: "flt \<Rightarrow> 16 word" where
  "i16_of Nan = 0"
| "i16_of (Infinite s) = (if s then - 32768 else 32767)"
| "i16_of (Finite s m e) =
     (let i = signed_of s (fl_trunc m e) in of_int (max (- 32768) (min 32767 i)))"

text \<open>\<open>x.ceil() as usize\<close> of an \<open>f64\<close>, which saturates at both ends.\<close>

fun usize_ceiling :: "flt \<Rightarrow> u64" where
  "usize_ceiling Nan = 0"
| "usize_ceiling (Infinite s) = (if s then 0 else - 1)"
| "usize_ceiling (Finite s m e) =
     (if s then 0 else if fl_ceiling m e \<ge> 2 ^ 64 then - 1 else of_nat (fl_ceiling m e))"

section \<open>Order\<close>

lemma fl_le_total: "x \<noteq> Nan \<Longrightarrow> y \<noteq> Nan \<Longrightarrow> fl_le x y \<or> fl_le y x"
  by (cases x; cases y) (auto simp: Let_def min.commute)

lemma fl_le_refl: "x \<noteq> Nan \<Longrightarrow> fl_le x x"
  using fl_le_total by blast

lemma fl_le_not_nan: "fl_le x y \<Longrightarrow> x \<noteq> Nan \<and> y \<noteq> Nan"
  by (cases x; cases y) auto

lemma f32_clamp_range:
  assumes "f32_le lo hi"
  shows "of32 x = Nan \<and> f32_clamp lo hi x = x
    \<or> f32_le lo (f32_clamp lo hi x) \<and> f32_le (f32_clamp lo hi x) hi"
proof (cases "of32 x = Nan")
  case True
  then have "\<not> fl_le (of32 x) y" "\<not> fl_le y (of32 x)" for y using fl_le_not_nan by blast+
  with True show ?thesis by (simp add: f32_clamp_def fl_lt_def)
next
  case False
  note tot = fl_le_total [OF False]
  show ?thesis
    using assms fl_le_not_nan [of "of32 lo" "of32 hi"] tot [of "of32 lo"] tot [of "of32 hi"]
      fl_le_refl [of "of32 lo"] fl_le_refl [of "of32 hi"]
    by (auto simp: f32_clamp_def f32_le_def fl_lt_def Let_def)
qed

end
