(* ===== verification/Settings.thy ===== *)
theory Settings
  imports Model Floats
begin

text \<open>
  What the client remembers between runs, \<open>crates/boa-client/src/settings.rs\<close>: the settings,
  their defaults and limits, per-person volumes, and the two addresses derived from what the
  user typed. JSON is the argument \<open>parse\<close>; the file system's answer is an argument too.
\<close>

section \<open>The settings\<close>

record voice_settings =
  vs_input_device :: "rstring option"
  vs_output_device :: "rstring option"
  vs_input_gain :: f32bits
  vs_output_volume :: f32bits
  vs_noise_suppression :: bool
  vs_gate_threshold_db :: f32bits
  vs_gate_hang_ms :: u32
  vs_push_to_talk :: bool
  vs_push_to_talk_key :: rstring
  vs_muted :: bool
  vs_deafened :: bool
  vs_jitter_ms :: u32

text \<open>\<open>-45.0\<close>, \<open>-90.0\<close> and \<open>4.0\<close> as bit patterns.\<close>

definition f32_minus_45 :: f32bits where "f32_minus_45 = 0xC2340000"
definition f32_minus_90 :: f32bits where "f32_minus_90 = 0xC2B40000"
definition f32_four :: f32bits where "f32_four = 0x40800000"

definition default_voice :: voice_settings where
  "default_voice =
     \<lparr>vs_input_device = None, vs_output_device = None, vs_input_gain = f32_one,
      vs_output_volume = f32_one, vs_noise_suppression = True, vs_gate_threshold_db = f32_minus_45,
      vs_gate_hang_ms = 300, vs_push_to_talk = False, vs_push_to_talk_key = str ''F13'',
      vs_muted = False, vs_deafened = False, vs_jitter_ms = 60\<rparr>"

record screen_settings =
  ss_max_dimension :: u32
  ss_fps :: u32
  ss_kbps :: u32
  ss_with_audio :: bool

definition default_screen :: screen_settings where
  "default_screen = \<lparr>ss_max_dimension = 1920, ss_fps = 30, ss_kbps = 4000, ss_with_audio = True\<rparr>"

record settings =
  st_server_url :: rstring
  st_token :: "rstring option"
  st_user_name :: rstring
  st_last_channel :: "u64 option"
  st_voice :: voice_settings
  st_screen :: screen_settings
  st_user_volume :: "(rstring, f32bits) hmap"
  st_local_retention_days :: u32

definition default_settings :: settings where
  "default_settings =
     \<lparr>st_server_url = [], st_token = None, st_user_name = [], st_last_channel = None,
      st_voice = default_voice, st_screen = default_screen, st_user_volume = [],
      st_local_retention_days = 0\<rparr>"

section \<open>Loading\<close>

datatype read_outcome = Text rstring | NotFound | Unreadable

text \<open>The settings, and whether the file was moved aside as broken.\<close>

definition load :: "(rstring \<Rightarrow> settings option) \<Rightarrow> read_outcome \<Rightarrow> settings \<times> bool" where
  "load parse file =
     (case file of
        Text t \<Rightarrow> (case parse t of Some s \<Rightarrow> (s, False) | None \<Rightarrow> (default_settings, True))
      | NotFound \<Rightarrow> (default_settings, False)
      | Unreadable \<Rightarrow> (default_settings, False))"

definition u32_clamp :: "u32 \<Rightarrow> u32 \<Rightarrow> u32 \<Rightarrow> u32" where
  "u32_clamp lo hi x = (if x < lo then lo else if hi < x then hi else x)"

definition sanitise :: "settings \<Rightarrow> settings" where
  "sanitise s =
     s\<lparr>st_voice := (st_voice s)\<lparr>
          vs_input_gain := f32_clamp 0 f32_four (vs_input_gain (st_voice s)),
          vs_output_volume := f32_clamp 0 f32_two (vs_output_volume (st_voice s)),
          vs_gate_threshold_db := f32_clamp f32_minus_90 0 (vs_gate_threshold_db (st_voice s)),
          vs_gate_hang_ms := u32_clamp 0 2000 (vs_gate_hang_ms (st_voice s)),
          vs_jitter_ms := u32_clamp 20 500 (vs_jitter_ms (st_voice s))\<rparr>,
       st_screen := (st_screen s)\<lparr>
          ss_max_dimension := u32_clamp 320 7680 (ss_max_dimension (st_screen s)),
          ss_fps := u32_clamp 1 240 (ss_fps (st_screen s)),
          ss_kbps := u32_clamp 200 200000 (ss_kbps (st_screen s))\<rparr>,
       st_user_volume := hmap_values (\<lambda>_ v. f32_clamp 0 f32_two v) (st_user_volume s)\<rparr>"

section \<open>Volumes\<close>

definition volume_key :: "id \<Rightarrow> rstring" where
  "volume_key user = decimal (unat (id_val user))"

definition volume_for :: "settings \<Rightarrow> id \<Rightarrow> f32bits" where
  "volume_for s user =
     f32_clamp 0 f32_two
       (case hget (st_user_volume s) (volume_key user) of Some v \<Rightarrow> v | None \<Rightarrow> f32_one)"

text \<open>\<open>0.001\<close> as a bit pattern.\<close>

definition f32_thousandth :: f32bits where "f32_thousandth = 0x3A83126F"

definition set_volume_for :: "id \<Rightarrow> f32bits \<Rightarrow> settings \<Rightarrow> settings" where
  "set_volume_for user volume s =
     (let volume = f32_clamp 0 f32_two volume
      in if fl_lt (of32 (f32_abs (f32_sub volume f32_one))) (of32 f32_thousandth)
         then s\<lparr>st_user_volume := hremove (volume_key user) (st_user_volume s)\<rparr>
         else s\<lparr>st_user_volume := hinsert (volume_key user) volume (st_user_volume s)\<rparr>)"

section \<open>Addresses\<close>

definition trim_slashes :: "rstring \<Rightarrow> rstring" where
  "trim_slashes s = rev (dropWhile (\<lambda>c. c = 47) (rev s))"

definition starts_with :: "rstring \<Rightarrow> rstring \<Rightarrow> bool" where
  "starts_with p s \<longleftrightarrow> take (length p) s = p"

definition strip_prefix :: "rstring \<Rightarrow> rstring \<Rightarrow> rstring option" where
  "strip_prefix p s = (if starts_with p s then Some (drop (length p) s) else None)"

definition normalise_url :: "rstring \<Rightarrow> rstring" where
  "normalise_url txt =
     (let txt = trim_slashes (trim txt)
      in if txt = [] then []
         else if starts_with (str ''http://'') txt \<or> starts_with (str ''https://'') txt then txt
         else case strip_prefix (str ''ws://'') txt of
                Some rest \<Rightarrow> str ''http://'' @ rest
              | None \<Rightarrow>
                  (case strip_prefix (str ''wss://'') txt of
                     Some rest \<Rightarrow> str ''https://'' @ rest
                   | None \<Rightarrow> str ''http://'' @ txt))"

definition base_url :: "settings \<Rightarrow> rstring" where
  "base_url s = normalise_url (st_server_url s)"

definition ws_url :: "settings \<Rightarrow> rstring" where
  "ws_url s =
     (let base = base_url s;
          base = (case strip_prefix (str ''http://'') base of
                    Some rest \<Rightarrow> str ''ws://'' @ rest
                  | None \<Rightarrow>
                      (case strip_prefix (str ''https://'') base of
                         Some rest \<Rightarrow> str ''wss://'' @ rest
                       | None \<Rightarrow> base))
      in base @ str ''/ws'')"

section \<open>Lemmas\<close>

lemma f32_consts [simp]:
  "of32 0 = Finite False 0 (- 149)" "of32 f32_one = Finite False 8388608 (- 23)"
  "of32 f32_two = Finite False 8388608 (- 22)" "of32 f32_four = Finite False 8388608 (- 21)"
  "of32 f32_minus_90 = Finite True 11796480 (- 17)" "of32 f32_minus_one = Finite True 8388608 (- 23)"
  by (simp_all add: of32_def unpack_def f32_one_def f32_two_def f32_four_def f32_minus_90_def
      f32_minus_one_def Let_def)

lemma f32_limits [simp]: "f32_le 0 f32_four" "f32_le 0 f32_two" "f32_le f32_minus_90 0"
  "f32_le f32_minus_one f32_one"
  by (simp_all add: f32_le_def signed_of_def)

lemma f32_clamp_again: "f32_le lo hi \<Longrightarrow> f32_clamp lo hi (f32_clamp lo hi x) = f32_clamp lo hi x"
  by (auto simp: f32_clamp_def fl_lt_def f32_le_def Let_def dest: fl_le_not_nan)

lemma u32_clamp_again: "lo \<le> hi \<Longrightarrow> u32_clamp lo hi (u32_clamp lo hi x) = u32_clamp lo hi x"
  by (auto simp: u32_clamp_def)

lemma sanitise_again: "sanitise (sanitise s) = sanitise s"
  by (simp add: sanitise_def f32_clamp_again u32_clamp_again map_ran_def comp_def case_prod_unfold)

end
