(* ===== verification/Denoise.thy ===== *)
theory Denoise
  imports Settings
begin

text \<open>
  Cleaning up the captured signal, \<open>crates/boa-client/src/audio/denoise.rs\<close>: gain, noise
  suppression and the gate. The suppressor (crate \<open>nnnoiseless\<close>) and the two functions of the
  mathematical library are parameters.
\<close>

definition FRAME :: nat where "FRAME = 480"

text \<open>\<open>32767.0\<close>, \<open>0.55\<close>, \<open>20.0\<close> and \<open>0.00003\<close> as bit patterns.\<close>

definition RNNOISE_SCALE :: f32bits where "RNNOISE_SCALE = 0x46FFFE00"
definition VOICE_PROBABILITY :: f32bits where "VOICE_PROBABILITY = 0x3F0CCCCD"
definition f32_twenty :: f32bits where "f32_twenty = 0x41A00000"
definition f32_quietest :: f32bits where "f32_quietest = 0x37FBA882"

text \<open>\<open>db_pow\<close> is \<open>10.0_f32.powf\<close>, \<open>db_log\<close> is \<open>log10\<close>; \<open>dn_frame\<close> is \<open>process_frame\<close>.\<close>

record 'd sound_libs =
  db_pow :: "f32bits \<Rightarrow> f32bits"
  db_log :: "f32bits \<Rightarrow> f32bits"
  dn_new :: 'd
  dn_frame :: "'d \<Rightarrow> f32bits list \<Rightarrow> f32bits \<times> f32bits list \<times> 'd"

definition amplitude_from_db :: "'d sound_libs \<Rightarrow> f32bits \<Rightarrow> f32bits" where
  "amplitude_from_db L db =
     (if f32_le db f32_minus_90 then 0 else db_pow L (f32_divide db f32_twenty))"

definition db_from_amplitude :: "'d sound_libs \<Rightarrow> f32bits \<Rightarrow> f32bits" where
  "db_from_amplitude L amplitude =
     (if f32_le amplitude f32_quietest then f32_minus_90 else f32_times f32_twenty (db_log L amplitude))"

definition hang_frames_for :: "u32 \<Rightarrow> u32" where
  "hang_frames_for hang_ms = hang_ms div 10"

section \<open>The gate\<close>

record gate =
  gt_threshold :: f32bits
  gt_hang_frames :: u32
  gt_remaining :: u32
  gt_suppressing :: bool

definition gate_new :: "'d sound_libs \<Rightarrow> f32bits \<Rightarrow> u32 \<Rightarrow> gate" where
  "gate_new L threshold_db hang_ms =
     \<lparr>gt_threshold = amplitude_from_db L threshold_db, gt_hang_frames = hang_frames_for hang_ms,
      gt_remaining = 0, gt_suppressing = True\<rparr>"

text \<open>Whether a frame counts as speech.\<close>

definition triggers :: "f32bits \<Rightarrow> f32bits \<Rightarrow> f32bits option \<Rightarrow> bool" where
  "triggers threshold level voice_probability \<longleftrightarrow>
     (let loud = f32_le threshold level;
          voiced = (case voice_probability of
                      Some p \<Rightarrow> f32_le VOICE_PROBABILITY p \<and> f32_le (f32_times threshold f32_half) level
                    | None \<Rightarrow> False)
      in loud \<or> voiced)"

definition gate_step :: "f32bits \<Rightarrow> f32bits option \<Rightarrow> gate \<Rightarrow> bool \<times> gate" where
  "gate_step level voice_probability g =
     (if triggers (gt_threshold g) level voice_probability
      then (True, g\<lparr>gt_remaining := gt_hang_frames g\<rparr>)
      else if gt_remaining g > 0 then (True, g\<lparr>gt_remaining := gt_remaining g - 1\<rparr>)
      else (False, g))"

section \<open>The whole stage\<close>

record outcome =
  oc_level :: f32bits
  oc_open :: bool
  oc_voice_probability :: "f32bits option"

record 'd cleanup =
  cl_denoiser :: "'d option"
  cl_gate :: gate

definition cleanup_new :: "'d sound_libs \<Rightarrow> f32bits \<Rightarrow> u32 \<Rightarrow> bool \<Rightarrow> 'd cleanup" where
  "cleanup_new L threshold_db hang_ms suppress =
     \<lparr>cl_denoiser = (if suppress then Some (dn_new L) else None),
      cl_gate = gate_new L threshold_db hang_ms\<rparr>"

definition set_suppression :: "'d sound_libs \<Rightarrow> bool \<Rightarrow> 'd cleanup \<Rightarrow> 'd cleanup" where
  "set_suppression L on c =
     (let c = (if on \<and> cl_denoiser c = None then c\<lparr>cl_denoiser := Some (dn_new L)\<rparr> else c)
      in c\<lparr>cl_gate := (cl_gate c)\<lparr>gt_suppressing := on\<rparr>\<rparr>)"

definition suppressing :: "'d cleanup \<Rightarrow> bool" where
  "suppressing c \<longleftrightarrow> gt_suppressing (cl_gate c) \<and> cl_denoiser c \<noteq> None"

definition set_threshold :: "'d sound_libs \<Rightarrow> f32bits \<Rightarrow> 'd cleanup \<Rightarrow> 'd cleanup" where
  "set_threshold L threshold_db c =
     c\<lparr>cl_gate := (cl_gate c)\<lparr>gt_threshold := amplitude_from_db L threshold_db\<rparr>\<rparr>"

definition set_hang :: "u32 \<Rightarrow> 'd cleanup \<Rightarrow> 'd cleanup" where
  "set_hang hang_ms c = c\<lparr>cl_gate := (cl_gate c)\<lparr>gt_hang_frames := hang_frames_for hang_ms\<rparr>\<rparr>"

definition unit_clamp :: "f32bits \<Rightarrow> f32bits" where
  "unit_clamp x = f32_clamp f32_minus_one f32_one x"

definition peak :: "f32bits list \<Rightarrow> f32bits" where
  "peak frame = foldl (\<lambda>peak s. f32_max peak (f32_abs s)) 0 frame"

text \<open>The denoiser reads and writes whole frames; \<open>zip\<close> copies as many samples as both have.\<close>

definition copy_over :: "f32bits list \<Rightarrow> f32bits list \<Rightarrow> f32bits list" where
  "copy_over frame new = take (length frame) new @ drop (length new) frame"

definition cleanup_process ::
  "'d sound_libs \<Rightarrow> f32bits \<Rightarrow> bool option \<Rightarrow> f32bits list \<Rightarrow> 'd cleanup
    \<Rightarrow> outcome \<times> f32bits list \<times> 'd cleanup" where
  "cleanup_process L gain forced frame c =
     (let frame = map (\<lambda>s. unit_clamp (f32_times s gain)) frame;
          (probability, frame, c) =
            (case (suppressing c, cl_denoiser c) of
               (True, Some d) \<Rightarrow>
                 (let (p, cleaned, d) = dn_frame L d (map (\<lambda>s. f32_times s RNNOISE_SCALE) frame)
                  in (Some p,
                      copy_over frame (map (\<lambda>s. unit_clamp (f32_divide s RNNOISE_SCALE)) cleaned),
                      c\<lparr>cl_denoiser := Some d\<rparr>))
             | _ \<Rightarrow> (None, frame, c));
          level = peak frame;
          (open_gate, gate) = gate_step level probability (cl_gate c);
          c = c\<lparr>cl_gate := gate\<rparr>;
          is_open = (case forced of Some held \<Rightarrow> held | None \<Rightarrow> open_gate)
      in (\<lparr>oc_level = level, oc_open = is_open, oc_voice_probability = probability\<rparr>, frame, c))"

section \<open>What the gate lets through\<close>

text \<open>A run of the gate over measured frames.\<close>

fun gate_run :: "gate \<Rightarrow> (f32bits \<times> f32bits option) list \<Rightarrow> bool list \<times> gate" where
  "gate_run g [] = ([], g)"
| "gate_run g ((level, p) # frames) =
     (let (b, g) = gate_step level p g; (bs, g) = gate_run g frames in (b # bs, g))"

lemma gate_step_fields [simp]:
  "gt_threshold (snd (gate_step l p g)) = gt_threshold g"
  "gt_hang_frames (snd (gate_step l p g)) = gt_hang_frames g"
  by (simp_all add: gate_step_def)

lemma length_gate_run [simp]: "length (fst (gate_run g fs)) = length fs"
  by (induction fs arbitrary: g) (auto simp: case_prod_unfold Let_def)

lemma gate_run_nth:
  assumes "n < length fs"
  shows "fst (gate_run g fs) ! n \<longleftrightarrow>
     (\<exists>k \<le> n. (case fs ! k of (l, p) \<Rightarrow> triggers (gt_threshold g) l p) \<and> n - k \<le> unat (gt_hang_frames g))
   \<or> n < unat (gt_remaining g) \<and> (\<forall>k \<le> n. \<not> (case fs ! k of (l, p) \<Rightarrow> triggers (gt_threshold g) l p))"
  using assms
proof (induction fs arbitrary: g n)
  case (Cons f fs)
  obtain l p where f: "f = (l, p)" by fastforce
  let ?T = "\<lambda>x. case x of (l, p) \<Rightarrow> triggers (gt_threshold g) l p"
  let ?g = "snd (gate_step l p g)"
  have run: "fst (gate_run g (f # fs)) = fst (gate_step l p g) # fst (gate_run ?g fs)"
    by (simp add: f split: prod.splits)
  show ?case
  proof (cases n)
    case 0
    then show ?thesis unfolding run by (auto simp: f gate_step_def word_less_nat_alt)
  next
    case (Suc m)
    have m: "m < length fs" using Cons.prems Suc by simp
    have split: "(\<exists>k \<le> Suc m. ?T ((f # fs) ! k) \<and> Suc m - k \<le> h) \<longleftrightarrow>
        ?T f \<and> Suc m \<le> h \<or> (\<exists>k \<le> m. ?T (fs ! k) \<and> m - k \<le> h)" for h
      by (metis (no_types, lifting) Suc_le_mono diff_Suc_Suc diff_zero le0 not0_implies_Suc nth_Cons_0 nth_Cons_Suc)
    have all: "(\<forall>k \<le> Suc m. \<not> ?T ((f # fs) ! k)) \<longleftrightarrow> \<not> ?T f \<and> (\<forall>k \<le> m. \<not> ?T (fs ! k))"
      by (metis Suc_le_mono le0 not0_implies_Suc nth_Cons_0 nth_Cons_Suc)
    have IH: "fst (gate_run ?g fs) ! m \<longleftrightarrow>
       (\<exists>k \<le> m. ?T (fs ! k) \<and> m - k \<le> unat (gt_hang_frames g))
     \<or> m < unat (gt_remaining ?g) \<and> (\<forall>k \<le> m. \<not> ?T (fs ! k))"
      using Cons.IH [OF m, of ?g] by simp
    have rem: "m < unat (gt_remaining ?g) \<longleftrightarrow>
        (if ?T f then m < unat (gt_hang_frames g) else Suc m < unat (gt_remaining g))"
    proof (cases "gt_remaining g = 0")
      case False
      then have "unat (gt_remaining g - 1) = unat (gt_remaining g) - 1" "0 < unat (gt_remaining g)"
        by (simp_all add: unat_minus_one unat_gt_0)
      then show ?thesis by (auto simp: f gate_step_def word_less_nat_alt)
    qed (simp add: f gate_step_def)
    have late: "\<exists>k \<le> m. ?T (fs ! k) \<and> m - k \<le> unat (gt_hang_frames g)"
      if "m < unat (gt_hang_frames g)" "\<not> (\<forall>k \<le> m. \<not> ?T (fs ! k))"
      using that by (metis diff_le_self le_trans less_imp_le)
    show ?thesis unfolding Suc run nth_Cons_Suc IH split all rem
      using late by (auto simp: Suc_le_eq)
  qed
qed simp

text \<open>
  Claim C38. The gate opens at once and closes slowly, and nothing else: from a closed gate on, a
  frame passes if and only if it or one of the frames at most the hang time before it counted
  as speech (loud enough, or at half the threshold with the suppressor's confidence). So every
  speech frame passes, the tail of a word passes for exactly the hang time, and then nothing.
\<close>

theorem gate_is_speech_within_hang:
  assumes "gt_remaining g = 0" "n < length frames"
  shows "fst (gate_run g frames) ! n \<longleftrightarrow>
    (\<exists>k \<le> n. n - k \<le> unat (gt_hang_frames g)
       \<and> triggers (gt_threshold g) (fst (frames ! k)) (snd (frames ! k)))"
  using gate_run_nth [OF assms(2), of g] assms(1) by (auto simp: case_prod_unfold)

text \<open>A word at full scale, then silence, with a hang of two frames and a threshold of one half.\<close>

definition word_then_silence :: "(f32bits \<times> f32bits option) list" where
  "word_then_silence = [(0, None), (f32_one, None), (0, None), (0, None), (0, None)]"

definition hanging_gate :: gate where
  "hanging_gate = \<lparr>gt_threshold = f32_half, gt_hang_frames = 2, gt_remaining = 0, gt_suppressing = False\<rparr>"

theorem gate_is_speech_within_hang_witness:
  "fst (gate_run hanging_gate word_then_silence) ! 3 \<and> \<not> fst (gate_run hanging_gate word_then_silence) ! 4"
proof -
  have one: "f32_le f32_half f32_one" and zero: "\<not> f32_le f32_half 0"
    by (simp_all add: f32_le_def f32_half_def signed_of_def) (simp_all add: of32_def unpack_def Let_def signed_of_def)
  note gate = gate_is_speech_within_hang [of hanging_gate _ word_then_silence]
  have "fst (gate_run hanging_gate word_then_silence) ! 3"
    using gate [of 3] one by (auto simp: hanging_gate_def word_then_silence_def triggers_def intro!: exI [of _ 1])
  moreover have "\<not> fst (gate_run hanging_gate word_then_silence) ! 4"
  proof
    assume "fst (gate_run hanging_gate word_then_silence) ! 4"
    then obtain k where "k \<le> 4" "4 - k \<le> 2"
      "triggers f32_half (fst (word_then_silence ! k)) (snd (word_then_silence ! k))"
      using gate [of 4] by (auto simp: hanging_gate_def word_then_silence_def)
    moreover from this have "k = 2 \<or> k = 3 \<or> k = 4" by linarith
    ultimately show False using zero by (auto simp: word_then_silence_def triggers_def)
  qed
  ultimately show ?thesis ..
qed

lemma unit_clamp_range: "of32 (unit_clamp x) = Nan \<or> f32_le f32_minus_one (unit_clamp x) \<and> f32_le (unit_clamp x) f32_one"
  using f32_clamp_range [of f32_minus_one f32_one x] by (auto simp: unit_clamp_def)

end
