(* ===== verification/Voice.thy ===== *)
theory Voice
  imports Denoise Ring Recv Transport
begin

text \<open>
  What the four threads of a voice session share, \<open>crates/boa-client/src/audio/pipeline.rs\<close>, and
  the operations of the interface on it: settings, the speaker table, and who a stream belongs
  to. The atomics are the fields of one state; each operation below is one thread's, and is one step
  here. \<open>SpeakerThreads\<close> cuts the table's at their single accesses, \<open>RingThreads\<close> the ring's.
\<close>

definition MAX_SPEAKERS :: nat where "MAX_SPEAKERS = 16"
definition MEDIA_TIMEOUT :: nat where "MEDIA_TIMEOUT = 5 * 10 ^ 9"
definition CAPTURE_RING :: nat where "CAPTURE_RING = unat VOICE_SAMPLE_RATE div 2"
definition PLAYBACK_RING :: nat where "PLAYBACK_RING = unat VOICE_SAMPLE_RATE * 2"

section \<open>The shared state\<close>

record speaker =
  sk_ssrc :: u32
  sk_user :: u64
  sk_volume :: f32bits
  sk_ring :: ring
  sk_primed :: bool

definition free_speaker :: speaker where
  "free_speaker =
     \<lparr>sk_ssrc = 0, sk_user = 0, sk_volume = f32_one, sk_ring = ring_new PLAYBACK_RING, sk_primed = False\<rparr>"

text \<open>\<open>prime_samples\<close>, for any number of milliseconds.\<close>

definition prime_samples :: "u32 \<Rightarrow> nat" where
  "prime_samples jitter_ms =
     unat VOICE_SAMPLE_RATE * unat (u32_clamp 20 500 jitter_ms) div 1000 * 2"

record shared =
  sh_muted :: bool
  sh_deafened :: bool
  sh_push_to_talk :: bool
  sh_talk_key_held :: bool
  sh_suppress :: bool
  sh_gain :: f32bits
  sh_output_volume :: f32bits
  sh_threshold_db :: f32bits
  sh_hang_ms :: u32
  sh_prime_samples :: nat
  sh_input_level :: f32bits
  sh_gate_open :: bool
  sh_speaking :: bool
  sh_media_ok :: bool
  sh_packets_out :: u64
  sh_packets_in :: u64
  sh_concealed :: u64
  sh_underruns :: u64
  sh_stop :: bool
  sh_capture :: ring
  sh_speakers :: "speaker list"
  sh_owners :: "(u32, id) hmap"
  sh_video :: "tap option"

definition shared_new :: "voice_settings \<Rightarrow> shared" where
  "shared_new s =
     \<lparr>sh_muted = vs_muted s, sh_deafened = vs_deafened s, sh_push_to_talk = vs_push_to_talk s,
      sh_talk_key_held = False, sh_suppress = vs_noise_suppression s, sh_gain = vs_input_gain s,
      sh_output_volume = vs_output_volume s, sh_threshold_db = vs_gate_threshold_db s,
      sh_hang_ms = vs_gate_hang_ms s, sh_prime_samples = prime_samples (vs_jitter_ms s),
      sh_input_level = 0, sh_gate_open = False, sh_speaking = False, sh_media_ok = False,
      sh_packets_out = 0, sh_packets_in = 0, sh_concealed = 0, sh_underruns = 0, sh_stop = False,
      sh_capture = ring_new CAPTURE_RING, sh_speakers = replicate MAX_SPEAKERS free_speaker,
      sh_owners = [], sh_video = None\<rparr>"

definition transmitting :: "shared \<Rightarrow> bool" where
  "transmitting sh \<longleftrightarrow> \<not> sh_muted sh \<and> \<not> sh_deafened sh"

section \<open>The speaker table\<close>

text \<open>\<open>iter().position\<close>.\<close>

fun position :: "('a \<Rightarrow> bool) \<Rightarrow> 'a list \<Rightarrow> nat option" where
  "position P [] = None"
| "position P (x # xs) = (if P x then Some 0 else map_option Suc (position P xs))"

text \<open>The slot's index, and the state after a claim.\<close>

definition slot_for :: "u32 \<Rightarrow> shared \<Rightarrow> nat option \<times> shared" where
  "slot_for stream sh =
     (case position (\<lambda>s. sk_ssrc s = stream) (sh_speakers sh) of
        Some existing \<Rightarrow> (Some existing, sh)
      | None \<Rightarrow>
          (case position (\<lambda>s. sk_ssrc s = 0) (sh_speakers sh) of
             None \<Rightarrow> (None, sh)
           | Some free \<Rightarrow>
               let s = sh_speakers sh ! free;
                   user = (case hget (sh_owners sh) stream of Some u \<Rightarrow> u | None \<Rightarrow> Id 0);
                   s = s\<lparr>sk_ring := clear (sk_ring s), sk_primed := False,
                         sk_user := id_val user, sk_ssrc := stream\<rparr>
               in (Some free, sh\<lparr>sh_speakers := (sh_speakers sh)[free := s]\<rparr>)))"

definition drop_speaker :: "u32 \<Rightarrow> shared \<Rightarrow> shared" where
  "drop_speaker stream sh =
     sh\<lparr>sh_speakers :=
       map (\<lambda>s. if sk_ssrc s = stream then s\<lparr>sk_ssrc := 0, sk_ring := clear (sk_ring s)\<rparr> else s)
         (sh_speakers sh)\<rparr>"

definition attribute :: "u32 \<Rightarrow> id \<Rightarrow> shared \<Rightarrow> shared" where
  "attribute stream user sh =
     sh\<lparr>sh_speakers :=
          map (\<lambda>s. if sk_ssrc s = stream then s\<lparr>sk_user := id_val user\<rparr> else s) (sh_speakers sh),
        sh_owners := hinsert stream user (sh_owners sh)\<rparr>"

definition set_user_volume :: "id \<Rightarrow> f32bits \<Rightarrow> shared \<Rightarrow> shared" where
  "set_user_volume user volume sh =
     sh\<lparr>sh_speakers :=
          map (\<lambda>s. if sk_user s = id_val user then s\<lparr>sk_volume := f32_clamp 0 f32_two volume\<rparr> else s)
            (sh_speakers sh)\<rparr>"

definition forget :: "u32 \<Rightarrow> shared \<Rightarrow> shared" where
  "forget stream sh = drop_speaker stream sh"

section \<open>The interface's other operations\<close>

definition set_muted :: "bool \<Rightarrow> shared \<Rightarrow> shared" where
  "set_muted b sh = sh\<lparr>sh_muted := b\<rparr>"

definition set_deafened :: "bool \<Rightarrow> shared \<Rightarrow> shared" where
  "set_deafened b sh = sh\<lparr>sh_deafened := b\<rparr>"

definition set_talk_key :: "bool \<Rightarrow> shared \<Rightarrow> shared" where
  "set_talk_key held sh = sh\<lparr>sh_talk_key_held := held\<rparr>"

definition apply_settings :: "voice_settings \<Rightarrow> shared \<Rightarrow> shared" where
  "apply_settings s sh =
     sh\<lparr>sh_suppress := vs_noise_suppression s, sh_push_to_talk := vs_push_to_talk s,
        sh_gain := vs_input_gain s, sh_output_volume := vs_output_volume s,
        sh_threshold_db := vs_gate_threshold_db s, sh_hang_ms := vs_gate_hang_ms s,
        sh_prime_samples := prime_samples (vs_jitter_ms s)\<rparr>"

text \<open>A watch replaces the tap; the queue's depth is \<open>QUEUE\<close>.\<close>

definition watch_stream :: "u32 \<Rightarrow> shared \<Rightarrow> shared" where
  "watch_stream stream sh = sh\<lparr>sh_video := Some (tap_pair stream QUEUE)\<rparr>"

definition stop_watching :: "shared \<Rightarrow> shared" where
  "stop_watching sh = sh\<lparr>sh_video := None\<rparr>"

record status =
  su_input_level :: f32bits
  su_gate_open :: bool
  su_speaking :: bool
  su_threshold :: f32bits
  su_media_ok :: bool
  su_packets_out :: u64
  su_packets_in :: u64
  su_concealed :: u64

definition status_of :: "'d sound_libs \<Rightarrow> shared \<Rightarrow> status" where
  "status_of L sh =
     \<lparr>su_input_level = sh_input_level sh, su_gate_open = sh_gate_open sh, su_speaking = sh_speaking sh,
      su_threshold = amplitude_from_db L (sh_threshold_db sh), su_media_ok = sh_media_ok sh,
      su_packets_out = sh_packets_out sh, su_packets_in = sh_packets_in sh,
      su_concealed = sh_concealed sh\<rparr>"

section \<open>Lemmas on the table\<close>

lemma position_Some:
  "position P xs = Some i \<Longrightarrow> i < length xs \<and> P (xs ! i) \<and> (\<forall>j < i. \<not> P (xs ! j))"
proof (induction xs arbitrary: i)
  case (Cons x xs)
  then show ?case by (auto split: if_splits simp: nth_Cons')
qed simp

lemma position_None: "position P xs = None \<longleftrightarrow> (\<forall>x \<in> set xs. \<not> P x)"
  by (induction xs) auto

text \<open>
  The table: sixteen slots, the streams in use distinct, every ring sound.
\<close>

definition table_inv :: "shared \<Rightarrow> bool" where
  "table_inv sh \<longleftrightarrow> length (sh_speakers sh) = MAX_SPEAKERS
   \<and> (\<forall>i < MAX_SPEAKERS. \<forall>j < MAX_SPEAKERS. sk_ssrc (sh_speakers sh ! i) = sk_ssrc (sh_speakers sh ! j)
        \<longrightarrow> sk_ssrc (sh_speakers sh ! i) \<noteq> 0 \<longrightarrow> i = j)
   \<and> (\<forall>s \<in> set (sh_speakers sh). ring_inv (sk_ring s) \<and> ring_capacity (sk_ring s) = 131071)"

lemma playback_ring: "ring_inv (ring_new PLAYBACK_RING)" "contents (ring_new PLAYBACK_RING) = []"
  "ring_capacity (ring_new PLAYBACK_RING) = 131071"
proof -
  have p: "PLAYBACK_RING = 96000" by (simp add: PLAYBACK_RING_def VOICE_SAMPLE_RATE_def)
  have pw: "next_power_of_two 96000 = 131072"
    by (simp add: next_power_of_two_def next_power_from.simps)
  show "ring_inv (ring_new PLAYBACK_RING)" "contents (ring_new PLAYBACK_RING) = []"
    using ring_new_spec [of PLAYBACK_RING] p by simp_all
  show "ring_capacity (ring_new PLAYBACK_RING) = 131071"
    unfolding p ring_new_def pw by (simp add: ring_capacity_def)
qed

lemma table_inv_new: "table_inv (shared_new s)"
  by (simp add: table_inv_def shared_new_def free_speaker_def playback_ring)

end
