(* ===== verification/VoiceTx.thy ===== *)
theory VoiceTx
  imports Voice
begin

text \<open>
  The outbound thread, \<open>run_tx\<close> of \<open>crates/boa-client/src/audio/pipeline.rs\<close>: keepalives, and
  captured frames cleaned up, gathered into packets of 20 ms, gated, encoded and sent. The Opus
  encoder (crate \<open>opus\<close>) is a parameter; \<open>None\<close> is its error. One iteration of the loop reads
  the clock and the interface's settings once.
\<close>

record ('d, 'e) tx_libs =
  tl_aead :: aead
  tl_sound :: "'d sound_libs"
  tl_encode :: "'e \<Rightarrow> f32bits list \<Rightarrow> byte list option \<times> 'e"

record ('d, 'e) tx =
  tx_encoder :: 'e
  tx_cleanup :: "'d cleanup"
  tx_pending :: "f32bits list"
  tx_seq :: u32
  tx_timestamp :: u32
  tx_keepalive_seq :: u32
  tx_next_keepalive :: nat
  tx_was_speaking :: bool
  tx_sent_since_gate_closed :: bool

definition tx_start :: "('d, 'e) tx_libs \<Rightarrow> 'e \<Rightarrow> nat \<Rightarrow> shared \<Rightarrow> ('d, 'e) tx" where
  "tx_start L encoder now sh =
     \<lparr>tx_encoder = encoder,
      tx_cleanup = cleanup_new (tl_sound L) (sh_threshold_db sh) (sh_hang_ms sh) (sh_suppress sh),
      tx_pending = [], tx_seq = 0, tx_timestamp = 0, tx_keepalive_seq = 0, tx_next_keepalive = now,
      tx_was_speaking = False, tx_sent_since_gate_closed = False\<rparr>"

type_synonym wire_out = "socket_addr \<times> byte list"

definition keepalive ::
  "('d, 'e) tx_libs \<Rightarrow> transport \<Rightarrow> u32 \<Rightarrow> nat \<Rightarrow> bool \<Rightarrow> ('d, 'e) tx \<Rightarrow> ('d, 'e) tx \<times> wire_out list" where
  "keepalive L t ssrc now ok tx =
     (if now \<ge> tx_next_keepalive tx
      then let tx = tx\<lparr>tx_next_keepalive := now + KEEPALIVE, tx_keepalive_seq := tx_keepalive_seq tx + 1\<rparr>
           in (tx, snd (transport_register (tl_aead L) ok t ssrc (tx_keepalive_seq tx)))
      else (tx, []))"

definition pick_up_settings :: "('d, 'e) tx_libs \<Rightarrow> shared \<Rightarrow> ('d, 'e) tx \<Rightarrow> ('d, 'e) tx" where
  "pick_up_settings L sh tx =
     tx\<lparr>tx_cleanup := set_hang (sh_hang_ms sh) (set_threshold (tl_sound L) (sh_threshold_db sh)
                      (set_suppression (tl_sound L) (sh_suppress sh) (tx_cleanup tx)))\<rparr>"

text \<open>Whether this packet is due: everything while the gate is open, and one more after it shuts.\<close>

definition packet_due :: "bool \<Rightarrow> bool \<Rightarrow> bool \<Rightarrow> bool \<times> bool" where
  "packet_due sending gate_open sent_since_gate_closed =
     (if \<not> sending then (False, False)
      else if \<not> gate_open
      then (if sent_since_gate_closed then (False, sent_since_gate_closed) else (True, True))
      else (True, False))"

definition send_chunk ::
  "('d, 'e) tx_libs \<Rightarrow> transport \<Rightarrow> u32 \<Rightarrow> bool \<Rightarrow> bool \<Rightarrow> bool \<Rightarrow> f32bits list
    \<Rightarrow> shared \<times> ('d, 'e) tx \<Rightarrow> (shared \<times> ('d, 'e) tx) \<times> wire_out list" where
  "send_chunk L t ssrc ok sending gate_open chunk st =
     (case st of (sh, tx) \<Rightarrow>
        let tx = tx\<lparr>tx_timestamp := tx_timestamp tx + word_of_nat VOICE_FRAME_SAMPLES\<rparr>;
            (due, sent) = packet_due sending gate_open (tx_sent_since_gate_closed tx);
            tx = tx\<lparr>tx_sent_since_gate_closed := sent\<rparr>
        in if \<not> due then ((sh, tx), [])
           else
             let (encoded, encoder) = tl_encode L (tx_encoder tx) chunk;
                 tx = tx\<lparr>tx_encoder := encoder\<rparr>
             in case encoded of
                  None \<Rightarrow> ((sh, tx), [])
                | Some payload \<Rightarrow>
                    let tx = tx\<lparr>tx_seq := tx_seq tx + 1\<rparr>;
                        h = \<lparr>ph_kind = media_kind.Voice, ph_ssrc = ssrc, ph_seq = tx_seq tx,
                             ph_timestamp = tx_timestamp tx\<rparr>;
                        (result, out) = transport_send (tl_aead L) ok t h payload
                    in (case result of
                          Inr _ \<Rightarrow> ((sh\<lparr>sh_packets_out := sh_packets_out sh + 1\<rparr>, tx), out)
                        | Inl _ \<Rightarrow> ((sh, tx), out)))"

text \<open>The \<open>while\<close> loop over the pending samples; \<open>ok\<close> says which sends succeed.\<close>

function send_pending ::
  "('d, 'e) tx_libs \<Rightarrow> transport \<Rightarrow> u32 \<Rightarrow> (nat \<Rightarrow> bool) \<Rightarrow> bool \<Rightarrow> bool
    \<Rightarrow> f32bits list \<Rightarrow> shared \<times> ('d, 'e) tx \<Rightarrow> f32bits list \<times> (shared \<times> ('d, 'e) tx) \<times> wire_out list" where
  "send_pending L t ssrc ok sending gate_open samples st =
     (if length samples < VOICE_FRAME_SAMPLES then (samples, st, [])
      else
        let (st, out) = send_chunk L t ssrc (ok 0) sending gate_open (take VOICE_FRAME_SAMPLES samples) st;
            (left, st, rest) =
              send_pending L t ssrc (ok \<circ> Suc) sending gate_open (drop VOICE_FRAME_SAMPLES samples) st
        in (left, st, out @ rest))"
  by pat_completeness auto
termination
  by (relation "measure (\<lambda>(L, t, ssrc, ok, sending, gate_open, samples, st). length samples)")
    (auto simp: VOICE_FRAME_SAMPLES_eq)

declare send_pending.simps [simp del]

text \<open>What the environment does in one iteration.\<close>

record tx_moment =
  tm_now :: nat
  tm_keepalive_ok :: bool
  tm_send_ok :: "nat \<Rightarrow> bool"

definition take_frame_samples :: "shared \<Rightarrow> f32bits list \<times> shared" where
  "take_frame_samples sh =
     (let ((taken, frame), r) = pop (sh_capture sh) (replicate FRAME 0)
      in (take taken frame @ replicate (FRAME - taken) 0, sh\<lparr>sh_capture := r\<rparr>))"

definition send_frame ::
  "('d, 'e) tx_libs \<Rightarrow> transport \<Rightarrow> u32 \<Rightarrow> (nat \<Rightarrow> bool) \<Rightarrow> f32bits list \<Rightarrow> shared \<times> ('d, 'e) tx
    \<Rightarrow> (shared \<times> ('d, 'e) tx) \<times> wire_out list" where
  "send_frame L t ssrc ok frame st =
     (case st of (sh, tx) \<Rightarrow>
        let forced = (if sh_push_to_talk sh then Some (sh_talk_key_held sh) else None);
            (outcome, frame, c) = cleanup_process (tl_sound L) (sh_gain sh) forced frame (tx_cleanup tx);
            tx = tx\<lparr>tx_cleanup := c\<rparr>;
            sh = sh\<lparr>sh_input_level := oc_level outcome, sh_gate_open := oc_open outcome\<rparr>;
            sending = transmitting sh;
            speaking = (sending \<and> oc_open outcome);
            (sh, tx) = (if speaking \<noteq> tx_was_speaking tx
                        then (sh\<lparr>sh_speaking := speaking\<rparr>, tx\<lparr>tx_was_speaking := speaking\<rparr>)
                        else (sh, tx));
            (left, (sh, tx), out) =
              send_pending L t ssrc ok sending (oc_open outcome) (tx_pending tx @ frame) (sh, tx)
        in ((sh, tx\<lparr>tx_pending := left\<rparr>), out))"

definition tx_iteration ::
  "('d, 'e) tx_libs \<Rightarrow> transport \<Rightarrow> u32 \<Rightarrow> tx_moment \<Rightarrow> shared \<times> ('d, 'e) tx
    \<Rightarrow> (shared \<times> ('d, 'e) tx) \<times> wire_out list" where
  "tx_iteration L t ssrc m st =
     (case st of (sh, tx) \<Rightarrow>
        let (tx, out) = keepalive L t ssrc (tm_now m) (tm_keepalive_ok m) tx;
            tx = pick_up_settings L sh tx
        in if ring_len (sh_capture sh) < FRAME then ((sh, tx), out)
           else
             let (frame, sh) = take_frame_samples sh;
                 (st, more_out) = send_frame L t ssrc (tm_send_ok m) frame (sh, tx)
             in (st, out @ more_out))"

text \<open>The loop until \<open>stop\<close> is seen; \<open>between\<close> is what the other threads do before each turn.\<close>

fun run_tx ::
  "('d, 'e) tx_libs \<Rightarrow> transport \<Rightarrow> u32 \<Rightarrow> ((shared \<Rightarrow> shared) \<times> tx_moment) list
    \<Rightarrow> shared \<times> ('d, 'e) tx \<Rightarrow> (shared \<times> ('d, 'e) tx) \<times> wire_out list" where
  "run_tx L t ssrc [] (sh, tx) = ((sh, tx), [])"
| "run_tx L t ssrc ((between, m) # turns) (sh, tx) =
     (let sh = between sh
      in if sh_stop sh then ((sh\<lparr>sh_speaking := False\<rparr>, tx), [])
         else let (st, out) = tx_iteration L t ssrc m (sh, tx);
                  (st, rest) = run_tx L t ssrc turns st
              in (st, out @ rest))"

end
