(* ===== verification/VoiceRx.thy ===== *)
theory VoiceRx
  imports Voice
begin

text \<open>
  The inbound thread, \<open>run_rx\<close> of \<open>crates/boa-client/src/audio/pipeline.rs\<close>: what it does with
  each packet, by its kind, its sequence number and the speaker table. The Opus decoder (crate
  \<open>opus\<close>) is a parameter: it is given a buffer and answers how many samples of each channel it
  wrote (\<open>None\<close> for an error) and the buffer afterwards. A slice that would panic is \<open>None\<close> as
  the result of a turn.
\<close>

definition MAX_CONCEAL :: int where "MAX_CONCEAL = 5"

datatype seq_action = Play u32 | Drop_packet

definition classify :: "u32 option \<Rightarrow> u32 \<Rightarrow> seq_action" where
  "classify expected seq =
     (case expected of
        None \<Rightarrow> Play 0
      | Some expected \<Rightarrow>
          let distance = sint (seq - expected)
          in if distance = 0 then Play 0
             else if distance > 0 \<and> distance \<le> MAX_CONCEAL then Play (of_int distance)
             else if distance > MAX_CONCEAL then Play 0
             else Drop_packet)"

record 'o decoder_lib =
  dl_new :: "bool \<Rightarrow> 'o option"
  dl_decode :: "'o \<Rightarrow> byte list \<Rightarrow> f32bits list \<Rightarrow> nat option \<times> f32bits list \<times> 'o"

record 'o incoming =
  ic_ssrc :: u32
  ic_decoder :: 'o
  ic_expect :: "u32 option"
  ic_stereo :: bool

record 'o rx =
  rx_decoders :: "'o incoming list"
  rx_pcm :: "f32bits list"
  rx_last_keepalive :: nat

definition rx_start :: "nat \<Rightarrow> 'o rx" where
  "rx_start now =
     \<lparr>rx_decoders = [], rx_pcm = replicate (VOICE_FRAME_SAMPLES * 8) 0, rx_last_keepalive = now\<rparr>"

section \<open>Into the ring\<close>

definition widen :: "f32bits list \<Rightarrow> f32bits list" where
  "widen xs = concat (map (\<lambda>x. [x, x]) xs)"

definition push_stereo :: "ring \<Rightarrow> f32bits list \<Rightarrow> nat \<Rightarrow> bool \<Rightarrow> ring option" where
  "push_stereo r pcm frames stereo =
     (if stereo
      then (if frames * 2 \<le> length pcm then Some (snd (push r (take (frames * 2) pcm))) else None)
      else (if frames \<le> length pcm then Some (snd (push r (widen (take frames pcm)))) else None))"

definition set_ring :: "nat \<Rightarrow> ring \<Rightarrow> shared \<Rightarrow> shared" where
  "set_ring i r sh = sh\<lparr>sh_speakers := (sh_speakers sh)[i := (sh_speakers sh ! i)\<lparr>sk_ring := r\<rparr>]\<rparr>"

definition speaker_ring :: "nat \<Rightarrow> shared \<Rightarrow> ring" where
  "speaker_ring i sh = sk_ring (sh_speakers sh ! i)"

text \<open>The concealment loop for one stream, over \<open>n\<close> lost packets.\<close>

fun conceal_lost ::
  "'o decoder_lib \<Rightarrow> nat \<Rightarrow> nat \<Rightarrow> 'o incoming \<Rightarrow> f32bits list \<Rightarrow> shared
    \<Rightarrow> ('o incoming \<times> f32bits list \<times> shared) option" where
  "conceal_lost D place 0 inc pcm sh = Some (inc, pcm, sh)"
| "conceal_lost D place (Suc n) inc pcm sh =
     (let room = VOICE_FRAME_SAMPLES * (if ic_stereo inc then 2 else 1)
      in if room > length pcm then None
         else
           let (frames, buf, d) = dl_decode D (ic_decoder inc) [] (take room pcm);
               inc = inc\<lparr>ic_decoder := d\<rparr>;
               pcm = buf @ drop room pcm
           in case frames of
                None \<Rightarrow> conceal_lost D place n inc pcm sh
              | Some frames \<Rightarrow>
                  (case push_stereo (speaker_ring place sh) pcm frames (ic_stereo inc) of
                     None \<Rightarrow> None
                   | Some r \<Rightarrow>
                       conceal_lost D place n inc pcm
                         ((set_ring place r sh)\<lparr>sh_concealed := sh_concealed sh + 1\<rparr>)))"

section \<open>One packet\<close>

definition play_payload ::
  "'o decoder_lib \<Rightarrow> nat \<Rightarrow> byte list \<Rightarrow> 'o incoming \<Rightarrow> f32bits list \<Rightarrow> shared
    \<Rightarrow> ('o incoming \<times> f32bits list \<times> shared) option" where
  "play_payload D place payload inc pcm sh =
     (let (frames, pcm, d) = dl_decode D (ic_decoder inc) payload pcm;
          inc = inc\<lparr>ic_decoder := d\<rparr>
      in case frames of
           None \<Rightarrow> Some (inc, pcm, sh)
         | Some frames \<Rightarrow>
             (case push_stereo (speaker_ring place sh) pcm frames (ic_stereo inc) of
                None \<Rightarrow> None
              | Some r \<Rightarrow>
                  let sh = set_ring place r sh;
                      s = sh_speakers sh ! place;
                      s = (if \<not> sk_primed s \<and> ring_len (sk_ring s) \<ge> sh_prime_samples sh
                           then s\<lparr>sk_primed := True\<rparr> else s)
                  in Some (inc, pcm, sh\<lparr>sh_speakers := (sh_speakers sh)[place := s]\<rparr>)))"

text \<open>The decoder of a stream: the one there is, or a new one after those of gone streams went.\<close>

definition decoder_for ::
  "'o decoder_lib \<Rightarrow> u32 \<Rightarrow> bool \<Rightarrow> shared \<Rightarrow> 'o incoming list \<Rightarrow> (nat \<times> 'o incoming list) option" where
  "decoder_for D stream stereo sh decoders =
     (case position (\<lambda>d. ic_ssrc d = stream) decoders of
        Some i \<Rightarrow> Some (i, decoders)
      | None \<Rightarrow>
          (case dl_new D stereo of
             None \<Rightarrow> None
           | Some d \<Rightarrow>
               let kept = filter (\<lambda>d. \<exists>s \<in> set (sh_speakers sh). sk_ssrc s = ic_ssrc d) decoders
               in Some (length kept,
                        kept @ [\<lparr>ic_ssrc = stream, ic_decoder = d, ic_expect = None, ic_stereo = stereo\<rparr>])))"

datatype rx_error = Receiving socket_error | Starting_a_decoder

definition rx_audio ::
  "'o decoder_lib \<Rightarrow> packet_header \<Rightarrow> byte list \<Rightarrow> bool \<Rightarrow> shared \<times> 'o rx
    \<Rightarrow> (rx_error + shared \<times> 'o rx) option" where
  "rx_audio D h payload stereo st =
     (case st of (sh, rx) \<Rightarrow>
        case slot_for (ph_ssrc h) sh of
          (None, sh) \<Rightarrow> Some (Inr (sh, rx))
        | (Some place, sh) \<Rightarrow>
            (case decoder_for D (ph_ssrc h) stereo sh (rx_decoders rx) of
               None \<Rightarrow> Some (Inl Starting_a_decoder)
             | Some (index, decoders) \<Rightarrow>
                 let inc = decoders ! index;
                     rx = rx\<lparr>rx_decoders := decoders\<rparr>
                 in case classify (ic_expect inc) (ph_seq h) of
                      Drop_packet \<Rightarrow> Some (Inr (sh, rx))
                    | Play conceal \<Rightarrow>
                        (case conceal_lost D place (unat conceal) inc (rx_pcm rx) sh of
                           None \<Rightarrow> None
                         | Some (inc, pcm, sh) \<Rightarrow>
                             (case play_payload D place payload (inc\<lparr>ic_expect := Some (ph_seq h + 1)\<rparr>) pcm sh of
                                None \<Rightarrow> None
                              | Some (inc, pcm, sh) \<Rightarrow>
                                  Some (Inr (sh, rx\<lparr>rx_decoders := (rx_decoders rx)[index := inc],
                                                    rx_pcm := pcm\<rparr>))))))"

text \<open>\<open>now\<close> is the clock read for a keepalive's echo.\<close>

definition rx_packet ::
  "'o decoder_lib \<Rightarrow> u32 \<Rightarrow> nat \<Rightarrow> packet_header \<Rightarrow> byte list \<Rightarrow> shared \<times> 'o rx
    \<Rightarrow> (rx_error + shared \<times> 'o rx) option" where
  "rx_packet D own_ssrc now h payload st =
     (case st of (sh, rx) \<Rightarrow>
        if ph_kind h = Keepalive
        then Some (Inr (sh, if ph_ssrc h = own_ssrc then rx\<lparr>rx_last_keepalive := now\<rparr> else rx))
        else if is_video (ph_kind h)
        then Some (Inr (sh\<lparr>sh_video := map_option (\<lambda>tap. tap_feed tap h payload) (sh_video sh)\<rparr>, rx))
        else if ph_ssrc h = own_ssrc then Some (Inr (sh, rx))
        else
          let sh = sh\<lparr>sh_packets_in := sh_packets_in sh + 1\<rparr>
          in if sh_deafened sh then Some (Inr (sh, rx))
             else rx_audio D h payload (ph_kind h = DesktopAudio) (sh, rx))"

section \<open>The loop\<close>

record rx_moment =
  rm_now :: nat
  rm_inbound :: inbound
  rm_then :: nat

definition rx_iteration ::
  "aead \<Rightarrow> 'o decoder_lib \<Rightarrow> transport \<Rightarrow> u32 \<Rightarrow> rx_moment \<Rightarrow> shared \<times> 'o rx
    \<Rightarrow> (rx_error + shared \<times> 'o rx) option" where
  "rx_iteration A D t own_ssrc m st =
     (case st of (sh, rx) \<Rightarrow>
        let alive = (rm_now m - rx_last_keepalive rx < MEDIA_TIMEOUT);
            sh = sh\<lparr>sh_media_ok := alive\<rparr>
        in case transport_recv A t (rm_inbound m) of
             Inl e \<Rightarrow> Some (Inl (Receiving e))
           | Inr None \<Rightarrow> Some (Inr (sh, rx))
           | Inr (Some (h, payload)) \<Rightarrow> rx_packet D own_ssrc (rm_then m) h payload (sh, rx))"

text \<open>The loop until \<open>stop\<close> is seen or an error ends it, with the other threads between its turns.\<close>

fun run_rx ::
  "aead \<Rightarrow> 'o decoder_lib \<Rightarrow> transport \<Rightarrow> u32 \<Rightarrow> ((shared \<Rightarrow> shared) \<times> rx_moment) list
    \<Rightarrow> shared \<times> 'o rx \<Rightarrow> (rx_error + shared \<times> 'o rx) option" where
  "run_rx A D t own_ssrc [] (sh, rx) = Some (Inr (sh, rx))"
| "run_rx A D t own_ssrc ((between, m) # turns) (sh, rx) =
     (let sh = between sh
      in if sh_stop sh then Some (Inr (sh, rx))
         else case rx_iteration A D t own_ssrc m (sh, rx) of
                None \<Rightarrow> None
              | Some (Inl e) \<Rightarrow> Some (Inl e)
              | Some (Inr st) \<Rightarrow> run_rx A D t own_ssrc turns st)"

end
