(* ===== verification/Resample.thy ===== *)
theory Resample
  imports Floats "HOL-Library.Monad_Syntax"
begin

text \<open>
  Between the device's sample rate and the codec's, \<open>crates/boa-client/src/audio/resample.rs\<close>:
  linear interpolation that keeps its place between calls. The loop over the output samples
  between two input samples is a partial function: it ends when its position reaches one.
\<close>

definition f64_one :: f64bits where "f64_one = 0x3FF0000000000000"

definition f64_add :: "f64bits \<Rightarrow> f64bits \<Rightarrow> f64bits" where
  "f64_add a b = to64 (fl_add binary64 (of64 a) (of64 b))"

definition f64_sub :: "f64bits \<Rightarrow> f64bits \<Rightarrow> f64bits" where
  "f64_sub a b = to64 (fl_sub binary64 (of64 a) (of64 b))"

definition f64_times :: "f64bits \<Rightarrow> f64bits \<Rightarrow> f64bits" where
  "f64_times a b = to64 (fl_mul binary64 (of64 a) (of64 b))"

definition f64_divide :: "f64bits \<Rightarrow> f64bits \<Rightarrow> f64bits" where
  "f64_divide a b = to64 (fl_div binary64 (of64 a) (of64 b))"

definition f64_less :: "f64bits \<Rightarrow> f64bits \<Rightarrow> bool" where
  "f64_less a b \<longleftrightarrow> fl_lt (of64 a) (of64 b)"

record resampler =
  rs_step :: f64bits
  rs_position :: f64bits
  rs_previous :: f32bits
  rs_passthrough :: bool

definition resampler_new :: "u32 \<Rightarrow> u32 \<Rightarrow> resampler" where
  "resampler_new in_rate out_rate =
     (let a = max in_rate 1; b = max out_rate 1
      in \<lparr>rs_step = f64_divide (f64_of_nat (unat a)) (f64_of_nat (unat b)), rs_position = 0,
          rs_previous = 0, rs_passthrough = (a = b)\<rparr>)"

text \<open>The \<open>while\<close> loop: the samples it emits, and the position it leaves.\<close>

partial_function (option) emit ::
  "f64bits \<Rightarrow> f32bits \<Rightarrow> f32bits \<Rightarrow> f64bits \<Rightarrow> (f32bits list \<times> f64bits) option" where
  "emit step previous sample position =
     (if f64_less position f64_one
      then let t = f32_of_f64 position;
               x = f32_add previous (f32_times (f32_sub sample previous) t)
           in do {
             (xs, position) \<leftarrow> emit step previous sample (f64_add position step);
             Some (x # xs, position)
           }
      else Some ([], position))"

fun resample_from :: "resampler \<Rightarrow> f32bits list \<Rightarrow> (f32bits list \<times> resampler) option" where
  "resample_from r [] = Some ([], r)"
| "resample_from r (sample # samples) =
     do {
       (xs, position) \<leftarrow> emit (rs_step r) (rs_previous r) sample (rs_position r);
       (ys, r) \<leftarrow> resample_from (r\<lparr>rs_position := f64_sub position f64_one, rs_previous := sample\<rparr>) samples;
       Some (xs @ ys, r)
     }"

text \<open>\<open>process\<close>: what it appends to \<open>out\<close>, and the resampler afterwards.\<close>

definition resample :: "resampler \<Rightarrow> f32bits list \<Rightarrow> (f32bits list \<times> resampler) option" where
  "resample r input = (if rs_passthrough r then Some (input, r) else resample_from r input)"

text \<open>\<open>chunks_exact\<close>: whole chunks only.\<close>

function chunks_exact :: "nat \<Rightarrow> 'a list \<Rightarrow> 'a list list" where
  "chunks_exact n xs = (if n = 0 \<or> length xs < n then [] else take n xs # chunks_exact n (drop n xs))"
  by pat_completeness auto
termination by (relation "measure (\<lambda>(n, xs). length xs)") auto

declare chunks_exact.simps [simp del]

definition to_mono :: "f32bits list \<Rightarrow> nat \<Rightarrow> f32bits list" where
  "to_mono interleaved channels =
     (if channels \<le> 1 then interleaved
      else map (\<lambda>frame. f32_divide (foldl f32_add 0x80000000 frame) (f32_of_int (int channels)))
             (chunks_exact channels interleaved))"

definition spread :: "f32bits \<Rightarrow> f32bits list \<Rightarrow> f32bits list" where
  "spread sample frame = map (\<lambda>_. sample) frame"

end
