(* ===== verification/Playback.thy ===== *)
theory Playback
  imports Voice Resample
begin

text \<open>
  The playback callback of \<open>crates/boa-client/src/audio/pipeline.rs\<close>: \<open>fill\<close> mixes the primed
  speakers and queues the result, \<open>play_buffer\<close> hands it to the device frame by frame.
\<close>

record playback =
  pb_left :: resampler
  pb_right :: resampler
  pb_ready :: "f32bits list"

definition playback_new :: "u32 \<Rightarrow> playback" where
  "playback_new device_rate =
     \<lparr>pb_left = resampler_new VOICE_SAMPLE_RATE device_rate,
      pb_right = resampler_new VOICE_SAMPLE_RATE device_rate, pb_ready = []\<rparr>"

definition input_per_output :: "u32 \<Rightarrow> f64bits" where
  "input_per_output rate =
     f64_divide (f64_of_nat (unat VOICE_SAMPLE_RATE)) (f64_of_nat (unat (max rate 1)))"

definition frames_needed :: "nat \<Rightarrow> f64bits \<Rightarrow> nat" where
  "frames_needed frames ratio = unat (usize_ceiling (of64 (f64_times (f64_of_nat frames) ratio))) + 8"

text \<open>One speaker into the mix: the mix, the speaker, and whether it ran dry.\<close>

definition mix_speaker :: "nat \<Rightarrow> f32bits list \<Rightarrow> speaker \<Rightarrow> f32bits list \<times> speaker \<times> bool" where
  "mix_speaker samples mixed s =
     (if sk_ssrc s = 0 then (mixed, s, False)
      else if \<not> sk_primed s then (mixed, s, False)
      else
        let ((taken, out), r) = pop (sk_ring s) (replicate samples 0);
            s = s\<lparr>sk_ring := r\<rparr>;
            dry = (taken < samples);
            s = (if dry then s\<lparr>sk_primed := False\<rparr> else s);
            heard = take taken out @ replicate (samples - taken) 0
        in (map (\<lambda>(m, x). f32_add m (f32_times x (sk_volume s))) (zip mixed heard), s, dry))"

fun mix_all :: "nat \<Rightarrow> f32bits list \<Rightarrow> speaker list \<Rightarrow> f32bits list \<times> speaker list \<times> nat" where
  "mix_all samples mixed [] = (mixed, [], 0)"
| "mix_all samples mixed (s # rest) =
     (let (mixed, s, dry) = mix_speaker samples mixed s;
          (mixed, rest, n) = mix_all samples mixed rest
      in (mixed, s # rest, (if dry then Suc n else n)))"

text \<open>The left and the right samples of interleaved frames.\<close>

fun lefts :: "'a list \<Rightarrow> 'a list" where
  "lefts (l # r # rest) = l # lefts rest"
| "lefts _ = []"

fun rights :: "'a list \<Rightarrow> 'a list" where
  "rights (l # r # rest) = r # rights rest"
| "rights _ = []"

definition interleave :: "'a list \<Rightarrow> 'a list \<Rightarrow> 'a list" where
  "interleave ls rs = concat (map (\<lambda>(l, r). [l, r]) (zip ls rs))"

text \<open>\<open>None\<close> only if a resampler's loop does not end.\<close>

definition fill :: "nat \<Rightarrow> f64bits \<Rightarrow> shared \<times> playback \<Rightarrow> (shared \<times> playback) option" where
  "fill frames ratio st =
     (case st of (sh, pb) \<Rightarrow>
        if length (pb_ready pb) \<ge> frames * 2 then Some (sh, pb)
        else
          let needed = frames_needed frames ratio;
              deafened = sh_deafened sh;
              master = (if deafened then 0 else sh_output_volume sh);
              samples = needed * 2;
              silence = replicate samples 0;
              (mixed, speakers, dry) =
                (if deafened then (silence, sh_speakers sh, 0)
                 else mix_all samples silence (sh_speakers sh));
              sh = sh\<lparr>sh_speakers := speakers, sh_underruns := sh_underruns sh + of_nat dry\<rparr>;
              mixed = map (\<lambda>x. unit_clamp (f32_times x master)) mixed
          in if rs_passthrough (pb_left pb)
             then Some (sh, pb\<lparr>pb_ready := pb_ready pb @ mixed\<rparr>)
             else do {
               (ls, left) \<leftarrow> resample (pb_left pb) (lefts mixed);
               (rs, right) \<leftarrow> resample (pb_right pb) (rights mixed);
               Some (sh, \<lparr>pb_left = left, pb_right = right, pb_ready = pb_ready pb @ interleave ls rs\<rparr>)
             })"

section \<open>To the device\<close>

definition write_frame :: "f32bits \<Rightarrow> f32bits \<Rightarrow> nat \<Rightarrow> f32bits list" where
  "write_frame left right channels =
     (let centre = f32_times (f32_add left right) f32_half
      in if channels = 0 then [] else if channels = 1 then [centre]
         else left # right # replicate (channels - 2) centre)"

text \<open>\<open>pop_front().unwrap_or(0.0)\<close>.\<close>

definition pop_front :: "f32bits list \<Rightarrow> f32bits \<times> f32bits list" where
  "pop_front xs = (case xs of [] \<Rightarrow> (0, []) | x # rest \<Rightarrow> (x, rest))"

text \<open>The frames of a device buffer, each with its number of channels.\<close>

fun write_frames :: "nat list \<Rightarrow> f32bits list \<Rightarrow> f32bits list \<times> f32bits list" where
  "write_frames [] ready = ([], ready)"
| "write_frames (channels # rest) ready =
     (let (left, ready) = pop_front ready;
          (right, ready) = pop_front ready;
          (more_out, ready) = write_frames rest ready
      in (write_frame left right channels @ more_out, ready))"

text \<open>The lengths of \<open>data.chunks_mut(channels)\<close>, which panics for no channels.\<close>

definition chunk_lengths :: "nat \<Rightarrow> nat \<Rightarrow> nat list" where
  "chunk_lengths len channels =
     replicate (len div channels) channels @ (if len mod channels = 0 then [] else [len mod channels])"

definition play_buffer ::
  "nat \<Rightarrow> f64bits \<Rightarrow> nat \<Rightarrow> shared \<times> playback \<Rightarrow> (f32bits list \<times> shared \<times> playback) option" where
  "play_buffer channels ratio len st =
     (case fill (len div max channels 1) ratio st of
        None \<Rightarrow> None
      | Some (sh, pb) \<Rightarrow>
          if channels = 0 then None
          else let (out, ready) = write_frames (chunk_lengths len channels) (pb_ready pb)
               in Some (out, sh, pb\<lparr>pb_ready := ready\<rparr>))"

text \<open>The same buffer for a device that takes 16-bit integers: at most eight channels are written.\<close>

definition to_i16 :: "f32bits \<Rightarrow> 16 word" where
  "to_i16 sample = i16_of (of32 (f32_times (unit_clamp sample) RNNOISE_SCALE))"

text \<open>Consecutive pieces of the given lengths.\<close>

fun slices :: "nat list \<Rightarrow> 'a list \<Rightarrow> 'a list list" where
  "slices [] xs = []"
| "slices (n # ns) xs = take n xs # slices ns (drop n xs)"

definition play_buffer_i16 ::
  "nat \<Rightarrow> f64bits \<Rightarrow> 16 word list \<Rightarrow> shared \<times> playback \<Rightarrow> (16 word list \<times> shared \<times> playback) option" where
  "play_buffer_i16 channels ratio data st =
     (case fill (length data div max channels 1) ratio st of
        None \<Rightarrow> None
      | Some (sh, pb) \<Rightarrow>
          if channels = 0 then None
          else let frames = chunks channels data;
                   used = map (\<lambda>frame. min (length frame) 8) frames;
                   (out, ready) = write_frames used (pb_ready pb);
                   written = slices used out
               in Some (concat (map (\<lambda>(frame, new). map to_i16 new @ drop 8 frame) (zip frames written)),
                        sh, pb\<lparr>pb_ready := ready\<rparr>))"

section \<open>From the device\<close>

text \<open>\<open>32768.0\<close> as a bit pattern.\<close>

definition f32_full_scale :: f32bits where "f32_full_scale = 0x47000000"

definition capture_samples :: "f32bits list \<Rightarrow> resampler \<times> shared \<Rightarrow> (resampler \<times> shared) option" where
  "capture_samples heard st =
     (case st of (r, sh) \<Rightarrow>
        do {
          (converted, r) \<leftarrow> resample r heard;
          Some (r, sh\<lparr>sh_capture := snd (push (sh_capture sh) converted)\<rparr>)
        })"

definition capture_f32 :: "nat \<Rightarrow> f32bits list \<Rightarrow> resampler \<times> shared \<Rightarrow> (resampler \<times> shared) option" where
  "capture_f32 channels data st = capture_samples (to_mono data channels) st"

definition f32_of_i16 :: "16 word \<Rightarrow> f32bits" where
  "f32_of_i16 s = f32_divide (f32_of_int (sint s)) f32_full_scale"

definition capture_i16 :: "nat \<Rightarrow> 16 word list \<Rightarrow> resampler \<times> shared \<Rightarrow> (resampler \<times> shared) option" where
  "capture_i16 channels data st =
     (if channels = 0 then None
      else capture_samples
             (map (\<lambda>frame. f32_divide (foldl f32_add 0x80000000 (map f32_of_i16 frame))
                              (f32_of_int (int channels)))
                (chunks_exact channels data)) st)"

end
