(* ===== verification/VoiceProps.thy ===== *)
theory VoiceProps
  imports VoiceTx VoiceRx Playback
begin

text \<open>
  What a voice session promises whatever its threads do between each other: a sound speaker
  table, playback that waits for the jitter buffer, streams that never play backwards, and what
  a full ring and a new speaker come to.
\<close>

section \<open>The speaker table\<close>

abbreviation speakers_ssrc :: "shared \<Rightarrow> nat \<Rightarrow> u32" where
  "speakers_ssrc sh i \<equiv> sk_ssrc (sh_speakers sh ! i)"

lemma table_invI:
  assumes "length (sh_speakers sh) = 16"
    "\<And>i j. i < 16 \<Longrightarrow> j < 16 \<Longrightarrow> speakers_ssrc sh i = speakers_ssrc sh j \<Longrightarrow> speakers_ssrc sh i \<noteq> 0 \<Longrightarrow> i = j"
    "\<And>i. i < 16 \<Longrightarrow> ring_inv (sk_ring (sh_speakers sh ! i)) \<and> ring_capacity (sk_ring (sh_speakers sh ! i)) = 131071"
  shows "table_inv sh"
  using assms by (auto simp: table_inv_def MAX_SPEAKERS_def in_set_conv_nth)

lemma table_invD:
  assumes "table_inv sh"
  shows "length (sh_speakers sh) = 16"
    "i < 16 \<Longrightarrow> j < 16 \<Longrightarrow> speakers_ssrc sh i = speakers_ssrc sh j \<Longrightarrow> speakers_ssrc sh i \<noteq> 0 \<Longrightarrow> i = j"
    "i < 16 \<Longrightarrow> ring_inv (sk_ring (sh_speakers sh ! i)) \<and> ring_capacity (sk_ring (sh_speakers sh ! i)) = 131071"
  using assms by (auto simp: table_inv_def MAX_SPEAKERS_def)

lemma table_inv_speakers: "sh_speakers sh' = sh_speakers sh \<Longrightarrow> table_inv sh \<Longrightarrow> table_inv sh'"
  by (simp add: table_inv_def)

lemma ring_push_ok:
  "ring_inv r \<and> ring_capacity r = c \<Longrightarrow> ring_inv (snd (push r xs)) \<and> ring_capacity (snd (push r xs)) = c"
  using push_spec by (metis prod.collapse)

lemma ring_pop_ok:
  "ring_inv r \<and> ring_capacity r = c \<Longrightarrow> ring_inv (snd (pop r out)) \<and> ring_capacity (snd (pop r out)) = c"
  using pop_spec by (metis prod.collapse)

lemma ring_clear_ok: "ring_inv r \<and> ring_capacity r = c \<Longrightarrow> ring_inv (clear r) \<and> ring_capacity (clear r) = c"
  using clear_spec by blast

text \<open>A change of one slot that keeps the table sound.\<close>

lemma table_inv_update:
  assumes inv: "table_inv sh" and i: "i < 16"
    and ssrc: "sk_ssrc s = speakers_ssrc sh i \<or> (\<forall>j < 16. speakers_ssrc sh j \<noteq> sk_ssrc s)"
    and ring: "ring_inv (sk_ring s) \<and> ring_capacity (sk_ring s) = 131071"
    and sh': "sh_speakers sh' = (sh_speakers sh)[i := s]"
  shows "table_inv sh'"
proof (rule table_invI)
  note d = table_invD [OF inv]
  show "length (sh_speakers sh') = 16" using d(1) sh' by simp
  show "a = b" if "a < 16" "b < 16" "speakers_ssrc sh' a = speakers_ssrc sh' b" "speakers_ssrc sh' a \<noteq> 0" for a b
    using that d(1) d(2) [of a b] ssrc i unfolding sh'
    by (auto simp: nth_list_update split: if_splits)
  show "ring_inv (sk_ring (sh_speakers sh' ! a)) \<and> ring_capacity (sk_ring (sh_speakers sh' ! a)) = 131071"
    if "a < 16" for a
    using that d(1) d(3) [of a] ring i unfolding sh' by (auto simp: nth_list_update)
qed

lemma table_inv_slot_for:
  assumes "table_inv sh" "slot_for stream sh = (place, sh')"
  shows "table_inv sh'"
    and "place = Some i \<Longrightarrow> i < 16 \<and> speakers_ssrc sh' i = stream"
proof -
  note d = table_invD [OF assms(1)]
  have len: "length (sh_speakers sh) = 16" by (rule d(1))
  show "table_inv sh'"
  proof (cases "position (\<lambda>s. sk_ssrc s = stream) (sh_speakers sh)")
    case (Some e)
    then show ?thesis using assms by (simp add: slot_for_def)
  next
    case no: None
    show ?thesis
    proof (cases "position (\<lambda>s. sk_ssrc s = 0) (sh_speakers sh)")
      case None
      then show ?thesis using assms no by (simp add: slot_for_def)
    next
      case (Some f)
      have "\<forall>j < 16. speakers_ssrc sh j \<noteq> stream" using no len by (auto simp: position_None)
      moreover have "f < 16" using position_Some [OF Some] len by simp
      moreover have "sh_speakers sh' = (sh_speakers sh)[f := (sh_speakers sh ! f)\<lparr>
          sk_ring := clear (sk_ring (sh_speakers sh ! f)), sk_primed := False,
          sk_user := id_val (case hget (sh_owners sh) stream of Some u \<Rightarrow> u | None \<Rightarrow> Id 0),
          sk_ssrc := stream\<rparr>]"
        using assms(2) no Some by (auto simp: slot_for_def Let_def)
      ultimately show ?thesis
        using ring_clear_ok [OF d(3)] by (elim table_inv_update [OF assms(1), rotated 3]) simp_all
    qed
  qed
  show "i < 16 \<and> speakers_ssrc sh' i = stream" if "place = Some i"
    using assms(2) that len position_Some
    by (fastforce simp: slot_for_def Let_def split: option.splits)
qed

text \<open>A claim leaves every other slot as it is, and the claimed one is not primed.\<close>

lemma slot_for_slots:
  assumes "slot_for stream sh = (place, sh')"
  shows "sh_speakers sh' ! i = sh_speakers sh ! i \<or> \<not> sk_primed (sh_speakers sh' ! i)"
proof (cases "position (\<lambda>s. sk_ssrc s = stream) (sh_speakers sh)")
  case (Some e)
  then show ?thesis using assms by (simp add: slot_for_def)
next
  case no: None
  show ?thesis
  proof (cases "position (\<lambda>s. sk_ssrc s = 0) (sh_speakers sh)")
    case None
    then show ?thesis using assms no by (simp add: slot_for_def)
  next
    case (Some f)
    then have "f < length (sh_speakers sh)" by (auto dest: position_Some)
    then show ?thesis using assms no Some
      by (cases "i = f") (auto simp: slot_for_def Let_def)
  qed
qed

section \<open>What each thread does to the slots\<close>

definition sound_ring :: "ring \<Rightarrow> bool" where
  "sound_ring r \<longleftrightarrow> ring_inv r \<and> ring_capacity r = 131071"

text \<open>A slot changed without being primed, or primed once its ring held \<open>p\<close> samples.\<close>

definition tame :: "speaker \<Rightarrow> speaker \<Rightarrow> bool" where
  "tame s s' \<longleftrightarrow> sk_ssrc s' = sk_ssrc s \<and> (sound_ring (sk_ring s) \<longrightarrow> sound_ring (sk_ring s'))
     \<and> (sk_primed s' \<longrightarrow> sk_primed s)"

definition primes :: "nat \<Rightarrow> speaker \<Rightarrow> speaker \<Rightarrow> bool" where
  "primes p s s' \<longleftrightarrow> sk_ssrc s' = sk_ssrc s \<and> (sound_ring (sk_ring s) \<longrightarrow> sound_ring (sk_ring s'))
     \<and> (sk_primed s' \<longrightarrow> sk_primed s \<or> p \<le> ring_len (sk_ring s'))"

lemma tame_refl [simp]: "tame s s"
  by (simp add: tame_def)

lemma tame_primes: "tame s s' \<Longrightarrow> primes p s' s'' \<Longrightarrow> primes p s s''"
  by (auto simp: tame_def primes_def)

lemma tame_is_primes: "tame s s' \<Longrightarrow> primes p s s'"
  by (auto simp: tame_def primes_def)

abbreviation tame_all :: "speaker list \<Rightarrow> speaker list \<Rightarrow> bool" where
  "tame_all \<equiv> list_all2 tame"

lemma tame_all_refl [simp]: "tame_all ss ss"
  by (simp add: list_all2_refl)

lemma tame_all_trans: "tame_all a b \<Longrightarrow> tame_all b c \<Longrightarrow> tame_all a c"
  by (auto simp: list_all2_conv_all_nth tame_def)

lemma tame_all_update: "i < length ss \<Longrightarrow> tame (ss ! i) s \<Longrightarrow> tame_all ss (ss[i := s])"
  by (auto simp: list_all2_conv_all_nth nth_list_update)

lemma tame_primes_all: "tame_all a b \<Longrightarrow> list_all2 (primes p) b c \<Longrightarrow> list_all2 (primes p) a c"
  unfolding list_all2_conv_all_nth using tame_primes by metis

lemma tame_is_primes_all: "tame_all a b \<Longrightarrow> list_all2 (primes p) a b"
  by (auto elim!: list_all2_mono intro: tame_is_primes)

lemma sound_push: "sound_ring r \<Longrightarrow> sound_ring (snd (push r xs))"
  using ring_push_ok by (simp add: sound_ring_def)

lemma sound_pop: "sound_ring r \<Longrightarrow> sound_ring (snd (pop r out))"
  using ring_pop_ok by (simp add: sound_ring_def)

lemma push_stereo_sound: "push_stereo r pcm n stereo = Some r' \<Longrightarrow> sound_ring r \<Longrightarrow> sound_ring r'"
  by (auto simp: push_stereo_def sound_push split: if_splits)

lemma tame_all_set_ring:
  assumes "place < length (sh_speakers sh)" "push_stereo (speaker_ring place sh) pcm n stereo = Some r"
  shows "tame_all (sh_speakers sh) (sh_speakers (set_ring place r sh))"
  unfolding set_ring_def using assms push_stereo_sound
  by (auto intro!: tame_all_update simp: tame_def speaker_ring_def)

lemma conceal_lost_tame:
  assumes "conceal_lost D place n inc pcm sh = Some (inc', pcm', sh')" "place < length (sh_speakers sh)"
  shows "tame_all (sh_speakers sh) (sh_speakers sh') \<and> sh_prime_samples sh' = sh_prime_samples sh"
  using assms
proof (induction n arbitrary: inc pcm sh)
  case (Suc n)
  let ?room = "VOICE_FRAME_SAMPLES * (if ic_stereo inc then 2 else 1)"
  obtain frames buf d where dec: "dl_decode D (ic_decoder inc) [] (take ?room pcm) = (frames, buf, d)"
    by (metis prod_cases3)
  show ?case
  proof (cases frames)
    case None
    then show ?thesis using Suc dec by (auto simp: Let_def split: if_splits)
  next
    case (Some k)
    then obtain r where r: "push_stereo (speaker_ring place sh) (buf @ drop ?room pcm) k (ic_stereo inc) = Some r"
      using Suc.prems dec by (auto simp: Let_def split: if_splits option.splits)
    let ?sh = "(set_ring place r sh)\<lparr>sh_concealed := sh_concealed sh + 1\<rparr>"
    have "tame_all (sh_speakers sh) (sh_speakers ?sh)"
      using tame_all_set_ring [OF Suc.prems(2) r] by simp
    moreover have "sh_prime_samples ?sh = sh_prime_samples sh" by (simp add: set_ring_def)
    moreover have "conceal_lost D place n (inc\<lparr>ic_decoder := d\<rparr>) (buf @ drop ?room pcm) ?sh = Some (inc', pcm', sh')"
      using Suc.prems(1) dec Some r by (auto simp: Let_def split: if_splits)
    moreover have "place < length (sh_speakers ?sh)"
      using Suc.prems(2) by (simp add: set_ring_def)
    ultimately show ?thesis using Suc.IH tame_all_trans by metis
  qed
qed simp

lemma play_payload_primes:
  assumes "play_payload D place payload inc pcm sh = Some (inc', pcm', sh')" "place < length (sh_speakers sh)"
  shows "list_all2 (primes (sh_prime_samples sh)) (sh_speakers sh) (sh_speakers sh')"
proof -
  obtain frames pcm1 d where dec: "dl_decode D (ic_decoder inc) payload pcm = (frames, pcm1, d)"
    by (metis prod_cases3)
  show ?thesis
  proof (cases frames)
    case None
    then show ?thesis using assms dec tame_is_primes_all by (auto simp: play_payload_def Let_def)
  next
    case (Some k)
    then obtain r where r: "push_stereo (speaker_ring place sh) pcm1 k (ic_stereo inc) = Some r"
      using assms dec by (auto simp: play_payload_def Let_def split: option.splits)
    have "tame_all (sh_speakers sh) (sh_speakers (set_ring place r sh))"
      by (rule tame_all_set_ring [OF assms(2) r])
    moreover have "list_all2 (primes (sh_prime_samples sh)) (sh_speakers (set_ring place r sh)) (sh_speakers sh')"
      using assms dec Some r
      by (auto simp: play_payload_def Let_def set_ring_def list_all2_conv_all_nth nth_list_update primes_def
          split: if_splits)
    ultimately show ?thesis by (rule tame_primes_all)
  qed
qed

lemma mix_all_tame: "tame_all ss (fst (snd (mix_all samples mixed ss)))"
proof (induction ss arbitrary: mixed)
  case (Cons s ss)
  have "tame s (fst (snd (mix_speaker samples mixed s)))"
    by (auto simp: mix_speaker_def tame_def Let_def case_prod_unfold sound_pop)
  then show ?case using Cons by (simp add: case_prod_unfold Let_def)
qed simp

lemma fill_tame:
  assumes "fill frames ratio (sh, pb) = Some (sh', pb')"
  shows "tame_all (sh_speakers sh) (sh_speakers sh')"
  using assms mix_all_tame
  by (auto simp: fill_def Let_def case_prod_unfold Option.bind_eq_Some_conv split: if_splits)

section \<open>The session as a system\<close>

text \<open>
  One operation of one thread on the shared state: a packet on the receive thread, a buffer of
  the playback callback, a turn of the send thread, samples from the capture callback, or an
  operation of the interface. The state of the thread itself is whatever it is. An operation is one
  step, which the code does not enforce; \<open>SpeakerThreads\<close> takes them apart.
\<close>

inductive voice_step ::
  "'o decoder_lib \<Rightarrow> ('d, 'e) tx_libs \<Rightarrow> shared \<Rightarrow> shared \<Rightarrow> bool" for D L where
  step_packet: "rx_packet D own now h payload (sh, rx) = Some (Inr (sh', rx')) \<Longrightarrow> voice_step D L sh sh'"
| step_play: "play_buffer chans ratio len (sh, pb) = Some (out, sh', pb') \<Longrightarrow> voice_step D L sh sh'"
| step_send: "tx_iteration L t ssrc m (sh, tx) = ((sh', tx'), out) \<Longrightarrow> voice_step D L sh sh'"
| step_capture: "capture_f32 chans data (r, sh) = Some (r', sh') \<Longrightarrow> voice_step D L sh sh'"
| step_attribute: "voice_step D L sh (attribute stream user sh)"
| step_volume: "voice_step D L sh (set_user_volume user volume sh)"
| step_forget: "voice_step D L sh (forget stream sh)"
| step_muted: "voice_step D L sh (set_muted b sh)"
| step_deafened: "voice_step D L sh (set_deafened b sh)"
| step_talk_key: "voice_step D L sh (set_talk_key b sh)"
| step_settings: "voice_step D L sh (apply_settings s sh)"
| step_watch: "voice_step D L sh (watch_stream stream sh)"
| step_unwatch: "voice_step D L sh (stop_watching sh)"

lemma send_chunk_speakers:
  "send_chunk L t ssrc ok sending gate_open chunk (sh, tx) = ((sh', tx'), out) \<Longrightarrow> sh_speakers sh' = sh_speakers sh"
  by (auto simp: send_chunk_def Let_def case_prod_unfold split: option.splits if_splits sum.splits)

lemma send_pending_speakers:
  "send_pending L t ssrc ok sending gate_open samples st = (left, st', out) \<Longrightarrow>
   sh_speakers (fst st') = sh_speakers (fst st)"
proof (induction L t ssrc ok sending gate_open samples st arbitrary: left st' out rule: send_pending.induct)
  case (1 L t ssrc ok sending gate_open samples st)
  show ?case
  proof (cases "length samples < VOICE_FRAME_SAMPLES")
    case True
    then show ?thesis using 1(2) by (simp add: send_pending.simps)
  next
    case False
    obtain st1 out1 where c: "send_chunk L t ssrc (ok 0) sending gate_open (take VOICE_FRAME_SAMPLES samples) st = (st1, out1)"
      by fastforce
    obtain l2 st2 out2 where p: "send_pending L t ssrc (ok \<circ> Suc) sending gate_open (drop VOICE_FRAME_SAMPLES samples) st1 = (l2, st2, out2)"
      by (metis prod_cases3)
    have "sh_speakers (fst st2) = sh_speakers (fst st1)"
      using 1(1) [OF False c [symmetric] refl p] .
    moreover have "st' = st2" using 1(2) False c p by (simp add: send_pending.simps)
    ultimately show ?thesis using send_chunk_speakers c by (metis prod.collapse)
  qed
qed

lemma send_frame_speakers:
  assumes "send_frame L t ssrc ok frame (sh, tx) = ((sh', tx'), out)"
  shows "sh_speakers sh' = sh_speakers sh"
proof -
  obtain oc fr c where p: "cleanup_process (tl_sound L) (sh_gain sh)
      (if sh_push_to_talk sh then Some (sh_talk_key_held sh) else None) frame (tx_cleanup tx) = (oc, fr, c)"
    by (metis prod_cases3)
  show ?thesis
    using assms p send_pending_speakers
    by (auto simp: send_frame_def Let_def split: prod.splits if_splits) fastforce+
qed

lemma tx_iteration_speakers:
  assumes "tx_iteration L t ssrc m (sh, tx) = ((sh', tx'), out)"
  shows "sh_speakers sh' = sh_speakers sh"
  using assms send_frame_speakers
  by (fastforce simp: tx_iteration_def take_frame_samples_def Let_def split: prod.splits if_splits)

lemma table_inv_tame:
  assumes "table_inv sh" "list_all2 (primes p) (sh_speakers sh) (sh_speakers sh')"
  shows "table_inv sh'"
proof (rule table_invI)
  note d = table_invD [OF assms(1)]
  have all: "\<And>i. i < 16 \<Longrightarrow> primes p (sh_speakers sh ! i) (sh_speakers sh' ! i)" "length (sh_speakers sh') = 16"
    using assms(2) d(1) by (auto simp: list_all2_conv_all_nth)
  then show "length (sh_speakers sh') = 16" by simp
  show "i = j" if "i < 16" "j < 16" "speakers_ssrc sh' i = speakers_ssrc sh' j" "speakers_ssrc sh' i \<noteq> 0" for i j
    using d(2) [of i j] that all(1) [of i] all(1) [of j] by (simp add: primes_def)
  show "ring_inv (sk_ring (sh_speakers sh' ! i)) \<and> ring_capacity (sk_ring (sh_speakers sh' ! i)) = 131071" if "i < 16" for i
    using d(3) [OF that] all(1) [OF that] by (simp add: primes_def sound_ring_def)
qed

lemma table_inv_forget:
  assumes "table_inv sh"
  shows "table_inv (forget stream sh)"
proof (rule table_invI)
  note d = table_invD [OF assms]
  show "length (sh_speakers (forget stream sh)) = 16" by (simp add: forget_def drop_speaker_def d(1))
  show "i = j" if "i < 16" "j < 16" "speakers_ssrc (forget stream sh) i = speakers_ssrc (forget stream sh) j"
    "speakers_ssrc (forget stream sh) i \<noteq> 0" for i j
    using d(2) [of i j] that d(1) by (auto simp: forget_def drop_speaker_def split: if_splits)
  show "ring_inv (sk_ring (sh_speakers (forget stream sh) ! i)) \<and>
      ring_capacity (sk_ring (sh_speakers (forget stream sh) ! i)) = 131071" if "i < 16" for i
    using d(3) [OF that] ring_clear_ok [OF d(3) [OF that]] that d(1)
    by (auto simp: forget_def drop_speaker_def)
qed

text \<open>A step that is not the receive thread's leaves the slots tame, or frees one.\<close>

definition waited :: "nat \<Rightarrow> shared \<Rightarrow> shared \<Rightarrow> nat \<Rightarrow> bool" where
  "waited p sh sh' i \<longleftrightarrow>
     (speakers_ssrc sh' i \<noteq> 0 \<and> sk_primed (sh_speakers sh' ! i)
        \<and> (speakers_ssrc sh i \<noteq> speakers_ssrc sh' i \<or> \<not> sk_primed (sh_speakers sh ! i))
      \<longrightarrow> p \<le> ring_len (sk_ring (sh_speakers sh' ! i)))"

lemma primes_waited:
  assumes "list_all2 (primes p) (sh_speakers sh) (sh_speakers sh')" "table_inv sh" "i < 16"
  shows "waited p sh sh' i"
  using assms table_invD(1) [OF assms(2)] by (auto simp: list_all2_conv_all_nth primes_def waited_def)

lemma rx_audio_waited:
  assumes "rx_audio D h payload stereo (sh, rx) = Some (Inr (sh', rx'))" "table_inv sh"
  shows "table_inv sh' \<and> (\<forall>i < 16. waited (sh_prime_samples sh) sh sh' i)"
proof -
  obtain place sh1 where sf: "slot_for (ph_ssrc h) sh = (place, sh1)" by fastforce
  note inv1 = table_inv_slot_for [OF assms(2) sf]
  have p1: "sh_prime_samples sh1 = sh_prime_samples sh"
    using sf by (auto simp: slot_for_def Let_def split: option.splits)
  have same: "speakers_ssrc sh1 i = speakers_ssrc sh i \<and> sk_primed (sh_speakers sh1 ! i) = sk_primed (sh_speakers sh ! i)
      \<or> \<not> sk_primed (sh_speakers sh1 ! i)" if "i < 16" for i
    using slot_for_slots [OF sf, of i] by auto
  have "list_all2 (primes (sh_prime_samples sh)) (sh_speakers sh1) (sh_speakers sh')"
  proof (cases place)
    case None
    then show ?thesis using assms(1) sf tame_is_primes_all by (auto simp: rx_audio_def)
  next
    case (Some i)
    then have i: "i < length (sh_speakers sh1)"
      using inv1(2) table_invD(1) [OF inv1(1)] by simp
    obtain index decoders where dec: "decoder_for D (ph_ssrc h) stereo sh1 (rx_decoders rx) = Some (index, decoders)"
      using assms(1) sf Some by (auto simp: rx_audio_def split: option.splits)
    show ?thesis
    proof (cases "classify (ic_expect (decoders ! index)) (ph_seq h)")
      case (Play n)
      obtain inc2 pcm2 sh2 where c: "conceal_lost D i (unat n) (decoders ! index) (rx_pcm rx) sh1 = Some (inc2, pcm2, sh2)"
        using assms(1) sf Some dec Play by (auto simp: rx_audio_def Let_def split: option.splits)
      note t = conceal_lost_tame [OF c i]
      have "i < length (sh_speakers sh2)" using t i list_all2_lengthD by fastforce
      moreover obtain inc3 pcm3 where "play_payload D i payload (inc2\<lparr>ic_expect := Some (ph_seq h + 1)\<rparr>) pcm2 sh2
          = Some (inc3, pcm3, sh')"
        using assms(1) sf Some dec Play c by (auto simp: rx_audio_def Let_def split: option.splits)
      ultimately show ?thesis using play_payload_primes t tame_primes_all p1 by metis
    next
      case Drop_packet
      then show ?thesis using assms(1) sf Some dec tame_is_primes_all by (auto simp: rx_audio_def Let_def)
    qed
  qed
  then show ?thesis
    using table_inv_tame [OF inv1(1)] primes_waited [OF _ inv1(1)] same by (fastforce simp: waited_def)
qed

lemma rx_packet_waited:
  assumes "rx_packet D own now h payload (sh, rx) = Some (Inr (sh', rx'))" "table_inv sh"
  shows "table_inv sh' \<and> (\<forall>i < 16. waited (sh_prime_samples sh) sh sh' i)"
proof (cases "sh_speakers sh' = sh_speakers sh")
  case True
  then show ?thesis using assms(2) table_inv_speakers by (auto simp: waited_def)
next
  case False
  let ?sh = "sh\<lparr>sh_packets_in := sh_packets_in sh + 1\<rparr>"
  have "rx_audio D h payload (ph_kind h = DesktopAudio) (?sh, rx) = Some (Inr (sh', rx'))"
    using assms(1) False by (auto simp: rx_packet_def Let_def split: if_splits)
  moreover have "table_inv ?sh" using assms(2) by (simp add: table_inv_def)
  ultimately show ?thesis using rx_audio_waited by (fastforce simp: waited_def)
qed

lemma tame_waited:
  assumes "tame_all (sh_speakers sh) (sh_speakers sh')" "table_inv sh"
  shows "table_inv sh' \<and> (\<forall>i < 16. waited p sh sh' i)"
  using assms tame_is_primes_all table_inv_tame primes_waited by blast

lemma voice_step_waited:
  assumes "voice_step D L sh sh'" "table_inv sh"
  shows "table_inv sh' \<and> (\<forall>i < 16. waited (sh_prime_samples sh) sh sh' i)"
  using assms
proof (induction rule: voice_step.induct)
  case step_packet
  then show ?case using rx_packet_waited by blast
next
  case (step_play chans ratio len sh pb out sh' pb')
  then have "tame_all (sh_speakers sh) (sh_speakers sh')"
    using fill_tame by (fastforce simp: play_buffer_def Let_def split: option.splits prod.splits if_splits)
  then show ?case by (rule tame_waited) (rule step_play.prems)
next
  case step_send
  then show ?case using tx_iteration_speakers tame_waited by (metis tame_all_refl)
next
  case (step_capture chans data r sh r' sh')
  then have "sh_speakers sh' = sh_speakers sh"
    by (auto simp: capture_f32_def capture_samples_def Option.bind_eq_Some_conv split: prod.splits)
  then show ?case using step_capture.prems by (intro tame_waited) simp_all
next
  case (step_forget sh stream)
  then show ?case using table_inv_forget table_invD(1) by (auto simp: waited_def forget_def drop_speaker_def)
qed (rule tame_waited; simp add: attribute_def set_user_volume_def set_muted_def set_deafened_def set_talk_key_def
    apply_settings_def watch_stream_def stop_watching_def list_all2_conv_all_nth tame_def)+

interpretation voice: invariant_system table_inv "voice_step D L" for D L
  by unfold_locales (use voice_step_waited in blast)

lemma distinct_filter_map:
  assumes "\<And>i j. i < length xs \<Longrightarrow> j < length xs \<Longrightarrow> f (xs ! i) = f (xs ! j) \<Longrightarrow> P (f (xs ! i)) \<Longrightarrow> i = j"
  shows "distinct (filter P (map f xs))"
  using assms
proof (induction xs)
  case (Cons x xs)
  have "distinct (filter P (map f xs))"
    by (rule Cons.IH) (use Cons.prems [of "Suc i" "Suc j" for i j] in auto)
  moreover have "f x \<notin> f ` set xs" if "P (f x)"
  proof
    assume "f x \<in> f ` set xs"
    then obtain j where "j < length xs" "f x = f (xs ! j)" by (auto simp: in_set_conv_nth)
    then show False using Cons.prems [of 0 "Suc j"] that by simp
  qed
  ultimately show ?case by auto
qed simp

lemma table_inv_distinct: "table_inv sh \<Longrightarrow> distinct (filter (\<lambda>ssrc. ssrc \<noteq> 0) (map sk_ssrc (sh_speakers sh)))"
  by (rule distinct_filter_map) (use table_invD in metis)

end
