(* ===== verification/VoiceStreams.thy ===== *)
theory VoiceStreams
  imports VoiceProps
begin

text \<open>
  One voice stream through the receive thread: which of its packets are decoded, in which order,
  and what is concealed in between, whatever packets of other streams come in between. The
  decoder is any that keeps to its buffer; \<open>log\<close> reads the calls it was given.
\<close>

definition decoder_laws :: "'o decoder_lib \<Rightarrow> ('o \<Rightarrow> byte list list) \<Rightarrow> ('o \<Rightarrow> bool) \<Rightarrow> bool" where
  "decoder_laws D log wide \<longleftrightarrow>
     (\<forall>stereo. \<exists>d. dl_new D stereo = Some d \<and> log d = [] \<and> wide d = stereo)
   \<and> (\<forall>d payload buf frames buf' d'. dl_decode D d payload buf = (frames, buf', d') \<longrightarrow>
        length buf' = length buf \<and> wide d' = wide d \<and> log d' = log d @ [payload]
        \<and> (\<forall>n. frames = Some n \<longrightarrow> n * (if wide d then 2 else 1) \<le> length buf))"

text \<open>The packets of a run, with the clock read after each; and those of one stream.\<close>

type_synonym rx_arrival = "nat \<times> packet_header \<times> byte list"

fun rx_packets ::
  "'o decoder_lib \<Rightarrow> u32 \<Rightarrow> rx_arrival list \<Rightarrow> shared \<times> 'o rx \<Rightarrow> (rx_error + shared \<times> 'o rx) option" where
  "rx_packets D own [] st = Some (Inr st)"
| "rx_packets D own ((now, h, payload) # rest) st =
     (case rx_packet D own now h payload st of
        Some (Inr st') \<Rightarrow> rx_packets D own rest st'
      | r \<Rightarrow> r)"

definition is_audio :: "media_kind \<Rightarrow> bool" where
  "is_audio k \<longleftrightarrow> k \<noteq> Keepalive \<and> \<not> is_video k"

definition audio_of :: "u32 \<Rightarrow> rx_arrival list \<Rightarrow> (u32 \<times> byte list) list" where
  "audio_of stream packets =
     map (\<lambda>(now, h, payload). (ph_seq h, payload))
       (filter (\<lambda>(now, h, payload). is_audio (ph_kind h) \<and> ph_ssrc h = stream) packets)"

definition audio_streams :: "rx_arrival list \<Rightarrow> u32 set" where
  "audio_streams packets = ph_ssrc ` set (filter (\<lambda>h. is_audio (ph_kind h)) (map (fst \<circ> snd) packets))"

text \<open>
  What a listener should hear of packets numbered by the sender: each packet newer than all
  before it, and up to five concealed for those missing in front of it. An empty payload stands
  for a concealed packet.
\<close>

fun heard :: "nat option \<Rightarrow> (nat \<times> byte list) list \<Rightarrow> byte list list" where
  "heard latest [] = []"
| "heard None ((n, payload) # rest) = payload # heard (Some n) rest"
| "heard (Some m) ((n, payload) # rest) =
     (if n \<le> m then heard (Some m) rest
      else (if n - m - 1 \<le> 5 then replicate (n - m - 1) [] else []) @ payload # heard (Some n) rest)"

section \<open>The sequence numbers\<close>

text \<open>One packet on what the decoder was given and the number it expects.\<close>

definition hear ::
  "byte list list \<times> u32 option \<Rightarrow> u32 \<times> byte list \<Rightarrow> byte list list \<times> u32 option" where
  "hear le p =
     (case classify (snd le) (fst p) of
        Drop_packet \<Rightarrow> le
      | Play n \<Rightarrow> (fst le @ replicate (unat n) [] @ [snd p], Some (fst p + 1)))"

lemma sint_distance:
  assumes "n < base + 2 ^ 31" "m < base + 2 ^ 31" "base \<le> n" "base \<le> m"
  shows "sint (word_of_nat n - (word_of_nat m + 1) :: u32) = int n - int m - 1"
proof -
  have "word_of_nat n - (word_of_nat m + 1) = (word_of_int (int n - int m - 1) :: u32)" by simp
  moreover have "sint (word_of_int (int n - int m - 1) :: u32) = int n - int m - 1"
    using assms by (simp only: sint_sbintrunc') (auto intro!: signed_take_bit_int_eq_self)
  ultimately show ?thesis by (simp only:)
qed

lemma classify_numbered:
  assumes "base \<le> n" "base \<le> m" "n < base + 2 ^ 31" "m < base + 2 ^ 31"
  shows "classify (Some (word_of_nat m + 1)) (word_of_nat n) =
    (if n \<le> m then Drop_packet else Play (if n - m - 1 \<le> 5 then word_of_nat (n - m - 1) else 0))"
proof -
  have d: "sint (word_of_nat n - (word_of_nat m + 1) :: u32) = int n - int m - 1"
    using sint_distance assms by blast
  show ?thesis
  proof (cases "n \<le> m")
    case True
    then show ?thesis unfolding classify_def Let_def option.case d by (simp add: MAX_CONCEAL_def)
  next
    case False
    then have "int n - int m - 1 = int (n - m - 1)" by simp
    then show ?thesis using False unfolding classify_def Let_def option.case d
      by (auto simp: MAX_CONCEAL_def)
  qed
qed

lemma hears_numbered:
  assumes "\<forall>(n, payload) \<in> set ns. base \<le> n \<and> n < base + 2 ^ 31"
    "\<forall>m. latest = Some m \<longrightarrow> base \<le> m \<and> m < base + 2 ^ 31"
  shows "fst (foldl hear (l, map_option (\<lambda>m. word_of_nat m + 1) latest)
      (map (\<lambda>(n, payload). (word_of_nat n, payload)) ns)) = l @ heard latest ns"
  using assms
proof (induction latest ns arbitrary: l rule: heard.induct)
  case (3 m n payload rest)
  have c: "classify (Some (word_of_nat m + 1)) (word_of_nat n) =
      (if n \<le> m then Drop_packet else Play (if n - m - 1 \<le> 5 then word_of_nat (n - m - 1) else 0))"
    by (rule classify_numbered [of base]) (use 3(3,4) in auto)
  have small: "unat (word_of_nat (n - m - 1) :: u32) = n - m - 1" if "n - m - 1 \<le> 5"
    using that by (simp add: unsigned_of_nat take_bit_nat_eq_self)
  show ?case
  proof (cases "n \<le> m")
    case True
    then show ?thesis using 3(1) [OF True, of l] 3(3,4) c by (simp add: hear_def)
  next
    case False
    have "hear (l, Some (word_of_nat m + 1)) (word_of_nat n, payload)
        = (l @ (if n - m - 1 \<le> 5 then replicate (n - m - 1) [] else []) @ [payload], Some (word_of_nat n + 1))"
      using c False small by (simp add: hear_def)
    then show ?thesis using 3(2) [OF False] 3(3,4) False by simp
  qed
qed (simp_all add: hear_def classify_def)

section \<open>One packet and the table\<close>

definition slots :: "shared \<Rightarrow> u32 set" where
  "slots sh = set (map sk_ssrc (sh_speakers sh))"

definition same_streams :: "shared \<Rightarrow> shared \<Rightarrow> bool" where
  "same_streams sh sh' \<longleftrightarrow> map sk_ssrc (sh_speakers sh') = map sk_ssrc (sh_speakers sh)
     \<and> sh_deafened sh' = sh_deafened sh \<and> sh_stop sh' = sh_stop sh"

lemma same_streamsD:
  assumes "same_streams sh sh'"
  shows "slots sh' = slots sh" "length (sh_speakers sh') = length (sh_speakers sh)"
    "sh_deafened sh' = sh_deafened sh" "sh_stop sh' = sh_stop sh"
  using assms map_eq_imp_length_eq unfolding same_streams_def slots_def by metis+

lemma same_streams_trans: "same_streams a b \<Longrightarrow> same_streams b c \<Longrightarrow> same_streams a c"
  by (simp add: same_streams_def)

lemma same_streams_update:
  assumes "sh_speakers sh' = (sh_speakers sh)[i := s]" "sh_deafened sh' = sh_deafened sh"
    "sh_stop sh' = sh_stop sh" "i < length (sh_speakers sh)" "sk_ssrc s = sk_ssrc (sh_speakers sh ! i)"
  shows "same_streams sh sh'"
  using assms by (simp add: same_streams_def map_update list_update_same_conv)

lemma slot_for_None:
  "slot_for k sh = (None, sh') \<Longrightarrow> sh' = sh \<and> k \<notin> slots sh \<and> 0 \<notin> slots sh"
  by (auto simp: slot_for_def slots_def position_None Let_def split: option.splits)

lemma slot_for_Some:
  assumes "slot_for k sh = (Some i, sh')"
  shows "i < length (sh_speakers sh) \<and> map sk_ssrc (sh_speakers sh') = (map sk_ssrc (sh_speakers sh))[i := k]
    \<and> (sk_ssrc (sh_speakers sh ! i) = k \<or> sk_ssrc (sh_speakers sh ! i) = 0) \<and> sh_deafened sh' = sh_deafened sh
    \<and> sh_stop sh' = sh_stop sh"
proof (cases "position (\<lambda>s. sk_ssrc s = k) (sh_speakers sh)")
  case None
  then show ?thesis
    using assms by (auto simp: slot_for_def Let_def map_update dest!: position_Some split: option.splits)
next
  case (Some j)
  then have "j = i" "sh' = sh" using assms by (simp_all add: slot_for_def)
  moreover have "map sk_ssrc (sh_speakers sh) ! j = k" using position_Some [OF Some] by simp
  ultimately show ?thesis using position_Some [OF Some] list_update_id [of "map sk_ssrc (sh_speakers sh)" i] by simp
qed

lemma slot_for_keeps:
  assumes "slot_for k sh = (Some i, sh')"
  shows "k \<in> slots sh'" "slots sh' \<subseteq> insert k (slots sh)" "s \<in> slots sh \<Longrightarrow> s \<noteq> 0 \<Longrightarrow> s \<in> slots sh'"
    "length (sh_speakers sh') = length (sh_speakers sh)"
proof -
  note s = slot_for_Some [OF assms]
  show "k \<in> slots sh'" "slots sh' \<subseteq> insert k (slots sh)"
    using s set_update_subset_insert [of "map sk_ssrc (sh_speakers sh)" i k]
    by (simp_all add: slots_def set_update_memI del: set_map)
  show "length (sh_speakers sh') = length (sh_speakers sh)" using s by (metis length_list_update length_map)
  show "s \<in> slots sh'" if held: "s \<in> slots sh" "s \<noteq> 0"
  proof -
    obtain j where j: "j < length (sh_speakers sh)" "map sk_ssrc (sh_speakers sh) ! j = s"
      using held(1) unfolding slots_def in_set_conv_nth by (metis length_map)
    show ?thesis
    proof (cases "j = i")
      case True
      then show ?thesis using s j held(2) set_update_memI [of i "map sk_ssrc (sh_speakers sh)" k]
        by (auto simp: slots_def simp del: set_map)
    next
      case False
      then have "map sk_ssrc (sh_speakers sh') ! j = s" using s j by simp
      then show ?thesis using s j unfolding slots_def by (metis length_list_update length_map nth_mem)
    qed
  qed
qed

text \<open>With at most fifteen other streams about there is a slot.\<close>

lemma slot_for_room:
  assumes "table_inv sh" "slots sh \<subseteq> insert 0 S" "finite S" "k \<in> S" "card S \<le> 16" "0 \<notin> S"
  shows "\<exists>i sh'. slot_for k sh = (Some i, sh')"
proof (rule ccontr)
  assume "\<not> ?thesis"
  then have "slot_for k sh = (None, snd (slot_for k sh))" by (metis not_None_eq prod.collapse)
  then have no: "k \<notin> slots sh" "0 \<notin> slots sh" using slot_for_None by blast+
  then have "filter (\<lambda>ssrc. ssrc \<noteq> 0) (map sk_ssrc (sh_speakers sh)) = map sk_ssrc (sh_speakers sh)"
    by (auto simp: slots_def filter_id_conv)
  then have "card (slots sh) = 16"
    using table_inv_distinct [OF assms(1)] assms(1)
    by (simp add: slots_def distinct_card table_inv_def MAX_SPEAKERS_def del: set_map)
  moreover have "slots sh \<subseteq> S - {k}" using assms(2) no by auto
  ultimately show False
    using assms(3-5) card_mono [of "S - {k}" "slots sh"] card_Diff_singleton [of k S]
      card_gt_0_iff [of S] by fastforce
qed

section \<open>The decoder's calls\<close>

definition room_for :: "'o incoming \<Rightarrow> nat" where
  "room_for inc = (if ic_stereo inc then 2 else 1)"

lemma decoder_lawsD:
  assumes "decoder_laws D log wide" "dl_decode D d payload buf = (frames, buf', d')"
  shows "length buf' = length buf" "wide d' = wide d" "log d' = log d @ [payload]"
    "frames = Some n \<Longrightarrow> n * (if wide d then 2 else 1) \<le> length buf"
  using assms unfolding decoder_laws_def by blast+

lemma push_stereo_fits:
  "frames * (if stereo then 2 else 1) \<le> length pcm \<Longrightarrow> \<exists>r'. push_stereo r pcm frames stereo = Some r'"
  by (auto simp: push_stereo_def split: if_splits)

lemma set_ring_same: "place < length (sh_speakers sh) \<Longrightarrow> same_streams sh (set_ring place r sh)"
  by (rule same_streams_update [where i = place and s = "(sh_speakers sh ! place)\<lparr>sk_ring := r\<rparr>"])
    (simp_all add: set_ring_def)

text \<open>What stays of a stream's decoder record while it decodes.\<close>

definition same_decoder :: "'o incoming \<Rightarrow> 'o incoming \<Rightarrow> bool" where
  "same_decoder a b \<longleftrightarrow> ic_ssrc b = ic_ssrc a \<and> ic_stereo b = ic_stereo a \<and> ic_expect b = ic_expect a"

lemma conceal_lost_runs:
  assumes "decoder_laws D log wide" "length pcm = 7680" "place < length (sh_speakers sh)"
    "ic_stereo inc = wide (ic_decoder inc)"
  shows "\<exists>inc' pcm' sh'. conceal_lost D place n inc pcm sh = Some (inc', pcm', sh')
    \<and> length pcm' = 7680 \<and> same_streams sh sh' \<and> same_decoder inc inc'
    \<and> wide (ic_decoder inc') = wide (ic_decoder inc)
    \<and> log (ic_decoder inc') = log (ic_decoder inc) @ replicate n []"
  using assms(2-)
proof (induction n arbitrary: inc pcm sh)
  case 0
  then show ?case by (simp add: same_streams_def same_decoder_def)
next
  case (Suc n)
  let ?room = "VOICE_FRAME_SAMPLES * (if ic_stereo inc then 2 else 1)"
  obtain frames buf d where dec: "dl_decode D (ic_decoder inc) [] (take ?room pcm) = (frames, buf, d)"
    by (metis prod_cases3)
  note laws = decoder_lawsD [OF assms(1) dec]
  have room: "?room \<le> length pcm" using Suc.prems(1) by (simp add: VOICE_FRAME_SAMPLES_eq)
  then have buf: "length (buf @ drop ?room pcm) = 7680" using laws(1) Suc.prems(1) by simp
  let ?inc = "inc\<lparr>ic_decoder := d\<rparr>"
  have inc: "ic_stereo ?inc = wide (ic_decoder ?inc)" using laws(2) Suc.prems(3) by simp
  show ?case
  proof (cases frames)
    case None
    then show ?thesis
      using Suc.IH [OF buf Suc.prems(2) inc] room dec laws
      by (auto simp: Let_def same_decoder_def replicate_append_same [symmetric])
  next
    case (Some k)
    have "k * (if ic_stereo inc then 2 else 1) \<le> length (buf @ drop ?room pcm)"
      using laws(1,4) Some Suc.prems(3) by (simp split: if_splits)
    then obtain r where r: "push_stereo (speaker_ring place sh) (buf @ drop ?room pcm) k (ic_stereo inc) = Some r"
      using push_stereo_fits by blast
    let ?sh = "(set_ring place r sh)\<lparr>sh_concealed := sh_concealed sh + 1\<rparr>"
    have same: "same_streams sh ?sh" using set_ring_same [OF Suc.prems(2), of r] by (simp add: same_streams_def)
    then have "place < length (sh_speakers ?sh)" using same_streamsD(2) Suc.prems(2) by metis
    from Suc.IH [OF buf this inc] show ?thesis
      using room dec laws Some r same_streams_trans [OF same]
      by (auto simp: Let_def same_decoder_def replicate_append_same [symmetric])
  qed
qed

lemma play_payload_runs:
  assumes "decoder_laws D log wide" "length pcm = 7680" "place < length (sh_speakers sh)"
    "ic_stereo inc = wide (ic_decoder inc)"
  shows "\<exists>inc' pcm' sh'. play_payload D place payload inc pcm sh = Some (inc', pcm', sh')
    \<and> length pcm' = 7680 \<and> same_streams sh sh' \<and> same_decoder inc inc'
    \<and> wide (ic_decoder inc') = wide (ic_decoder inc)
    \<and> log (ic_decoder inc') = log (ic_decoder inc) @ [payload]"
proof -
  obtain frames buf d where dec: "dl_decode D (ic_decoder inc) payload pcm = (frames, buf, d)"
    by (metis prod_cases3)
  note laws = decoder_lawsD [OF assms(1) dec]
  show ?thesis
  proof (cases frames)
    case None
    then show ?thesis using dec laws assms(2)
      by (simp add: play_payload_def same_streams_def same_decoder_def)
  next
    case (Some k)
    obtain r where r: "push_stereo (speaker_ring place sh) buf k (ic_stereo inc) = Some r"
      using push_stereo_fits laws(1,4) Some assms(4) by metis
    let ?sh = "set_ring place r sh"
    have same: "same_streams sh ?sh" by (rule set_ring_same [OF assms(3)])
    then have "place < length (sh_speakers ?sh)" using same_streamsD(2) assms(3) by metis
    then have "same_streams ?sh (?sh\<lparr>sh_speakers := (sh_speakers ?sh)[place := s]\<rparr>)"
      if "sk_ssrc s = sk_ssrc (sh_speakers ?sh ! place)" for s
      using that by (intro same_streams_update [where i = place and s = s]) simp_all
    then have "same_streams sh (?sh\<lparr>sh_speakers := (sh_speakers ?sh)[place := s]\<rparr>)"
      if "sk_ssrc s = sk_ssrc (sh_speakers ?sh ! place)" for s
      using that same_streams_trans [OF same] by blast
    then show ?thesis using dec laws assms(2) Some r
      by (simp add: play_payload_def Let_def same_decoder_def)
  qed
qed

section \<open>One packet of any stream\<close>

definition rx_ok :: "('o \<Rightarrow> bool) \<Rightarrow> 'o incoming list \<Rightarrow> bool" where
  "rx_ok wide ds \<longleftrightarrow> distinct (map ic_ssrc ds) \<and> (\<forall>inc \<in> set ds. ic_stereo inc = wide (ic_decoder inc))"

text \<open>What the decoder of a stream was given, and the number it expects: nothing before its first packet.\<close>

definition listening ::
  "('o \<Rightarrow> byte list list) \<Rightarrow> u32 \<Rightarrow> shared \<Rightarrow> 'o incoming list \<Rightarrow> byte list list \<times> u32 option \<Rightarrow> bool" where
  "listening log k sh ds le \<longleftrightarrow>
     (k \<notin> ic_ssrc ` set ds \<and> le = ([], None))
   \<or> (k \<in> slots sh \<and> (\<exists>inc \<in> set ds. ic_ssrc inc = k \<and> le = (log (ic_decoder inc), ic_expect inc)))"

lemma decoder_for_runs:
  assumes "decoder_laws D log wide" "rx_ok wide ds"
  obtains index ds' where "decoder_for D k stereo sh ds = Some (index, ds')"
    "index < length ds'" "ic_ssrc (ds' ! index) = k" "rx_ok wide ds'"
    "ds' ! index \<in> set ds \<or> k \<notin> ic_ssrc ` set ds \<and> log (ic_decoder (ds' ! index)) = [] \<and> ic_expect (ds' ! index) = None"
    "\<And>inc. ic_ssrc inc \<noteq> k \<Longrightarrow> inc \<in> set ds' \<Longrightarrow> inc \<in> set ds"
    "\<And>inc. ic_ssrc inc \<in> slots sh \<Longrightarrow> inc \<in> set ds \<Longrightarrow> inc \<in> set ds'"
proof (cases "position (\<lambda>d. ic_ssrc d = k) ds")
  case (Some i)
  then show ?thesis using position_Some [OF Some] that [of i ds] assms(2) by (simp add: decoder_for_def)
next
  case None
  obtain d where d: "dl_new D stereo = Some d" "log d = []" "wide d = stereo"
    using assms(1) unfolding decoder_laws_def by blast
  let ?kept = "filter (\<lambda>d. \<exists>s \<in> set (sh_speakers sh). sk_ssrc s = ic_ssrc d) ds"
  let ?new = "\<lparr>ic_ssrc = k, ic_decoder = d, ic_expect = None, ic_stereo = stereo\<rparr>"
  have new: "k \<notin> ic_ssrc ` set ds" using None by (auto simp: position_None)
  then have "rx_ok wide (?kept @ [?new])"
    using assms(2) d(3) by (auto simp: rx_ok_def distinct_map_filter)
  with None d(1,2) new show ?thesis
    by (intro that [of "length ?kept" "?kept @ [?new]"]) (auto simp: decoder_for_def Let_def slots_def)
qed

lemma rx_ok_update:
  assumes "rx_ok wide ds" "index < length ds" "ic_ssrc inc = ic_ssrc (ds ! index)"
    "ic_stereo inc = wide (ic_decoder inc)"
  shows "rx_ok wide (ds[index := inc])"
proof -
  have "map ic_ssrc (ds[index := inc]) = map ic_ssrc ds"
    using assms(2,3) list_update_id [of "map ic_ssrc ds" index] by (simp add: map_update)
  then show ?thesis using assms set_update_subset_insert [of ds index inc] by (auto simp: rx_ok_def)
qed

lemma listening_update:
  assumes "rx_ok wide ds" "index < length ds" "ic_ssrc inc = ic_ssrc (ds ! index)" "k \<noteq> ic_ssrc inc"
    "listening log k sh ds le"
  shows "listening log k sh (ds[index := inc]) le"
proof -
  have keep: "a \<in> set (ds[index := inc])" if a: "a \<in> set ds" "ic_ssrc a = k" for a
  proof -
    obtain j where "j < length ds" "ds ! j = a" using a(1) by (auto simp: in_set_conv_nth)
    moreover have "j \<noteq> index" using calculation a(2) assms(3,4) by auto
    ultimately show ?thesis by (metis length_list_update nth_list_update_neq nth_mem)
  qed
  moreover have "ic_ssrc ` set (ds[index := inc]) \<subseteq> ic_ssrc ` set ds"
    using set_update_subset_insert [of ds index inc] assms(2,3) nth_mem by fastforce
  ultimately show ?thesis using assms(5) unfolding listening_def by blast
qed

lemma listening_mono:
  "listening log k sh ds le \<Longrightarrow> (k \<in> slots sh \<Longrightarrow> k \<in> slots sh') \<Longrightarrow> listening log k sh' ds le"
  by (auto simp: listening_def)

lemma rx_audio_steps:
  assumes laws: "decoder_laws D log wide" and ok: "rx_ok wide (rx_decoders rx)" "length (rx_pcm rx) = 7680"
    and slot: "slot_for (ph_ssrc h) sh = (Some place, sh1)"
  shows "\<exists>sh' rx'. rx_audio D h payload stereo (sh, rx) = Some (Inr (sh', rx'))
    \<and> rx_ok wide (rx_decoders rx') \<and> length (rx_pcm rx') = 7680 \<and> same_streams sh1 sh'
    \<and> (\<forall>le. listening log (ph_ssrc h) sh (rx_decoders rx) le \<longrightarrow>
         listening log (ph_ssrc h) sh' (rx_decoders rx') (hear le (ph_seq h, payload)))
    \<and> (\<forall>s le. s \<noteq> ph_ssrc h \<longrightarrow> s \<noteq> 0 \<longrightarrow> listening log s sh (rx_decoders rx) le \<longrightarrow>
         listening log s sh' (rx_decoders rx') le)"
proof -
  let ?k = "ph_ssrc h"
  let ?ds = "rx_decoders rx"
  note grow = slot_for_keeps [OF slot]
  have place: "place < length (sh_speakers sh1)" using slot_for_Some [OF slot] grow(4) by simp
  obtain index ds where dec: "decoder_for D ?k stereo sh1 ?ds = Some (index, ds)"
    "index < length ds" "ic_ssrc (ds ! index) = ?k" "rx_ok wide ds"
    and fresh: "ds ! index \<in> set ?ds \<or> ?k \<notin> ic_ssrc ` set ?ds
        \<and> log (ic_decoder (ds ! index)) = [] \<and> ic_expect (ds ! index) = None"
    and older: "\<And>inc. ic_ssrc inc \<noteq> ?k \<Longrightarrow> inc \<in> set ds \<Longrightarrow> inc \<in> set ?ds"
    and keep: "\<And>inc. ic_ssrc inc \<in> slots sh1 \<Longrightarrow> inc \<in> set ?ds \<Longrightarrow> inc \<in> set ds"
    by (rule decoder_for_runs [OF laws ok(1)]) blast
  let ?inc = "ds ! index"
  have others: "listening log s sh1 ds le" if "s \<noteq> ?k" "s \<noteq> 0" "listening log s sh ?ds le" for s le
    using that older keep grow(3) [of s] by (fastforce simp: listening_def)
  have mine: "le = (log (ic_decoder ?inc), ic_expect ?inc)" if le: "listening log ?k sh ?ds le" for le
  proof -
    have one: "inc = ?inc" if "inc \<in> set ds" "ic_ssrc inc = ?k" for inc
      using that dec(2,3,4) nth_mem [OF dec(2)] by (metis distinct_map inj_on_def rx_ok_def)
    show ?thesis
    proof (cases "?k \<in> ic_ssrc ` set ?ds")
      case True
      then obtain inc where inc: "inc \<in> set ?ds" "ic_ssrc inc = ?k"
        "le = (log (ic_decoder inc), ic_expect inc)"
        using le by (auto simp: listening_def)
      then show ?thesis using one [of inc] keep [of inc] grow(1) by simp
    next
      case False
      then have "?inc \<notin> set ?ds" using dec(3) by force
      then show ?thesis using False le fresh by (force simp: listening_def)
    qed
  qed
  have here: "?inc \<in> set ds" using dec(2) by simp
  show ?thesis
  proof (cases "classify (ic_expect ?inc) (ph_seq h)")
    case Drop_packet
    have "listening log ?k sh1 ds (hear le (ph_seq h, payload))" if "listening log ?k sh ?ds le" for le
      using mine [OF that] Drop_packet here dec(3) grow(1) by (auto simp: listening_def hear_def)
    then show ?thesis using slot dec ok(2) Drop_packet others
      by (simp add: rx_audio_def Let_def same_streams_def)
  next
    case (Play n)
    have w: "ic_stereo ?inc = wide (ic_decoder ?inc)" using dec(4) here by (simp add: rx_ok_def)
    obtain inc2 pcm2 sh2 where c: "conceal_lost D place (unat n) ?inc (rx_pcm rx) sh1 = Some (inc2, pcm2, sh2)"
      "length pcm2 = 7680" "same_streams sh1 sh2" "same_decoder ?inc inc2"
      "wide (ic_decoder inc2) = wide (ic_decoder ?inc)"
      "log (ic_decoder inc2) = log (ic_decoder ?inc) @ replicate (unat n) []"
      using conceal_lost_runs [OF laws ok(2) place w] by blast
    let ?inc2 = "inc2\<lparr>ic_expect := Some (ph_seq h + 1)\<rparr>"
    have "place < length (sh_speakers sh2)" using place same_streamsD(2) [OF c(3)] by simp
    moreover have "ic_stereo ?inc2 = wide (ic_decoder ?inc2)" using c(4,5) w by (simp add: same_decoder_def)
    ultimately obtain inc3 pcm3 sh3 where p: "play_payload D place payload ?inc2 pcm2 sh2 = Some (inc3, pcm3, sh3)"
      "length pcm3 = 7680" "same_streams sh2 sh3" "same_decoder ?inc2 inc3"
      "wide (ic_decoder inc3) = wide (ic_decoder ?inc2)"
      "log (ic_decoder inc3) = log (ic_decoder ?inc2) @ [payload]"
      using play_payload_runs [OF laws c(2), of place sh2 ?inc2 payload] by blast
    have same: "same_streams sh1 sh3" by (rule same_streams_trans [OF c(3) p(3)])
    have inc3: "ic_ssrc inc3 = ic_ssrc ?inc" "ic_stereo inc3 = wide (ic_decoder inc3)"
      "ic_expect inc3 = Some (ph_seq h + 1)"
      using c(4,5) p(4,5) w by (simp_all add: same_decoder_def)
    note ok' = rx_ok_update [OF dec(4,2) inc3(1,2)]
    have "listening log s sh3 (ds[index := inc3]) le" if "s \<noteq> ?k" "s \<noteq> 0" "listening log s sh ?ds le" for s le
      using listening_update [OF dec(4,2) inc3(1) _ others [OF that]] that(1) inc3(1) dec(3)
        listening_mono same_streamsD(1) [OF same] by metis
    moreover have "listening log ?k sh3 (ds[index := inc3]) (hear le (ph_seq h, payload))"
      if "listening log ?k sh ?ds le" for le
      using mine [OF that] Play inc3 dec(2,3) grow(1) same_streamsD(1) [OF same] c(6) p(6)
        set_update_memI [OF dec(2), of inc3]
      by (auto simp: listening_def hear_def)
    moreover have "rx_audio D h payload stereo (sh, rx)
        = Some (Inr (sh3, rx\<lparr>rx_decoders := ds[index := inc3], rx_pcm := pcm3\<rparr>))"
      using slot dec Play c p by (simp add: rx_audio_def Let_def)
    ultimately show ?thesis using ok' p(2) same by auto
  qed
qed

section \<open>A run of packets\<close>

text \<open>The receive thread with at most sixteen streams \<open>S\<close> about.\<close>

definition receiving :: "('o \<Rightarrow> bool) \<Rightarrow> u32 set \<Rightarrow> shared \<times> 'o rx \<Rightarrow> bool" where
  "receiving wide S st \<longleftrightarrow> (case st of (sh, rx) \<Rightarrow>
     table_inv sh \<and> \<not> sh_deafened sh \<and> \<not> sh_stop sh \<and> slots sh \<subseteq> insert 0 S \<and> rx_ok wide (rx_decoders rx)
     \<and> length (rx_pcm rx) = 7680)"

lemma audio_of_Cons: "audio_of s (p # packets) = audio_of s [p] @ audio_of s packets"
  by (auto simp: audio_of_def)

lemma audio_streams_Cons:
  "audio_streams ((now, h, payload) # packets) =
    (if is_audio (ph_kind h) then insert (ph_ssrc h) (audio_streams packets) else audio_streams packets)"
  by (simp add: audio_streams_def)

lemma audio_of_streams: "audio_of k packets \<noteq> [] \<Longrightarrow> k \<in> audio_streams packets"
  by (force simp: audio_of_def audio_streams_def filter_empty_conv)

lemma rx_packet_steps:
  assumes laws: "decoder_laws D log wide" and S: "finite S" "card S \<le> 16" "0 \<notin> S"
    and r: "receiving wide S (sh, rx)" and mem: "is_audio (ph_kind h) \<Longrightarrow> ph_ssrc h \<in> S"
  shows "\<exists>sh' rx'. rx_packet D own now h payload (sh, rx) = Some (Inr (sh', rx')) \<and> receiving wide S (sh', rx')
    \<and> (\<forall>s le. s \<noteq> own \<longrightarrow> s \<noteq> 0 \<longrightarrow> listening log s sh (rx_decoders rx) le \<longrightarrow>
        listening log s sh' (rx_decoders rx') (foldl hear le (audio_of s [(now, h, payload)])))"
proof (cases "is_audio (ph_kind h) \<and> ph_ssrc h \<noteq> own")
  case False
  then have quiet: "audio_of s [(now, h, payload)] = []" if "s \<noteq> own" for s
    using that by (auto simp: audio_of_def)
  show ?thesis using False r quiet
    by (auto simp: rx_packet_def receiving_def is_audio_def listening_def slots_def table_inv_def)
next
  case True
  let ?sh = "sh\<lparr>sh_packets_in := sh_packets_in sh + 1\<rparr>"
  have r': "table_inv ?sh" "slots ?sh \<subseteq> insert 0 S" "\<not> sh_deafened ?sh" "rx_ok wide (rx_decoders rx)"
    "length (rx_pcm rx) = 7680" "\<not> sh_stop ?sh"
    using r by (simp_all add: receiving_def table_inv_def slots_def)
  obtain place sh1 where slot: "slot_for (ph_ssrc h) ?sh = (Some place, sh1)"
    using slot_for_room [OF r'(1,2) S(1) _ S(2,3)] mem True by blast
  have eq: "rx_packet D own now h payload (sh, rx) = rx_audio D h payload (ph_kind h = DesktopAudio) (?sh, rx)"
    using True r by (simp add: rx_packet_def Let_def receiving_def is_audio_def)
  obtain sh' rx' where a: "rx_audio D h payload (ph_kind h = DesktopAudio) (?sh, rx) = Some (Inr (sh', rx'))"
    "rx_ok wide (rx_decoders rx')" "length (rx_pcm rx') = 7680" "same_streams sh1 sh'"
    "\<And>le. listening log (ph_ssrc h) ?sh (rx_decoders rx) le \<Longrightarrow>
       listening log (ph_ssrc h) sh' (rx_decoders rx') (hear le (ph_seq h, payload))"
    "\<And>s le. s \<noteq> ph_ssrc h \<Longrightarrow> s \<noteq> 0 \<Longrightarrow> listening log s ?sh (rx_decoders rx) le \<Longrightarrow>
       listening log s sh' (rx_decoders rx') le"
    using rx_audio_steps [OF laws r'(4,5) slot] by blast
  have "\<not> sh_deafened sh'" "\<not> sh_stop sh'"
    using slot_for_Some [OF slot] same_streamsD(3,4) [OF a(4)] r'(3,6) by simp_all
  moreover have "table_inv sh'" using rx_audio_waited [OF a(1) r'(1)] by simp
  moreover have "slots sh' \<subseteq> insert 0 S"
    using same_streamsD(1) [OF a(4)] slot_for_keeps(2) [OF slot] r'(2) mem True by blast
  ultimately have "receiving wide S (sh', rx')" using a(2,3) by (simp add: receiving_def)
  moreover have "listening log s sh' (rx_decoders rx') (foldl hear le (audio_of s [(now, h, payload)]))"
    if "s \<noteq> 0" "listening log s sh (rx_decoders rx) le" for s le
    using that a(5,6) True by (auto simp: audio_of_def listening_def slots_def)
  ultimately show ?thesis using eq a(1) by auto
qed

lemma rx_packets_run:
  assumes "decoder_laws D log wide" "finite S" "card S \<le> 16" "0 \<notin> S" "receiving wide S (sh, rx)"
    "audio_streams packets \<subseteq> S"
  shows "\<exists>sh' rx'. rx_packets D own packets (sh, rx) = Some (Inr (sh', rx')) \<and> receiving wide S (sh', rx')
    \<and> (\<forall>s le. s \<noteq> own \<longrightarrow> s \<noteq> 0 \<longrightarrow> listening log s sh (rx_decoders rx) le \<longrightarrow>
        listening log s sh' (rx_decoders rx') (foldl hear le (audio_of s packets)))"
  using assms(5,6)
proof (induction packets arbitrary: sh rx)
  case Nil
  then show ?case by (simp add: audio_of_def)
next
  case (Cons p packets)
  obtain now h payload where p: "p = (now, h, payload)" by (metis prod_cases3)
  have "is_audio (ph_kind h) \<Longrightarrow> ph_ssrc h \<in> S" "audio_streams packets \<subseteq> S"
    using Cons.prems(2) by (simp_all add: audio_streams_Cons p split: if_splits)
  note packets = this
  obtain sh1 rx1 where one: "rx_packet D own now h payload (sh, rx) = Some (Inr (sh1, rx1))"
    "receiving wide S (sh1, rx1)"
    "\<And>s le. s \<noteq> own \<Longrightarrow> s \<noteq> 0 \<Longrightarrow> listening log s sh (rx_decoders rx) le \<Longrightarrow>
        listening log s sh1 (rx_decoders rx1) (foldl hear le (audio_of s [(now, h, payload)]))"
    using rx_packet_steps [OF assms(1-4) Cons.prems(1) packets(1), of own now payload] by blast
  show ?case
    using Cons.IH [OF one(2) packets(2)] one(1,3)
    by (simp add: p audio_of_Cons [of _ "(now, h, payload)" packets] del: split_paired_All) blast
qed

lemma receiving_start:
  "\<not> vs_deafened s \<Longrightarrow> receiving wide S (shared_new s, rx_start now)"
  using table_inv_new
  by (simp add: receiving_def rx_ok_def rx_start_def VOICE_FRAME_SAMPLES_eq)
    (simp add: shared_new_def slots_def free_speaker_def MAX_SPEAKERS_def)

lemma heard_not_empty: "numbered \<noteq> [] \<Longrightarrow> heard None numbered \<noteq> []"
  by (cases numbered) auto

text \<open>
  Claim C39. Whatever order the network delivers the packets of a call in, with repetitions and
  losses, the receive thread does not stop and decodes of a stream exactly the packets newer
  than every one before them, in that order, with one concealed packet in front for each missing
  one if there are at most five: nothing is played twice or backwards. This holds for any
  decoder that keeps to its buffer, for a member who is not deafened, with at most sixteen streams in
  the call and a stream's
  sequence numbers within half of their range.
\<close>

theorem streams_never_play_backwards:
  assumes "decoder_laws D log wide" "\<not> vs_deafened s" "card (audio_streams packets) \<le> 16"
    "0 \<notin> audio_streams packets" "stream \<noteq> own" "numbered \<noteq> []"
    "audio_of stream packets = map (\<lambda>(n, payload). (word_of_nat n, payload)) numbered"
    "\<forall>(n, payload) \<in> set numbered. base \<le> n \<and> n < base + 2 ^ 31"
  shows "\<exists>sh rx. rx_packets D own packets (shared_new s, rx_start now) = Some (Inr (sh, rx))
    \<and> distinct (map ic_ssrc (rx_decoders rx))
    \<and> (\<exists>inc \<in> set (rx_decoders rx). ic_ssrc inc = stream \<and> log (ic_decoder inc) = heard None numbered)"
proof -
  have fin: "finite (audio_streams packets)" by (simp add: audio_streams_def)
  have "stream \<in> audio_streams packets" using assms(6,7) audio_of_streams [of stream packets] by simp
  then have "stream \<noteq> 0" using assms(4) by auto
  moreover have "listening log stream (shared_new s) (rx_decoders (rx_start now)) ([], None)"
    by (simp add: listening_def rx_start_def)
  ultimately obtain sh rx where run: "rx_packets D own packets (shared_new s, rx_start now) = Some (Inr (sh, rx))"
    "receiving wide (audio_streams packets) (sh, rx)"
    "listening log stream sh (rx_decoders rx) (foldl hear ([], None) (audio_of stream packets))"
    using rx_packets_run [OF assms(1) fin assms(3,4) receiving_start [OF assms(2)], of packets own now] assms(5) by blast
  have "fst (foldl hear ([], None) (audio_of stream packets)) = heard None numbered"
    using hears_numbered [OF assms(8), of None "[]"] assms(7) by simp
  then show ?thesis using run heard_not_empty [OF assms(6)]
    by (auto simp: receiving_def rx_ok_def listening_def)
qed

section \<open>An example call\<close>

text \<open>A decoder that fills its buffer and remembers its channels and what it was given.\<close>

definition filling_decoder :: "(bool \<times> byte list list) decoder_lib" where
  "filling_decoder =
     \<lparr>dl_new = \<lambda>stereo. Some (stereo, []),
      dl_decode = \<lambda>(wide, given) payload buf.
        (Some (length buf div (if wide then 2 else 1)), buf, (wide, given @ [payload]))\<rparr>"

lemma filling_decoder_laws: "decoder_laws filling_decoder snd fst"
  by (auto simp: decoder_laws_def filling_decoder_def)

definition call_packets :: "rx_arrival list" where
  "call_packets = map (\<lambda>(ssrc, seq, payload).
      (0, \<lparr>ph_kind = media_kind.Voice, ph_ssrc = ssrc, ph_seq = seq, ph_timestamp = 0\<rparr>, payload))
    [(7, 0xFFFFFFFF, [10]), (8, 3, [3]), (7, 1, [12]), (7, 0, [11]), (8, 3, [3]), (7, 1, [12]), (7, 8, [19])]"

lemma call_packets_streams: "audio_streams call_packets = {7, 8}"
  by (auto simp: audio_streams_def call_packets_def is_audio_def)

theorem streams_never_play_backwards_witness:
  "\<exists>sh rx. rx_packets filling_decoder 1 call_packets (shared_new default_voice, rx_start 0) = Some (Inr (sh, rx))
    \<and> distinct (map ic_ssrc (rx_decoders rx))
    \<and> (\<exists>inc \<in> set (rx_decoders rx). ic_ssrc inc = 7 \<and> snd (ic_decoder inc) = [[10], [], [12], [19]])"
proof -
  have "audio_of 7 call_packets = map (\<lambda>(n, payload). (word_of_nat n, payload))
      [(4294967295, [10]), (4294967297, [12]), (4294967296, [11]), (4294967297, [12]), (4294967304, [19])]"
    by (simp add: audio_of_def call_packets_def is_audio_def)
  from streams_never_play_backwards [OF filling_decoder_laws _ _ _ _ _ this,
      of default_voice 1 4294967295 0]
  show ?thesis by (simp add: call_packets_streams default_voice_def)
qed

text \<open>
  With the operations of the threads one at a time, the speaker table keeps its sixteen slots, no
  stream has two of them, every ring is sound; and a slot that a step primes, or gives to another
  stream and primes, holds at least the jitter buffer's samples. (The last part is lost when the
  accesses of two threads interleave: \<open>SpeakerThreads.a_late_clear_empties_a_ready_slot\<close>.)
\<close>

theorem speakers_wait_for_their_buffer:
  assumes "(voice_step D L)\<^sup>*\<^sup>* (shared_new s) sh" "voice_step D L sh sh'"
  shows "length (sh_speakers sh') = MAX_SPEAKERS
    \<and> distinct (filter (\<lambda>ssrc. ssrc \<noteq> 0) (map sk_ssrc (sh_speakers sh')))
    \<and> (\<forall>s \<in> set (sh_speakers sh'). ring_inv (sk_ring s) \<and> ring_capacity (sk_ring s) = 131071)
    \<and> (\<forall>i < MAX_SPEAKERS. let before = sh_speakers sh ! i; after = sh_speakers sh' ! i in
         sk_ssrc after \<noteq> 0 \<and> sk_primed after \<and> (sk_ssrc before \<noteq> sk_ssrc after \<or> \<not> sk_primed before)
         \<longrightarrow> sh_prime_samples sh \<le> ring_len (sk_ring after))"
proof -
  have "table_inv sh" using voice.run_keeps [OF assms(1)] table_inv_new by blast
  note w = voice_step_waited [OF assms(2) this]
  show ?thesis
    using w table_inv_distinct [of sh'] by (auto simp: table_inv_def waited_def MAX_SPEAKERS_def Let_def)
qed

lemma one_packet_primes:
  "\<exists>sh rx. rx_packet filling_decoder 1 0 (fst (snd (hd call_packets))) [10] (shared_new default_voice, rx_start 0)
     = Some (Inr (sh, rx)) \<and> sk_primed (sh_speakers sh ! 0)"
proof -
  let ?r = "clear (ring_new PLAYBACK_RING)"
  have inv: "ring_inv ?r" "contents ?r = []" "ring_capacity ?r = 131071"
    using playback_ring clear_spec by simp_all
  let ?out = "widen (take 7680 (replicate 7680 0))"
  obtain n r where push: "push ?r ?out = (n, r)" by fastforce
  have "length ?out = 15360" by (simp add: widen_def length_concat comp_def sum_list_replicate)
  then have "ring_len r = 15360" using push_spec [OF inv(1) push] inv by (simp add: contents_length [symmetric])
  then have n: "5760 \<le> ring_len r" by simp
  let ?S = "(shared_new default_voice)\<lparr>sh_packets_in := 1\<rparr>"
  have sp: "sh_speakers (shared_new default_voice) = free_speaker # replicate 15 free_speaker"
    by (simp add: shared_new_def MAX_SPEAKERS_def numeral_eq_Suc)
  have free: "sk_ssrc free_speaker = 0" "sk_ring free_speaker = ring_new PLAYBACK_RING"
    "free_speaker\<lparr>sk_ring := ?r, sk_primed := False, sk_user := 0, sk_ssrc := 7\<rparr>
      = free_speaker\<lparr>sk_ring := ?r, sk_ssrc := 7\<rparr>"
    by (simp_all add: free_speaker_def)
  have own: "hget (sh_owners (shared_new default_voice)) 7 = None" by (simp add: shared_new_def)
  have "position (\<lambda>s. sk_ssrc s = 7) (replicate 15 free_speaker) = None"
    by (simp add: position_None free)
  with free(1) have slot: "slot_for 7 ?S = (Some 0, ?S\<lparr>sh_speakers :=
      (free_speaker\<lparr>sk_ring := ?r, sk_ssrc := 7\<rparr>) # replicate 15 free_speaker\<rparr>)"
    by (simp add: slot_for_def sp free own)
  have S: "\<not> sh_deafened ?S" "sh_prime_samples ?S = 5760" "sh_packets_in (shared_new default_voice) = 0"
    by (simp_all add: shared_new_def default_voice_def prime_samples_def VOICE_SAMPLE_RATE_def u32_clamp_def)
  have dec: "decoder_for filling_decoder 7 False sh [] = Some (0, [\<lparr>ic_ssrc = 7, ic_decoder = (False, []), ic_expect = None, ic_stereo = False\<rparr>])" for sh
    by (simp add: decoder_for_def filling_decoder_def)
  have put: "push_stereo ?r (replicate 7680 0) 7680 False = Some r"
    using push by (simp add: push_stereo_def)
  have play: "\<exists>inc' sh'. play_payload filling_decoder 0 [10] inc (replicate 7680 0) sh = Some (inc', replicate 7680 0, sh')
      \<and> sk_primed (sh_speakers sh' ! 0)"
    if "ic_decoder inc = (False, [])" "\<not> ic_stereo inc" "sh_speakers sh = s # rest" "sk_ring s = ?r" "sh_prime_samples sh = 5760"
    for inc sh s rest
    using that put n by (simp add: play_payload_def Let_def filling_decoder_def speaker_ring_def set_ring_def)
  have S': "shared_new default_voice\<lparr>sh_packets_in := sh_packets_in (shared_new default_voice) + 1\<rparr> = ?S"
    by (simp add: S)
  obtain inc' sh' where p: "play_payload filling_decoder 0 [10]
      \<lparr>ic_ssrc = 7, ic_decoder = (False, []), ic_expect = Some 4294967296, ic_stereo = False\<rparr> (replicate 7680 0)
      (?S\<lparr>sh_speakers := (free_speaker\<lparr>sk_ring := ?r, sk_ssrc := 7\<rparr>) # replicate 15 free_speaker\<rparr>)
      = Some (inc', replicate 7680 0, sh')" "sk_primed (sh_speakers sh' ! 0)"
    using play [of "\<lparr>ic_ssrc = 7, ic_decoder = (False, []), ic_expect = Some 4294967296, ic_stereo = False\<rparr>"
        "?S\<lparr>sh_speakers := (free_speaker\<lparr>sk_ring := ?r, sk_ssrc := 7\<rparr>) # replicate 15 free_speaker\<rparr>"] S by auto
  have a: "rx_audio filling_decoder (fst (snd (hd call_packets))) [10] False (?S, rx_start 0)
      = Some (Inr (sh', (rx_start 0)\<lparr>rx_decoders := [inc'], rx_pcm := replicate 7680 0\<rparr>))"
    using slot dec p(1)
    by (simp add: rx_audio_def Let_def classify_def call_packets_def rx_start_def VOICE_FRAME_SAMPLES_eq)
  have "rx_packet filling_decoder 1 0 (fst (snd (hd call_packets))) [10] (shared_new default_voice, rx_start 0)
      = rx_audio filling_decoder (fst (snd (hd call_packets))) [10] False (?S, rx_start 0)"
    using S by (simp add: rx_packet_def Let_def S' call_packets_def)
  then show ?thesis using a p(2) by auto
qed

theorem speakers_wait_for_their_buffer_witness:
  "\<exists>sh rx. rx_packet filling_decoder 1 0 (fst (snd (hd call_packets))) [10] (shared_new default_voice, rx_start 0)
       = Some (Inr (sh, rx))
     \<and> sk_primed (sh_speakers sh ! 0)
     \<and> distinct (filter (\<lambda>ssrc. ssrc \<noteq> 0) (map sk_ssrc (sh_speakers sh)))"
proof -
  obtain sh rx where one: "rx_packet filling_decoder 1 0 (fst (snd (hd call_packets))) [10]
      (shared_new default_voice, rx_start 0) = Some (Inr (sh, rx))" "sk_primed (sh_speakers sh ! 0)"
    using one_packet_primes by blast
  from speakers_wait_for_their_buffer [OF rtranclp.rtrancl_refl step_packet [OF one(1)]] one
  show ?thesis by blast
qed

end
