(* ===== verification/Journey.thy ===== *)
theory Journey
  imports Transport Relay
begin

text \<open>
  A stream on its way: what one member's transport seals, the relay passes on to every member
  that should get it, for voice and for pictures.
\<close>

section \<open>Through the relay\<close>

text \<open>
  One member sends the stream \<open>ssrc\<close> from \<open>a\<close>, another in the same channel, who should get
  media of this kind from the first, has registered \<open>b\<close>.
\<close>

definition in_call :: "hub_state \<Rightarrow> media_kind \<Rightarrow> u32 \<Rightarrow> socket_addr \<Rightarrow> socket_addr \<Rightarrow> bool" where
  "in_call hub kind ssrc a b \<longleftrightarrow> hmap_ok (members hub)
   \<and> (\<exists>speaker m listener l.
        hget (by_ssrc hub) ssrc = Some speaker \<and> hget (members hub) speaker = Some m
      \<and> mb_addr m = Some a \<and> ssrc = (if is_screen kind then mb_screen_ssrc m else mb_voice_ssrc m)
      \<and> hget (members hub) listener = Some l \<and> listener \<noteq> speaker \<and> mb_channel l = mb_channel m
      \<and> wants l speaker kind \<and> mb_addr l = Some b)"

lemma in_call_kind: "is_screen k = is_screen k' \<Longrightarrow> in_call hub k = in_call hub k'"
  by (simp add: in_call_def wants_def fun_eq_iff)

lemma route_in_call:
  assumes "in_call hub (ph_kind h) (ph_ssrc h) a b" "ph_kind h \<noteq> Keepalive"
  obtains targets where "route hub h a = Forward targets" "b \<in> set targets"
proof -
  obtain speaker m listener l where c: "hget (by_ssrc hub) (ph_ssrc h) = Some speaker"
    "hget (members hub) speaker = Some m" "mb_addr m = Some a"
    "ph_ssrc h = (if is_screen (ph_kind h) then mb_screen_ssrc m else mb_voice_ssrc m)"
    "hget (members hub) listener = Some l" "listener \<noteq> speaker" "mb_channel l = mb_channel m"
    "wants l speaker (ph_kind h)" "mb_addr l = Some b" and ok: "hmap_ok (members hub)"
    using assms(1) by (auto simp: in_call_def)
  let ?t = "List.map_filter (\<lambda>(_, peer). mb_addr peer)
       (filter (\<lambda>(other, peer). other \<noteq> speaker \<and> mb_channel peer = mb_channel m
          \<and> wants peer speaker (ph_kind h)) (members hub))"
  have "route hub h a = Forward ?t"
    using c assms(2) by (auto simp: route_def Let_def wants_def)
  moreover have "b \<in> set ?t" unfolding map_filter_members [OF ok] using c(5-9) by auto
  ultimately show ?thesis using that by blast
qed

lemma relay_passes:
  assumes laws: "aead_laws A" "length p \<le> MAX_PAYLOAD"
    and call: "in_call hub kind (ph_ssrc h) a b" and h: "ph_kind h = Keepalive \<or> is_screen (ph_kind h) = is_screen kind"
    and r: "relay_datagram A ok now (hub, s) (sealed A key h p) a = ((hub', s'), out)"
  shows "in_call hub' kind (ph_ssrc h) a b \<and> (ph_kind h \<noteq> Keepalive \<longrightarrow> (b, sealed A key h p) \<in> set out)"
proof -
  note sealed = sealed_opens [OF laws, of key h]
  have len: "HEADER_LEN \<le> length (sealed A key h p)" "take (MAX_DATAGRAM + 1) (sealed A key h p) = sealed A key h p"
    using sealed(3,4) by auto
  show ?thesis
  proof (cases "ph_kind h = Keepalive")
    case False
    then have "in_call hub (ph_kind h) (ph_ssrc h) a b" using call h in_call_kind by metis
    then obtain targets where "route hub h a = Forward targets" "b \<in> set targets"
      using route_in_call False by blast
    then show ?thesis
      using r call len sealed(2,4) forward_all_sent [of ok "sealed A key h p" targets "count_received s"]
      by (auto simp: relay_datagram_def handle_datagram_def Let_def split: prod.splits)
  next
    case True
    obtain speaker m where m: "hget (by_ssrc hub) (ph_ssrc h) = Some speaker" "hget (members hub) speaker = Some m"
      "mb_addr m = Some a"
      using call by (auto simp: in_call_def)
    have "hub' = hub \<or> hub' = hub_bind now hub speaker a"
      using r True m sealed(2) by (auto simp: relay_datagram_def handle_datagram_def Let_def route_def split: if_splits sum.splits option.splits prod.splits)
    moreover have "in_call (hub_bind now hub speaker a) kind (ph_ssrc h) a b"
      using call m by (auto simp: in_call_def hub_bind_def bind_media_address_def hmap_simps)
    ultimately show ?thesis using True call by auto
  qed
qed

lemma serve_passes:
  assumes laws: "aead_laws A" and hs: "\<forall>(h, p) \<in> set hps. length p \<le> MAX_PAYLOAD \<and> ph_ssrc h = ssrc
      \<and> (ph_kind h = Keepalive \<or> is_screen (ph_kind h) = is_screen kind)"
    and call: "in_call hub kind ssrc a b"
    and r: "serve A ok now (hub, s) (map (\<lambda>(h, p). Datagram (sealed A key h p) a) hps) = (e, (hub', s'), sent)"
  shows "\<forall>(h, p) \<in> set hps. ph_kind h \<noteq> Keepalive \<longrightarrow> (b, sealed A key h p) \<in> set sent"
  using hs call r
proof (induction hps arbitrary: hub s e hub' s' sent)
  case (Cons hp hps)
  obtain h p where hp: "hp = (h, p)" by fastforce
  obtain hub1 s1 out where one: "relay_datagram A ok now (hub, s) (sealed A key h p) a = ((hub1, s1), out)"
    by (metis prod.exhaust)
  obtain e2 hub2 s2 sent2 where more_sent: "serve A ok now (hub1, s1) (map (\<lambda>(h, p). Datagram (sealed A key h p) a) hps)
      = (e2, (hub2, s2), sent2)"
    by (metis prod.exhaust)
  have k: "length p \<le> MAX_PAYLOAD" "ph_ssrc h = ssrc" "ph_kind h = Keepalive \<or> is_screen (ph_kind h) = is_screen kind"
    using Cons.prems(1) hp by auto
  note pass = relay_passes [OF laws k(1) _ k(3) one, unfolded k(2), OF Cons.prems(2)]
  have "sent = out @ sent2"
    using Cons.prems(3) one more_sent by (simp add: hp serve_def relay_datagram_def)
  moreover have "\<forall>(h, p) \<in> set hps. ph_kind h \<noteq> Keepalive \<longrightarrow> (b, sealed A key h p) \<in> set sent2"
    using Cons.IH [OF _ _ more_sent] Cons.prems(1) pass by simp
  ultimately show ?case using pass by (auto simp: hp)
qed simp

end
