(* ===== verification/VoiceCall.thy ===== *)
theory VoiceCall
  imports VoiceStreams Journey
begin

text \<open>
  A voice call from end to end: what the send thread of one member seals, the relay passes on,
  and the receive thread of another member opens and decodes.
\<close>

section \<open>What the send thread sends\<close>

text \<open>The encoder keeps a packet within a datagram; \<open>ok\<close> sends are what the socket took.\<close>

definition encoder_laws :: "('d, 'e) tx_libs \<Rightarrow> bool" where
  "encoder_laws L \<longleftrightarrow> (\<forall>e chunk p e'. tl_encode L e chunk = (Some p, e') \<longrightarrow> length p \<le> MAX_PAYLOAD)"

text \<open>The voice packets among datagrams, opened.\<close>

definition voice_sent :: "aead \<Rightarrow> session_key \<Rightarrow> wire_out list \<Rightarrow> (packet_header \<times> byte list) list" where
  "voice_sent A key out = List.map_filter (\<lambda>(_, d). case open_datagram A key d of
       Inr (h, p) \<Rightarrow> if ph_kind h = media_kind.Voice then Some (h, p) else None | Inl _ \<Rightarrow> None) out"

text \<open>
  Packets numbered from \<open>n\<close> on without a gap, each stamped with a later frame than the one
  before: after \<open>k\<close> frames the last had the number \<open>n\<close>, at the end \<open>k'\<close> and \<open>n'\<close>.
\<close>

fun in_order :: "u32 \<Rightarrow> nat \<Rightarrow> nat \<Rightarrow> (packet_header \<times> byte list) list \<Rightarrow> nat \<Rightarrow> nat \<Rightarrow> bool" where
  "in_order ssrc n k [] n' k' \<longleftrightarrow> n' = n \<and> k \<le> k'"
| "in_order ssrc n k ((h, p) # ps) n' k' \<longleftrightarrow>
     (\<exists>f > k. h = \<lparr>ph_kind = media_kind.Voice, ph_ssrc = ssrc, ph_seq = word_of_nat (Suc n),
                   ph_timestamp = word_of_nat (960 * f)\<rparr> \<and> in_order ssrc (Suc n) f ps n' k')"

lemma in_order_mono: "in_order ssrc n k ps n' k' \<Longrightarrow> j \<le> k \<Longrightarrow> in_order ssrc n j ps n' k'"
  by (cases ps) (auto, metis le_less_trans)

lemma in_order_append:
  "in_order ssrc n k ps n1 k1 \<Longrightarrow> in_order ssrc n1 k1 qs n2 k2 \<Longrightarrow> in_order ssrc n k (ps @ qs) n2 k2"
  by (induction ssrc n k ps n1 k1 rule: in_order.induct) (auto intro: in_order_mono)

lemma in_order_nth:
  "in_order ssrc n k ps n' k' \<Longrightarrow> n' = n + length ps
    \<and> (\<forall>i < length ps. ph_kind (fst (ps ! i)) = media_kind.Voice \<and> ph_ssrc (fst (ps ! i)) = ssrc
         \<and> ph_seq (fst (ps ! i)) = word_of_nat (Suc (n + i)))"
  by (induction ssrc n k ps n' k' rule: in_order.induct) (auto simp: nth_Cons' less_Suc_eq_0_disj)

lemma voice_sent_append: "voice_sent A key (xs @ ys) = voice_sent A key xs @ voice_sent A key ys"
  by (simp add: voice_sent_def map_filter_def)

lemma voice_sent_one:
  assumes "aead_laws A" "length p \<le> MAX_PAYLOAD"
  shows "voice_sent A key [(relay, sealed A key h p)] = (if ph_kind h = media_kind.Voice then [(h, p)] else [])"
  using sealed_opens(1) [OF assms] by (simp add: voice_sent_def map_filter_simps)

definition counts :: "nat \<Rightarrow> nat \<Rightarrow> ('d, 'e) tx \<Rightarrow> bool" where
  "counts n k tx \<longleftrightarrow> tx_seq tx = word_of_nat n \<and> tx_timestamp tx = word_of_nat (960 * k)"

text \<open>A piece of the thread's work: its voice packets go on where the counters were.\<close>

definition sends_on :: "('d, 'e) tx_libs \<Rightarrow> transport \<Rightarrow> u32 \<Rightarrow> ('d, 'e) tx \<Rightarrow> ('d, 'e) tx \<Rightarrow> wire_out list \<Rightarrow> bool" where
  "sends_on L t ssrc tx tx' out \<longleftrightarrow>
     (\<forall>n k. counts n k tx \<longrightarrow>
        (\<exists>n' k'. counts n' k' tx' \<and> in_order ssrc n k (voice_sent (tl_aead L) (tr_key t) out) n' k'))
   \<and> (\<forall>x \<in> set out. \<exists>h p. x = (tr_relay t, sealed (tl_aead L) (tr_key t) h p) \<and> length p \<le> MAX_PAYLOAD
        \<and> ph_ssrc h = ssrc \<and> ph_kind h \<in> {Keepalive, media_kind.Voice})"

lemma sends_on_trans:
  assumes "sends_on L t ssrc a b xs" "sends_on L t ssrc b c ys"
  shows "sends_on L t ssrc a c (xs @ ys)"
  unfolding sends_on_def
proof (intro conjI allI impI)
  fix n k assume "counts n k a"
  then obtain n1 k1 where "counts n1 k1 b" "in_order ssrc n k (voice_sent (tl_aead L) (tr_key t) xs) n1 k1"
    using assms(1) unfolding sends_on_def by blast
  moreover obtain n2 k2 where "counts n2 k2 c" "in_order ssrc n1 k1 (voice_sent (tl_aead L) (tr_key t) ys) n2 k2"
    using calculation(1) assms(2) unfolding sends_on_def by blast
  ultimately show "\<exists>n' k'. counts n' k' c \<and> in_order ssrc n k (voice_sent (tl_aead L) (tr_key t) (xs @ ys)) n' k'"
    unfolding voice_sent_append using in_order_append by blast
qed (use assms in \<open>auto simp: sends_on_def\<close>)

lemma sends_on_silent:
  assumes "tx_seq b = tx_seq a" "tx_timestamp b = tx_timestamp a" "voice_sent (tl_aead L) (tr_key t) out = []"
    "\<And>x. x \<in> set out \<Longrightarrow> \<exists>h p. x = (tr_relay t, sealed (tl_aead L) (tr_key t) h p) \<and> length p \<le> MAX_PAYLOAD
        \<and> ph_ssrc h = ssrc \<and> ph_kind h \<in> {Keepalive, media_kind.Voice}"
  shows "sends_on L t ssrc a b out"
  unfolding sends_on_def counts_def assms(1-3) in_order.simps using assms(4) by blast

lemma voice_sent_Nil [simp]: "voice_sent A key [] = []"
  by (simp add: voice_sent_def map_filter_simps)

lemma sends_on_quiet: "tx_seq b = tx_seq a \<Longrightarrow> tx_timestamp b = tx_timestamp a \<Longrightarrow> sends_on L t ssrc a b []"
  by (rule sends_on_silent) simp_all

lemma send_chunk_sends:
  assumes laws: "aead_laws (tl_aead L)" "encoder_laws L"
    and s: "send_chunk L t ssrc True sending gate_open chunk (sh, tx) = ((sh', tx'), out)"
  shows "sends_on L t ssrc tx tx' out"
proof -
  obtain due flag where due: "packet_due sending gate_open (tx_sent_since_gate_closed tx) = (due, flag)"
    by fastforce
  have frame: "tx_timestamp tx + word_of_nat VOICE_FRAME_SAMPLES = word_of_nat (960 * Suc k)"
    if "tx_timestamp tx = word_of_nat (960 * k)" for k
    using that by (simp add: VOICE_FRAME_SAMPLES_eq)
  have fits: "transport_send (tl_aead L) True t h p = (Inr (), [(tr_relay t, sealed (tl_aead L) (tr_key t) h p)])"
    if "tl_encode L (tx_encoder tx) chunk = (Some p, e)" for h p e
    using that laws(2) transport_send_fits [OF laws(1), of p True t h] unfolding encoder_laws_def by metis
  have "(\<exists>p e. tl_encode L (tx_encoder tx) chunk = (Some p, e) \<and> tx_seq tx' = tx_seq tx + 1
        \<and> tx_timestamp tx' = tx_timestamp tx + word_of_nat VOICE_FRAME_SAMPLES
        \<and> out = [(tr_relay t, sealed (tl_aead L) (tr_key t) \<lparr>ph_kind = media_kind.Voice, ph_ssrc = ssrc,
            ph_seq = tx_seq tx', ph_timestamp = tx_timestamp tx'\<rparr> p)])
      \<or> out = [] \<and> tx_seq tx' = tx_seq tx \<and> tx_timestamp tx' = tx_timestamp tx + word_of_nat VOICE_FRAME_SAMPLES"
    using s due fits
    by (auto simp: send_chunk_def Let_def split: if_splits option.splits prod.splits)
  then show ?thesis
  proof (elim disjE exE conjE)
    fix p e assume e: "tl_encode L (tx_encoder tx) chunk = (Some p, e)" and seq: "tx_seq tx' = tx_seq tx + 1"
      and ts: "tx_timestamp tx' = tx_timestamp tx + word_of_nat VOICE_FRAME_SAMPLES"
      and out: "out = [(tr_relay t, sealed (tl_aead L) (tr_key t) \<lparr>ph_kind = media_kind.Voice, ph_ssrc = ssrc,
            ph_seq = tx_seq tx', ph_timestamp = tx_timestamp tx'\<rparr> p)]"
    have p: "length p \<le> MAX_PAYLOAD" using laws(2) e by (auto simp: encoder_laws_def)
    have "counts (Suc n) (Suc k) tx'
        \<and> in_order ssrc n k (voice_sent (tl_aead L) (tr_key t) out) (Suc n) (Suc k)" if "counts n k tx" for n k
      using that seq ts frame [of k] voice_sent_one [OF laws(1) p] unfolding out counts_def
      by (auto intro!: exI [of _ "Suc k"])
    moreover have "\<exists>h p. x = (tr_relay t, sealed (tl_aead L) (tr_key t) h p) \<and> length p \<le> MAX_PAYLOAD
        \<and> ph_ssrc h = ssrc \<and> ph_kind h \<in> {Keepalive, media_kind.Voice}" if "x \<in> set out" for x
      using that p unfolding out by force
    ultimately show ?thesis unfolding sends_on_def by blast
  next
    assume out: "out = []" and seq: "tx_seq tx' = tx_seq tx"
      and ts: "tx_timestamp tx' = tx_timestamp tx + word_of_nat VOICE_FRAME_SAMPLES"
    have "counts n (Suc k) tx' \<and> in_order ssrc n k (voice_sent (tl_aead L) (tr_key t) out) n (Suc k)"
      if "counts n k tx" for n k
      using that seq ts frame [of k] out by (simp only: counts_def voice_sent_def map_filter_simps in_order.simps) simp
    then show ?thesis unfolding sends_on_def out by (intro conjI allI impI ballI) (blast, simp)
  qed
qed

lemma sends_on_fields:
  "sends_on L t ssrc a b out \<Longrightarrow> tx_seq a' = tx_seq a \<Longrightarrow> tx_timestamp a' = tx_timestamp a \<Longrightarrow>
    tx_seq b' = tx_seq b \<Longrightarrow> tx_timestamp b' = tx_timestamp b \<Longrightarrow> sends_on L t ssrc a' b' out"
  by (simp add: sends_on_def counts_def)

lemma send_pending_sends:
  assumes "aead_laws (tl_aead L)" "encoder_laws L"
  shows "send_pending L t ssrc ok sending gate_open samples (sh, tx) = (left, (sh', tx'), out) \<Longrightarrow>
    (\<And>i. ok i) \<Longrightarrow> sends_on L t ssrc tx tx' out"
proof (induction "length samples" arbitrary: ok samples sh tx left sh' tx' out rule: less_induct)
  case less
  show ?case
  proof (cases "length samples < VOICE_FRAME_SAMPLES")
    case True
    then show ?thesis using less.prems(1) by (simp add: send_pending.simps sends_on_quiet)
  next
    case False
    obtain sh1 tx1 out1 where c: "send_chunk L t ssrc True sending gate_open (take VOICE_FRAME_SAMPLES samples) (sh, tx)
        = ((sh1, tx1), out1)"
      by (metis prod.exhaust)
    obtain l sh2 tx2 out2 where r: "send_pending L t ssrc (ok \<circ> Suc) sending gate_open (drop VOICE_FRAME_SAMPLES samples)
        (sh1, tx1) = (l, (sh2, tx2), out2)"
      by (metis prod.exhaust)
    have "length (drop VOICE_FRAME_SAMPLES samples) < length samples"
      using False by (simp add: VOICE_FRAME_SAMPLES_eq)
    then have "sends_on L t ssrc tx1 tx2 out2" using less.hyps r less.prems(2) by force
    moreover have "tx' = tx2" "out = out1 @ out2"
      using less.prems False c r by (simp_all add: send_pending.simps)
    ultimately show ?thesis using sends_on_trans send_chunk_sends [OF assms c] by blast
  qed
qed

lemma send_frame_sends:
  assumes laws: "aead_laws (tl_aead L)" "encoder_laws L" and ok: "\<And>i. ok i"
    and s: "send_frame L t ssrc ok frame (sh, tx) = ((sh', tx'), out)"
  shows "sends_on L t ssrc tx tx' out"
proof -
  obtain oc fr c where p: "cleanup_process (tl_sound L) (sh_gain sh)
      (if sh_push_to_talk sh then Some (sh_talk_key_held sh) else None) frame (tx_cleanup tx) = (oc, fr, c)"
    by (metis prod_cases3)
  obtain sh1 tx1 where one: "(if (transmitting (sh\<lparr>sh_input_level := oc_level oc, sh_gate_open := oc_open oc\<rparr>) \<and> oc_open oc)
        \<noteq> tx_was_speaking tx
      then (sh\<lparr>sh_input_level := oc_level oc, sh_gate_open := oc_open oc,
              sh_speaking := transmitting (sh\<lparr>sh_input_level := oc_level oc, sh_gate_open := oc_open oc\<rparr>) \<and> oc_open oc\<rparr>,
            tx\<lparr>tx_cleanup := c, tx_was_speaking := transmitting (sh\<lparr>sh_input_level := oc_level oc, sh_gate_open := oc_open oc\<rparr>) \<and> oc_open oc\<rparr>)
      else (sh\<lparr>sh_input_level := oc_level oc, sh_gate_open := oc_open oc\<rparr>, tx\<lparr>tx_cleanup := c\<rparr>)) = (sh1, tx1)"
    by fastforce
  then have f1: "tx_seq tx1 = tx_seq tx" "tx_timestamp tx1 = tx_timestamp tx" "tx_pending tx1 = tx_pending tx"
    by (auto split: if_splits)
  obtain left sh2 tx2 out2 where r: "send_pending L t ssrc ok
      (transmitting (sh\<lparr>sh_input_level := oc_level oc, sh_gate_open := oc_open oc\<rparr>)) (oc_open oc)
      (tx_pending tx1 @ fr) (sh1, tx1) = (left, (sh2, tx2), out2)"
    by (metis prod.exhaust)
  have "tx' = tx2\<lparr>tx_pending := left\<rparr>" "out = out2"
    using s p one r by (auto simp: send_frame_def Let_def split: if_splits)
  then show ?thesis using sends_on_fields [OF send_pending_sends [OF laws r ok]] f1 by simp
qed

lemma keepalive_sends:
  assumes "aead_laws (tl_aead L)" "keepalive L t ssrc now ok tx = (tx', out)"
  shows "sends_on L t ssrc tx tx' out"
proof -
  have fits: "length REGISTRATION_PLAINTEXT \<le> MAX_PAYLOAD" by (simp add: REGISTRATION_PLAINTEXT_def)
  let ?h = "\<lparr>ph_kind = Keepalive, ph_ssrc = ssrc, ph_seq = tx_keepalive_seq tx + 1, ph_timestamp = 0\<rparr>"
  have "tx_seq tx' = tx_seq tx \<and> tx_timestamp tx' = tx_timestamp tx
      \<and> (out = [] \<or> out = [(tr_relay t, sealed (tl_aead L) (tr_key t) ?h REGISTRATION_PLAINTEXT)])"
    using assms(2) transport_send_fits [OF assms(1) fits]
    by (auto simp: keepalive_def transport_register_def Let_def split: if_splits)
  moreover have "voice_sent (tl_aead L) (tr_key t) [(tr_relay t, sealed (tl_aead L) (tr_key t) ?h REGISTRATION_PLAINTEXT)] = []"
    by (simp add: voice_sent_one [OF assms(1) fits])
  ultimately have f: "tx_seq tx' = tx_seq tx" "tx_timestamp tx' = tx_timestamp tx"
    and v: "voice_sent (tl_aead L) (tr_key t) out = []"
    and o: "set out \<subseteq> {(tr_relay t, sealed (tl_aead L) (tr_key t) ?h REGISTRATION_PLAINTEXT)}"
    by auto
  show ?thesis by (rule sends_on_silent [OF f v]) (use o fits in force)
qed

lemma tx_iteration_sends:
  assumes laws: "aead_laws (tl_aead L)" "encoder_laws L" and ok: "\<And>i. tm_send_ok m i"
    and s: "tx_iteration L t ssrc m (sh, tx) = ((sh', tx'), out)"
  shows "sends_on L t ssrc tx tx' out"
proof -
  obtain tx1 out1 where k: "keepalive L t ssrc (tm_now m) (tm_keepalive_ok m) tx = (tx1, out1)" by fastforce
  note k1 = keepalive_sends [OF laws(1) k]
  let ?tx1 = "pick_up_settings L sh tx1"
  have f: "tx_seq ?tx1 = tx_seq tx1" "tx_timestamp ?tx1 = tx_timestamp tx1"
    by (simp_all add: pick_up_settings_def)
  obtain frame sh1 where tf: "take_frame_samples sh = (frame, sh1)" by fastforce
  obtain sh2 tx2 out2 where fr: "send_frame L t ssrc (tm_send_ok m) frame (sh1, ?tx1) = ((sh2, tx2), out2)"
    by (metis prod.exhaust)
  have "sends_on L t ssrc tx ?tx1 out1" using sends_on_fields [OF k1 refl refl f] .
  moreover have "sends_on L t ssrc ?tx1 tx2 out2"
    by (rule send_frame_sends [where ok = "tm_send_ok m", OF laws ok fr])
  ultimately show ?thesis
    using s k tf fr sends_on_trans by (fastforce simp: tx_iteration_def Let_def split: if_splits)
qed

lemma run_tx_sends:
  assumes laws: "aead_laws (tl_aead L)" "encoder_laws L"
  shows "run_tx L t ssrc turns (sh, tx) = ((sh', tx'), out) \<Longrightarrow> (\<And>b m i. (b, m) \<in> set turns \<Longrightarrow> tm_send_ok m i) \<Longrightarrow>
    sends_on L t ssrc tx tx' out"
proof (induction turns arbitrary: sh tx sh' tx' out)
  case Nil
  then show ?case by (simp add: sends_on_quiet)
next
  case (Cons turn turns)
  obtain b m where turn: "turn = (b, m)" by fastforce
  show ?case
  proof (cases "sh_stop (b sh)")
    case True
    then show ?thesis using Cons.prems(1) turn by (simp add: sends_on_quiet)
  next
    case False
    obtain sh1 tx1 out1 where one: "tx_iteration L t ssrc m (b sh, tx) = ((sh1, tx1), out1)" by (metis prod.exhaust)
    obtain sh2 tx2 out2 where r: "run_tx L t ssrc turns (sh1, tx1) = ((sh2, tx2), out2)" by (metis prod.exhaust)
    have "sends_on L t ssrc tx tx1 out1"
      by (rule tx_iteration_sends [OF laws _ one]) (use Cons.prems(2) turn in auto)
    moreover have "sends_on L t ssrc tx1 tx2 out2" by (rule Cons.IH [OF r]) (use Cons.prems(2) in auto)
    moreover have "tx' = tx2" "out = out1 @ out2" using Cons.prems(1) turn False one r by simp_all
    ultimately show ?thesis using sends_on_trans by blast
  qed
qed

section \<open>What the send thread says\<close>

text \<open>
  What is to be sent, said without the thread: the frames that were taken from the capture, cleaned
  up, each with whether the member transmits and whether the gate is open; two of them in a row, with
  the marks of the second, are 20 ms for the encoder.
\<close>

type_synonym spoken = "bool \<times> bool \<times> f32bits list"

fun paired :: "f32bits list \<Rightarrow> spoken list \<Rightarrow> spoken list" where
  "paired waiting [] = []"
| "paired waiting ((sending, gate_open, frame) # frames) =
     (if waiting = [] then paired frame frames else (sending, gate_open, waiting @ frame) # paired [] frames)"

text \<open>
  What the encoder makes of the pieces that are due: those of a member who transmits with the
  gate open, and one more after it shut. Each with its number among all the pieces. \<open>closed\<close> says that the
  piece before was one of a member who transmits, with the gate shut.
\<close>

fun voiced ::
  "('e \<Rightarrow> f32bits list \<Rightarrow> byte list option \<times> 'e) \<Rightarrow> 'e \<times> bool \<times> nat \<Rightarrow> spoken list
    \<Rightarrow> ('e \<times> bool \<times> nat) \<times> (nat \<times> byte list) list" where
  "voiced coder (e, closed, k) [] = ((e, closed, k), [])"
| "voiced coder (e, closed, k) ((sending, gate_open, samples) # pieces) =
     (let closes = (sending \<and> \<not> gate_open)
      in if sending \<and> (gate_open \<or> \<not> closed)
         then (case coder e samples of (p, e) \<Rightarrow>
                 let (s, rest) = voiced coder (e, closes, Suc k) pieces
                 in (s, (case p of Some p \<Rightarrow> [(Suc k, p)] | None \<Rightarrow> []) @ rest))
         else voiced coder (e, closes, Suc k) pieces)"

text \<open>The packets: numbered without a gap, stamped with the time of their piece.\<close>

fun stamped :: "u32 \<Rightarrow> nat \<Rightarrow> (nat \<times> byte list) list \<Rightarrow> (packet_header \<times> byte list) list" where
  "stamped ssrc n [] = []"
| "stamped ssrc n ((k, p) # ps) =
     (\<lparr>ph_kind = media_kind.Voice, ph_ssrc = ssrc, ph_seq = word_of_nat (Suc n), ph_timestamp = word_of_nat (960 * k)\<rparr>, p)
       # stamped ssrc (Suc n) ps"

lemma stamped_append: "stamped ssrc n (xs @ ys) = stamped ssrc n xs @ stamped ssrc (n + length xs) ys"
  by (induction ssrc n xs rule: stamped.induct) auto

lemma voiced_append:
  "voiced coder s (xs @ ys) = (case voiced coder s xs of (s1, ps) \<Rightarrow> case voiced coder s1 ys of (s2, qs) \<Rightarrow> (s2, ps @ qs))"
  by (induction coder s xs rule: voiced.induct) (auto simp: Let_def split: prod.splits)

definition tx_says :: "('d, 'e) tx \<Rightarrow> nat \<Rightarrow> 'e \<times> bool \<times> nat \<Rightarrow> bool" where
  "tx_says tx n s \<longleftrightarrow> tx_encoder tx = fst s \<and> tx_sent_since_gate_closed tx = fst (snd s) \<and> counts n (snd (snd s)) tx"

definition says ::
  "('d, 'e) tx_libs \<Rightarrow> transport \<Rightarrow> u32 \<Rightarrow> ('d, 'e) tx \<Rightarrow> spoken list \<Rightarrow> ('d, 'e) tx \<Rightarrow> wire_out list \<Rightarrow> bool" where
  "says L t ssrc tx pieces tx' out \<longleftrightarrow>
     (\<forall>n s. tx_says tx n s \<longrightarrow>
        (case voiced (tl_encode L) s pieces of (s', ps) \<Rightarrow>
           tx_says tx' (n + length ps) s' \<and> voice_sent (tl_aead L) (tr_key t) out = stamped ssrc n ps))"

lemma says_trans:
  assumes "says L t ssrc a cs b xs" "says L t ssrc b ds c ys"
  shows "says L t ssrc a (cs @ ds) c (xs @ ys)"
  unfolding says_def
proof (intro allI impI)
  fix n s assume a: "tx_says a n s"
  obtain s1 ps where one: "voiced (tl_encode L) s cs = (s1, ps)" by fastforce
  obtain s2 qs where two: "voiced (tl_encode L) s1 ds = (s2, qs)" by fastforce
  have "tx_says b (n + length ps) s1" "voice_sent (tl_aead L) (tr_key t) xs = stamped ssrc n ps"
    using assms(1) a one unfolding says_def by fastforce+
  moreover from this(1) have "tx_says c (n + length ps + length qs) s2"
      "voice_sent (tl_aead L) (tr_key t) ys = stamped ssrc (n + length ps) qs"
    using assms(2) two unfolding says_def by fastforce+
  ultimately show "case voiced (tl_encode L) s (cs @ ds) of (s', ps) \<Rightarrow>
      tx_says c (n + length ps) s' \<and> voice_sent (tl_aead L) (tr_key t) (xs @ ys) = stamped ssrc n ps"
    by (simp add: voiced_append one two stamped_append voice_sent_append add.assoc)
qed

text \<open>The fields that matter for what is said.\<close>

definition same_voice :: "('d, 'e) tx \<Rightarrow> ('d, 'e) tx \<Rightarrow> bool" where
  "same_voice a b \<longleftrightarrow> tx_encoder a = tx_encoder b \<and> tx_sent_since_gate_closed a = tx_sent_since_gate_closed b
     \<and> tx_seq a = tx_seq b \<and> tx_timestamp a = tx_timestamp b"

lemma says_same:
  "says L t ssrc a cs b out \<Longrightarrow> same_voice a' a \<Longrightarrow> same_voice b b' \<Longrightarrow> says L t ssrc a' cs b' out"
  by (simp add: says_def tx_says_def same_voice_def counts_def)

lemma says_nothing:
  "same_voice a b \<Longrightarrow> voice_sent (tl_aead L) (tr_key t) out = [] \<Longrightarrow> says L t ssrc a [] b out"
  by (auto simp: says_def tx_says_def same_voice_def counts_def)

lemma send_chunk_says:
  assumes laws: "aead_laws (tl_aead L)" "encoder_laws L"
    and s: "send_chunk L t ssrc True sending gate_open chunk (sh, tx) = ((sh', tx'), out)"
  shows "says L t ssrc tx [(sending, gate_open, chunk)] tx' out"
  unfolding says_def
proof (intro allI impI)
  fix n s assume tx: "tx_says tx n s"
  obtain e closed k where s': "s = (e, closed, k)" by (metis prod_cases3)
  have f: "tx_encoder tx = e" "tx_sent_since_gate_closed tx = closed" "tx_seq tx = word_of_nat n"
    "tx_timestamp tx = word_of_nat (960 * k)"
    using tx by (simp_all add: tx_says_def s' counts_def)
  obtain p e' where enc: "tl_encode L e chunk = (p, e')" by fastforce
  have fits: "transport_send (tl_aead L) True t h q = (Inr (), [(tr_relay t, sealed (tl_aead L) (tr_key t) h q)])"
      "voice_sent (tl_aead L) (tr_key t) [(tr_relay t, sealed (tl_aead L) (tr_key t) h q)] =
        (if ph_kind h = media_kind.Voice then [(h, q)] else [])"
    if "p = Some q" for h q
  proof -
    have "length q \<le> MAX_PAYLOAD" using enc that laws(2) unfolding encoder_laws_def by blast
    then show "transport_send (tl_aead L) True t h q = (Inr (), [(tr_relay t, sealed (tl_aead L) (tr_key t) h q)])"
        "voice_sent (tl_aead L) (tr_key t) [(tr_relay t, sealed (tl_aead L) (tr_key t) h q)] =
          (if ph_kind h = media_kind.Voice then [(h, q)] else [])"
      using transport_send_fits [OF laws(1)] voice_sent_one [OF laws(1)] by metis+
  qed
  show "case voiced (tl_encode L) s [(sending, gate_open, chunk)] of (s', ps) \<Rightarrow>
      tx_says tx' (n + length ps) s' \<and> voice_sent (tl_aead L) (tr_key t) out = stamped ssrc n ps"
  proof (cases "sending \<and> (gate_open \<or> \<not> closed)")
    case True
    then have due: "packet_due sending gate_open closed = (True, \<not> gate_open)" by (auto simp: packet_due_def)
    show ?thesis
      using s True due fits
      by (cases p) (auto simp: send_chunk_def s' f enc Let_def tx_says_def counts_def VOICE_FRAME_SAMPLES_eq algebra_simps)
  next
    case False
    then have due: "packet_due sending gate_open closed = (False, sending \<and> \<not> gate_open)" by (auto simp: packet_due_def)
    show ?thesis
      using s False due
      by (auto simp: send_chunk_def s' f Let_def tx_says_def counts_def VOICE_FRAME_SAMPLES_eq algebra_simps)
  qed
qed

lemma cleanup_process_length:
  "cleanup_process L gain forced frame c = (oc, fr, c') \<Longrightarrow> length fr = length frame"
  by (auto simp: cleanup_process_def copy_over_def Let_def split: prod.splits option.splits bool.splits)

lemma take_frame_samples_length: "length (fst (take_frame_samples sh)) = FRAME"
  by (auto simp: take_frame_samples_def pop_def Let_def)

text \<open>
  The frame a turn takes, if there is one in the capture: cleaned up under the settings of the
  interface at that moment. \<open>captured\<close> collects them along a run.
\<close>

definition cleaned :: "('d, 'e) tx_libs \<Rightarrow> shared \<Rightarrow> ('d, 'e) tx \<Rightarrow> spoken" where
  "cleaned L sh tx =
     (let forced = (if sh_push_to_talk sh then Some (sh_talk_key_held sh) else None);
          c = set_hang (sh_hang_ms sh) (set_threshold (tl_sound L) (sh_threshold_db sh)
                (set_suppression (tl_sound L) (sh_suppress sh) (tx_cleanup tx)));
          (outcome, frame, c) = cleanup_process (tl_sound L) (sh_gain sh) forced (fst (take_frame_samples sh)) c
      in (transmitting sh, oc_open outcome, frame))"

fun captured ::
  "('d, 'e) tx_libs \<Rightarrow> transport \<Rightarrow> u32 \<Rightarrow> ((shared \<Rightarrow> shared) \<times> tx_moment) list \<Rightarrow> shared \<times> ('d, 'e) tx \<Rightarrow> spoken list" where
  "captured L t ssrc [] st = []"
| "captured L t ssrc ((between, m) # turns) (sh, tx) =
     (if sh_stop (between sh) then []
      else (if ring_len (sh_capture (between sh)) < FRAME then [] else [cleaned L (between sh) tx])
        @ captured L t ssrc turns (fst (tx_iteration L t ssrc m (between sh, tx))))"

lemma send_pending_short:
  "length samples < 960 \<Longrightarrow> send_pending L t ssrc ok sending gate_open samples st = (samples, st, [])"
  by (subst send_pending.simps) (simp add: VOICE_FRAME_SAMPLES_eq)

lemma send_pending_one:
  assumes "length samples = 960" "send_chunk L t ssrc (ok 0) sending gate_open samples st = (st', out)"
  shows "send_pending L t ssrc ok sending gate_open samples st = ([], st', out)"
  using assms by (subst send_pending.simps) (simp add: VOICE_FRAME_SAMPLES_eq send_pending_short)

text \<open>Half a piece may wait between two turns.\<close>

definition half :: "f32bits list \<Rightarrow> bool" where
  "half samples \<longleftrightarrow> samples = [] \<or> length samples = FRAME"

lemma send_frame_says:
  assumes laws: "aead_laws (tl_aead L)" "encoder_laws L" and ok: "\<And>i. ok i"
    and s: "send_frame L t ssrc ok frame (sh, tx) = ((sh', tx'), out)"
    and p: "cleanup_process (tl_sound L) (sh_gain sh)
      (if sh_push_to_talk sh then Some (sh_talk_key_held sh) else None) frame (tx_cleanup tx) = (oc, fr, c)"
    and len: "half (tx_pending tx)" "length frame = FRAME"
  shows "says L t ssrc tx (if tx_pending tx = [] then [] else [(transmitting sh, oc_open oc, tx_pending tx @ fr)]) tx' out
    \<and> tx_pending tx' = (if tx_pending tx = [] then fr else [])"
proof -
  have fr: "length fr = FRAME" using cleanup_process_length [OF p] len(2) by simp
  have tr: "transmitting (sh\<lparr>sh_input_level := oc_level oc, sh_gate_open := oc_open oc\<rparr>) = transmitting sh"
    by (simp add: transmitting_def)
  obtain sh1 tx1 where one: "(if (transmitting sh \<and> oc_open oc) \<noteq> tx_was_speaking tx
      then (sh\<lparr>sh_input_level := oc_level oc, sh_gate_open := oc_open oc, sh_speaking := transmitting sh \<and> oc_open oc\<rparr>,
            tx\<lparr>tx_cleanup := c, tx_was_speaking := transmitting sh \<and> oc_open oc\<rparr>)
      else (sh\<lparr>sh_input_level := oc_level oc, sh_gate_open := oc_open oc\<rparr>, tx\<lparr>tx_cleanup := c\<rparr>)) = (sh1, tx1)"
    by fastforce
  then have f1: "same_voice tx tx1" "tx_pending tx1 = tx_pending tx"
    by (auto simp: same_voice_def split: if_splits)
  obtain left sh2 tx2 out2 where r: "send_pending L t ssrc ok (transmitting sh) (oc_open oc)
      (tx_pending tx @ fr) (sh1, tx1) = (left, (sh2, tx2), out2)"
    by (metis prod.exhaust)
  have res: "tx' = tx2\<lparr>tx_pending := left\<rparr>" "out = out2"
    using s p one r f1 tr by (auto simp: send_frame_def Let_def split: if_splits)
  have pend: "same_voice tx2 (tx2\<lparr>tx_pending := left\<rparr>)" by (simp add: same_voice_def)
  show ?thesis
  proof (cases "tx_pending tx = []")
    case True
    then have "left = fr" "tx2 = tx1" "out2 = []"
      using r True fr by (simp_all add: send_pending_short FRAME_def)
    moreover have "same_voice tx (tx1\<lparr>tx_pending := fr\<rparr>)" using f1(1) by (simp add: same_voice_def)
    ultimately show ?thesis using True res by (simp add: says_nothing)
  next
    case False
    have n: "length (tx_pending tx @ fr) = 960" using False len(1) fr by (simp add: half_def FRAME_def)
    obtain sh3 tx3 out3 where c: "send_chunk L t ssrc (ok 0) (transmitting sh) (oc_open oc) (tx_pending tx @ fr) (sh1, tx1)
        = ((sh3, tx3), out3)" by (metis prod.exhaust)
    have "left = []" "tx2 = tx3" "out2 = out3"
      using r send_pending_one [where ok = ok, OF n c] by simp_all
    then have "says L t ssrc tx1 [(transmitting sh, oc_open oc, tx_pending tx @ fr)] tx2 out2"
      using send_chunk_says [OF laws] c ok [of 0] by simp
    from says_same [OF this f1(1) pend] show ?thesis using False res \<open>left = []\<close> by simp
  qed
qed

lemma keepalive_says:
  assumes "aead_laws (tl_aead L)" "keepalive L t ssrc now ok tx = (tx', out)"
  shows "says L t ssrc tx [] tx' out \<and> same_voice tx tx' \<and> tx_pending tx' = tx_pending tx \<and> tx_cleanup tx' = tx_cleanup tx"
proof -
  have fits: "length REGISTRATION_PLAINTEXT \<le> MAX_PAYLOAD" by (simp add: REGISTRATION_PLAINTEXT_def)
  have "same_voice tx tx'" "tx_pending tx' = tx_pending tx" "tx_cleanup tx' = tx_cleanup tx"
    "voice_sent (tl_aead L) (tr_key t) out = []"
    using assms(2) transport_send_fits [OF assms(1) fits] voice_sent_one [OF assms(1) fits]
    by (auto simp: keepalive_def transport_register_def Let_def same_voice_def split: if_splits)
  then show ?thesis by (simp add: says_nothing)
qed

lemma tx_iteration_says:
  assumes laws: "aead_laws (tl_aead L)" "encoder_laws L" and ok: "\<And>i. tm_send_ok m i"
    and s: "tx_iteration L t ssrc m (sh, tx) = ((sh', tx'), out)" and len: "half (tx_pending tx)"
  shows "says L t ssrc tx
      (paired (tx_pending tx) (if ring_len (sh_capture sh) < FRAME then [] else [cleaned L sh tx])) tx' out
    \<and> half (tx_pending tx')
    \<and> (\<forall>fs. paired (tx_pending tx) ((if ring_len (sh_capture sh) < FRAME then [] else [cleaned L sh tx]) @ fs)
        = paired (tx_pending tx) (if ring_len (sh_capture sh) < FRAME then [] else [cleaned L sh tx]) @ paired (tx_pending tx') fs)"
proof -
  obtain tx1 out1 where k: "keepalive L t ssrc (tm_now m) (tm_keepalive_ok m) tx = (tx1, out1)" by fastforce
  note k1 = keepalive_says [OF laws(1) k]
  let ?tx1 = "pick_up_settings L sh tx1"
  have f: "same_voice tx1 ?tx1" "tx_pending ?tx1 = tx_pending tx"
    "tx_cleanup ?tx1 = set_hang (sh_hang_ms sh) (set_threshold (tl_sound L) (sh_threshold_db sh)
        (set_suppression (tl_sound L) (sh_suppress sh) (tx_cleanup tx)))"
    using k1 by (simp_all add: pick_up_settings_def same_voice_def)
  have quiet: "says L t ssrc tx [] ?tx1 out1"
    by (rule says_same [OF conjunct1 [OF k1] _ f(1)]) (simp add: same_voice_def)
  show ?thesis
  proof (cases "ring_len (sh_capture sh) < FRAME")
    case True
    then have "tx' = ?tx1" "out = out1" using s k by (auto simp: tx_iteration_def)
    then show ?thesis using True quiet f(2) len by simp
  next
    case False
    obtain frame sh1 where tf: "take_frame_samples sh = (frame, sh1)" by fastforce
    then have frame: "frame = fst (take_frame_samples sh)" "length frame = FRAME"
      using take_frame_samples_length [of sh] by simp_all
    have sh1: "sh_gain sh1 = sh_gain sh" "sh_push_to_talk sh1 = sh_push_to_talk sh"
      "sh_talk_key_held sh1 = sh_talk_key_held sh" "transmitting sh1 = transmitting sh"
      using tf by (auto simp: take_frame_samples_def transmitting_def Let_def split: prod.splits)
    obtain oc fr c where p: "cleanup_process (tl_sound L) (sh_gain sh1)
        (if sh_push_to_talk sh1 then Some (sh_talk_key_held sh1) else None) frame (tx_cleanup ?tx1) = (oc, fr, c)"
      by (metis prod_cases3)
    have cl: "cleaned L sh tx = (transmitting sh, oc_open oc, fr)"
      using p unfolding f(3) sh1 frame(1) by (simp add: cleaned_def Let_def)
    obtain sh2 tx2 out2 where fr: "send_frame L t ssrc (tm_send_ok m) frame (sh1, ?tx1) = ((sh2, tx2), out2)"
      by (metis prod.exhaust)
    have res: "tx' = tx2" "out = out1 @ out2"
      using s k tf fr False by (simp_all add: tx_iteration_def Let_def)
    have "half (tx_pending ?tx1)" using len f(2) by simp
    note one = send_frame_says [OF laws ok fr p this frame(2), unfolded f(2) sh1(4)]
    have "length fr = FRAME" using cleanup_process_length [OF p] frame(2) by simp
    then have "fr \<noteq> []" "half fr" by (auto simp: half_def FRAME_def)
    then show ?thesis using says_trans [OF quiet conjunct1 [OF one]] one False res
      by (auto simp: cl half_def)
  qed
qed

lemma run_tx_says:
  assumes laws: "aead_laws (tl_aead L)" "encoder_laws L"
  shows "run_tx L t ssrc turns (sh, tx) = ((sh', tx'), out) \<Longrightarrow> (\<And>b m i. (b, m) \<in> set turns \<Longrightarrow> tm_send_ok m i) \<Longrightarrow>
    half (tx_pending tx) \<Longrightarrow> says L t ssrc tx (paired (tx_pending tx) (captured L t ssrc turns (sh, tx))) tx' out"
proof (induction turns arbitrary: sh tx sh' tx' out)
  case Nil
  then show ?case by (simp add: says_nothing same_voice_def)
next
  case (Cons turn turns)
  obtain b m where turn: "turn = (b, m)" by fastforce
  show ?case
  proof (cases "sh_stop (b sh)")
    case True
    then show ?thesis using Cons.prems(1) turn by (simp add: says_nothing same_voice_def)
  next
    case False
    obtain sh1 tx1 out1 where one: "tx_iteration L t ssrc m (b sh, tx) = ((sh1, tx1), out1)" by (metis prod.exhaust)
    obtain sh2 tx2 out2 where r: "run_tx L t ssrc turns (sh1, tx1) = ((sh2, tx2), out2)" by (metis prod.exhaust)
    have "\<And>i. tm_send_ok m i" using Cons.prems(2) turn by auto
    note it = tx_iteration_says [OF laws this one Cons.prems(3)]
    have "says L t ssrc tx1 (paired (tx_pending tx1) (captured L t ssrc turns (sh1, tx1))) tx2 out2"
      by (rule Cons.IH [OF r]) (use Cons.prems(2) it in auto)
    from says_trans [OF conjunct1 [OF it] this] it show ?thesis
      using Cons.prems(1) turn False one r by simp
  qed
qed

section \<open>What the receive thread receives\<close>

fun arrivals_of :: "aead \<Rightarrow> transport \<Rightarrow> ((shared \<Rightarrow> shared) \<times> rx_moment) list \<Rightarrow> rx_arrival list" where
  "arrivals_of A t [] = []"
| "arrivals_of A t ((between, m) # turns) =
     (case transport_recv A t (rm_inbound m) of
        Inr (Some (h, p)) \<Rightarrow> (rm_then m, h, p) # arrivals_of A t turns
      | _ \<Rightarrow> arrivals_of A t turns)"

lemma receiving_media_ok:
  "receiving wide S (sh\<lparr>sh_media_ok := v\<rparr>, rx) = receiving wide S (sh, rx)"
  "listening log s (sh\<lparr>sh_media_ok := v\<rparr>) ds le = listening log s sh ds le"
  by (simp_all add: receiving_def listening_def table_inv_def slots_def)

lemma run_rx_runs:
  assumes "decoder_laws D log wide" "finite S" "card S \<le> 16" "0 \<notin> S" "receiving wide S (sh, rx)"
    "audio_streams (arrivals_of A t turns) \<subseteq> S"
    "\<forall>(b, m) \<in> set turns. b = (\<lambda>sh. sh) \<and> \<not> isl (transport_recv A t (rm_inbound m))"
  shows "\<exists>sh' rx'. run_rx A D t own turns (sh, rx) = Some (Inr (sh', rx')) \<and> receiving wide S (sh', rx')
    \<and> (\<forall>s le. s \<noteq> own \<longrightarrow> s \<noteq> 0 \<longrightarrow> listening log s sh (rx_decoders rx) le \<longrightarrow>
        listening log s sh' (rx_decoders rx') (foldl hear le (audio_of s (arrivals_of A t turns))))"
  using assms(5-)
proof (induction turns arbitrary: sh rx)
  case Nil
  then show ?case by (simp add: audio_of_def)
next
  case (Cons turn turns)
  obtain b m where turn: "turn = (b, m)" by fastforce
  then have b: "b = (\<lambda>sh. sh)" using Cons.prems(3) by simp
  let ?sh = "sh\<lparr>sh_media_ok := rm_now m - rx_last_keepalive rx < MEDIA_TIMEOUT\<rparr>"
  have r: "receiving wide S (?sh, rx)" "\<not> sh_stop sh"
    using Cons.prems(1) by (simp_all add: receiving_media_ok) (simp add: receiving_def)
  have rest: "\<forall>(b, m) \<in> set turns. b = (\<lambda>sh. sh) \<and> \<not> isl (transport_recv A t (rm_inbound m))"
    using Cons.prems(3) by simp
  obtain x where x: "transport_recv A t (rm_inbound m) = Inr x"
    using Cons.prems(3) turn by (cases "transport_recv A t (rm_inbound m)") auto
  show ?case
  proof (cases x)
    case None
    have "audio_streams (arrivals_of A t turns) \<subseteq> S" using Cons.prems(2) turn x None by simp
    then obtain sh' rx' where "run_rx A D t own turns (?sh, rx) = Some (Inr (sh', rx'))" "receiving wide S (sh', rx')"
      "\<And>s le. s \<noteq> own \<Longrightarrow> s \<noteq> 0 \<Longrightarrow> listening log s ?sh (rx_decoders rx) le \<Longrightarrow>
        listening log s sh' (rx_decoders rx') (foldl hear le (audio_of s (arrivals_of A t turns)))"
      using Cons.IH [OF r(1) _ rest] by blast
    then show ?thesis using r(2) x None turn b
      by (simp add: rx_iteration_def Let_def receiving_media_ok del: split_paired_All)
  next
    case (Some hp)
    obtain h p where hp: "hp = (h, p)" by fastforce
    have S: "is_audio (ph_kind h) \<Longrightarrow> ph_ssrc h \<in> S" "audio_streams (arrivals_of A t turns) \<subseteq> S"
      using Cons.prems(2) turn x Some hp by (simp_all add: audio_streams_Cons split: if_splits)
    obtain sh1 rx1 where one: "rx_packet D own (rm_then m) h p (?sh, rx) = Some (Inr (sh1, rx1))"
      "receiving wide S (sh1, rx1)"
      "\<And>s le. s \<noteq> own \<Longrightarrow> s \<noteq> 0 \<Longrightarrow> listening log s ?sh (rx_decoders rx) le \<Longrightarrow>
          listening log s sh1 (rx_decoders rx1) (foldl hear le (audio_of s [(rm_then m, h, p)]))"
      using rx_packet_steps [OF assms(1-4) r(1) S(1), of own "rm_then m" p] by blast
    obtain sh' rx' where two: "run_rx A D t own turns (sh1, rx1) = Some (Inr (sh', rx'))" "receiving wide S (sh', rx')"
      "\<And>s le. s \<noteq> own \<Longrightarrow> s \<noteq> 0 \<Longrightarrow> listening log s sh1 (rx_decoders rx1) le \<Longrightarrow>
        listening log s sh' (rx_decoders rx') (foldl hear le (audio_of s (arrivals_of A t turns)))"
      using Cons.IH [OF one(2) S(2) rest] by blast
    have "listening log s sh' (rx_decoders rx') (foldl hear le (audio_of s (arrivals_of A t (turn # turns))))"
      if "s \<noteq> own" "s \<noteq> 0" "listening log s sh (rx_decoders rx) le" for s le
      using two(3) [OF that(1,2) one(3) [OF that(1,2)]] that(3) turn x Some hp
      by (simp add: receiving_media_ok audio_of_Cons [of s "(rm_then m, h, p)" "arrivals_of A t turns"])
    moreover have "run_rx A D t own (turn # turns) (sh, rx) = Some (Inr (sh', rx'))"
      using r(2) one(1) two(1) x Some hp turn b by (simp add: rx_iteration_def Let_def)
    ultimately show ?thesis using two(2) by blast
  qed
qed

section \<open>A call\<close>

text \<open>The turns in which the copies with the numbers \<open>order\<close> arrive from \<open>relay\<close>.\<close>

definition deliveries ::
  "aead \<Rightarrow> session_key \<Rightarrow> socket_addr \<Rightarrow> (packet_header \<times> byte list) list \<Rightarrow> nat list
    \<Rightarrow> ((shared \<Rightarrow> shared) \<times> rx_moment) list" where
  "deliveries A key relay packets order =
     map (\<lambda>i. (\<lambda>sh. sh, \<lparr>rm_now = 0, rm_inbound = Arrived (sealed A key (fst (packets ! i)) (snd (packets ! i))) relay,
                   rm_then = 0\<rparr>)) order"

lemma arrivals_of_deliveries:
  assumes "aead_laws A" "\<forall>(h, p) \<in> set packets. length p \<le> MAX_PAYLOAD" "set order \<subseteq> {..<length packets}"
    "same_ip relay (tr_relay t)" "tr_key t = key"
  shows "arrivals_of A t (deliveries A key relay packets order) = map (\<lambda>i. (0, packets ! i)) order
    \<and> (\<forall>(b, m) \<in> set (deliveries A key relay packets order). b = (\<lambda>sh. sh) \<and> \<not> isl (transport_recv A t (rm_inbound m)))"
  using assms(3)
proof (induction order)
  case (Cons i order)
  obtain h p where hp: "packets ! i = (h, p)" by fastforce
  have "packets ! i \<in> set packets" using Cons.prems by simp
  then have "length p \<le> MAX_PAYLOAD" using assms(2) hp by auto
  from transport_recv_sealed [OF assms(1) this assms(4), of h]
  show ?case using Cons hp assms(5) by (simp add: deliveries_def)
qed (simp add: deliveries_def)

lemma voice_sent_payloads:
  assumes "aead_laws A" "\<forall>x \<in> set out. \<exists>h p. x = (relay, sealed A key h p) \<and> length p \<le> MAX_PAYLOAD"
  shows "(h, p) \<in> set (voice_sent A key out) \<Longrightarrow>
    length p \<le> MAX_PAYLOAD \<and> ph_kind h = media_kind.Voice \<and> (relay, sealed A key h p) \<in> set out"
  using assms(2)
proof (induction out)
  case (Cons x out)
  then obtain h' p' where x: "x = (relay, sealed A key h' p')" "length p' \<le> MAX_PAYLOAD" by auto
  have "voice_sent A key (x # out) = (if ph_kind h' = media_kind.Voice then [(h', p')] else []) @ voice_sent A key out"
    using voice_sent_append [of A key "[x]" out] voice_sent_one [OF assms(1) x(2)] x(1) by simp
  then show ?case using Cons x by (auto split: if_splits)
qed simp

lemma out_headers:
  assumes "\<forall>x \<in> set out. \<exists>h p. x = f h p \<and> P h p"
  shows "\<exists>hps. out = map (\<lambda>(h, p). f h p) hps \<and> (\<forall>(h, p) \<in> set hps. P h p)"
  using assms
proof (induction out)
  case (Cons x out)
  then obtain h p hps where "x = f h p" "P h p" "out = map (\<lambda>(h, p). f h p) hps" "\<forall>(h, p) \<in> set hps. P h p"
    by auto
  then show ?case by (intro exI [of _ "(h, p) # hps"]) simp
qed simp


section \<open>An example\<close>

lemma cleanup_process_held:
  "\<exists>oc frame' c'. cleanup_process S gain (Some held) frame c = (oc, frame', c')
    \<and> oc_open oc = held \<and> length frame' = length frame"
  by (auto simp: cleanup_process_def copy_over_def Let_def split: option.splits prod.splits bool.splits)

text \<open>An encoder that counts, and a session whose user holds the talk key with one frame captured.\<close>

definition counting_encoder :: "(unit, u8) tx_libs" where
  "counting_encoder =
     \<lparr>tl_aead = toy_aead,
      tl_sound = \<lparr>db_pow = \<lambda>x. x, db_log = \<lambda>x. x, dn_new = (), dn_frame = \<lambda>d frame. (0, frame, d)\<rparr>,
      tl_encode = \<lambda>n chunk. (Some [n], n + 1)\<rparr>"

definition talking :: shared where
  "talking = (shared_new (default_voice\<lparr>vs_push_to_talk := True\<rparr>))
     \<lparr>sh_talk_key_held := True, sh_capture := snd (push (ring_new CAPTURE_RING) (replicate FRAME 0))\<rparr>"

definition free_time :: tx_moment where
  "free_time = \<lparr>tm_now = 0, tm_keepalive_ok = False, tm_send_ok = \<lambda>_. True\<rparr>"

definition at_relay :: transport where
  "at_relay = \<lparr>tr_relay = AddrV4 1 9000, tr_key = random_key [7]\<rparr>"

lemma talking_frame: "\<exists>r. take_frame_samples talking = (replicate FRAME 0, talking\<lparr>sh_capture := r\<rparr>)"
  "ring_len (sh_capture talking) = FRAME"
proof -
  have c: "CAPTURE_RING = 24000" by (simp add: CAPTURE_RING_def VOICE_SAMPLE_RATE_def)
  have pw: "next_power_of_two 24000 = 32768"
    by (simp add: next_power_of_two_def next_power_from.simps)
  have new: "ring_inv (ring_new CAPTURE_RING)" "contents (ring_new CAPTURE_RING) = []"
    using ring_new_spec [of CAPTURE_RING] c by simp_all
  have cap: "ring_capacity (ring_new CAPTURE_RING) = 32767"
    unfolding c ring_new_def pw by (simp add: ring_capacity_def)
  let ?r = "sh_capture talking"
  have "?r = snd (push (ring_new CAPTURE_RING) (replicate FRAME 0))" by (simp add: talking_def)
  then obtain n where push: "push (ring_new CAPTURE_RING) (replicate FRAME 0) = (n, ?r)" by (metis prod.collapse)
  have r: "ring_inv ?r" "contents ?r = replicate FRAME 0"
    using push_spec [OF new(1) push] unfolding new(2) cap by (simp_all add: FRAME_def)
  then show "ring_len ?r = FRAME" by (metis contents_length length_replicate)
  obtain m out r' where pop: "pop ?r (replicate FRAME 0) = ((m, out), r')" by (metis prod.exhaust)
  show "\<exists>r. take_frame_samples talking = (replicate FRAME 0, talking\<lparr>sh_capture := r\<rparr>)"
    using pop_spec [OF r(1) pop] r(2) pop by (auto simp: take_frame_samples_def Let_def)
qed

lemma quiet_keepalive:
  "\<exists>tx1. keepalive counting_encoder at_relay 1 0 False tx = (tx1, []) \<and> tx_pending tx1 = tx_pending tx
    \<and> tx_seq tx1 = tx_seq tx \<and> tx_timestamp tx1 = tx_timestamp tx \<and> tx_encoder tx1 = tx_encoder tx"
  using transport_send_fits [OF toy_aead_laws, of REGISTRATION_PLAINTEXT False at_relay]
  by (auto simp: keepalive_def transport_register_def counting_encoder_def Let_def)

lemma talking_turn:
  assumes "tx_iteration counting_encoder at_relay 1 free_time (talking, tx) = ((sh', tx'), out)"
  shows "tx_pending tx = [] \<Longrightarrow> out = [] \<and> length (tx_pending tx') = FRAME
      \<and> tx_seq tx' = tx_seq tx \<and> tx_timestamp tx' = tx_timestamp tx \<and> tx_encoder tx' = tx_encoder tx"
    and "length (tx_pending tx) = FRAME \<Longrightarrow> out = [(tr_relay at_relay, sealed toy_aead (tr_key at_relay)
        \<lparr>ph_kind = media_kind.Voice, ph_ssrc = 1, ph_seq = tx_seq tx + 1, ph_timestamp = tx_timestamp tx + 960\<rparr>
        [tx_encoder tx])]"
proof -
  obtain tx1 where k: "keepalive counting_encoder at_relay 1 0 False tx = (tx1, [])" "tx_pending tx1 = tx_pending tx"
    "tx_seq tx1 = tx_seq tx" "tx_timestamp tx1 = tx_timestamp tx" "tx_encoder tx1 = tx_encoder tx"
    using quiet_keepalive by blast
  let ?tx1 = "pick_up_settings counting_encoder talking tx1"
  have f: "tx_pending ?tx1 = tx_pending tx" "tx_seq ?tx1 = tx_seq tx" "tx_timestamp ?tx1 = tx_timestamp tx"
    "tx_encoder ?tx1 = tx_encoder tx"
    by (simp_all add: pick_up_settings_def k)
  obtain r where r: "take_frame_samples talking = (replicate FRAME 0, talking\<lparr>sh_capture := r\<rparr>)"
    using talking_frame(1) by blast
  let ?sh = "talking\<lparr>sh_capture := r\<rparr>"
  have sh: "sh_push_to_talk ?sh" "sh_talk_key_held ?sh" "\<not> sh_muted ?sh" "\<not> sh_deafened ?sh"
    by (simp_all add: talking_def) (simp_all add: shared_new_def default_voice_def)
  obtain oc fr c where p: "cleanup_process (tl_sound counting_encoder) (sh_gain ?sh) (Some True) (replicate FRAME 0)
      (tx_cleanup ?tx1) = (oc, fr, c)" "oc_open oc" "length fr = FRAME"
    using cleanup_process_held [of "tl_sound counting_encoder" "sh_gain ?sh" True "replicate FRAME 0" "tx_cleanup ?tx1"]
    by auto
  let ?sh1 = "?sh\<lparr>sh_input_level := oc_level oc, sh_gate_open := True\<rparr>"
  have on: "transmitting ?sh1" using sh by (simp add: transmitting_def)
  define sh2 where "sh2 = (if tx_was_speaking ?tx1 then ?sh1 else ?sh1\<lparr>sh_speaking := True\<rparr>)"
  define tx2 where "tx2 = (if tx_was_speaking ?tx1 then ?tx1\<lparr>tx_cleanup := c\<rparr>
      else ?tx1\<lparr>tx_cleanup := c, tx_was_speaking := True\<rparr>)"
  have f2: "tx_pending tx2 = tx_pending tx" "tx_seq tx2 = tx_seq tx" "tx_timestamp tx2 = tx_timestamp tx"
    "tx_encoder tx2 = tx_encoder tx"
    by (simp_all add: tx2_def f)
  obtain left sh3 tx3 out3 where sp: "send_pending counting_encoder at_relay 1 (\<lambda>_. True) True True
      (tx_pending tx @ fr) (sh2, tx2) = (left, (sh3, tx3), out3)"
    by (metis prod.exhaust)
  have "send_frame counting_encoder at_relay 1 (\<lambda>_. True) (replicate FRAME 0) (?sh, ?tx1)
      = ((sh3, tx3\<lparr>tx_pending := left\<rparr>), out3)"
    using p(1,2) on sh sp f(1) by (auto simp: send_frame_def Let_def sh2_def tx2_def split: if_splits)
  then have "tx' = tx3\<lparr>tx_pending := left\<rparr>" "out = out3"
    using assms k(1) r talking_frame(2) by (auto simp: tx_iteration_def free_time_def Let_def)
  note res = this
  show "out = [] \<and> length (tx_pending tx') = FRAME
      \<and> tx_seq tx' = tx_seq tx \<and> tx_timestamp tx' = tx_timestamp tx \<and> tx_encoder tx' = tx_encoder tx"
    if "tx_pending tx = []"
    using sp that p(3) f2 by (simp add: res send_pending.simps FRAME_def VOICE_FRAME_SAMPLES_eq)
  show "out = [(tr_relay at_relay, sealed toy_aead (tr_key at_relay)
        \<lparr>ph_kind = media_kind.Voice, ph_ssrc = 1, ph_seq = tx_seq tx + 1, ph_timestamp = tx_timestamp tx + 960\<rparr>
        [tx_encoder tx])]" if "length (tx_pending tx) = FRAME"
  proof -
    have len: "length (tx_pending tx @ fr) = 960" using that p(3) by (simp add: FRAME_def)
    obtain st1 out1 where c: "send_chunk counting_encoder at_relay 1 True True True (tx_pending tx @ fr) (sh2, tx2) = (st1, out1)"
      by fastforce
    have "out3 = out1"
      using sp len c by (simp add: send_pending.simps [of _ _ _ _ _ _ "tx_pending tx @ fr"]
        send_pending.simps [of _ _ _ _ _ _ "[]"] VOICE_FRAME_SAMPLES_eq Let_def split: prod.splits)
    moreover have "out1 = [(tr_relay at_relay, sealed toy_aead (tr_key at_relay)
        \<lparr>ph_kind = media_kind.Voice, ph_ssrc = 1, ph_seq = tx_seq tx + 1, ph_timestamp = tx_timestamp tx + 960\<rparr>
        [tx_encoder tx])]"
      using c f2 transport_send_fits [OF toy_aead_laws, of "[tx_encoder tx]" True at_relay]
      by (auto simp: send_chunk_def packet_due_def counting_encoder_def VOICE_FRAME_SAMPLES_eq)
    ultimately show ?thesis using res(2) by simp
  qed
qed

definition two_turns :: "((shared \<Rightarrow> shared) \<times> tx_moment) list" where
  "two_turns = [(\<lambda>_. talking, free_time), (\<lambda>_. talking, free_time)]"

definition first_word :: "packet_header \<times> byte list" where
  "first_word = (\<lparr>ph_kind = media_kind.Voice, ph_ssrc = 1, ph_seq = 1, ph_timestamp = 960\<rparr>, [5])"

lemma two_turns_send:
  "\<exists>st. run_tx counting_encoder at_relay 1 two_turns (talking, tx_start counting_encoder 5 0 talking)
    = (st, [(tr_relay at_relay, sealed toy_aead (tr_key at_relay) (fst first_word) (snd first_word))])"
proof -
  let ?tx = "tx_start counting_encoder 5 0 talking"
  have stop: "\<not> sh_stop talking" by (simp add: talking_def) (simp add: shared_new_def)
  obtain sh1 tx1 out1 where one: "tx_iteration counting_encoder at_relay 1 free_time (talking, ?tx) = ((sh1, tx1), out1)"
    by (metis prod.exhaust)
  obtain sh2 tx2 out2 where two: "tx_iteration counting_encoder at_relay 1 free_time (talking, tx1) = ((sh2, tx2), out2)"
    by (metis prod.exhaust)
  have start: "tx_pending ?tx = []" "tx_seq ?tx = 0" "tx_timestamp ?tx = 0" "tx_encoder ?tx = 5"
    by (simp_all add: tx_start_def)
  from talking_turn(1) [OF one start(1)] start talking_turn(2) [OF two]
  have "out1 = []" "out2 = [(tr_relay at_relay, sealed toy_aead (tr_key at_relay) (fst first_word) (snd first_word))]"
    by (simp_all add: first_word_def)
  then show ?thesis using one two stop by (simp add: two_turns_def)
qed

lemma call_state_in_call: "in_call call_state media_kind.Voice 1 addr_a addr_b"
  by (simp add: in_call_def call_state_def call_joined_def bind_media_address_def fresh_member_def wants_def
      hmap_ok_def)


end
