(* ===== verification/ShareCall.thy ===== *)
theory ShareCall
  imports ShareProps AnnexbProps RecvOrder VoiceCall
begin

text \<open>
  A screen share from end to end: the bytes the encoder writes into a pipe, cut into pictures,
  paced, sealed, relayed to a watcher, opened by the watcher's receive thread and put together
  again.
\<close>

section \<open>In order into the tap\<close>

text \<open>The packets of one picture, all with one timestamp, and of several.\<close>

definition packets_of :: "u32 \<Rightarrow> share_picture \<Rightarrow> packet list \<Rightarrow> bool" where
  "packets_of ssrc p hps \<longleftrightarrow> length hps = length (fragment (sp_data p))
   \<and> (\<exists>ts. \<forall>i < length hps. ph_kind (fst (hps ! i)) = (if sp_keyframe p then VideoKey else VideoDelta)
        \<and> ph_ssrc (fst (hps ! i)) = ssrc \<and> ph_timestamp (fst (hps ! i)) = ts
        \<and> (\<exists>index cnt chunk. fragment (sp_data p) ! i = (index, cnt, chunk)
             \<and> snd (hps ! i) = write_fragment index cnt chunk []))"

fun carries :: "u32 \<Rightarrow> share_picture list \<Rightarrow> packet list \<Rightarrow> bool" where
  "carries ssrc [] hps \<longleftrightarrow> hps = []"
| "carries ssrc (p # ps) hps \<longleftrightarrow> (\<exists>mine rest. hps = mine @ rest \<and> packets_of ssrc p mine \<and> carries ssrc ps rest)"

definition sendable :: "share_picture \<Rightarrow> bool" where
  "sendable p \<longleftrightarrow> sp_data p \<noteq> [] \<and> length (fragment (sp_data p)) < 2 ^ 16"

text \<open>The reassembler with only \<open>k\<close> pieces of one picture in it.\<close>

definition holds :: "byte list \<Rightarrow> u32 \<Rightarrow> nat \<Rightarrow> reassembler \<Rightarrow> bool" where
  "holds frame ts k r \<longleftrightarrow> building r = (if k = 0 then [] else [(ts, pieces_of frame {..<k})])"

lemma note_newest_small:
  assumes "length (building r) \<le> 1"
  shows "\<exists>n. note_newest r d ts = (r\<lparr>newest := n\<rparr>, d)"
  using assms by (cases r) (auto simp: note_newest_def Let_def split: option.splits)

lemma fragments_positive: "data \<noteq> [] \<Longrightarrow> 0 < length (fragment data)"
  by (cases data) (auto simp: length_fragment)

lemma feed_in_order:
  assumes ok: "data \<noteq> []" "length (fragment data) < 2 ^ 16" and i: "i < length (fragment data)"
    and f: "fragment data ! i = (index, cnt, chunk)" "payload = write_fragment index cnt chunk []"
    and h: "ph_timestamp h = ts" and r: "holds data ts i r"
  shows "\<exists>r'. feed r d h payload = ((if Suc i = length (fragment data) then Some data else None), r', d)
    \<and> holds data ts (if Suc i = length (fragment data) then 0 else Suc i) r'"
proof -
  let ?n = "length (fragment data)"
  have fr: "index = word_of_nat i" "cnt = word_of_nat ?n" "chunk = chunks MAX_VIDEO_CHUNK data ! i"
    using f(1) fragment_nth [OF i] by simp_all
  have u: "unat index = i" "unat cnt = ?n"
    using ok(2) i by (simp_all add: fr unsigned_of_nat take_bit_nat_eq_self)
  have read: "read_fragment payload = Some (index, cnt, chunk)"
    unfolding f(2) using fragment_index_lt [OF ok(2) i] fr by (intro read_write_fragment) simp
  show ?thesis
  proof (cases "cnt = 1")
    case True
    then have n: "?n = 1" using u(2) by simp
    then have "i = 0" using i by simp
    moreover have "chunk = data" using fragment_concat [of data] n f(1) \<open>i = 0\<close>
      by (cases "fragment data") auto
    ultimately show ?thesis using read True n r note_newest_small [of r d ts] h
      by (auto simp: feed_def holds_def)
  next
    case False
    then have n: "1 < ?n" using u(2) i by (metis One_nat_def Suc_lessI less_one linorder_neqE_nat unsigned_1 word_unat_eq_iff gr_implies_not0)
    let ?p = "case hget (building r) ts of None \<Rightarrow> fresh_partial cnt | Some p \<Rightarrow> p"
    have p: "?p = pieces_of data {..<i}"
      using r u by (auto simp: holds_def fresh_partial_def pieces_of_def map_replicate_const)
    have len: "length (pt_pieces (pieces_of data S)) = ?n" for S by (simp add: pieces_of_def)
    have add: "add_piece ?p (unat index) chunk = pieces_of data {..<Suc i}"
      unfolding p u fr(3) using add_piece_of [OF i, of "{..<i}"] by (simp add: lessThan_Suc)
    have have_i: "pt_have (pieces_of data {..<Suc i}) = Suc i" by (simp add: pieces_of_def)
    have one: "hinsert ts (pieces_of data {..<Suc i}) (building r) = [(ts, pieces_of data {..<Suc i})]"
      using r by (auto simp: holds_def)
    let ?r = "r\<lparr>building := [(ts, pieces_of data {..<Suc i})]\<rparr>"
    obtain nw where nn: "note_newest ?r d ts = (?r\<lparr>newest := nw\<rparr>, d)" using note_newest_small [of ?r d ts] by auto
    have "feed r d h payload = (if Suc i = ?n then (Some data, ?r\<lparr>newest := nw, building := []\<rparr>, d)
        else (None, ?r\<lparr>newest := nw\<rparr>, d))"
      using read False h p add have_i one nn u len pieces_of_all [of data]
      by (simp add: feed_def Let_def)
    then show ?thesis by (auto simp: holds_def)
  qed
qed

text \<open>A tap between two pictures: what waits in its queue, and nothing half done or lost.\<close>

definition idle_tap :: "u32 \<Rightarrow> picture list \<Rightarrow> tap \<Rightarrow> bool" where
  "idle_tap ssrc queue t \<longleftrightarrow> tp_ssrc t = ssrc \<and> tp_queue t = queue \<and> tp_connected t
     \<and> building (tp_assembler t) = [] \<and> tp_dropped t = 0"

definition feed_tap :: "tap \<Rightarrow> packet list \<Rightarrow> tap" where
  "feed_tap t hps = foldl (\<lambda>t (h, payload). tap_feed t h payload) t hps"

lemma feed_tap_simps [simp]:
  "feed_tap t [] = t" "feed_tap t ((h, p) # hps) = feed_tap (tap_feed t h p) hps"
  "feed_tap t (xs @ ys) = feed_tap (feed_tap t xs) ys"
  by (simp_all add: feed_tap_def)

lemma tap_feed_piece:
  assumes "ph_ssrc h = tp_ssrc t" "is_video (ph_kind h)" "feed (tp_assembler t) (tp_dropped t) h payload = (out, r, tp_dropped t)"
    "tp_connected t" "length (tp_queue t) < tp_depth t"
  shows "tp_ssrc (tap_feed t h payload) = tp_ssrc t \<and> tp_connected (tap_feed t h payload)
    \<and> tp_depth (tap_feed t h payload) = tp_depth t \<and> tp_dropped (tap_feed t h payload) = tp_dropped t
    \<and> tp_assembler (tap_feed t h payload) = r
    \<and> tp_queue (tap_feed t h payload) =
        tp_queue t @ (case out of None \<Rightarrow> [] | Some data \<Rightarrow> [(ph_kind h = VideoKey, data)])"
  using assms by (auto simp: tap_feed_def Let_def try_send_def split: option.splits)

lemma feed_tap_picture:
  assumes p: "sendable p" and hps: "packets_of ssrc p hps"
    and t: "idle_tap ssrc queue t" and room: "length queue < tp_depth t"
  shows "idle_tap ssrc (queue @ [(sp_keyframe p, sp_data p)]) (feed_tap t hps)
    \<and> tp_depth (feed_tap t hps) = tp_depth t"
proof -
  let ?n = "length (fragment (sp_data p))"
  have ok: "sp_data p \<noteq> []" "?n < 2 ^ 16" using p by (simp_all add: sendable_def)
  have n: "0 < ?n" "length hps = ?n" using fragments_positive [OF ok(1)] hps by (simp_all add: packets_of_def)
  obtain ts where h: "\<And>i. i < ?n \<Longrightarrow> ph_kind (fst (hps ! i)) = (if sp_keyframe p then VideoKey else VideoDelta)
      \<and> ph_ssrc (fst (hps ! i)) = ssrc \<and> ph_timestamp (fst (hps ! i)) = ts
      \<and> (\<exists>index cnt chunk. fragment (sp_data p) ! i = (index, cnt, chunk)
           \<and> snd (hps ! i) = write_fragment index cnt chunk [])"
    using hps unfolding packets_of_def by metis
  have "let t' = feed_tap t (take k hps) in tp_ssrc t' = ssrc \<and> tp_connected t' \<and> tp_dropped t' = 0 \<and> tp_depth t' = tp_depth t
      \<and> holds (sp_data p) ts (if k = ?n then 0 else k) (tp_assembler t')
      \<and> tp_queue t' = queue @ (if k = ?n then [(sp_keyframe p, sp_data p)] else [])" if "k \<le> ?n" for k
    using that
  proof (induction k)
    case 0
    then show ?case using t n(1) by (simp add: idle_tap_def holds_def)
  next
    case (Suc i)
    let ?t = "feed_tap t (take i hps)"
    have i: "i < ?n" using Suc.prems by simp
    then have IH: "tp_ssrc ?t = ssrc" "tp_connected ?t" "tp_dropped ?t = 0" "tp_depth ?t = tp_depth t"
      "holds (sp_data p) ts i (tp_assembler ?t)" "tp_queue ?t = queue"
      using Suc.IH by (simp_all add: Let_def)
    obtain hd pl where hp: "hps ! i = (hd, pl)" by fastforce
    obtain index cnt chunk where f: "fragment (sp_data p) ! i = (index, cnt, chunk)" "pl = write_fragment index cnt chunk []"
      using h [OF i] hp by auto
    have k: "ph_kind hd = (if sp_keyframe p then VideoKey else VideoDelta)" "ph_ssrc hd = ssrc" "ph_timestamp hd = ts"
      using h [OF i] hp by auto
    obtain r where r: "feed (tp_assembler ?t) (tp_dropped ?t) hd pl = ((if Suc i = ?n then Some (sp_data p) else None), r, tp_dropped ?t)"
      "holds (sp_data p) ts (if Suc i = ?n then 0 else Suc i) r"
      using feed_in_order [OF ok i f k(3) IH(5)] by blast
    have video: "is_video (ph_kind hd)" by (simp add: k(1))
    have "length (tp_queue ?t) < tp_depth ?t" using IH room by simp
    note step = tap_feed_piece [OF _ video r(1) IH(2) this]
    have "take (Suc i) hps = take i hps @ [(hd, pl)]" using i n(2) hp by (simp add: take_Suc_conv_app_nth)
    then have "feed_tap t (take (Suc i) hps) = tap_feed ?t hd pl" by simp
    then show ?case using step IH k r(2) by (simp add: Let_def)
  qed
  from this [of ?n] n show ?thesis by (simp add: Let_def idle_tap_def holds_def)
qed

lemma feed_tap_pictures:
  assumes "\<forall>p \<in> set ps. sendable p" "carries ssrc ps hps" "idle_tap ssrc queue t" "length queue + length ps \<le> tp_depth t"
  shows "idle_tap ssrc (queue @ map (\<lambda>p. (sp_keyframe p, sp_data p)) ps) (feed_tap t hps)"
  using assms
proof (induction ps arbitrary: hps queue t)
  case (Cons p ps)
  obtain mine rest where m: "hps = mine @ rest" "packets_of ssrc p mine" "carries ssrc ps rest"
    using Cons.prems(2) by auto
  have "sendable p" "length queue < tp_depth t" using Cons.prems(1,4) by simp_all
  note one = feed_tap_picture [OF this(1) m(2) Cons.prems(3) this(2)]
  have "idle_tap ssrc ((queue @ [(sp_keyframe p, sp_data p)]) @ map (\<lambda>p. (sp_keyframe p, sp_data p)) ps) (feed_tap (feed_tap t mine) rest)"
    by (rule Cons.IH) (use Cons.prems m one in auto)
  then show ?case using m(1) by simp
qed simp

section \<open>Out of the wire\<close>

text \<open>The datagrams among what the wire did.\<close>

definition outs :: "act list \<Rightarrow> (socket_addr \<times> byte list) list" where
  "outs acts = List.map_filter (\<lambda>a. case a of Sleep d \<Rightarrow> None | Out x \<Rightarrow> Some x) acts"

lemma outs_simps [simp]:
  "outs [] = []" "outs (Sleep d # acts) = outs acts" "outs (Out x # acts) = x # outs acts"
  "outs (xs @ ys) = outs xs @ outs ys" "outs (map Out out) = out"
  by (induction out) (simp_all add: outs_def map_filter_def)

lemma fragment_fits:
  assumes "fr \<in> set (fragment data)" "fr = (index, cnt, chunk)"
  shows "length (write_fragment index cnt chunk []) \<le> MAX_PAYLOAD"
proof -
  have "chunk \<in> set (map (snd \<circ> snd) (fragment data))" using assms by force
  then have "chunk \<in> set (chunks MAX_VIDEO_CHUNK data)" unfolding fragment_data .
  then have "length chunk \<le> MAX_VIDEO_CHUNK" using chunk_bounds [of MAX_VIDEO_CHUNK chunk data] by simp
  then show ?thesis by (simp add: write_fragment_def)
qed

text \<open>What stays of the wire while it sends.\<close>

definition same_wire :: "wire \<Rightarrow> wire \<Rightarrow> bool" where
  "same_wire w w' \<longleftrightarrow> wr_transport w' = wr_transport w \<and> wr_ssrc w' = wr_ssrc w"

lemma put_fragment_sends:
  assumes "aead_laws A" "mo_ok mo" "length (write_fragment index cnt chunk []) \<le> MAX_PAYLOAD"
    "put_fragment A kind ts w mo (index, cnt, chunk) = (w', acts)"
  shows "same_wire w w' \<and> outs acts = [(tr_relay (wr_transport w), sealed A (tr_key (wr_transport w))
      \<lparr>ph_kind = kind, ph_ssrc = wr_ssrc w, ph_seq = wr_seq w + 1, ph_timestamp = ts\<rparr> (write_fragment index cnt chunk []))]"
  using assms(4) transport_send_fits [OF assms(1,3)] assms(2)
  by (auto simp: put_fragment_def Let_def same_wire_def split: prod.splits option.splits)

text \<open>The datagrams of packets, on their way to the relay.\<close>

definition datagrams :: "aead \<Rightarrow> transport \<Rightarrow> packet list \<Rightarrow> (socket_addr \<times> byte list) list" where
  "datagrams A t hps = map (\<lambda>(h, p). (tr_relay t, sealed A (tr_key t) h p)) hps"

lemma datagrams_simps [simp]:
  "datagrams A t [] = []" "datagrams A t (xs @ ys) = datagrams A t xs @ datagrams A t ys"
  "datagrams A t ((h, p) # hps) = (tr_relay t, sealed A (tr_key t) h p) # datagrams A t hps"
  by (simp_all add: datagrams_def)

definition fitting :: "packet list \<Rightarrow> bool" where
  "fitting hps \<longleftrightarrow> (\<forall>(h, p) \<in> set hps. length p \<le> MAX_PAYLOAD)"

lemma put_fragments_sends:
  assumes "aead_laws A" "\<And>i. mo_ok (moments i)"
    "\<forall>(index, cnt, chunk) \<in> set frs. length (write_fragment index cnt chunk []) \<le> MAX_PAYLOAD"
    "put_fragments A kind ts moments w frs = (w', acts)"
  shows "same_wire w w' \<and> (\<exists>hps. outs acts = datagrams A (wr_transport w) hps \<and> fitting hps \<and> length hps = length frs
    \<and> (\<forall>i < length frs. ph_kind (fst (hps ! i)) = kind \<and> ph_ssrc (fst (hps ! i)) = wr_ssrc w
         \<and> ph_timestamp (fst (hps ! i)) = ts
         \<and> (\<exists>index cnt chunk. frs ! i = (index, cnt, chunk) \<and> snd (hps ! i) = write_fragment index cnt chunk [])))"
  using assms(2-4)
proof (induction frs arbitrary: moments w w' acts)
  case Nil
  then show ?case by (simp add: same_wire_def fitting_def)
next
  case (Cons fr frs)
  obtain index cnt chunk where fr: "fr = (index, cnt, chunk)" by (metis prod_cases3)
  obtain w1 a1 where one: "put_fragment A kind ts w (moments 0) (index, cnt, chunk) = (w1, a1)" by fastforce
  obtain w2 a2 where two: "put_fragments A kind ts (moments \<circ> Suc) w1 frs = (w2, a2)" by fastforce
  have fit: "length (write_fragment index cnt chunk []) \<le> MAX_PAYLOAD" using Cons.prems(2) fr by simp
  note o = put_fragment_sends [OF assms(1) Cons.prems(1) fit one]
  let ?h = "\<lparr>ph_kind = kind, ph_ssrc = wr_ssrc w, ph_seq = wr_seq w + 1, ph_timestamp = ts\<rparr>"
  have res: "w' = w2" "acts = a1 @ a2" using Cons.prems(3) fr one two by simp_all
  have "\<And>i. mo_ok ((moments \<circ> Suc) i)" using Cons.prems(1) by simp
  from Cons.IH [OF this _ two] Cons.prems(2) obtain hps where hps: "same_wire w1 w2" "outs a2 = datagrams A (wr_transport w1) hps"
    "fitting hps" "length hps = length frs"
    "\<forall>i < length frs. ph_kind (fst (hps ! i)) = kind \<and> ph_ssrc (fst (hps ! i)) = wr_ssrc w1
         \<and> ph_timestamp (fst (hps ! i)) = ts
         \<and> (\<exists>index cnt chunk. frs ! i = (index, cnt, chunk) \<and> snd (hps ! i) = write_fragment index cnt chunk [])"
    by auto
  have "outs acts = datagrams A (wr_transport w) ((?h, write_fragment index cnt chunk []) # hps)"
    using o hps(2) by (simp add: res same_wire_def)
  moreover have "fitting ((?h, write_fragment index cnt chunk []) # hps)" using fit hps(3) by (simp add: fitting_def)
  ultimately show ?case using o hps(1,4,5) fr
    by (intro conjI exI [of _ "(?h, write_fragment index cnt chunk []) # hps"])
      (auto simp: res same_wire_def nth_Cons' less_Suc_eq_0_disj)
qed

lemma put_sends:
  assumes "aead_laws A" "\<And>i. mo_ok (moments i)" "put A rate now moments w p = (w', acts)"
  shows "same_wire w w' \<and> (\<exists>hps. outs acts = datagrams A (wr_transport w) hps \<and> fitting hps
    \<and> packets_of (wr_ssrc w) p hps)"
proof -
  define w1 where "w1 = offer_preview p (w\<lparr>wr_pacer := aim_at rate (wr_pacer w), wr_frames := wr_frames w + 1\<rparr>)"
  let ?kind = "if sp_keyframe p then VideoKey else VideoDelta"
  obtain ts where put: "put_fragments A ?kind ts moments w1 (fragment (sp_data p)) = (w', acts)"
    using assms(3) by (simp add: put_def Let_def w1_def)
  have w1: "same_wire w w1" by (auto simp: w1_def offer_preview_def same_wire_def split: option.splits)
  have "\<forall>(index, cnt, chunk) \<in> set (fragment (sp_data p)). length (write_fragment index cnt chunk []) \<le> MAX_PAYLOAD"
    using fragment_fits by fast
  from put_fragments_sends [OF assms(1,2) this put] w1 show ?thesis
    by (fastforce simp: packets_of_def same_wire_def)
qed

lemma carries_append: "carries ssrc ps xs \<Longrightarrow> carries ssrc qs ys \<Longrightarrow> carries ssrc (ps @ qs) (xs @ ys)"
proof (induction ps arbitrary: xs)
  case (Cons p ps)
  then obtain mine rest where "xs = mine @ rest" "packets_of ssrc p mine" "carries ssrc ps rest" by auto
  then show ?case using Cons by auto
qed simp

definition sends_pictures :: "aead \<Rightarrow> wire \<Rightarrow> wire \<Rightarrow> share_picture list \<Rightarrow> act list \<Rightarrow> bool" where
  "sends_pictures A w w' ps acts \<longleftrightarrow> same_wire w w'
   \<and> (\<exists>hps. outs acts = datagrams A (wr_transport w) hps \<and> fitting hps \<and> carries (wr_ssrc w) ps hps)"

lemma sends_pictures_Nil [simp]: "sends_pictures A w w [] []"
  by (simp add: sends_pictures_def same_wire_def fitting_def)

lemma sends_pictures_append:
  assumes "sends_pictures A w w1 ps a1" "sends_pictures A w1 w2 qs a2"
  shows "sends_pictures A w w2 (ps @ qs) (a1 @ a2)"
proof -
  obtain xs ys where "outs a1 = datagrams A (wr_transport w) xs" "fitting xs" "carries (wr_ssrc w) ps xs"
    "outs a2 = datagrams A (wr_transport w1) ys" "fitting ys" "carries (wr_ssrc w1) qs ys"
    using assms unfolding sends_pictures_def by blast
  then show ?thesis using assms carries_append [of "wr_ssrc w" ps xs qs ys]
    unfolding sends_pictures_def same_wire_def
    by (intro conjI exI [of _ "xs @ ys"]) (auto simp: fitting_def)
qed

lemma put_all_sends:
  assumes "aead_laws A"
  shows "(\<And>i j. mo_ok (ti_moments (ticks i) j)) \<Longrightarrow> put_all A ticks w ps = (w', acts) \<Longrightarrow> sends_pictures A w w' ps acts"
proof (induction ps arbitrary: ticks w w' acts)
  case (Cons p ps)
  obtain w1 a1 where one: "put A (ti_rate (ticks 0)) (ti_now (ticks 0)) (ti_moments (ticks 0)) w p = (w1, a1)" by fastforce
  obtain w2 a2 where two: "put_all A (ticks \<circ> Suc) w1 ps = (w2, a2)" by fastforce
  have res: "w' = w2" "acts = a1 @ a2" using Cons.prems(2) one two by simp_all
  have "sends_pictures A w w1 [p] a1"
    using put_sends [OF assms Cons.prems(1) one] by (auto simp: sends_pictures_def)
  moreover have "sends_pictures A w1 w2 ps a2" by (rule Cons.IH [OF _ two]) (simp add: Cons.prems(1))
  ultimately show ?case using sends_pictures_append [of A w w1 "[p]" a1 w2 ps a2] by (simp add: res)
qed simp

lemma pump_sends:
  assumes "aead_laws A"
  shows "\<forall>(bytes, ticks) \<in> set reads. bytes \<noteq> [] \<and> (\<forall>i j. mo_ok (ti_moments (ticks i) j)) \<Longrightarrow>
    feed_reads ax (map fst reads) = Some (ps, ax') \<Longrightarrow>
    \<exists>w' acts. pump A (ax, w) reads = Some ((ax', w'), acts) \<and> sends_pictures A w w' ps acts"
proof (induction reads arbitrary: ax w ps)
  case (Cons rd reads)
  obtain bytes ticks where rd: "rd = (bytes, ticks)" by fastforce
  obtain p1 ax1 p2 where f: "annexb_feed ax bytes = Some (p1, ax1)" "feed_reads ax1 (map fst reads) = Some (p2, ax')"
    "ps = p1 @ p2"
    using Cons.prems(2) rd by (auto split: option.splits)
  obtain w1 a1 where one: "put_all A ticks w p1 = (w1, a1)" by fastforce
  have s1: "sends_pictures A w w1 p1 a1"
    by (rule put_all_sends [OF assms _ one]) (use Cons.prems(1) rd in auto)
  have "\<forall>(bytes, ticks) \<in> set reads. bytes \<noteq> [] \<and> (\<forall>i j. mo_ok (ti_moments (ticks i) j))"
    using Cons.prems(1) by simp
  from Cons.IH [OF this f(2), of w1] obtain w2 a2 where two: "pump A (ax1, w1) reads = Some ((ax', w2), a2)"
    "sends_pictures A w1 w2 p2 a2"
    by blast
  have "pump A (ax, w) (rd # reads) = Some ((ax', w2), a1 @ a2)"
    using f(1) one two(1) Cons.prems(1) rd by simp
  then show ?case using sends_pictures_append [OF s1 two(2)] f(3) by blast
qed simp

section \<open>Into the watcher's session\<close>

lemma run_rx_video:
  assumes "\<forall>(b, m) \<in> set turns. b = (\<lambda>sh. sh) \<and> \<not> isl (transport_recv A t (rm_inbound m))"
    "\<not> sh_stop sh" "\<forall>(now, h, p) \<in> set (arrivals_of A t turns). is_video (ph_kind h)" "sh_video sh = Some tap"
  shows "\<exists>sh' rx'. run_rx A D t own turns (sh, rx) = Some (Inr (sh', rx'))
    \<and> sh_video sh' = Some (feed_tap tap (map snd (arrivals_of A t turns)))"
  using assms
proof (induction turns arbitrary: sh rx tap)
  case (Cons turn turns)
  obtain b m where turn: "turn = (b, m)" "b = (\<lambda>sh. sh)" using Cons.prems(1) by fastforce
  have rest: "\<forall>(b, m) \<in> set turns. b = (\<lambda>sh. sh) \<and> \<not> isl (transport_recv A t (rm_inbound m))"
    using Cons.prems(1) by simp
  obtain x where x: "transport_recv A t (rm_inbound m) = Inr x"
    using Cons.prems(1) turn by (cases "transport_recv A t (rm_inbound m)") auto
  let ?sh = "sh\<lparr>sh_media_ok := rm_now m - rx_last_keepalive rx < MEDIA_TIMEOUT\<rparr>"
  show ?case
  proof (cases x)
    case None
    have "\<forall>(now, h, p) \<in> set (arrivals_of A t turns). is_video (ph_kind h)" using Cons.prems(3) turn x None by simp
    from Cons.IH [OF rest _ this, of ?sh tap rx] show ?thesis
      using Cons.prems(2,4) turn x None by (simp add: rx_iteration_def Let_def)
  next
    case (Some hp)
    obtain h p where hp: "hp = (h, p)" by fastforce
    have v: "is_video (ph_kind h)" "\<forall>(now, h, p) \<in> set (arrivals_of A t turns). is_video (ph_kind h)"
      using Cons.prems(3) turn x Some hp by simp_all
    then have "ph_kind h \<noteq> Keepalive" by auto
    then have "rx_packet D own (rm_then m) h p (?sh, rx) = Some (Inr (?sh\<lparr>sh_video := Some (tap_feed tap h p)\<rparr>, rx))"
      using v(1) Cons.prems(4) by (simp add: rx_packet_def)
    then show ?thesis
      using Cons.IH [OF rest _ v(2), of "?sh\<lparr>sh_video := Some (tap_feed tap h p)\<rparr>" "tap_feed tap h p" rx]
        Cons.prems(2) turn x Some hp by (simp add: rx_iteration_def Let_def)
  qed
qed simp

lemma packets_of_each:
  assumes "packets_of ssrc p hps" "(h, pl) \<in> set hps"
  shows "ph_ssrc h = ssrc \<and> is_video (ph_kind h) \<and> is_screen (ph_kind h)"
proof -
  obtain i where "i < length hps" "hps ! i = (h, pl)" using assms(2) by (auto simp: in_set_conv_nth)
  then have "ph_kind h = (if sp_keyframe p then VideoKey else VideoDelta)" "ph_ssrc h = ssrc"
    using assms(1) unfolding packets_of_def by (metis fst_conv)+
  then show ?thesis by simp
qed

lemma carries_each:
  "carries ssrc ps hps \<Longrightarrow> (h, pl) \<in> set hps \<Longrightarrow> ph_ssrc h = ssrc \<and> is_video (ph_kind h) \<and> is_screen (ph_kind h)"
proof (induction ps arbitrary: hps)
  case (Cons p ps)
  then obtain mine rest where "hps = mine @ rest" "packets_of ssrc p mine" "carries ssrc ps rest" by auto
  then show ?case using Cons packets_of_each by auto
qed simp

text \<open>
  Claim C3. A screen share works from end to end. However the encoder's bytes are cut by the
  pipe and whatever the clock says, the pump does not stop; every datagram it sends goes through
  the relay to each subscribed member of the channel; and a watcher whom the copies reach in
  order, and whose queue has room, is handed exactly the pictures complete in the encoder's
  stream, each whole, in order, with its keyframe mark, and counts nothing as lost.
\<close>

theorem what_is_shared_is_shown:
  assumes laws: "aead_laws A"
    and pictures: "pictures = pictures_of (complete_units (concat (map fst reads)))" "\<forall>p \<in> set pictures. sendable p"
      "\<forall>(bytes, ticks) \<in> set reads. bytes \<noteq> [] \<and> (\<forall>i j. mo_ok (ti_moments (ticks i) j))"
    and call: "in_call hub VideoKey ssrc a b"
    and watcher: "tr_key t' = tr_key t" "same_ip relay (tr_relay t')" "\<not> sh_stop sh" "length pictures \<le> depth"
  shows "\<exists>rw acts hps.
    pump A (default_annexb, wire_new t ssrc preview start kbps) reads = Some (rw, acts)
    \<and> outs acts = datagrams A t hps
    \<and> (\<forall>(h, p) \<in> set hps. (b, sealed A (tr_key t) h p)
          \<in> set (snd (snd (serve A ok now (hub, st) (map (\<lambda>(_, d). Datagram d a) (outs acts))))))
    \<and> (\<exists>sh' rx' tap. run_rx A D t' own (deliveries A (tr_key t) relay hps [0..<length hps])
          (sh\<lparr>sh_video := Some (tap_pair ssrc depth)\<rparr>, rx) = Some (Inr (sh', rx'))
        \<and> sh_video sh' = Some tap \<and> tp_dropped tap = 0
        \<and> tp_queue tap = map (\<lambda>p. (sp_keyframe p, sp_data p)) pictures)"
proof -
  obtain ax where "feed_reads default_annexb (map fst reads) = Some (pictures, ax)"
    using feed_reads_total pictures(1) by blast
  from pump_sends [OF laws pictures(3) this, of "wire_new t ssrc preview start kbps"]
  obtain w acts hps where p: "pump A (default_annexb, wire_new t ssrc preview start kbps) reads = Some ((ax, w), acts)"
    "outs acts = datagrams A t hps" "fitting hps" "carries ssrc pictures hps"
    by (auto simp: sends_pictures_def wire_new_def)
  note each = carries_each [OF p(4)]
  have dg: "map (\<lambda>(_, d). Datagram d a) (outs acts) = map (\<lambda>(h, p). Datagram (sealed A (tr_key t) h p) a) hps"
    unfolding p(2) datagrams_def by (simp add: case_prod_unfold comp_def)
  obtain e hs sent where served: "serve A ok now (hub, st) (map (\<lambda>(h, p). Datagram (sealed A (tr_key t) h p) a) hps) = (e, hs, sent)"
    by (metis prod_cases3)
  have "\<forall>(h, p) \<in> set hps. length p \<le> MAX_PAYLOAD \<and> ph_ssrc h = ssrc
      \<and> (ph_kind h = Keepalive \<or> is_screen (ph_kind h) = is_screen VideoKey)"
    using p(3) each unfolding fitting_def by fastforce
  from serve_passes [OF laws this call, of ok now st "tr_key t" e "fst hs" "snd hs" sent] served
  have "\<forall>(h, p) \<in> set hps. ph_kind h \<noteq> Keepalive \<longrightarrow> (b, sealed A (tr_key t) h p) \<in> set sent" by simp
  then have sent: "\<forall>(h, p) \<in> set hps. (b, sealed A (tr_key t) h p) \<in> set sent"
    using each by fastforce
  let ?turns = "deliveries A (tr_key t) relay hps [0..<length hps]"
  have arr: "arrivals_of A t' ?turns = map (\<lambda>i. (0, hps ! i)) [0..<length hps]"
    "\<forall>(b, m) \<in> set ?turns. b = (\<lambda>sh. sh) \<and> \<not> isl (transport_recv A t' (rm_inbound m))"
    using arrivals_of_deliveries [OF laws p(3) [unfolded fitting_def] _ watcher(2,1), of "[0..<length hps]"]
    by (simp_all add: lessThan_atLeast0)
  have "is_video (ph_kind (fst (hps ! i)))" if "i < length hps" for i
    using each [of "fst (hps ! i)" "snd (hps ! i)"] nth_mem [OF that] by simp
  then have "\<forall>(now, h, p) \<in> set (arrivals_of A t' ?turns). is_video (ph_kind h)"
    unfolding arr(1) by (simp add: case_prod_unfold)
  from run_rx_video [OF arr(2) _ this, of "sh\<lparr>sh_video := Some (tap_pair ssrc depth)\<rparr>" "tap_pair ssrc depth" D own rx]
  obtain sh' rx' where run: "run_rx A D t' own ?turns (sh\<lparr>sh_video := Some (tap_pair ssrc depth)\<rparr>, rx) = Some (Inr (sh', rx'))"
    "sh_video sh' = Some (feed_tap (tap_pair ssrc depth) hps)"
    using watcher(3) unfolding arr(1) by (auto simp: comp_def map_nth)
  have "idle_tap ssrc [] (tap_pair ssrc depth)" "length [] + length pictures \<le> tp_depth (tap_pair ssrc depth)"
    using watcher(4) by (simp_all add: idle_tap_def tap_pair_def empty_reassembler_def)
  from feed_tap_pictures [OF pictures(2) p(4) this]
  have "tp_dropped (feed_tap (tap_pair ssrc depth) hps) = 0"
    "tp_queue (feed_tap (tap_pair ssrc depth) hps) = map (\<lambda>p. (sp_keyframe p, sp_data p)) pictures"
    by (simp_all add: idle_tap_def)
  note tap = this
  have relayed: "\<forall>(h, p) \<in> set hps. (b, sealed A (tr_key t) h p)
      \<in> set (snd (snd (serve A ok now (hub, st) (map (\<lambda>(_, d). Datagram d a) (outs acts)))))"
    unfolding dg served using sent by simp
  show ?thesis using p(1,2) relayed run tap by blast
qed

section \<open>An example\<close>

text \<open>Ada shares, and Bob watches.\<close>

definition watched_state :: hub_state where
  "watched_state = snd (watch (snd (start_screen call_state (Id 1)
     \<lparr>rq_width = 1280, rq_height = 720, rq_fps = 30, rq_kbps = 4000, rq_with_audio = False\<rparr>)) (Id 2) (Id 1))"

lemma watched_in_call: "in_call watched_state VideoKey 2 addr_a addr_b"
  by (simp add: watched_state_def watch_def start_screen_def in_call_def call_state_def call_joined_def
      bind_media_address_def fresh_member_def wants_def hmap_ok_def Let_def)

definition one_idr :: "(byte list \<times> (nat \<Rightarrow> tick)) list" where
  "one_idr = map (\<lambda>bytes. (bytes, \<lambda>_. \<lparr>ti_rate = 4000, ti_now = 0, ti_moments = \<lambda>_. \<lparr>mo_now = 0, mo_ok = True\<rparr>\<rparr>))
     [[0, 0, 0, 1, 0x67, 9, 0], [0, 1, 0x65, 5, 0, 0], [1]]"

lemma one_idr_pictures:
  "pictures_of (complete_units (concat (map fst one_idr))) =
     [\<lparr>sp_data = [0, 0, 0, 1, 0x67, 9, 0, 0, 0, 1, 0x65, 5], sp_keyframe = True\<rparr>]"
  by (simp add: one_idr_def complete_units_def trimmed_def pictures_of_def take_unit_def nal_type_def
      append_nal_def default_annexb_def)

theorem what_is_shared_is_shown_witness:
  "\<exists>rw acts hps sh' rx' tap.
    pump toy_aead (default_annexb, wire_new at_relay 2 None 0 4000) one_idr = Some (rw, acts)
    \<and> outs acts = datagrams toy_aead at_relay hps
    \<and> run_rx toy_aead filling_decoder at_relay 3
        (deliveries toy_aead (tr_key at_relay) (AddrV4 1 9000) hps [0..<length hps])
        ((shared_new default_voice)\<lparr>sh_video := Some (tap_pair 2 4)\<rparr>, rx_start 0) = Some (Inr (sh', rx'))
    \<and> sh_video sh' = Some tap \<and> tp_dropped tap = 0
    \<and> tp_queue tap = [(True, [0, 0, 0, 1, 0x67, 9, 0, 0, 0, 1, 0x65, 5])]"
proof -
  have ok: "\<forall>(bytes, ticks) \<in> set one_idr. bytes \<noteq> [] \<and> (\<forall>i j. mo_ok (ti_moments (ticks i) j))"
    by (simp add: one_idr_def)
  have relay: "same_ip (AddrV4 1 9000) (tr_relay at_relay)" by (simp add: at_relay_def)
  have go: "\<not> sh_stop (shared_new default_voice)" by (simp add: shared_new_def)
  have fits: "\<forall>p \<in> set (pictures_of (complete_units (concat (map fst one_idr)))). sendable p"
    "length (pictures_of (complete_units (concat (map fst one_idr)))) \<le> 4"
    by (simp_all add: one_idr_pictures sendable_def length_fragment)
  from what_is_shared_is_shown [OF toy_aead_laws refl fits(1) ok watched_in_call refl relay go fits(2),
      where st = new_stats and preview = None and start = 0 and kbps = 4000 and D = filling_decoder and own = 3
        and rx = "rx_start 0" and now = 0 and ok = "\<lambda>_. True"]
  show ?thesis unfolding one_idr_pictures by (simp only: list.map) fastforce
qed

end
