(* ===== verification/Api.thy ===== *)
theory Api
  imports Http Settings
begin

text \<open>
  The client's side of the server's HTTP endpoints, \<open>crates/boa-client/src/net/api.rs\<close>. The HTTP
  library (\<open>reqwest\<close>) and the JSON it reads are the argument \<open>http\<close>: what came back for a
  request, and how a body decodes. An \<open>anyhow\<close> error is its chain of sentences, the outermost
  first; \<open>{e}\<close> prints the first and \<open>{e:#}\<close> all of them.
\<close>

section \<open>Results\<close>

type_synonym chain = "rstring list"
type_synonym 'a result = "chain + 'a"

definition display :: "chain \<Rightarrow> rstring" where
  "display e = (case e of [] \<Rightarrow> [] | s # _ \<Rightarrow> s)"

fun alternate :: "chain \<Rightarrow> rstring" where
  "alternate [] = []"
| "alternate [s] = s"
| "alternate (s # e) = s @ str '': '' @ alternate e"

fun with_context :: "rstring \<Rightarrow> 'a result \<Rightarrow> 'a result" where
  "with_context s (Inl e) = Inl (s # e)"
| "with_context s (Inr x) = Inr x"

section \<open>Requests and replies\<close>

record server_probe =
  sp_name :: rstring
  sp_protocol_version :: u16
  sp_media_port :: u16
  sp_attachment_ttl_secs :: u64
  sp_max_upload_bytes :: u64
  sp_registration_open :: bool

record session =
  ss_token :: rstring
  ss_user :: user

datatype request =
    Get_info rstring                                        \<comment> \<open>URL\<close>
  | Post_credentials rstring credentials                    \<comment> \<open>URL, body\<close>
  | Post_file rstring rstring rstring "byte list"           \<comment> \<open>URL, name, bearer token, body\<close>
  | Get_file rstring rstring                                \<comment> \<open>URL, bearer token\<close>

text \<open>A status and a body, or the error met while reading the body.\<close>

record reply =
  rp_status :: nat
  rp_body :: "byte list result"

record http =
  ht_send :: "request \<Rightarrow> reply result"
  ht_status_text :: "nat \<Rightarrow> rstring"
  ht_error :: "byte list \<Rightarrow> rstring result"
  ht_version :: "byte list \<Rightarrow> u16 result"
  ht_probe :: "byte list \<Rightarrow> server_probe result"
  ht_session :: "byte list \<Rightarrow> session result"
  ht_attachment :: "byte list \<Rightarrow> attachment result"

definition is_success :: "reply \<Rightarrow> bool" where
  "is_success r \<longleftrightarrow> 200 \<le> rp_status r \<and> rp_status r < 300"

text \<open>\<open>Response::json\<close>: the body, decoded.\<close>

definition json :: "(byte list \<Rightarrow> 'a result) \<Rightarrow> reply \<Rightarrow> 'a result" where
  "json reader r = (case rp_body r of Inl e \<Rightarrow> Inl e | Inr b \<Rightarrow> reader b)"

definition failure :: "http \<Rightarrow> reply \<Rightarrow> chain" where
  "failure H r =
     (case json (ht_error H) r of
        Inr sentence \<Rightarrow> [sentence]
      | Inl _ \<Rightarrow> [str ''the server answered '' @ ht_status_text H (rp_status r)])"

section \<open>Calls\<close>

text \<open>\<open>env!("CARGO_PKG_VERSION")\<close> and the platform's name are arguments.\<close>

definition agent :: "rstring \<Rightarrow> rstring \<Rightarrow> rstring" where
  "agent version os = str ''boa-client '' @ version @ [32] @ os"

definition server_protocol :: "http \<Rightarrow> rstring \<Rightarrow> u16 option" where
  "server_protocol H base =
     (case ht_send H (Get_info (base @ str ''/api/info'')) of
        Inl _ \<Rightarrow> None
      | Inr r \<Rightarrow>
          if \<not> is_success r then None
          else (case json (ht_version H) r of Inl _ \<Rightarrow> None | Inr version \<Rightarrow> Some version))"

definition probe_refusal :: "server_probe \<Rightarrow> rstring" where
  "probe_refusal p =
     sp_name p @ str '' speaks protocol '' @ decimal (unat (sp_protocol_version p))
     @ str '' and this client speaks '' @ decimal (unat MIN_PROTOCOL_VERSION) @ [8211]
     @ decimal (unat PROTOCOL_VERSION) @ [32, 8212] @ str '' one of the two needs updating''"

definition probe :: "http \<Rightarrow> rstring \<Rightarrow> server_probe result" where
  "probe H base =
     (case with_context (str ''reaching '' @ base) (ht_send H (Get_info (base @ str ''/api/info''))) of
        Inl e \<Rightarrow> Inl e
      | Inr r \<Rightarrow>
          if \<not> is_success r then Inl (failure H r)
          else
            (case with_context (str ''reading the server's reply'') (json (ht_probe H) r) of
               Inl e \<Rightarrow> Inl e
             | Inr p \<Rightarrow>
                 if sp_protocol_version p < MIN_PROTOCOL_VERSION \<or> sp_protocol_version p > PROTOCOL_VERSION
                 then Inl [probe_refusal p]
                 else Inr p))"

definition post_credentials :: "http \<Rightarrow> rstring \<Rightarrow> rstring \<Rightarrow> rstring \<Rightarrow> rstring \<Rightarrow> rstring \<Rightarrow> session result" where
  "post_credentials H us url name password display_name =
     (case with_context (str ''sending credentials'')
             (ht_send H (Post_credentials url
               \<lparr>cd_name = name, cd_password = password, cd_display_name = display_name, cd_agent = us\<rparr>)) of
        Inl e \<Rightarrow> Inl e
      | Inr r \<Rightarrow>
          if \<not> is_success r then Inl (failure H r)
          else with_context (str ''reading the server's reply'') (json (ht_session H) r))"

definition register :: "http \<Rightarrow> rstring \<Rightarrow> rstring \<Rightarrow> rstring \<Rightarrow> rstring \<Rightarrow> rstring \<Rightarrow> session result" where
  "register H us base name password display_name =
     post_credentials H us (base @ str ''/api/register'') name password display_name"

definition login :: "http \<Rightarrow> rstring \<Rightarrow> rstring \<Rightarrow> rstring \<Rightarrow> rstring \<Rightarrow> session result" where
  "login H us base name password = post_credentials H us (base @ str ''/api/login'') name password []"

definition upload :: "http \<Rightarrow> rstring \<Rightarrow> rstring \<Rightarrow> rstring \<Rightarrow> byte list \<Rightarrow> attachment result" where
  "upload H base token name bytes =
     (case with_context (str ''uploading'') (ht_send H (Post_file (base @ str ''/api/upload'') name token bytes)) of
        Inl e \<Rightarrow> Inl e
      | Inr r \<Rightarrow>
          if \<not> is_success r then Inl (failure H r)
          else with_context (str ''reading the upload's reply'') (json (ht_attachment H) r))"

datatype fetched = Bytes "byte list" | Expired

definition download :: "http \<Rightarrow> rstring \<Rightarrow> rstring \<Rightarrow> id \<Rightarrow> fetched result" where
  "download H base token attachment =
     (case with_context (str ''fetching an attachment'')
             (ht_send H (Get_file (base @ str ''/attachments/'' @ decimal (unat (id_val attachment))) token)) of
        Inl e \<Rightarrow> Inl e
      | Inr r \<Rightarrow>
          if rp_status r = 410 then Inr Expired
          else if \<not> is_success r then Inl (failure H r)
          else
            (case with_context (str ''reading attachment bytes'') (rp_body r) of
               Inl e \<Rightarrow> Inl e
             | Inr bytes \<Rightarrow> Inr (Bytes bytes)))"

section \<open>What a probe promises\<close>

lemma with_context_iff [simp]:
  "with_context s r = Inr x \<longleftrightarrow> r = Inr x" "with_context s r = Inl e \<longleftrightarrow> (\<exists>e'. r = Inl e' \<and> e = s # e')"
  by (cases r; auto)+

lemma probe_speaks:
  "probe H base = Inr p \<Longrightarrow>
   MIN_PROTOCOL_VERSION \<le> sp_protocol_version p \<and> sp_protocol_version p \<le> PROTOCOL_VERSION"
  by (auto simp: probe_def split: sum.splits if_splits)

lemma download_bytes:
  "download H base token i = Inr (Bytes bytes) \<longleftrightarrow>
   (\<exists>r. ht_send H (Get_file (base @ str ''/attachments/'' @ decimal (unat (id_val i))) token) = Inr r
      \<and> is_success r \<and> rp_body r = Inr bytes)"
  by (auto simp: download_def is_success_def split: sum.splits if_splits)

lemma download_expired:
  "download H base token i = Inr Expired \<longleftrightarrow>
   (\<exists>r. ht_send H (Get_file (base @ str ''/attachments/'' @ decimal (unat (id_val i))) token) = Inr r
      \<and> rp_status r = 410)"
  by (auto simp: download_def split: sum.splits if_splits)

end
