(* ===== verification/Cache.thy ===== *)
theory Cache
  imports Blobs
begin

text \<open>
  The client's own copies of attachments, \<open>crates/boa-client/src/cache.rs\<close>, and where they lie,
  \<open>crates/boa-client/src/paths.rs\<close>. The attachment directory is a map from file names to
  contents and modification times (milliseconds); a shard is the first two characters of the
  name. What the file system refuses is an argument of each operation.
\<close>

section \<open>Paths\<close>

text \<open>The platform's data directory and \<open>BOA_DATA_DIR\<close> are arguments; a path is its components.\<close>

definition APP :: rstring where "APP = str ''BoaVoice''"

definition resolve_data_dir :: "rstring list option \<Rightarrow> rstring list option \<Rightarrow> rstring list" where
  "resolve_data_dir variable platform =
     (case variable of
        Some path \<Rightarrow> path
      | None \<Rightarrow> (case platform of Some base \<Rightarrow> base @ [APP] | None \<Rightarrow> [APP]))"

definition settings_path :: "rstring list \<Rightarrow> rstring list" where
  "settings_path data_dir = data_dir @ [str ''settings.json'']"

definition attachment_dir :: "rstring list \<Rightarrow> rstring list" where
  "attachment_dir data_dir = data_dir @ [str ''attachments'']"

definition log_path :: "rstring list \<Rightarrow> rstring list" where
  "log_path data_dir = data_dir @ [str ''last-run.log'']"

definition attachment_path :: "rstring list \<Rightarrow> rstring \<Rightarrow> rstring list option" where
  "attachment_path data_dir sha256 =
     (if utf8_len sha256 \<noteq> 64 \<or> \<not> (\<forall>c \<in> set sha256. is_hexdigit c) then None
      else Some (attachment_dir data_dir @ [take 2 sha256, sha256]))"

section \<open>The store\<close>

type_synonym cache = "(rstring, byte list \<times> int) hmap"

text \<open>Only a digest names a file: \<open>cache::path\<close>, the name in the shard.\<close>

definition cache_path :: "rstring \<Rightarrow> rstring option" where
  "cache_path sha256 = (if is_digest sha256 then Some sha256 else None)"

definition part :: "rstring \<Rightarrow> rstring" where
  "part name = name @ str ''.part''"

definition cache_have :: "cache \<Rightarrow> rstring \<Rightarrow> bool" where
  "cache_have files sha256 \<longleftrightarrow> (\<exists>path. cache_path sha256 = Some path \<and> hget files path \<noteq> None)"

datatype cache_error = Not_a_digest | Wrong_hash rstring | Io

text \<open>
  What the file system does to the three steps of \<open>store\<close>: everything, or one of them fails, a
  write after some of the bytes.
\<close>

datatype store_outcome = Stored | No_directory | Torn_write "byte list" | No_rename

definition cache_store ::
  "(byte list \<Rightarrow> byte list) \<Rightarrow> store_outcome \<Rightarrow> int \<Rightarrow> cache \<Rightarrow> rstring \<Rightarrow> byte list
    \<Rightarrow> (cache_error + unit) \<times> cache" where
  "cache_store digest outcome now files sha256 bytes =
     (case cache_path sha256 of
        None \<Rightarrow> (Inl Not_a_digest, files)
      | Some path \<Rightarrow>
          let actual = sha256_hex digest bytes
          in if actual \<noteq> sha256 then (Inl (Wrong_hash actual), files)
             else
               (case outcome of
                  No_directory \<Rightarrow> (Inl Io, files)
                | Torn_write some_bytes \<Rightarrow> (Inl Io, hinsert (part path) (some_bytes, now) files)
                | No_rename \<Rightarrow> (Inl Io, hinsert (part path) (bytes, now) files)
                | Stored \<Rightarrow> (Inr (), hinsert path (bytes, now) (hremove (part path) files))))"

definition cache_read :: "cache \<Rightarrow> rstring \<Rightarrow> cache_error + byte list" where
  "cache_read files sha256 =
     (case cache_path sha256 of
        None \<Rightarrow> Inl Not_a_digest
      | Some path \<Rightarrow> (case hget files path of Some (bytes, _) \<Rightarrow> Inr bytes | None \<Rightarrow> Inl Io))"

text \<open>\<open>list\<close>: \<open>None\<close> where reading a directory fails.\<close>

definition cache_list :: "bool \<Rightarrow> cache \<Rightarrow> rstring list option" where
  "cache_list listable files = (if listable then Some (filter is_digest (map fst files)) else None)"

definition cache_total :: "bool \<Rightarrow> cache \<Rightarrow> nat" where
  "cache_total listable files =
     sum_list (map (\<lambda>path. case hget files path of Some (bytes, _) \<Rightarrow> length bytes | None \<Rightarrow> 0)
       (List.map_filter cache_path (case cache_list listable files of Some l \<Rightarrow> l | None \<Rightarrow> [])))"

text \<open>
  \<open>prune\<close>: \<open>checked\<close> says which times exist, \<open>hidden\<close> which files have no metadata, \<open>stuck\<close>
  which cannot be removed.
\<close>

definition prune_one :: "(rstring \<Rightarrow> bool) \<Rightarrow> (rstring \<Rightarrow> bool) \<Rightarrow> int \<Rightarrow> cache \<times> nat \<Rightarrow> rstring \<Rightarrow> cache \<times> nat"
  where
  "prune_one hidden stuck cutoff s sha =
     (case cache_path sha of
        None \<Rightarrow> s
      | Some path \<Rightarrow>
          if hidden path then s
          else (case hget (fst s) path of
                  None \<Rightarrow> s
                | Some (_, modified) \<Rightarrow>
                    if modified < cutoff \<and> \<not> stuck path then (hremove path (fst s), snd s + 1) else s))"

definition cache_prune ::
  "bool \<Rightarrow> (int \<Rightarrow> bool) \<Rightarrow> (rstring \<Rightarrow> bool) \<Rightarrow> (rstring \<Rightarrow> bool) \<Rightarrow> int \<Rightarrow> u32 \<Rightarrow> cache
    \<Rightarrow> nat option \<times> cache" where
  "cache_prune listable checked hidden stuck now days files =
     (if days = 0 then (Some 0, files)
      else
        let cutoff = now - int (unat days) * 86400 * 1000
        in if \<not> checked cutoff then (None, files)
           else (case cache_list listable files of
                   None \<Rightarrow> (None, files)
                 | Some shas \<Rightarrow>
                     (case foldl (prune_one hidden stuck cutoff) (files, 0) shas of
                        (files, removed) \<Rightarrow> (Some removed, files))))"

definition clear_one :: "(rstring \<Rightarrow> bool) \<Rightarrow> cache \<times> nat \<Rightarrow> rstring \<Rightarrow> cache \<times> nat" where
  "clear_one stuck s sha =
     (case cache_path sha of
        None \<Rightarrow> s
      | Some path \<Rightarrow>
          if hget (fst s) path = None \<or> stuck path then s else (hremove path (fst s), snd s + 1))"

definition cache_clear :: "bool \<Rightarrow> (rstring \<Rightarrow> bool) \<Rightarrow> cache \<Rightarrow> nat option \<times> cache" where
  "cache_clear listable stuck files =
     (case cache_list listable files of
        None \<Rightarrow> (None, files)
      | Some shas \<Rightarrow>
          (case foldl (clear_one stuck) (files, 0) shas of (files, removed) \<Rightarrow> (Some removed, files)))"

section \<open>Every file is what its name says\<close>

definition cache_ok :: "(byte list \<Rightarrow> byte list) \<Rightarrow> cache \<Rightarrow> bool" where
  "cache_ok digest files \<longleftrightarrow>
     (\<forall>name bytes t. is_digest name \<longrightarrow> hget files name = Some (bytes, t) \<longrightarrow> sha256_hex digest bytes = name)"

lemma cache_okD:
  "cache_ok digest files \<Longrightarrow> is_digest name \<Longrightarrow> hget files name = Some (bytes, t) \<Longrightarrow> sha256_hex digest bytes = name"
  by (simp add: cache_ok_def)

lemma hexdigits_short: "\<forall>c \<in> set s. is_hexdigit c \<Longrightarrow> utf8_len s = length s"
  by (induction s) (auto simp: utf8_len_def is_hexdigit_def)

lemma part_is_no_digest [simp]: "\<not> is_digest (part name)"
  by (auto simp: is_digest_def part_def str_def is_hexdigit_def)

lemma part_is_longer [simp]: "part name \<noteq> name" "name \<noteq> part name"
  by (simp_all add: part_def str_def)

lemma cache_path_simps [simp]:
  "is_digest sha \<Longrightarrow> cache_path sha = Some sha" "\<not> is_digest sha \<Longrightarrow> cache_path sha = None"
  by (simp_all add: cache_path_def)

lemma cache_have_iff: "cache_have files sha \<longleftrightarrow> is_digest sha \<and> hget files sha \<noteq> None"
  by (cases "is_digest sha") (simp_all add: cache_have_def)

lemma cache_ok_part: "cache_ok digest files \<Longrightarrow> cache_ok digest (hinsert (part name) x files)"
  by (auto simp: cache_ok_def hmap_simps)

lemma cache_ok_remove: "cache_ok digest files \<Longrightarrow> cache_ok digest (hremove name files)"
  by (auto simp: cache_ok_def hmap_simps split: if_splits)

lemma cache_ok_insert:
  "cache_ok digest files \<Longrightarrow> sha256_hex digest bytes = name \<Longrightarrow> cache_ok digest (hinsert name (bytes, t) files)"
  by (auto simp: cache_ok_def hmap_simps split: if_splits)

lemma cache_store_ok:
  "cache_ok digest files \<Longrightarrow> cache_ok digest (snd (cache_store digest outcome now files sha bytes))"
  by (cases "is_digest sha")
     (auto simp: cache_store_def Let_def split: store_outcome.split
       intro!: cache_ok_part cache_ok_insert cache_ok_remove)

lemma part_inj: "part name = other \<Longrightarrow> is_digest other \<Longrightarrow> False"
  using part_is_no_digest by blast

lemma cache_store_others:
  "is_digest name \<Longrightarrow> name \<noteq> sha \<Longrightarrow>
   hget (snd (cache_store digest outcome now files sha bytes)) name = hget files name"
  by (cases "is_digest sha")
     (auto simp: cache_store_def Let_def hmap_simps split: store_outcome.split dest: part_inj)

lemma cache_store_result:
  "fst (cache_store digest outcome now files sha bytes) = Inr () \<longleftrightarrow>
   is_digest sha \<and> sha256_hex digest bytes = sha \<and> outcome = Stored"
  by (cases "is_digest sha") (auto simp: cache_store_def Let_def split: store_outcome.split)

lemma cache_store_stored:
  "fst (cache_store digest outcome now files sha bytes) = Inr () \<Longrightarrow>
   hget (snd (cache_store digest outcome now files sha bytes)) sha = Some (bytes, now)"
  by (cases "is_digest sha")
     (auto simp: cache_store_def Let_def hmap_simps split: store_outcome.split if_splits)

text \<open>A failed store never touches a copy that is there.\<close>

lemma cache_store_failed:
  "fst (cache_store digest outcome now files sha bytes) \<noteq> Inr () \<Longrightarrow> is_digest name \<Longrightarrow>
   hget (snd (cache_store digest outcome now files sha bytes)) name = hget files name"
  by (cases "is_digest sha")
     (auto simp: cache_store_def Let_def hmap_simps split: store_outcome.split if_splits dest: part_inj)

section \<open>What the housekeeping removes\<close>

definition pruned :: "(rstring \<Rightarrow> bool) \<Rightarrow> (rstring \<Rightarrow> bool) \<Rightarrow> int \<Rightarrow> cache \<Rightarrow> rstring \<Rightarrow> bool" where
  "pruned hidden stuck cutoff files name \<longleftrightarrow>
     is_digest name \<and> \<not> hidden name \<and> \<not> stuck name
     \<and> (\<exists>bytes t. hget files name = Some (bytes, t) \<and> t < cutoff)"

lemma prune_one_get:
  "hget (fst (prune_one hidden stuck cutoff s sha)) name =
     (if name = sha \<and> pruned hidden stuck cutoff (fst s) sha then None else hget (fst s) name)"
  by (cases "is_digest sha")
     (auto simp: prune_one_def pruned_def hmap_simps split: option.split prod.split)

lemma prune_loop_get:
  "hget (fst (foldl (prune_one hidden stuck cutoff) s shas)) name =
     (if name \<in> set shas \<and> pruned hidden stuck cutoff (fst s) name then None else hget (fst s) name)"
proof (induction shas arbitrary: s)
  case (Cons sha shas)
  let ?s = "prune_one hidden stuck cutoff s sha"
  have "pruned hidden stuck cutoff (fst ?s) name \<longleftrightarrow>
      pruned hidden stuck cutoff (fst s) name \<and> \<not> (name = sha \<and> pruned hidden stuck cutoff (fst s) sha)"
    using prune_one_get [of hidden stuck cutoff s sha name] by (auto simp: pruned_def [of _ _ _ _ name])
  then show ?case
    using Cons [of ?s] prune_one_get [of hidden stuck cutoff s sha name] by auto
qed simp

lemma hget_listed: "hget files name = Some x \<Longrightarrow> name \<in> fst ` set files"
  using hget_keys [of files name] by auto

lemma hget_unlisted: "name \<notin> fst ` set files \<Longrightarrow> hget files name = None"
  using hget_keys [of files name] by auto

lemma cache_prune_get:
  assumes "days \<noteq> 0" "checked (now - int (unat days) * 86400 * 1000)" "listable"
  shows "hget (snd (cache_prune listable checked hidden stuck now days files)) name =
    (if pruned hidden stuck (now - int (unat days) * 86400 * 1000) files name then None else hget files name)"
  using assms
    prune_loop_get [of hidden stuck "now - int (unat days) * 86400 * 1000" "(files, 0)" "filter is_digest (map fst files)" name]
  by (auto simp: cache_prune_def Let_def cache_list_def pruned_def split: prod.split intro: hget_listed)

lemma cache_prune_ok:
  "cache_ok digest files \<Longrightarrow> cache_ok digest (snd (cache_prune listable checked hidden stuck now days files))"
proof -
  assume ok: "cache_ok digest files"
  have step: "cache_ok digest (fst (prune_one hidden stuck c s sha))" if "cache_ok digest (fst s)" for c s sha
    using that cache_ok_remove [of digest "fst s"]
    by (cases "is_digest sha") (auto simp: prune_one_def split: option.split)
  have "cache_ok digest (fst (foldl (prune_one hidden stuck c) s shas))" if "cache_ok digest (fst s)" for c s shas
    using that step by (induction shas arbitrary: s) auto
  then have "cache_ok digest (fst (foldl (prune_one hidden stuck c) (files, 0) shas))" for c shas
    using ok by simp
  then show ?thesis
    using ok by (auto simp: cache_prune_def Let_def split: option.split prod.split) (metis fst_conv)
qed

lemma clear_one_get:
  "hget (fst (clear_one stuck s sha)) name =
     (if name = sha \<and> is_digest sha \<and> \<not> stuck sha then None else hget (fst s) name)"
  by (cases "is_digest sha") (auto simp: clear_one_def hmap_simps)

lemma clear_loop_get:
  "hget (fst (foldl (clear_one stuck) s shas)) name =
     (if name \<in> set shas \<and> is_digest name \<and> \<not> stuck name then None else hget (fst s) name)"
  by (induction shas arbitrary: s) (auto simp: clear_one_get)

lemma cache_clear_get:
  assumes "listable"
  shows "hget (snd (cache_clear listable stuck files)) name =
    (if is_digest name \<and> \<not> stuck name then None else hget files name)"
  using assms clear_loop_get [of stuck "(files, 0)" "filter is_digest (map fst files)" name]
  by (auto simp: cache_clear_def cache_list_def split: prod.split intro: hget_listed hget_unlisted)

lemma cache_clear_ok:
  "cache_ok digest files \<Longrightarrow> cache_ok digest (snd (cache_clear listable stuck files))"
  by (cases listable) (auto simp: cache_ok_def cache_clear_get, auto simp: cache_clear_def cache_list_def)

end
