(* ===== verification/Net.thy ===== *)
theory Net
  imports Api Cache
begin

text \<open>
  The client's network thread, \<open>crates/boa-client/src/net/mod.rs\<close>: the main loop that keeps at
  most one control connection and decides when to try again, one control connection from
  handshake to close, and the tasks that upload and fetch attachments. One \<open>select!\<close> branch of
  a loop is one input; what a branch starts or sends is a list of effects. Times are
  milliseconds. The socket, the clock and JSON are in the inputs or arguments.
\<close>

section \<open>Commands and events\<close>

datatype command =
    Probe rstring
  | Register rstring rstring rstring rstring              \<comment> \<open>base, name, password, display name\<close>
  | LogIn rstring rstring rstring
  | Connect rstring rstring                               \<comment> \<open>base, token\<close>
  | Disconnect
  | Send client_msg
  | SendWithFiles id rstring rstring "(rstring \<times> byte list) list"
  | WantAttachment attachment

datatype status =
    Offline | Connecting | Connected | Reconnecting u64 | Rejected rstring

datatype net_event =
    Status status
  | Probed "rstring + server_probe"
  | Authenticated "rstring + session"
  | Server server_msg
  | AttachmentReady id rstring
  | AttachmentGone id
  | Trouble rstring

datatype conn_end = Dropped rstring | End_rejected rstring

section \<open>The main loop\<close>

text \<open>The live connection is named by its generation; the queue behind it is in the world below.\<close>

record net =
  n_link :: "u64 option"
  n_target :: "(rstring \<times> rstring) option"
  n_attempt :: u32
  n_generation :: u64
  n_retry_at :: "nat option"

definition net_start :: net where
  "net_start = \<lparr>n_link = None, n_target = None, n_attempt = 0, n_generation = 0, n_retry_at = None\<rparr>"

text \<open>Tasks the loop spawns, frames it queues for a connection, and events it sends.\<close>

datatype net_effect =
    Ask_probe rstring
  | Ask_register rstring rstring rstring rstring
  | Ask_login rstring rstring rstring
  | Open rstring rstring u64                              \<comment> \<open>base, token, generation\<close>
  | Forward u64 client_msg
  | Upload_and_send u64 rstring rstring id rstring rstring "(rstring \<times> byte list) list"
  | Fetch rstring rstring attachment
  | Tell net_event

definition retry_delay :: "u32 \<Rightarrow> u64" where
  "retry_delay attempt =
     (if attempt = 0 \<or> attempt = 1 then 1
      else if attempt = 2 then 2
      else if attempt = 3 then 5
      else if attempt = 4 then 10
      else 30)"

definition not_connected :: net_event where
  "not_connected = Trouble (str ''not connected'')"

fun on_command :: "net \<Rightarrow> command \<Rightarrow> net \<times> net_effect list" where
  "on_command n (Probe base) = (n, [Ask_probe base])"
| "on_command n (Register base name password display_name) = (n, [Ask_register base name password display_name])"
| "on_command n (LogIn base name password) = (n, [Ask_login base name password])"
| "on_command n (Connect base token) =
     (let generation = n_generation n + 1
      in (n\<lparr>n_target := Some (base, token), n_attempt := 1, n_retry_at := None, n_generation := generation,
            n_link := Some generation\<rparr>,
          [Tell (Status Connecting), Open base token generation]))"
| "on_command n Disconnect =
     (n\<lparr>n_target := None, n_attempt := 0, n_retry_at := None, n_generation := n_generation n + 1, n_link := None\<rparr>,
      [Tell (Status Offline)])"
| "on_command n (Send msg) =
     (case n_link n of
        Some generation \<Rightarrow> (n, [Forward generation msg])
      | None \<Rightarrow> (n, [Tell not_connected]))"
| "on_command n (SendWithFiles channel content key files) =
     (case n_target n of
        None \<Rightarrow> (n, [Tell not_connected])
      | Some (base, token) \<Rightarrow>
          (case n_link n of
             None \<Rightarrow> (n, [Tell not_connected])
           | Some generation \<Rightarrow> (n, [Upload_and_send generation base token channel content key files])))"
| "on_command n (WantAttachment attachment) =
     (case n_target n of
        None \<Rightarrow> (n, [])
      | Some (base, token) \<Rightarrow> (n, [Fetch base token attachment]))"

definition on_end :: "nat \<Rightarrow> net \<Rightarrow> u64 \<Rightarrow> conn_end \<Rightarrow> net \<times> net_effect list" where
  "on_end now n from_generation reason =
     (if n_link n \<noteq> Some from_generation then (n, [])
      else
        let n = n\<lparr>n_link := None\<rparr>
        in if n_target n = None then (n, [])
           else
             (case reason of
                End_rejected why \<Rightarrow>
                  (n\<lparr>n_target := None, n_attempt := 0, n_retry_at := None\<rparr>, [Tell (Status (Rejected why))])
              | Dropped why \<Rightarrow>
                  let attempt = n_attempt n + 1;
                      delay = retry_delay attempt
                  in (n\<lparr>n_attempt := attempt, n_retry_at := Some (now + 1000 * unat delay)\<rparr>,
                      [Tell (Status (Reconnecting delay))])))"

text \<open>\<open>wait_until\<close> is a branch that is ready only once the deadline has come.\<close>

definition due :: "nat \<Rightarrow> nat option \<Rightarrow> bool" where
  "due now deadline = (case deadline of Some at \<Rightarrow> at \<le> now | None \<Rightarrow> False)"

definition on_retry :: "net \<Rightarrow> net \<times> net_effect list" where
  "on_retry n =
     (let n = n\<lparr>n_retry_at := None\<rparr>
      in case n_target n of
           None \<Rightarrow> (n, [])
         | Some (base, token) \<Rightarrow>
             let generation = n_generation n + 1
             in (n\<lparr>n_generation := generation, n_link := Some generation\<rparr>,
                 [Tell (Status Connecting), Open base token generation]))"

section \<open>One control connection\<close>

definition net_ws_url :: "rstring \<Rightarrow> rstring" where
  "net_ws_url base =
     (let base = trim_slashes base
      in case strip_prefix (str ''https://'') base of
           Some rest \<Rightarrow> str ''wss://'' @ rest @ str ''/ws''
         | None \<Rightarrow>
             (case strip_prefix (str ''http://'') base of
                Some rest \<Rightarrow> str ''ws://'' @ rest @ str ''/ws''
              | None \<Rightarrow> str ''ws://'' @ base @ str ''/ws''))"

text \<open>The version to announce, from what the server says it speaks.\<close>

definition speaking :: "u16 option \<Rightarrow> u16" where
  "speaking theirs = (case theirs of Some v \<Rightarrow> min v PROTOCOL_VERSION | None \<Rightarrow> PROTOCOL_VERSION)"

definition identify :: "rstring \<Rightarrow> rstring \<Rightarrow> u16 option \<Rightarrow> client_msg" where
  "identify us token theirs = Identify token (speaking theirs) us"

datatype frame =
    Text_frame rstring | Close_frame "(rstring \<times> rstring) option" | Ping_frame | Pong_frame
  | Binary_frame | Raw_frame

text \<open>
  What wakes a connection: a frame, an error or the end of the stream; a message to send, or
  all senders gone; the keepalive. The last component of a send is the socket's error, if any.
\<close>

datatype conn_input =
    Incoming "frame result option"
  | Outgoing "client_msg option" "chain option"
  | Keepalive u64 "chain option"

datatype conn_next = Running bool | Finished "conn_end result"

definition sending :: "rstring \<Rightarrow> bool \<Rightarrow> chain option \<Rightarrow> conn_next" where
  "sending doing ready fault =
     (case fault of None \<Rightarrow> Running ready | Some e \<Rightarrow> Finished (Inl (doing # e)))"

text \<open>One turn of the loop: whether it goes on, the events sent and the frames written.\<close>

definition conn_step ::
  "(rstring \<Rightarrow> server_msg option) \<Rightarrow> bool \<Rightarrow> conn_input \<Rightarrow> conn_next \<times> net_event list \<times> client_msg list" where
  "conn_step parse ready input =
     (case input of
        Incoming None \<Rightarrow> (Finished (Inr (Dropped (str ''the server closed the connection''))), [], [])
      | Incoming (Some (Inl e)) \<Rightarrow> (Finished (Inl (str ''reading a frame'' # e)), [], [])
      | Incoming (Some (Inr f)) \<Rightarrow>
          (case f of
             Text_frame t \<Rightarrow>
               (case parse t of
                  None \<Rightarrow> (Running ready, [], [])
                | Some msg \<Rightarrow>
                    (case msg of
                       Error code message True \<Rightarrow> (Finished (Inr (End_rejected message)), [], [])
                     | Ready _ _ _ _ _ \<Rightarrow>
                         (Running True, (if ready then [] else [Status Connected]) @ [Server msg], [])
                     | _ \<Rightarrow> (Running ready, [Server msg], [])))
           | Close_frame why \<Rightarrow>
               (Finished (Inr (Dropped (case why of
                   Some (code, reason) \<Rightarrow> code @ str '': '' @ reason | None \<Rightarrow> str ''closed''))), [], [])
           | _ \<Rightarrow> (Running ready, [], []))
      | Outgoing None _ \<Rightarrow> (Finished (Inr (Dropped (str ''replaced''))), [], [])
      | Outgoing (Some msg) fault \<Rightarrow>
          (sending (str ''sending a frame'') ready fault, [], if fault = None then [msg] else [])
      | Keepalive now fault \<Rightarrow>
          (sending (str ''keepalive'') ready fault, [], if fault = None then [Ping now] else []))"

text \<open>How \<open>open\<close> reports what became of a connection.\<close>

definition reported :: "conn_end result \<Rightarrow> conn_end" where
  "reported r = (case r of Inr e \<Rightarrow> e | Inl chain \<Rightarrow> Dropped (alternate chain))"

section \<open>Uploading and fetching\<close>

definition trouble :: "rstring \<Rightarrow> chain \<Rightarrow> net_event" where
  "trouble doing e = Trouble (doing @ str '': '' @ display e)"

text \<open>One turn of the loop over the files of a message: the identifiers so far, the events.\<close>

definition upload_one ::
  "(rstring \<Rightarrow> byte list \<Rightarrow> attachment result) \<Rightarrow> id list \<times> net_event list \<Rightarrow> rstring \<times> byte list
    \<Rightarrow> id list \<times> net_event list" where
  "upload_one put s file =
     (case put (fst file) (snd file) of
        Inr a \<Rightarrow> (fst s @ [at_id a], snd s)
      | Inl e \<Rightarrow> (fst s, snd s @ [trouble (str ''uploading '' @ fst file) e]))"

definition upload_then_send ::
  "(rstring \<Rightarrow> byte list \<Rightarrow> attachment result) \<Rightarrow> id \<Rightarrow> rstring \<Rightarrow> rstring \<Rightarrow> (rstring \<times> byte list) list
    \<Rightarrow> client_msg option \<times> net_event list" where
  "upload_then_send put channel content key files =
     (let s = foldl (upload_one put) ([], []) files
      in (if trim content = [] \<and> fst s = [] then None
          else Some (SendMessage channel content key (fst s)), snd s))"

text \<open>
  The chain an error of the cache prints; how a string is quoted (\<open>{:?}\<close>) and the sentences of the
  file system are arguments.
\<close>

definition cache_chain :: "(rstring \<Rightarrow> rstring) \<Rightarrow> chain \<Rightarrow> rstring \<Rightarrow> cache_error \<Rightarrow> chain" where
  "cache_chain debug io sha256 e =
     (case e of
        Not_a_digest \<Rightarrow> [debug sha256 @ str '' is not a SHA-256 digest'']
      | Wrong_hash actual \<Rightarrow> [str ''those bytes hash to '' @ actual @ str '', not to '' @ sha256]
      | Io \<Rightarrow> io)"

definition fetch_attachment ::
  "(byte list \<Rightarrow> byte list) \<Rightarrow> store_outcome \<Rightarrow> (rstring \<Rightarrow> rstring) \<Rightarrow> chain \<Rightarrow> int \<Rightarrow> (id \<Rightarrow> fetched result) \<Rightarrow> attachment \<Rightarrow> cache
    \<Rightarrow> net_event list \<times> cache" where
  "fetch_attachment digest outcome debug io now get a files =
     (if cache_have files (at_sha256 a) then ([AttachmentReady (at_id a) (at_sha256 a)], files)
      else
        (case get (at_id a) of
           Inr (Bytes bytes) \<Rightarrow>
             (case cache_store digest outcome now files (at_sha256 a) bytes of
                (Inr _, files) \<Rightarrow> ([AttachmentReady (at_id a) (at_sha256 a)], files)
              | (Inl e, files) \<Rightarrow>
                  ([trouble (str ''saving '' @ at_name a) (cache_chain debug io (at_sha256 a) e)], files))
         | Inr Expired \<Rightarrow> ([AttachmentGone (at_id a)], files)
         | Inl e \<Rightarrow> ([trouble (str ''downloading '' @ at_name a) e], files)))"

end
