(* ===== verification/NetProps.thy ===== *)
theory NetProps
  imports Net SessionProps
begin

text \<open>
  The network thread as a whole: the main loop, the connection tasks it starts, the reports they
  make and the upload tasks that still hold a sender, interleaved by a step relation. The client
  never gives up on a server it was told to stay connected to, and what it announces is what a
  server that knows an older protocol accepts.
\<close>

section \<open>The thread and its tasks\<close>

text \<open>A running connection: its generation, the messages queued for it and its \<open>ready\<close> flag.\<close>

type_synonym task = "u64 \<times> client_msg list \<times> bool"

text \<open>An upload task: the generation whose sender it holds, and the message it will send.\<close>

type_synonym upload_task = "u64 \<times> id \<times> rstring \<times> rstring \<times> (rstring \<times> byte list) list"

record net_world =
  nw_now :: nat
  nw_net :: net
  nw_tasks :: "task list"
  nw_ends :: "(u64 \<times> conn_end) list"
  nw_uploads :: "upload_task list"
  nw_events :: "net_event list"

definition net_world_start :: net_world where
  "net_world_start = \<lparr>nw_now = 0, nw_net = net_start, nw_tasks = [], nw_ends = [], nw_uploads = [], nw_events = []\<rparr>"

definition queue_for :: "u64 \<Rightarrow> client_msg \<Rightarrow> task list \<Rightarrow> task list" where
  "queue_for g msg tasks = map (\<lambda>(h, q, ready). (h, if h = g then q @ [msg] else q, ready)) tasks"

fun run_effect :: "net_world \<Rightarrow> net_effect \<Rightarrow> net_world" where
  "run_effect w (Open base token g) = w\<lparr>nw_tasks := nw_tasks w @ [(g, [], False)]\<rparr>"
| "run_effect w (Forward g msg) = w\<lparr>nw_tasks := queue_for g msg (nw_tasks w)\<rparr>"
| "run_effect w (Upload_and_send g base token channel content key files) =
     w\<lparr>nw_uploads := nw_uploads w @ [(g, channel, content, key, files)]\<rparr>"
| "run_effect w (Tell e) = w\<lparr>nw_events := nw_events w @ [e]\<rparr>"
| "run_effect w _ = w"

definition turn :: "net_world \<Rightarrow> net \<times> net_effect list \<Rightarrow> net_world" where
  "turn w r = foldl run_effect (w\<lparr>nw_net := fst r\<rparr>) (snd r)"

text \<open>What may wake a connection: \<open>None\<close> from its queue only once nobody holds a sender.\<close>

fun wakes :: "net_world \<Rightarrow> u64 \<Rightarrow> client_msg list \<Rightarrow> conn_input \<Rightarrow> client_msg list \<Rightarrow> bool" where
  "wakes w g queued (Outgoing (Some msg) fault) rest \<longleftrightarrow> queued = msg # rest"
| "wakes w g queued (Outgoing None fault) rest \<longleftrightarrow>
     queued = [] \<and> rest = [] \<and> n_link (nw_net w) \<noteq> Some g \<and> g \<notin> fst ` set (nw_uploads w)"
| "wakes w g queued input rest \<longleftrightarrow> rest = queued"

definition after_conn :: "net_world \<Rightarrow> task list \<Rightarrow> u64 \<Rightarrow> client_msg list \<Rightarrow> task list \<Rightarrow>
    conn_next \<times> net_event list \<times> client_msg list \<Rightarrow> net_world" where
  "after_conn w before g queued after r =
     (case r of (next_state, events, written) \<Rightarrow>
        (case next_state of
           Running ready \<Rightarrow>
             w\<lparr>nw_tasks := before @ (g, queued, ready) # after, nw_events := nw_events w @ events\<rparr>
         | Finished result \<Rightarrow>
             w\<lparr>nw_tasks := before @ after, nw_ends := nw_ends w @ [(g, reported result)],
               nw_events := nw_events w @ events\<rparr>))"

inductive net_step :: "(rstring \<Rightarrow> server_msg option) \<Rightarrow> net_world \<Rightarrow> net_world \<Rightarrow> bool" for parse where
  ns_time: "nw_now w \<le> now \<Longrightarrow> net_step parse w (w\<lparr>nw_now := now\<rparr>)"
| ns_command: "net_step parse w (turn w (on_command (nw_net w) c))"
| ns_end: "nw_ends w = (g, reason) # ends \<Longrightarrow>
    net_step parse w (turn (w\<lparr>nw_ends := ends\<rparr>) (on_end (nw_now w) (nw_net w) g reason))"
| ns_retry: "due (nw_now w) (n_retry_at (nw_net w)) \<Longrightarrow> net_step parse w (turn w (on_retry (nw_net w)))"
| ns_refused: "nw_tasks w = before @ (g, queued, ready) # after \<Longrightarrow>
    net_step parse w (after_conn w before g queued after (Finished (Inl e), [], []))"
| ns_conn: "nw_tasks w = before @ (g, queued, ready) # after \<Longrightarrow> wakes w g queued input rest \<Longrightarrow>
    net_step parse w (after_conn w before g rest after (conn_step parse ready input))"
| ns_upload: "nw_uploads w = before @ (g, channel, content, key, files) # after \<Longrightarrow>
    upload_then_send put channel content key files = (msg, events) \<Longrightarrow>
    net_step parse w (w\<lparr>nw_uploads := before @ after, nw_events := nw_events w @ events,
      nw_tasks := (case msg of Some m \<Rightarrow> queue_for g m (nw_tasks w) | None \<Rightarrow> nw_tasks w)\<rparr>)"

section \<open>Never without a connection or a time to try again\<close>

definition alive :: "u64 \<Rightarrow> net_world \<Rightarrow> bool" where
  "alive g w \<longleftrightarrow> g \<in> fst ` set (nw_tasks w) \<or> g \<in> fst ` set (nw_ends w)"

definition loop_ok :: "nat \<Rightarrow> net \<Rightarrow> bool" where
  "loop_ok now n \<longleftrightarrow>
     (if n_target n = None then n_link n = None \<and> n_retry_at n = None
      else (n_link n = None) \<noteq> (n_retry_at n = None))
   \<and> (\<forall>t. n_retry_at n = Some t \<longrightarrow> t \<le> now + 30000)"

definition net_ok :: "net_world \<Rightarrow> bool" where
  "net_ok w \<longleftrightarrow> loop_ok (nw_now w) (nw_net w) \<and> (\<forall>g. n_link (nw_net w) = Some g \<longrightarrow> alive g w)"

lemma retry_delay_values: "retry_delay a \<in> {1, 2, 5, 10, 30}"
  by (simp add: retry_delay_def)

lemma retry_delay_bound: "unat (retry_delay a) \<le> 30"
  using retry_delay_values [of a] by auto

lemma queue_for_names [simp]: "fst ` set (queue_for g msg tasks) = fst ` set tasks"
  by (force simp: queue_for_def)

lemma on_command_ok: "loop_ok now n \<Longrightarrow> loop_ok now (fst (on_command n c))"
  by (cases c) (auto simp: loop_ok_def Let_def split: option.splits if_splits)

lemma on_end_ok: "loop_ok now n \<Longrightarrow> loop_ok now (fst (on_end now n g reason))"
  using retry_delay_bound [of "n_attempt n + 1"]
  by (auto simp: loop_ok_def on_end_def Let_def split: conn_end.split if_splits)

lemma on_retry_ok: "loop_ok now n \<Longrightarrow> n_retry_at n \<noteq> None \<Longrightarrow> loop_ok now (fst (on_retry n))"
  by (auto simp: loop_ok_def on_retry_def Let_def split: option.split if_splits)

text \<open>Whoever the loop links to after a turn was linked before, or has just been opened.\<close>

definition opens :: "net_effect list \<Rightarrow> u64 \<Rightarrow> bool" where
  "opens es g \<longleftrightarrow> (\<exists>base token. Open base token g \<in> set es)"

lemma command_link: "n_link (fst (on_command n c)) = Some g \<Longrightarrow> n_link n = Some g \<or> opens (snd (on_command n c)) g"
  by (cases c) (auto simp: Let_def opens_def split: option.splits)

lemma end_link: "n_link (fst (on_end now n h reason)) = Some g \<Longrightarrow> n_link n = Some g \<and> g \<noteq> h"
  by (auto simp: on_end_def Let_def split: conn_end.splits if_splits)

lemma retry_link: "n_link (fst (on_retry n)) = Some g \<Longrightarrow> n_link n = Some g \<or> opens (snd (on_retry n)) g"
  by (auto simp: on_retry_def Let_def opens_def split: option.splits)

lemma run_effects:
  "nw_net (foldl run_effect w es) = nw_net w" "nw_now (foldl run_effect w es) = nw_now w"
  "nw_ends (foldl run_effect w es) = nw_ends w"
  "g \<in> fst ` set (nw_tasks (foldl run_effect w es)) \<longleftrightarrow> g \<in> fst ` set (nw_tasks w) \<or> opens es g"
proof -
  have one: "nw_net (run_effect w e) = nw_net w" "nw_now (run_effect w e) = nw_now w"
    "nw_ends (run_effect w e) = nw_ends w"
    "g \<in> fst ` set (nw_tasks (run_effect w e)) \<longleftrightarrow> g \<in> fst ` set (nw_tasks w) \<or> opens [e] g" for w e
    by (cases e; auto simp: opens_def)+
  show "nw_net (foldl run_effect w es) = nw_net w" "nw_now (foldl run_effect w es) = nw_now w"
    "nw_ends (foldl run_effect w es) = nw_ends w"
    "g \<in> fst ` set (nw_tasks (foldl run_effect w es)) \<longleftrightarrow> g \<in> fst ` set (nw_tasks w) \<or> opens es g"
    by (induction es arbitrary: w) (auto simp: one opens_def)
qed

lemma turn_ok:
  assumes "loop_ok (nw_now w) (fst r)"
    and "\<And>g. n_link (fst r) = Some g \<Longrightarrow> alive g w \<or> opens (snd r) g"
  shows "net_ok (turn w r)"
  using assms by (auto simp: net_ok_def turn_def run_effects alive_def)

lemma after_conn_ok:
  assumes "net_ok w" and "nw_tasks w = before @ (g, queued, ready) # after"
  shows "net_ok (after_conn w before g rest after r)"
  using assms by (cases r) (auto simp: net_ok_def after_conn_def alive_def split: conn_next.split)

lemma net_ok_step: "net_step parse w w' \<Longrightarrow> net_ok w \<Longrightarrow> net_ok w'"
proof (induction rule: net_step.induct)
  case (ns_time w now)
  then show ?case by (auto simp: net_ok_def loop_ok_def alive_def intro: order_trans)
next
  case (ns_command w c)
  then show ?case
    by (intro turn_ok on_command_ok) (auto simp: net_ok_def dest: command_link)
next
  case (ns_end w g reason ends)
  have "alive h (w\<lparr>nw_ends := ends\<rparr>)" if "n_link (fst (on_end (nw_now w) (nw_net w) g reason)) = Some h" for h
    using end_link [OF that] ns_end by (auto simp: net_ok_def alive_def)
  then show ?case using ns_end by (intro turn_ok) (auto simp: net_ok_def intro: on_end_ok)
next
  case (ns_retry w)
  then show ?case
    by (intro turn_ok on_retry_ok) (auto simp: net_ok_def due_def dest: retry_link split: option.splits)
next
  case (ns_upload w before g channel content key files after put msg events)
  then show ?case by (auto simp: net_ok_def alive_def split: option.split)
qed (auto intro: after_conn_ok)

interpretation thread: invariant_system net_ok "net_step parse" for parse
  by unfold_locales (rule net_ok_step)

lemma net_ok_start: "net_ok net_world_start"
  by (simp add: net_ok_def net_world_start_def loop_ok_def net_start_def)

section \<open>When the server to be connected to changes\<close>

lemma turn_net [simp]: "nw_net (turn w r) = fst r"
  by (simp add: turn_def run_effects)

lemma turn_ends [simp]: "nw_ends (turn w r) = nw_ends w"
  by (simp add: turn_def run_effects)

lemma after_conn_net [simp]: "nw_net (after_conn w before g rest after r) = nw_net w"
  by (cases r) (simp add: after_conn_def split: conn_next.split)

text \<open>The two commands that change it, and what they leave.\<close>

definition told :: "net_world \<Rightarrow> net_world \<Rightarrow> bool" where
  "told w w' \<longleftrightarrow>
     (\<exists>base token. w' = turn w (on_command (nw_net w) (Connect base token)) \<and> n_target (nw_net w') = Some (base, token))
   \<or> (w' = turn w (on_command (nw_net w) Disconnect) \<and> n_target (nw_net w') = None)"

text \<open>The server's own refusal: the loop takes a report of the connection that is up, and it is a rejection.\<close>

definition refused_by_server :: "net_world \<Rightarrow> net_world \<Rightarrow> bool" where
  "refused_by_server w w' \<longleftrightarrow>
     (\<exists>g why ends. nw_ends w = (g, End_rejected why) # ends \<and> n_link (nw_net w) = Some g
        \<and> nw_ends w' = ends \<and> n_target (nw_net w') = None)"

lemma command_target:
  "n_target (fst (on_command n c)) \<noteq> n_target n \<Longrightarrow> (\<exists>base token. c = Connect base token) \<or> c = Disconnect"
  by (cases c) (auto split: option.splits)

lemma end_target:
  "n_target (fst (on_end now n g reason)) \<noteq> n_target n \<Longrightarrow>
   n_link n = Some g \<and> (\<exists>why. reason = End_rejected why) \<and> n_target (fst (on_end now n g reason)) = None"
  by (auto simp: on_end_def Let_def split: if_splits conn_end.splits)

lemma retry_target: "n_target (fst (on_retry n)) = n_target n"
  by (auto simp: on_retry_def Let_def split: option.splits)

lemma target_changes:
  assumes "net_step parse w w'" "n_target (nw_net w') \<noteq> n_target (nw_net w)"
  shows "told w w' \<or> refused_by_server w w'"
  using assms
proof (induction rule: net_step.induct)
  case (ns_command w c)
  then have "n_target (fst (on_command (nw_net w) c)) \<noteq> n_target (nw_net w)" by simp
  from command_target [OF this] show ?case
  proof (elim disjE exE)
    fix base token assume c: "c = Connect base token"
    have "n_target (nw_net (turn w (on_command (nw_net w) (Connect base token)))) = Some (base, token)"
      by (simp add: Let_def)
    then show ?thesis unfolding told_def c by blast
  next
    assume c: "c = Disconnect"
    have "n_target (nw_net (turn w (on_command (nw_net w) Disconnect))) = None" by simp
    then show ?thesis unfolding told_def c by blast
  qed
next
  case (ns_end w g reason ends)
  then have "n_target (fst (on_end (nw_now w) (nw_net w) g reason)) \<noteq> n_target (nw_net w)" by simp
  from end_target [OF this] ns_end(1) show ?case by (auto simp: refused_by_server_def)
qed (auto simp: retry_target)

text \<open>A report of a rejection goes back to a fatal error of the server.\<close>

definition ends_ok :: "(rstring \<Rightarrow> server_msg option) \<Rightarrow> net_world \<Rightarrow> bool" where
  "ends_ok parse w \<longleftrightarrow>
     (\<forall>g why. (g, End_rejected why) \<in> set (nw_ends w) \<longrightarrow> (\<exists>t code. parse t = Some (Error code why True)))"

lemma sending_rejects: "sending doing ready fault \<noteq> Finished (Inr (End_rejected why))"
  by (simp add: sending_def split: option.split)

lemma conn_step_rejects:
  assumes "fst (conn_step parse ready input) = Finished result" "reported result = End_rejected why"
  shows "\<exists>t code. parse t = Some (Error code why True)"
proof -
  have "result = Inr (End_rejected why)" using assms(2) by (auto simp: reported_def split: sum.splits)
  with assms(1) have "fst (conn_step parse ready input) = Finished (Inr (End_rejected why))" by simp
  then show ?thesis
    by (auto simp: conn_step_def sending_rejects split: conn_input.splits option.splits sum.splits frame.splits
        server_msg.splits bool.splits)
qed

lemma after_conn_ends_ok:
  assumes "ends_ok parse w"
    and "\<And>result why. fst r = Finished result \<Longrightarrow> reported result = End_rejected why \<Longrightarrow>
      \<exists>t code. parse t = Some (Error code why True)"
  shows "ends_ok parse (after_conn w before g rest after r)"
proof (cases "fst r")
  case (Running ready)
  then show ?thesis using assms(1) by (cases r) (simp add: ends_ok_def after_conn_def)
next
  case (Finished result)
  from assms(2) [OF this] assms(1) Finished show ?thesis
    by (cases r) (auto simp: ends_ok_def after_conn_def)
qed

lemma ends_ok_step: "net_step parse w w' \<Longrightarrow> ends_ok parse w \<Longrightarrow> ends_ok parse w'"
proof (induction rule: net_step.induct)
  case (ns_end w g reason ends)
  then show ?case by (auto simp: ends_ok_def)
next
  case (ns_refused w before g queued ready after e)
  from ns_refused(2) show ?case by (rule after_conn_ends_ok) (auto simp: reported_def)
next
  case (ns_conn w before g queued ready after input rest)
  from ns_conn(3) show ?case by (rule after_conn_ends_ok) (rule conn_step_rejects)
qed (auto simp: ends_ok_def)

interpretation reports: invariant_system "ends_ok parse" "net_step parse" for parse
  by unfold_locales (rule ends_ok_step)

text \<open>
  Claim C8. The client never gives up on a server: whatever commands, endings, retries, frames,
  uploads and passing of time the network thread has been through, as long as there is a server
  to be connected to there is either exactly one connection, whose task is running or has left
  its report for the loop, and no retry scheduled, or no connection and a retry scheduled at most
  thirty seconds ahead. Without a server there is neither. What server there is to be connected to
  changes in three ways only: by the command to connect, which names it, by the command to
  disconnect, which leaves none, and when the connection that is up ends with the server's own
  refusal, which leaves none either; a refusal is reported only after a frame with a fatal error.
  A connection that drops, or never opens, leaves the server as it was.
\<close>

theorem the_client_never_gives_up:
  assumes "(net_step parse)\<^sup>*\<^sup>* net_world_start w"
  shows "(case n_target (nw_net w) of
      Some server \<Rightarrow>
        (\<exists>g. n_link (nw_net w) = Some g \<and> n_retry_at (nw_net w) = None
           \<and> (g \<in> fst ` set (nw_tasks w) \<or> g \<in> fst ` set (nw_ends w)))
        \<or> (\<exists>t. n_link (nw_net w) = None \<and> n_retry_at (nw_net w) = Some t \<and> t \<le> nw_now w + 30000)
    | None \<Rightarrow> n_link (nw_net w) = None \<and> n_retry_at (nw_net w) = None)
   \<and> (\<forall>w'. net_step parse w w' \<longrightarrow> n_target (nw_net w') \<noteq> n_target (nw_net w) \<longrightarrow>
        told w w' \<or> refused_by_server w w')
   \<and> (\<forall>g why. (g, End_rejected why) \<in> set (nw_ends w) \<longrightarrow> (\<exists>t code. parse t = Some (Error code why True)))"
proof (intro conjI)
  have ok: "net_ok w" by (rule thread.run_keeps [OF assms net_ok_start])
  then have loop: "loop_ok (nw_now w) (nw_net w)"
    and alive: "\<And>g. n_link (nw_net w) = Some g \<Longrightarrow> alive g w" by (auto simp: net_ok_def)
  show "case n_target (nw_net w) of
      Some server \<Rightarrow>
        (\<exists>g. n_link (nw_net w) = Some g \<and> n_retry_at (nw_net w) = None
           \<and> (g \<in> fst ` set (nw_tasks w) \<or> g \<in> fst ` set (nw_ends w)))
        \<or> (\<exists>t. n_link (nw_net w) = None \<and> n_retry_at (nw_net w) = Some t \<and> t \<le> nw_now w + 30000)
    | None \<Rightarrow> n_link (nw_net w) = None \<and> n_retry_at (nw_net w) = None"
    using loop alive by (cases "n_link (nw_net w)"; cases "n_retry_at (nw_net w)")
      (auto simp: loop_ok_def alive_def split: option.splits if_splits)
  show "\<forall>w'. net_step parse w w' \<longrightarrow> n_target (nw_net w') \<noteq> n_target (nw_net w) \<longrightarrow>
      told w w' \<or> refused_by_server w w'"
    using target_changes by blast
  have "ends_ok parse w"
    by (rule reports.run_keeps [OF assms]) (simp add: ends_ok_def net_world_start_def)
  then show "\<forall>g why. (g, End_rejected why) \<in> set (nw_ends w) \<longrightarrow>
      (\<exists>t code. parse t = Some (Error code why True))"
    by (simp add: ends_ok_def)
qed

section \<open>Attempts, late events and versions\<close>

text \<open>
  A drop of the connection that is up, and the retry that follows. Nothing sets the attempt back
  when a connection succeeds, so the waits of a session only grow.
\<close>

definition drop_and_retry :: "nat \<Rightarrow> net \<Rightarrow> net" where
  "drop_and_retry now n = fst (on_retry (fst (on_end now n (the (n_link n)) (Dropped []))))"

lemma drop_and_retry_result:
  assumes "n_link n = Some g" "n_target n = Some server"
  shows "n_link (drop_and_retry now n) \<noteq> None" "n_target (drop_and_retry now n) = Some server"
    "n_attempt (drop_and_retry now n) = n_attempt n + 1"
    "snd (on_end now n g (Dropped why)) = [Tell (Status (Reconnecting (retry_delay (n_attempt n + 1))))]"
  using assms by (auto simp: drop_and_retry_def on_end_def on_retry_def Let_def split: prod.split)

lemma waits_never_shrink:
  assumes "n_link n \<noteq> None" "n_target n \<noteq> None"
  shows "n_attempt ((drop_and_retry now ^^ k) n) = n_attempt n + of_nat k
    \<and> n_link ((drop_and_retry now ^^ k) n) \<noteq> None \<and> n_target ((drop_and_retry now ^^ k) n) \<noteq> None"
proof (induction k)
  case (Suc k)
  then obtain g server where "n_link ((drop_and_retry now ^^ k) n) = Some g"
      "n_target ((drop_and_retry now ^^ k) n) = Some server" by auto
  from drop_and_retry_result [OF this] Suc show ?case by simp
qed (use assms in simp)

text \<open>From the fourth drop in the life of a session on, every wait is the longest one.\<close>

lemma fourth_wait_is_longest:
  assumes "n_link n \<noteq> None" "n_target n \<noteq> None" "n_attempt n = 1"
  shows "retry_delay (n_attempt ((drop_and_retry now ^^ 3) n) + 1) = 30"
  using waits_never_shrink [OF assms(1,2), where now = now and k = 3] assms(3) by (simp add: retry_delay_def)

text \<open>What a server with the versions \<open>lo\<close> to \<open>hi\<close> hears from this client.\<close>

lemma speaking_bounds:
  "lo \<le> hi \<Longrightarrow> lo \<le> PROTOCOL_VERSION \<Longrightarrow>
   lo \<le> speaking (Some hi) \<and> speaking (Some hi) \<le> hi \<and> speaking (Some hi) \<le> PROTOCOL_VERSION"
  by (auto simp: speaking_def min_def)

lemma this_server_is_spoken_to: "speaks_version (speaking (Some (si_protocol_version (server_info c))))"
  "speaks_version (speaking None)"
  by (simp_all add: speaks_version_def speaking_def server_info_def MIN_PROTOCOL_VERSION_def PROTOCOL_VERSION_def)

text \<open>A small run: connect, be refused, and wait.\<close>

definition connecting :: net_world where
  "connecting = turn net_world_start (on_command net_start (Connect [] []))"

definition refused :: net_world where
  "refused = after_conn connecting [] 1 [] [] (Finished (Inl []), [], [])"

definition waiting :: net_world where
  "waiting = turn (refused\<lparr>nw_ends := []\<rparr>) (on_end 0 (nw_net refused) 1 (Dropped []))"

lemma connecting_runs: "(net_step parse)\<^sup>*\<^sup>* net_world_start connecting"
  using ns_command [of parse net_world_start "Connect [] []"]
  by (simp add: connecting_def net_world_start_def r_into_rtranclp)

lemma connecting_tasks: "nw_tasks connecting = [] @ (1, [], False) # []"
  by (simp add: connecting_def turn_def net_world_start_def net_start_def)

lemma refused_runs: "(net_step parse)\<^sup>*\<^sup>* net_world_start refused"
  using connecting_runs ns_refused [OF connecting_tasks, of parse "[]"]
  unfolding refused_def by (rule rtranclp.rtrancl_into_rtrancl)

lemma refused_ends: "nw_ends refused = (1, Dropped []) # []" "nw_now refused = 0"
  by (simp_all add: refused_def after_conn_def reported_def connecting_def turn_def net_world_start_def net_start_def)

lemma waiting_runs: "(net_step parse)\<^sup>*\<^sup>* net_world_start waiting"
  using refused_runs [of parse] ns_end [OF refused_ends(1), of parse] refused_ends(2)
  unfolding waiting_def by (metis rtranclp.rtrancl_into_rtrancl)

theorem the_client_never_gives_up_witness:
  "n_link (nw_net waiting) = None \<and> n_retry_at (nw_net waiting) = Some 2000
   \<and> nw_events waiting = [Status Connecting, Status (Reconnecting 2)]
   \<and> \<not> net_step (\<lambda>_. None) waiting (waiting\<lparr>nw_net := net_start\<rparr>)"
proof -
  have gone: "nw_ends waiting = []" by (simp add: waiting_def)
  have state: "nw_net waiting = \<lparr>n_link = None, n_target = Some ([], []), n_attempt = 2, n_generation = 1,
      n_retry_at = Some 2000\<rparr>" "nw_events waiting = [Status Connecting, Status (Reconnecting 2)]"
    by (simp_all add: waiting_def refused_def connecting_def turn_def after_conn_def net_world_start_def
        net_start_def on_end_def retry_delay_def Let_def)
  have not_told: "\<not> told waiting (waiting\<lparr>nw_net := net_start\<rparr>)"
  proof
    assume "told waiting (waiting\<lparr>nw_net := net_start\<rparr>)"
    then have "waiting\<lparr>nw_net := net_start\<rparr> = turn waiting (on_command (nw_net waiting) Disconnect)"
      by (auto simp: told_def net_start_def)
    then have "nw_net (waiting\<lparr>nw_net := net_start\<rparr>) = fst (on_command (nw_net waiting) Disconnect)"
      by (metis turn_net)
    then show False by (simp add: state(1) net_start_def)
  qed
  from the_client_never_gives_up [OF waiting_runs, of "\<lambda>_. None"] gone not_told state show ?thesis
    by (auto simp: refused_by_server_def net_start_def)
qed

text \<open>
  Events of a connection are not held against its generation: one that is replaced or hung up
  while it is starting can still report that it is connected, after the interface was told the
  opposite.
\<close>

definition hung_up :: net_world where
  "hung_up = turn connecting (on_command (nw_net connecting) Disconnect)"

lemma a_hung_up_connection_still_speaks:
  assumes "parse [0] = Some (Ready u info us cs vs)"
  shows "\<exists>w. (net_step parse)\<^sup>*\<^sup>* net_world_start w \<and> n_target (nw_net w) = None
    \<and> nw_events w = [Status Connecting, Status Offline, Status Connected, Server (Ready u info us cs vs)]"
proof (intro exI conjI)
  let ?w = "after_conn hung_up [] 1 [] [] (conn_step parse False (Incoming (Some (Inr (Text_frame [0])))))"
  have tasks: "nw_tasks hung_up = [] @ (1, [], False) # []"
    using connecting_tasks by (simp add: hung_up_def turn_def)
  have "net_step parse connecting hung_up"
    using ns_command [of parse connecting Disconnect] by (simp add: hung_up_def)
  moreover have "net_step parse hung_up ?w"
    by (rule ns_conn [OF tasks]) simp
  ultimately show "(net_step parse)\<^sup>*\<^sup>* net_world_start ?w"
    using connecting_runs by (meson rtranclp.rtrancl_into_rtrancl)
  show "n_target (nw_net ?w) = None"
    "nw_events ?w = [Status Connecting, Status Offline, Status Connected, Server (Ready u info us cs vs)]"
    using assms by (simp_all add: conn_step_def after_conn_def hung_up_def connecting_def turn_def
        net_world_start_def net_start_def)
qed

end
