(* ===== verification/NetFetch.thy ===== *)
theory NetFetch
  imports Net HttpProps
begin

text \<open>
  Attachments from the server to the client's own copy: what \<open>fetch_attachment\<close> does against the
  model of the server's endpoint, and why a copy outlives the server's three days.
\<close>

section \<open>Fetching\<close>

lemma fetch_outcomes:
  assumes "fetch_attachment digest outcome debug io now get a files = (es, files')"
  obtains
    (held) "cache_have files (at_sha256 a)" "es = [AttachmentReady (at_id a) (at_sha256 a)]" "files' = files"
  | (stored) bytes where "\<not> cache_have files (at_sha256 a)" "get (at_id a) = Inr (Bytes bytes)"
      "is_digest (at_sha256 a)" "sha256_hex digest bytes = at_sha256 a" "outcome = Stored"
      "es = [AttachmentReady (at_id a) (at_sha256 a)]"
      "files' = snd (cache_store digest outcome now files (at_sha256 a) bytes)"
  | (not_stored) bytes e where "\<not> cache_have files (at_sha256 a)" "get (at_id a) = Inr (Bytes bytes)"
      "fst (cache_store digest outcome now files (at_sha256 a) bytes) = Inl e"
      "es = [trouble (str ''saving '' @ at_name a) (cache_chain debug io (at_sha256 a) e)]"
      "files' = snd (cache_store digest outcome now files (at_sha256 a) bytes)"
  | (gone) "\<not> cache_have files (at_sha256 a)" "get (at_id a) = Inr Expired"
      "es = [AttachmentGone (at_id a)]" "files' = files"
  | (failed) e where "\<not> cache_have files (at_sha256 a)" "get (at_id a) = Inl e"
      "es = [trouble (str ''downloading '' @ at_name a) e]" "files' = files"
proof -
  let ?put = "\<lambda>bytes. cache_store digest outcome now files (at_sha256 a) bytes"
  have run: "(es, files') = fetch_attachment digest outcome debug io now get a files" using assms by simp
  consider "cache_have files (at_sha256 a)"
    | bytes where "\<not> cache_have files (at_sha256 a)" "get (at_id a) = Inr (Bytes bytes)" "fst (?put bytes) = Inr ()"
    | bytes e where "\<not> cache_have files (at_sha256 a)" "get (at_id a) = Inr (Bytes bytes)" "fst (?put bytes) = Inl e"
    | "\<not> cache_have files (at_sha256 a)" "get (at_id a) = Inr Expired"
    | e where "\<not> cache_have files (at_sha256 a)" "get (at_id a) = Inl e"
    by (metis (full_types) fetched.exhaust sum.exhaust unit.exhaust)
  then show thesis
  proof cases
    case 1
    show thesis by (rule held) (use run 1 in \<open>simp_all add: fetch_attachment_def\<close>)
  next
    case (2 bytes)
    show thesis
      by (rule stored [of bytes])
        (use run 2 cache_store_result [of digest outcome now files "at_sha256 a" bytes]
         in \<open>simp_all add: fetch_attachment_def split: prod.splits\<close>)
  next
    case (3 bytes e)
    show thesis
      by (rule not_stored [of bytes e]) (use run 3 in \<open>simp_all add: fetch_attachment_def split: prod.splits\<close>)
  next
    case 4
    show thesis by (rule gone) (use run 4 in \<open>simp_all add: fetch_attachment_def\<close>)
  next
    case (5 e)
    show thesis by (rule failed) (use run 5 in \<open>simp_all add: fetch_attachment_def\<close>)
  qed
qed

lemma fetch_keeps_ok:
  "fetch_attachment digest outcome debug io now get a files = (es, files') \<Longrightarrow> cache_ok digest files \<Longrightarrow>
   cache_ok digest files'"
  by (erule fetch_outcomes) (auto intro: cache_store_ok)

text \<open>A fetch never changes a copy that is there.\<close>

lemma fetch_keeps_copies:
  assumes "fetch_attachment digest outcome debug io now get a files = (es, files')"
    and "is_digest name" "hget files name = Some x"
  shows "hget files' name = Some x"
  using assms(1)
proof (cases rule: fetch_outcomes)
  case (stored bytes)
  then have "name \<noteq> at_sha256 a" using assms(2,3) by (cases x) (auto simp: cache_have_iff)
  with stored assms(2,3) show ?thesis by (simp add: cache_store_others)
next
  case (not_stored bytes e)
  then show ?thesis using assms(2,3) by (simp add: cache_store_failed)
qed (use assms(3) in simp_all)

section \<open>The life of a copy\<close>

text \<open>
  What happens to the cache in a session without \<open>clear\<close>: fetches of any attachment with any
  answer and any mishap, and prunes that reach back no further than \<open>T\<close>.
\<close>

inductive cache_step :: "(byte list \<Rightarrow> byte list) \<Rightarrow> int \<Rightarrow> cache \<Rightarrow> cache \<Rightarrow> bool" for digest T where
  ct_fetch: "fetch_attachment digest outcome debug io now get a files = (es, files') \<Longrightarrow>
    cache_step digest T files files'"
| ct_prune: "days = 0 \<or> now - int (unat days) * 86400 * 1000 \<le> T \<Longrightarrow>
    cache_step digest T files (snd (cache_prune listable checked hidden stuck now days files))"

definition holds_copy :: "(byte list \<Rightarrow> byte list) \<Rightarrow> int \<Rightarrow> rstring \<Rightarrow> byte list \<Rightarrow> cache \<Rightarrow> bool" where
  "holds_copy digest T name bytes files \<longleftrightarrow> is_digest name \<and> hget files name = Some (bytes, T)"

lemma prune_leaves_young:
  assumes "days = 0 \<or> now - int (unat days) * 86400 * 1000 \<le> T" "hget files name = Some (bytes, T)"
  shows "hget (snd (cache_prune listable checked hidden stuck now days files)) name = Some (bytes, T)"
proof (cases "days \<noteq> 0 \<and> checked (now - int (unat days) * 86400 * 1000) \<and> listable")
  case True
  then show ?thesis using assms by (auto simp: cache_prune_get pruned_def)
next
  case False
  then show ?thesis using assms(2) by (auto simp: cache_prune_def cache_list_def Let_def)
qed

lemma holds_copy_step: "cache_step digest T files files' \<Longrightarrow> holds_copy digest T name bytes files \<Longrightarrow>
  holds_copy digest T name bytes files'"
  by (induction rule: cache_step.induct)
     (auto simp: holds_copy_def intro: fetch_keeps_copies prune_leaves_young simp del: of_nat_unat)

interpretation copies: invariant_system "holds_copy digest T name bytes" "cache_step digest T" for digest T name bytes
  by unfold_locales (rule holds_copy_step)

lemma held_is_ready:
  "holds_copy digest T (at_sha256 a) bytes files \<Longrightarrow>
   fetch_attachment digest outcome debug io now get a files = ([AttachmentReady (at_id a) (at_sha256 a)], files)"
  by (simp add: holds_copy_def fetch_attachment_def cache_have_iff)

lemma held_is_read: "holds_copy digest T name bytes files \<Longrightarrow> cache_read files name = Inr bytes"
  by (simp add: holds_copy_def cache_read_def)

lemma fetch_stores:
  assumes "\<not> cache_have files (at_sha256 a)" "get (at_id a) = Inr (Bytes bytes)"
    and "is_digest (at_sha256 a)" "sha256_hex digest bytes = at_sha256 a"
    and "fetch_attachment digest Stored debug io now get a files = (es, files')"
  shows "es = [AttachmentReady (at_id a) (at_sha256 a)] \<and> holds_copy digest now (at_sha256 a) bytes files'"
  using assms by (auto simp: fetch_attachment_def cache_store_def holds_copy_def hmap_simps Let_def)

section \<open>From an upload to a copy that stays\<close>

text \<open>The answer of the server's endpoint as a reply; how a failure is written as JSON is an argument.\<close>

definition as_reply :: "(rstring \<Rightarrow> byte list) \<Rightarrow> failure + response \<Rightarrow> reply" where
  "as_reply to_json r =
     (case r of
        Inl f \<Rightarrow> \<lparr>rp_status = fl_status f, rp_body = Inr (to_json (fl_message f))\<rparr>
      | Inr answer \<Rightarrow> \<lparr>rp_status = 200, rp_body = Inr (rs_body answer)\<rparr>)"

text \<open>
  Claim C9. Who has seen a picture keeps it. After an upload that succeeded, whatever uploads,
  messages, accounts and sweeps before its expiry follow on the server, a client without a copy
  that fetches the attachment reports it as ready; and after any later fetches with any answers
  and any mishap of the disk, and any housekeeping that does not reach back to the fetch, it still
  reads bytes with the digest of the attachment from its own store and reports it as ready
  whatever the server then says.
\<close>

theorem who_saw_a_picture_keeps_it:
  assumes "files_ok (cy_digest Y) (db_attachments (sv_db srv)) files"
    and "rowid_ok (en_alloc E) (map ar_id (db_attachments (sv_db srv)))"
    and "Http.upload Y E srv files header query name body = (Inr a, srv1, files1)"
    and "(site_step Y (at_expires_at a))\<^sup>*\<^sup>* (srv1, files1) (srv2, files2)"
    and "attachment_by_id (sv_db srv2) (at_id a) = Some (a', deleted)" "at_expires_at a' = at_expires_at a"
    and "authenticate (sv_db srv2) (Some (str ''Bearer '' @ token)) None = Inr u"
    and "ht_send H (Get_file (base @ str ''/attachments/'' @ decimal (unat (id_val (at_id a)))) token) =
      Inr (as_reply to_json (Http.download srv2 files2 (Some (str ''Bearer '' @ token)) None (at_id a)))"
    and "\<not> cache_have cache (at_sha256 a')"
    and "fetch_attachment (cy_digest Y) Stored debug io T (Api.download H base token) a' cache = (es, cache1)"
    and "(cache_step (cy_digest Y) T)\<^sup>*\<^sup>* cache1 cache2"
  shows "es = [AttachmentReady (at_id a) (at_sha256 a')]
    \<and> (\<exists>bytes. cache_read cache2 (at_sha256 a') = Inr bytes \<and> sha256_hex (cy_digest Y) bytes = at_sha256 a')
    \<and> fetch_attachment (cy_digest Y) outcome debug' io' now get a' cache2 =
        ([AttachmentReady (at_id a) (at_sha256 a')], cache2)"
proof -
  from upload_still_served [OF assms(1-7)] obtain r where same: "at_id a' = at_id a"
    and sha: "is_digest (at_sha256 a')"
    and r: "Http.download srv2 files2 (Some (str ''Bearer '' @ token)) None (at_id a) = Inr r"
      "sha256_hex (cy_digest Y) (rs_body r) = at_sha256 a'" by blast
  have "Api.download H base token (at_id a') = Inr (Bytes (rs_body r))"
    using assms(8) by (simp add: download_bytes same r as_reply_def is_success_def)
  from fetch_stores [OF assms(9) this sha r(2) assms(10)]
  have ready: "es = [AttachmentReady (at_id a) (at_sha256 a')]"
    and kept: "holds_copy (cy_digest Y) T (at_sha256 a') (rs_body r) cache1"
    by (simp_all add: same)
  from copies.run_keeps [OF assms(11) kept] have "holds_copy (cy_digest Y) T (at_sha256 a') (rs_body r) cache2" .
  from held_is_ready [OF this] held_is_read [OF this] ready r(2) show ?thesis by (simp add: same)
qed

text \<open>A client that asks the small server of \<open>HttpProps\<close> for its one upload.\<close>

definition toy_http :: http where
  "toy_http = \<lparr>ht_send = (\<lambda>_. Inr (as_reply (\<lambda>_. [])
       (Http.download (fst (snd uploaded)) (snd (snd uploaded)) (Some (str ''Bearer '' @ [116])) None (Id 1)))),
     ht_status_text = (\<lambda>_. []), ht_error = (\<lambda>_. Inl []), ht_version = (\<lambda>_. Inl []), ht_probe = (\<lambda>_. Inl []),
     ht_session = (\<lambda>_. Inl []), ht_attachment = (\<lambda>_. Inl [])\<rparr>"

definition toy_fetched :: "net_event list \<times> cache" where
  "toy_fetched =
     fetch_attachment (cy_digest toy_crypt) Stored (\<lambda>s. s) [] 5 (Api.download toy_http [] [116]) uploaded_row []"

lemma toy_bearer: "authenticate (sv_db (fst (snd uploaded))) (Some (str ''Bearer '' @ [116])) None = Inr (Id 1)"
  using toy_upload(3) by (simp add: authenticate_def)

theorem who_saw_a_picture_keeps_it_witness:
  "fst toy_fetched = [AttachmentReady (Id 1) (replicate 64 48)]
   \<and> (\<exists>bytes. cache_read (snd toy_fetched) (replicate 64 48) = Inr bytes)
   \<and> fetch_attachment (cy_digest toy_crypt) No_directory (\<lambda>s. s) [] 9 (\<lambda>_. Inr Expired) uploaded_row (snd toy_fetched)
       = ([AttachmentReady (Id 1) (replicate 64 48)], snd toy_fetched)"
proof -
  have ok: "files_ok (cy_digest toy_crypt) (db_attachments (sv_db token_server)) []"
    "rowid_ok (en_alloc quiet_env) (map ar_id (db_attachments (sv_db token_server)))"
    by (simp_all add: files_ok_def rowid_ok_def token_server_def quiet_env_def next_row_def)
  have up: "Http.upload toy_crypt quiet_env token_server [] None (Some [116]) [98] [1, 2] =
      (Inr uploaded_row, fst (snd uploaded), snd (snd uploaded))"
    using toy_upload(1) by (metis prod.collapse uploaded_def)
  have row: "at_id uploaded_row = Id 1" "at_sha256 uploaded_row = replicate 64 48"
    by (simp_all add: uploaded_row_def)
  have found: "attachment_by_id (sv_db (fst (snd uploaded))) (at_id uploaded_row) = Some (uploaded_row, False)"
    using toy_upload(2) by (simp add: row)
  have asked: "ht_send toy_http (Get_file ([] @ str ''/attachments/'' @ decimal (unat (id_val (at_id uploaded_row)))) [116]) =
      Inr (as_reply (\<lambda>_. []) (Http.download (fst (snd uploaded)) (snd (snd uploaded))
        (Some (str ''Bearer '' @ [116])) None (at_id uploaded_row)))"
    by (simp add: toy_http_def row)
  have fresh: "\<not> cache_have [] (at_sha256 uploaded_row)" by (simp add: cache_have_iff)
  have got: "fetch_attachment (cy_digest toy_crypt) Stored (\<lambda>s. s) [] 5 (Api.download toy_http [] [116]) uploaded_row []
      = (fst toy_fetched, snd toy_fetched)"
    by (simp add: toy_fetched_def)
  from who_saw_a_picture_keeps_it [OF ok up rtranclp.rtrancl_refl found refl toy_bearer asked fresh got
      rtranclp.rtrancl_refl, of No_directory "\<lambda>s. s" "[]" 9 "\<lambda>_. Inr Expired"]
  show ?thesis by (auto simp: row)
qed

end
