(* ===== verification/Wormhole.thy ===== *)
theory Wormhole
  imports Blobs Api
begin

text \<open>
  Sending a file straight to somebody, \<open>crates/boa-client/src/transfer/mod.rs\<close>: jobs and their
  cancellation flags, the choice of relays, the two ends of a transfer, and where a received
  file lands. The wormhole library, URL parsing and the file system's answers are arguments.
\<close>

section \<open>Commands and events\<close>

datatype transfer_command =
    Send_file u64 id id rstring                           \<comment> \<open>job, to, channel, path\<close>
  | Receive_file u64 id rstring rstring                   \<comment> \<open>job, from, code, name\<close>
  | Cancel u64

datatype transfer_event =
    Offered u64 id id rstring rstring u64                 \<comment> \<open>job, to, channel, code, name, size\<close>
  | Connected_to u64 bool
  | Progress u64 u64 u64
  | Done u64 "rstring option"
  | Failed u64 rstring

record relays =
  rl_rendezvous :: "rstring option"
  rl_transit :: "rstring option"

definition not_blank :: "rstring option \<Rightarrow> rstring option" where
  "not_blank url = (case url of Some u \<Rightarrow> if trim u = [] then None else Some u | None \<Rightarrow> None)"

text \<open>The rendezvous address of the library's configuration.\<close>

definition app_config :: "rstring \<Rightarrow> relays \<Rightarrow> rstring" where
  "app_config fixed_url relays =
     (case not_blank (rl_rendezvous relays) of Some url \<Rightarrow> trim url | None \<Rightarrow> fixed_url)"

text \<open>\<open>hint\<close> is the parsing of a URL and \<open>RelayHint::from_urls\<close> on it.\<close>

definition default_relay_hints :: "(rstring \<Rightarrow> 'h option) \<Rightarrow> rstring \<Rightarrow> 'h list" where
  "default_relay_hints hint fixed_url = (case hint fixed_url of Some h \<Rightarrow> [h] | None \<Rightarrow> [])"

definition relay_hints :: "(rstring \<Rightarrow> 'h option) \<Rightarrow> rstring \<Rightarrow> relays \<Rightarrow> 'h list" where
  "relay_hints hint fixed_url relays =
     (case not_blank (rl_transit relays) of
        Some url \<Rightarrow> (case hint (trim url) of Some h \<Rightarrow> [h] | None \<Rightarrow> default_relay_hints hint fixed_url)
      | None \<Rightarrow> default_relay_hints hint fixed_url)"

section \<open>Jobs and their flags\<close>

text \<open>
  A flag is a cell of the store \<open>tr_flags\<close>. The thread keeps \<open>tr_running\<close>, the jobs it has
  registered; the handle keeps \<open>tr_tracked\<close>, a map of its own.
\<close>

record transfers =
  tr_flags :: "bool list"
  tr_running :: "(u64, nat) hmap"
  tr_tracked :: "(u64, nat) hmap"
  tr_next_id :: u64

definition transfers_spawn :: transfers where
  "transfers_spawn = \<lparr>tr_flags = [], tr_running = [], tr_tracked = [], tr_next_id = 1\<rparr>"

definition next_id :: "transfers \<Rightarrow> u64 \<times> transfers" where
  "next_id t = (tr_next_id t, t\<lparr>tr_next_id := tr_next_id t + 1\<rparr>)"

definition raise_flag :: "nat option \<Rightarrow> bool list \<Rightarrow> bool list" where
  "raise_flag flag flags = (case flag of Some i \<Rightarrow> flags[i := True] | None \<Rightarrow> flags)"

definition track :: "u64 \<Rightarrow> nat \<Rightarrow> transfers \<Rightarrow> transfers" where
  "track job flag t = t\<lparr>tr_tracked := hinsert job flag (tr_tracked t)\<rparr>"

definition cancel_job :: "u64 \<Rightarrow> transfers \<Rightarrow> transfers" where
  "cancel_job job t =
     t\<lparr>tr_flags := raise_flag (hget (tr_tracked t) job) (tr_flags t), tr_tracked := hremove job (tr_tracked t)\<rparr>"

definition job_of :: "transfer_command \<Rightarrow> u64" where
  "job_of c = (case c of Send_file job to channel path \<Rightarrow> job | Receive_file job who code name \<Rightarrow> job | Cancel job \<Rightarrow> job)"

text \<open>
  The first half of \<open>run\<close>, up to the work: the flag the job watches, or \<open>None\<close> for a
  cancellation.
\<close>

definition run_begin :: "transfer_command \<Rightarrow> transfers \<Rightarrow> nat option \<times> transfers" where
  "run_begin c t =
     (let job = job_of c;
          flag = length (tr_flags t);
          t = t\<lparr>tr_flags := tr_flags t @ [False]\<rparr>
      in case c of
           Cancel _ \<Rightarrow>
             (None, t\<lparr>tr_flags := raise_flag (hget (tr_running t) job) (tr_flags t),
                      tr_running := hremove job (tr_running t)\<rparr>)
         | _ \<Rightarrow> (Some flag, t\<lparr>tr_running := hinsert job flag (tr_running t)\<rparr>))"

text \<open>The second half, after the work.\<close>

definition run_end :: "u64 \<Rightarrow> rstring option result \<Rightarrow> transfers \<Rightarrow> transfer_event \<times> transfers" where
  "run_end job outcome t =
     (case outcome of Inr path \<Rightarrow> Done job path | Inl e \<Rightarrow> Failed job (display e),
      t\<lparr>tr_running := hremove job (tr_running t)\<rparr>)"

section \<open>Where a received file goes\<close>

definition sanitise :: "rstring \<Rightarrow> rstring" where
  "sanitise name =
     (let base = rev (takeWhile (\<lambda>c. c \<noteq> 47 \<and> c \<noteq> 92) (rev name));
          cleaned = take 200 (filter (\<lambda>c. \<not> is_control c \<and> c \<noteq> 58) base);
          trimmed = dropWhile (\<lambda>c. c = 46) (trim cleaned)
      in if trimmed = [] then str ''received-file'' else trimmed)"

text \<open>\<open>Path::file_stem\<close> and \<open>Path::extension\<close> of a single component.\<close>

definition stem_and_extension :: "rstring \<Rightarrow> rstring \<times> rstring option" where
  "stem_and_extension name =
     (let after = takeWhile (\<lambda>c. c \<noteq> 46) (rev name);
          before = rev (drop (length after + 1) (rev name))
      in if before = [] then (name, None) else (before, Some (rev after)))"

definition numbered :: "rstring \<Rightarrow> nat \<Rightarrow> rstring" where
  "numbered safe n =
     (case stem_and_extension safe of
        (stem, e) \<Rightarrow>
          stem @ str '' ('' @ decimal n @ str '')'' @ (case e of Some x \<Rightarrow> 46 # x | None \<Rightarrow> []))"

text \<open>The numbers tried, \<open>2..1_000\<close>.\<close>

definition copy_numbers :: "nat list" where
  "copy_numbers = [2..<1000]"

text \<open>\<open>folder\<close> says whether there is a folder, \<open>taken\<close> which names exist in it.\<close>

definition destination_for :: "bool \<Rightarrow> (rstring \<Rightarrow> bool) \<Rightarrow> rstring \<Rightarrow> rstring result" where
  "destination_for folder taken name =
     (if \<not> folder then Inl [str ''no downloads folder'']
      else
        let safe = sanitise name
        in if \<not> taken safe then Inr safe
           else (case find (\<lambda>n. \<not> taken (numbered safe n)) copy_numbers of
                   Some n \<Rightarrow> Inr (numbered safe n)
                 | None \<Rightarrow> Inl [str ''too many files called '' @ safe]))"

section \<open>The two ends\<close>

text \<open>
  What the library and the file system answer, in the order \<open>send_file\<close> asks: the size of the
  file, the mailbox and its code, the other side, the file again, the transfer with the events its
  callbacks report.
\<close>

record send_world =
  sw_size :: "u64 result"
  sw_code :: "rstring result"
  sw_peer :: "unit result"
  sw_open :: "unit result"
  sw_sent :: "(bool + u64 \<times> u64) list \<times> unit result"

text \<open>A callback: how the sides are connected, or progress.\<close>

definition called :: "u64 \<Rightarrow> bool + u64 \<times> u64 \<Rightarrow> transfer_event" where
  "called job c = (case c of Inl direct \<Rightarrow> Connected_to job direct | Inr (sent, whole) \<Rightarrow> Progress job sent whole)"

definition send_file ::
  "send_world \<Rightarrow> u64 \<Rightarrow> id \<Rightarrow> id \<Rightarrow> rstring \<Rightarrow> transfer_event list \<times> rstring option result" where
  "send_file W job to channel path =
     (case file_name path of None \<Rightarrow> ([], Inl [str ''that is not a file'']) | Some name \<Rightarrow>
      case with_context (str ''reading '' @ path) (sw_size W) of Inl e \<Rightarrow> ([], Inl e) | Inr bytes \<Rightarrow>
      case with_context (str ''opening a wormhole'') (sw_code W) of Inl e \<Rightarrow> ([], Inl e) | Inr code \<Rightarrow>
        let offered = [Offered job to channel code name bytes]
        in
      case with_context (str ''waiting for the other side'') (sw_peer W) of Inl e \<Rightarrow> (offered, Inl e) | Inr _ \<Rightarrow>
      case with_context (str ''opening '' @ path) (sw_open W) of Inl e \<Rightarrow> (offered, Inl e) | Inr _ \<Rightarrow>
        (offered @ map (called job) (fst (sw_sent W)),
         (case with_context (str ''sending'') (snd (sw_sent W)) of Inl e \<Rightarrow> Inl e | Inr _ \<Rightarrow> Inr None)))"

text \<open>
  The receiving end: the parsed code, the mailbox, the sender, the request (\<open>None\<close>: withdrawn),
  the created file, the transfer with its callbacks and what it wrote, and whether a half-written
  file can be removed.
\<close>

record receive_world =
  rw_code :: "unit result"
  rw_mailbox :: "unit result"
  rw_peer :: "unit result"
  rw_request :: "unit option result"
  rw_create :: "unit result"
  rw_accept :: "(bool + u64 \<times> u64) list \<times> byte list \<times> unit result"
  rw_removable :: bool

type_synonym folder = "(rstring, byte list) hmap"

definition receive_file ::
  "receive_world \<Rightarrow> bool \<Rightarrow> u64 \<Rightarrow> rstring \<Rightarrow> folder \<Rightarrow> transfer_event list \<times> rstring option result \<times> folder" where
  "receive_file W has_folder job name files =
     (case with_context (str ''that is not a wormhole code'') (rw_code W) of Inl e \<Rightarrow> ([], Inl e, files) | Inr _ \<Rightarrow>
      case with_context (str ''opening the wormhole'') (rw_mailbox W) of Inl e \<Rightarrow> ([], Inl e, files) | Inr _ \<Rightarrow>
      case with_context (str ''connecting to the sender'') (rw_peer W) of Inl e \<Rightarrow> ([], Inl e, files) | Inr _ \<Rightarrow>
      case with_context (str ''asking for the file'') (rw_request W) of
        Inl e \<Rightarrow> ([], Inl e, files)
      | Inr None \<Rightarrow> ([], Inl [str ''the sender withdrew the offer''], files)
      | Inr (Some _) \<Rightarrow>
      case destination_for has_folder (\<lambda>n. hget files n \<noteq> None) name of
        Inl e \<Rightarrow> ([], Inl e, files)
      | Inr destination \<Rightarrow>
      case with_context (str ''creating '' @ destination) (rw_create W) of Inl e \<Rightarrow> ([], Inl e, files) | Inr _ \<Rightarrow>
        (case rw_accept W of (calls, written, accepted) \<Rightarrow>
           let files = hinsert destination written files
           in case accepted of
                Inl e \<Rightarrow>
                  (map (called job) calls, Inl [display e],
                   if rw_removable W then hremove destination files else files)
              | Inr _ \<Rightarrow> (map (called job) calls, Inr (Some destination), files)))"

end
