(* ===== verification/WormholeProps.thy ===== *)
theory WormholeProps
  imports Wormhole
begin

text \<open>
  A received file lands in the downloads folder, under a name of its own and over nothing; what
  cancelling a transfer reaches.
\<close>

section \<open>Names\<close>

text \<open>A character that may stand in the name of a received file.\<close>

definition plain :: "nat \<Rightarrow> bool" where
  "plain c \<longleftrightarrow> c \<noteq> 47 \<and> c \<noteq> 92 \<and> c \<noteq> 58 \<and> \<not> is_control c"

definition harmless :: "rstring \<Rightarrow> bool" where
  "harmless name \<longleftrightarrow> name \<noteq> [] \<and> hd name \<noteq> 46 \<and> (\<forall>c \<in> set name. plain c)"

lemma set_trim: "set (trim s) \<subseteq> set s"
  by (auto simp: trim_def trim_start_def trim_end_def dest!: set_dropWhileD)

lemma hd_dropWhile: "dropWhile P xs \<noteq> [] \<Longrightarrow> \<not> P (hd (dropWhile P xs))"
  by (induction xs) auto

lemma sanitise_harmless: "harmless (sanitise name)"
proof -
  let ?base = "rev (takeWhile (\<lambda>c. c \<noteq> 47 \<and> c \<noteq> 92) (rev name))"
  let ?cleaned = "take 200 (filter (\<lambda>c. \<not> is_control c \<and> c \<noteq> 58) ?base)"
  let ?trimmed = "dropWhile (\<lambda>c. c = 46) (trim ?cleaned)"
  have "plain c" if "c \<in> set ?trimmed" for c
  proof -
    from that have "c \<in> set ?cleaned" using set_trim by (blast dest: set_dropWhileD)
    then have "c \<in> set (filter (\<lambda>c. \<not> is_control c \<and> c \<noteq> 58) ?base)" by (rule in_set_takeD)
    then show ?thesis by (auto simp: plain_def dest!: set_takeWhileD)
  qed
  moreover have "harmless (str ''received-file'')"
    by (simp add: harmless_def plain_def str_def is_control_def)
  moreover have "hd ?trimmed \<noteq> 46" if "?trimmed \<noteq> []" using hd_dropWhile [OF that] by simp
  ultimately show ?thesis by (simp add: sanitise_def Let_def harmless_def)
qed

lemma dropWhile_rev_parts:
  "rev name = takeWhile P (rev name) @ dropWhile P (rev name)" by simp

lemma stem_parts:
  assumes "stem_and_extension name = (stem, e)" "harmless name"
  shows "stem \<noteq> [] \<and> hd stem = hd name \<and> set stem \<subseteq> set name \<and> (\<forall>x. e = Some x \<longrightarrow> set x \<subseteq> set name)"
proof -
  let ?after = "takeWhile (\<lambda>c. c \<noteq> 46) (rev name)"
  let ?before = "rev (drop (length ?after + 1) (rev name))"
  have "?before = take (length name - (length ?after + 1)) name" by (simp add: rev_drop)
  then obtain k where before: "?before = take k name" by blast
  have "set ?after \<subseteq> set name" by (auto dest: set_takeWhileD)
  moreover have "set ?before \<subseteq> set name" unfolding before by (rule set_take_subset)
  moreover have "hd ?before = hd name" if "?before \<noteq> []"
    using that unfolding before by (cases name; cases k) auto
  ultimately show ?thesis
    using assms by (auto simp: stem_and_extension_def Let_def harmless_def split: if_splits)
qed

lemma decimal_digits: "c \<in> set (decimal n) \<Longrightarrow> 48 \<le> c \<and> c \<le> 57"
  by (induction n rule: decimal.induct) (subst (asm) decimal.simps, auto split: if_splits)

lemma digit_plain: "48 \<le> c \<Longrightarrow> c \<le> 57 \<Longrightarrow> plain c"
  by (auto simp: plain_def is_control_def)

lemma numbered_harmless: "harmless name \<Longrightarrow> harmless (numbered name n)"
proof -
  assume ok: "harmless name"
  obtain stem e where parts: "stem_and_extension name = (stem, e)" by force
  note stem = stem_parts [OF parts ok]
  have "plain c" if "c \<in> set (numbered name n)" for c
  proof -
    from that consider "c \<in> set stem" | "c \<in> set (decimal n)" | "c \<in> {32, 40, 41, 46}"
        | x where "e = Some x" "c \<in> set x"
      by (auto simp: numbered_def parts str_def split: option.splits)
    then show ?thesis
      using ok stem by cases (auto simp: harmless_def plain_def is_control_def dest!: decimal_digits)
  qed
  then show ?thesis using ok stem by (auto simp: harmless_def numbered_def parts split: option.split)
qed

lemma destination_result:
  "destination_for folder taken name = Inr d \<Longrightarrow> \<not> taken d \<and> harmless d"
  using sanitise_harmless [of name] numbered_harmless
  by (auto simp: destination_for_def Let_def find_Some_iff split: if_splits option.splits)

lemma destination_fails:
  "destination_for True taken name = Inl e \<Longrightarrow>
   taken (sanitise name) \<and> (\<forall>n \<in> set copy_numbers. taken (numbered (sanitise name) n))"
  by (auto simp: destination_for_def Let_def find_None_iff split: if_splits option.splits)

section \<open>A received file\<close>

lemma receive_outcomes:
  assumes "receive_file W folder job name files = (es, r, files')"
  obtains (nothing) e where "r = Inl e" "files' = files"
  | (half) e d written where "r = Inl e" "destination_for folder (\<lambda>n. hget files n \<noteq> None) name = Inr d"
      "files' = (if rw_removable W then hremove d (hinsert d written files) else hinsert d written files)"
  | (whole) d where "r = Inr (Some d)" "destination_for folder (\<lambda>n. hget files n \<noteq> None) name = Inr d"
      "files' = hinsert d (fst (snd (rw_accept W))) files"
proof (cases "\<exists>e. r = Inl e \<and> files' = files")
  case True
  then obtain e where "r = Inl e" "files' = files" by (elim exE conjE)
  then show thesis by (rule nothing)
next
  case False
  obtain calls written accepted where accept: "rw_accept W = (calls, written, accepted)"
    by (cases "rw_accept W") auto
  show thesis
  proof (cases "destination_for folder (\<lambda>n. hget files n \<noteq> None) name")
    case (Inl e)
    with assms False show thesis by (auto simp: receive_file_def split: sum.splits option.splits)
  next
    case (Inr d)
    show thesis
    proof (cases accepted)
      case refused: (Inl e)
      with assms False Inr accept
      have "r = Inl [display e]"
        "files' = (if rw_removable W then hremove d (hinsert d written files) else hinsert d written files)"
        by (auto simp: receive_file_def Let_def split: sum.splits option.splits)
      with Inr show thesis by (intro half)
    next
      case (Inr u)
      with assms False accept \<open>destination_for folder _ name = Inr d\<close>
      have "r = Inr (Some d)" "files' = hinsert d written files"
        by (auto simp: receive_file_def Let_def split: sum.splits option.splits)
      with accept \<open>destination_for folder _ name = Inr d\<close> show thesis by (intro whole) simp_all
    qed
  qed
qed

text \<open>
  Claim C22. A received file is written over nothing and cannot choose where it lands: whatever the
  sender called it and whatever the wormhole does, every file that was in the downloads folder
  stays as it was; a transfer that succeeded leaves what was transferred under a name that was
  free, is not empty, does not start with a dot and has no separator, colon or control
  character; and one that failed leaves the folder as it was, if the half-written file can be
  removed.
\<close>

theorem received_file_lands_safely:
  assumes "receive_file W folder job name files = (es, r, files')"
  shows "(\<forall>n x. hget files n = Some x \<longrightarrow> hget files' n = Some x)
    \<and> (case r of
         Inl _ \<Rightarrow> rw_removable W \<longrightarrow> hget files' = hget files
       | Inr None \<Rightarrow> False
       | Inr (Some d) \<Rightarrow> hget files d = None \<and> hget files' d = Some (fst (snd (rw_accept W)))
           \<and> d \<noteq> [] \<and> hd d \<noteq> 46 \<and> (\<forall>c \<in> set d. c \<noteq> 47 \<and> c \<noteq> 92 \<and> c \<noteq> 58 \<and> \<not> is_control c))"
  using assms
proof (cases rule: receive_outcomes)
  case (half e d written)
  from destination_result [OF half(2)] have "hget files d = None" by simp
  with half show ?thesis by (auto simp: hmap_simps fun_eq_iff)
next
  case (whole d)
  from destination_result [OF whole(2)] have "hget files d = None" "harmless d" by simp_all
  with whole show ?thesis by (auto simp: hmap_simps harmless_def plain_def)
qed simp

definition eager_sender :: receive_world where
  "eager_sender = \<lparr>rw_code = Inr (), rw_mailbox = Inr (), rw_peer = Inr (), rw_request = Inr (Some ()),
     rw_create = Inr (), rw_accept = ([], [7], Inr ()), rw_removable = True\<rparr>"

text \<open>\<open>../a\<close>, where there is a file \<open>a\<close> already.\<close>

theorem received_file_lands_safely_witness:
  "\<exists>es files'. receive_file eager_sender True 1 [46, 46, 47, 97] [([97], [1])] = (es, Inr (Some (str ''a (2)'')), files')
    \<and> hget files' [97] = Some [1] \<and> hget files' (str ''a (2)'') = Some [7]"
proof -
  have safe: "sanitise [46, 46, 47, 97] = [97]"
    by (simp add: sanitise_def is_control_def trim_def trim_start_def trim_end_def is_whitespace_def)
  have numbered: "numbered [97] 2 = str ''a (2)''"
    by (simp add: numbered_def stem_and_extension_def str_def decimal.simps [of 2])
  have dest: "destination_for True (\<lambda>n. hget [([97], [1])] n \<noteq> None) [46, 46, 47, 97] = Inr (str ''a (2)'')"
  proof -
    have "copy_numbers = 2 # [Suc 2..<1000]" unfolding copy_numbers_def by (rule upt_conv_Cons) simp
    then obtain ns where first: "copy_numbers = 2 # ns" by blast
    have "str ''a (2)'' \<noteq> [97]" by (simp add: str_def)
    then show ?thesis by (simp add: destination_for_def safe numbered Let_def first)
  qed
  have got: "receive_file eager_sender True 1 [46, 46, 47, 97] [([97], [1])] =
      ([], Inr (Some (str ''a (2)'')), hinsert (str ''a (2)'') [7] [([97], [1])])"
    by (simp only: receive_file_def dest) (simp add: eager_sender_def)
  from received_file_lands_safely [OF got] got show ?thesis by (auto simp: eager_sender_def)
qed

section \<open>Cancelling\<close>

text \<open>A cancellation sent to the thread reaches the job that has registered.\<close>

lemma cancel_reaches_registered:
  "hget (tr_running t) job = Some i \<Longrightarrow> i < length (tr_flags t) \<Longrightarrow>
   tr_flags (snd (run_begin (Cancel job) t)) ! i"
  by (simp add: run_begin_def job_of_def raise_flag_def Let_def nth_append nth_list_update)

text \<open>Commands run as tasks of their own, so one that overtakes its job is lost.\<close>

lemma early_cancel_is_lost:
  assumes "hget (tr_running t) job = None"
  shows "\<not> (case run_begin (Send_file job to channel path) (snd (run_begin (Cancel job) t)) of
      (flag, t) \<Rightarrow> tr_flags t ! the flag)"
  using assms by (simp add: run_begin_def job_of_def raise_flag_def Let_def nth_append)

text \<open>
  What the interface does: it starts transfers, gives out identifiers and asks the handle to
  cancel. It neither tracks a flag nor sends the thread a cancellation.
\<close>

inductive interface_step :: "transfers \<Rightarrow> transfers \<Rightarrow> bool" where
  is_begin: "\<forall>job. c \<noteq> Cancel job \<Longrightarrow> run_begin c t = (flag, t') \<Longrightarrow> interface_step t t'"
| is_end: "run_end job outcome t = (e, t') \<Longrightarrow> interface_step t t'"
| is_next: "next_id t = (job, t') \<Longrightarrow> interface_step t t'"
| is_cancel: "interface_step t (cancel_job job t)"

definition nobody_cancelled :: "transfers \<Rightarrow> bool" where
  "nobody_cancelled t \<longleftrightarrow> tr_tracked t = [] \<and> True \<notin> set (tr_flags t)"

lemma nobody_cancelled_step: "interface_step t t' \<Longrightarrow> nobody_cancelled t \<Longrightarrow> nobody_cancelled t'"
  by (induction rule: interface_step.induct)
     (auto simp: nobody_cancelled_def run_begin_def run_end_def next_id_def cancel_job_def raise_flag_def Let_def
       split: transfer_command.splits)

interpretation jobs: invariant_system nobody_cancelled interface_step
  by unfold_locales (rule nobody_cancelled_step)

lemma the_interface_cancels_nothing: "interface_step\<^sup>*\<^sup>* transfers_spawn t \<Longrightarrow> True \<notin> set (tr_flags t)"
  using jobs.run_keeps [of transfers_spawn t] by (simp add: nobody_cancelled_def transfers_spawn_def)

end
