(* ===== verification/App.thy ===== *)
theory App
  imports ClientState Net Wormhole Voice Governor
begin

text \<open>
  The application behind the window, \<open>crates/boa-client/src/ui/mod.rs\<close>: its state, what each
  event of the network and the transfer thread does to it, the call it keeps, and what it does
  once a frame. What it hands to its threads is appended to \<open>ap_out\<close>. Drawing is left out;
  instants are nanoseconds, and what a call finds outside (the clock, the resolver, devices,
  the encoder, the platform) is the record \<open>ui_env\<close>.
\<close>

section \<open>State\<close>

datatype view = Connect_view | Channel_view id | Settings_view | Watching id

datatype notice_kind = Info_notice | Success_notice | Error_notice

record notice =
  nt_text :: rstring
  nt_kind :: notice_kind
  nt_at :: nat

record source =
  so_input :: rstring
  so_label :: rstring
  so_window :: bool

record meter =
  mt_input_level :: f32bits
  mt_gate_open :: bool
  mt_speaking :: bool
  mt_threshold :: f32bits
  mt_media_ok :: bool

text \<open>\<open>0.1\<close> as a bit pattern.\<close>

definition default_meter :: meter where
  "default_meter =
     \<lparr>mt_input_level = 0, mt_gate_open = False, mt_speaking = False, mt_threshold = 0x3DCCCCCD,
      mt_media_ok = False\<rparr>"

datatype form_mode = Log_in | Sign_up

record form =
  fm_url :: rstring
  fm_name :: rstring
  fm_password :: rstring
  fm_display_name :: rstring
  fm_mode :: "form_mode option"
  fm_probe :: "server_probe option"
  fm_busy :: "rstring option"
  fm_error :: "rstring option"

text \<open>A call: the session and what its threads share.\<close>

record voice_session =
  vo_relay :: socket_addr
  vo_key :: session_key
  vo_ssrc :: u32
  vo_channel :: id
  vo_shared :: shared

text \<open>A decoder: its newest picture and its counters, which its thread moves.\<close>

record screen_watcher =
  wc_latest :: "Recv.frame option"
  wc_frames :: u64
  wc_dropped :: u64
  wc_incomplete :: u64
  wc_started :: bool

definition watcher_new :: screen_watcher where
  "watcher_new = \<lparr>wc_latest = None, wc_frames = 0, wc_dropped = 0, wc_incomplete = 0, wc_started = False\<rparr>"

text \<open>A share: when it started, how it captures, and what its thread and the platform report.\<close>

record screen_sharing =
  sc_started :: nat
  sc_native :: bool
  sc_frames :: u64
  sc_trouble :: "rstring option"
  sc_audio_device :: "rstring option"
  sc_audio_problem :: "rstring option"

text \<open>What the texture of the watched screen holds: its size and the generation of its picture.\<close>

type_synonym texture = "(nat \<times> nat) \<times> u64"

record popout =
  po_open :: bool
  po_whose :: rstring
  po_texture :: "texture option"
  po_trouble :: "rstring option"

text \<open>A transfer the interface follows; rates are doubles.\<close>

record active =
  ac_id :: u64
  ac_peer :: id
  ac_name :: rstring
  ac_outgoing :: bool
  ac_done :: u64
  ac_total :: u64
  ac_direct :: "bool option"
  ac_at :: nat
  ac_last_done :: u64
  ac_rate :: f64bits

datatype ui_effect =
    To_net command
  | To_transfers transfer_command relays
  | Save_settings settings
  | Forget_image rstring
  | Want_keyframe
  | Set_bitrate u32

record app =
  ap_settings :: settings
  ap_state :: client_state
  ap_status :: Net.status
  ap_view :: view
  ap_connect :: form
  ap_meter :: meter
  ap_composer :: rstring
  ap_notices :: "notice list"
  ap_requested :: "id list"
  ap_last_typing :: "nat option"
  ap_voice :: "voice_session option"
  ap_announced_speaking :: bool
  ap_share :: "screen_sharing option"
  ap_watcher :: "(id \<times> screen_watcher) option"
  ap_preview :: "screen_watcher option"
  ap_texture :: "texture option"
  ap_popout :: popout
  ap_in_call :: "id option"
  ap_voice_since :: "nat option"
  ap_media_bad_since :: "nat option"
  ap_last_rejoin :: "nat option"
  ap_rejoins :: u32
  ap_governor :: governor
  ap_steered :: nat
  ap_reported :: nat
  ap_reported_at :: "u64 \<times> u64"
  ap_texture_for :: "id option"
  ap_picking :: "source list option"
  ap_pending_source :: "source option"
  ap_transfers :: transfers
  ap_active :: "active list"
  ap_out :: "ui_effect list"

text \<open>
  What an operation finds outside: the clock, base64, the resolver, whether the devices open,
  another handle on the media socket, the encoder, \<open>Display\<close> of a float and of a size.
\<close>

record ui_env =
  ue_now :: nat
  ue_unb64 :: "string \<Rightarrow> byte list option"
  ue_resolve :: "rstring \<Rightarrow> u16 \<Rightarrow> rstring + socket_addr"
  ue_voice :: "unit result"
  ue_transport :: "unit result"
  ue_share :: "u32 \<Rightarrow> screen_settings \<Rightarrow> source \<Rightarrow> u32 \<times> u32 \<Rightarrow> screen_sharing result"
  ue_float :: "f32bits \<Rightarrow> rstring"
  ue_bytes :: "u64 \<Rightarrow> rstring"
  ue_macos :: bool

section \<open>Small operations\<close>

definition emit :: "ui_effect \<Rightarrow> app \<Rightarrow> app" where
  "emit e a = a\<lparr>ap_out := ap_out a @ [e]\<rparr>"

text \<open>\<open>Net::send_msg\<close>, \<open>Settings::save_quietly\<close>.\<close>

definition send_msg :: "client_msg \<Rightarrow> app \<Rightarrow> app" where
  "send_msg m = emit (To_net (Send m))"

definition save_quietly :: "app \<Rightarrow> app" where
  "save_quietly a = emit (Save_settings (ap_settings a)) a"

definition notify :: "nat \<Rightarrow> notice_kind \<Rightarrow> rstring \<Rightarrow> app \<Rightarrow> app" where
  "notify now kind txt a =
     (let notices = ap_notices a @ [\<lparr>nt_text = txt, nt_kind = kind, nt_at = now\<rparr>]
      in a\<lparr>ap_notices := if length notices > 4 then drop 1 notices else notices\<rparr>)"

definition notice_expired :: "nat \<Rightarrow> notice \<Rightarrow> bool" where
  "notice_expired now n \<longleftrightarrow>
     now - nt_at n > (case nt_kind n of Error_notice \<Rightarrow> 12 * 10 ^ 9 | _ \<Rightarrow> 5 * 10 ^ 9)"

definition is_me :: "app \<Rightarrow> id \<Rightarrow> bool" where
  "is_me a user \<longleftrightarrow> (case cs_me (ap_state a) of Some me \<Rightarrow> u_id me = user | None \<Rightarrow> False)"

text \<open>A call of the session, if there is one, on what its threads share.\<close>

definition with_session :: "(shared \<Rightarrow> shared) \<Rightarrow> app \<Rightarrow> app" where
  "with_session f a =
     a\<lparr>ap_voice := map_option (\<lambda>v. v\<lparr>vo_shared := f (vo_shared v)\<rparr>) (ap_voice a)\<rparr>"

definition app_relays :: "app \<Rightarrow> relays" where
  "app_relays a =
     (case cs_server (ap_state a) of
        Some s \<Rightarrow> \<lparr>rl_rendezvous = si_wormhole_rendezvous s, rl_transit = si_wormhole_transit s\<rparr>
      | None \<Rightarrow> \<lparr>rl_rendezvous = None, rl_transit = None\<rparr>)"

definition home_view :: "app \<Rightarrow> view" where
  "home_view a = (case my_channel (ap_state a) of Some ch \<Rightarrow> Channel_view ch | None \<Rightarrow> Connect_view)"

text \<open>
  The host of a base URL: up to a colon, or a bracketed literal as it stands. And the address the
  resolver gives for it, without the brackets.
\<close>

definition host_of :: "rstring \<Rightarrow> rstring option" where
  "host_of base =
     (case (case strip_prefix (str ''http://'') base of
              Some rest \<Rightarrow> Some rest | None \<Rightarrow> strip_prefix (str ''https://'') base) of
        None \<Rightarrow> None
      | Some rest \<Rightarrow>
          let authority = hd (split_at 47 rest)
          in if take 1 authority = [91] \<and> 93 \<in> set (drop 1 authority)
             then Some (takeWhile (\<lambda>c. c \<noteq> 93) authority @ [93])
             else Some (hd (split_at 58 authority)))"

definition resolve_host :: "(rstring \<Rightarrow> u16 \<Rightarrow> rstring + socket_addr) \<Rightarrow> rstring \<Rightarrow> u16 \<Rightarrow> rstring + socket_addr" where
  "resolve_host resolve host port =
     resolve (rev (dropWhile (\<lambda>c. c = 93) (rev (dropWhile (\<lambda>c. c = 91) host)))) port"

section \<open>Watching and sharing\<close>

definition app_stop_watching :: "app \<Rightarrow> app" where
  "app_stop_watching a =
     (let a = (case ap_watcher a of
                 Some (user, _) \<Rightarrow> send_msg (UnwatchScreen user) (a\<lparr>ap_watcher := None\<rparr>)
               | None \<Rightarrow> a)
      in (with_session stop_watching a)\<lparr>ap_texture := None\<rparr>)"

definition MAX_DIMENSION :: u32 where "MAX_DIMENSION = 3840"

definition sharing_text :: "ui_env \<Rightarrow> source \<Rightarrow> screen_settings \<Rightarrow> screen_sharing \<Rightarrow> rstring" where
  "sharing_text E src s share =
     (let sound = (case (sc_audio_device share, sc_audio_problem share) of
                     (Some device, _) \<Rightarrow> str '', sound from '' @ device
                   | (None, Some _) \<Rightarrow> []
                   | (None, None) \<Rightarrow> str '', no sound'')
      in str ''sharing '' @ so_label src @ [32, 183, 32] @ decimal (unat (ss_fps s)) @ str '' fps ''
         @ [183, 32] @ ue_float E (f32_divide (f32_of_int (uint (ss_kbps s))) (f32_of_int 1000))
         @ str '' Mbit/s'' @ sound)"

text \<open>The box the picture is fitted into, which is what the encoder is given.\<close>

definition capture_box :: "screen_settings \<Rightarrow> u32 \<times> u32" where
  "capture_box s = (let width = min (ss_max_dimension s) MAX_DIMENSION in (width, max (width * 9 div 16) 2))"

definition begin_capture :: "ui_env \<Rightarrow> u32 \<Rightarrow> app \<Rightarrow> app" where
  "begin_capture E stream a =
     (case ap_voice a of None \<Rightarrow> a | Some _ \<Rightarrow>
      case ap_pending_source a of None \<Rightarrow> a | Some src \<Rightarrow>
      case ue_transport E of
        Inl e \<Rightarrow> notify (ue_now E) Error_notice (str ''screen: '' @ display e) a
      | Inr _ \<Rightarrow>
          let s = st_screen (ap_settings a);
              a = a\<lparr>ap_governor := governor_new (ss_kbps s)\<rparr>
          in case ue_share E stream s src (capture_box s) of
               Inl e \<Rightarrow> send_msg StopScreen (notify (ue_now E) Error_notice (display e) a)
             | Inr share \<Rightarrow>
                 let a = notify (ue_now E) Success_notice (sharing_text E src s share) a;
                     a = (case sc_audio_problem share of
                            Some problem \<Rightarrow>
                              notify (ue_now E) Error_notice (str ''no desktop sound: '' @ problem) a
                          | None \<Rightarrow> a)
                 in a\<lparr>ap_share := Some share, ap_preview := Some watcher_new, ap_texture_for := None\<rparr>)"

definition check_share :: "ui_env \<Rightarrow> app \<Rightarrow> app" where
  "check_share E a =
     (case ap_share a of
        None \<Rightarrow> a
      | Some share \<Rightarrow>
          (case sc_trouble share of
             Some reason \<Rightarrow>
               notify (ue_now E) Error_notice (str ''the screen share stopped: '' @ reason)
                 (send_msg StopScreen (a\<lparr>ap_share := None, ap_preview := None\<rparr>))
           | None \<Rightarrow>
               if sc_native share then a
               else if ue_now E - sc_started share < 4 * 10 ^ 9 then a
               else if sc_frames share > 0 then a
               else
                 notify (ue_now E) Error_notice
                   (if ue_macos E
                    then str ''the screen share captured nothing. macOS needs Privacy & Security ''
                      @ [8594] @ str '' Screen & System Audio Recording '' @ [8594]
                      @ str '' BoaVoice, and the app has to be restarted after.''
                    else str ''the screen share captured nothing '' @ [8212]
                      @ str '' see last-run.log for what ffmpeg said'')
                   (send_msg StopScreen (a\<lparr>ap_share := None, ap_preview := None\<rparr>))))"

text \<open>The decoder read is our own preview or the watcher of the screen in view.\<close>

definition poll_screen :: "app \<Rightarrow> app" where
  "poll_screen a =
     (case ap_view a of
        Watching target \<Rightarrow>
          let mine = is_me a target
          in (case (if mine then ap_preview a
                    else (case ap_watcher a of
                            Some (who, w) \<Rightarrow> if who = target then Some w else None
                          | None \<Rightarrow> None)) of
                None \<Rightarrow> a
              | Some w \<Rightarrow>
                  let a = (if ap_texture_for a \<noteq> Some target
                           then a\<lparr>ap_texture := None, ap_texture_for := Some target\<rparr> else a);
                      seen = (case ap_texture a of Some (_, generation) \<Rightarrow> generation | None \<Rightarrow> 0)
                  in (case take_frame (wc_latest w) seen of
                        (None, _) \<Rightarrow> a
                      | (Some fr, left) \<Rightarrow>
                          let a = (if mine then a\<lparr>ap_preview := Some (w\<lparr>wc_latest := left\<rparr>)\<rparr>
                                   else a\<lparr>ap_watcher := Some (target, w\<lparr>wc_latest := left\<rparr>)\<rparr>)
                          in a\<lparr>ap_texture := Some ((fr_width fr, fr_height fr), fr_generation fr)\<rparr>))
      | _ \<Rightarrow> a)"

definition feed_popout :: "app \<Rightarrow> app" where
  "feed_popout a =
     (if \<not> po_open (ap_popout a) then a
      else
        (case ap_view a of
           Watching target \<Rightarrow>
             let whose = (if is_me a target then str ''Your own screen'' else state_label (ap_state a) target);
                 reason =
                   (case ap_watcher a of
                      Some (who, w) \<Rightarrow>
                        if who \<noteq> target then None
                        else
                          let attempted = wc_frames w + wc_dropped w;
                              loss = (if unat (wc_dropped w) * 100 < 2 ^ 64 \<and> attempted \<noteq> 0
                                      then wc_dropped w * 100 div attempted else 0)
                          in if loss > 20
                             then Some (decimal (unat loss) @ str ''% of the picture is not arriving'')
                             else None
                    | None \<Rightarrow> None)
             in a\<lparr>ap_popout := (ap_popout a)\<lparr>po_texture := ap_texture a, po_whose := whose, po_trouble := reason\<rparr>\<rparr>
         | _ \<Rightarrow> a\<lparr>ap_popout := (ap_popout a)\<lparr>po_open := False\<rparr>\<rparr>))"

section \<open>The call\<close>

definition apply_user_volumes :: "app \<Rightarrow> app" where
  "apply_user_volumes a =
     with_session
       (\<lambda>sh. foldl (\<lambda>sh v. set_user_volume (vs_user v) (volume_for (ap_settings a) (vs_user v)) sh) sh
          (map snd (cs_voice (ap_state a)))) a"

text \<open>A session whose devices open: what \<open>VoiceSession::start\<close> keeps of its arguments.\<close>

definition session_start :: "socket_addr \<Rightarrow> session_key \<Rightarrow> u32 \<Rightarrow> id \<Rightarrow> voice_settings \<Rightarrow> voice_session" where
  "session_start relay key stream ch s =
     \<lparr>vo_relay = relay, vo_key = key, vo_ssrc = stream, vo_channel = ch, vo_shared = shared_new s\<rparr>"

definition start_voice :: "ui_env \<Rightarrow> id \<Rightarrow> u32 \<Rightarrow> string \<Rightarrow> u16 \<Rightarrow> app \<Rightarrow> app" where
  "start_voice E ch stream key port a =
     (case from_base64 (ue_unb64 E) key of
        None \<Rightarrow> notify (ue_now E) Error_notice (str ''the server sent a voice key this client cannot read'') a
      | Some key \<Rightarrow>
      case host_of (base_url (ap_settings a)) of
        None \<Rightarrow> notify (ue_now E) Error_notice (str ''cannot work out the server's address for voice'') a
      | Some host \<Rightarrow>
      case resolve_host (ue_resolve E) host port of
        Inl e \<Rightarrow>
          notify (ue_now E) Error_notice
            (str ''voice: '' @ host @ [58] @ decimal (unat port) @ str '': '' @ e) a
      | Inr relay \<Rightarrow>
          let a = a\<lparr>ap_voice := None\<rparr>
          in case ue_voice E of
               Inr _ \<Rightarrow>
                 apply_user_volumes
                   (a\<lparr>ap_voice := Some (session_start relay key stream ch (st_voice (ap_settings a))),
                      ap_announced_speaking := False, ap_voice_since := Some (ue_now E),
                      ap_media_bad_since := None, ap_in_call := Some ch\<rparr>)
             | Inl e \<Rightarrow>
                 send_msg LeaveVoice
                   ((notify (ue_now E) Error_notice (str ''voice: '' @ display e) a)\<lparr>ap_in_call := None\<rparr>))"

text \<open>What a new session of the server is told, as for joining.\<close>

definition ask_to_join :: "id \<Rightarrow> app \<Rightarrow> app" where
  "ask_to_join ch a =
     send_msg (UpdateVoiceState (vs_muted (st_voice (ap_settings a))) (vs_deafened (st_voice (ap_settings a))))
       (send_msg (JoinVoice ch) a)"

definition rejoin_voice :: "ui_env \<Rightarrow> id \<Rightarrow> rstring \<Rightarrow> app \<Rightarrow> app" where
  "rejoin_voice E ch why a =
     (let interrupted = ap_share a \<noteq> None;
          a = a\<lparr>ap_voice := None, ap_voice_since := None, ap_share := None, ap_preview := None,
                ap_watcher := None, ap_texture := None, ap_meter := default_meter,
                ap_media_bad_since := None, ap_last_rejoin := Some (ue_now E),
                ap_rejoins := ap_rejoins a + 1\<rparr>;
          a = ask_to_join ch a;
          port = (case cs_server (ap_state a) of Some s \<Rightarrow> si_media_port s | None \<Rightarrow> 8788)
      in if ap_rejoins a \<ge> 3
         then notify (ue_now E) Error_notice
                (str ''still no voice after '' @ decimal (unat (ap_rejoins a)) @ str '' attempts '' @ [8212]
                 @ str '' UDP '' @ decimal (unat port)
                 @ str '' is not getting through, on this side or on the server's'') a
         else if interrupted
         then notify (ue_now E) Info_notice (why @ [32, 8212] @ str '' back in the call, but your share stopped'') a
         else notify (ue_now E) Info_notice (why @ [32, 8212] @ str '' back in the call'') a)"

definition heal_voice :: "ui_env \<Rightarrow> app \<Rightarrow> app" where
  "heal_voice E a =
     (case ap_in_call a of None \<Rightarrow> a | Some ch \<Rightarrow>
      if ap_status a \<noteq> Connected then a
      else
      case ap_voice_since a of None \<Rightarrow> a | Some since \<Rightarrow>
      if ue_now E - since < 10 * 10 ^ 9 then a
      else if mt_media_ok (ap_meter a) then
        let a = a\<lparr>ap_media_bad_since := None\<rparr>
        in if ue_now E - since > 120 * 10 ^ 9 then a\<lparr>ap_rejoins := 0\<rparr> else a
      else
        let bad = (case ap_media_bad_since a of Some t \<Rightarrow> t | None \<Rightarrow> ue_now E);
            a = a\<lparr>ap_media_bad_since := Some bad\<rparr>
        in if ue_now E - bad < 8 * 10 ^ 9 then a
           else if (case ap_last_rejoin a of Some t \<Rightarrow> ue_now E - t < 20 * 10 ^ 9 | None \<Rightarrow> False) then a
           else rejoin_voice E ch (str ''no voice was arriving'') a)"

text \<open>The key of push-to-talk is held or not; \<open>L\<close> holds the decibel table.\<close>

definition poll_voice :: "'d sound_libs \<Rightarrow> bool \<Rightarrow> app \<Rightarrow> app" where
  "poll_voice L held a =
     (case ap_voice a of
        None \<Rightarrow> a\<lparr>ap_meter := default_meter\<rparr>
      | Some _ \<Rightarrow>
          let a = (if vs_push_to_talk (st_voice (ap_settings a)) then with_session (set_talk_key held) a else a)
          in case ap_voice a of None \<Rightarrow> a | Some v \<Rightarrow>
             let status = status_of L (vo_shared v);
                 a = a\<lparr>ap_meter := \<lparr>mt_input_level = su_input_level status, mt_gate_open = su_gate_open status,
                         mt_speaking = su_speaking status, mt_threshold = su_threshold status,
                         mt_media_ok = su_media_ok status\<rparr>\<rparr>
             in if su_speaking status \<noteq> ap_announced_speaking a
                then send_msg (client_msg.Speaking (su_speaking status)) (a\<lparr>ap_announced_speaking := su_speaking status\<rparr>)
                else a)"

definition set_voice_flags :: "bool \<Rightarrow> bool \<Rightarrow> app \<Rightarrow> app" where
  "set_voice_flags muted deafened a =
     (let a = save_quietly (a\<lparr>ap_settings := (ap_settings a)\<lparr>st_voice :=
                (st_voice (ap_settings a))\<lparr>vs_muted := muted, vs_deafened := deafened\<rparr>\<rparr>\<rparr>);
          a = with_session (\<lambda>sh. set_deafened deafened (set_muted muted sh)) a
      in if my_channel (ap_state a) \<noteq> None then send_msg (UpdateVoiceState muted deafened) a else a)"

section \<open>Reports\<close>

definition sub_sat :: "u64 \<Rightarrow> u64 \<Rightarrow> u64" where
  "sub_sat x y = (if x < y then 0 else x - y)"

definition to_u32_min :: "u64 \<Rightarrow> u32" where
  "to_u32_min x = (if x > 0xFFFFFFFF then 0xFFFFFFFF else ucast x)"

definition report_quality :: "ui_env \<Rightarrow> app \<Rightarrow> app" where
  "report_quality E a =
     (if ue_now E - ap_reported a < 10 ^ 9 then a
      else
        (case ap_watcher a of
           None \<Rightarrow> a\<lparr>ap_reported_at := (0, 0)\<rparr>
         | Some (who, w) \<Rightarrow>
             if \<not> (case cs_server (ap_state a) of Some s \<Rightarrow> si_protocol_version s \<ge> 2 | None \<Rightarrow> False) then a
             else
               let received = sub_sat (wc_frames w) (fst (ap_reported_at a));
                   lost = sub_sat (wc_incomplete w) (snd (ap_reported_at a));
                   a = a\<lparr>ap_reported_at := (wc_frames w, wc_incomplete w), ap_reported := ue_now E\<rparr>;
                   want = \<not> wc_started w
               in if received = 0 \<and> lost = 0 \<and> \<not> want then a
                  else send_msg (client_msg.ScreenReport who (to_u32_min received) (to_u32_min lost) want) a))"

definition steer_share :: "ui_env \<Rightarrow> app \<Rightarrow> app" where
  "steer_share E a =
     (if ue_now E - ap_steered a < 10 ^ 9 then a
      else
        let a = a\<lparr>ap_steered := ue_now E\<rparr>
        in case ap_share a of
             None \<Rightarrow> a
           | Some _ \<Rightarrow>
               (case decide (ap_governor a) of
                  (d, g) \<Rightarrow>
                    let a = a\<lparr>ap_governor := g\<rparr>;
                        a = (if de_keyframe d then emit Want_keyframe a else a)
                    in if de_changed d then emit (Set_bitrate (de_kbps d)) a else a))"

section \<open>Frames from the server\<close>

definition on_ready :: "ui_env \<Rightarrow> channel list \<Rightarrow> app \<Rightarrow> app" where
  "on_ready E chans a =
     (let wanted = map_option Id (st_last_channel (ap_settings a));
          present = (case wanted of Some i \<Rightarrow> if \<exists>c \<in> set chans. ch_id c = i then Some i else None | None \<Rightarrow> None);
          opened = (case present of Some i \<Rightarrow> Some i | None \<Rightarrow> map_option ch_id (find (\<lambda>c. ch_kind c = channel_kind.Text) chans));
          a = (case opened of Some i \<Rightarrow> a\<lparr>ap_view := Channel_view i\<rparr> | None \<Rightarrow> a)
      in case ap_in_call a of
           None \<Rightarrow> a
         | Some ch \<Rightarrow>
             if \<exists>c \<in> set chans. ch_id c = ch \<and> ch_kind c = channel_kind.Voice
             then rejoin_voice E ch (str ''the connection dropped'') a
             else a\<lparr>ap_in_call := None\<rparr>)"

definition on_voice_leave :: "id \<Rightarrow> app \<Rightarrow> app" where
  "on_voice_leave user a =
     (if is_me a user
      then a\<lparr>ap_in_call := None, ap_voice := None, ap_voice_since := None, ap_meter := default_meter\<rparr>
      else (case hget (cs_voice (ap_state a)) user of
              Some v \<Rightarrow> with_session (forget (vs_ssrc v)) a
            | None \<Rightarrow> a))"

definition on_screen_start :: "ui_env \<Rightarrow> id \<Rightarrow> screen_share \<Rightarrow> app \<Rightarrow> app" where
  "on_screen_start E user share a =
     (if is_me a user then begin_capture E (sh_ssrc share) a
      else with_session
             (\<lambda>sh. set_user_volume user (volume_for (ap_settings a) user) (attribute (sh_ssrc share) user sh)) a)"

definition on_screen_stop :: "id \<Rightarrow> app \<Rightarrow> app" where
  "on_screen_stop user a =
     (let a = (if is_me a user then a\<lparr>ap_share := None, ap_preview := None\<rparr> else a);
          a = (case Option.bind (hget (cs_voice (ap_state a)) user) vs_screen of
                 Some share \<Rightarrow> with_session (forget (sh_ssrc share)) a
               | None \<Rightarrow> a);
          a = (case ap_watcher a of
                 Some (who, _) \<Rightarrow> if who = user then app_stop_watching a else a
               | None \<Rightarrow> a)
      in if ap_view a = Watching user then a\<lparr>ap_view := home_view a\<rparr> else a)"

definition on_voice_state :: "voice_state \<Rightarrow> app \<Rightarrow> app" where
  "on_voice_state v a =
     with_session
       (\<lambda>sh. set_user_volume (vs_user v) (volume_for (ap_settings a) (vs_user v))
          (case vs_screen v of
             Some share \<Rightarrow> attribute (sh_ssrc share) (vs_user v) (attribute (vs_ssrc v) (vs_user v) sh)
           | None \<Rightarrow> attribute (vs_ssrc v) (vs_user v) sh)) a"

definition handle_server :: "ui_env \<Rightarrow> server_msg \<Rightarrow> app \<Rightarrow> app" where
  "handle_server E msg a =
     (let a =
        (case msg of
           Ready _ _ _ chans _ \<Rightarrow> on_ready E chans a
         | Error _ txt fatally \<Rightarrow> (if fatally then a else notify (ue_now E) Error_notice txt a)
         | VoiceState v \<Rightarrow> on_voice_state v a
         | VoiceReady ch stream key port \<Rightarrow> start_voice E ch stream key port a
         | VoiceLeave user _ \<Rightarrow> on_voice_leave user a
         | server_msg.ScreenReport _ received lost want \<Rightarrow>
             a\<lparr>ap_governor := report (ap_governor a) received lost want\<rparr>
         | ScreenStart user share \<Rightarrow> on_screen_start E user share a
         | ScreenStop user \<Rightarrow> on_screen_stop user a
         | FileOffer sender offer \<Rightarrow>
             notify (ue_now E) Info_notice
               (state_label (ap_state a) sender @ str '' wants to send you '' @ fo_name offer) a
         | _ \<Rightarrow> a)
      in a\<lparr>ap_state := apply_msg (ue_now E) (ap_state a) msg\<rparr>)"

end
