(* ===== verification/AppActions.thy ===== *)
theory AppActions
  imports App
begin

text \<open>
  What the user asks of the application and what its threads report, \<open>App::apply\<close>,
  \<open>pump_network\<close> and \<open>pump_transfers\<close> of \<open>crates/boa-client/src/ui/mod.rs\<close>, the row of a
  transfer in \<open>ui/transfers.rs\<close>, and the order of a frame's work.
\<close>

section \<open>Events of the network\<close>

definition on_status :: "Net.status \<Rightarrow> app \<Rightarrow> app" where
  "on_status status a =
     (let a = (case status of
                 Connected \<Rightarrow> a\<lparr>ap_connect := (ap_connect a)\<lparr>fm_busy := None, fm_error := None\<rparr>\<rparr>
               | Rejected why \<Rightarrow>
                   let a = save_quietly (a\<lparr>ap_settings := (ap_settings a)\<lparr>st_token := None\<rparr>\<rparr>)
                   in a\<lparr>ap_state := reset (ap_state a), ap_view := Connect_view,
                        ap_connect := (ap_connect a)\<lparr>fm_busy := None, fm_error := Some why\<rparr>\<rparr>
               | Offline \<Rightarrow>
                   a\<lparr>ap_state := reset (ap_state a), ap_view := Connect_view,
                     ap_connect := (ap_connect a)\<lparr>fm_busy := None\<rparr>\<rparr>
               | _ \<Rightarrow> a)
      in a\<lparr>ap_status := status\<rparr>)"

definition on_authenticated :: "rstring + Api.session \<Rightarrow> app \<Rightarrow> app" where
  "on_authenticated r a =
     (case r of
        Inr ses \<Rightarrow>
          let a = save_quietly (a\<lparr>ap_settings := (ap_settings a)\<lparr>st_token := Some (ss_token ses),
                      st_user_name := u_name (ss_user ses), st_server_url := fm_url (ap_connect a)\<rparr>\<rparr>);
              a = a\<lparr>ap_connect := (ap_connect a)\<lparr>fm_busy := Some (str ''connecting'' @ [8230]), fm_password := []\<rparr>\<rparr>
          in emit (To_net (Connect (base_url (ap_settings a)) (ss_token ses))) a
      | Inl why \<Rightarrow> a\<lparr>ap_connect := (ap_connect a)\<lparr>fm_busy := None, fm_error := Some why\<rparr>\<rparr>)"

definition on_net_event :: "ui_env \<Rightarrow> net_event \<Rightarrow> app \<Rightarrow> app" where
  "on_net_event E e a =
     (case e of
        Status status \<Rightarrow> on_status status a
      | Probed (Inr p) \<Rightarrow> a\<lparr>ap_connect := (ap_connect a)\<lparr>fm_busy := None, fm_error := None, fm_probe := Some p\<rparr>\<rparr>
      | Probed (Inl why) \<Rightarrow> a\<lparr>ap_connect := (ap_connect a)\<lparr>fm_busy := None, fm_probe := None, fm_error := Some why\<rparr>\<rparr>
      | Authenticated r \<Rightarrow> on_authenticated r a
      | Server msg \<Rightarrow> handle_server E msg a
      | net_event.AttachmentReady i sha \<Rightarrow>
          emit (Forget_image sha) (a\<lparr>ap_requested := removeAll i (ap_requested a)\<rparr>)
      | AttachmentGone i \<Rightarrow> a\<lparr>ap_requested := removeAll i (ap_requested a)\<rparr>
      | Trouble what \<Rightarrow> notify (ue_now E) Error_notice what a)"

definition pump_network :: "ui_env \<Rightarrow> net_event list \<Rightarrow> app \<Rightarrow> app" where
  "pump_network E events a = foldl (\<lambda>a e. on_net_event E e a) a events"

section \<open>Transfers\<close>

definition active_new :: "nat \<Rightarrow> u64 \<Rightarrow> id \<Rightarrow> rstring \<Rightarrow> bool \<Rightarrow> u64 \<Rightarrow> active" where
  "active_new now job peer name outgoing whole =
     \<lparr>ac_id = job, ac_peer = peer, ac_name = name, ac_outgoing = outgoing, ac_done = 0, ac_total = whole,
      ac_direct = None, ac_at = now, ac_last_done = 0, ac_rate = 0\<rparr>"

text \<open>\<open>as_secs_f64\<close> of a duration, and the constants \<open>0.35\<close>, \<open>0.4\<close> and \<open>0.6\<close>.\<close>

definition as_secs_f64 :: "nat \<Rightarrow> flt" where
  "as_secs_f64 ns =
     fl_add binary64 (of64 (f64_of_nat (ns div 10 ^ 9)))
       (fl_div binary64 (of64 (f64_of_nat (ns mod 10 ^ 9))) (of64 (f64_of_nat (10 ^ 9))))"

definition f64_point_35 :: flt where "f64_point_35 = of64 0x3FD6666666666666"
definition f64_point_4 :: flt where "f64_point_4 = of64 0x3FD999999999999A"
definition f64_point_6 :: flt where "f64_point_6 = of64 0x3FE3333333333333"

definition fl_zero :: "flt \<Rightarrow> bool" where
  "fl_zero x \<longleftrightarrow> fl_le x (of64 0) \<and> fl_le (of64 0) x"

definition active_advance :: "nat \<Rightarrow> u64 \<Rightarrow> u64 \<Rightarrow> active \<Rightarrow> active" where
  "active_advance now sent whole t =
     (let t = t\<lparr>ac_total := max whole 1\<rparr>;
          elapsed = as_secs_f64 (now - ac_at t);
          t = (if fl_le f64_point_35 elapsed
               then
                 let instant = fl_div binary64 (of64 (f64_of_nat (unat (sub_sat sent (ac_last_done t))))) elapsed;
                     rate = of64 (ac_rate t)
                 in t\<lparr>ac_rate := to64 (if fl_zero rate then instant
                        else fl_add binary64 (fl_mul binary64 rate f64_point_4) (fl_mul binary64 instant f64_point_6)),
                      ac_at := now, ac_last_done := sent\<rparr>
               else t)
      in t\<lparr>ac_done := sent\<rparr>)"

text \<open>\<open>iter_mut().find\<close> by identifier, and \<open>position\<close> with \<open>remove\<close>.\<close>

fun on_first :: "('a \<Rightarrow> bool) \<Rightarrow> ('a \<Rightarrow> 'a) \<Rightarrow> 'a list \<Rightarrow> 'a list" where
  "on_first P f [] = []"
| "on_first P f (x # xs) = (if P x then f x # xs else x # on_first P f xs)"

definition take_transfer :: "u64 \<Rightarrow> app \<Rightarrow> active option \<times> app" where
  "take_transfer job a =
     (case position (\<lambda>t. ac_id t = job) (ap_active a) of
        None \<Rightarrow> (None, a)
      | Some at \<Rightarrow> (Some (ap_active a ! at), a\<lparr>ap_active := take at (ap_active a) @ drop (Suc at) (ap_active a)\<rparr>))"

definition finished_name :: "active option \<Rightarrow> rstring" where
  "finished_name t = (case t of Some t \<Rightarrow> ac_name t | None \<Rightarrow> [])"

definition on_transfer_event :: "ui_env \<Rightarrow> transfer_event \<Rightarrow> app \<Rightarrow> app" where
  "on_transfer_event E e a =
     (case e of
        Offered job to ch code name bytes \<Rightarrow>
          let a = send_msg (OfferFile to \<lparr>fo_code = code, fo_name = name, fo_size = bytes, fo_channel = ch\<rparr>) a
          in a\<lparr>ap_active := ap_active a @ [active_new (ue_now E) job to name True bytes]\<rparr>
      | Connected_to job direct \<Rightarrow>
          a\<lparr>ap_active := on_first (\<lambda>t. ac_id t = job) (\<lambda>t. t\<lparr>ac_direct := Some direct\<rparr>) (ap_active a)\<rparr>
      | Progress job sent whole \<Rightarrow>
          a\<lparr>ap_active := on_first (\<lambda>t. ac_id t = job) (active_advance (ue_now E) sent whole) (ap_active a)\<rparr>
      | Done job path \<Rightarrow>
          (case take_transfer job a of
             (finished, a) \<Rightarrow>
               (case path of
                  Some path \<Rightarrow> notify (ue_now E) Success_notice (str ''saved '' @ path) a
                | None \<Rightarrow> notify (ue_now E) Success_notice (str ''sent '' @ finished_name finished) a))
      | Failed job why \<Rightarrow>
          (case take_transfer job a of
             (finished, a) \<Rightarrow> notify (ue_now E) Error_notice (finished_name finished @ str '': '' @ why) a))"

definition pump_transfers :: "ui_env \<Rightarrow> transfer_event list \<Rightarrow> app \<Rightarrow> app" where
  "pump_transfers E events a = foldl (\<lambda>a e. on_transfer_event E e a) a events"

section \<open>Actions\<close>

datatype action =
    Go view
  | Ask_who
  | Do_log_in
  | Do_register
  | Log_out
  | Open_channel id
  | Load_older id
  | Send_composer
  | Attach_files
  | Type_in id
  | Want_attachment attachment
  | Open_attachment attachment
  | Reveal_attachments
  | Join_voice id
  | Leave_voice
  | Toggle_mute
  | Toggle_deafen
  | Start_screen
  | Share_source source
  | Cancel_share_picker
  | Stop_screen
  | Toggle_pop_out
  | Watch id
  | Unwatch id
  | Create_channel rstring channel_kind
  | Settings_changed
  | Send_file_direct id
  | Accept_offer id rstring
  | Decline_offer id rstring
  | Cancel_transfer u64
  | Notify notice

text \<open>What the platform answers while an action is applied.\<close>

datatype screen_access = Granted | Asked_for_it | Unknown_access

record action_env =
  ae_ui :: ui_env
  ae_nonce :: rstring
  ae_files :: "(rstring option \<times> byte list result) list option"   \<comment> \<open>names and contents picked\<close>
  ae_path :: "rstring option"
  ae_open :: "unit result"
  ae_reveal :: "unit result"
  ae_native :: bool
  ae_ffmpeg :: bool
  ae_ffmpeg_advice :: rstring
  ae_access :: screen_access
  ae_sources :: "source list"

definition typed_base :: "app \<Rightarrow> rstring" where
  "typed_base a = base_url (default_settings\<lparr>st_server_url := fm_url (ap_connect a)\<rparr>)"

definition history_request :: "client_msg option \<times> client_state \<Rightarrow> app \<Rightarrow> app" where
  "history_request r a =
     (let a = a\<lparr>ap_state := snd r\<rparr> in case fst r of Some m \<Rightarrow> send_msg m a | None \<Rightarrow> a)"

definition do_probe :: "app \<Rightarrow> app" where
  "do_probe a =
     (if typed_base a = []
      then a\<lparr>ap_connect := (ap_connect a)\<lparr>fm_error := Some (str ''type a server address first'')\<rparr>\<rparr>
      else emit (To_net (Probe (typed_base a)))
             (a\<lparr>ap_connect := (ap_connect a)\<lparr>fm_busy := Some (str ''looking up the server'' @ [8230]), fm_error := None\<rparr>\<rparr>))"

definition do_sign_in :: "bool \<Rightarrow> app \<Rightarrow> app" where
  "do_sign_in registering a =
     (let base = typed_base a;
          a = a\<lparr>ap_connect := (ap_connect a)\<lparr>fm_busy := Some (str ''signing in'' @ [8230]), fm_error := None\<rparr>\<rparr>;
          name = trim (fm_name (ap_connect a));
          password = fm_password (ap_connect a)
      in emit (To_net (if registering then Register base name password (trim (fm_display_name (ap_connect a)))
                       else LogIn base name password)) a)"

definition do_log_out :: "app \<Rightarrow> app" where
  "do_log_out a =
     (let a = emit (To_net Disconnect) (save_quietly (a\<lparr>ap_settings := (ap_settings a)\<lparr>st_token := None\<rparr>\<rparr>))
      in a\<lparr>ap_state := reset (ap_state a), ap_view := Connect_view,
           ap_connect := (ap_connect a)\<lparr>fm_probe := None, fm_busy := None\<rparr>\<rparr>)"

definition do_send_composer :: "nat \<Rightarrow> rstring \<Rightarrow> app \<Rightarrow> app" where
  "do_send_composer now key a =
     (case ap_view a of
        Channel_view ch \<Rightarrow>
          let content = trim (ap_composer a)
          in if content = [] then a
             else send_msg (SendMessage ch content key [])
                    (a\<lparr>ap_composer := [], ap_state := add_pending \<lparr>pd_nonce = key, pd_channel = ch,
                       pd_content = content, pd_attachment_names = [], pd_sent_at = now\<rparr> (ap_state a)\<rparr>)
      | _ \<Rightarrow> a)"

text \<open>One picked file: kept, too large for the server, or unreadable.\<close>

definition pick_one ::
  "ui_env \<Rightarrow> u64 \<Rightarrow> app \<times> (rstring \<times> byte list) list \<Rightarrow> rstring option \<times> byte list result
    \<Rightarrow> app \<times> (rstring \<times> byte list) list" where
  "pick_one E limit s file =
     (let name = (case fst file of Some n \<Rightarrow> n | None \<Rightarrow> str ''attachment'')
      in case snd file of
           Inr bytes \<Rightarrow>
             if length bytes > unat limit
             then (notify (ue_now E) Error_notice
                     (name @ str '' is '' @ ue_bytes E (of_nat (length bytes)) @ [32, 8212]
                      @ str '' this server takes '' @ ue_bytes E limit
                      @ str '' in a message. Send it directly instead.'') (fst s), snd s)
             else (fst s, snd s @ [(name, bytes)])
         | Inl e \<Rightarrow> (notify (ue_now E) Error_notice (name @ str '': '' @ display e) (fst s), snd s))"

definition do_attach_files :: "action_env \<Rightarrow> app \<Rightarrow> app" where
  "do_attach_files A a =
     (case ap_view a of
        Channel_view ch \<Rightarrow>
          (case ae_files A of
             None \<Rightarrow> a
           | Some picked \<Rightarrow>
               let limit = (case cs_server (ap_state a) of
                              Some s \<Rightarrow> si_max_upload_bytes s | None \<Rightarrow> 64 * 1024 * 1024);
                   (a, files) = foldl (pick_one (ae_ui A) limit) (a, []) picked
               in if files = [] then a
                  else
                    let content = trim (ap_composer a);
                        a = a\<lparr>ap_composer := [], ap_state := add_pending \<lparr>pd_nonce = ae_nonce A, pd_channel = ch,
                              pd_content = content, pd_attachment_names = map fst files,
                              pd_sent_at = ue_now (ae_ui A)\<rparr> (ap_state a)\<rparr>
                    in emit (To_net (SendWithFiles ch content (ae_nonce A) files)) a)
      | _ \<Rightarrow> a)"

definition do_type :: "nat \<Rightarrow> id \<Rightarrow> app \<Rightarrow> app" where
  "do_type now ch a =
     (if (case ap_last_typing a of Some at \<Rightarrow> now - at > 3 * 10 ^ 9 | None \<Rightarrow> True)
      then send_msg (client_msg.Typing ch) (a\<lparr>ap_last_typing := Some now\<rparr>) else a)"

definition do_want_attachment :: "attachment \<Rightarrow> app \<Rightarrow> app" where
  "do_want_attachment att a =
     (if at_id att \<in> set (ap_requested a) then a
      else emit (To_net (WantAttachment att)) (a\<lparr>ap_requested := at_id att # ap_requested a\<rparr>))"

definition do_join_voice :: "id \<Rightarrow> app \<Rightarrow> app" where
  "do_join_voice ch a =
     (let a = a\<lparr>ap_view := Channel_view ch\<rparr>;
          a = history_request (ensure_history (ap_state a) ch) a
      in ask_to_join ch (a\<lparr>ap_in_call := Some ch\<rparr>))"

definition do_leave_voice :: "app \<Rightarrow> app" where
  "do_leave_voice a =
     send_msg LeaveVoice
       (a\<lparr>ap_in_call := None, ap_share := None, ap_preview := None, ap_watcher := None, ap_texture := None,
          ap_voice := None, ap_meter := default_meter\<rparr>)"

definition do_toggle_mute :: "app \<Rightarrow> app" where
  "do_toggle_mute a =
     (let s = st_voice (ap_settings a)
      in if vs_deafened s then set_voice_flags False False a else set_voice_flags (\<not> vs_muted s) False a)"

definition do_toggle_deafen :: "app \<Rightarrow> app" where
  "do_toggle_deafen a =
     (let s = st_voice (ap_settings a);
          deafened = \<not> vs_deafened s;
          muted = (if deafened then True else vs_muted s)
      in set_voice_flags muted deafened a)"

definition do_start_screen :: "action_env \<Rightarrow> app \<Rightarrow> app" where
  "do_start_screen A a =
     (let now = ue_now (ae_ui A)
      in if my_channel (ap_state a) = None
         then notify now Error_notice (str ''join a voice channel first'') a
         else if \<not> ae_native A \<and> \<not> ae_ffmpeg A then notify now Error_notice (ae_ffmpeg_advice A) a
         else if ae_access A = Asked_for_it
         then notify now Info_notice
                (str ''allow BoaVoice under Screen & System Audio Recording, then restart it '' @ [8212]
                 @ str '' macOS only grants this to a process that starts afterwards'') a
         else if ae_sources A = [] then notify now Error_notice (str ''nothing to share was found'') a
         else a\<lparr>ap_picking := Some (ae_sources A)\<rparr>)"

definition do_share_source :: "source \<Rightarrow> app \<Rightarrow> app" where
  "do_share_source src a =
     (let s = st_screen (ap_settings a)
      in send_msg (StartScreen \<lparr>rq_width = ss_max_dimension s, rq_height = ss_max_dimension s * 9 div 16,
                     rq_fps = ss_fps s, rq_kbps = ss_kbps s, rq_with_audio = ss_with_audio s\<rparr>)
           (a\<lparr>ap_picking := None, ap_pending_source := Some src\<rparr>))"

definition do_watch :: "nat \<Rightarrow> id \<Rightarrow> app \<Rightarrow> app" where
  "do_watch now user a =
     (case Option.bind (hget (cs_voice (ap_state a)) user) vs_screen of
        None \<Rightarrow> notify now Error_notice (str ''they are not sharing a screen'') a
      | Some share \<Rightarrow>
          (case ap_voice a of
             None \<Rightarrow> notify now Error_notice (str ''join the call first'') a
           | Some _ \<Rightarrow>
               (send_msg (WatchScreen user)
                  ((with_session (watch_stream (sh_ssrc share)) a)
                    \<lparr>ap_texture := None, ap_watcher := Some (user, watcher_new)\<rparr>))
                 \<lparr>ap_view := Watching user\<rparr>))"

definition do_pop_out :: "app \<Rightarrow> app" where
  "do_pop_out a =
     (if po_open (ap_popout a) then a\<lparr>ap_popout := (ap_popout a)\<lparr>po_open := False\<rparr>\<rparr>
      else (case ap_view a of
              Watching target \<Rightarrow>
                a\<lparr>ap_popout := (ap_popout a)\<lparr>po_whose := (if is_me a target then str ''Your own screen''
                     else state_label (ap_state a) target), po_open := True\<rparr>\<rparr>
            | _ \<Rightarrow> a))"

definition do_settings_changed :: "app \<Rightarrow> app" where
  "do_settings_changed a =
     (let a = with_session (apply_settings (st_voice (ap_settings a))) (save_quietly a);
          a = apply_user_volumes a;
          kbps = ss_kbps (st_screen (ap_settings a));
          a = a\<lparr>ap_governor := governor_new kbps\<rparr>
      in case ap_share a of Some _ \<Rightarrow> emit (Set_bitrate kbps) a | None \<Rightarrow> a)"

definition do_send_file_direct :: "action_env \<Rightarrow> id \<Rightarrow> app \<Rightarrow> app" where
  "do_send_file_direct A to a =
     (case ae_path A of
        None \<Rightarrow> a
      | Some path \<Rightarrow>
          let ch = (case ap_view a of
                      Channel_view ch \<Rightarrow> ch
                    | _ \<Rightarrow> (case first_text_channel (ap_state a) of Some ch \<Rightarrow> ch | None \<Rightarrow> NONE_ID));
              (job, t) = next_id (ap_transfers a);
              a = notify (ue_now (ae_ui A)) Info_notice
                    (str ''opening a wormhole to '' @ state_label (ap_state a) to @ [32, 8212]
                     @ str '' they will be asked to accept'') (a\<lparr>ap_transfers := t\<rparr>)
          in emit (To_transfers (Send_file job to ch path) (app_relays a)) a)"

definition do_accept_offer :: "nat \<Rightarrow> id \<Rightarrow> rstring \<Rightarrow> app \<Rightarrow> app" where
  "do_accept_offer now sender code a =
     (case find (\<lambda>(who, offer). who = sender \<and> fo_code offer = code) (cs_offers (ap_state a)) of
        None \<Rightarrow> a
      | Some (_, offer) \<Rightarrow>
          let (job, t) = next_id (ap_transfers a);
              a = a\<lparr>ap_transfers := t,
                    ap_active := ap_active a @ [active_new now job sender (fo_name offer) False (fo_size offer)]\<rparr>;
              a = emit (To_transfers (Receive_file job sender (fo_code offer) (fo_name offer)) (app_relays a)) a
          in a\<lparr>ap_state := (ap_state a)\<lparr>cs_offers :=
               filter (\<lambda>(who, offer). \<not> (who = sender \<and> fo_code offer = code)) (cs_offers (ap_state a))\<rparr>\<rparr>)"

definition do_decline_offer :: "id \<Rightarrow> rstring \<Rightarrow> app \<Rightarrow> app" where
  "do_decline_offer sender code a =
     send_msg (CancelFileOffer sender code)
       (a\<lparr>ap_state := (ap_state a)\<lparr>cs_offers :=
          filter (\<lambda>(who, offer). \<not> (who = sender \<and> fo_code offer = code)) (cs_offers (ap_state a))\<rparr>\<rparr>)"

definition apply_action :: "action_env \<Rightarrow> action \<Rightarrow> app \<Rightarrow> app" where
  "apply_action A act a =
     (let now = ue_now (ae_ui A)
      in case act of
        Go v \<Rightarrow> a\<lparr>ap_view := v\<rparr>
      | Ask_who \<Rightarrow> do_probe a
      | Do_log_in \<Rightarrow> do_sign_in False a
      | Do_register \<Rightarrow> do_sign_in True a
      | Log_out \<Rightarrow> do_log_out a
      | Open_channel ch \<Rightarrow>
          let a = save_quietly (a\<lparr>ap_view := Channel_view ch,
                    ap_settings := (ap_settings a)\<lparr>st_last_channel := Some (id_val ch)\<rparr>\<rparr>)
          in history_request (ensure_history (ap_state a) ch) a
      | Load_older ch \<Rightarrow> history_request (load_older (ap_state a) ch) a
      | Send_composer \<Rightarrow> do_send_composer now (ae_nonce A) a
      | Attach_files \<Rightarrow> do_attach_files A a
      | Type_in ch \<Rightarrow> do_type now ch a
      | Want_attachment att \<Rightarrow> do_want_attachment att a
      | Open_attachment att \<Rightarrow>
          (case ae_open A of Inr _ \<Rightarrow> a | Inl e \<Rightarrow> notify now Error_notice (at_name att @ str '': '' @ display e) a)
      | Reveal_attachments \<Rightarrow>
          (case ae_reveal A of Inr _ \<Rightarrow> a | Inl e \<Rightarrow> notify now Error_notice (display e) a)
      | Join_voice ch \<Rightarrow> do_join_voice ch a
      | Leave_voice \<Rightarrow> do_leave_voice a
      | Toggle_mute \<Rightarrow> do_toggle_mute a
      | Toggle_deafen \<Rightarrow> do_toggle_deafen a
      | Start_screen \<Rightarrow> do_start_screen A a
      | Share_source src \<Rightarrow> do_share_source src a
      | Cancel_share_picker \<Rightarrow> a\<lparr>ap_picking := None\<rparr>
      | Stop_screen \<Rightarrow> send_msg StopScreen (a\<lparr>ap_share := None, ap_preview := None\<rparr>)
      | Toggle_pop_out \<Rightarrow> do_pop_out a
      | Watch user \<Rightarrow> do_watch now user a
      | Unwatch _ \<Rightarrow> (let a = app_stop_watching a in a\<lparr>ap_view := home_view a\<rparr>)
      | Create_channel name kind \<Rightarrow> send_msg (CreateChannel name kind) a
      | Settings_changed \<Rightarrow> do_settings_changed a
      | Send_file_direct to \<Rightarrow> do_send_file_direct A to a
      | Accept_offer sender code \<Rightarrow> do_accept_offer now sender code a
      | Decline_offer sender code \<Rightarrow> do_decline_offer sender code a
      | Cancel_transfer job \<Rightarrow>
          snd (take_transfer job (a\<lparr>ap_transfers := cancel_job job (ap_transfers a)\<rparr>))
      | Notify n \<Rightarrow> notify (nt_at n) (nt_kind n) (nt_text n) a)"

section \<open>One frame\<close>

text \<open>The work of a frame before drawing.\<close>

definition frame_work ::
  "'d sound_libs \<Rightarrow> bool \<Rightarrow> ui_env \<Rightarrow> net_event list \<Rightarrow> transfer_event list \<Rightarrow> app \<Rightarrow> app" where
  "frame_work L held E events transfer_events a =
     (let a = pump_transfers E transfer_events (pump_network E events a);
          a = check_share E (poll_screen (poll_voice L held a));
          a = steer_share E (report_quality E (heal_voice E a));
          a = feed_popout a
      in a\<lparr>ap_state := expire (ue_now E) (ap_state a),
           ap_notices := filter (\<lambda>n. \<not> notice_expired (ue_now E) n) (ap_notices a)\<rparr>)"

text \<open>Starting up: the housekeeping aside, and straight in with a saved token.\<close>

definition app_new :: "nat \<Rightarrow> settings \<Rightarrow> app" where
  "app_new now loaded =
     (let s = Settings.sanitise loaded;
          a = \<lparr>ap_settings = s, ap_state = default_state, ap_status = Offline, ap_view = Connect_view,
               ap_connect = \<lparr>fm_url = st_server_url s, fm_name = st_user_name s, fm_password = [],
                 fm_display_name = [], fm_mode = None, fm_probe = None, fm_busy = None, fm_error = None\<rparr>,
               ap_meter = default_meter, ap_composer = [], ap_notices = [], ap_requested = [],
               ap_last_typing = None, ap_voice = None, ap_announced_speaking = False, ap_share = None,
               ap_watcher = None, ap_preview = None, ap_texture = None,
               ap_popout = \<lparr>po_open = False, po_whose = [], po_texture = None, po_trouble = None\<rparr>,
               ap_in_call = None, ap_voice_since = None, ap_media_bad_since = None, ap_last_rejoin = None,
               ap_rejoins = 0, ap_governor = governor_new (ss_kbps (st_screen s)), ap_steered = now,
               ap_reported = now, ap_reported_at = (0, 0), ap_texture_for = None, ap_picking = None,
               ap_pending_source = None, ap_transfers = transfers_spawn, ap_active = [], ap_out = []\<rparr>
      in case st_token s of
           Some token \<Rightarrow>
             if base_url s = [] then a
             else emit (To_net (Connect (base_url s) token))
                    (a\<lparr>ap_connect := (ap_connect a)\<lparr>fm_busy := Some (str ''connecting'' @ [8230])\<rparr>\<rparr>)
         | None \<Rightarrow> a)"

end
