(* ===== verification/AppProps.thy ===== *)
theory AppProps
  imports AppActions
begin

text \<open>
  What holds of the application whatever its threads, the user and the platform do: the
  microphone follows the switch, a preview belongs to a share, and the lists stay small and
  without repetition.
\<close>

section \<open>Fields that small operations leave alone\<close>

lemma emit_fields [simp]:
  "ap_settings (emit e a) = ap_settings a" "ap_state (emit e a) = ap_state a"
  "ap_voice (emit e a) = ap_voice a" "ap_voice_since (emit e a) = ap_voice_since a"
  "ap_share (emit e a) = ap_share a" "ap_preview (emit e a) = ap_preview a"
  "ap_notices (emit e a) = ap_notices a" "ap_requested (emit e a) = ap_requested a"
  "ap_in_call (emit e a) = ap_in_call a" "ap_watcher (emit e a) = ap_watcher a"
  "ap_view (emit e a) = ap_view a" "ap_status (emit e a) = ap_status a"
  "ap_meter (emit e a) = ap_meter a" "ap_last_rejoin (emit e a) = ap_last_rejoin a"
  "ap_media_bad_since (emit e a) = ap_media_bad_since a" "ap_rejoins (emit e a) = ap_rejoins a"
  "ap_transfers (emit e a) = ap_transfers a" "ap_active (emit e a) = ap_active a"
  "ap_out (emit e a) = ap_out a @ [e]"
  by (simp_all add: emit_def)

lemma notify_fields [simp]:
  "ap_settings (notify now k t a) = ap_settings a" "ap_state (notify now k t a) = ap_state a"
  "ap_voice (notify now k t a) = ap_voice a" "ap_voice_since (notify now k t a) = ap_voice_since a"
  "ap_share (notify now k t a) = ap_share a" "ap_preview (notify now k t a) = ap_preview a"
  "ap_requested (notify now k t a) = ap_requested a" "ap_in_call (notify now k t a) = ap_in_call a"
  "ap_watcher (notify now k t a) = ap_watcher a" "ap_view (notify now k t a) = ap_view a"
  "ap_status (notify now k t a) = ap_status a" "ap_meter (notify now k t a) = ap_meter a"
  "ap_last_rejoin (notify now k t a) = ap_last_rejoin a"
  "ap_media_bad_since (notify now k t a) = ap_media_bad_since a" "ap_rejoins (notify now k t a) = ap_rejoins a"
  "ap_transfers (notify now k t a) = ap_transfers a" "ap_active (notify now k t a) = ap_active a"
  "ap_out (notify now k t a) = ap_out a"
  by (simp_all add: notify_def Let_def)

lemma notify_short: "length (ap_notices a) \<le> 4 \<Longrightarrow> length (ap_notices (notify now k t a)) \<le> 4"
  by (auto simp: notify_def Let_def)

lemma with_session_fields [simp]:
  "ap_settings (with_session f a) = ap_settings a" "ap_state (with_session f a) = ap_state a"
  "ap_voice_since (with_session f a) = ap_voice_since a"
  "ap_share (with_session f a) = ap_share a" "ap_preview (with_session f a) = ap_preview a"
  "ap_notices (with_session f a) = ap_notices a" "ap_requested (with_session f a) = ap_requested a"
  "ap_in_call (with_session f a) = ap_in_call a" "ap_watcher (with_session f a) = ap_watcher a"
  "ap_view (with_session f a) = ap_view a" "ap_status (with_session f a) = ap_status a"
  "ap_out (with_session f a) = ap_out a"
  "ap_voice (with_session f a) = map_option (\<lambda>v. v\<lparr>vo_shared := f (vo_shared v)\<rparr>) (ap_voice a)"
  by (simp_all add: with_session_def)

lemma shared_flags [simp]:
  "sh_muted (attribute s u sh) = sh_muted sh" "sh_deafened (attribute s u sh) = sh_deafened sh"
  "sh_muted (set_user_volume u v sh) = sh_muted sh" "sh_deafened (set_user_volume u v sh) = sh_deafened sh"
  "sh_muted (forget s sh) = sh_muted sh" "sh_deafened (forget s sh) = sh_deafened sh"
  "sh_muted (set_talk_key h sh) = sh_muted sh" "sh_deafened (set_talk_key h sh) = sh_deafened sh"
  "sh_muted (apply_settings vs sh) = sh_muted sh" "sh_deafened (apply_settings vs sh) = sh_deafened sh"
  "sh_muted (watch_stream s sh) = sh_muted sh" "sh_deafened (watch_stream s sh) = sh_deafened sh"
  "sh_muted (stop_watching sh) = sh_muted sh" "sh_deafened (stop_watching sh) = sh_deafened sh"
  "sh_muted (set_deafened b (set_muted c sh)) = c" "sh_deafened (set_deafened b sh) = b"
  "sh_muted (shared_new vs) = vs_muted vs" "sh_deafened (shared_new vs) = vs_deafened vs"
  by (simp_all add: attribute_def set_user_volume_def forget_def drop_speaker_def set_talk_key_def
      apply_settings_def watch_stream_def stop_watching_def set_deafened_def set_muted_def shared_new_def)

lemma volumes_flags [simp]:
  "sh_muted (foldl (\<lambda>sh v. set_user_volume (vs_user v) (vol v) sh) sh vs) = sh_muted sh"
  "sh_deafened (foldl (\<lambda>sh v. set_user_volume (vs_user v) (vol v) sh) sh vs) = sh_deafened sh"
  by (induction vs arbitrary: sh) simp_all

section \<open>The invariant\<close>

text \<open>The engine of a call has the microphone and the sound as the settings say.\<close>

definition engine_follows :: "app \<Rightarrow> bool" where
  "engine_follows a \<longleftrightarrow>
     (\<forall>v. ap_voice a = Some v \<longrightarrow> sh_muted (vo_shared v) = vs_muted (st_voice (ap_settings a))
        \<and> sh_deafened (vo_shared v) = vs_deafened (st_voice (ap_settings a))
        \<and> ap_voice_since a \<noteq> None)"

definition app_ok :: "app \<Rightarrow> bool" where
  "app_ok a \<longleftrightarrow> engine_follows a \<and> (ap_share a = None \<longleftrightarrow> ap_preview a = None)
     \<and> length (ap_notices a) \<le> 4 \<and> distinct (ap_requested a)"

named_theorems app_keeps "operations that keep the application consistent"

lemma app_okI:
  assumes "app_ok a" "ap_settings b = ap_settings a" "ap_voice b = ap_voice a" "ap_voice_since b = ap_voice_since a"
    "ap_share b = ap_share a" "ap_preview b = ap_preview a" "ap_notices b = ap_notices a" "ap_requested b = ap_requested a"
  shows "app_ok b"
  using assms by (simp add: app_ok_def engine_follows_def)

lemma emit_ok [app_keeps]: "app_ok a \<Longrightarrow> app_ok (emit e a)"
  by (rule app_okI) simp_all

lemma send_msg_ok [app_keeps]: "app_ok a \<Longrightarrow> app_ok (send_msg m a)"
  unfolding send_msg_def by (rule emit_ok)

lemma save_ok [app_keeps]: "app_ok a \<Longrightarrow> app_ok (save_quietly a)"
  unfolding save_quietly_def by (rule emit_ok)

lemma notify_ok [app_keeps]: "app_ok a \<Longrightarrow> app_ok (notify now k t a)"
  using notify_short [of a now k t] by (simp add: app_ok_def engine_follows_def)

lemma with_session_ok [app_keeps]:
  "app_ok a \<Longrightarrow> (\<And>sh. sh_muted (f sh) = sh_muted sh \<and> sh_deafened (f sh) = sh_deafened sh) \<Longrightarrow>
   app_ok (with_session f a)"
  by (auto simp: app_ok_def engine_follows_def)

text \<open>Fields that do not matter.\<close>

lemma irrelevant_ok [app_keeps]:
  assumes "app_ok a"
  shows "app_ok (a\<lparr>ap_state := s\<rparr>)" "app_ok (a\<lparr>ap_status := st\<rparr>)" "app_ok (a\<lparr>ap_view := v\<rparr>)"
    "app_ok (a\<lparr>ap_connect := f\<rparr>)" "app_ok (a\<lparr>ap_meter := m\<rparr>)" "app_ok (a\<lparr>ap_composer := c\<rparr>)"
    "app_ok (a\<lparr>ap_last_typing := t\<rparr>)" "app_ok (a\<lparr>ap_announced_speaking := b\<rparr>)"
    "app_ok (a\<lparr>ap_watcher := w\<rparr>)" "app_ok (a\<lparr>ap_texture := x\<rparr>)" "app_ok (a\<lparr>ap_popout := p\<rparr>)"
    "app_ok (a\<lparr>ap_in_call := i\<rparr>)" "app_ok (a\<lparr>ap_media_bad_since := q\<rparr>)" "app_ok (a\<lparr>ap_last_rejoin := q\<rparr>)"
    "app_ok (a\<lparr>ap_rejoins := r\<rparr>)" "app_ok (a\<lparr>ap_governor := g\<rparr>)" "app_ok (a\<lparr>ap_steered := n\<rparr>)"
    "app_ok (a\<lparr>ap_reported := n\<rparr>)" "app_ok (a\<lparr>ap_reported_at := ra\<rparr>)" "app_ok (a\<lparr>ap_texture_for := i\<rparr>)"
    "app_ok (a\<lparr>ap_picking := pk\<rparr>)" "app_ok (a\<lparr>ap_pending_source := ps\<rparr>)" "app_ok (a\<lparr>ap_transfers := tr\<rparr>)"
    "app_ok (a\<lparr>ap_active := ac\<rparr>)" "app_ok (a\<lparr>ap_out := out\<rparr>)"
  by (rule app_okI [OF assms]; simp)+

text \<open>Hanging up, and ending a share.\<close>

lemma hang_up_ok [app_keeps]:
  "app_ok a \<Longrightarrow> app_ok (a\<lparr>ap_voice := None\<rparr>)"
  "app_ok a \<Longrightarrow> app_ok (a\<lparr>ap_share := None, ap_preview := None\<rparr>)"
  "app_ok a \<Longrightarrow> app_ok (a\<lparr>ap_voice := None, ap_voice_since := None\<rparr>)"
  by (simp_all add: app_ok_def engine_follows_def)

lemma settings_ok [app_keeps]:
  "app_ok a \<Longrightarrow> vs_muted (st_voice s) = vs_muted (st_voice (ap_settings a)) \<Longrightarrow>
   vs_deafened (st_voice s) = vs_deafened (st_voice (ap_settings a)) \<Longrightarrow> app_ok (a\<lparr>ap_settings := s\<rparr>)"
  by (simp add: app_ok_def engine_follows_def)

section \<open>Each operation\<close>

lemma stop_watching_ok [app_keeps]: "app_ok a \<Longrightarrow> app_ok (app_stop_watching a)"
  by (auto simp: app_stop_watching_def Let_def split: option.split intro!: app_keeps)

lemma begin_capture_ok [app_keeps]: "app_ok a \<Longrightarrow> app_ok (begin_capture E s a)"
proof -
  assume ok: "app_ok a"
  have started: "app_ok (b\<lparr>ap_share := Some x, ap_preview := Some y, ap_texture_for := z\<rparr>)" if "app_ok b" for b x y z
    using that by (simp add: app_ok_def engine_follows_def)
  show ?thesis
    using ok by (auto simp: begin_capture_def Let_def split: option.split sum.split intro!: app_keeps started)
qed

lemma check_share_ok [app_keeps]: "app_ok a \<Longrightarrow> app_ok (check_share E a)"
  by (auto simp: check_share_def split: option.split intro!: app_keeps)

lemma poll_screen_ok [app_keeps]: "app_ok a \<Longrightarrow> app_ok (poll_screen a)"
proof -
  assume ok: "app_ok a"
  have kept: "app_ok (b\<lparr>ap_preview := Some w\<rparr>)" if "app_ok b" "ap_preview b \<noteq> None" for b w
    using that by (simp add: app_ok_def engine_follows_def)
  show ?thesis
    using ok by (auto simp: poll_screen_def Let_def split: view.split option.split prod.split intro!: app_keeps kept)
qed

lemma feed_popout_ok [app_keeps]: "app_ok a \<Longrightarrow> app_ok (feed_popout a)"
  by (auto simp: feed_popout_def Let_def split: view.split intro!: app_keeps)

lemma volumes_ok [app_keeps]: "app_ok a \<Longrightarrow> app_ok (apply_user_volumes a)"
  unfolding apply_user_volumes_def by (intro with_session_ok) simp_all

lemma start_voice_ok [app_keeps]: "app_ok a \<Longrightarrow> app_ok (start_voice E ch s k p a)"
proof -
  assume ok: "app_ok a"
  have fresh: "app_ok (b\<lparr>ap_voice := Some (session_start r key s ch (st_voice (ap_settings b))),
      ap_announced_speaking := x, ap_voice_since := Some t, ap_media_bad_since := y, ap_in_call := z\<rparr>)"
    if "app_ok b" for b r key x t y z
    using that by (simp add: app_ok_def engine_follows_def session_start_def)
  have fresh': "app_ok (a\<lparr>ap_voice := Some (session_start r key s ch (st_voice (ap_settings a))),
      ap_announced_speaking := x, ap_voice_since := Some t, ap_media_bad_since := y, ap_in_call := z\<rparr>)"
    for r key x t y z
    using fresh [OF hang_up_ok(1) [OF ok]] by simp
  show ?thesis
    using ok by (auto simp: start_voice_def Let_def split: option.split sum.split intro!: app_keeps fresh')
qed

lemma ask_to_join_ok [app_keeps]: "app_ok a \<Longrightarrow> app_ok (ask_to_join ch a)"
  unfolding ask_to_join_def by (intro app_keeps)

lemma rejoin_ok [app_keeps]: "app_ok a \<Longrightarrow> app_ok (rejoin_voice E ch why a)"
  by (auto simp: rejoin_voice_def Let_def intro!: app_keeps)

lemma heal_ok [app_keeps]: "app_ok a \<Longrightarrow> app_ok (heal_voice E a)"
  by (auto simp: heal_voice_def Let_def split: option.split intro!: app_keeps)

lemma poll_voice_ok [app_keeps]: "app_ok a \<Longrightarrow> app_ok (poll_voice L held a)"
  by (auto simp: poll_voice_def Let_def split: option.split intro!: app_keeps)

lemma set_flags_ok [app_keeps]: "app_ok a \<Longrightarrow> app_ok (App.set_voice_flags m d a)"
proof -
  assume "app_ok a"
  then have "app_ok (with_session (\<lambda>sh. set_deafened d (set_muted m sh)) (save_quietly (a\<lparr>ap_settings :=
      (ap_settings a)\<lparr>st_voice := (st_voice (ap_settings a))\<lparr>vs_muted := m, vs_deafened := d\<rparr>\<rparr>\<rparr>)))"
    by (auto simp: app_ok_def engine_follows_def save_quietly_def)
  then show ?thesis unfolding App.set_voice_flags_def Let_def by (auto intro: app_keeps)
qed

lemma report_quality_ok [app_keeps]: "app_ok a \<Longrightarrow> app_ok (report_quality E a)"
  by (auto simp: report_quality_def Let_def split: option.split intro!: app_keeps)

lemma steer_ok [app_keeps]: "app_ok a \<Longrightarrow> app_ok (steer_share E a)"
  by (auto simp: steer_share_def Let_def split: option.split prod.split intro!: app_keeps)

section \<open>Events and actions\<close>

lemma ready_ok [app_keeps]: "app_ok a \<Longrightarrow> app_ok (on_ready E chans a)"
  by (auto simp: on_ready_def Let_def split: option.split intro!: app_keeps)

lemma voice_leave_ok [app_keeps]: "app_ok a \<Longrightarrow> app_ok (on_voice_leave u a)"
proof -
  assume ok: "app_ok a"
  have "app_ok (a\<lparr>ap_in_call := None, ap_voice := None, ap_voice_since := None, ap_meter := default_meter\<rparr>)"
    using ok by (simp add: app_ok_def engine_follows_def)
  then show ?thesis using ok by (auto simp: on_voice_leave_def split: option.split intro!: app_keeps)
qed

lemma screen_start_ok [app_keeps]: "app_ok a \<Longrightarrow> app_ok (on_screen_start E u sh a)"
  by (auto simp: on_screen_start_def intro!: app_keeps)

lemma screen_stop_ok [app_keeps]: "app_ok a \<Longrightarrow> app_ok (on_screen_stop u a)"
  by (auto simp: on_screen_stop_def Let_def split: option.split intro!: app_keeps)

lemma voice_state_ok [app_keeps]: "app_ok a \<Longrightarrow> app_ok (on_voice_state v a)"
  unfolding on_voice_state_def by (intro with_session_ok) (auto split: option.split)

lemma handle_server_ok [app_keeps]: "app_ok a \<Longrightarrow> app_ok (handle_server E msg a)"
  unfolding handle_server_def Let_def by (cases msg) (auto intro!: app_keeps)

lemma status_ok [app_keeps]: "app_ok a \<Longrightarrow> app_ok (on_status st a)"
  unfolding on_status_def Let_def by (cases st) (auto intro!: app_keeps)

lemma authenticated_ok [app_keeps]: "app_ok a \<Longrightarrow> app_ok (on_authenticated r a)"
  unfolding on_authenticated_def Let_def by (cases r) (auto intro!: app_keeps)

lemma requested_ok [app_keeps]:
  "app_ok a \<Longrightarrow> app_ok (a\<lparr>ap_requested := removeAll i (ap_requested a)\<rparr>)"
  "app_ok a \<Longrightarrow> i \<notin> set (ap_requested a) \<Longrightarrow> app_ok (a\<lparr>ap_requested := i # ap_requested a\<rparr>)"
  by (simp_all add: app_ok_def engine_follows_def distinct_removeAll)

lemma net_event_ok [app_keeps]: "app_ok a \<Longrightarrow> app_ok (on_net_event E e a)"
  by (cases e) (auto simp: on_net_event_def split: sum.split intro!: app_keeps)

lemma take_transfer_ok: "app_ok a \<Longrightarrow> take_transfer job a = (t, b) \<Longrightarrow> app_ok b"
  by (auto simp: take_transfer_def split: option.splits intro!: app_keeps)

lemma transfer_event_ok [app_keeps]: "app_ok a \<Longrightarrow> app_ok (on_transfer_event E e a)"
proof -
  assume ok: "app_ok a"
  show ?thesis
  proof (cases e)
    case (Done job path)
    obtain t b where taken: "take_transfer job a = (t, b)" by force
    with take_transfer_ok [OF ok taken] Done show ?thesis
      by (auto simp: on_transfer_event_def split: option.split intro!: app_keeps)
  next
    case (Failed job why)
    obtain t b where taken: "take_transfer job a = (t, b)" by force
    with take_transfer_ok [OF ok taken] Failed show ?thesis by (simp add: on_transfer_event_def notify_ok)
  qed (use ok in \<open>auto simp: on_transfer_event_def Let_def intro!: app_keeps\<close>)
qed

lemma history_ok [app_keeps]: "app_ok a \<Longrightarrow> app_ok (history_request r a)"
  by (auto simp: history_request_def Let_def split: option.split intro!: app_keeps)

lemma pick_one_ok: "app_ok (fst s) \<Longrightarrow> app_ok (fst (pick_one E limit s file))"
  by (auto simp: pick_one_def Let_def split: sum.split intro!: app_keeps)

lemma pick_all_ok: "app_ok (fst s) \<Longrightarrow> app_ok (fst (foldl (pick_one E limit) s files))"
  by (induction files arbitrary: s) (simp_all add: pick_one_ok)

lemma attach_ok [app_keeps]: "app_ok a \<Longrightarrow> app_ok (do_attach_files A a)"
proof -
  assume ok: "app_ok a"
  have "app_ok b" if "foldl (pick_one E limit) (a, []) files = (b, fs)" for E limit files b fs
    using pick_all_ok [of "(a, [])" E limit files] ok that by simp
  then show ?thesis
    using ok by (auto simp: do_attach_files_def Let_def split: view.split option.split prod.split intro!: app_keeps)
qed

lemma actions_ok [app_keeps]:
  assumes "app_ok a"
  shows "app_ok (do_probe a)" "app_ok (do_sign_in b a)" "app_ok (do_log_out a)" "app_ok (do_send_composer now k a)"
    "app_ok (do_type now ch a)" "app_ok (do_want_attachment att a)" "app_ok (do_join_voice ch a)"
    "app_ok (do_leave_voice a)" "app_ok (do_toggle_mute a)" "app_ok (do_toggle_deafen a)"
    "app_ok (do_start_screen A a)" "app_ok (do_share_source src a)" "app_ok (do_watch now u a)"
    "app_ok (do_pop_out a)" "app_ok (do_settings_changed a)" "app_ok (do_send_file_direct A to a)"
    "app_ok (do_accept_offer now u code a)" "app_ok (do_decline_offer u code a)"
proof -
  have left: "app_ok (a\<lparr>ap_in_call := None, ap_share := None, ap_preview := None, ap_watcher := None,
      ap_texture := None, ap_voice := None, ap_meter := default_meter\<rparr>)"
    using assms by (simp add: app_ok_def engine_follows_def)
  show "app_ok (do_probe a)" using assms by (auto simp: do_probe_def intro!: app_keeps)
  show "app_ok (do_sign_in b a)" using assms by (auto simp: do_sign_in_def Let_def intro!: app_keeps)
  show "app_ok (do_log_out a)" using assms by (auto simp: do_log_out_def Let_def intro!: app_keeps)
  show "app_ok (do_send_composer now k a)"
    using assms by (auto simp: do_send_composer_def Let_def split: view.split intro!: app_keeps)
  show "app_ok (do_type now ch a)" using assms by (auto simp: do_type_def intro!: app_keeps)
  show "app_ok (do_want_attachment att a)"
    using assms by (auto simp: do_want_attachment_def intro!: emit_ok requested_ok)
  show "app_ok (do_join_voice ch a)" using assms by (auto simp: do_join_voice_def Let_def intro!: app_keeps)
  show "app_ok (do_leave_voice a)" unfolding do_leave_voice_def by (rule send_msg_ok [OF left])
  show "app_ok (do_toggle_mute a)" using assms by (auto simp: do_toggle_mute_def Let_def intro!: app_keeps)
  show "app_ok (do_toggle_deafen a)" using assms by (auto simp: do_toggle_deafen_def Let_def intro!: app_keeps)
  show "app_ok (do_start_screen A a)" using assms by (auto simp: do_start_screen_def Let_def intro!: app_keeps)
  show "app_ok (do_share_source src a)" using assms by (auto simp: do_share_source_def Let_def intro!: app_keeps)
  show "app_ok (do_watch now u a)" using assms by (auto simp: do_watch_def split: option.split intro!: app_keeps)
  show "app_ok (do_pop_out a)" using assms by (auto simp: do_pop_out_def split: view.split intro!: app_keeps)
  show "app_ok (do_settings_changed a)"
    using assms by (auto simp: do_settings_changed_def Let_def split: option.split intro!: app_keeps)
  show "app_ok (do_send_file_direct A to a)"
    using assms by (auto simp: do_send_file_direct_def Let_def split: option.split prod.split intro!: app_keeps)
  show "app_ok (do_accept_offer now u code a)"
    using assms by (auto simp: do_accept_offer_def Let_def split: option.split prod.split intro!: app_keeps)
  show "app_ok (do_decline_offer u code a)" using assms by (auto simp: do_decline_offer_def intro!: app_keeps)
qed

lemma open_channel_ok [app_keeps]:
  "app_ok a \<Longrightarrow> app_ok (a\<lparr>ap_view := v, ap_settings := (ap_settings a)\<lparr>st_last_channel := c\<rparr>\<rparr>)"
  by (simp add: app_ok_def engine_follows_def)

lemma apply_action_ok [app_keeps]: "app_ok a \<Longrightarrow> app_ok (apply_action A act a)"
proof -
  assume ok: "app_ok a"
  show ?thesis
  proof (cases act)
    case (Cancel_transfer job)
    obtain t b where taken: "take_transfer job (a\<lparr>ap_transfers := cancel_job job (ap_transfers a)\<rparr>) = (t, b)" by force
    from take_transfer_ok [OF irrelevant_ok(23) [OF ok] taken] taken Cancel_transfer show ?thesis
      by (simp add: apply_action_def)
  qed (use ok in \<open>auto simp: apply_action_def Let_def split: sum.split intro!: app_keeps\<close>)
qed

section \<open>Every run\<close>

text \<open>
  Whatever can happen to the application: events, actions, the work of a frame piece by piece,
  edits of the settings that leave the two switches alone, and the threads of a call, of a share
  and of a decoder moving what they share with the window.
\<close>

inductive app_step :: "'d sound_libs \<Rightarrow> app \<Rightarrow> app \<Rightarrow> bool" for L where
  as_net: "app_step L a (on_net_event E e a)"
| as_transfer: "app_step L a (on_transfer_event E te a)"
| as_action: "app_step L a (apply_action A act a)"
| as_poll_voice: "app_step L a (poll_voice L held a)"
| as_poll_screen: "app_step L a (poll_screen a)"
| as_check_share: "app_step L a (check_share E a)"
| as_heal: "app_step L a (heal_voice E a)"
| as_report: "app_step L a (report_quality E a)"
| as_steer: "app_step L a (steer_share E a)"
| as_popout: "app_step L a (feed_popout a)"
| as_expire: "app_step L a (a\<lparr>ap_state := expire now (ap_state a), ap_notices := filter P (ap_notices a)\<rparr>)"
| as_edit: "vs_muted (st_voice s) = vs_muted (st_voice (ap_settings a)) \<Longrightarrow>
    vs_deafened (st_voice s) = vs_deafened (st_voice (ap_settings a)) \<Longrightarrow>
    app_step L a (a\<lparr>ap_settings := s, ap_connect := f, ap_composer := words\<rparr>)"
| as_threads: "(\<And>sh. sh_muted (g sh) = sh_muted sh \<and> sh_deafened (g sh) = sh_deafened sh) \<Longrightarrow>
    app_step L a ((with_session g a)\<lparr>ap_share := map_option h (ap_share a),
      ap_preview := map_option k (ap_preview a), ap_watcher := map_option (map_prod (\<lambda>i. i) k) (ap_watcher a),
      ap_popout := p\<rparr>)"

lemma app_ok_step: "app_step L a b \<Longrightarrow> app_ok a \<Longrightarrow> app_ok b"
proof (induction rule: app_step.induct)
  case (as_expire a P now)
  then show ?case by (auto simp: app_ok_def engine_follows_def intro: le_trans [OF length_filter_le])
next
  case (as_edit s a f words)
  then show ?case by (simp add: app_ok_def engine_follows_def)
next
  case (as_threads g a h k p)
  from with_session_ok [OF as_threads.prems as_threads.hyps] show ?case
    by (auto simp: app_ok_def engine_follows_def)
qed (auto intro: app_keeps)

interpretation app: invariant_system app_ok "app_step L" for L
  by unfold_locales (rule app_ok_step)

lemma app_ok_new: "app_ok (app_new now s)"
  by (auto simp: app_new_def Let_def app_ok_def engine_follows_def emit_def split: option.split)

text \<open>
  Claim C7. The engine does what the two saved switches say. After any events, actions, frames and
  edits of the other settings, interleaved in any way with the threads of a call, a share and a
  decoder, the engine of a call that is up has the microphone and the sound exactly as the two
  switches that the mute and deafen buttons turn are saved; a preview exists exactly while a share
  does; no attachment is remembered as requested twice; and never more than four notices stand in
  the window. This is about what is recorded and heard, not about what is drawn: in a call the
  bar draws the server's record of the member, which can lag behind (\<open>Panels.the_icon_can_lag\<close>).
\<close>

theorem the_engine_follows_the_switches:
  assumes "(app_step L)\<^sup>*\<^sup>* (app_new now loaded) a"
  shows "(\<forall>v. ap_voice a = Some v \<longrightarrow>
      sh_muted (vo_shared v) = vs_muted (st_voice (ap_settings a))
      \<and> sh_deafened (vo_shared v) = vs_deafened (st_voice (ap_settings a)))
    \<and> (ap_share a = None \<longleftrightarrow> ap_preview a = None)
    \<and> distinct (ap_requested a) \<and> length (ap_notices a) \<le> 4"
  using app.run_keeps [OF assms app_ok_new] by (auto simp: app_ok_def engine_follows_def)

text \<open>A call on a small server, and a press of the mute button.\<close>

definition plain_env :: ui_env where
  "plain_env = \<lparr>ue_now = 5, ue_unb64 = (\<lambda>_. Some (replicate 32 0)), ue_resolve = (\<lambda>_ port. Inr (AddrV4 1 port)),
     ue_voice = Inr (), ue_transport = Inr (), ue_share = (\<lambda>_ _ _ _. Inl []), ue_float = (\<lambda>_. []),
     ue_bytes = (\<lambda>_. []), ue_macos = False\<rparr>"

definition plain_actions :: action_env where
  "plain_actions = \<lparr>ae_ui = plain_env, ae_nonce = [], ae_files = None, ae_path = None, ae_open = Inr (),
     ae_reveal = Inr (), ae_native = True, ae_ffmpeg = True, ae_ffmpeg_advice = [], ae_access = Granted,
     ae_sources = []\<rparr>"

definition home :: settings where
  "home = default_settings\<lparr>st_server_url := str ''http://b''\<rparr>"

definition in_call :: app where
  "in_call = handle_server plain_env (VoiceReady (Id 7) 3 '''' 8788) (app_new 0 home)"

definition muted_call :: app where
  "muted_call = apply_action plain_actions Toggle_mute in_call"

lemma muted_call_runs: "(app_step L)\<^sup>*\<^sup>* (app_new 0 home) muted_call"
proof -
  have "app_step L (app_new 0 home) in_call"
    using as_net [of L _ plain_env "Server (VoiceReady (Id 7) 3 '''' 8788)"] by (simp add: on_net_event_def in_call_def)
  moreover have "app_step L in_call muted_call" unfolding muted_call_def by (rule as_action)
  ultimately show ?thesis by (meson rtranclp.rtrancl_into_rtrancl rtranclp.rtrancl_refl)
qed

lemma home_host: "host_of (base_url (Settings.sanitise home)) = Some (str ''b'')"
  by (simp add: home_def Settings.sanitise_def base_url_def normalise_url_def trim_def trim_start_def trim_end_def
      is_whitespace_def trim_slashes_def starts_with_def strip_prefix_def host_of_def Let_def str_def)

lemma home_app: "ap_settings (app_new now home) = Settings.sanitise home" "ap_state (app_new now home) = default_state"
  by (simp_all add: app_new_def Let_def home_def default_settings_def Settings.sanitise_def)

lemma in_call_voice: "\<exists>v. ap_voice in_call = Some v \<and> vo_channel v = Id 7"
  "ap_settings in_call = Settings.sanitise home"
proof -
  have key: "from_base64 (ue_unb64 plain_env) '''' = Some (from_bytes (replicate 32 0))"
    by (simp add: from_base64_def plain_env_def)
  have relay: "resolve_host (ue_resolve plain_env) h 8788 = Inr (AddrV4 1 8788)" for h
    by (simp add: resolve_host_def plain_env_def)
  have started: "start_voice plain_env (Id 7) 3 '''' 8788 (app_new 0 home) =
      apply_user_volumes ((app_new 0 home)\<lparr>ap_voice := Some (session_start (AddrV4 1 8788)
        (from_bytes (replicate 32 0)) 3 (Id 7) (st_voice (Settings.sanitise home))),
        ap_announced_speaking := False, ap_voice_since := Some 5, ap_media_bad_since := None,
        ap_in_call := Some (Id 7)\<rparr>)"
    by (simp add: start_voice_def key relay home_app home_host Let_def) (simp add: plain_env_def home_app)
  show "\<exists>v. ap_voice in_call = Some v \<and> vo_channel v = Id 7" "ap_settings in_call = Settings.sanitise home"
    by (simp_all add: in_call_def handle_server_def started apply_user_volumes_def session_start_def home_app Let_def)
qed

theorem the_engine_follows_the_switches_witness:
  "\<exists>v. ap_voice muted_call = Some v \<and> sh_muted (vo_shared v) \<and> \<not> sh_deafened (vo_shared v)"
proof -
  have off: "vs_muted (st_voice (Settings.sanitise home)) = False" "vs_deafened (st_voice (Settings.sanitise home)) = False"
    by (simp_all add: home_def default_settings_def Settings.sanitise_def default_voice_def)
  have kept: "muted_call = App.set_voice_flags True False in_call"
    by (simp add: muted_call_def apply_action_def do_toggle_mute_def in_call_voice(2) off Let_def)
  have "\<exists>v. ap_voice muted_call = Some v"
    using in_call_voice(1) by (auto simp: kept App.set_voice_flags_def Let_def send_msg_def save_quietly_def)
  moreover have "vs_muted (st_voice (ap_settings muted_call))" "\<not> vs_deafened (st_voice (ap_settings muted_call))"
    by (simp_all add: kept App.set_voice_flags_def Let_def send_msg_def save_quietly_def)
  ultimately show ?thesis using the_engine_follows_the_switches [OF muted_call_runs] by auto
qed

section \<open>Where the code and its comments part\<close>

text \<open>Turning the sound off mutes, in the saved setting; turning it on again restores that setting.\<close>

lemma deafening_twice_stays_muted:
  assumes "\<not> vs_deafened (st_voice (ap_settings a))"
  shows "vs_muted (st_voice (ap_settings (do_toggle_deafen (do_toggle_deafen a))))
    \<and> \<not> vs_deafened (st_voice (ap_settings (do_toggle_deafen (do_toggle_deafen a))))"
  using assms by (simp add: do_toggle_deafen_def App.set_voice_flags_def Let_def send_msg_def save_quietly_def)

text \<open>Logging out leaves the call: its session, its devices and the wish to be in it.\<close>

lemma logging_out_keeps_the_call:
  "ap_voice (do_log_out a) = ap_voice a" "ap_in_call (do_log_out a) = ap_in_call a"
  "ap_share (do_log_out a) = ap_share a"
  by (simp_all add: do_log_out_def Let_def save_quietly_def)

text \<open>
  Leaving a call forgets neither when its media went bad nor when it began, so a join some seconds
  later is taken for a call that has long been silent and is asked for twice.
\<close>

lemma a_new_call_inherits_the_old_silence:
  assumes "ap_status a = Connected" "ap_voice_since a = Some since" "ue_now E - since \<ge> 10 * 10 ^ 9"
    and "ap_media_bad_since a = Some lapse" "ue_now E - lapse \<ge> 8 * 10 ^ 9" "ap_last_rejoin a = None"
  shows "\<exists>es. ap_out (heal_voice E (do_join_voice ch (do_leave_voice a))) =
    ap_out (do_join_voice ch (do_leave_voice a)) @
      [To_net (Send (JoinVoice ch)),
       To_net (Send (UpdateVoiceState (vs_muted (st_voice (ap_settings a))) (vs_deafened (st_voice (ap_settings a)))))] @ es"
  using assms
  by (auto simp: heal_voice_def do_join_voice_def do_leave_voice_def ask_to_join_def history_request_def
      rejoin_voice_def default_meter_def Let_def send_msg_def split: option.split)

text \<open>A mute between joining and the server's answer is told to nobody.\<close>

lemma a_mute_while_joining_is_not_sent:
  assumes "my_channel (ap_state a) = None"
  shows "\<exists>s. ap_out (do_toggle_mute a) = ap_out a @ [Save_settings s]"
  using assms by (auto simp: do_toggle_mute_def App.set_voice_flags_def Let_def save_quietly_def)

text \<open>Going from one screen to another does not end the subscription to the first.\<close>

lemma watching_another_keeps_the_first:
  assumes "hget (cs_voice (ap_state a)) user = Some v" "vs_screen v = Some share" "ap_voice a \<noteq> None"
  shows "ap_out (do_watch now user a) = ap_out a @ [To_net (Send (WatchScreen user))]"
  using assms by (auto simp: do_watch_def send_msg_def)

text \<open>A key that cannot be read leaves the client in the roster of a call it is not in.\<close>

lemma an_unreadable_key_leaves_nothing:
  assumes "from_base64 (ue_unb64 E) key = None"
  shows "ap_out (start_voice E ch stream key port a) = ap_out a"
  using assms by (simp add: start_voice_def)

end
