(* ===== verification/CallBack.thy ===== *)
theory CallBack
  imports AppProps World
begin

text \<open>
  A call across a reconnection: the application of the client and the server's session together,
  from the first frame of the new connection to a voice session that the server knows.
\<close>

section \<open>The client's half\<close>

lemma on_ready_rejoins:
  assumes "ap_in_call a = Some ch" "c \<in> set chans" "ch_id c = ch" "ch_kind c = channel_kind.Voice"
  obtains seen where "on_ready X chans a = rejoin_voice X ch (str ''the connection dropped'') (a\<lparr>ap_view := seen\<rparr>)"
proof -
  have there: "\<exists>c \<in> set chans. ch_id c = ch \<and> ch_kind c = channel_kind.Voice" using assms by blast
  define opened where "opened =
    (case (case map_option Id (st_last_channel (ap_settings a)) of
             Some i \<Rightarrow> if \<exists>c \<in> set chans. ch_id c = i then Some i else None | None \<Rightarrow> None) of
       Some i \<Rightarrow> Some i | None \<Rightarrow> map_option ch_id (find (\<lambda>c. ch_kind c = channel_kind.Text) chans))"
  have "on_ready X chans a = rejoin_voice X ch (str ''the connection dropped'')
      (a\<lparr>ap_view := case opened of Some i \<Rightarrow> Channel_view i | None \<Rightarrow> ap_view a\<rparr>)"
    unfolding on_ready_def Let_def opened_def [symmetric] using assms(1) there by (cases opened) simp_all
  then show thesis by (rule that)
qed

lemma rejoin_asks:
  "ap_out (rejoin_voice X ch why a) = ap_out a @
      [To_net (Send (JoinVoice ch)),
       To_net (Send (UpdateVoiceState (vs_muted (st_voice (ap_settings a))) (vs_deafened (st_voice (ap_settings a)))))]"
  "ap_settings (rejoin_voice X ch why a) = ap_settings a"
  "ap_state (rejoin_voice X ch why a) = ap_state a"
  by (simp_all add: rejoin_voice_def ask_to_join_def send_msg_def Let_def)

lemma ready_rejoins:
  assumes "ap_in_call a = Some ch" "c \<in> set chans" "ch_id c = ch" "ch_kind c = channel_kind.Voice"
  shows "ap_out (handle_server X (Ready me info us chans vs) a) = ap_out a @
      [To_net (Send (JoinVoice ch)),
       To_net (Send (UpdateVoiceState (vs_muted (st_voice (ap_settings a))) (vs_deafened (st_voice (ap_settings a)))))]"
    "ap_settings (handle_server X (Ready me info us chans vs) a) = ap_settings a"
    "cs_me (ap_state (handle_server X (Ready me info us chans vs) a)) = Some me"
proof -
  from on_ready_rejoins [OF assms, of X] obtain seen where
    ready: "on_ready X chans a = rejoin_voice X ch (str ''the connection dropped'') (a\<lparr>ap_view := seen\<rparr>)" .
  show "ap_out (handle_server X (Ready me info us chans vs) a) = ap_out a @
      [To_net (Send (JoinVoice ch)),
       To_net (Send (UpdateVoiceState (vs_muted (st_voice (ap_settings a))) (vs_deafened (st_voice (ap_settings a)))))]"
    "ap_settings (handle_server X (Ready me info us chans vs) a) = ap_settings a"
    "cs_me (ap_state (handle_server X (Ready me info us chans vs) a)) = Some me"
    by (simp_all add: handle_server_def ready rejoin_asks Let_def)
qed

text \<open>What identifies a voice session to the server.\<close>

definition session_is :: "socket_addr \<Rightarrow> session_key \<Rightarrow> u32 \<Rightarrow> id \<Rightarrow> app \<Rightarrow> bool" where
  "session_is relay key stream ch a \<longleftrightarrow>
     (\<exists>v. ap_voice a = Some v \<and> vo_relay v = relay \<and> vo_key v = key \<and> vo_ssrc v = stream \<and> vo_channel v = ch)
     \<and> ap_in_call a = Some ch"

lemma leave_keeps:
  "ap_settings (handle_server X (VoiceLeave u ch) a) = ap_settings a"
  "cs_me (ap_state (handle_server X (VoiceLeave u ch) a)) = cs_me (ap_state a)"
  "ap_out (handle_server X (VoiceLeave u ch) a) = ap_out a"
  by (auto simp: handle_server_def on_voice_leave_def Let_def split: option.split)

lemma voice_ready_starts:
  assumes "host_of (base_url (ap_settings a)) = Some host"
    and "resolve_host (ue_resolve X) host port = Inr relay" "ue_voice X = Inr ()"
    and "from_base64 (ue_unb64 X) txt = Some key"
  shows "session_is relay key stream ch (handle_server X (VoiceReady ch stream txt port) a)"
    "ap_settings (handle_server X (VoiceReady ch stream txt port) a) = ap_settings a"
    "cs_me (ap_state (handle_server X (VoiceReady ch stream txt port) a)) = cs_me (ap_state a)"
  using assms
  by (simp_all add: handle_server_def start_voice_def apply_user_volumes_def session_is_def session_start_def Let_def)

lemma voice_state_keeps:
  "session_is relay key stream ch a \<Longrightarrow> session_is relay key stream ch (handle_server X (VoiceState v) a)"
  "ap_settings (handle_server X (VoiceState v) a) = ap_settings a"
  "cs_me (ap_state (handle_server X (VoiceState v) a)) = cs_me (ap_state a)"
  "cs_me (ap_state a) = Some me \<Longrightarrow> vs_user v = u_id me \<Longrightarrow>
   my_channel (ap_state (handle_server X (VoiceState v) a)) = Some (vs_channel v)"
  by (auto simp: handle_server_def on_voice_state_def session_is_def my_channel_def my_voice_def hmap_simps Let_def)

section \<open>The server's half\<close>

lemma server_lets_back_in:
  assumes "hub_inv (sv_hub srv)" "length (members (sv_hub srv)) < 2 ^ 31 - 1"
    and "hget (conns (sv_hub srv)) (se_conn ses) \<noteq> None" "hmap_ok (conns (sv_hub srv))"
    and "channel_by_id (sv_db srv) ch = Some c" "ch_kind c = channel_kind.Voice"
  obtains v s srv1 ds1 srv2 ds2 key previous where
    "handle E ses srv (JoinVoice ch) = Some (Continue, ses, srv1, ds1)"
    "handle E ses srv1 (UpdateVoiceState mu de) = Some (Continue, ses, srv2, ds2)"
    "hget (members (sv_hub srv2)) (u_id (se_user ses)) =
       Some ((fresh_member (en_now E) ch v s)\<lparr>mb_muted := mu, mb_deafened := de\<rparr>)"
    "hget (keys (sv_hub srv2)) ch = Some key"
    "key \<in> ran (hget (keys (sv_hub srv))) \<or> key = random_key (en_entropy E)"
    "frames_for (se_conn ses) (ds1 @ ds2) =
       (case previous of Some p \<Rightarrow> [VoiceLeave (u_id (se_user ses)) p] | None \<Rightarrow> [])
       @ [VoiceReady ch v (to_base64 (en_b64 E) key) (cf_media_port (sv_config srv)),
          VoiceState (member_state (fresh_member (en_now E) ch v s) (u_id (se_user ses))),
          VoiceState (member_state ((fresh_member (en_now E) ch v s)\<lparr>mb_muted := mu, mb_deafened := de\<rparr>)
            (u_id (se_user ses)))]"
proof -
  let ?hub = "sv_hub srv" and ?u = "u_id (se_user ses)"
  let ?st0 = "snd (remove_member ?hub ?u)"
  let ?key = "case hget (keys ?st0) ch of Some k \<Rightarrow> k | None \<Rightarrow> random_key (en_entropy E)"
  obtain v s where joined: "join_voice (en_b64 E) (en_entropy E) (en_now E) ?hub ?u ch = Some
       ((member_state (fresh_member (en_now E) ch v s) ?u, to_base64 (en_b64 E) ?key, voice_channel_of ?hub ?u),
        ?st0\<lparr>next_ssrc := s + 1,
            members := hinsert ?u (fresh_member (en_now E) ch v s) (members ?st0),
            keys := (case hget (keys ?st0) ch of
                       Some _ \<Rightarrow> keys ?st0 | None \<Rightarrow> hinsert ch (random_key (en_entropy E)) (keys ?st0)),
            by_ssrc := hinsert s ?u (hinsert v ?u (by_ssrc ?st0))\<rparr>)"
    by (rule join_voice_spec [OF assms(1,2)])
  define hub1 where "hub1 = ?st0\<lparr>next_ssrc := s + 1,
            members := hinsert ?u (fresh_member (en_now E) ch v s) (members ?st0),
            keys := (case hget (keys ?st0) ch of
                       Some _ \<Rightarrow> keys ?st0 | None \<Rightarrow> hinsert ch (random_key (en_entropy E)) (keys ?st0)),
            by_ssrc := hinsert s ?u (hinsert v ?u (by_ssrc ?st0))\<rparr>"
  let ?m = "(fresh_member (en_now E) ch v s)\<lparr>mb_muted := mu, mb_deafened := de\<rparr>"
  let ?hub2 = "hub1\<lparr>members := hinsert ?u ?m (members hub1)\<rparr>"
  let ?ds1 = "(case voice_channel_of ?hub ?u of Some p \<Rightarrow> broadcast hub1 (VoiceLeave ?u p) | None \<Rightarrow> [])
      @ send ses (srv\<lparr>sv_hub := hub1\<rparr>) (VoiceReady ch v (to_base64 (en_b64 E) ?key) (cf_media_port (sv_config srv)))
      @ broadcast hub1 (VoiceState (member_state (fresh_member (en_now E) ch v s) ?u))"
  have stream: "vs_ssrc (member_state (fresh_member (en_now E) ch v s) ?u) = v"
    by (simp add: member_state_def fresh_member_def)
  have conns: "conns hub1 = conns ?hub" by (simp add: hub1_def)
  have kept: "hget (keys ?st0) ch = Some k \<Longrightarrow> k \<in> ran (hget (keys ?hub))" for k
    by (auto simp: remove_member_def Let_def ran_def delete_conv' split: option.splits if_splits)
  show thesis
  proof (rule that)
    show "handle E ses srv (JoinVoice ch) = Some (Continue, ses, srv\<lparr>sv_hub := hub1\<rparr>, ?ds1)"
      using assms(5,6)
      by (simp add: handle_join_voice_def joined [folded hub1_def] stream Let_def split: option.split)
    show "handle E ses (srv\<lparr>sv_hub := hub1\<rparr>) (UpdateVoiceState mu de) =
        Some (Continue, ses, (srv\<lparr>sv_hub := hub1\<rparr>)\<lparr>sv_hub := ?hub2\<rparr>, broadcast ?hub2 (VoiceState (member_state ?m ?u)))"
      by (simp add: handle_voice_flags_def Hub.set_voice_flags_def hmap_simps hub1_def Let_def)
    show "hget (members (sv_hub ((srv\<lparr>sv_hub := hub1\<rparr>)\<lparr>sv_hub := ?hub2\<rparr>))) ?u = Some ?m"
      by (simp add: hmap_simps)
    show "hget (keys (sv_hub ((srv\<lparr>sv_hub := hub1\<rparr>)\<lparr>sv_hub := ?hub2\<rparr>))) ch = Some ?key"
      by (simp add: hub1_def hmap_simps split: option.split)
    show "?key \<in> ran (hget (keys ?hub)) \<or> ?key = random_key (en_entropy E)"
      using kept by (auto split: option.split)
    show "frames_for (se_conn ses) (?ds1 @ broadcast ?hub2 (VoiceState (member_state ?m ?u))) =
       (case voice_channel_of ?hub ?u of Some p \<Rightarrow> [VoiceLeave ?u p] | None \<Rightarrow> [])
       @ [VoiceReady ch v (to_base64 (en_b64 E) ?key) (cf_media_port (sv_config srv)),
          VoiceState (member_state (fresh_member (en_now E) ch v s) ?u), VoiceState (member_state ?m ?u)]"
      using assms(3,4) by (cases "voice_channel_of ?hub ?u") (auto simp: conns frames_simps send_def)
  qed
qed

section \<open>The whole way\<close>

text \<open>
  A connection that answers frames one after the other, what the application has asked its
  network thread to send, and the application reading frames in order.
\<close>

fun answers :: "env \<Rightarrow> Session.session \<Rightarrow> server \<Rightarrow> client_msg list \<Rightarrow> (Session.session \<times> server \<times> delivery list) option" where
  "answers E ses srv [] = Some (ses, srv, [])"
| "answers E ses srv (m # ms) =
     (case handle_frame E ses srv (Readable m) of
        Some (Continue, ses, srv, ds) \<Rightarrow> map_option (\<lambda>(ses, srv, es). (ses, srv, ds @ es)) (answers E ses srv ms)
      | _ \<Rightarrow> None)"

definition asked :: "app \<Rightarrow> app \<Rightarrow> client_msg list" where
  "asked a b = List.map_filter (\<lambda>e. case e of To_net (Send m) \<Rightarrow> Some m | _ \<Rightarrow> None) (drop (length (ap_out a)) (ap_out b))"

definition reads :: "ui_env \<Rightarrow> server_msg list \<Rightarrow> app \<Rightarrow> app" where
  "reads X msgs a = pump_network X (map Server msgs) a"

lemma reads_simps [simp]:
  "reads X [] a = a" "reads X (m # ms) a = reads X ms (handle_server X m a)"
  by (simp_all add: reads_def pump_network_def on_net_event_def)

lemma channel_by_idD: "channel_by_id db ch = Some c \<Longrightarrow> c \<in> set (channels db) \<and> ch_id c = ch"
  by (auto simp: channel_by_id_def find_Some_iff in_set_conv_nth)

text \<open>
  Claim C6. A dropped connection gives the call back. When the server greets the new connection
  of a client that was in a call, the frames the application asks for, answered by the server and
  read by the application, leave both sides agreed: the server has the user in that channel, muted
  and deafened exactly as the client's settings say, and the client has a session on that channel
  whose stream is the one the server gave it, whose key is the one every member of the channel
  has, and whose relay is the media port of the server the user typed. It holds in every reachable
  state of the hub, also when the server has not yet noticed that the old connection is gone.
\<close>

theorem the_call_comes_back:
  assumes hub: "hub_reachable (sv_hub srv)" "length (members (sv_hub srv)) < 2 ^ 31 - 1"
      "hget (conns (sv_hub srv)) (se_conn ses) \<noteq> None"
    and keys: "\<forall>k \<in> ran (hget (keys (sv_hub srv))). length (key_bytes k) = 32" "length (en_entropy E) = 32"
    and channel: "channel_by_id (sv_db srv) ch = Some c" "ch_kind c = channel_kind.Voice"
    and client: "ap_in_call a = Some ch" "host_of (base_url (ap_settings a)) = Some host"
      "resolve_host (ue_resolve X) host (cf_media_port (sv_config srv)) = Inr relay" "ue_voice X = Inr ()"
    and base64: "\<forall>bs. length bs = 32 \<longrightarrow> ue_unb64 X (en_b64 E bs) = Some bs"
  shows "\<exists>srv' ds key m b.
    answers E ses srv (asked a (reads X (frames_for (se_conn ses) (send_ready ses srv)) a)) = Some (ses, srv', ds)
    \<and> b = reads X (frames_for (se_conn ses) (send_ready ses srv) @ frames_for (se_conn ses) ds) a
    \<and> hget (members (sv_hub srv')) (u_id (se_user ses)) = Some m \<and> mb_channel m = ch
    \<and> mb_muted m = vs_muted (st_voice (ap_settings b)) \<and> mb_deafened m = vs_deafened (st_voice (ap_settings b))
    \<and> hget (keys (sv_hub srv')) ch = Some key
    \<and> session_is relay key (mb_voice_ssrc m) ch b \<and> my_channel (ap_state b) = Some ch"
proof -
  note inv = hub_reachable_inv [OF hub(1)]
  let ?u = "u_id (se_user ses)"
  let ?mu = "vs_muted (st_voice (ap_settings a))" and ?de = "vs_deafened (st_voice (ap_settings a))"
  let ?me = "(se_user ses)\<lparr>u_online := True\<rparr>"
  obtain us vs where greeted: "frames_for (se_conn ses) (send_ready ses srv) =
      [Ready ?me (server_info (sv_config srv)) us (channels (sv_db srv)) vs]"
    using hub(3) by (auto simp: send_ready_def frames_simps)
  define a1 where "a1 = handle_server X (Ready ?me (server_info (sv_config srv)) us (channels (sv_db srv)) vs) a"
  note c = channel_by_idD [OF channel(1)]
  note ready = ready_rejoins [OF client(1) conjunct1 [OF c] conjunct2 [OF c] channel(2), of X ?me "server_info (sv_config srv)" us vs, folded a1_def]
  have asks: "asked a a1 = [JoinVoice ch, UpdateVoiceState ?mu ?de]"
    by (simp add: asked_def ready(1) List.map_filter_def a1_def [symmetric])
  obtain v s srv1 ds1 srv2 ds2 key previous where server:
    "handle E ses srv (JoinVoice ch) = Some (Continue, ses, srv1, ds1)"
    "handle E ses srv1 (UpdateVoiceState ?mu ?de) = Some (Continue, ses, srv2, ds2)"
    "hget (members (sv_hub srv2)) ?u = Some ((fresh_member (en_now E) ch v s)\<lparr>mb_muted := ?mu, mb_deafened := ?de\<rparr>)"
    "hget (keys (sv_hub srv2)) ch = Some key"
    "key \<in> ran (hget (keys (sv_hub srv))) \<or> key = random_key (en_entropy E)"
    "frames_for (se_conn ses) (ds1 @ ds2) =
       (case previous of Some p \<Rightarrow> [VoiceLeave ?u p] | None \<Rightarrow> [])
       @ [VoiceReady ch v (to_base64 (en_b64 E) key) (cf_media_port (sv_config srv)),
          VoiceState (member_state (fresh_member (en_now E) ch v s) ?u),
          VoiceState (member_state ((fresh_member (en_now E) ch v s)\<lparr>mb_muted := ?mu, mb_deafened := ?de\<rparr>) ?u)]"
    by (rule server_lets_back_in [OF inv hub(2,3) hub_inv_conns [OF inv] channel])
  have bytes: "length (key_bytes key) = 32" using server(5) keys by (auto simp: random_key_def from_bytes_def)
  have key: "from_base64 (ue_unb64 X) (to_base64 (en_b64 E) key) = Some key"
    using base64 bytes by (simp add: from_base64_def to_base64_def from_bytes_def)
  have run: "answers E ses srv (asked a a1) = Some (ses, srv2, ds1 @ ds2)"
    by (simp add: asks server(1,2) [simplified])
  define a2 where "a2 = reads X (case previous of Some p \<Rightarrow> [VoiceLeave ?u p] | None \<Rightarrow> []) a1"
  have left: "ap_settings a2 = ap_settings a" "cs_me (ap_state a2) = Some ?me"
    by (auto simp: a2_def leave_keeps ready(2,3) split: option.split)
  define a3 where "a3 = handle_server X (VoiceReady ch v (to_base64 (en_b64 E) key) (cf_media_port (sv_config srv))) a2"
  have started: "session_is relay key v ch a3" "ap_settings a3 = ap_settings a" "cs_me (ap_state a3) = Some ?me"
    using voice_ready_starts [OF _ client(3,4) key, of a2] client(2) by (simp_all add: left a3_def)
  let ?m = "(fresh_member (en_now E) ch v s)\<lparr>mb_muted := ?mu, mb_deafened := ?de\<rparr>"
  define b where "b = handle_server X (VoiceState (member_state ?m ?u))
      (handle_server X (VoiceState (member_state (fresh_member (en_now E) ch v s) ?u)) a3)"
  have over: "b = reads X (frames_for (se_conn ses) (send_ready ses srv) @ frames_for (se_conn ses) (ds1 @ ds2)) a"
    unfolding greeted server(6) b_def a3_def a2_def a1_def by (cases previous) simp_all
  have fields: "mb_channel ?m = ch" "mb_voice_ssrc ?m = v" "mb_muted ?m = ?mu" "mb_deafened ?m = ?de"
    "vs_user (member_state ?m ?u) = ?u" "vs_channel (member_state ?m ?u) = ch"
    by (simp_all add: fresh_member_def member_state_def)
  have "my_channel (ap_state b) = Some ch"
    unfolding b_def using voice_state_keeps(4) fields(5,6) voice_state_keeps(3) started(3) by simp
  moreover have "session_is relay key v ch b" "ap_settings b = ap_settings a"
    by (simp_all add: b_def voice_state_keeps started)
  ultimately show ?thesis
    using run over server(3,4) fields
    by (intro exI [of _ srv2] exI [of _ "ds1 @ ds2"] exI [of _ key] exI [of _ ?m] exI [of _ b])
      (simp add: greeted a1_def [symmetric])
qed

section \<open>An example\<close>

text \<open>Ada's connection to a small server is new, and she was in its lounge.\<close>

definition chars64 :: "byte list \<Rightarrow> string" where
  "chars64 bs = map (\<lambda>b. char_of (unat b)) bs"

definition unchars64 :: "string \<Rightarrow> byte list option" where
  "unchars64 cs = Some (map (\<lambda>c. of_nat (of_char c)) cs)"

lemma unchars_chars: "unchars64 (chars64 bs) = Some bs"
proof -
  have "unat b < 256" for b :: byte using unsigned_less [of b, where ?'a = nat] by simp
  then show ?thesis by (simp add: unchars64_def chars64_def comp_def)
qed

definition wire_env :: env where "wire_env = quiet_env\<lparr>en_b64 := chars64\<rparr>"

definition dropped_app :: app where
  "dropped_app = (app_new 0 home)\<lparr>ap_in_call := Some (Id 2)\<rparr>"

lemma ada_hub: "hub_reachable (sv_hub ada_online)"
proof -
  have "hub_step new_state (snd (connect new_state (Id 1)))" by (intro hub_step.intros control_step.intros)
  then show ?thesis
    by (simp add: hub_reachable_def ada_online_def connect_def new_state_def Let_def r_into_rtranclp)
qed

theorem the_call_comes_back_witness:
  "\<exists>srv' ds key m b.
    answers wire_env ada_session ada_online
      (asked dropped_app (reads (plain_env\<lparr>ue_unb64 := unchars64\<rparr>)
        (frames_for (ConnId 1) (send_ready ada_session ada_online)) dropped_app)) = Some (ada_session, srv', ds)
    \<and> hget (members (sv_hub srv')) (Id 1) = Some m \<and> mb_channel m = Id 2
    \<and> hget (keys (sv_hub srv')) (Id 2) = Some key
    \<and> session_is (AddrV4 1 8788) key (mb_voice_ssrc m) (Id 2) b"
proof -
  let ?X = "plain_env\<lparr>ue_unb64 := unchars64\<rparr>"
  have keys: "\<forall>k \<in> ran (hget (keys (sv_hub ada_online))). length (key_bytes k) = 32" "length (en_entropy wire_env) = 32"
    by (simp_all add: ada_online_def new_state_def wire_env_def quiet_env_def)
  have hub: "length (members (sv_hub ada_online)) < 2 ^ 31 - 1"
      "hget (conns (sv_hub ada_online)) (se_conn ada_session) \<noteq> None"
    by (simp_all add: ada_online_def ada_session_def new_state_def)
  have channel: "channel_by_id (sv_db ada_online) (Id 2) =
      Some \<lparr>ch_id = Id 2, ch_name = [76], ch_kind = channel_kind.Voice, ch_position = 0, ch_topic = []\<rparr>"
    by (simp add: ada_online_def lounge_channels)
  have client: "ap_in_call dropped_app = Some (Id 2)" "host_of (base_url (ap_settings dropped_app)) = Some (str ''b'')"
    by (simp_all add: dropped_app_def home_app home_host)
  have relay: "resolve_host (ue_resolve ?X) (str ''b'') (cf_media_port (sv_config ada_online)) = Inr (AddrV4 1 8788)"
      "ue_voice ?X = Inr ()"
    by (simp_all add: resolve_host_def plain_env_def ada_online_def default_config_def DEFAULT_MEDIA_PORT_def)
  have base64: "\<forall>bs. length bs = 32 \<longrightarrow> ue_unb64 ?X (en_b64 wire_env bs) = Some bs"
    by (simp add: wire_env_def unchars_chars)
  have ada: "se_conn ada_session = ConnId 1" "u_id (se_user ada_session) = Id 1"
    by (simp_all add: ada_session_def ada_def)
  from the_call_comes_back [OF ada_hub hub keys channel _ client relay base64] show ?thesis
    unfolding ada by (auto simp del: reads_simps answers.simps)
qed

end
