(* ===== verification/Labels.thy ===== *)
theory Labels
  imports Model "HOL-Library.Signed_Division"
begin

text \<open>
  What the interface says in words, the formatting half of
  \<open>crates/boa-client/src/ui/widgets.rs\<close>: the time of a message, the civil date behind it, and
  how long an attachment stays on the server. \<open>i64\<close> sums wrap as in a release build; numbers of
  days are far from the ends of the type, and no unsigned difference of the calendar is negative.
\<close>

section \<open>Clock and calendar\<close>

text \<open>\<open>div_euclid\<close> and \<open>rem_euclid\<close> by a positive number are \<open>div\<close> and \<open>mod\<close>.\<close>

definition clock :: "millis \<Rightarrow> int \<times> int" where
  "clock millis =
     (let seconds = millis div 1000;
          day_seconds = seconds mod 86400
      in (day_seconds div 3600, (day_seconds mod 3600) div 60))"

definition civil_date :: "int \<Rightarrow> int \<times> nat \<times> nat" where
  "civil_date days =
     (let z = days + 719468;
          era = (if z \<ge> 0 then z else z - 146096) sdiv 146097;
          doe = z - era * 146097;
          yoe = (doe - doe div 1460 + doe div 36524 - doe div 146096) div 365;
          y = yoe + era * 400;
          doy = doe - (365 * yoe + yoe div 4 - yoe div 100);
          mp = (5 * doy + 2) div 153;
          d = nat (doy - (153 * mp + 2) div 5 + 1);
          m = nat (if mp < 10 then mp + 3 else mp - 9)
      in (if m \<le> 2 then y + 1 else y, m, d))"

section \<open>Words\<close>

text \<open>Display of an \<open>i64\<close>, and with zeroes up to a width; a sign counts.\<close>

definition signed_decimal :: "int \<Rightarrow> rstring" where
  "signed_decimal i = (if i < 0 then 45 # decimal (nat (- i)) else decimal (nat i))"

definition zero_padded :: "nat \<Rightarrow> int \<Rightarrow> rstring" where
  "zero_padded width i =
     (let digits = decimal (nat \<bar>i\<bar>); sign = (if i < 0 then [45] else [])
      in sign @ replicate (width - length sign - length digits) 48 @ digits)"

definition message_time :: "millis \<Rightarrow> millis \<Rightarrow> rstring" where
  "message_time created_at now =
     (let (hour, minute) = clock created_at;
          day = created_at div 86400000;
          today = now div 86400000;
          at = zero_padded 2 hour @ [58] @ zero_padded 2 minute
      in if today - day = 0 then at
         else if today - day = 1 then str ''yesterday '' @ at
         else (case civil_date day of
                 (year, month, day) \<Rightarrow>
                   zero_padded 4 year @ [45] @ zero_padded 2 (int month) @ [45] @ zero_padded 2 (int day)
                   @ [32] @ at))"

definition wrap_i64 :: "int \<Rightarrow> int" where
  "wrap_i64 i = signed_take_bit 63 i"

definition expiry :: "millis \<Rightarrow> millis \<Rightarrow> bool \<Rightarrow> rstring" where
  "expiry expires_at now have_local =
     (let left = wrap_i64 (expires_at - now)
      in if left \<le> 0
         then (if have_local then str ''kept on this computer only'' else str ''no longer on the server'')
         else
           let hours = left div 3600000;
               lasting = (if hours = 0 then signed_decimal (max (left div 60000) 1) @ str '' min''
                          else if hours \<le> 72 then signed_decimal hours @ str '' h''
                          else signed_decimal (hours div 24) @ str '' days'')
           in if have_local
              then str ''on the server for '' @ lasting @ [32, 8212] @ str '' already saved here''
              else str ''on the server for '' @ lasting)"

section \<open>The calendar\<close>

text \<open>The Gregorian calendar: leap years, the lengths of months, and the day after a day.\<close>

definition leap :: "int \<Rightarrow> bool" where
  "leap y \<longleftrightarrow> 4 dvd y \<and> (100 dvd y \<longrightarrow> 400 dvd y)"

definition month_length :: "int \<Rightarrow> nat \<Rightarrow> nat" where
  "month_length y m = (if m = 2 then if leap y then 29 else 28 else if m \<in> {4, 6, 9, 11} then 30 else 31)"

fun a_date :: "int \<times> nat \<times> nat \<Rightarrow> bool" where
  "a_date (y, m, d) \<longleftrightarrow> 1 \<le> m \<and> m \<le> 12 \<and> 1 \<le> d \<and> d \<le> month_length y m"

fun next_day :: "int \<times> nat \<times> nat \<Rightarrow> int \<times> nat \<times> nat" where
  "next_day (y, m, d) =
     (if d < month_length y m then (y, m, d + 1)
      else if m < 12 then (y, m + 1, 1)
      else (y + 1, 1, 1))"

subsection \<open>Days, from the first of March of a year divisible by 400\<close>

definition year_start :: "int \<Rightarrow> int" where
  "year_start y = 365 * y + y div 4 - y div 100"

definition year_days :: "int \<Rightarrow> int" where
  "year_days y = (if leap (y + 1) then 366 else 365)"

definition year_end :: "int \<Rightarrow> int" where
  "year_end y = year_start y + year_days y"

definition leapless :: "int \<Rightarrow> int" where
  "leapless doe = doe - doe div 1460 + doe div 36524 - doe div 146096"

definition month_of :: "int \<Rightarrow> nat" where
  "month_of doy = (let mp = (5 * doy + 2) div 153 in nat (if mp < 10 then mp + 3 else mp - 9))"

definition day_of :: "int \<Rightarrow> nat" where
  "day_of doy = nat (doy - (153 * ((5 * doy + 2) div 153) + 2) div 5 + 1)"

definition dated :: "int \<Rightarrow> int \<Rightarrow> int \<times> nat \<times> nat" where
  "dated y doy = (if month_of doy \<le> 2 then y + 1 else y, month_of doy, day_of doy)"

lemma years_table:
  "list_all (\<lambda>y. 365 * y \<le> leapless (year_start y) \<and> leapless (year_end y - 1) < 365 * (y + 1)
     \<and> 0 \<le> year_start y \<and> year_end y \<le> 146097
     \<and> (if y = 399 then year_end y = 146097 else year_end y = year_start (y + 1))) [0..399]"
  by code_simp

lemma months_table:
  "list_all (\<lambda>doy. 1 \<le> month_of doy \<and> month_of doy \<le> 12 \<and> 1 \<le> day_of doy
     \<and> day_of doy \<le> (if month_of doy = 2 then 29 else month_length 0 (month_of doy))
     \<and> (month_of doy = 2 \<and> day_of doy = 29 \<longleftrightarrow> doy = 365)
     \<and> (month_of doy = 2 \<and> day_of doy = 28 \<longleftrightarrow> doy = 364)
     \<and> (doy < 365 \<longrightarrow> (month_of (doy + 1), day_of (doy + 1)) =
          (if day_of doy < (if month_of doy = 2 then 29 else month_length 0 (month_of doy))
           then (month_of doy, day_of doy + 1)
           else (if month_of doy < 12 then month_of doy + 1 else 1, 1)))) [0..365]"
  by code_simp

lemma month_ends: "month_of 0 = 3" "day_of 0 = 1" "month_of 364 = 2" "day_of 364 = 28" "month_of 365 = 2" "day_of 365 = 29"
  by code_simp+

lemma yearD:
  assumes "0 \<le> y" "y < 400"
  shows "365 * y \<le> leapless (year_start y)" "leapless (year_end y - 1) < 365 * (y + 1)"
    "year_end y = (if y = 399 then 146097 else year_start (y + 1))" "0 \<le> year_start y" "year_end y \<le> 146097"
  using years_table assms by (auto simp: list_all_iff)

lemma doyD:
  assumes "0 \<le> doy" "doy \<le> 365"
  shows "1 \<le> month_of doy" "month_of doy \<le> 12" "1 \<le> day_of doy"
    "day_of doy \<le> (if month_of doy = 2 then 29 else month_length 0 (month_of doy))"
    "month_of doy = 2 \<and> day_of doy = 29 \<longleftrightarrow> doy = 365"
    "month_of doy = 2 \<and> day_of doy = 28 \<longleftrightarrow> doy = 364"
    "doy < 365 \<Longrightarrow> (month_of (doy + 1), day_of (doy + 1)) =
          (if day_of doy < (if month_of doy = 2 then 29 else month_length 0 (month_of doy))
           then (month_of doy, day_of doy + 1)
           else (if month_of doy < 12 then month_of doy + 1 else 1, 1))"
  using months_table assms by (auto simp: list_all_iff)

lemma leapless_step:
  assumes "0 \<le> d" "d + 1 \<le> 146096"
  shows "leapless d \<le> leapless (d + 1)"
proof (cases "d = 146095")
  case False
  have sum: "d - a + b - 0 \<le> d + 1 - a' + b' - 0" if "a' \<le> a + 1" "b \<le> b'" for a a' b b' :: int
    using that by simp
  have 1: "d div 36524 \<le> (d + 1) div 36524" by (rule zdiv_mono1) simp_all
  have "(d + 1) div 1460 \<le> (d + 1460) div 1460" by (rule zdiv_mono1) simp_all
  then have 2: "(d + 1) div 1460 \<le> d div 1460 + 1" by (simp only: div_add_self2)
  have 3: "d div 146096 = 0" "(d + 1) div 146096 = 0"
    by (rule div_pos_pos_trivial; use assms False in simp)+
  show ?thesis unfolding leapless_def 3 by (rule sum [OF 2 1])
qed (simp add: leapless_def)

lemma leapless_mono:
  assumes "0 \<le> d" "d \<le> e" "e \<le> 146096"
  shows "leapless d \<le> leapless e"
  using assms(2,3)
proof (induction e rule: int_ge_induct)
  case (step i)
  then show ?case using leapless_step [of i] assms(1) by simp
qed simp

lemma year_start_zero [simp]: "year_start 0 = 0" by (simp add: year_start_def)

lemma a_year_for:
  assumes "0 \<le> D" "D < 146097"
  obtains y where "0 \<le> y" "y < 400" "year_start y \<le> D" "D < year_end y"
proof -
  have "\<exists>y. 0 \<le> y \<and> y \<le> int n \<and> year_start y \<le> D \<and> D < year_end y" if "n < 400" "D < year_end (int n)" for n
    using that
  proof (induction n)
    case (Suc n)
    show ?case
    proof (cases "D < year_end (int n)")
      case True
      then show ?thesis using Suc by fastforce
    next
      case False
      then have "year_start (int n + 1) \<le> D" using yearD(3) [of "int n"] Suc.prems(1) by auto
      then show ?thesis using Suc.prems by (intro exI [of _ "int n + 1"]) (auto simp: add.commute)
    qed
  qed (use assms in auto)
  from this [of 399] yearD(3) [of 399] assms(2) obtain y where
    "0 \<le> y" "y \<le> 399" "year_start y \<le> D" "D < year_end y" by auto
  then show thesis by (intro that) simp_all
qed

lemma year_from_day:
  assumes "0 \<le> y" "y < 400" "year_start y \<le> D" "D < year_end y"
  shows "leapless D div 365 = y"
proof -
  have "365 * y \<le> leapless D" "leapless D < 365 * (y + 1)"
    using leapless_mono [of "year_start y" D] leapless_mono [of D "year_end y - 1"] yearD [OF assms(1,2)] assms(3,4)
    by auto
  then show ?thesis by auto
qed

lemma era_is_div: "(if z \<ge> 0 then z else z - 146096) sdiv 146097 = z div 146097" for z :: int
proof (cases "z \<ge> 0")
  case False
  have "(z - 146096) sdiv 146097 = - ((146096 - z) div 146097)"
    using False by (simp add: signed_divide_int_def)
  also have "\<dots> = z div 146097"
  proof -
    have "146096 - z = (146097 - 1) + - z" by simp
    have "z = 146097 * (z div 146097) + z mod 146097" "0 \<le> z mod 146097" "z mod 146097 < 146097" by simp_all
    then have "146096 - z = 146097 * (- (z div 146097)) + (146096 - z mod 146097)"
      "0 \<le> 146096 - z mod 146097" "146096 - z mod 146097 < 146097" by linarith+
    then have "(146096 - z) div 146097 = - (z div 146097)"
      by (metis div_mult_self4 div_pos_pos_trivial add.right_neutral zero_neq_numeral)
    then show ?thesis by simp
  qed
  finally show ?thesis using False by simp
qed (auto simp: signed_divide_int_def sgn_if)

text \<open>The date is that of a day of a year of an era.\<close>

lemma civil_date_dated:
  assumes z: "days + 719468 = 146097 * era + (year_start y + doy)" and y: "0 \<le> y" "y < 400"
    and doy: "0 \<le> doy" "doy < year_days y"
  shows "civil_date days = dated (y + 400 * era) doy"
proof -
  let ?D = "year_start y + doy"
  note t = yearD [OF y]
  have D: "0 \<le> ?D" "?D < 146097" using t doy by (auto simp: year_end_def)
  have e: "(days + 719468) div 146097 = era" unfolding z using D by (simp add: div_pos_pos_trivial)
  have doe: "days + 719468 - era * 146097 = ?D" using z by simp
  have yoe: "leapless ?D div 365 = y" by (rule year_from_day [OF y]) (use doy in \<open>simp_all add: year_end_def\<close>)
  show ?thesis
    unfolding civil_date_def Let_def era_is_div e doe leapless_def [symmetric] yoe
    unfolding year_start_def [symmetric] by (simp add: dated_def month_of_def day_of_def Let_def mult.commute)
qed

lemma leap_era [simp]: "leap (y + 400 * era) = leap y" "leap (y + 400 * era + 1) = leap (y + 1)"
proof -
  have "leap (z + 400 * era) = leap z" for z
  proof -
    have "4 dvd 400 * era" "100 dvd 400 * era" "400 dvd 400 * era" by (simp_all add: dvd_mult2)
    then have "4 dvd z + 400 * era \<longleftrightarrow> 4 dvd z" "100 dvd z + 400 * era \<longleftrightarrow> 100 dvd z" "400 dvd z + 400 * era \<longleftrightarrow> 400 dvd z"
      by (simp_all only: dvd_add_left_iff)
    then show ?thesis by (simp add: leap_def)
  qed
  from this [of y] this [of "y + 1"] show "leap (y + 400 * era) = leap y" "leap (y + 400 * era + 1) = leap (y + 1)"
    by (simp_all add: ac_simps)
qed

lemma dated_ok:
  assumes "0 \<le> doy" "doy < year_days y"
  shows "a_date (dated y doy)"
proof -
  have r: "0 \<le> doy" "doy \<le> 365" using assms by (auto simp: year_days_def split: if_splits)
  note t = doyD [OF r]
  show ?thesis using t(1-5) assms(2)
    by (auto simp: dated_def month_length_def year_days_def split: if_splits)
qed

lemma dated_next:
  assumes "0 \<le> doy" "doy + 1 < year_days y"
  shows "dated y (doy + 1) = next_day (dated y doy)"
proof -
  have r: "0 \<le> doy" "doy \<le> 365" "doy < 365" "doy \<noteq> 364 \<or> leap (y + 1)"
    using assms by (auto simp: year_days_def split: if_splits)
  note t = doyD [OF r(1,2)]
  have "\<not> (month_of doy = 2 \<and> day_of doy = 28 \<and> \<not> leap (y + 1))" using t(6) r(4) by blast
  then show ?thesis using t(1-5) t(7) [OF r(3)] r(3)
    by (auto simp: dated_def month_length_def split: if_splits)
qed

lemma dated_new_year:
  assumes "doy + 1 = year_days y"
  shows "dated (y + 1) 0 = next_day (dated y doy)"
  using assms month_ends by (auto simp: dated_def year_days_def month_length_def split: if_splits)

text \<open>Every day is a day of a year of an era.\<close>

lemma day_cases:
  obtains y era doy where "days + 719468 = 146097 * era + (year_start y + doy)" "0 \<le> y" "y < 400"
    "0 \<le> doy" "doy < year_days y" "civil_date days = dated (y + 400 * era) doy"
proof -
  let ?D = "(days + 719468) mod 146097" and ?era = "(days + 719468) div 146097"
  obtain y where y: "0 \<le> y" "y < 400" "year_start y \<le> ?D" "?D < year_end y"
    by (rule a_year_for [of ?D]) simp_all
  define doy where "doy = ?D - year_start y"
  have doy: "0 \<le> doy" "doy < year_days y" using y by (simp_all add: doy_def year_end_def)
  have z: "days + 719468 = 146097 * ?era + (year_start y + doy)" by (simp add: doy_def)
  from that [OF z y(1,2) doy civil_date_dated [OF z y(1,2) doy]] show thesis .
qed

lemma year_days_era [simp]: "year_days (y + 400 * era) = year_days y"
  by (simp add: year_days_def)

lemma civil_date_ok: "a_date (civil_date days)"
proof -
  obtain y era doy where "0 \<le> doy" "doy < year_days y" "civil_date days = dated (y + 400 * era) doy"
    by (rule day_cases [of days])
  then show ?thesis by (simp add: dated_ok)
qed

lemma civil_date_next: "civil_date (days + 1) = next_day (civil_date days)"
proof -
  obtain y era doy where z: "days + 719468 = 146097 * era + (year_start y + doy)" and y: "0 \<le> y" "y < 400"
    and doy: "0 \<le> doy" "doy < year_days y" and today: "civil_date days = dated (y + 400 * era) doy"
    by (rule day_cases [of days])
  show ?thesis
  proof (cases "doy + 1 < year_days y")
    case True
    have "civil_date (days + 1) = dated (y + 400 * era) (doy + 1)"
      by (rule civil_date_dated [OF _ y]) (use z True doy in simp_all)
    then show ?thesis unfolding today using dated_next [OF doy(1), of "y + 400 * era"] True by simp
  next
    case False
    then have final: "doy + 1 = year_days y" using doy by simp
    then have new_year: "dated (y + 400 * era + 1) 0 = next_day (dated (y + 400 * era) doy)"
      by (intro dated_new_year) simp
    show ?thesis
    proof (cases "y = 399")
      case True
      have "days + 1 + 719468 = 146097 * (era + 1) + (year_start 0 + 0)"
        using z final yearD(3) [OF y] True by (simp add: year_end_def)
      then have "civil_date (days + 1) = dated (0 + 400 * (era + 1)) 0"
        by (rule civil_date_dated) (simp_all add: year_days_def)
      then show ?thesis unfolding today using new_year True by (simp add: add.commute)
    next
      case False
      have "days + 1 + 719468 = 146097 * era + (year_start (y + 1) + 0)"
        using z final yearD(3) [OF y] False by (simp add: year_end_def)
      then have "civil_date (days + 1) = dated (y + 1 + 400 * era) 0"
        by (rule civil_date_dated) (use y False in \<open>simp_all add: year_days_def\<close>)
      then show ?thesis unfolding today using new_year by (simp add: ac_simps)
    qed
  qed
qed

lemma two_digits: "n < 100 \<Longrightarrow> length (zero_padded 2 (int n)) = 2"
  using decimal.simps [of n] decimal.simps [of "n div 10"] by (auto simp: zero_padded_def)

text \<open>
  Claim C32. Old messages carry their right date. The arithmetic that turns a day number into a
  date follows the Gregorian calendar on every day, before the epoch and after it: day zero is the
  first of January 1970, every day has a date that exists, and the date of the next day is the
  next day of the calendar, across the ends of months, leap days and the turns of centuries. A
  message of neither today nor yesterday is labelled with that date.
\<close>

theorem dates_follow_the_calendar:
  "civil_date 0 = (1970, 1, 1) \<and> a_date (civil_date days)
   \<and> civil_date (days + 1) = next_day (civil_date days)
   \<and> (now div 86400000 - created_at div 86400000 \<notin> {0, 1} \<longrightarrow>
       (\<exists>y m d. civil_date (created_at div 86400000) = (y, m, d)
         \<and> take (length (zero_padded 4 y) + 6) (message_time created_at now) =
             zero_padded 4 y @ [45] @ zero_padded 2 (int m) @ [45] @ zero_padded 2 (int d)))"
proof (intro conjI impI)
  show "civil_date 0 = (1970, 1, 1)" by code_simp
  show "a_date (civil_date days)" by (rule civil_date_ok)
  show "civil_date (days + 1) = next_day (civil_date days)" by (rule civil_date_next)
next
  assume other: "now div 86400000 - created_at div 86400000 \<notin> {0, 1}"
  obtain y m d where date: "civil_date (created_at div 86400000) = (y, m, d)" by (metis prod_cases3)
  then have "m < 100" "d < 100"
    using civil_date_ok [of "created_at div 86400000"] by (auto simp: month_length_def split: if_splits)
  then show "\<exists>y m d. civil_date (created_at div 86400000) = (y, m, d)
         \<and> take (length (zero_padded 4 y) + 6) (message_time created_at now) =
             zero_padded 4 y @ [45] @ zero_padded 2 (int m) @ [45] @ zero_padded 2 (int d)"
    using other by (simp add: date message_time_def Let_def two_digits split: prod.split)
qed

theorem dates_follow_the_calendar_witness:
  "take 10 (message_time 951782400000 1786372500000) = zero_padded 4 2000 @ [45] @ zero_padded 2 2 @ [45] @ zero_padded 2 29"
proof -
  have date: "civil_date 11016 = (2000, 2, 29)" by code_simp
  have "length (zero_padded 4 2000) = 4" by (simp add: zero_padded_def decimal.simps)
  with dates_follow_the_calendar [of 0 1786372500000 951782400000] date show ?thesis by simp
qed

end
