(* ===== verification/DesktopSound.thy ===== *)
theory DesktopSound
  imports Transport Floats
begin

text \<open>
  The sound of a shared machine, the sending half of \<open>crates/boa-client/src/screen/audio.rs\<close>:
  bytes from ffmpeg's pipe put together into samples, samples gathered into packets of 20 ms of
  stereo, encoded, numbered and sent. Opus is a parameter, \<open>None\<close> its error. \<open>pk_socket\<close> is what
  the socket does with the sends to come.
\<close>

section \<open>The packer\<close>

definition FRAME_SAMPLES :: nat where "FRAME_SAMPLES = VOICE_FRAME_SAMPLES * 2"

lemma FRAME_SAMPLES_eq: "FRAME_SAMPLES = 1920"
  by (simp add: FRAME_SAMPLES_def VOICE_FRAME_SAMPLES_eq)

record 'e packer =
  pk_encoder :: 'e
  pk_transport :: transport
  pk_ssrc :: u32
  pk_packets :: u64
  pk_pending :: "f32bits list"
  pk_seq :: u32
  pk_timestamp :: u32
  pk_socket :: "nat \<Rightarrow> bool"

definition packer_new :: "'e \<Rightarrow> transport \<Rightarrow> u32 \<Rightarrow> (nat \<Rightarrow> bool) \<Rightarrow> 'e packer" where
  "packer_new encoder t ssrc socket =
     \<lparr>pk_encoder = encoder, pk_transport = t, pk_ssrc = ssrc, pk_packets = 0, pk_pending = [], pk_seq = 0,
      pk_timestamp = 0, pk_socket = socket\<rparr>"

type_synonym 'e opus = "'e \<Rightarrow> f32bits list \<Rightarrow> byte list option \<times> 'e"

text \<open>One turn of the loop, on the samples it takes.\<close>

definition send_sound ::
  "aead \<Rightarrow> 'e opus \<Rightarrow> 'e packer \<Rightarrow> f32bits list \<Rightarrow> 'e packer \<times> (socket_addr \<times> byte list) list" where
  "send_sound A opus pk chunk =
     (let (encoded, encoder) = opus (pk_encoder pk) chunk;
          pk = pk\<lparr>pk_encoder := encoder\<rparr>
      in case encoded of
           None \<Rightarrow> (pk, [])
         | Some payload \<Rightarrow>
             let pk = pk\<lparr>pk_seq := pk_seq pk + 1, pk_timestamp := pk_timestamp pk + word_of_nat VOICE_FRAME_SAMPLES\<rparr>;
                 h = \<lparr>ph_kind = DesktopAudio, ph_ssrc = pk_ssrc pk, ph_seq = pk_seq pk, ph_timestamp = pk_timestamp pk\<rparr>;
                 (result, out) = transport_send A (pk_socket pk 0) (pk_transport pk) h payload;
                 pk = pk\<lparr>pk_socket := pk_socket pk \<circ> Suc\<rparr>
             in (case result of Inr _ \<Rightarrow> (pk\<lparr>pk_packets := pk_packets pk + 1\<rparr>, out) | Inl _ \<Rightarrow> (pk, out)))"

lemma send_sound_pending:
  "pk_pending (fst (send_sound A opus pk chunk)) = pk_pending pk"
  "send_sound A opus (pk\<lparr>pk_pending := p\<rparr>) chunk =
     ((fst (send_sound A opus pk chunk))\<lparr>pk_pending := p\<rparr>, snd (send_sound A opus pk chunk))"
  by (auto simp: send_sound_def Let_def split: prod.splits option.splits sum.splits)

function send_whole ::
  "aead \<Rightarrow> 'e opus \<Rightarrow> 'e packer \<Rightarrow> 'e packer \<times> (socket_addr \<times> byte list) list" where
  "send_whole A opus pk =
     (if length (pk_pending pk) < FRAME_SAMPLES then (pk, [])
      else let chunk = take FRAME_SAMPLES (pk_pending pk);
               (pk, out) = send_sound A opus (pk\<lparr>pk_pending := drop FRAME_SAMPLES (pk_pending pk)\<rparr>) chunk;
               (pk, rest) = send_whole A opus pk
           in (pk, out @ rest))"
  by pat_completeness auto
termination
proof (relation "measure (\<lambda>(A, opus, pk). length (pk_pending pk))", goal_cases)
  case (2 A opus pk chunk r pk' out)
  then have "pk_pending pk' = drop FRAME_SAMPLES (pk_pending pk)"
    using send_sound_pending(1) [of A opus "pk\<lparr>pk_pending := drop FRAME_SAMPLES (pk_pending pk)\<rparr>" chunk] by (metis fst_conv packer.select_convs(5) packer.surjective packer.update_convs(5))
  then show ?case using 2(1) by (simp add: FRAME_SAMPLES_eq)
qed simp

declare send_whole.simps [simp del]

definition packer_feed ::
  "aead \<Rightarrow> 'e opus \<Rightarrow> 'e packer \<Rightarrow> f32bits list \<Rightarrow> 'e packer \<times> (socket_addr \<times> byte list) list" where
  "packer_feed A opus pk samples = send_whole A opus (pk\<lparr>pk_pending := pk_pending pk @ samples\<rparr>)"

section \<open>From the pipe\<close>

definition f32_from_le :: "byte \<Rightarrow> byte \<Rightarrow> byte \<Rightarrow> byte \<Rightarrow> f32bits" where
  "f32_from_le a b c d = u32_from_be d c b a"

fun chunked :: "byte list \<Rightarrow> f32bits list" where
  "chunked (a # b # c # d # bytes) = f32_from_le a b c d # chunked bytes"
| "chunked _ = []"

text \<open>The samples of one read, and the bytes left over for the next.\<close>

definition read_samples :: "byte list \<Rightarrow> byte list \<Rightarrow> f32bits list \<times> byte list" where
  "read_samples held bytes =
     (let held' = held @ take (4 - length held) bytes;
          rest = drop (4 - length held) bytes;
          (head, held') = (if length held' = 4 then (chunked held', []) else ([], held'));
          whole = length rest div 4 * 4
      in (head @ chunked (take whole rest), held' @ drop whole rest))"

text \<open>What one turn of a loop meets: the stop flag, and what the read or the receive gives.\<close>

datatype ending = Stopped | Finished | Broken

fun sound_pump ::
  "aead \<Rightarrow> 'e opus \<Rightarrow> byte list \<times> 'e packer \<Rightarrow> (bool \<times> byte list option) list
    \<Rightarrow> ((byte list \<times> 'e packer) \<times> ending option) \<times> (socket_addr \<times> byte list) list" where
  "sound_pump A opus st [] = ((st, None), [])"
| "sound_pump A opus (held, pk) ((stop, got) # turns) =
     (if stop then (((held, pk), Some Stopped), [])
      else case got of
             None \<Rightarrow> (((held, pk), Some Broken), [])
           | Some bytes \<Rightarrow>
               if bytes = [] then (((held, pk), Some Finished), [])
               else let (samples, held) = read_samples held bytes;
                        (pk, out) = packer_feed A opus pk samples;
                        (r, rest) = sound_pump A opus (held, pk) turns
                    in (r, out @ rest))"

text \<open>The loop over what the capture hears: samples, a timeout, or a capture that is gone.\<close>

datatype heard = Heard "f32bits list" | Nothing_yet | Gone

fun sound_stream ::
  "aead \<Rightarrow> 'e opus \<Rightarrow> 'e packer \<Rightarrow> (bool \<times> heard) list
    \<Rightarrow> ('e packer \<times> ending option) \<times> (socket_addr \<times> byte list) list" where
  "sound_stream A opus pk [] = ((pk, None), [])"
| "sound_stream A opus pk ((stop, got) # turns) =
     (if stop then ((pk, Some Stopped), [])
      else case got of
             Heard samples \<Rightarrow>
               let (pk, out) = packer_feed A opus pk samples;
                   (r, rest) = sound_stream A opus pk turns
               in (r, out @ rest)
           | Nothing_yet \<Rightarrow> sound_stream A opus pk turns
           | Gone \<Rightarrow> ((pk, Some Finished), []))"

section \<open>The reads do not matter\<close>

text \<open>The reference: blocks of samples sent one after the other, and the blocks of a list.\<close>

fun send_blocks ::
  "aead \<Rightarrow> 'e opus \<Rightarrow> 'e packer \<Rightarrow> f32bits list list \<Rightarrow> 'e packer \<times> (socket_addr \<times> byte list) list" where
  "send_blocks A opus pk [] = (pk, [])"
| "send_blocks A opus pk (b # bs) =
     (let (pk, out) = send_sound A opus pk b; (pk, rest) = send_blocks A opus pk bs in (pk, out @ rest))"

definition whole :: "nat \<Rightarrow> 'a list \<Rightarrow> 'a list" where "whole n xs = take (length xs div n * n) xs"
definition left_over :: "nat \<Rightarrow> 'a list \<Rightarrow> 'a list" where "left_over n xs = drop (length xs div n * n) xs"

lemma whole_short: "length xs < n \<Longrightarrow> whole n xs = [] \<and> left_over n xs = xs"
  by (simp add: whole_def left_over_def)

lemma whole_append:
  assumes "0 < n"
  shows "whole n (xs @ ys) = whole n xs @ whole n (left_over n xs @ ys)"
    "left_over n (xs @ ys) = left_over n (left_over n xs @ ys)"
proof -
  let ?k = "length xs div n * n"
  have k: "?k \<le> length xs" by simp
  have "(length xs div n * n + (length xs mod n + length ys)) div n = length xs div n + (length xs mod n + length ys) div n"
    using assms by (intro div_mult_self3) simp
  then have l: "length (xs @ ys) div n * n = ?k + (length xs mod n + length ys) div n * n"
    by (simp add: add_mult_distrib flip: add.assoc)
  have rest: "length (left_over n xs @ ys) = length xs mod n + length ys"
    by (simp add: left_over_def minus_div_mult_eq_mod)
  have split: "xs @ ys = take ?k xs @ (left_over n xs @ ys)" by (simp add: left_over_def)
  have lk: "length (take ?k xs) = ?k" using k by simp
  show "whole n (xs @ ys) = whole n xs @ whole n (left_over n xs @ ys)"
    "left_over n (xs @ ys) = left_over n (left_over n xs @ ys)"
    unfolding whole_def left_over_def [of n "xs @ ys"] left_over_def [of n "left_over n xs @ ys"] l rest
    by (subst split, simp only: take_append drop_append lk, use k in simp)+
qed

lemma whole_step:
  assumes "0 < n" "n \<le> length xs"
  shows "whole n xs = take n xs @ whole n (drop n xs)" "left_over n xs = left_over n (drop n xs)"
proof -
  have "whole n (take n xs) = take n xs" "left_over n (take n xs) = []"
    using assms by (simp_all add: whole_def left_over_def)
  with whole_append [OF assms(1), of "take n xs" "drop n xs"]
  show "whole n xs = take n xs @ whole n (drop n xs)" "left_over n xs = left_over n (drop n xs)" by simp_all
qed

lemma chunks_append_block: "0 < n \<Longrightarrow> length b = n \<Longrightarrow> chunks n (b @ xs) = b # chunks n xs"
  by (subst chunks_step) auto

lemma send_blocks_append:
  "send_blocks A opus pk (bs @ cs) =
     (let (pk1, o1) = send_blocks A opus pk bs; (pk2, o2) = send_blocks A opus pk1 cs in (pk2, o1 @ o2))"
  by (induction bs arbitrary: pk) (simp_all add: case_prod_unfold Let_def)

lemma send_blocks_pending:
  "pk_pending (fst (send_blocks A opus pk bs)) = pk_pending pk"
  "send_blocks A opus (pk\<lparr>pk_pending := p\<rparr>) bs =
     ((fst (send_blocks A opus pk bs))\<lparr>pk_pending := p\<rparr>, snd (send_blocks A opus pk bs))"
  by (induction bs arbitrary: pk) (simp_all add: case_prod_unfold Let_def send_sound_pending)

lemma send_whole_blocks:
  "send_whole A opus pk =
     send_blocks A opus (pk\<lparr>pk_pending := left_over FRAME_SAMPLES (pk_pending pk)\<rparr>)
       (chunks FRAME_SAMPLES (whole FRAME_SAMPLES (pk_pending pk)))"
proof (induction "length (pk_pending pk)" arbitrary: pk rule: less_induct)
  case less
  show ?case
  proof (cases "length (pk_pending pk) < FRAME_SAMPLES")
    case True
    then show ?thesis by (simp add: send_whole.simps whole_short)
  next
    case False
    let ?p = "pk_pending pk"
    obtain pk1 o1 where one: "send_sound A opus (pk\<lparr>pk_pending := drop FRAME_SAMPLES ?p\<rparr>) (take FRAME_SAMPLES ?p) = (pk1, o1)"
      by fastforce
    have p1: "pk_pending pk1 = drop FRAME_SAMPLES ?p"
      using send_sound_pending(1) [of A opus "pk\<lparr>pk_pending := drop FRAME_SAMPLES ?p\<rparr>" "take FRAME_SAMPLES ?p"] one by simp
    have "length (pk_pending pk1) < length ?p" using False by (simp add: p1 FRAME_SAMPLES_eq)
    note IH = less.hyps [OF this, unfolded p1]
    have pos: "0 < FRAME_SAMPLES" by (simp add: FRAME_SAMPLES_eq)
    have w: "whole FRAME_SAMPLES ?p = take FRAME_SAMPLES ?p @ whole FRAME_SAMPLES (drop FRAME_SAMPLES ?p)"
      "left_over FRAME_SAMPLES ?p = left_over FRAME_SAMPLES (drop FRAME_SAMPLES ?p)"
      using whole_step [OF pos, of ?p] False by simp_all
    have b: "chunks FRAME_SAMPLES (whole FRAME_SAMPLES ?p) =
        take FRAME_SAMPLES ?p # chunks FRAME_SAMPLES (whole FRAME_SAMPLES (drop FRAME_SAMPLES ?p))"
      unfolding w using False by (intro chunks_append_block) (simp_all add: FRAME_SAMPLES_eq)
    have s: "send_sound A opus (pk\<lparr>pk_pending := left_over FRAME_SAMPLES ?p\<rparr>) (take FRAME_SAMPLES ?p)
        = (pk1\<lparr>pk_pending := left_over FRAME_SAMPLES ?p\<rparr>, o1)"
      using one send_sound_pending(2) [of A opus "left_over FRAME_SAMPLES ?p" "pk\<lparr>pk_pending := drop FRAME_SAMPLES ?p\<rparr>"]
      by simp
    show ?thesis
      unfolding b send_blocks.simps s
      using False one IH by (simp add: send_whole.simps [of A opus pk] w(2) Let_def case_prod_unfold)
  qed
qed

lemma chunked_append: "length xs mod 4 = 0 \<Longrightarrow> chunked (xs @ ys) = chunked xs @ chunked ys"
  by (induction xs rule: chunked.induct) simp_all

lemma whole_mod: "length (whole n xs) mod n = 0"
  by (simp add: whole_def)

lemma read_samples_whole:
  assumes "length held < 4"
  shows "read_samples held bytes = (chunked (whole 4 (held @ bytes)), left_over 4 (held @ bytes))"
proof -
  let ?head = "held @ take (4 - length held) bytes" and ?rest = "drop (4 - length held) bytes"
  have split: "held @ bytes = ?head @ ?rest" using assms by simp
  show ?thesis
  proof (cases "length ?head = 4")
    case True
    have "whole 4 ?head = ?head" "left_over 4 ?head = []"
      unfolding whole_def left_over_def True using True by simp_all
    with whole_append [of 4 ?head ?rest] have
      "whole 4 (held @ bytes) = ?head @ whole 4 ?rest" "left_over 4 (held @ bytes) = left_over 4 ?rest"
      unfolding split [symmetric] using assms by simp_all
    moreover have "chunked (?head @ whole 4 ?rest) = chunked ?head @ chunked (whole 4 ?rest)"
      by (rule chunked_append) (subst True, simp)
    moreover have "read_samples held bytes = (chunked ?head @ chunked (whole 4 ?rest), left_over 4 ?rest)"
      unfolding read_samples_def Let_def if_P [OF True] whole_def left_over_def by simp
    ultimately show ?thesis by simp
  next
    case False
    then have "length bytes < 4 - length held" using assms by auto
    then show ?thesis using False assms
      by (simp add: read_samples_def Let_def whole_short)
  qed
qed

lemma left_over_length: "0 < n \<Longrightarrow> length (left_over n xs) < n"
  by (simp add: left_over_def minus_div_mult_eq_mod)

lemma chunks_append_whole:
  assumes "0 < n"
  shows "chunks n (whole n xs @ ys) = chunks n (whole n xs) @ chunks n ys"
proof (induction "length xs" arbitrary: xs rule: less_induct)
  case less
  show ?case
  proof (cases "length xs < n")
    case True
    then show ?thesis by (simp add: whole_short)
  next
    case False
    then have w: "whole n xs = take n xs @ whole n (drop n xs)" and l: "length (take n xs) = n" "length (drop n xs) < length xs"
      using whole_step [of n xs] assms by simp_all
    show ?thesis unfolding w append_assoc chunks_append_block [OF assms l(1)] less [OF l(2)] by simp
  qed
qed

lemma length_whole: "length (whole n xs) = length xs div n * n" "length (left_over n xs) = length xs mod n"
  by (simp_all add: whole_def left_over_def minus_div_mult_eq_mod)

lemma length_blocks:
  assumes "0 < n"
  shows "length (chunks n (whole n xs)) = length xs div n"
proof (induction "length xs" arbitrary: xs rule: less_induct)
  case less
  show ?case
  proof (cases "length xs < n")
    case False
    then have w: "whole n xs = take n xs @ whole n (drop n xs)" and l: "length (take n xs) = n" "length (drop n xs) < length xs"
      using whole_step [of n xs] assms by simp_all
    show ?thesis unfolding w chunks_append_block [OF assms l(1)]
      using less [OF l(2)] False by (simp add: le_div_geq assms)
  qed (simp add: whole_short)
qed

lemma send_blocks_with:
  "send_blocks A opus pk bs = (pk', out) \<Longrightarrow>
   send_blocks A opus (pk\<lparr>pk_pending := p\<rparr>) bs = (pk'\<lparr>pk_pending := p\<rparr>, out)"
  using send_blocks_pending(2) [where pk = pk and p = p and A = A and opus = opus and bs = bs] by simp

lemma pump_blocks:
  assumes "\<forall>r \<in> set reads. r \<noteq> []" "length held < 4" "length (pk_pending pk) < FRAME_SAMPLES"
    and "bytes = held @ concat reads" "samples = pk_pending pk @ chunked (whole 4 bytes)"
  shows "sound_pump A opus (held, pk) (map (\<lambda>r. (False, Some r)) reads) =
    (let (pk', out) = send_blocks A opus (pk\<lparr>pk_pending := left_over FRAME_SAMPLES samples\<rparr>)
           (chunks FRAME_SAMPLES (whole FRAME_SAMPLES samples))
     in (((left_over 4 bytes, pk'), None), out))"
  using assms
proof (induction reads arbitrary: held pk bytes samples)
  case Nil
  then show ?case using whole_short [of held 4] whole_short [of "pk_pending pk" FRAME_SAMPLES] by simp
next
  case (Cons r reads)
  let ?F = FRAME_SAMPLES
  have F: "0 < ?F" by (simp add: FRAME_SAMPLES_eq)
  let ?held = "left_over 4 (held @ r)" and ?s = "chunked (whole 4 (held @ r))"
  let ?p = "pk_pending pk @ ?s"
  obtain pk1 o1 where one: "send_blocks A opus (pk\<lparr>pk_pending := left_over ?F ?p\<rparr>) (chunks ?F (whole ?F ?p)) = (pk1, o1)"
    by fastforce
  have p1: "pk_pending pk1 = left_over ?F ?p"
    using send_blocks_pending(1) [of A opus "pk\<lparr>pk_pending := left_over ?F ?p\<rparr>" "chunks ?F (whole ?F ?p)"] one by simp
  have fed: "packer_feed A opus pk ?s = (pk1, o1)"
    using one by (simp add: packer_feed_def send_whole_blocks)
  let ?bytes = "?held @ concat reads"
  let ?samples = "pk_pending pk1 @ chunked (whole 4 ?bytes)"
  obtain pk2 o2 where two: "send_blocks A opus (pk1\<lparr>pk_pending := left_over ?F ?samples\<rparr>) (chunks ?F (whole ?F ?samples)) = (pk2, o2)"
    by fastforce
  have "\<forall>r \<in> set reads. r \<noteq> []" "length ?held < 4" "length (pk_pending pk1) < ?F"
    using Cons.prems(1) left_over_length [of 4 "held @ r"] left_over_length [OF F, of ?p] by (simp_all add: p1)
  note IH = Cons.IH [OF this refl refl]
  have bytes: "bytes = (held @ r) @ concat reads" using Cons.prems(4) by simp
  note w4 = whole_append [of 4 "held @ r" "concat reads", folded bytes, simplified]
  have samples: "samples = ?p @ chunked (whole 4 ?bytes)"
    using Cons.prems(5) w4 chunked_append [OF whole_mod, of "held @ r" "whole 4 ?bytes"] by simp
  note wF = whole_append [OF F, of ?p "chunked (whole 4 ?bytes)", folded samples p1]
  have "send_blocks A opus (pk\<lparr>pk_pending := left_over ?F ?p\<rparr>) (chunks ?F (whole ?F samples)) =
      (fst (send_blocks A opus pk1 (chunks ?F (whole ?F ?samples))), o1 @ o2)"
    unfolding wF(1) chunks_append_whole [OF F] send_blocks_append one Let_def
    using two send_blocks_pending(2) [where pk = pk1 and p = "left_over ?F ?samples"] by (simp add: case_prod_unfold)
  then have "send_blocks A opus (pk\<lparr>pk_pending := left_over ?F samples\<rparr>) (chunks ?F (whole ?F samples)) = (pk2, o1 @ o2)"
    using send_blocks_with [where p = "left_over ?F samples"] two wF(2)
      send_blocks_pending(2) [where pk = pk1 and p = "left_over ?F ?samples"] by fastforce
  then show ?case using Cons.prems(1,2) fed two IH w4(2)
    by (simp add: read_samples_whole Let_def)
qed

text \<open>
  The sound of a share does not depend on how the pipe delivers it. Whatever the sizes of
  the reads, down to single bytes, what the pump sends and the state it ends in are those of the
  reference: all bytes taken in fours as little-endian floats, all floats in blocks of exactly
  20 ms of stereo, one encoded packet per block in order; the bytes and samples that fill no
  sample and no block wait for the next read.
\<close>

theorem sound_does_not_depend_on_reads:
  assumes "\<forall>r \<in> set reads. r \<noteq> []" and "samples = chunked (whole 4 (concat reads))"
  shows "sound_pump A opus ([], packer_new e t ssrc socket) (map (\<lambda>r. (False, Some r)) reads) =
    (let (pk, out) = send_blocks A opus ((packer_new e t ssrc socket)\<lparr>pk_pending := left_over FRAME_SAMPLES samples\<rparr>)
           (chunks FRAME_SAMPLES (whole FRAME_SAMPLES samples))
     in (((left_over 4 (concat reads), pk), None), out))"
  by (rule pump_blocks [OF assms(1)]) (simp_all add: packer_new_def FRAME_SAMPLES_eq assms(2))

definition sample_packer :: "unit packer" where
  "sample_packer = packer_new () \<lparr>tr_relay = AddrV4 1 9000, tr_key = random_key [7]\<rparr> 2 (\<lambda>_. True)"

theorem sound_does_not_depend_on_reads_witness:
  "sound_pump toy_aead (\<lambda>e s. (Some [5], e)) ([], sample_packer) (map (\<lambda>r. (False, Some r)) [[0, 0], [0x80, 0x3F, 7]]) =
    ((([7], sample_packer\<lparr>pk_pending := [0x3F800000]\<rparr>), None), [])"
proof -
  have "chunked (whole 4 (concat [[0, 0], [0x80, 0x3F, 7]])) = [0x3F800000]"
    by (simp add: whole_def f32_from_le_def u32_from_be_def)
  then show ?thesis
    using sound_does_not_depend_on_reads [of "[[0, 0], [0x80, 0x3F, 7]]" "[0x3F800000]" toy_aead "\<lambda>e s. (Some [5], e)" "()"
        "\<lparr>tr_relay = AddrV4 1 9000, tr_key = random_key [7]\<rparr>" 2 "\<lambda>_. True"]
    by (simp add: sample_packer_def whole_def left_over_def FRAME_SAMPLES_eq)
qed

end
