(* ===== verification/Nonces.thy ===== *)
theory Nonces
  imports DesktopSound ShareCall VoiceCall
begin

text \<open>
  Whether a nonce is ever used twice. All members of a call seal with one key, so the cipher is
  safe only while no two packets share stream, number and kind (the module documentation of
  \<open>crates/boa-proto/src/media.rs\<close>). Three threads of a client number packets: the microphone's
  (\<open>run_tx\<close>), the picture's (\<open>put\<close>) and the shared machine's sound (\<open>packer_feed\<close>).
\<close>

section \<open>Headers on the wire\<close>

definition headers :: "wire_out list \<Rightarrow> packet_header list" where
  "headers out = List.map_filter (\<lambda>(_, d). case decode d of Inr h \<Rightarrow> Some h | Inl _ \<Rightarrow> None) out"

lemma headers_simps [simp]: "headers [] = []" "headers (xs @ ys) = headers xs @ headers ys"
  by (simp_all add: headers_def map_filter_def)

lemma transport_send_headers: "headers (snd (transport_send A ok t h p)) = [h] \<or> headers (snd (transport_send A ok t h p)) = []"
  by (auto simp: transport_send_def seal_def headers_def map_filter_def decode_encode_append Let_def
      split: prod.split sum.split)

lemma nonce_inject: "nonce g = nonce h \<longleftrightarrow> ph_ssrc g = ph_ssrc h \<and> ph_seq g = ph_seq h \<and> ph_kind g = ph_kind h"
proof -
  have "kind_u8 k = kind_u8 l \<longleftrightarrow> k = l" for k l by (cases k; cases l) simp_all
  then show ?thesis by (auto simp: nonce_def)
qed

section \<open>Counters\<close>

text \<open>Of the packets of some kinds, the numbers are increasing counts in \<open>n <.. n'\<close>, cut to a word.\<close>

definition counted :: "media_kind set \<Rightarrow> nat \<Rightarrow> nat \<Rightarrow> packet_header list \<Rightarrow> bool" where
  "counted K n n' hs \<longleftrightarrow> n \<le> n' \<and> (\<exists>ks. sorted_wrt (<) ks \<and> set ks \<subseteq> {n<..n'}
     \<and> map ph_seq (filter (\<lambda>h. ph_kind h \<in> K) hs) = map word_of_nat ks)"

lemma counted_append:
  assumes "counted K n n1 xs" "counted K n1 n2 ys"
  shows "counted K n n2 (xs @ ys)"
proof -
  obtain ks ls where "sorted_wrt (<) ks" "set ks \<subseteq> {n<..n1}" "sorted_wrt (<) ls" "set ls \<subseteq> {n1<..n2}"
    "map ph_seq (filter (\<lambda>h. ph_kind h \<in> K) xs) = map word_of_nat ks"
    "map ph_seq (filter (\<lambda>h. ph_kind h \<in> K) ys) = map word_of_nat ls" "n \<le> n1" "n1 \<le> n2"
    using assms unfolding counted_def by blast
  then show ?thesis unfolding counted_def by (intro conjI exI [of _ "ks @ ls"]) (fastforce simp: sorted_wrt_append)+
qed

lemma counted_none: "n \<le> n' \<Longrightarrow> filter (\<lambda>h. ph_kind h \<in> K) hs = [] \<Longrightarrow> counted K n n' hs"
  by (auto simp: counted_def)

lemma counted_one: "ph_seq h = word_of_nat (Suc n) \<Longrightarrow> counted K n (Suc n) [h]"
  by (cases "ph_kind h \<in> K") (auto simp: counted_def intro!: exI [of _ "[Suc n]"])

lemma counted_distinct:
  assumes "counted K 0 n hs" "n < 2 ^ 32"
  shows "distinct (map ph_seq (filter (\<lambda>h. ph_kind h \<in> K) hs))"
proof -
  obtain ks where ks: "sorted_wrt (<) ks" "set ks \<subseteq> {0<..n}"
    "map ph_seq (filter (\<lambda>h. ph_kind h \<in> K) hs) = map word_of_nat ks"
    using assms(1) unfolding counted_def by blast
  have "take_bit 32 x = x" if "x \<in> set ks" for x
    using that ks(2) assms(2) by (intro take_bit_nat_eq_self) auto
  then have "inj_on (word_of_nat :: nat \<Rightarrow> u32) (set ks)"
    by (intro inj_onI) (simp add: word_of_nat_eq_iff)
  then show ?thesis unfolding ks(3) using ks(1) by (simp add: distinct_map strict_sorted_iff)
qed

section \<open>The microphone\<close>

text \<open>
  The thread goes from \<open>a\<close> to \<open>b\<close>, sending \<open>out\<close>, with at most \<open>x\<close> packets of voice and \<open>y\<close>
  registrations counted.
\<close>

definition voice_numbers :: "u32 \<Rightarrow> nat \<Rightarrow> nat \<Rightarrow> ('d, 'e) tx \<Rightarrow> ('d, 'e) tx \<Rightarrow> wire_out list \<Rightarrow> bool" where
  "voice_numbers ssrc x y a b out \<longleftrightarrow>
     (\<forall>h \<in> set (headers out). ph_ssrc h = ssrc \<and> ph_kind h \<in> {media_kind.Voice, Keepalive})
   \<and> (\<forall>n k. tx_seq a = word_of_nat n \<and> tx_keepalive_seq a = word_of_nat k \<longrightarrow>
        (\<exists>n' k'. n' \<le> n + x \<and> k' \<le> k + y \<and> tx_seq b = word_of_nat n' \<and> tx_keepalive_seq b = word_of_nat k'
          \<and> counted {media_kind.Voice} n n' (headers out) \<and> counted {Keepalive} k k' (headers out)))"

lemma voice_numbers_trans:
  assumes "voice_numbers ssrc x y a b xs" "voice_numbers ssrc x' y' b c ys"
  shows "voice_numbers ssrc (x + x') (y + y') a c (xs @ ys)"
  unfolding voice_numbers_def
proof (intro conjI allI impI)
  show "\<forall>h \<in> set (headers (xs @ ys)). ph_ssrc h = ssrc \<and> ph_kind h \<in> {media_kind.Voice, Keepalive}"
    using assms by (auto simp: voice_numbers_def)
  fix n k assume "tx_seq a = word_of_nat n \<and> tx_keepalive_seq a = word_of_nat k"
  then obtain n1 k1 where 1: "n1 \<le> n + x" "k1 \<le> k + y" "tx_seq b = word_of_nat n1" "tx_keepalive_seq b = word_of_nat k1"
    "counted {media_kind.Voice} n n1 (headers xs)" "counted {Keepalive} k k1 (headers xs)"
    using assms(1) unfolding voice_numbers_def by blast
  then obtain n2 k2 where 2: "n2 \<le> n1 + x'" "k2 \<le> k1 + y'" "tx_seq c = word_of_nat n2" "tx_keepalive_seq c = word_of_nat k2"
    "counted {media_kind.Voice} n1 n2 (headers ys)" "counted {Keepalive} k1 k2 (headers ys)"
    using assms(2) unfolding voice_numbers_def by blast
  then show "\<exists>n' k'. n' \<le> n + (x + x') \<and> k' \<le> k + (y + y') \<and> tx_seq c = word_of_nat n' \<and> tx_keepalive_seq c = word_of_nat k'
      \<and> counted {media_kind.Voice} n n' (headers (xs @ ys)) \<and> counted {Keepalive} k k' (headers (xs @ ys))"
    using 1 counted_append by (intro exI [of _ n2] exI [of _ k2]) auto
qed

lemma voice_numbers_quiet:
  "tx_seq b = tx_seq a \<Longrightarrow> tx_keepalive_seq b = tx_keepalive_seq a \<Longrightarrow> voice_numbers ssrc x y a b []"
proof -
  assume same: "tx_seq b = tx_seq a" "tx_keepalive_seq b = tx_keepalive_seq a"
  have "counted K n n (headers [])" for K n by (simp add: counted_none)
  then show ?thesis unfolding voice_numbers_def same by (auto simp del: headers_simps) (simp_all, metis le_add1)
qed

lemma voice_numbers_fields:
  "voice_numbers ssrc x y a b out \<Longrightarrow> tx_seq a' = tx_seq a \<Longrightarrow> tx_keepalive_seq a' = tx_keepalive_seq a \<Longrightarrow>
    tx_seq b' = tx_seq b \<Longrightarrow> tx_keepalive_seq b' = tx_keepalive_seq b \<Longrightarrow> voice_numbers ssrc x y a' b' out"
  by (simp add: voice_numbers_def)

lemma voice_numbers_mono:
  "voice_numbers ssrc x y a b out \<Longrightarrow> x \<le> x' \<Longrightarrow> y \<le> y' \<Longrightarrow> voice_numbers ssrc x' y' a b out"
  unfolding voice_numbers_def by (meson add_left_mono order_trans)

lemma counted_if_sent: "ph_seq h = word_of_nat (Suc n) \<Longrightarrow> hs = [h] \<or> hs = [] \<Longrightarrow> counted K n (Suc n) hs"
  using counted_one counted_none by fastforce

lemma voice_numbers_one:
  assumes "headers out = [h] \<or> headers out = []" "ph_ssrc h = ssrc" "ph_seq h = tx_seq a + 1"
    and "ph_kind h = media_kind.Voice" "tx_seq b = tx_seq a + 1" "tx_keepalive_seq b = tx_keepalive_seq a"
  shows "voice_numbers ssrc 1 0 a b out"
  unfolding voice_numbers_def
proof (intro conjI allI impI)
  fix n k assume "tx_seq a = word_of_nat n \<and> tx_keepalive_seq a = word_of_nat k"
  moreover from this have "counted {media_kind.Voice} n (Suc n) (headers out)"
    using assms(1,3) by (intro counted_if_sent) (simp_all add: add.commute)
  moreover have "counted {Keepalive} k k (headers out)" using assms(1,4) by (intro counted_none) auto
  ultimately show "\<exists>n' k'. n' \<le> n + 1 \<and> k' \<le> k + 0 \<and> tx_seq b = word_of_nat n' \<and> tx_keepalive_seq b = word_of_nat k'
      \<and> counted {media_kind.Voice} n n' (headers out) \<and> counted {Keepalive} k k' (headers out)"
    using assms(5,6) by (intro exI [of _ "Suc n"] exI [of _ k]) (auto simp: add.commute)
qed (use assms in auto)

lemma voice_numbers_keepalive:
  assumes "headers out = [h] \<or> headers out = []" "ph_ssrc h = ssrc" "ph_seq h = tx_keepalive_seq a + 1"
    and "ph_kind h = Keepalive" "tx_seq b = tx_seq a" "tx_keepalive_seq b = tx_keepalive_seq a + 1"
  shows "voice_numbers ssrc 0 1 a b out"
  unfolding voice_numbers_def
proof (intro conjI allI impI)
  fix n k assume "tx_seq a = word_of_nat n \<and> tx_keepalive_seq a = word_of_nat k"
  moreover from this have "counted {Keepalive} k (Suc k) (headers out)"
    using assms(1,3) by (intro counted_if_sent) (simp_all add: add.commute)
  moreover have "counted {media_kind.Voice} n n (headers out)" using assms(1,4) by (intro counted_none) auto
  ultimately show "\<exists>n' k'. n' \<le> n + 0 \<and> k' \<le> k + 1 \<and> tx_seq b = word_of_nat n' \<and> tx_keepalive_seq b = word_of_nat k'
      \<and> counted {media_kind.Voice} n n' (headers out) \<and> counted {Keepalive} k k' (headers out)"
    using assms(5,6) by (intro exI [of _ n] exI [of _ "Suc k"]) (auto simp: add.commute)
qed (use assms in auto)

lemma send_chunk_numbers:
  assumes "send_chunk L t ssrc ok sending gate_open chunk (sh, tx) = ((sh', tx'), out)"
  shows "voice_numbers ssrc 1 0 tx tx' out"
proof -
  obtain due flag where due: "packet_due sending gate_open (tx_sent_since_gate_closed tx) = (due, flag)" by fastforce
  obtain enc e where enc: "tl_encode L (tx_encoder tx) chunk = (enc, e)" by fastforce
  show ?thesis
  proof (cases "due \<and> enc \<noteq> None")
    case True
    then obtain p where p: "enc = Some p" by auto
    let ?h = "\<lparr>ph_kind = media_kind.Voice, ph_ssrc = ssrc, ph_seq = tx_seq tx + 1,
        ph_timestamp = tx_timestamp tx + word_of_nat VOICE_FRAME_SAMPLES\<rparr>"
    have "tx_seq tx' = tx_seq tx + 1" "tx_keepalive_seq tx' = tx_keepalive_seq tx"
      "out = snd (transport_send (tl_aead L) ok t ?h p)"
      using assms due enc p True by (auto simp: send_chunk_def Let_def split: prod.splits sum.splits)
    then show ?thesis using transport_send_headers [of "tl_aead L" ok t ?h p]
      by (intro voice_numbers_one [where h = ?h]) simp_all
  next
    case False
    then have "tx_seq tx' = tx_seq tx" "tx_keepalive_seq tx' = tx_keepalive_seq tx" "out = []"
      using assms due enc by (auto simp: send_chunk_def Let_def split: option.splits if_splits)
    then show ?thesis by (simp add: voice_numbers_quiet)
  qed
qed

lemma send_pending_numbers:
  "send_pending L t ssrc ok sending gate_open samples (sh, tx) = (left, (sh', tx'), out) \<Longrightarrow>
    voice_numbers ssrc (length samples div 960) 0 tx tx' out \<and> length left < 960"
proof (induction "length samples" arbitrary: ok samples sh tx left sh' tx' out rule: less_induct)
  case less
  show ?case
  proof (cases "length samples < VOICE_FRAME_SAMPLES")
    case True
    then show ?thesis using less.prems
      by (auto simp: send_pending.simps [of _ _ _ _ _ _ samples] VOICE_FRAME_SAMPLES_eq voice_numbers_quiet)
  next
    case False
    obtain sh1 tx1 o1 where c: "send_chunk L t ssrc (ok 0) sending gate_open (take VOICE_FRAME_SAMPLES samples) (sh, tx)
        = ((sh1, tx1), o1)" by (metis prod.exhaust)
    obtain l sh2 tx2 o2 where r: "send_pending L t ssrc (ok \<circ> Suc) sending gate_open (drop VOICE_FRAME_SAMPLES samples)
        (sh1, tx1) = (l, (sh2, tx2), o2)" by (metis prod.exhaust)
    have res: "left = l" "tx' = tx2" "out = o1 @ o2"
      using less.prems False c r by (simp_all add: send_pending.simps [of _ _ _ _ _ _ samples])
    have "length (drop VOICE_FRAME_SAMPLES samples) < length samples" using False by (simp add: VOICE_FRAME_SAMPLES_eq)
    note IH = less.hyps [OF this r]
    have "length samples div 960 = 1 + length (drop VOICE_FRAME_SAMPLES samples) div 960"
      using False by (simp add: VOICE_FRAME_SAMPLES_eq le_div_geq)
    then show ?thesis using voice_numbers_trans [OF send_chunk_numbers [OF c], of _ 0 tx2 o2] IH unfolding res by simp
  qed
qed

lemma send_frame_numbers:
  assumes s: "send_frame L t ssrc ok frame (sh, tx) = ((sh', tx'), out)"
  shows "voice_numbers ssrc ((length (tx_pending tx) + length frame) div 960) 0 tx tx' out \<and> length (tx_pending tx') < 960"
proof -
  obtain oc fr c where p: "cleanup_process (tl_sound L) (sh_gain sh)
      (if sh_push_to_talk sh then Some (sh_talk_key_held sh) else None) frame (tx_cleanup tx) = (oc, fr, c)"
    by (metis prod_cases3)
  let ?sh = "sh\<lparr>sh_input_level := oc_level oc, sh_gate_open := oc_open oc\<rparr>"
  let ?speaks = "transmitting ?sh \<and> oc_open oc"
  obtain sh1 tx1 where one: "(if ?speaks \<noteq> tx_was_speaking tx
      then (?sh\<lparr>sh_speaking := ?speaks\<rparr>, tx\<lparr>tx_cleanup := c, tx_was_speaking := ?speaks\<rparr>)
      else (?sh, tx\<lparr>tx_cleanup := c\<rparr>)) = (sh1, tx1)"
    by fastforce
  then have f1: "tx_seq tx1 = tx_seq tx" "tx_keepalive_seq tx1 = tx_keepalive_seq tx" "tx_pending tx1 = tx_pending tx"
    by (auto split: if_splits)
  obtain left sh2 tx2 out2 where r: "send_pending L t ssrc ok (transmitting ?sh) (oc_open oc) (tx_pending tx1 @ fr) (sh1, tx1)
      = (left, (sh2, tx2), out2)"
    by (metis prod.exhaust)
  have res: "tx' = tx2\<lparr>tx_pending := left\<rparr>" "out = out2"
    using s p one r by (auto simp: send_frame_def Let_def split: if_splits)
  have "length (tx_pending tx1 @ fr) = length (tx_pending tx) + length frame"
    using cleanup_process_length [OF p] f1(3) by simp
  then show ?thesis using send_pending_numbers [OF r] f1 unfolding res
    by (auto intro: voice_numbers_fields)
qed

lemma keepalive_numbers:
  assumes "keepalive L t ssrc now ok tx = (tx', out)"
  shows "voice_numbers ssrc 0 1 tx tx' out \<and> tx_pending tx' = tx_pending tx"
proof (cases "now \<ge> tx_next_keepalive tx")
  case True
  let ?h = "\<lparr>ph_kind = Keepalive, ph_ssrc = ssrc, ph_seq = tx_keepalive_seq tx + 1, ph_timestamp = 0\<rparr>"
  have "tx_seq tx' = tx_seq tx" "tx_keepalive_seq tx' = tx_keepalive_seq tx + 1" "tx_pending tx' = tx_pending tx"
    "out = snd (transport_send (tl_aead L) ok t ?h REGISTRATION_PLAINTEXT)"
    using assms True by (auto simp: keepalive_def transport_register_def Let_def)
  then show ?thesis using transport_send_headers [of "tl_aead L" ok t ?h REGISTRATION_PLAINTEXT]
    by (intro conjI voice_numbers_keepalive [where h = ?h]) simp_all
next
  case False
  then show ?thesis using assms by (auto simp: keepalive_def voice_numbers_quiet)
qed

lemma tx_iteration_numbers:
  assumes s: "tx_iteration L t ssrc m (sh, tx) = ((sh', tx'), out)" and short: "length (tx_pending tx) < 960"
  shows "voice_numbers ssrc 1 1 tx tx' out \<and> length (tx_pending tx') < 960"
proof -
  obtain tx1 out1 where k: "keepalive L t ssrc (tm_now m) (tm_keepalive_ok m) tx = (tx1, out1)" by fastforce
  let ?tx1 = "pick_up_settings L sh tx1"
  have f: "tx_seq ?tx1 = tx_seq tx1" "tx_keepalive_seq ?tx1 = tx_keepalive_seq tx1" "tx_pending ?tx1 = tx_pending tx"
    using keepalive_numbers [OF k] by (simp_all add: pick_up_settings_def)
  have k1: "voice_numbers ssrc 0 1 tx ?tx1 out1"
    using keepalive_numbers [OF k] f by (auto intro: voice_numbers_fields)
  obtain frame sh1 where tf: "take_frame_samples sh = (frame, sh1)" by fastforce
  obtain sh2 tx2 out2 where fr: "send_frame L t ssrc (tm_send_ok m) frame (sh1, ?tx1) = ((sh2, tx2), out2)"
    by (metis prod.exhaust)
  show ?thesis
  proof (cases "ring_len (sh_capture sh) < FRAME")
    case True
    then show ?thesis using s k k1 short f voice_numbers_mono [OF k1, of 1 1] by (auto simp: tx_iteration_def Let_def)
  next
    case False
    have "length frame = 480" using take_frame_samples_length [of sh] tf by (simp add: FRAME_def)
    then have "(length (tx_pending ?tx1) + length frame) div 960 \<le> 1" using short f(3) by simp
    then have "voice_numbers ssrc 1 0 ?tx1 tx2 out2" "length (tx_pending tx2) < 960"
      using send_frame_numbers [OF fr] voice_numbers_mono by blast+
    then show ?thesis using s k tf fr False voice_numbers_trans [OF k1, of 1 0 tx2 out2]
      by (auto simp: tx_iteration_def Let_def)
  qed
qed

lemma run_tx_numbers:
  "run_tx L t ssrc turns (sh, tx) = ((sh', tx'), out) \<Longrightarrow> length (tx_pending tx) < 960 \<Longrightarrow>
    voice_numbers ssrc (length turns) (length turns) tx tx' out"
proof (induction turns arbitrary: sh tx sh' tx' out)
  case Nil
  then show ?case by (simp add: voice_numbers_quiet)
next
  case (Cons turn turns)
  obtain b m where turn: "turn = (b, m)" by fastforce
  show ?case
  proof (cases "sh_stop (b sh)")
    case True
    then show ?thesis using Cons.prems(1) turn by (simp add: voice_numbers_quiet)
  next
    case False
    obtain sh1 tx1 out1 where one: "tx_iteration L t ssrc m (b sh, tx) = ((sh1, tx1), out1)" by (metis prod.exhaust)
    obtain sh2 tx2 out2 where r: "run_tx L t ssrc turns (sh1, tx1) = ((sh2, tx2), out2)" by (metis prod.exhaust)
    note 1 = tx_iteration_numbers [OF one Cons.prems(2)]
    have "voice_numbers ssrc (length turns) (length turns) tx1 tx2 out2" using Cons.IH [OF r] 1 by simp
    moreover have "tx' = tx2" "out = out1 @ out2" using Cons.prems(1) turn False one r by simp_all
    ultimately show ?thesis using voice_numbers_trans 1 by fastforce
  qed
qed

section \<open>The picture and the sound\<close>

text \<open>One counter from \<open>a\<close> to \<open>b\<close>, with at most \<open>x\<close> packets counted.\<close>

definition counter_numbers :: "media_kind set \<Rightarrow> u32 \<Rightarrow> nat \<Rightarrow> u32 \<Rightarrow> u32 \<Rightarrow> wire_out list \<Rightarrow> bool" where
  "counter_numbers K ssrc x a b out \<longleftrightarrow>
     (\<forall>h \<in> set (headers out). ph_ssrc h = ssrc \<and> ph_kind h \<in> K)
   \<and> (\<forall>n. a = word_of_nat n \<longrightarrow> (\<exists>n'. n' \<le> n + x \<and> b = word_of_nat n' \<and> counted K n n' (headers out)))"

lemma counter_numbers_trans:
  assumes "counter_numbers K ssrc x a b xs" "counter_numbers K ssrc y b c ys"
  shows "counter_numbers K ssrc (x + y) a c (xs @ ys)"
  unfolding counter_numbers_def
proof (intro conjI allI impI)
  fix n assume "a = word_of_nat n"
  then obtain n1 where 1: "n1 \<le> n + x" "b = word_of_nat n1" "counted K n n1 (headers xs)"
    using assms(1) unfolding counter_numbers_def by blast
  then obtain n2 where "n2 \<le> n1 + y" "c = word_of_nat n2" "counted K n1 n2 (headers ys)"
    using assms(2) unfolding counter_numbers_def by blast
  then show "\<exists>n'. n' \<le> n + (x + y) \<and> c = word_of_nat n' \<and> counted K n n' (headers (xs @ ys))"
    using 1 counted_append by (intro exI [of _ n2]) auto
qed (use assms in \<open>auto simp: counter_numbers_def\<close>)

lemma counter_numbers_Nil [simp]: "counter_numbers K ssrc x a a []"
proof -
  have "counted K n n []" for n by (simp add: counted_none)
  then show ?thesis unfolding counter_numbers_def using le_add1 by (simp, blast)
qed

lemma counter_numbers_mono: "counter_numbers K ssrc x a b out \<Longrightarrow> x \<le> y \<Longrightarrow> counter_numbers K ssrc y a b out"
proof -
  assume a: "counter_numbers K ssrc x a b out" and "x \<le> y"
  then have "n' \<le> n + x \<Longrightarrow> n' \<le> n + y" for n n' by simp
  with a show ?thesis unfolding counter_numbers_def by blast
qed

lemma counter_numbers_one:
  assumes "headers out = [h] \<or> headers out = []" "ph_ssrc h = ssrc" "ph_kind h \<in> K" "ph_seq h = a + 1"
  shows "counter_numbers K ssrc 1 a (a + 1) out"
  unfolding counter_numbers_def
proof (intro conjI allI impI)
  fix n assume "a = word_of_nat n"
  moreover from this have "counted K n (Suc n) (headers out)"
    using assms(1,4) by (intro counted_if_sent) (simp_all add: add.commute)
  ultimately show "\<exists>n'. n' \<le> n + 1 \<and> a + 1 = word_of_nat n' \<and> counted K n n' (headers out)"
    by (intro exI [of _ "Suc n"]) (simp add: add.commute)
qed (use assms in auto)

lemma put_fragment_numbers:
  assumes "put_fragment A kind ts w mo fr = (w', acts)" "kind \<in> K"
  shows "counter_numbers K (wr_ssrc w) 1 (wr_seq w) (wr_seq w') (outs acts) \<and> wr_ssrc w' = wr_ssrc w"
proof -
  obtain index cnt chunk where fr: "fr = (index, cnt, chunk)" by (metis prod_cases3)
  let ?p = "write_fragment index cnt chunk []"
  let ?h = "\<lparr>ph_kind = kind, ph_ssrc = wr_ssrc w, ph_seq = wr_seq w + 1, ph_timestamp = ts\<rparr>"
  have res: "wr_seq w' = wr_seq w + 1" "wr_ssrc w' = wr_ssrc w"
    "outs acts = snd (transport_send A (mo_ok mo) (wr_transport w) ?h ?p)"
    using assms by (auto simp: fr put_fragment_def Let_def split: prod.splits option.splits sum.splits)
  then show ?thesis unfolding res
    using transport_send_headers [of A "mo_ok mo" "wr_transport w" ?h ?p] assms(2)
    by (intro conjI counter_numbers_one [where h = ?h]) simp_all
qed

lemma put_fragments_numbers:
  "put_fragments A kind ts moments w frs = (w', acts) \<Longrightarrow> kind \<in> K \<Longrightarrow>
    counter_numbers K (wr_ssrc w) (length frs) (wr_seq w) (wr_seq w') (outs acts) \<and> wr_ssrc w' = wr_ssrc w"
proof (induction frs arbitrary: moments w w' acts)
  case (Cons fr frs)
  obtain w1 a1 where one: "put_fragment A kind ts w (moments 0) fr = (w1, a1)" by fastforce
  obtain w2 a2 where two: "put_fragments A kind ts (moments \<circ> Suc) w1 frs = (w2, a2)" by fastforce
  note 1 = put_fragment_numbers [OF one Cons.prems(2)]
  note 2 = Cons.IH [OF two Cons.prems(2)]
  have res: "w' = w2" "acts = a1 @ a2" using Cons.prems(1) one two by simp_all
  show ?case using counter_numbers_trans [OF 1 [THEN conjunct1]] 1 2 unfolding res by fastforce
qed simp

definition fragments_of :: "share_picture list \<Rightarrow> nat" where
  "fragments_of ps = sum_list (map (\<lambda>p. length (fragment (sp_data p))) ps)"

lemma put_all_numbers:
  "put_all A ticks w ps = (w', acts) \<Longrightarrow>
    counter_numbers {VideoKey, VideoDelta} (wr_ssrc w) (fragments_of ps) (wr_seq w) (wr_seq w') (outs acts)
    \<and> wr_ssrc w' = wr_ssrc w"
proof (induction ps arbitrary: ticks w w' acts)
  case (Cons p ps)
  obtain w1 a1 where one: "put A (ti_rate (ticks 0)) (ti_now (ticks 0)) (ti_moments (ticks 0)) w p = (w1, a1)" by fastforce
  obtain w2 a2 where two: "put_all A (ticks \<circ> Suc) w1 ps = (w2, a2)" by fastforce
  have res: "w' = w2" "acts = a1 @ a2" using Cons.prems one two by simp_all
  let ?K = "{VideoKey, VideoDelta}"
  define w0 where "w0 = offer_preview p (w\<lparr>wr_pacer := aim_at (ti_rate (ticks 0)) (wr_pacer w), wr_frames := wr_frames w + 1\<rparr>)"
  obtain kind ts where put: "put_fragments A kind ts (ti_moments (ticks 0)) w0 (fragment (sp_data p)) = (w1, a1)" "kind \<in> ?K"
    using one by (auto simp: put_def Let_def w0_def split: if_splits)
  have w0: "wr_seq w0 = wr_seq w" "wr_ssrc w0 = wr_ssrc w" by (simp_all add: w0_def offer_preview_def split: option.splits prod.splits)
  note 1 = put_fragments_numbers [OF put, unfolded w0]
  note 2 = Cons.IH [OF two]
  show ?case using counter_numbers_trans [OF 1 [THEN conjunct1]] 1 2 unfolding res by (fastforce simp: fragments_of_def)
qed (simp add: fragments_of_def)

lemma send_sound_numbers:
  assumes "send_sound A opus pk chunk = (pk', out)"
  shows "counter_numbers {DesktopAudio} (pk_ssrc pk) 1 (pk_seq pk) (pk_seq pk') out \<and> pk_ssrc pk' = pk_ssrc pk"
proof -
  obtain enc e where enc: "opus (pk_encoder pk) chunk = (enc, e)" by fastforce
  show ?thesis
  proof (cases enc)
    case None
    then show ?thesis using assms enc by (auto simp: send_sound_def)
  next
    case (Some p)
    let ?h = "\<lparr>ph_kind = DesktopAudio, ph_ssrc = pk_ssrc pk, ph_seq = pk_seq pk + 1,
        ph_timestamp = pk_timestamp pk + word_of_nat VOICE_FRAME_SAMPLES\<rparr>"
    have res: "pk_seq pk' = pk_seq pk + 1" "pk_ssrc pk' = pk_ssrc pk"
      "out = snd (transport_send A (pk_socket pk 0) (pk_transport pk) ?h p)"
      using assms enc Some by (auto simp: send_sound_def Let_def split: prod.splits sum.splits)
    then show ?thesis unfolding res(1,2)
      using transport_send_headers [of A "pk_socket pk 0" "pk_transport pk" ?h p]
      by (intro conjI counter_numbers_one [where h = ?h]) simp_all
  qed
qed

lemma send_blocks_numbers:
  "send_blocks A opus pk bs = (pk', out) \<Longrightarrow>
    counter_numbers {DesktopAudio} (pk_ssrc pk) (length bs) (pk_seq pk) (pk_seq pk') out \<and> pk_ssrc pk' = pk_ssrc pk"
proof (induction bs arbitrary: pk pk' out)
  case (Cons b bs)
  obtain pk1 o1 where one: "send_sound A opus pk b = (pk1, o1)" by fastforce
  obtain pk2 o2 where two: "send_blocks A opus pk1 bs = (pk2, o2)" by fastforce
  have res: "pk' = pk2" "out = o1 @ o2" using Cons.prems one two by simp_all
  note 1 = send_sound_numbers [OF one] and 2 = Cons.IH [OF two]
  show ?case using counter_numbers_trans [OF 1 [THEN conjunct1]] 1 2 unfolding res by fastforce
qed simp

lemma packer_feed_numbers:
  assumes "packer_feed A opus pk samples = (pk', out)"
  shows "\<exists>x. counter_numbers {DesktopAudio} (pk_ssrc pk) x (pk_seq pk) (pk_seq pk') out \<and> pk_ssrc pk' = pk_ssrc pk
    \<and> x * 1920 + length (pk_pending pk') = length (pk_pending pk) + length samples"
proof -
  let ?p = "pk_pending pk @ samples"
  let ?bs = "chunks FRAME_SAMPLES (whole FRAME_SAMPLES ?p)"
  have s: "send_blocks A opus (pk\<lparr>pk_pending := left_over FRAME_SAMPLES ?p\<rparr>) ?bs = (pk', out)"
    using assms by (simp add: packer_feed_def send_whole_blocks)
  have "pk_pending pk' = left_over FRAME_SAMPLES ?p"
    using send_blocks_pending(1) [of A opus "pk\<lparr>pk_pending := left_over FRAME_SAMPLES ?p\<rparr>" ?bs] s by simp
  moreover have "length ?bs = length ?p div 1920"
    using length_blocks [of FRAME_SAMPLES ?p] by (simp add: FRAME_SAMPLES_eq)
  ultimately have "length ?bs * 1920 + length (pk_pending pk') = length (pk_pending pk) + length samples"
    using length_whole(2) [of FRAME_SAMPLES ?p] div_mult_mod_eq [of "length ?p" 1920] by (simp add: FRAME_SAMPLES_eq)
  then show ?thesis using send_blocks_numbers [OF s] by (intro exI [of _ "length ?bs"]) simp
qed

definition heard_samples :: "(bool \<times> heard) list \<Rightarrow> nat" where
  "heard_samples turns = sum_list (map (\<lambda>(_, g). case g of Heard s \<Rightarrow> length s | _ \<Rightarrow> 0) turns)"

definition read_bytes :: "(bool \<times> byte list option) list \<Rightarrow> nat" where
  "read_bytes turns = sum_list (map (\<lambda>(_, g). case g of Some bs \<Rightarrow> length bs | None \<Rightarrow> 0) turns)"

lemma length_chunked: "length (chunked bs) = length bs div 4"
  by (induction bs rule: chunked.induct) simp_all

lemma sound_stream_numbers:
  "sound_stream A opus pk turns = ((pk', r), out) \<Longrightarrow>
    counter_numbers {DesktopAudio} (pk_ssrc pk) ((length (pk_pending pk) + heard_samples turns) div 1920)
      (pk_seq pk) (pk_seq pk') out"
proof (induction turns arbitrary: pk pk' r out)
  case (Cons turn turns)
  obtain stop got where turn: "turn = (stop, got)" by fastforce
  show ?case
  proof (cases "\<not> stop \<and> (\<exists>s. got = Heard s)")
    case True
    then obtain s where got: "got = Heard s" "\<not> stop" by blast
    obtain pk1 o1 where one: "packer_feed A opus pk s = (pk1, o1)" by fastforce
    obtain q o2 where two: "sound_stream A opus pk1 turns = (q, o2)" by fastforce
    have res: "q = (pk', r)" "out = o1 @ o2" using Cons.prems one two got by (simp_all add: turn)
    obtain x where x: "counter_numbers {DesktopAudio} (pk_ssrc pk) x (pk_seq pk) (pk_seq pk1) o1" "pk_ssrc pk1 = pk_ssrc pk"
      "x * 1920 + length (pk_pending pk1) = length (pk_pending pk) + length s"
      using packer_feed_numbers [OF one] by blast
    have total: "length (pk_pending pk) + heard_samples (turn # turns) = x * 1920 + (length (pk_pending pk1) + heard_samples turns)"
      using x(3) by (simp add: heard_samples_def turn got)
    show ?thesis using counter_numbers_trans [OF x(1)] Cons.IH [OF two [unfolded res]] x(2)
      unfolding total res by simp
  next
    case False
    then show ?thesis using Cons.prems Cons.IH [of pk]
      by (cases got) (auto simp: turn heard_samples_def split: if_splits)
  qed
qed simp

lemma sound_pump_numbers:
  "sound_pump A opus (held, pk) turns = (((held', pk'), r), out) \<Longrightarrow> length held < 4 \<Longrightarrow>
    counter_numbers {DesktopAudio} (pk_ssrc pk) ((4 * length (pk_pending pk) + length held + read_bytes turns) div 7680)
      (pk_seq pk) (pk_seq pk') out"
proof (induction turns arbitrary: held pk held' pk' r out)
  case (Cons turn turns)
  obtain stop got where turn: "turn = (stop, got)" by fastforce
  show ?case
  proof (cases "\<not> stop \<and> (\<exists>bs. got = Some bs \<and> bs \<noteq> [])")
    case True
    then obtain bs where got: "got = Some bs" "bs \<noteq> []" "\<not> stop" by blast
    let ?all = "held @ bs"
    have rs: "read_samples held bs = (chunked (whole 4 ?all), left_over 4 ?all)"
      by (rule read_samples_whole [OF Cons.prems(2)])
    obtain pk1 o1 where one: "packer_feed A opus pk (chunked (whole 4 ?all)) = (pk1, o1)" by fastforce
    obtain q o2 where two: "sound_pump A opus (left_over 4 ?all, pk1) turns = (q, o2)" by fastforce
    have res: "q = ((held', pk'), r)" "out = o1 @ o2" using Cons.prems(1) one two got rs by (simp_all add: turn)
    obtain x where x: "counter_numbers {DesktopAudio} (pk_ssrc pk) x (pk_seq pk) (pk_seq pk1) o1" "pk_ssrc pk1 = pk_ssrc pk"
      "x * 1920 + length (pk_pending pk1) = length (pk_pending pk) + length (chunked (whole 4 ?all))"
      using packer_feed_numbers [OF one] by blast
    have "4 * length (chunked (whole 4 ?all)) + length (left_over 4 ?all) = length ?all"
      unfolding length_chunked length_whole by simp
    then have total: "4 * length (pk_pending pk) + length held + read_bytes (turn # turns)
        = x * 7680 + (4 * length (pk_pending pk1) + length (left_over 4 ?all) + read_bytes turns)"
      using x(3) by (simp add: read_bytes_def turn got)
    have "length (left_over 4 ?all) < 4" by (simp add: left_over_length)
    from counter_numbers_trans [OF x(1)] Cons.IH [OF two [unfolded res] this] x(2)
    show ?thesis unfolding total res by simp
  next
    case False
    then show ?thesis using Cons.prems by (cases got) (auto simp: turn split: if_splits)
  qed
qed simp


lemma pump_numbers:
  "pump A (ax, w) reads = Some (rw, acts) \<Longrightarrow> feed_reads ax (map fst reads) = Some (ps, ax') \<Longrightarrow>
    counter_numbers {VideoKey, VideoDelta} (wr_ssrc w) (fragments_of ps) (wr_seq w) (wr_seq (snd rw)) (outs acts)"
proof (induction reads arbitrary: ax w rw acts ps)
  case (Cons read reads)
  obtain bytes ticks where read: "read = (bytes, ticks)" by fastforce
  obtain p1 ax1 p2 where f: "annexb_feed ax bytes = Some (p1, ax1)" "feed_reads ax1 (map fst reads) = Some (p2, ax')"
    "ps = p1 @ p2"
    using Cons.prems(2) by (auto simp: read split: option.splits)
  show ?case
  proof (cases "bytes = []")
    case True
    then show ?thesis using Cons.prems(1) by (auto simp: read)
  next
    case False
    obtain w1 a1 where one: "put_all A ticks w p1 = (w1, a1)" by fastforce
    obtain a2 where two: "pump A (ax1, w1) reads = Some (rw, a2)" "acts = a1 @ a2"
      using Cons.prems(1) False f(1) one by (auto simp: read)
    note 1 = put_all_numbers [OF one]
    show ?thesis using counter_numbers_trans [OF 1 [THEN conjunct1]] Cons.IH [OF two(1) f(2)] 1
      by (simp add: two(2) f(3) fragments_of_def)
  qed
qed simp

section \<open>A call\<close>

text \<open>
  What one member sends with its threads started once: the microphone's thread, the pump of a
  screen share, and the share's sound, from ffmpeg's pipe or from a capture; none of them longer
  than its counter.
\<close>

definition voice_from :: "('d, 'e) tx_libs \<Rightarrow> member \<Rightarrow> wire_out list \<Rightarrow> bool" where
  "voice_from L m out \<longleftrightarrow> (\<exists>t turns sh now enc st.
     run_tx L t (mb_voice_ssrc m) turns (sh, tx_start L enc now sh) = (st, out) \<and> length turns < 2 ^ 32)"

definition share_from :: "aead \<Rightarrow> member \<Rightarrow> wire_out list \<Rightarrow> bool" where
  "share_from A m out \<longleftrightarrow> (\<exists>t preview now kbps reads ps ax rw acts.
     pump A (default_annexb, wire_new t (mb_screen_ssrc m) preview now kbps) reads = Some (rw, acts)
     \<and> feed_reads default_annexb (map fst reads) = Some (ps, ax) \<and> fragments_of ps < 2 ^ 32 \<and> out = outs acts)"

definition sound_from :: "aead \<Rightarrow> 'f opus \<Rightarrow> member \<Rightarrow> wire_out list \<Rightarrow> bool" where
  "sound_from A opus m out \<longleftrightarrow>
     (\<exists>e t socket turns st. sound_pump A opus ([], packer_new e t (mb_screen_ssrc m) socket) turns = (st, out)
        \<and> read_bytes turns div 7680 < 2 ^ 32)
   \<or> (\<exists>e t socket turns st. sound_stream A opus (packer_new e t (mb_screen_ssrc m) socket) turns = (st, out)
        \<and> heard_samples turns div 1920 < 2 ^ 32)"

text \<open>Packets on some streams, of some kinds, with a number of their own within each kind.\<close>

definition own_numbers :: "u32 set \<Rightarrow> media_kind set \<Rightarrow> packet_header list \<Rightarrow> bool" where
  "own_numbers S K hs \<longleftrightarrow> (\<forall>h \<in> set hs. ph_ssrc h \<in> S \<and> ph_kind h \<in> K)
   \<and> (\<forall>k. distinct (map ph_seq (filter (\<lambda>h. ph_kind h = k) hs)))"

lemma streams_apart:
  assumes "hub_reachable st" "hget (members st) u = Some m" "hget (members st) v = Some n" "u \<noteq> v"
  shows "{mb_voice_ssrc m, mb_screen_ssrc m} \<inter> {mb_voice_ssrc n, mb_screen_ssrc n} = {}"
proof -
  from hub_reachable_inv [OF assms(1)] have streams: "\<And>s u. hget (by_ssrc st) s = Some u \<longleftrightarrow>
      (\<exists>m. hget (members st) u = Some m \<and> (s = mb_voice_ssrc m \<or> s = mb_screen_ssrc m))"
    by (auto simp: hub_inv_def streams_inv_def)
  have "hget (by_ssrc st) s = Some u" if "s \<in> {mb_voice_ssrc m, mb_screen_ssrc m}" for s
    unfolding streams using that assms(2) by auto
  moreover have "hget (by_ssrc st) s = Some v" if "s \<in> {mb_voice_ssrc n, mb_screen_ssrc n}" for s
    unfolding streams using that assms(3) by auto
  ultimately show ?thesis using assms(4) by fastforce
qed

lemma distinct_by_kind:
  assumes "distinct (map ph_seq (filter (\<lambda>h. ph_kind h \<in> K) hs))" "k \<in> K"
  shows "distinct (map ph_seq (filter (\<lambda>h. ph_kind h = k) hs))"
proof -
  have "filter (\<lambda>h. ph_kind h = k) hs = filter (\<lambda>h. ph_kind h = k) (filter (\<lambda>h. ph_kind h \<in> K) hs)"
    using assms(2) by (simp add: conj_commute cong: conj_cong)
  then show ?thesis using distinct_map_filter [OF assms(1)] by simp
qed

lemma distinct_kinds:
  assumes "\<forall>h \<in> set hs. ph_kind h \<in> K" "\<And>k. k \<in> K \<Longrightarrow> distinct (map ph_seq (filter (\<lambda>h. ph_kind h = k) hs))"
  shows "distinct (map ph_seq (filter (\<lambda>h. ph_kind h = k) hs))"
proof (cases "k \<in> K")
  case False
  then have "filter (\<lambda>h. ph_kind h = k) hs = []" using assms(1) by (auto simp: filter_empty_conv)
  then show ?thesis by simp
qed (rule assms(2))

lemma counter_own:
  assumes "counter_numbers K ssrc n 0 b out" "n < 2 ^ 32"
  shows "own_numbers {ssrc} K (headers out)"
proof -
  have "(0::u32) = word_of_nat 0" by simp
  then obtain n' where "n' \<le> 0 + n" "counted K 0 n' (headers out)"
    using assms(1) unfolding counter_numbers_def by blast
  moreover from this have "n' < 2 ^ 32" using assms(2) by linarith
  ultimately have d: "distinct (map ph_seq (filter (\<lambda>h. ph_kind h \<in> K) (headers out)))"
    using counted_distinct by blast
  have "\<forall>h \<in> set (headers out). ph_ssrc h = ssrc \<and> ph_kind h \<in> K"
    using assms(1) unfolding counter_numbers_def by blast
  then show ?thesis unfolding own_numbers_def using distinct_kinds distinct_by_kind [OF d] by blast
qed

lemma voice_own:
  assumes "voice_from L m out"
  shows "own_numbers {mb_voice_ssrc m} {media_kind.Voice, Keepalive} (headers out)"
proof -
  obtain t turns sh now enc sh' tx' where
    r: "run_tx L t (mb_voice_ssrc m) turns (sh, tx_start L enc now sh) = ((sh', tx'), out)" and n: "length turns < 2 ^ 32"
    using assms unfolding voice_from_def by (metis prod.exhaust)
  have start: "tx_pending (tx_start L enc now sh) = []" "tx_seq (tx_start L enc now sh) = word_of_nat 0"
    "tx_keepalive_seq (tx_start L enc now sh) = word_of_nat 0"
    by (simp_all add: tx_start_def)
  then have v: "voice_numbers (mb_voice_ssrc m) (length turns) (length turns) (tx_start L enc now sh) tx' out"
    by (intro run_tx_numbers [OF r]) simp
  then obtain n' k' where "n' \<le> 0 + length turns" "k' \<le> 0 + length turns"
    "counted {media_kind.Voice} 0 n' (headers out)" "counted {Keepalive} 0 k' (headers out)"
    using start(2,3) unfolding voice_numbers_def by blast
  moreover from this have "n' < 2 ^ 32" "k' < 2 ^ 32" using n by linarith+
  ultimately have d: "distinct (map ph_seq (filter (\<lambda>h. ph_kind h \<in> {media_kind.Voice}) (headers out)))"
    "distinct (map ph_seq (filter (\<lambda>h. ph_kind h \<in> {Keepalive}) (headers out)))"
    using counted_distinct by blast+
  have "\<forall>h \<in> set (headers out). ph_ssrc h = mb_voice_ssrc m \<and> ph_kind h \<in> {media_kind.Voice, Keepalive}"
    using v unfolding voice_numbers_def by blast
  moreover have "distinct (map ph_seq (filter (\<lambda>h. ph_kind h = k) (headers out)))"
    if "k \<in> {media_kind.Voice, Keepalive}" for k
    using that d by auto
  ultimately show ?thesis unfolding own_numbers_def using distinct_kinds by blast
qed

lemma share_own: "share_from A m out \<Longrightarrow> own_numbers {mb_screen_ssrc m} {VideoKey, VideoDelta} (headers out)"
  unfolding share_from_def using counter_own pump_numbers by (fastforce simp: wire_new_def)

lemma sound_own: 
  assumes "sound_from A opus m out"
  shows "own_numbers {mb_screen_ssrc m} {DesktopAudio} (headers out)"
  using assms unfolding sound_from_def
proof (elim disjE exE conjE)
  fix e t socket turns st
  assume s: "sound_pump A opus ([], packer_new e t (mb_screen_ssrc m) socket) turns = (st, out)" "read_bytes turns div 7680 < 2 ^ 32"
  obtain held pk r where st: "st = ((held, pk), r)" by (metis prod.exhaust)
  have "counter_numbers {DesktopAudio} (mb_screen_ssrc m) (read_bytes turns div 7680) 0 (pk_seq pk) out"
    using sound_pump_numbers [OF s(1) [unfolded st]] by (simp add: packer_new_def)
  then show ?thesis using s(2) by (rule counter_own)
next
  fix e t socket turns st
  assume s: "sound_stream A opus (packer_new e t (mb_screen_ssrc m) socket) turns = (st, out)" "heard_samples turns div 1920 < 2 ^ 32"
  obtain pk r where st: "st = (pk, r)" by (metis prod.exhaust)
  have "counter_numbers {DesktopAudio} (mb_screen_ssrc m) (heard_samples turns div 1920) 0 (pk_seq pk) out"
    using sound_stream_numbers [OF s(1) [unfolded st]] by (simp add: packer_new_def)
  then show ?thesis using s(2) by (rule counter_own)
qed

lemma distinct_nonces:
  "(\<And>k. distinct (map ph_seq (filter (\<lambda>h. ph_kind h = k) hs))) \<Longrightarrow> distinct (map nonce hs)"
proof (induction hs)
  case (Cons h hs)
  have "distinct (map ph_seq (filter (\<lambda>h. ph_kind h = k) hs))" for k
    using Cons.prems [of k] by (cases "ph_kind h = k") simp_all
  moreover have "nonce h \<notin> nonce ` set hs"
    using Cons.prems [of "ph_kind h"] by (auto simp: nonce_inject)
  ultimately show ?case using Cons.IH by simp
qed simp

lemma own_append:
  assumes xs: "own_numbers S K xs" and ys: "own_numbers S' K' ys" and K: "K \<inter> K' = {}"
  shows "own_numbers (S \<union> S') (K \<union> K') (xs @ ys)"
proof -
  have "distinct (map ph_seq (filter (\<lambda>h. ph_kind h = k) (xs @ ys)))" for k
  proof (cases "k \<in> K")
    case True
    then have "filter (\<lambda>h. ph_kind h = k) ys = []"
      using ys K by (auto simp: own_numbers_def filter_empty_conv)
    then show ?thesis using xs by (simp add: own_numbers_def)
  next
    case False
    then have "filter (\<lambda>h. ph_kind h = k) xs = []"
      using xs by (auto simp: own_numbers_def filter_empty_conv)
    then show ?thesis using ys by (simp add: own_numbers_def)
  qed
  then show ?thesis using xs ys by (auto simp: own_numbers_def)
qed

lemma member_own:
  assumes "voice_from L m v" "share_from A m p" "sound_from A opus m s"
  shows "\<exists>K. own_numbers {mb_voice_ssrc m, mb_screen_ssrc m} K (headers (v @ p @ s))"
proof -
  have "own_numbers {mb_screen_ssrc m} ({VideoKey, VideoDelta} \<union> {DesktopAudio}) (headers (p @ s))"
    using own_append [OF share_own [OF assms(2)] sound_own [OF assms(3)]] by simp
  from own_append [OF voice_own [OF assms(1)] this] show ?thesis by (auto simp: insert_commute)
qed

text \<open>
  Claim C4. In a call no nonce is used twice. In every reachable state of the hub, of the voice
  and keepalive packets, the pictures and the sound a member sends with each of its threads
  started once, none wrapping its counter, no two have a nonce in common, however they are
  interleaved and whatever the sockets refuse; and no two members ever share a nonce.
\<close>

theorem packets_have_their_own_nonces:
  assumes "hub_reachable st" and m: "hget (members st) u = Some m"
    and sends: "voice_from L m voice" "share_from A m pictures" "sound_from A opus m sound"
  shows "distinct (map nonce (headers (voice @ pictures @ sound)))
    \<and> (\<forall>w n voice' pictures' sound'. w \<noteq> u \<and> hget (members st) w = Some n \<and> voice_from L n voice'
        \<and> share_from A n pictures' \<and> sound_from A opus n sound' \<longrightarrow>
        set (map nonce (headers (voice @ pictures @ sound)))
          \<inter> set (map nonce (headers (voice' @ pictures' @ sound'))) = {})"
proof (intro conjI allI impI)
  obtain K where mine: "own_numbers {mb_voice_ssrc m, mb_screen_ssrc m} K (headers (voice @ pictures @ sound))"
    using member_own [OF sends] by blast
  then show "distinct (map nonce (headers (voice @ pictures @ sound)))"
    unfolding own_numbers_def by (intro distinct_nonces) blast
  fix w n voice' pictures' sound'
  assume other: "w \<noteq> u \<and> hget (members st) w = Some n \<and> voice_from L n voice'
        \<and> share_from A n pictures' \<and> sound_from A opus n sound'"
  then obtain K' where theirs: "own_numbers {mb_voice_ssrc n, mb_screen_ssrc n} K' (headers (voice' @ pictures' @ sound'))"
    using member_own by blast
  have "{mb_voice_ssrc m, mb_screen_ssrc m} \<inter> {mb_voice_ssrc n, mb_screen_ssrc n} = {}"
    using streams_apart [OF assms(1) m] other by blast
  then have "nonce g \<noteq> nonce h" if "g \<in> set (headers (voice @ pictures @ sound))"
      "h \<in> set (headers (voice' @ pictures' @ sound'))" for g h
    using that mine theirs unfolding own_numbers_def nonce_inject by (metis IntI empty_iff)
  then show "set (map nonce (headers (voice @ pictures @ sound)))
          \<inter> set (map nonce (headers (voice' @ pictures' @ sound'))) = {}"
    by fastforce
qed

lemma headers_sealed: "length p \<le> MAX_PAYLOAD \<Longrightarrow> headers [(a, sealed A key h p)] = [h]"
  by (auto simp: headers_def map_filter_def sealed_def seal_def Let_def decode_encode_append MAX_PAYLOAD_def
      MAX_DATAGRAM_def HEADER_LEN_def TAG_LEN_def split: prod.split)

lemma headers_datagrams: "fitting hps \<Longrightarrow> headers (datagrams A t hps) = map fst hps"
proof (induction hps)
  case (Cons hp hps)
  obtain h p where hp: "hp = (h, p)" by fastforce
  have "headers ((tr_relay t, sealed A (tr_key t) h p) # datagrams A t hps)
      = headers [(tr_relay t, sealed A (tr_key t) h p)] @ headers (datagrams A t hps)"
    using headers_simps(2) [of "[(tr_relay t, sealed A (tr_key t) h p)]" "datagrams A t hps"] by simp
  then show ?case using Cons headers_sealed [of p] by (simp add: hp fitting_def)
qed simp

lemma one_idr_shared:
  "\<exists>out. share_from toy_aead (fresh_member 0 (Id 10) 1 2\<lparr>mb_addr := Some addr_a\<rparr>) out
    \<and> (\<exists>h. headers out = [h] \<and> ph_ssrc h = 2 \<and> ph_kind h = VideoKey)"
proof -
  let ?p = "\<lparr>sp_data = [0, 0, 0, 1, 0x67, 9, 0, 0, 0, 1, 0x65, 5], sp_keyframe = True\<rparr>"
  let ?w = "wire_new at_relay 2 None 0 4000"
  obtain ax where f: "feed_reads default_annexb (map fst one_idr) = Some ([?p], ax)"
    using feed_reads_total [of "map fst one_idr"] unfolding one_idr_pictures by blast
  have ok: "\<forall>(bytes, ticks) \<in> set one_idr. bytes \<noteq> [] \<and> (\<forall>i j. mo_ok (ti_moments (ticks i) j))"
    by (simp add: one_idr_def)
  from pump_sends [OF toy_aead_laws ok f, of ?w] obtain w acts hps where
    p: "pump toy_aead (default_annexb, ?w) one_idr = Some ((ax, w), acts)"
    "outs acts = datagrams toy_aead at_relay hps" "fitting hps" "carries 2 [?p] hps"
    by (auto simp: sends_pictures_def wire_new_def)
  have one: "length (fragment (sp_data ?p)) = 1" by (simp add: length_fragment MAX_VIDEO_CHUNK_def)
  then have "fragments_of [?p] < 2 ^ 32" by (simp add: fragments_of_def)
  then have "share_from toy_aead (fresh_member 0 (Id 10) 1 2\<lparr>mb_addr := Some addr_a\<rparr>) (outs acts)"
    unfolding share_from_def using p(1) f by (fastforce simp: fresh_member_def)
  moreover have "length hps = 1" "ph_ssrc (fst (hps ! 0)) = 2" "ph_kind (fst (hps ! 0)) = VideoKey"
    using p(4) one by (auto simp: packets_of_def)
  then have "headers (outs acts) = [fst (hps ! 0)]"
    unfolding p(2) headers_datagrams [OF p(3)] by (cases hps) auto
  ultimately show ?thesis using \<open>ph_ssrc (fst (hps ! 0)) = 2\<close> \<open>ph_kind (fst (hps ! 0)) = VideoKey\<close> by blast
qed

theorem packets_have_their_own_nonces_witness:
  "\<exists>picture. headers [(tr_relay at_relay, sealed toy_aead (tr_key at_relay) (fst first_word) (snd first_word))] = [fst first_word]
    \<and> headers picture \<noteq> []
    \<and> distinct (map nonce (headers ([(tr_relay at_relay, sealed toy_aead (tr_key at_relay) (fst first_word) (snd first_word))]
          @ picture @ [])))"
proof -
  let ?m = "fresh_member 0 (Id 10) 1 2\<lparr>mb_addr := Some addr_a\<rparr>"
  let ?word = "[(tr_relay at_relay, sealed toy_aead (tr_key at_relay) (fst first_word) (snd first_word))]"
  have m: "hget (members call_state) (Id 1) = Some ?m" by (simp add: call_state_members)
  obtain picture where picture: "share_from toy_aead ?m picture" "headers picture \<noteq> []"
    using one_idr_shared by force
  have "length two_turns < 2 ^ 32" by (simp add: two_turns_def)
  then have voice: "voice_from counting_encoder ?m ?word"
    unfolding voice_from_def using two_turns_send by (fastforce simp: fresh_member_def)
  have "\<exists>e t socket turns st. sound_pump toy_aead (\<lambda>(e::unit) s. (None, e)) ([], packer_new e t (mb_screen_ssrc ?m) socket) turns = (st, [])
      \<and> read_bytes turns div 7680 < 2 ^ 32"
    by (rule exI [of _ "()"], rule exI [of _ at_relay], rule exI [of _ "\<lambda>_. True"], rule exI [of _ "[]"])
      (simp add: read_bytes_def)
  then have sound: "sound_from toy_aead (\<lambda>(e::unit) s. (None, e)) ?m []"
    unfolding sound_from_def by blast
  have "headers ?word = [fst first_word]" by (rule headers_sealed) (simp add: first_word_def MAX_PAYLOAD_def)
  with picture(2) packets_have_their_own_nonces [OF call_reachable m voice picture(1) sound] show ?thesis by blast
qed

section \<open>A second share\<close>

lemma fragment_first:
  assumes "data \<noteq> []"
  shows "\<exists>rest. fragment data = (0, word_of_nat (length (fragment data)), take MAX_VIDEO_CHUNK data) # rest"
proof -
  have "0 < length (fragment data)" by (rule fragments_positive [OF assms])
  then have "fragment data ! 0 = (0, word_of_nat (length (fragment data)), chunks MAX_VIDEO_CHUNK data ! 0)"
    by (simp add: fragment_nth)
  moreover have "chunks MAX_VIDEO_CHUNK data = take MAX_VIDEO_CHUNK data # chunks MAX_VIDEO_CHUNK (drop MAX_VIDEO_CHUNK data)"
    by (rule chunks_step) (simp_all add: assms MAX_VIDEO_CHUNK_def)
  ultimately show ?thesis using \<open>0 < length (fragment data)\<close> by (cases "fragment data") auto
qed

text \<open>The first datagram of a share.\<close>

lemma first_datagram:
  assumes "aead_laws A" "sp_data p \<noteq> []" "mo_ok (moments 0)"
  shows "\<exists>rest. outs (snd (put A rate now moments (wire_new t ssrc preview start kbps) p)) =
      (tr_relay t, sealed A (tr_key t)
        \<lparr>ph_kind = (if sp_keyframe p then VideoKey else VideoDelta), ph_ssrc = ssrc, ph_seq = 1,
         ph_timestamp = word_of_nat ((now - start) div 1000000)\<rparr>
        (write_fragment 0 (word_of_nat (length (fragment (sp_data p)))) (take MAX_VIDEO_CHUNK (sp_data p)) [])) # rest"
proof -
  let ?fresh = "wire_new t ssrc preview start kbps"
  let ?w = "offer_preview p (?fresh\<lparr>wr_pacer := aim_at rate (wr_pacer ?fresh), wr_frames := wr_frames ?fresh + 1\<rparr>)"
  let ?kind = "if sp_keyframe p then VideoKey else VideoDelta" and ?ts = "word_of_nat ((now - start) div 1000000) :: u32"
  let ?chunk = "take MAX_VIDEO_CHUNK (sp_data p)" and ?n = "word_of_nat (length (fragment (sp_data p))) :: u16"
  obtain rest where fr: "fragment (sp_data p) = (0, ?n, ?chunk) # rest" using fragment_first [OF assms(2)] by blast
  obtain w1 a1 where one: "put_fragment A ?kind ?ts ?w (moments 0) (0, ?n, ?chunk) = (w1, a1)" by fastforce
  have "(0, ?n, ?chunk) \<in> set (fragment (sp_data p))" using fr by (metis list.set_intros(1))
  then have "length (write_fragment 0 ?n ?chunk []) \<le> MAX_PAYLOAD" by (rule fragment_fits) (rule refl)
  from put_fragment_sends [OF assms(1,3) this one]
  have o1: "outs a1 = [(tr_relay t, sealed A (tr_key t)
      \<lparr>ph_kind = ?kind, ph_ssrc = ssrc, ph_seq = 1, ph_timestamp = ?ts\<rparr> (write_fragment 0 ?n ?chunk []))]"
    by (auto simp: offer_preview_def wire_new_def split: option.splits)
  obtain w2 a2 where two: "put_fragments A ?kind ?ts (moments \<circ> Suc) w1 rest = (w2, a2)" by fastforce
  have "wr_start ?w = start" by (auto simp: offer_preview_def wire_new_def split: option.splits)
  then have "put A rate now moments ?fresh p = put_fragments A ?kind ?ts moments ?w (fragment (sp_data p))"
    by (simp add: put_def Let_def)
  then have "put A rate now moments ?fresh p = put_fragments A ?kind ?ts moments ?w ((0, ?n, ?chunk) # rest)"
    unfolding fr [symmetric] .
  then have "outs (snd (put A rate now moments ?fresh p)) = outs a1 @ outs a2" using one two by simp
  then show ?thesis unfolding o1 by simp
qed

text \<open>
  Claim C5. A second share in one call uses the first one's nonces again. Whoever is in a call can
  start, stop and start a share: the hub gives both the stream it allocated when the member joined
  and the call keeps its key, while every share numbers from one. So the first datagrams of the
  two, whatever their pictures, are sealed under one key and one nonce when both pictures are
  keyframes, as the first of an encoder is, and different pieces of picture are different
  plaintexts. The module documentation of \<open>crates/boa-proto/src/media.rs\<close> calls this the one thing
  that must not happen.
\<close>

theorem a_second_share_repeats_nonces:
  assumes laws: "aead_laws A" and m: "hget (members st) u = Some m"
    and pictures: "sp_data p \<noteq> []" "sp_data q \<noteq> []" "sp_keyframe p" "sp_keyframe q"
    and sockets: "mo_ok (moments 0)" "mo_ok (moments' 0)"
    and shares: "start_screen st u rq = (Some first, st1)" "stop_screen st1 u = (c, st2)"
      "start_screen st2 u rq' = (Some second, st3)"
  shows "keys st3 = keys st \<and> (\<exists>g h pg ph a b.
      outs (snd (put A rate now moments (wire_new t (sh_ssrc first) preview start kbps) p)) = (tr_relay t, sealed A (tr_key t) g pg) # a
    \<and> outs (snd (put A rate' now' moments' (wire_new t (sh_ssrc second) preview' start' kbps') q)) = (tr_relay t, sealed A (tr_key t) h ph) # b
    \<and> nonce g = nonce h
    \<and> (take MAX_VIDEO_CHUNK (sp_data p) \<noteq> take MAX_VIDEO_CHUNK (sp_data q) \<longrightarrow> pg \<noteq> ph))"
proof -
  have first: "sh_ssrc first = mb_screen_ssrc m"
    "members st1 = hinsert u (m\<lparr>mb_screen := Some first\<rparr>) (members st)" "keys st1 = keys st"
    using shares(1) m by (auto simp: start_screen_def Let_def)
  have "hget (members st1) u = Some (m\<lparr>mb_screen := Some first\<rparr>)" unfolding first(2) by (simp add: hmap_simps)
  then have "keys st2 = keys st1" "\<exists>m2. hget (members st2) u = Some m2 \<and> mb_screen_ssrc m2 = mb_screen_ssrc m"
    using shares(2) by (auto simp: stop_screen_def Let_def hmap_simps)
  then have second: "sh_ssrc second = mb_screen_ssrc m" "keys st3 = keys st"
    using shares(3) first(3) by (auto simp: start_screen_def Let_def)
  let ?h = "\<lambda>ts. \<lparr>ph_kind = VideoKey, ph_ssrc = mb_screen_ssrc m, ph_seq = 1, ph_timestamp = word_of_nat (ts div 1000000)\<rparr>"
  let ?first = "\<lambda>p. write_fragment 0 (word_of_nat (length (fragment (sp_data p)))) (take MAX_VIDEO_CHUNK (sp_data p)) []"
  obtain a where g: "outs (snd (put A rate now moments (wire_new t (sh_ssrc first) preview start kbps) p)) =
      (tr_relay t, sealed A (tr_key t) (?h (now - start)) (?first p)) # a"
    using first_datagram [OF laws pictures(1), of moments rate now t "sh_ssrc first" preview start kbps] sockets(1) pictures(3) first(1)
    by auto
  obtain b where h: "outs (snd (put A rate' now' moments' (wire_new t (sh_ssrc second) preview' start' kbps') q)) =
      (tr_relay t, sealed A (tr_key t) (?h (now' - start')) (?first q)) # b"
    using first_datagram [OF laws pictures(2), of moments' rate' now' t "sh_ssrc second" preview' start' kbps'] sockets(2) pictures(4) second(1)
    by auto
  have "nonce (?h (now - start)) = nonce (?h (now' - start'))" by (simp add: nonce_def)
  moreover have "write_fragment 0 n x [] \<noteq> write_fragment 0 n' y []" if "x \<noteq> y" for n n' x y
    using that by (auto simp: write_fragment_def u16_to_be_def)
  ultimately show ?thesis using g h second(2) by blast
qed

theorem a_second_share_repeats_nonces_witness:
  "\<exists>g h pg ph a b first second st1 c st2 st3.
      start_screen call_state (Id 1) \<lparr>rq_width = 1280, rq_height = 720, rq_fps = 30, rq_kbps = 4000, rq_with_audio = False\<rparr> = (Some first, st1)
    \<and> stop_screen st1 (Id 1) = (c, st2)
    \<and> start_screen st2 (Id 1) \<lparr>rq_width = 640, rq_height = 360, rq_fps = 15, rq_kbps = 800, rq_with_audio = False\<rparr> = (Some second, st3)
    \<and> outs (snd (put toy_aead 4000 0 (\<lambda>_. \<lparr>mo_now = 0, mo_ok = True\<rparr>) (wire_new at_relay (sh_ssrc first) None 0 4000)
        \<lparr>sp_data = [1], sp_keyframe = True\<rparr>)) = (tr_relay at_relay, sealed toy_aead (tr_key at_relay) g pg) # a
    \<and> outs (snd (put toy_aead 800 7 (\<lambda>_. \<lparr>mo_now = 9, mo_ok = True\<rparr>) (wire_new at_relay (sh_ssrc second) None 5 800)
        \<lparr>sp_data = [2], sp_keyframe = True\<rparr>)) = (tr_relay at_relay, sealed toy_aead (tr_key at_relay) h ph) # b
    \<and> nonce g = nonce h \<and> pg \<noteq> ph"
proof -
  let ?m = "fresh_member 0 (Id 10) 1 2\<lparr>mb_addr := Some addr_a\<rparr>"
  let ?rq = "\<lparr>rq_width = 1280, rq_height = 720, rq_fps = 30, rq_kbps = 4000, rq_with_audio = False\<rparr>"
  let ?rq' = "\<lparr>rq_width = 640, rq_height = 360, rq_fps = 15, rq_kbps = 800, rq_with_audio = False\<rparr>"
  have m: "hget (members call_state) (Id 1) = Some ?m" by (simp add: call_state_members)
  obtain first st1 where s1: "start_screen call_state (Id 1) ?rq = (Some first, st1)"
    "hget (members st1) (Id 1) = Some (?m\<lparr>mb_screen := Some first\<rparr>)"
    using m by (auto simp: start_screen_def Let_def hmap_simps)
  obtain c st2 m2 where s2: "stop_screen st1 (Id 1) = (c, st2)" "hget (members st2) (Id 1) = Some m2"
    using s1(2) by (auto simp: stop_screen_def Let_def hmap_simps)
  obtain second st3 where s3: "start_screen st2 (Id 1) ?rq' = (Some second, st3)"
    using s2(2) by (auto simp: start_screen_def Let_def)
  have differ: "take MAX_VIDEO_CHUNK [1::byte] \<noteq> take MAX_VIDEO_CHUNK [2]" by (simp add: MAX_VIDEO_CHUNK_def)
  from a_second_share_repeats_nonces [OF toy_aead_laws m _ _ _ _ _ _ s1(1) s2(1) s3,
      of "\<lparr>sp_data = [1], sp_keyframe = True\<rparr>" "\<lparr>sp_data = [2], sp_keyframe = True\<rparr>"
         "\<lambda>_. \<lparr>mo_now = 0, mo_ok = True\<rparr>" "\<lambda>_. \<lparr>mo_now = 9, mo_ok = True\<rparr>" 4000 0 at_relay None 0 4000 800 7 None 5 800]
    differ s1(1) s2(1) s3 show ?thesis by (simp only: share_picture.simps moment.simps) blast
qed

end
