(* ===== verification/Native.thy ===== *)
theory Native
  imports AnnexbProps ShareCall Floats
begin

text \<open>
  The sharing side on macOS, in this process: \<open>screen/mac/capture.rs\<close> and \<open>encode.rs\<close> of
  \<open>crates/boa-client/src\<close>, and the ends of \<open>screen/send.rs\<close> that meet them. ScreenCaptureKit and
  VideoToolbox are the environment: what they deliver is an argument, and the encoder a
  function of its session and of what it is given. Times are in nanoseconds.
\<close>

section \<open>Encoded pictures\<close>

text \<open>
  A sample buffer: its bytes, unless there are none or they cannot be read; and its format
  description, with what each parameter set is read as, unless there is none or the first cannot be
  asked for.
\<close>

record sample =
  sm_data :: "byte list option"
  sm_format :: "byte list option list option"

record encoded =
  en_data :: "byte list"
  en_keyframe :: bool

text \<open>Four-byte lengths into start codes, \<open>None\<close> where they do not fit the bytes.\<close>

function avcc_slices :: "byte list \<Rightarrow> byte list option" where
  "avcc_slices avcc =
     (if length avcc < 4 then Some []
      else let n = unat (u32_from_be (avcc ! 0) (avcc ! 1) (avcc ! 2) (avcc ! 3));
               rest = drop 4 avcc
           in if n = 0 \<or> n > length rest then None
              else map_option (\<lambda>slices. [0, 0, 0, 1] @ take n rest @ slices) (avcc_slices (drop n rest)))"
  by pat_completeness auto
termination by (relation "measure length") auto

declare avcc_slices.simps [simp del]

fun has_idr :: "byte list \<Rightarrow> bool" where
  "has_idr (a # b # c # d # e # bytes) \<longleftrightarrow>
     [a, b, c, d] = [0, 0, 0, 1] \<and> e AND 0x1F = 5 \<or> has_idr (b # c # d # e # bytes)"
| "has_idr _ \<longleftrightarrow> False"

definition parameter_sets :: "sample \<Rightarrow> byte list list" where
  "parameter_sets s =
     (case sm_format s of
        None \<Rightarrow> []
      | Some sets \<Rightarrow> filter (\<lambda>set. set \<noteq> []) (List.map_filter (\<lambda>set. set) sets))"

definition annexb_of :: "sample \<Rightarrow> encoded option" where
  "annexb_of s =
     (case sm_data s of
        None \<Rightarrow> None
      | Some avcc \<Rightarrow>
          (case avcc_slices avcc of
             None \<Rightarrow> None
           | Some coded \<Rightarrow>
               let keyframe = has_idr coded;
                   data = (if keyframe then concat (map (\<lambda>set. [0, 0, 0, 1] @ set) (parameter_sets s)) else [])
               in Some \<lparr>en_data = data @ coded, en_keyframe = keyframe\<rparr>))"

text \<open>The encoder's callback, over the pictures that wait in a queue of some depth.\<close>

definition ENCODED_QUEUE :: nat where "ENCODED_QUEUE = 6"
definition CAPTURED_QUEUE :: nat where "CAPTURED_QUEUE = 8"

definition on_encoded :: "nat \<Rightarrow> int \<Rightarrow> sample option \<Rightarrow> encoded list \<Rightarrow> encoded list" where
  "on_encoded depth status s queue =
     (if status \<noteq> 0 then queue
      else case s of
             None \<Rightarrow> queue
           | Some s \<Rightarrow>
               (case annexb_of s of
                  Some picture \<Rightarrow> if length queue < depth then queue @ [picture] else queue
                | None \<Rightarrow> queue))"

section \<open>The encoder and the capture\<close>

text \<open>
  The session is given an image, a time and a duration in microseconds, and whether to make a
  keyframe; it says whether it took the image.
\<close>

type_synonym ('v, 'i) video_toolbox = "'v \<Rightarrow> 'i \<Rightarrow> bool \<Rightarrow> nat \<Rightarrow> nat \<Rightarrow> bool \<times> 'v"

record 'v encoder =
  ec_session :: 'v
  ec_fps :: u32

definition encode_image ::
  "('v, 'i) video_toolbox \<Rightarrow> 'v encoder \<Rightarrow> 'i \<Rightarrow> bool \<Rightarrow> nat \<Rightarrow> bool \<times> 'v encoder" where
  "encode_image vt ec img force_keyframe at =
     (let (took, session) = vt (ec_session ec) img force_keyframe (at div 1000) (1000000 div unat (max (ec_fps ec) 1))
      in (took, ec\<lparr>ec_session := session\<rparr>))"

definition HEARTBEAT :: nat where "HEARTBEAT = 500000000"

record ('v, 'i) heartbeat =
  hb_encoder :: "'v encoder"
  hb_last :: "'i option"
  hb_fed :: nat
  hb_began :: nat
  hb_frames :: u64
  hb_keyframe :: bool
  hb_stop :: bool

definition heartbeat_new :: "'v encoder \<Rightarrow> nat \<Rightarrow> ('v, 'i) heartbeat" where
  "heartbeat_new ec now =
     \<lparr>hb_encoder = ec, hb_last = None, hb_fed = now, hb_began = now, hb_frames = 0, hb_keyframe = True, hb_stop = False\<rparr>"

text \<open>\<open>now\<close> is the clock on entry, \<open>after\<close> when the encoder has taken the image.\<close>

definition heartbeat_feed ::
  "('v, 'i) video_toolbox \<Rightarrow> nat \<Rightarrow> nat \<Rightarrow> 'i \<Rightarrow> bool \<Rightarrow> ('v, 'i) heartbeat \<Rightarrow> ('v, 'i) heartbeat" where
  "heartbeat_feed vt now after img force_keyframe hb =
     (let at = now - hb_began hb;
          (took, ec) = encode_image vt (hb_encoder hb) img force_keyframe at;
          hb = hb\<lparr>hb_encoder := ec\<rparr>
      in if took then hb\<lparr>hb_fed := after\<rparr> else hb)"

text \<open>A frame of the window server; one without an image says that nothing changed.\<close>

definition did_output ::
  "('v, 'i) video_toolbox \<Rightarrow> nat \<Rightarrow> nat \<Rightarrow> 'i option \<Rightarrow> ('v, 'i) heartbeat \<Rightarrow> ('v, 'i) heartbeat" where
  "did_output vt now after img hb =
     (case img of
        None \<Rightarrow> hb
      | Some img \<Rightarrow>
          let force = hb_keyframe hb;
              hb = hb\<lparr>hb_keyframe := False\<rparr>;
              hb = hb\<lparr>hb_frames := hb_frames hb + 1\<rparr>;
              hb = heartbeat_feed vt now after img force hb
          in hb\<lparr>hb_last := Some img\<rparr>)"

text \<open>What one turn of the heartbeat's loop does after its sleep.\<close>

definition keep_alive ::
  "('v, 'i) video_toolbox \<Rightarrow> nat \<Rightarrow> nat \<Rightarrow> ('v, 'i) heartbeat \<Rightarrow> ('v, 'i) heartbeat" where
  "keep_alive vt now after hb =
     (if hb_stop hb then hb
      else let idle = now - hb_fed hb
           in if idle < HEARTBEAT then hb
              else case hb_last hb of
                     None \<Rightarrow> hb
                   | Some img \<Rightarrow> heartbeat_feed vt now after img False hb)"

definition want_keyframe :: "('v, 'i) heartbeat \<Rightarrow> ('v, 'i) heartbeat" where
  "want_keyframe hb = hb\<lparr>hb_keyframe := True\<rparr>"

definition stop_heartbeat :: "('v, 'i) heartbeat \<Rightarrow> ('v, 'i) heartbeat" where
  "stop_heartbeat hb = hb\<lparr>hb_stop := True\<rparr>"

text \<open>
  The sound: at most two buffers, each with its number of channels and its samples, unless it
  points nowhere.
\<close>

fun interleave :: "'a list \<Rightarrow> 'a list \<Rightarrow> 'a list" where
  "interleave (l # left) (r # right) = l # r # interleave left right"
| "interleave _ _ = []"

definition heard_samples_of :: "(u32 \<times> f32bits list option) list \<Rightarrow> f32bits list option" where
  "heard_samples_of list =
     (let buffers = take 2 list
      in case List.map_filter snd buffers of
           [left, right] \<Rightarrow> Some (interleave left right)
         | [only] \<Rightarrow>
             if fst (buffers ! 0) \<ge> 2 then Some only else Some (concat (map (\<lambda>sample. [sample, sample]) only))
         | _ \<Rightarrow> None)"

definition SOUND_QUEUE :: nat where "SOUND_QUEUE = 16"

text \<open>\<open>None\<close> stands for a status that is not zero, or for no queue.\<close>

definition did_hear ::
  "(u32 \<times> f32bits list option) list option \<Rightarrow> f32bits list list option \<Rightarrow> f32bits list list option" where
  "did_hear list sound =
     (case (sound, list) of
        (Some queue, Some list) \<Rightarrow>
          (case heard_samples_of list of
             Some interleaved \<Rightarrow>
               if interleaved = [] then Some queue
               else if length queue < SOUND_QUEUE then Some (queue @ [interleaved]) else Some queue
           | None \<Rightarrow> Some queue)
      | (sound, _) \<Rightarrow> sound)"

section \<open>The size of the picture\<close>

definition MAX_DIMENSION :: u32 where "MAX_DIMENSION = 3840"

definition fl_min :: "flt \<Rightarrow> flt \<Rightarrow> flt" where
  "fl_min x y = (if x = Nan then y else if y = Nan then x else if fl_le x y then x else y)"

text \<open>\<open>value.round() as u32\<close>: half away from zero, saturating.\<close>

fun u32_rounded :: "flt \<Rightarrow> u32" where
  "u32_rounded Nan = 0"
| "u32_rounded (Infinite s) = (if s then 0 else - 1)"
| "u32_rounded (Finite s m e) =
     (let n = fl_trunc (if e \<ge> 0 then m else m + 2 ^ nat (- e) div 2) e
      in if s then 0 else if n \<ge> 2 ^ 32 then - 1 else of_nat n)"

definition even_edge :: "flt \<Rightarrow> u32" where
  "even_edge value = (max (u32_rounded value) 2 div 2) * 2"

definition u32_clamp_edge :: "u32 \<Rightarrow> u32" where
  "u32_clamp_edge x = max 2 (min x MAX_DIMENSION)"

definition fit :: "u32 \<Rightarrow> u32 \<Rightarrow> u32 \<Rightarrow> u32 \<Rightarrow> u32 \<times> u32" where
  "fit width height max_width max_height =
     (let max_width = u32_clamp_edge max_width;
          max_height = u32_clamp_edge max_height;
          (width, height) = (max width 2, max height 2);
          f64 = (\<lambda>x :: u32. Finite False (unat x) 0);
          scale = fl_min (fl_min (fl_div binary64 (f64 max_width) (f64 width)) (fl_div binary64 (f64 max_height) (f64 height)))
                    (f64 1)
      in (even_edge (fl_mul binary64 (f64 width) scale), even_edge (fl_mul binary64 (f64 height) scale)))"

section \<open>Onto the wire\<close>

text \<open>What one turn of the sending thread meets: the stop flag, and what the receive gives.\<close>

datatype collected = Collected encoded | Not_yet | Disconnected

fun pump_pictures ::
  "aead \<Rightarrow> wire \<Rightarrow> (bool \<times> tick \<times> collected) list \<Rightarrow> wire \<times> act list" where
  "pump_pictures A w [] = (w, [])"
| "pump_pictures A w ((stopped, t, got) # turns) =
     (if stopped then (w, [])
      else case got of
             Collected picture \<Rightarrow>
               let (w, out) = put A (ti_rate t) (ti_now t) (ti_moments t) w
                                \<lparr>sp_data = en_data picture, sp_keyframe = en_keyframe picture\<rparr>;
                   (w, rest) = pump_pictures A w turns
               in (w, out @ rest)
           | Not_yet \<Rightarrow> pump_pictures A w turns
           | Disconnected \<Rightarrow> (w, []))"

section \<open>A share that runs\<close>

text \<open>
  The handle the interface holds. The engine is a capture in this process, with what stopped it, or a
  child process; the sound is the name of its device and its count of packets. Changing the
  rate of a running session is the environment's.
\<close>

datatype ('v, 'i) engine = Native_engine "('v, 'i) heartbeat" "rstring option" | Ffmpeg_engine

record ('v, 'i) share =
  sr_engine :: "('v, 'i) engine"
  sr_rate :: u32
  sr_audio :: "(rstring \<times> u64) option"

definition audio_device :: "('v, 'i) share \<Rightarrow> rstring option" where
  "audio_device s = map_option fst (sr_audio s)"

definition audio_packets :: "('v, 'i) share \<Rightarrow> u64" where
  "audio_packets s = (case sr_audio s of Some (_, packets) \<Rightarrow> packets | None \<Rightarrow> 0)"

definition native :: "('v, 'i) share \<Rightarrow> bool" where
  "native s = (case sr_engine s of Native_engine _ _ \<Rightarrow> True | Ffmpeg_engine \<Rightarrow> False)"

definition share_trouble :: "('v, 'i) share \<Rightarrow> rstring option" where
  "share_trouble s = (case sr_engine s of Native_engine _ why \<Rightarrow> why | Ffmpeg_engine \<Rightarrow> None)"

definition set_bitrate :: "('v \<Rightarrow> u32 \<Rightarrow> 'v) \<Rightarrow> u32 \<Rightarrow> ('v, 'i) share \<Rightarrow> ('v, 'i) share" where
  "set_bitrate set_rate kbps s =
     (let s = s\<lparr>sr_rate := kbps\<rparr>
      in case sr_engine s of
           Native_engine hb why \<Rightarrow>
             let ec = hb_encoder hb
             in s\<lparr>sr_engine := Native_engine (hb\<lparr>hb_encoder := ec\<lparr>ec_session := set_rate (ec_session ec) kbps\<rparr>\<rparr>) why\<rparr>
         | Ffmpeg_engine \<Rightarrow> s)"

definition bitrate :: "('v, 'i) share \<Rightarrow> u32" where
  "bitrate s = sr_rate s"

definition share_want_keyframe :: "('v, 'i) share \<Rightarrow> ('v, 'i) share" where
  "share_want_keyframe s =
     (case sr_engine s of
        Native_engine hb why \<Rightarrow> s\<lparr>sr_engine := Native_engine (want_keyframe hb) why\<rparr>
      | Ffmpeg_engine \<Rightarrow> s)"

text \<open>
  The sound of a share: from the capture where it has a sound output, else from a loopback
  device. The handle of the socket is \<open>None\<close> if it could not be cloned; a failure is a sentence.
\<close>

definition native_sound ::
  "bool \<Rightarrow> 't option \<Rightarrow> 'r option \<Rightarrow> ('t \<Rightarrow> 'r \<Rightarrow> rstring + 'a) \<Rightarrow> 'a option \<times> rstring option" where
  "native_sound with_audio for_audio sound from_stream =
     (case (for_audio, sound) of
        (Some t, Some r) \<Rightarrow> (case from_stream t r of Inr a \<Rightarrow> (Some a, None) | Inl err \<Rightarrow> (None, Some err))
      | (Some _, None) \<Rightarrow>
          if with_audio then (None, Some (str ''the capture produced no sound output'')) else (None, None)
      | _ \<Rightarrow> (None, None))"

definition loopback_sound ::
  "bool \<Rightarrow> 't option \<Rightarrow> (rstring + 'l) \<Rightarrow> ('t \<Rightarrow> 'l \<Rightarrow> rstring + 'a) \<Rightarrow> 'a option \<times> rstring option" where
  "loopback_sound with_audio for_audio find_loopback start =
     (case (with_audio, for_audio) of
        (True, Some t) \<Rightarrow>
          (case find_loopback of
             Inr loopback \<Rightarrow> (case start t loopback of Inr a \<Rightarrow> (Some a, None) | Inl err \<Rightarrow> (None, Some err))
           | Inl advice \<Rightarrow> (None, Some advice))
      | (True, None) \<Rightarrow> (None, Some (str ''the media socket could not be shared''))
      | (False, _) \<Rightarrow> (None, None))"

section \<open>What is encoded is what is sent\<close>

text \<open>Units with their lengths in front, as the encoder writes them.\<close>

definition avcc_of :: "byte list list \<Rightarrow> byte list" where
  "avcc_of us = concat (map (\<lambda>u. u32_to_be (word_of_nat (length u)) @ u) us)"

lemma avcc_slices_of:
  assumes "\<forall>u \<in> set us. u \<noteq> [] \<and> length u < 2 ^ 32" "length rest < 4"
  shows "avcc_slices (avcc_of us @ rest) = Some (concat (map (\<lambda>u. 0 # 0 # 0 # 1 # u) us))"
  using assms(1)
proof (induction us)
  case Nil
  then show ?case using assms(2) by (simp add: avcc_of_def avcc_slices.simps)
next
  case (Cons u us)
  let ?w = "word_of_nat (length u) :: u32"
  have n: "unat ?w = length u" using Cons.prems by (simp add: unsigned_of_nat take_bit_nat_eq_self)
  obtain a b c d where w: "u32_to_be ?w = [a, b, c, d]" "u32_from_be a b c d = ?w"
    using u32_from_to_be [of ?w] by (simp add: u32_to_be_def)
  have "avcc_of (u # us) @ rest = [a, b, c, d] @ u @ avcc_of us @ rest" by (simp add: avcc_of_def w(1))
  then show ?case using Cons.IH Cons.prems n w(2)
    by (subst avcc_slices.simps) (simp add: Let_def)
qed

lemma has_idr_iff: "has_idr bs \<longleftrightarrow> (\<exists>xs k ys. bs = xs @ [0, 0, 0, 1, k] @ ys \<and> k AND 0x1F = 5)"
proof (induction bs rule: has_idr.induct)
  case (1 a b c d e bs)
  have "(\<exists>xs k ys. a # b # c # d # e # bs = xs @ [0, 0, 0, 1, k] @ ys \<and> k AND 0x1F = 5) \<longleftrightarrow>
      [a, b, c, d] = [0, 0, 0, 1] \<and> e AND 0x1F = 5 \<or>
      (\<exists>xs k ys. b # c # d # e # bs = xs @ [0, 0, 0, 1, k] @ ys \<and> k AND 0x1F = 5)" (is "?l \<longleftrightarrow> ?h \<or> ?t")
  proof
    assume ?l
    then obtain xs k ys where x: "a # b # c # d # e # bs = xs @ [0, 0, 0, 1, k] @ ys" "k AND 0x1F = 5" by blast
    then show "?h \<or> ?t" by (cases xs) auto
  next
    assume "?h \<or> ?t"
    then show ?l
    proof
      assume ?h
      then show ?l by (intro exI [of _ "[]"] exI [of _ e] exI [of _ bs]) simp
    next
      assume ?t
      then obtain xs k ys where "b # c # d # e # bs = xs @ [0, 0, 0, 1, k] @ ys" "k AND 0x1F = 5" by blast
      then show ?l by (intro exI [of _ "a # xs"] exI [of _ k] exI [of _ ys]) simp
    qed
  qed
  then show ?case using 1 by simp
qed (auto simp: append_eq_Cons_conv)

text \<open>Units no start code can be read into: none inside, no zero at the end.\<close>

lemma annexb_stream_ones: "annexb_stream (map (Pair 1) us) = concat (map (\<lambda>u. 0 # 0 # 0 # 1 # u) us)"
  by (induction us) (simp_all add: annexb_stream_def)

text \<open>A start code of four bytes in a stream of such units is one of those between them.\<close>

lemma proper_no_code:
  "segments u = (u, []) \<Longrightarrow> u \<noteq> xs @ [0, 0, 1] @ ys"
proof (induction u arbitrary: xs)
  case (Cons x u)
  have not_code: "\<not> (x = 0 \<and> take 2 u = [0, 1])" and rest: "segments u = (u, [])"
    using Cons.prems by (auto split: if_splits prod.splits)
  show ?case using not_code Cons.IH [OF rest] by (cases xs) auto
qed simp

lemma code_at_head:
  assumes "proper_unit u" "u @ rest = xs @ [0, 0, 0, 1, k] @ ys" "rest = [] \<or> (\<exists>r. rest = 0 # 0 # 0 # 1 # r)"
  shows "\<exists>xs'. xs = u @ xs' \<and> rest = xs' @ [0, 0, 0, 1, k] @ ys"
proof -
  have u: "segments u = (u, [])" "u \<noteq> []" "last u \<noteq> 0" using assms(1) by (auto simp: proper_unit_def)
  obtain us where "u = xs @ us \<and> us @ rest = [0, 0, 0, 1, k] @ ys \<or> xs = u @ us \<and> rest = us @ [0, 0, 0, 1, k] @ ys"
    using assms(2) unfolding append_eq_append_conv2 by blast
  then consider (after) "xs = u @ us" "rest = us @ [0, 0, 0, 1, k] @ ys"
    | (whole) "us = []" "xs = u" "rest = [0, 0, 0, 1, k] @ ys"
    | (inside) "us \<noteq> []" "u = xs @ us" "us @ rest = [0, 0, 0, 1, k] @ ys"
    by (cases us) auto
  then show ?thesis
  proof cases
    case inside
    have "last us \<noteq> 0" using inside(1,2) u(3) by simp
    then have some: "\<not> set us \<subseteq> {0}" using inside(1) last_in_set by blast
    from inside(1,3) have "set us \<subseteq> {0} \<or> (\<exists>us'. us = [0, 0, 0, 1] @ us')"
      by (auto simp: append_eq_Cons_conv)
    then obtain us' where "us = [0, 0, 0, 1] @ us'" using some by blast
    then have "u = (xs @ [0]) @ [0, 0, 1] @ us'" using inside(2) by simp
    then show ?thesis using proper_no_code [OF u(1)] by blast
  qed auto
qed

abbreviation coded :: "byte list list \<Rightarrow> byte list" where
  "coded us \<equiv> concat (map (\<lambda>u. 0 # 0 # 0 # 1 # u) us)"

lemma has_idr_stream:
  "\<forall>u \<in> set us. proper_unit u \<Longrightarrow> has_idr (coded us) \<longleftrightarrow> (\<exists>u \<in> set us. hd u AND 0x1F = 5)"
proof (induction us)
  case (Cons u us)
  have u: "proper_unit u" "u \<noteq> []" using Cons.prems by (auto simp: proper_unit_def)
  have rest: "coded us = [] \<or> (\<exists>r. coded us = 0 # 0 # 0 # 1 # r)" by (cases us) auto
  have "has_idr (coded (u # us)) \<longleftrightarrow> hd u AND 0x1F = 5 \<or> has_idr (coded us)"
  proof
    assume "has_idr (coded (u # us))"
    then obtain xs k ys where x: "0 # 0 # 0 # 1 # u @ coded us = xs @ [0, 0, 0, 1, k] @ ys" "k AND 0x1F = 5"
      unfolding has_idr_iff by auto
    have "xs = [] \<or> (\<exists>xs'. xs = 0 # 0 # 0 # 1 # xs')"
      using x(1) by (auto simp: Cons_eq_append_conv)
    then show "hd u AND 0x1F = 5 \<or> has_idr (coded us)"
    proof
      assume "xs = []"
      then show ?thesis using x u(2) by (cases u) auto
    next
      assume "\<exists>xs'. xs = 0 # 0 # 0 # 1 # xs'"
      then obtain xs' where "u @ coded us = xs' @ [0, 0, 0, 1, k] @ ys" using x(1) by auto
      from code_at_head [OF u(1) this rest] x(2) show ?thesis unfolding has_idr_iff by blast
    qed
  next
    assume "hd u AND 0x1F = 5 \<or> has_idr (coded us)"
    then show "has_idr (coded (u # us))"
    proof
      assume "hd u AND 0x1F = 5"
      then show ?thesis unfolding has_idr_iff using u(2)
        by (intro exI [of _ "[]"] exI [of _ "hd u"] exI [of _ "tl u @ coded us"]) simp
    next
      assume "has_idr (coded us)"
      then obtain xs k ys where "coded us = xs @ [0, 0, 0, 1, k] @ ys" "k AND 0x1F = 5" unfolding has_idr_iff by blast
      then show ?thesis unfolding has_idr_iff
        by (intro exI [of _ "[0, 0, 0, 1] @ u @ xs"] exI [of _ k] exI [of _ ys]) simp
    qed
  qed
  then show ?case using Cons by simp
qed simp

lemma coded_units:
  assumes "\<forall>u \<in> set us. proper_unit u"
  shows "complete_units (coded us @ [0, 0, 1]) = us"
proof -
  have "\<forall>(k, u) \<in> set (map (Pair 1) us). proper_unit u" using assms by auto
  from segments_stream [OF this] show ?thesis
    by (auto simp: complete_units_def comp_def simp flip: annexb_stream_ones)
qed

lemma avcc_slices_bad:
  assumes "\<forall>u \<in> set us. u \<noteq> [] \<and> length u < 2 ^ 32" "unat n = 0 \<or> unat n > length short"
  shows "avcc_slices (avcc_of us @ u32_to_be n @ short) = None"
  using assms(1)
proof (induction us)
  case Nil
  obtain a b c d where "u32_to_be n = [a, b, c, d]" "u32_from_be a b c d = n"
    using u32_from_to_be [of n] by (simp add: u32_to_be_def)
  then show ?case using assms(2) by (subst avcc_slices.simps) (simp add: avcc_of_def Let_def)
next
  case (Cons u us)
  let ?w = "word_of_nat (length u) :: u32"
  have n: "unat ?w = length u" using Cons.prems by (simp add: unsigned_of_nat take_bit_nat_eq_self)
  obtain a b c d where w: "u32_to_be ?w = [a, b, c, d]" "u32_from_be a b c d = ?w"
    using u32_from_to_be [of ?w] by (simp add: u32_to_be_def)
  have "avcc_of (u # us) @ u32_to_be n @ short = [a, b, c, d] @ u @ avcc_of us @ u32_to_be n @ short"
    by (simp add: avcc_of_def w(1))
  then show ?case using Cons.IH Cons.prems n w(2)
    by (subst avcc_slices.simps) (simp add: Let_def)
qed

lemma coded_start: "concat (map ((@) [0, 0, 0, 1]) us) = coded us"
  by (induction us) simp_all

text \<open>
  The encoder's callbacks and the turns of the sending thread, in any order. A turn that finds a
  picture waiting takes it; \<open>accepted\<close> are the pictures that found room in the queue.
\<close>

datatype native_event = Called_back int "sample option" | Turn tick

definition native_event ::
  "aead \<Rightarrow> nat \<Rightarrow> native_event \<Rightarrow> encoded list \<times> wire \<Rightarrow> (encoded list \<times> wire) \<times> act list" where
  "native_event A depth e st =
     (case (e, st) of
        (Called_back status s, (queue, w)) \<Rightarrow> ((on_encoded depth status s queue, w), [])
      | (Turn t, (queue, w)) \<Rightarrow>
          (case queue of
             [] \<Rightarrow> (case pump_pictures A w [(False, t, Not_yet)] of (w, out) \<Rightarrow> (([], w), out))
           | p # queue \<Rightarrow> (case pump_pictures A w [(False, t, Collected p)] of (w, out) \<Rightarrow> ((queue, w), out))))"

fun native_run ::
  "aead \<Rightarrow> nat \<Rightarrow> native_event list \<Rightarrow> encoded list \<times> wire \<Rightarrow> (encoded list \<times> wire) \<times> act list" where
  "native_run A depth [] st = (st, [])"
| "native_run A depth (e # es) st =
     (let (st, out) = native_event A depth e st; (st, rest) = native_run A depth es st in (st, out @ rest))"

fun accepted :: "nat \<Rightarrow> nat \<Rightarrow> native_event list \<Rightarrow> encoded list" where
  "accepted depth waiting [] = []"
| "accepted depth waiting (Called_back status s # es) =
     (case if status = 0 then Option.bind s annexb_of else None of
        Some p \<Rightarrow> if waiting < depth then p # accepted depth (Suc waiting) es else accepted depth waiting es
      | None \<Rightarrow> accepted depth waiting es)"
| "accepted depth waiting (Turn t # es) = accepted depth (waiting - 1) es"

abbreviation to_share :: "encoded \<Rightarrow> share_picture" where
  "to_share p \<equiv> \<lparr>sp_data = en_data p, sp_keyframe = en_keyframe p\<rparr>"

lemma native_turn_sends:
  assumes "aead_laws A" "\<And>i. mo_ok (ti_moments t i)"
  shows "\<exists>w' acts. pump_pictures A w [(False, t, Collected p)] = (w', acts) \<and> sends_pictures A w w' [to_share p] acts"
proof -
  obtain w' acts where one: "put A (ti_rate t) (ti_now t) (ti_moments t) w (to_share p) = (w', acts)" by fastforce
  from put_sends [OF assms one] have "sends_pictures A w w' [to_share p] acts" by (auto simp: sends_pictures_def)
  then show ?thesis using one by simp
qed

lemma native_run_sends:
  assumes "aead_laws A"
  shows "(\<And>t i. Turn t \<in> set events \<Longrightarrow> mo_ok (ti_moments t i)) \<Longrightarrow> native_run A depth events (queue, w) = ((queue', w'), acts) \<Longrightarrow>
    \<exists>sent. queue @ accepted depth (length queue) events = sent @ queue' \<and> sends_pictures A w w' (map to_share sent) acts"
proof (induction events arbitrary: queue w acts)
  case (Cons e es)
  have rest: "\<And>t i. Turn t \<in> set es \<Longrightarrow> mo_ok (ti_moments t i)" using Cons.prems(1) by simp
  show ?case
  proof (cases e)
    case (Called_back status s)
    have "native_run A depth es (on_encoded depth status s queue, w) = ((queue', w'), acts)"
      using Cons.prems(2) by (auto simp: Called_back native_event_def Let_def split: prod.splits)
    from Cons.IH [OF rest this] show ?thesis
      by (cases s) (auto simp: Called_back on_encoded_def split: option.splits if_splits)
  next
    case (Turn t)
    show ?thesis
    proof (cases queue)
      case Nil
      then have "native_run A depth es ([], w) = ((queue', w'), acts)"
        using Cons.prems(2) by (auto simp: Turn native_event_def Let_def split: prod.splits)
      from Cons.IH [OF rest this] show ?thesis by (simp add: Turn Nil)
    next
      case q: (Cons p ps)
      obtain w1 a1 where one: "pump_pictures A w [(False, t, Collected p)] = (w1, a1)" "sends_pictures A w w1 [to_share p] a1"
        using native_turn_sends [OF assms Cons.prems(1)] Turn by (metis list.set_intros(1))
      obtain st a2 where two: "native_run A depth es (ps, w1) = (st, a2)" by fastforce
      then have "native_run A depth es (ps, w1) = ((queue', w'), a2)" "acts = a1 @ a2"
        using Cons.prems(2) unfolding Turn q by (simp_all add: native_event_def one(1) del: pump_pictures.simps)
      from Cons.IH [OF rest this(1)] obtain sent where s: "ps @ accepted depth (length ps) es = sent @ queue'"
        "sends_pictures A w1 w' (map to_share sent) a2" by blast
      have "sends_pictures A w w' (map to_share (p # sent)) acts"
        using sends_pictures_append [OF one(2) s(2)] \<open>acts = a1 @ a2\<close> by simp
      then show ?thesis using s(1) by (intro exI [of _ "p # sent"]) (simp add: Turn q)
    qed
  qed
qed (auto intro: exI [of _ "[]"])


text \<open>A parameter set, an IDR slice and a delta; one callback, and a turn that takes what it left.\<close>

definition one_sample :: sample where
  "one_sample = \<lparr>sm_data = Some [0, 0, 0, 2, 0x65, 5, 0, 0, 0, 1, 0x41], sm_format = Some [Some [0x67, 9]]\<rparr>"

definition calm_turn :: tick where
  "calm_turn = \<lparr>ti_rate = 4000, ti_now = 0, ti_moments = (\<lambda>_. \<lparr>mo_now = 0, mo_ok = True\<rparr>)\<rparr>"


section \<open>A still screen\<close>

text \<open>
  An encoder that takes every image and remembers what it was given: the image, whether as a
  keyframe, and when.
\<close>

definition taking :: "('i \<times> bool \<times> nat) list \<Rightarrow> 'i \<Rightarrow> bool \<Rightarrow> nat \<Rightarrow> nat \<Rightarrow> bool \<times> ('i \<times> bool \<times> nat) list" where
  "taking given img force at duration = (True, given @ [(img, force, at)])"

abbreviation given :: "(('i \<times> bool \<times> nat) list, 'i) heartbeat \<Rightarrow> ('i \<times> bool \<times> nat) list" where
  "given hb \<equiv> ec_session (hb_encoder hb)"

text \<open>
  What befalls a capture: frames of the window server, with or without an image, turns of the
  heartbeat's loop, and wishes for a keyframe. The encoder takes at most \<open>d\<close> to take an image.
\<close>

inductive capture_step ::
  "nat \<Rightarrow> (('i \<times> bool \<times> nat) list, 'i) heartbeat \<Rightarrow> (('i \<times> bool \<times> nat) list, 'i) heartbeat \<Rightarrow> bool" for d where
  cs_frame: "after \<le> now + d \<Longrightarrow> capture_step d hb (did_output taking now after img hb)"
| cs_beat: "after \<le> now + d \<Longrightarrow> capture_step d hb (keep_alive taking now after hb)"
| cs_wish: "capture_step d hb (want_keyframe hb)"

text \<open>
  The encoder has had the last image, and \<open>hb_fed\<close> says when; the encoder's own times are in
  microseconds.
\<close>

definition recorded :: "nat \<Rightarrow> (('i \<times> bool \<times> nat) list, 'i) heartbeat \<Rightarrow> bool" where
  "recorded d hb \<longleftrightarrow> \<not> hb_stop hb
     \<and> (\<forall>img. hb_last hb = Some img \<longrightarrow> (\<exists>xs force at. given hb = xs @ [(img, force, at)]
          \<and> hb_fed hb < hb_began hb + 1000 * at + 1000 + d))"

lemma micros: "now < began + 1000 * ((now - began) div 1000) + (1000 :: nat)"
proof -
  have "now - began < 1000 * ((now - began) div 1000) + 1000"
    using div_mult_mod_eq [of "now - began" 1000] mod_less_divisor [of 1000 "now - began"] by linarith
  then show ?thesis by linarith
qed

lemma fed_taking:
  "given (heartbeat_feed taking now after img force hb) = given hb @ [(img, force, (now - hb_began hb) div 1000)]"
  "hb_fed (heartbeat_feed taking now after img force hb) = after"
  "hb_last (heartbeat_feed taking now after img force hb) = hb_last hb"
  "hb_began (heartbeat_feed taking now after img force hb) = hb_began hb"
  "hb_stop (heartbeat_feed taking now after img force hb) = hb_stop hb"
  "hb_keyframe (heartbeat_feed taking now after img force hb) = hb_keyframe hb"
  by (simp_all add: heartbeat_feed_def encode_image_def taking_def Let_def)

lemma recorded_step: "capture_step d hb hb' \<Longrightarrow> recorded d hb \<Longrightarrow> recorded d hb'"
proof (induction rule: capture_step.induct)
  case (cs_frame after now hb img)
  then show ?case using micros [of now "hb_began hb"]
    by (cases img) (auto simp: did_output_def recorded_def fed_taking Let_def)
next
  case (cs_beat after now hb)
  then show ?case using micros [of now "hb_began hb"]
    by (cases "hb_last hb") (auto simp: keep_alive_def recorded_def fed_taking Let_def)
next
  case (cs_wish hb)
  then show ?case by (simp add: recorded_def want_keyframe_def)
qed

interpretation capture: invariant_system "recorded d" "capture_step d" for d
  by unfold_locales (rule recorded_step)

lemma recorded_new: "recorded d (heartbeat_new ec now)"
  by (simp add: recorded_def heartbeat_new_def)



end
