(* ===== verification/Sources.thy ===== *)
theory Sources
  imports App
begin

text \<open>
  What can be shared and with which program: the lists of screens and windows of
  \<open>screen/send.rs\<close> and \<open>screen/mac/content.rs\<close>, the loopback devices of \<open>screen/audio.rs\<close>, the command
  lines, and the search of \<open>screen/ffmpeg.rs\<close> (all in \<open>crates/boa-client/src\<close>). What a program
  prints, what the window server lists and which paths run are arguments; \<open>lower\<close> is
  \<open>str::to_lowercase\<close>. A value of \<open>platform\<close> stands for \<open>target_os\<close>.
\<close>

datatype platform = Macos | Linux | Windows

section \<open>Text\<close>

text \<open>\<open>str::lines\<close>: a line ends in a line feed, or in a carriage return and a line feed.\<close>

definition strip_cr :: "rstring \<Rightarrow> rstring" where
  "strip_cr line = (if line \<noteq> [] \<and> last line = 13 then butlast line else line)"

definition text_lines :: "rstring \<Rightarrow> rstring list" where
  "text_lines s =
     (let ls = split_at 10 s in map strip_cr (butlast ls) @ (if last ls = [] then [] else [last ls]))"

fun contains :: "rstring \<Rightarrow> rstring \<Rightarrow> bool" where
  "contains p [] \<longleftrightarrow> p = []"
| "contains p (c # cs) \<longleftrightarrow> starts_with p (c # cs) \<or> contains p cs"

text \<open>What stands between the last opening bracket and the closing one after it, and the rest.\<close>

definition last_bracket :: "rstring \<Rightarrow> (rstring \<times> rstring) option" where
  "last_bracket line =
     (if 91 \<notin> set line then None
      else let tail = rev (takeWhile (\<lambda>c. c \<noteq> 91) (rev line))
           in if 93 \<notin> set tail then None
              else let inside = takeWhile (\<lambda>c. c \<noteq> 93) tail in Some (inside, drop (length inside + 1) tail))"

definition parse_u32 :: "rstring \<Rightarrow> u32 option" where
  "parse_u32 s = map_option of_nat (parse_uint (2 ^ 32) s)"

definition VIDEO_HEADING :: rstring where "VIDEO_HEADING = str ''AVFoundation video devices''"
definition AUDIO_HEADING :: rstring where "AUDIO_HEADING = str ''AVFoundation audio devices''"

section \<open>Loopback devices\<close>

record loopback =
  lo_format :: rstring
  lo_input :: rstring
  lo_label :: rstring

text \<open>The loop over the lines, with \<open>in_audio\<close>.\<close>

fun audio_devices_in :: "bool \<Rightarrow> rstring list \<Rightarrow> (u32 \<times> rstring) list" where
  "audio_devices_in in_audio [] = []"
| "audio_devices_in in_audio (line # lines) =
     (if contains VIDEO_HEADING line then audio_devices_in False lines
      else if contains AUDIO_HEADING line then audio_devices_in True lines
      else if \<not> in_audio then audio_devices_in in_audio lines
      else case last_bracket line of
             None \<Rightarrow> audio_devices_in in_audio lines
           | Some (inside, after) \<Rightarrow>
               (case parse_u32 (trim inside) of
                  None \<Rightarrow> audio_devices_in in_audio lines
                | Some index \<Rightarrow>
                    let name = trim after
                    in (if name \<noteq> [] then [(index, name)] else []) @ audio_devices_in in_audio lines))"

definition parse_audio_devices :: "rstring \<Rightarrow> (u32 \<times> rstring) list" where
  "parse_audio_devices listing = audio_devices_in False (text_lines listing)"

definition LOOPBACK_NAMES :: "rstring list" where
  "LOOPBACK_NAMES = map str
     [''blackhole 2ch'', ''blackhole'', ''loopback audio'', ''soundflower (2ch)'', ''soundflower'', ''vb-cable'']"

definition macos_loopback :: "(rstring \<Rightarrow> rstring) \<Rightarrow> rstring option \<Rightarrow> loopback option" where
  "macos_loopback lower device_listing =
     (case device_listing of
        None \<Rightarrow> None
      | Some listing \<Rightarrow>
          (case find (\<lambda>(index, name). let lowered = lower name in \<exists>candidate \<in> set LOOPBACK_NAMES. contains candidate lowered)
                  (parse_audio_devices listing) of
             None \<Rightarrow> None
           | Some (index, name) \<Rightarrow>
               Some \<lparr>lo_format = str ''avfoundation'', lo_input = 58 # decimal (unat index), lo_label = name\<rparr>))"

text \<open>\<open>pactl\<close>: whether it ran and ended well, and what it printed.\<close>

definition pulse_monitor :: "(bool \<times> rstring) option \<Rightarrow> loopback" where
  "pulse_monitor pactl =
     (let named = (case pactl of
                     Some (True, out) \<Rightarrow> let sink = trim out in if sink \<noteq> [] then Some (sink @ str ''.monitor'') else None
                   | _ \<Rightarrow> None);
          input = (case named of Some n \<Rightarrow> n | None \<Rightarrow> str ''@DEFAULT_MONITOR@'')
      in \<lparr>lo_format = str ''pulse'', lo_input = input, lo_label = input\<rparr>)"

definition no_loopback_advice :: rstring where
  "no_loopback_advice = str ''no loopback device found. Install BlackHole (brew install blackhole-2ch), then set it as the output ''
     @ [8212] @ str '' or build a Multi-Output Device in Audio MIDI Setup so you can hear it too.''"

definition find_loopback ::
  "platform \<Rightarrow> (rstring \<Rightarrow> rstring) \<Rightarrow> rstring option \<Rightarrow> (bool \<times> rstring) option \<Rightarrow> rstring + loopback" where
  "find_loopback platform lower device_listing pactl =
     (case platform of
        Macos \<Rightarrow> (case macos_loopback lower device_listing of Some lo \<Rightarrow> Inr lo | None \<Rightarrow> Inl no_loopback_advice)
      | Linux \<Rightarrow> Inr (pulse_monitor pactl)
      | Windows \<Rightarrow> Inr \<lparr>lo_format = str ''dshow'', lo_input = str ''audio=virtual-audio-capturer'',
                       lo_label = str ''virtual-audio-capturer''\<rparr>)"

definition audio_capture_args :: "loopback \<Rightarrow> rstring list" where
  "audio_capture_args lo =
     [str ''-hide_banner'', str ''-loglevel'', str ''warning'', str ''-nostdin'', str ''-f'', lo_format lo,
      str ''-i'', lo_input lo, str ''-ac'', str ''2'', str ''-ar'', decimal (unat VOICE_SAMPLE_RATE), str ''-f'',
      str ''f32le'', str ''-'']"

section \<open>Screens and windows\<close>

definition screen_label :: "rstring \<Rightarrow> rstring" where
  "screen_label name =
     (case parse_u32 (last (split_at 32 name)) of
        Some n \<Rightarrow> if n = 0 then str ''Main screen'' else str ''Screen '' @ decimal (unat (n + 1))
      | None \<Rightarrow> name)"

fun screens_in :: "bool \<Rightarrow> rstring list \<Rightarrow> source list" where
  "screens_in in_video [] = []"
| "screens_in in_video (line # lines) =
     (if contains VIDEO_HEADING line then screens_in True lines
      else if contains AUDIO_HEADING line then screens_in False lines
      else if \<not> in_video \<or> \<not> contains (str ''Capture screen'') line then screens_in in_video lines
      else case last_bracket line of
             None \<Rightarrow> screens_in in_video lines
           | Some (inside, after) \<Rightarrow>
               \<lparr>so_input = trim inside, so_label = screen_label (trim after), so_window = False\<rparr>
               # screens_in in_video lines)"

definition parse_screens :: "rstring \<Rightarrow> source list" where
  "parse_screens listing = screens_in False (text_lines listing)"

definition windows_windows :: "rstring option \<Rightarrow> source list" where
  "windows_windows powershell =
     (case powershell of
        None \<Rightarrow> []
      | Some out \<Rightarrow>
          map (\<lambda>title. \<lparr>so_input = str ''title='' @ title, so_label = title, so_window = True\<rparr>)
            (take 40 (filter (\<lambda>title. title \<noteq> []) (map trim (text_lines out)))))"

text \<open>What the window server lists: displays, and windows with their owner, if they have one.\<close>

record display =
  dp_id :: u32
  dp_width :: int
  dp_height :: int

record listed_window =
  lw_id :: u32
  lw_title :: "rstring option"
  lw_owner :: "(rstring \<times> rstring) option"
  lw_on_screen :: bool
  lw_width :: int
  lw_height :: int

definition is_furniture :: "rstring \<Rightarrow> bool" where
  "is_furniture bundle \<longleftrightarrow> bundle \<in> set (map str
     [''com.apple.dock'', ''com.apple.notificationcenterui'', ''com.apple.WindowManager'', ''com.apple.wallpaper'',
      ''com.apple.wallpaper.agent'', ''com.apple.WallpaperAgent'', ''com.apple.controlcenter'',
      ''com.apple.systemuiserver'', ''com.apple.WindowServer'', ''com.apple.screencaptureui''])"

definition signed_text :: "int \<Rightarrow> rstring" where
  "signed_text i = (if i < 0 then 45 # decimal (nat (- i)) else decimal (nat i))"

definition display_source :: "nat \<Rightarrow> display \<Rightarrow> source" where
  "display_source index d =
     (let dims = str '' ('' @ signed_text (dp_width d) @ [215] @ signed_text (dp_height d) @ str '')''
      in \<lparr>so_input = str ''display:'' @ decimal (unat (dp_id d)),
          so_label = (if index = 0 then str ''Main screen'' @ dims
                      else str ''Screen '' @ decimal (index + 1) @ dims),
          so_window = False\<rparr>)"

definition window_source :: "listed_window \<Rightarrow> (int \<times> source) option" where
  "window_source w =
     (let title = (case lw_title w of Some t \<Rightarrow> t | None \<Rightarrow> [])
      in case lw_owner w of
           None \<Rightarrow> None
         | Some (app, bundle) \<Rightarrow>
             if trim app = [] \<or> trim title = [] \<or> \<not> lw_on_screen w \<or> lw_width w < 120 \<or> lw_height w < 80 then None
             else if is_furniture bundle then None
             else Some (lw_width w * lw_height w,
                    \<lparr>so_input = str ''window:'' @ decimal (unat (lw_id w)), so_label = app @ [32, 8212, 32] @ title,
                     so_window = True\<rparr>))"

text \<open>A stable sort, largest first.\<close>

definition content_sources :: "display list \<times> listed_window list \<Rightarrow> source list" where
  "content_sources content =
     (case content of
        (displays, windows) \<Rightarrow>
          map (\<lambda>(i, d). display_source i d) (enumerate 0 displays)
          @ map snd (sort_key (\<lambda>(area, _). - area) (List.map_filter window_source windows)))"

definition sources ::
  "platform \<Rightarrow> rstring + (display list \<times> listed_window list) \<Rightarrow> rstring option \<Rightarrow> rstring option \<Rightarrow> rstring option
    \<Rightarrow> source list" where
  "sources platform shareable ffmpeg_listing powershell DISPLAY =
     (case platform of
        Macos \<Rightarrow>
          let native = (case shareable of Inr content \<Rightarrow> content_sources content | Inl why \<Rightarrow> [])
          in if native \<noteq> [] then native
             else let found = parse_screens (case ffmpeg_listing of Some l \<Rightarrow> l | None \<Rightarrow> [])
                  in if found = [] then [\<lparr>so_input = str ''1'', so_label = str ''Screen'', so_window = False\<rparr>] else found
      | Windows \<Rightarrow>
          \<lparr>so_input = str ''desktop'', so_label = str ''Whole desktop'', so_window = False\<rparr> # windows_windows powershell
      | Linux \<Rightarrow>
          let display = (case DISPLAY of Some d \<Rightarrow> d | None \<Rightarrow> str '':0.0'')
          in [\<lparr>so_input = display, so_label = str ''Screen ('' @ display @ str '')'', so_window = False\<rparr>])"

datatype target = Target_display u32 | Target_window u32

definition target :: "source \<Rightarrow> target option" where
  "target s =
     (case strip_prefix (str ''display:'') (so_input s) of
        Some i \<Rightarrow> map_option Target_display (parse_u32 i)
      | None \<Rightarrow>
          (case strip_prefix (str ''window:'') (so_input s) of
             Some i \<Rightarrow> map_option Target_window (parse_u32 i)
           | None \<Rightarrow> None))"

datatype located = Located_display display | Located_window listed_window

definition locate ::
  "target \<Rightarrow> rstring + (display list \<times> listed_window list) \<Rightarrow> rstring + located" where
  "locate t shareable =
     (case shareable of
        Inl why \<Rightarrow> Inl why
      | Inr (displays, windows) \<Rightarrow>
          (case t of
             Target_display i \<Rightarrow>
               (case find (\<lambda>d. dp_id d = i) displays of
                  Some d \<Rightarrow> Inr (Located_display d)
                | None \<Rightarrow> Inl (str ''screen '' @ decimal (unat i) @ str '' is no longer there''))
           | Target_window i \<Rightarrow>
               (case find (\<lambda>w. lw_id w = i) windows of
                  Some w \<Rightarrow> Inr (Located_window w)
                | None \<Rightarrow> Inl (str ''that window has been closed''))))"

section \<open>Command lines\<close>

definition video_encoder :: "platform \<Rightarrow> rstring" where
  "video_encoder platform = (if platform = Macos then str ''h264_videotoolbox'' else str ''libx264'')"

definition platform_input :: "platform \<Rightarrow> u32 \<Rightarrow> source \<Rightarrow> rstring list" where
  "platform_input platform fps s =
     (case platform of
        Macos \<Rightarrow> [str ''-f'', str ''avfoundation'', str ''-capture_cursor'', str ''1'', str ''-framerate'',
                   decimal (unat fps), str ''-i'', so_input s]
      | Windows \<Rightarrow> [str ''-f'', str ''gdigrab'', str ''-framerate'', decimal (unat fps), str ''-i'', so_input s]
      | Linux \<Rightarrow> [str ''-f'', str ''x11grab'', str ''-framerate'', decimal (unat fps), str ''-i'', so_input s])"

definition encoder_args :: "platform \<Rightarrow> u32 \<Rightarrow> rstring list" where
  "encoder_args platform kbps =
     (let k = (\<lambda>n. decimal (unat (n :: u32)) @ str ''k'')
      in if video_encoder platform = str ''h264_videotoolbox''
         then [str ''-realtime'', str ''1'', str ''-b:v'', k kbps]
         else [str ''-preset'', str ''veryfast'', str ''-tune'', str ''zerolatency'', str ''-b:v'', k kbps,
               str ''-maxrate'', k kbps, str ''-bufsize'', k (kbps div 2)])"

definition capture_args :: "platform \<Rightarrow> screen_settings \<Rightarrow> source \<Rightarrow> u32 \<Rightarrow> u32 \<Rightarrow> rstring list" where
  "capture_args platform s source width height =
     [str ''-hide_banner'', str ''-loglevel'', str ''warning'', str ''-nostdin'']
     @ platform_input platform (ss_fps s) source
     @ [str ''-vf'',
        str ''scale='' @ decimal (unat width) @ str '':'' @ decimal (unat height)
          @ str '':force_original_aspect_ratio=decrease:force_divisible_by=2,format=yuv420p'',
        str ''-c:v'', video_encoder platform]
     @ encoder_args platform (ss_kbps s)
     @ [str ''-g'', decimal (unat (max (ss_fps s * 2) 2)), str ''-profile:v'', str ''high'', str ''-pix_fmt'',
        str ''yuv420p'', str ''-an'', str ''-f'', str ''h264'', str ''-'']"

section \<open>Finding ffmpeg\<close>

definition join_path :: "platform \<Rightarrow> rstring \<Rightarrow> rstring \<Rightarrow> rstring" where
  "join_path platform dir name =
     (if dir = [] \<or> last dir = 47 \<or> platform = Windows \<and> last dir = 92 then dir @ name
      else dir @ (if platform = Windows then [92] else [47]) @ name)"

fun joined :: "rstring \<Rightarrow> rstring list \<Rightarrow> rstring" where
  "joined sep [] = []"
| "joined sep [w] = w"
| "joined sep (w # ws) = w @ sep @ joined sep ws"

definition executable_name :: "platform \<Rightarrow> rstring" where
  "executable_name platform = (if platform = Windows then str ''ffmpeg.exe'' else str ''ffmpeg'')"

text \<open>\<open>exe_dir\<close> is where this program lies, if that can be told.\<close>

definition candidates :: "platform \<Rightarrow> rstring option \<Rightarrow> rstring list" where
  "candidates platform exe_dir =
     (case exe_dir of
        Some dir \<Rightarrow> [join_path platform dir (str ''../Resources/ffmpeg''), join_path platform dir (executable_name platform)]
      | None \<Rightarrow> [])
     @ (case platform of
          Macos \<Rightarrow> map str [''/opt/homebrew/bin/ffmpeg'', ''/usr/local/bin/ffmpeg'', ''/opt/local/bin/ffmpeg'', ''/usr/bin/ffmpeg'']
        | Windows \<Rightarrow> map (\<lambda>parts. joined [92] (map str parts))
            [[''C:'', ''Program Files'', ''ffmpeg'', ''bin'', ''ffmpeg.exe''], [''C:'', ''ffmpeg'', ''bin'', ''ffmpeg.exe'']]
        | Linux \<Rightarrow> map str [''/usr/bin/ffmpeg'', ''/usr/local/bin/ffmpeg'', ''/snap/bin/ffmpeg''])"

definition locate_ffmpeg ::
  "platform \<Rightarrow> (rstring \<Rightarrow> bool) \<Rightarrow> rstring option \<Rightarrow> rstring option \<Rightarrow> rstring option" where
  "locate_ffmpeg platform usable BOA_FFMPEG exe_dir =
     (case BOA_FFMPEG of
        Some named \<Rightarrow>
          if usable named then Some named
          else (case find usable (candidates platform exe_dir) of
                  Some candidate \<Rightarrow> Some candidate
                | None \<Rightarrow> let bare = executable_name platform in if usable bare then Some bare else None)
      | None \<Rightarrow>
          (case find usable (candidates platform exe_dir) of
             Some candidate \<Rightarrow> Some candidate
           | None \<Rightarrow> let bare = executable_name platform in if usable bare then Some bare else None))"

definition ffmpeg_advice :: "platform \<Rightarrow> rstring option \<Rightarrow> rstring" where
  "ffmpeg_advice platform exe_dir =
     str ''no ffmpeg found '' @ [8212] @ str '' sharing a screen needs it, watching one does not. Looked in: ''
     @ joined (str '', '') (candidates platform exe_dir) @ str ''. Install it (''
     @ (case platform of Macos \<Rightarrow> str ''brew install ffmpeg'' | Windows \<Rightarrow> str ''winget install Gyan.FFmpeg''
        | Linux \<Rightarrow> str ''apt install ffmpeg'')
     @ str ''), or set BOA_FFMPEG to its path.''"

section \<open>What is chosen is what is captured\<close>

lemma decimal_value: "digits_value (decimal n) = n" "decimal n \<noteq> []" "\<forall>d \<in> set (decimal n). 48 \<le> d \<and> d \<le> 57"
proof (induction n rule: decimal.induct)
  case (1 n)
  have "n mod 10 < 10" by simp
  then have "n mod 10 \<le> 9" by linarith
  then show "digits_value (decimal n) = n" "decimal n \<noteq> []" "\<forall>d \<in> set (decimal n). 48 \<le> d \<and> d \<le> 57"
    using 1 by (simp_all add: decimal.simps [of n] digits_value_def)
qed

lemma parse_u32_decimal: "parse_u32 (decimal (unat i)) = Some (i :: u32)"
proof -
  let ?ds = "decimal (unat i)"
  have "hd ?ds \<noteq> 43" using decimal_value(2,3) [of "unat i"] by (cases ?ds) auto
  then have plain: "(case ?ds of c # cs \<Rightarrow> if c = 43 then cs else ?ds | [] \<Rightarrow> []) = ?ds"
    using decimal_value(2) [of "unat i"] by (cases ?ds) auto
  have "unat i < 2 ^ 32" using unsigned_less [of i, where ?'a = nat] by simp
  then have "parse_uint (2 ^ 32) ?ds = Some (unat i)"
    unfolding parse_uint_def plain Let_def using decimal_value [of "unat i"] by simp
  then show ?thesis by (simp add: parse_u32_def)
qed

lemma target_of_display: "target (display_source k d) = Some (Target_display (dp_id d))"
  by (simp add: target_def display_source_def strip_prefix_def starts_with_def parse_u32_decimal Let_def)

lemma target_of_window: "window_source w = Some (area, s) \<Longrightarrow> target s = Some (Target_window (lw_id w))"
  by (auto simp: window_source_def target_def strip_prefix_def starts_with_def parse_u32_decimal Let_def str_def
      split: option.splits prod.splits if_splits)

text \<open>
  What is picked from the list is what is captured, if it is still there: looked up in the content
  it was listed from, or in a later one, a source leads back to the display or window with its
  identifier, and to an error if that is gone.
\<close>

theorem what_is_chosen_is_captured:
  assumes "s \<in> set (content_sources (displays, windows))"
  shows "(\<exists>k d. d \<in> set displays \<and> s = display_source k d \<and> target s = Some (Target_display (dp_id d))
        \<and> (case locate (Target_display (dp_id d)) (Inr (displays', windows')) of
             Inr (Located_display d') \<Rightarrow> d' \<in> set displays' \<and> dp_id d' = dp_id d
           | Inl _ \<Rightarrow> dp_id d \<notin> dp_id ` set displays' | _ \<Rightarrow> False))
    \<or> (\<exists>area w. w \<in> set windows \<and> window_source w = Some (area, s) \<and> target s = Some (Target_window (lw_id w))
        \<and> (case locate (Target_window (lw_id w)) (Inr (displays', windows')) of
             Inr (Located_window w') \<Rightarrow> w' \<in> set windows' \<and> lw_id w' = lw_id w
           | Inl _ \<Rightarrow> lw_id w \<notin> lw_id ` set windows' | _ \<Rightarrow> False))"
proof -
  have found: "x \<in> set xs \<and> P x" if "find P xs = Some x" for P and x :: 'x and xs
    using that by (auto simp: find_Some_iff in_set_conv_nth)
  from assms consider k d where "d \<in> set displays" "s = display_source k d"
    | area w where "w \<in> set windows" "window_source w = Some (area, s)"
    using nth_mem by (force simp: content_sources_def map_filter_def in_set_enumerate_eq)
  then show ?thesis
  proof cases
    case (1 k d)
    then show ?thesis
      by (intro disjI1 exI [of _ k] exI [of _ d])
        (auto simp: target_of_display locate_def find_None_iff dest: found split: option.splits)
  next
    case (2 area w)
    then show ?thesis
      by (intro disjI2 exI [of _ area] exI [of _ w])
        (auto simp: target_of_window locate_def find_None_iff dest: found split: option.splits)
  qed
qed

section \<open>Listings\<close>

text \<open>
  A device is taken only from the audio half of a listing: the nearest heading before it is the
  audio one.
\<close>

theorem only_the_audio_half_is_read:
  "(i, name) \<in> set (audio_devices_in in_audio lines) \<Longrightarrow>
   \<exists>before line after inside rest. lines = before @ line # after \<and> last_bracket line = Some (inside, rest)
     \<and> parse_u32 (trim inside) = Some i \<and> name = trim rest \<and> name \<noteq> []
     \<and> (case find (\<lambda>l. contains VIDEO_HEADING l \<or> contains AUDIO_HEADING l) (rev before) of
          Some l \<Rightarrow> \<not> contains VIDEO_HEADING l | None \<Rightarrow> in_audio)"
proof (induction lines arbitrary: in_audio)
  case (Cons line lines)
  let ?h = "\<lambda>l. contains VIDEO_HEADING l \<or> contains AUDIO_HEADING l"
  have find_snoc: "find ?h (rev (line # before)) = (case find ?h (rev before) of Some l \<Rightarrow> Some l
      | None \<Rightarrow> if ?h line then Some line else None)" for before
  proof -
    have "find P (xs @ [x]) = (case find P xs of Some l \<Rightarrow> Some l | None \<Rightarrow> if P x then Some x else None)"
      for P :: "rstring \<Rightarrow> bool" and xs x
      by (induction xs) auto
    then show ?thesis by simp
  qed
  have later: ?case if "(i, name) \<in> set (audio_devices_in b lines)"
    "b = (if contains VIDEO_HEADING line then False else if contains AUDIO_HEADING line then True else in_audio)" for b
  proof -
    from Cons.IH [OF that(1)] obtain before l after inside rest where l: "lines = before @ l # after"
      "last_bracket l = Some (inside, rest)" "parse_u32 (trim inside) = Some i" "name = trim rest" "name \<noteq> []"
      "case find ?h (rev before) of Some l \<Rightarrow> \<not> contains VIDEO_HEADING l | None \<Rightarrow> b"
      by blast
    show ?thesis
      by (rule exI [of _ "line # before"], rule exI [of _ l], rule exI [of _ after], rule exI [of _ inside], rule exI [of _ rest])
        (use l that(2) in \<open>auto simp only: find_snoc append_Cons split: option.splits if_splits\<close>)
  qed
  show ?case
  proof (cases "?h line \<or> \<not> in_audio")
    case True
    let ?b = "if contains VIDEO_HEADING line then False else if contains AUDIO_HEADING line then True else in_audio"
    have "(i, name) \<in> set (audio_devices_in ?b lines)" using Cons.prems True by (auto split: if_splits)
    then show ?thesis by (rule later) (rule refl)
  next
    case False
    show ?thesis
    proof (cases "(i, name) \<in> set (audio_devices_in in_audio lines)")
      case True
      then show ?thesis using False by (intro later) auto
    next
      case new: False
      then obtain inside rest where "last_bracket line = Some (inside, rest)" "parse_u32 (trim inside) = Some i"
        "name = trim rest" "name \<noteq> []"
        using Cons.prems False by (auto simp: Let_def split: option.splits if_splits)
      then show ?thesis using False
        by (intro exI [of _ "[]"] exI [of _ line] exI [of _ lines] exI [of _ inside] exI [of _ rest]) simp
    qed
  qed
qed simp

text \<open>
  A name with a bracket of its own is not read: the index is looked for in the last bracket of the
  line. And the names of loopback devices are searched in the order of the devices, not of preference.
\<close>

definition sample_listing :: "string list \<Rightarrow> rstring" where
  "sample_listing names = joined [10] (str ''[x] AVFoundation audio devices:'' #
     map (\<lambda>(i, name). str ''[x] ['' @ decimal i @ str ''] '' @ str name) (enumerate 0 names))"

lemma bracketed_names_are_lost: "parse_audio_devices (sample_listing [''Auna Mic [USB]'', ''Line In'']) = [(1, str ''Line In'')]"
  by (simp add: macos_loopback_def parse_audio_devices_def sample_listing_def text_lines_def str_def decimal.simps VIDEO_HEADING_def AUDIO_HEADING_def starts_with_def last_bracket_def parse_u32_def parse_uint_def digits_value_def trim_def trim_start_def trim_end_def is_whitespace_def strip_cr_def LOOPBACK_NAMES_def Let_def)

lemma first_device_wins:
  "map_option lo_label (macos_loopback (\<lambda>s. s) (Some (sample_listing [''soundflower'', ''blackhole 2ch'']))) = Some (str ''soundflower'')"
  by (simp add: macos_loopback_def parse_audio_devices_def sample_listing_def text_lines_def str_def decimal.simps VIDEO_HEADING_def AUDIO_HEADING_def starts_with_def last_bracket_def parse_u32_def parse_uint_def digits_value_def trim_def trim_start_def trim_end_def is_whitespace_def strip_cr_def LOOPBACK_NAMES_def Let_def)

end
