(* ===== verification/Chat.thy ===== *)
theory Chat
  imports AppProps Labels Cache
begin

text \<open>
  What the window decides while it draws a channel: \<open>ui/chat.rs\<close>, \<open>ui/images.rs\<close>, the form of
  \<open>ui/connect.rs\<close> and the device list of \<open>audio/devices.rs\<close> (all in \<open>crates/boa-client/src\<close>). What is clicked
  and typed is an argument, what is drawn a value. The directory of attachments is \<open>Cache\<close>'s;
  decoding a picture is a parameter.
\<close>

section \<open>Pictures\<close>

text \<open>A decoded picture is its size in pixels.\<close>

datatype slot = Loading | Ready "nat \<times> nat" | Undecodable rstring

record images =
  im_requests :: "(rstring \<times> byte list) list"
  im_results :: "(rstring \<times> (rstring + nat \<times> nat)) list"
  im_slots :: "(rstring, slot) hmap"

definition images_new :: images where
  "images_new = \<lparr>im_requests = [], im_results = [], im_slots = []\<rparr>"

text \<open>One turn of the worker thread.\<close>

definition images_work :: "(byte list \<Rightarrow> rstring + nat \<times> nat) \<Rightarrow> images \<Rightarrow> images" where
  "images_work decoder im =
     (case im_requests im of
        [] \<Rightarrow> im
      | (sha, bytes) # rest \<Rightarrow> im\<lparr>im_requests := rest, im_results := im_results im @ [(sha, decoder bytes)]\<rparr>)"

definition slot_of :: "rstring + nat \<times> nat \<Rightarrow> slot" where
  "slot_of result = (case result of Inr dims \<Rightarrow> Ready dims | Inl err \<Rightarrow> Undecodable err)"

definition images_collect :: "images \<Rightarrow> images" where
  "images_collect im =
     im\<lparr>im_slots := foldl (\<lambda>slots (sha, result). hinsert sha (slot_of result) slots) (im_slots im) (im_results im),
        im_results := []\<rparr>"

text \<open>\<open>Display\<close> of an error of the file system is the argument \<open>why\<close>.\<close>

definition images_get :: "cache \<Rightarrow> rstring \<Rightarrow> rstring \<Rightarrow> images \<Rightarrow> slot option \<times> images" where
  "images_get files why sha im =
     (let im = (if hget (im_slots im) sha = None \<and> cache_have files sha
                then case cache_read files sha of
                       Inr bytes \<Rightarrow>
                         im\<lparr>im_slots := hinsert sha Loading (im_slots im), im_requests := im_requests im @ [(sha, bytes)]\<rparr>
                     | Inl _ \<Rightarrow> im\<lparr>im_slots := hinsert sha (Undecodable why) (im_slots im)\<rparr>
                else im)
      in (hget (im_slots im) sha, im))"

definition images_forget :: "rstring \<Rightarrow> images \<Rightarrow> images" where
  "images_forget sha im = im\<lparr>im_slots := hremove sha (im_slots im)\<rparr>"

definition images_loaded :: "images \<Rightarrow> nat" where
  "images_loaded im = length (filter (\<lambda>(_, s). case s of Ready _ \<Rightarrow> True | _ \<Rightarrow> False) (im_slots im))"

text \<open>
  The worker's \<open>decode\<close>: the library reads the picture, and shrinks one with too long an edge into a box.
\<close>

definition MAX_EDGE :: nat where "MAX_EDGE = 2560"

fun u32_trunc :: "flt \<Rightarrow> nat" where
  "u32_trunc Nan = 0"
| "u32_trunc (Infinite s) = (if s then 0 else 2 ^ 32 - 1)"
| "u32_trunc (Finite s m e) = (if s then 0 else min (2 ^ 32 - 1) (fl_trunc m e))"

definition shrunk :: "nat \<times> nat \<Rightarrow> nat \<times> nat" where
  "shrunk dims =
     (let edge = max (fst dims) (snd dims);
          f32 = \<lambda>n. fl_round binary32 (Finite False n 0);
          scale = fl_div binary32 (f32 MAX_EDGE) (f32 edge)
      in (max 1 (u32_trunc (fl_mul binary32 (f32 (fst dims)) scale)), max 1 (u32_trunc (fl_mul binary32 (f32 (snd dims)) scale))))"

definition decode_shrunk ::
  "(byte list \<Rightarrow> rstring + 'p) \<Rightarrow> ('p \<Rightarrow> nat \<times> nat) \<Rightarrow> ('p \<Rightarrow> nat \<times> nat \<Rightarrow> 'p) \<Rightarrow> byte list \<Rightarrow> rstring + nat \<times> nat" where
  "decode_shrunk reader dims resize bytes =
     (case reader bytes of
        Inl err \<Rightarrow> Inl err
      | Inr picture \<Rightarrow>
          Inr (dims (if max (fst (dims picture)) (snd (dims picture)) > MAX_EDGE
                     then resize picture (shrunk (dims picture)) else picture)))"

text \<open>Pixels on the screen are \<open>f32\<close>.\<close>

definition f32_least :: "flt \<Rightarrow> flt \<Rightarrow> flt" where
  "f32_least x y = (if x = Nan then y else if y = Nan then x else if fl_le x y then x else y)"

definition picture_fit :: "flt \<times> flt \<Rightarrow> flt \<Rightarrow> flt \<Rightarrow> flt \<times> flt" where
  "picture_fit natural available max_height =
     (let zero = Finite False 0 0; one = Finite False 1 0
      in if fl_le (fst natural) zero \<or> fl_le (snd natural) zero then (zero, zero)
         else let scale = f32_least (f32_least (fl_div binary32 available (fst natural)) (fl_div binary32 max_height (snd natural))) one
              in (fl_mul binary32 (fst natural) scale, fl_mul binary32 (snd natural) scale))"

text \<open>The space an image takes is known before its bytes are: from the size the server measured.\<close>

definition picture_size :: "flt \<Rightarrow> attachment \<Rightarrow> flt \<times> flt" where
  "picture_size available att =
     (let pixels = \<lambda>n. Finite False n 0;
          natural = (if at_width att > 0 \<and> at_height att > 0
                     then (fl_round binary32 (pixels (unat (at_width att))), fl_round binary32 (pixels (unat (at_height att))))
                     else (pixels 320, pixels 180))
      in picture_fit natural (f32_least available (pixels 520)) (pixels 360))"

section \<open>The log\<close>

definition GROUP_WINDOW_MS :: int where "GROUP_WINDOW_MS = 5 * 60 * 1000"

definition grouped :: "(id \<times> millis) option \<Rightarrow> message \<Rightarrow> bool" where
  "grouped previous m =
     (case previous of
        None \<Rightarrow> False
      | Some (author, at) \<Rightarrow> author = msg_author m \<and> wrap_i64 (msg_created_at m - at) < GROUP_WINDOW_MS)"

fun groupings :: "(id \<times> millis) option \<Rightarrow> message list \<Rightarrow> bool list" where
  "groupings previous [] = []"
| "groupings previous (m # ms) = grouped previous m # groupings (Some (msg_author m, msg_created_at m)) ms"

datatype tone = Faint | Error_tone | Warn | Fine_tone | Plain

text \<open>What is drawn in the place of an attachment.\<close>

datatype drawn =
    Picture "nat \<times> nat" rstring
  | Dots
  | Placeholder bool rstring
  | File_row rstring u64

definition placeholder :: "millis \<Rightarrow> attachment \<Rightarrow> bool \<Rightarrow> drawn" where
  "placeholder reading att have_local =
     (let gone = \<not> have_local \<and> at_expires_at att \<le> reading
      in Placeholder gone (if gone then str ''gone from the server'' else at_name att))"

definition expiry_tone :: "millis \<Rightarrow> attachment \<Rightarrow> bool \<Rightarrow> tone" where
  "expiry_tone now att have_local =
     (let expiring = wrap_i64 (at_expires_at att - now)
      in if expiring \<le> 0 then (if have_local then Faint else Error_tone)
         else if expiring < 6 * 3600000 then Warn else Faint)"

text \<open>
  What an attachment is drawn from: the directory, the error of a read, the time of the frame and of
  the clock; and which attachments are clicked.
\<close>

record look =
  lk_files :: cache
  lk_why :: rstring
  lk_now :: millis
  lk_clock :: millis
  lk_older :: bool
  lk_opened :: "attachment \<Rightarrow> bool"

definition draw_attachment ::
  "look \<Rightarrow> images \<Rightarrow> attachment \<Rightarrow> (action option \<times> drawn \<times> tone \<times> rstring) \<times> images" where
  "draw_attachment lk im att =
     (let have_local = cache_have (lk_files lk) (at_sha256 att);
          action = (if \<not> have_local then Some (Want_attachment att) else None);
          (action, drawn, im) =
            (if is_image att
             then let (slot, im) = images_get (lk_files lk) (lk_why lk) (at_sha256 att) im
                  in case slot of
                       Some (Ready dims) \<Rightarrow>
                         (if lk_opened lk att then Some (Open_attachment att) else action, Picture dims (at_name att), im)
                     | Some Loading \<Rightarrow> (action, Dots, im)
                     | _ \<Rightarrow> (action, placeholder (lk_clock lk) att have_local, im)
             else (if lk_opened lk att then Some (Open_attachment att) else action, File_row (at_name att) (at_size att), im))
      in ((action, drawn, expiry_tone (lk_now lk) att have_local, expiry (at_expires_at att) (lk_now lk) have_local), im))"

text \<open>A later action takes the place of an earlier one.\<close>

definition or_later :: "'a option \<Rightarrow> 'a option \<Rightarrow> 'a option" where
  "or_later action clicked = (case clicked of Some c \<Rightarrow> Some c | None \<Rightarrow> action)"

fun draw_attachments :: "look \<Rightarrow> action option \<Rightarrow> images \<Rightarrow> attachment list \<Rightarrow> action option \<times> images" where
  "draw_attachments lk action im [] = (action, im)"
| "draw_attachments lk action im (att # atts) =
     (let ((clicked, _), im) = draw_attachment lk im att
      in draw_attachments lk (or_later action clicked) im atts)"

definition draw_message :: "look \<Rightarrow> images \<Rightarrow> message \<Rightarrow> action option \<times> images" where
  "draw_message lk im m = draw_attachments lk None im (msg_attachments m)"

fun draw_messages :: "look \<Rightarrow> action option \<Rightarrow> images \<Rightarrow> message list \<Rightarrow> action option \<times> images" where
  "draw_messages lk action im [] = (action, im)"
| "draw_messages lk action im (m # ms) =
     (let (clicked, im) = draw_message lk im m
      in draw_messages lk (or_later action clicked) im ms)"

text \<open>The log of a channel that has none is \<open>None\<close>.\<close>

datatype heading = Spinner | Load_earlier | Beginning | No_heading

definition log_heading :: "channel_log option \<Rightarrow> heading" where
  "log_heading l =
     (case l of
        None \<Rightarrow> No_heading
      | Some l \<Rightarrow>
          if lg_loading l then Spinner
          else if \<not> lg_complete l \<and> lg_messages l \<noteq> [] then Load_earlier
          else if lg_complete l \<and> lg_messages l \<noteq> [] then Beginning
          else No_heading)"

definition log_action :: "look \<Rightarrow> client_state \<Rightarrow> id \<Rightarrow> images \<Rightarrow> action option \<times> images" where
  "log_action lk s ch im =
     (let l = hget (cs_logs s) ch;
          messages = (case l of Some l \<Rightarrow> lg_messages l | None \<Rightarrow> []);
          action = (if log_heading l = Load_earlier \<and> lk_older lk then Some (Load_older ch) else None)
      in draw_messages lk action im messages)"

text \<open>A message that is not confirmed yet: its text, its files, and whether the notice is under it.\<close>

definition draw_pending :: "nat \<Rightarrow> pending \<Rightarrow> tone \<times> rstring list \<times> rstring option" where
  "draw_pending now p =
     (if is_slow now p then Warn else Faint,
      map (\<lambda>name. [8593, 32] @ name) (pd_attachment_names p),
      if is_slow now p then Some (str ''still sending'' @ [8230]) else None)"

section \<open>The composer\<close>

definition typing_notice :: "nat \<Rightarrow> client_state \<Rightarrow> id \<Rightarrow> rstring" where
  "typing_notice now s ch =
     (case typers now s ch of
        [] \<Rightarrow> []
      | [u] \<Rightarrow> state_label s u @ str '' is typing'' @ [8230]
      | [u, v] \<Rightarrow> state_label s u @ str '' and '' @ state_label s v @ str '' are typing'' @ [8230]
      | us \<Rightarrow> decimal (length us) @ str '' people are typing'' @ [8230])"

text \<open>
  What the frame brings: whether the field changed (the text is what it holds afterwards), has the
  focus, whether Enter was pressed with neither Shift nor Command, and the two buttons.
\<close>

record keys =
  ky_changed :: bool
  ky_focus :: bool
  ky_enter :: bool
  ky_attach :: bool
  ky_send :: bool

definition composer :: "keys \<Rightarrow> id \<Rightarrow> bool \<Rightarrow> rstring \<Rightarrow> action option \<times> rstring" where
  "composer ky ch can_send txt =
     (let action = (if ky_changed ky \<and> trim txt \<noteq> [] then Some (Type_in ch) else None);
          (action, txt) =
            (if ky_focus ky \<and> ky_enter ky \<and> can_send
             then let txt = (if txt \<noteq> [] \<and> last txt = 10 then butlast txt else txt)
                  in (if trim txt \<noteq> [] then Some Send_composer else action, txt)
             else (action, txt));
          action = (if ky_attach ky then Some Attach_files else action);
          ready = trim txt \<noteq> [] \<and> can_send
      in (if ky_send ky \<and> ready then Some Send_composer else action, txt))"

section \<open>The form\<close>

definition form_complete :: "form \<Rightarrow> bool" where
  "form_complete f =
     (let credentials = trim (fm_name f) \<noteq> [] \<and> fm_password f \<noteq> []
      in case fm_mode f of
           None \<Rightarrow> False
         | Some Log_in \<Rightarrow> credentials
         | Some Sign_up \<Rightarrow> credentials \<and> length (fm_password f) \<ge> 12)"

definition url_edited :: "form \<Rightarrow> form" where
  "url_edited f = f\<lparr>fm_probe := None, fm_mode := None, fm_error := None\<rparr>"

section \<open>Devices\<close>

record device_info =
  dv_name :: rstring
  dv_is_default :: bool

definition dedup_names :: "device_info list \<Rightarrow> device_info list" where
  "dedup_names ds = foldr (\<lambda>d ds. case ds of e # rest \<Rightarrow> if dv_name e = dv_name d then d # rest else d # ds | [] \<Rightarrow> [d]) ds []"

text \<open>Names compare as their bytes do, which is as their scalar values do.\<close>

definition devices_collect :: "rstring list option \<Rightarrow> rstring option \<Rightarrow> device_info list" where
  "devices_collect names chosen =
     (case names of
        None \<Rightarrow> []
      | Some names \<Rightarrow>
          let found = map (\<lambda>name. \<lparr>dv_name = name, dv_is_default = (Some name = chosen)\<rparr>) names;
              found = sort_key dv_name found;
              found = dedup_names found
          in filter dv_is_default found @ filter (\<lambda>d. \<not> dv_is_default d) found)"

definition has_device :: "device_info list \<Rightarrow> rstring \<Rightarrow> bool" where
  "has_device ds name \<longleftrightarrow> (\<exists>d \<in> set ds. dv_name d = name)"

definition open_device :: "rstring option \<Rightarrow> (rstring \<times> 'd) list option \<Rightarrow> 'd option \<Rightarrow> 'd option" where
  "open_device name devices chosen =
     (case name of
        Some name \<Rightarrow>
          (case Option.bind devices (find (\<lambda>(n, _). n = name)) of
             Some (_, found) \<Rightarrow> Some found
           | None \<Rightarrow> chosen)
      | None \<Rightarrow> chosen)"

lemma dedup_Cons: "dedup_names (d # ds) =
  (case dedup_names ds of e # rest \<Rightarrow> if dv_name e = dv_name d then d # rest else d # dedup_names ds | [] \<Rightarrow> [d])"
  by (simp add: dedup_names_def split: list.split)

lemma dedup_names_set: "dv_name ` set (dedup_names ds) = dv_name ` set ds"
proof (induction ds)
  case (Cons d ds)
  have "dv_name ` set (dedup_names (d # ds)) = insert (dv_name d) (dv_name ` set (dedup_names ds))"
    by (cases "dedup_names ds") (simp_all add: dedup_Cons)
  then show ?case by (simp add: Cons.IH)
qed (simp add: dedup_names_def)

lemma dedup_names_sorted: "sorted (map dv_name ds) \<Longrightarrow> sorted_wrt (<) (map dv_name (dedup_names ds))"
proof (induction ds)
  case (Cons d ds)
  then have le: "\<forall>n \<in> dv_name ` set (dedup_names ds). dv_name d \<le> n" by (auto simp: dedup_names_set)
  show ?case
  proof (cases "dedup_names ds")
    case (Cons e rest)
    have "sorted_wrt (<) (map dv_name (e # rest))" using Cons.IH Cons.prems Cons by simp
    with le Cons show ?thesis by (auto simp: dedup_Cons)
  qed (simp add: dedup_Cons)
qed (simp add: dedup_names_def)

text \<open>
  The list of devices has every name once, the default's first, and nothing else; a list that cannot
  be read is empty.
\<close>

theorem devices_once_default_first:
  "distinct (map dv_name (devices_collect names chosen))
   \<and> dv_name ` set (devices_collect names chosen) = (case names of Some ns \<Rightarrow> set ns | None \<Rightarrow> {})
   \<and> (\<forall>d \<in> set (devices_collect names chosen). dv_is_default d \<longleftrightarrow> Some (dv_name d) = chosen)
   \<and> (\<forall>ns n. names = Some ns \<longrightarrow> chosen = Some n \<longrightarrow> n \<in> set ns \<longrightarrow> dv_name (hd (devices_collect names chosen)) = n)"
proof (cases names)
  case (Some ns)
  let ?found = "dedup_names (sort_key dv_name (map (\<lambda>name. \<lparr>dv_name = name, dv_is_default = (Some name = chosen)\<rparr>) ns))"
  let ?ds = "devices_collect names chosen"
  have ds: "?ds = filter dv_is_default ?found @ filter (\<lambda>d. \<not> dv_is_default d) ?found"
    by (simp add: devices_collect_def Some Let_def)
  have parts: "set (dedup_names xs) \<subseteq> set xs" for xs
    by (induction xs) (auto simp: dedup_names_def split: list.splits if_splits)
  have is_default: "\<forall>d \<in> set ?found. dv_is_default d \<longleftrightarrow> Some (dv_name d) = chosen"
  proof
    fix d assume "d \<in> set ?found"
    then have "d \<in> (\<lambda>name. \<lparr>dv_name = name, dv_is_default = (Some name = chosen)\<rparr>) ` set ns"
      using parts by fastforce
    then show "dv_is_default d \<longleftrightarrow> Some (dv_name d) = chosen" by auto
  qed
  have "distinct (map dv_name ?found)" using dedup_names_sorted by (simp add: strict_sorted_iff)
  then have once: "distinct (map dv_name ?ds)"
    unfolding ds by (auto simp: distinct_map inj_on_def)
  have all: "dv_name ` set ?ds = set ns"
    unfolding ds using dedup_names_set [of "sort_key dv_name (map (\<lambda>name. \<lparr>dv_name = name, dv_is_default = (Some name = chosen)\<rparr>) ns)"]
    by (auto simp: image_iff)
  have "dv_name (hd ?ds) = n" if "chosen = Some n" "n \<in> set ns" for n
  proof -
    have "n \<in> dv_name ` set ?found" using that(2) by (simp add: dedup_names_set image_image)
    then have "filter dv_is_default ?found \<noteq> []" using is_default that(1) by (auto simp: filter_empty_conv)
    then have "hd ?ds \<in> set (filter dv_is_default ?found)" unfolding ds by (simp add: hd_append del: set_filter)
    then show ?thesis using is_default that(1) by auto
  qed
  moreover have "\<forall>d \<in> set ?ds. dv_is_default d \<longleftrightarrow> Some (dv_name d) = chosen" unfolding ds using is_default by auto
  ultimately show ?thesis using once all Some by auto
qed (simp add: devices_collect_def)

section \<open>Nothing is decoded twice\<close>

text \<open>What the interface and the worker do between two arrivals; the worker's decodes are noted.\<close>

datatype look_or_work = Op_look cache rstring rstring | Op_collect | Op_work

fun images_op :: "(byte list \<Rightarrow> rstring + nat \<times> nat) \<Rightarrow> look_or_work \<Rightarrow> images \<times> rstring list \<Rightarrow> images \<times> rstring list" where
  "images_op decoder (Op_look files why sha) (im, decoded) = (snd (images_get files why sha im), decoded)"
| "images_op decoder Op_collect (im, decoded) = (images_collect im, decoded)"
| "images_op decoder Op_work (im, decoded) =
     (images_work decoder im, decoded @ (case im_requests im of [] \<Rightarrow> [] | (sha, _) # _ \<Rightarrow> [sha]))"

definition images_ok :: "images \<times> rstring list \<Rightarrow> bool" where
  "images_ok st \<longleftrightarrow> (case st of (im, decoded) \<Rightarrow>
     distinct (decoded @ map fst (im_requests im))
   \<and> (\<forall>sha \<in> set decoded \<union> fst ` set (im_requests im). hget (im_slots im) sha \<noteq> None)
   \<and> fst ` set (im_results im) \<subseteq> set decoded
   \<and> (\<forall>sha. hget (im_slots im) sha = Some Loading \<longrightarrow> sha \<in> fst ` set (im_requests im) \<union> fst ` set (im_results im)))"

lemma slot_of_Loading [simp]: "slot_of r \<noteq> Loading"
  by (simp add: slot_of_def split: sum.split)

lemma collected_slots:
  "hget (foldl (\<lambda>slots (sha, result). hinsert sha (slot_of result) slots) slots ready) sha = Some v \<Longrightarrow>
     sha \<in> fst ` set ready \<and> v \<noteq> Loading \<or> hget slots sha = Some v"
  "hget slots sha \<noteq> None \<Longrightarrow>
     hget (foldl (\<lambda>slots (sha, result). hinsert sha (slot_of result) slots) slots ready) sha \<noteq> None"
  "sha \<in> fst ` set ready \<Longrightarrow>
     hget (foldl (\<lambda>slots (sha, result). hinsert sha (slot_of result) slots) slots ready) sha \<noteq> Some Loading"
proof (induction ready arbitrary: slots v)
  case (Cons d ds)
  { case 1 then show ?case using Cons.IH(1) [of "hinsert (fst d) (slot_of (snd d)) slots"]
      by (auto simp: hmap_simps case_prod_beta split: if_splits) }
  { case 2 then show ?case using Cons.IH(2) [of "hinsert (fst d) (slot_of (snd d)) slots"]
      by (auto simp: hmap_simps case_prod_beta) }
  { case 3 then show ?case
      using Cons.IH(1) [of "hinsert (fst d) (slot_of (snd d)) slots" Loading] Cons.IH(3) [of "hinsert (fst d) (slot_of (snd d)) slots"]
      by (cases "sha = fst d") (auto simp: hmap_simps case_prod_beta) }
qed simp_all

lemma collected_Loading:
  assumes "hget (im_slots (images_collect im)) sha = Some Loading"
  shows "hget (im_slots im) sha = Some Loading \<and> sha \<notin> fst ` set (im_results im)"
  using assms collected_slots(1) [of "im_slots im" "im_results im" sha Loading]
    collected_slots(3) [of sha "im_results im" "im_slots im"]
  by (auto simp: images_collect_def)

lemma images_op_ok:
  assumes "images_ok st"
  shows "images_ok (images_op decoder p st)"
proof (cases p)
  case (Op_look files why sha)
  obtain im decoded where st: "st = (im, decoded)" by fastforce
  have "sha \<notin> set decoded \<and> sha \<notin> fst ` set (im_requests im)" if "hget (im_slots im) sha = None"
  proof -
    have "\<forall>sha \<in> set decoded \<union> fst ` set (im_requests im). hget (im_slots im) sha \<noteq> None"
      using assms unfolding images_ok_def st by blast
    then show ?thesis using that by blast
  qed
  with assms Op_look show ?thesis
    by (auto simp: images_ok_def images_get_def Let_def hmap_simps st image_iff split: sum.splits)
next
  case Op_collect
  obtain im decoded where st: "st = (im, decoded)" by fastforce
  let ?slots = "im_slots (images_collect im)"
  have "\<forall>sha \<in> set decoded \<union> fst ` set (im_requests im). hget ?slots sha \<noteq> None"
  proof
    fix sha assume "sha \<in> set decoded \<union> fst ` set (im_requests im)"
    with assms have "hget (im_slots im) sha \<noteq> None" unfolding images_ok_def st by blast
    from collected_slots(2) [OF this] show "hget ?slots sha \<noteq> None" by (simp add: images_collect_def)
  qed
  moreover have "sha \<in> fst ` set (im_requests im)" if "hget ?slots sha = Some Loading" for sha
    using collected_Loading [OF that] assms unfolding images_ok_def st by blast
  ultimately show ?thesis using assms Op_collect by (simp add: images_ok_def images_collect_def st)
next
  case Op_work
  obtain im decoded where st: "st = (im, decoded)" by fastforce
  show ?thesis
  proof (cases "im_requests im")
    case Nil
    then show ?thesis using assms Op_work by (simp add: images_work_def st)
  next
    case (Cons r rs)
    have next_fresh: "fst r \<notin> set decoded" "fst r \<notin> fst ` set rs" using assms Cons by (auto simp: images_ok_def st)
    show ?thesis
      using assms Op_work Cons next_fresh by (simp add: images_ok_def images_work_def st case_prod_beta) blast
  qed
qed

text \<open>
  Nothing is decoded twice. However often the log looks at its pictures and however the worker's turns
  fall, between two arrivals of the same bytes a picture is decoded at most once; and when the worker
  has no request left, a collected result leaves no picture waiting.
\<close>

theorem nothing_is_decoded_twice:
  "case fold (images_op decoder) ops (images_new, []) of (im, decoded) \<Rightarrow>
     distinct decoded
   \<and> (im_requests im = [] \<longrightarrow> hget (im_slots (images_collect im)) sha \<noteq> Some Loading)"
proof -
  have "images_ok (fold (images_op decoder) ops st)" if "images_ok st" for st
    using that by (induction ops arbitrary: st) (simp_all add: images_op_ok)
  moreover have "images_ok (images_new, [])" by (simp add: images_ok_def images_new_def)
  ultimately have ok: "images_ok (fold (images_op decoder) ops (images_new, []))" by blast
  obtain im decoded where st: "fold (images_op decoder) ops (images_new, []) = (im, decoded)" by fastforce
  have "im_requests im = [] \<longrightarrow> hget (im_slots (images_collect im)) sha \<noteq> Some Loading"
    using ok collected_Loading [of im sha] by (auto simp: images_ok_def st)
  then show ?thesis using ok st by (simp add: images_ok_def)
qed

section \<open>One action a frame\<close>

definition missing :: "cache \<Rightarrow> message list \<Rightarrow> attachment list" where
  "missing files ms = filter (\<lambda>att. \<not> cache_have files (at_sha256 att)) (concat (map msg_attachments ms))"

lemma draw_attachment_action:
  assumes "\<not> lk_opened lk att"
  shows "fst (fst (draw_attachment lk im att)) =
    (if cache_have (lk_files lk) (at_sha256 att) then None else Some (Want_attachment att))"
  using assms by (auto simp: draw_attachment_def Let_def split: prod.splits option.splits slot.splits)

definition wanted :: "cache \<Rightarrow> action option \<Rightarrow> attachment list \<Rightarrow> action option" where
  "wanted files action atts =
     (let ms = filter (\<lambda>att. \<not> cache_have files (at_sha256 att)) atts
      in if ms = [] then action else Some (Want_attachment (last ms)))"

lemma wanted_simps:
  "wanted files action [] = action"
  "wanted files action (att # atts) =
     wanted files (or_later action (if cache_have files (at_sha256 att) then None else Some (Want_attachment att))) atts"
  "wanted files action (xs @ ys) = wanted files (wanted files action xs) ys"
  "or_later action (wanted files None xs) = wanted files action xs"
  by (simp_all add: wanted_def or_later_def Let_def del: filter_empty_conv)

lemma draw_attachments_action:
  assumes "\<And>att. \<not> lk_opened lk att"
  shows "fst (draw_attachments lk action im atts) = wanted (lk_files lk) action atts"
proof (induction atts arbitrary: action im)
  case (Cons att atts)
  obtain clicked d im' where one: "draw_attachment lk im att = ((clicked, d), im')" by (metis surj_pair)
  then have "clicked = (if cache_have (lk_files lk) (at_sha256 att) then None else Some (Want_attachment att))"
    using draw_attachment_action [OF assms, where att = att and im = im] by simp
  then show ?case using one Cons.IH by (simp add: wanted_simps(2))
qed (simp add: wanted_simps)

lemma draw_messages_action:
  assumes "\<And>att. \<not> lk_opened lk att"
  shows "fst (draw_messages lk action im ms) = wanted (lk_files lk) action (concat (map msg_attachments ms))"
proof (induction ms arbitrary: action im)
  case (Cons m ms)
  obtain clicked im' where one: "draw_message lk im m = (clicked, im')" by fastforce
  then have "clicked = wanted (lk_files lk) None (msg_attachments m)"
    using draw_attachments_action [OF assms, where action = None and im = im and atts = "msg_attachments m"] by (simp add: draw_message_def)
  then show ?case using one Cons.IH by (simp add: wanted_simps(3,4))
qed (simp add: wanted_simps)

lemma log_action_fst:
  assumes "\<And>att. \<not> lk_opened lk att" "hget (cs_logs s) ch = Some l"
  shows "fst (log_action lk s ch im) =
    (if missing (lk_files lk) (lg_messages l) \<noteq> [] then Some (Want_attachment (last (missing (lk_files lk) (lg_messages l))))
     else if log_heading (Some l) = Load_earlier \<and> lk_older lk then Some (Load_older ch) else None)"
  using assms(2) draw_messages_action [OF assms(1)]
  by (simp add: log_action_def Let_def wanted_def missing_def del: filter_empty_conv filter_concat)

text \<open>
  A frame of an open channel: the network's events, of which bytes that arrived drop the picture made
  before, then what the log asks for. \<open>chat_frames\<close> is one frame after another, each with its clock and its presses.
\<close>

definition forget_ready :: "net_event \<Rightarrow> images \<Rightarrow> images" where
  "forget_ready e im = (case e of AttachmentReady _ sha \<Rightarrow> images_forget sha im | _ \<Rightarrow> im)"

definition chat_frame :: "action_env \<Rightarrow> look \<Rightarrow> id \<Rightarrow> net_event list \<Rightarrow> app \<times> images \<Rightarrow> app \<times> images" where
  "chat_frame A lk ch events st =
     (let (a, im) = st;
          a = pump_network (ae_ui A) events a;
          (act, im) = log_action lk (ap_state a) ch (images_collect (fold forget_ready events im))
      in (case act of Some act \<Rightarrow> apply_action A act a | None \<Rightarrow> a, im))"

fun chat_frames :: "action_env \<Rightarrow> look list \<Rightarrow> id \<Rightarrow> net_event list \<Rightarrow> app \<times> images \<Rightarrow> app \<times> images" where
  "chat_frames A [] ch events st = st"
| "chat_frames A (lk # looks) ch events st = chat_frames A looks ch events (chat_frame A lk ch events st)"

lemma gone_frame:
  assumes "\<And>att. \<not> lk_opened lk att" "hget (cs_logs (ap_state a)) ch = Some l"
    and "missing (lk_files lk) (lg_messages l) \<noteq> []" "att = last (missing (lk_files lk) (lg_messages l))"
  shows "\<exists>a' im'. chat_frame A lk ch [AttachmentGone (at_id att)] (a, im) = (a', im') \<and> ap_state a' = ap_state a
    \<and> ap_out a' = ap_out a @ [To_net (WantAttachment att)]"
proof -
  let ?a = "a\<lparr>ap_requested := removeAll (at_id att) (ap_requested a)\<rparr>"
  obtain act im' where log: "log_action lk (ap_state ?a) ch (images_collect im) = (act, im')" by fastforce
  then have "act = Some (Want_attachment att)"
    using log_action_fst [OF assms(1), where s = "ap_state ?a" and ch = ch and l = l and im = "images_collect im"] assms(2-4) by simp
  then have "chat_frame A lk ch [AttachmentGone (at_id att)] (a, im) = (do_want_attachment att ?a, im')"
    using log by (simp add: chat_frame_def forget_ready_def pump_network_def on_net_event_def apply_action_def)
  then show ?thesis by (simp add: do_want_attachment_def emit_def)
qed

text \<open>Frames with these files here in which no attachment is opened; the button above the log may be pressed.\<close>

definition only_looking :: "cache \<Rightarrow> look list \<Rightarrow> bool" where
  "only_looking files looks \<longleftrightarrow> (\<forall>lk \<in> set looks. lk_files lk = files \<and> (\<forall>att. \<not> lk_opened lk att))"

text \<open>
  Claim C33. A picture that is gone holds up its channel. A frame of the log leads to one action, and
  every attachment without a copy here displaces the button for earlier messages and the ones before
  it. So, on frames in which no attachment is opened, earlier messages can be loaded only when nothing
  in view is missing; and where the last missing attachment is gone from the server, its request goes
  out again on every frame that answers the one before, however often the button for earlier messages
  is pressed meanwhile, and neither another attachment nor earlier messages are ever asked for. (A frame
  in which a later attachment is opened does that instead.)
\<close>

theorem a_gone_picture_holds_up_its_channel:
  assumes "only_looking files (lk # looks)" and l: "hget (cs_logs (ap_state a)) ch = Some l"
  shows "(missing files (lg_messages l) = [] \<longrightarrow>
      fst (log_action lk (ap_state a) ch im) =
        (if \<not> lg_loading l \<and> \<not> lg_complete l \<and> lg_messages l \<noteq> [] \<and> lk_older lk then Some (Load_older ch) else None))
    \<and> (missing files (lg_messages l) \<noteq> [] \<longrightarrow>
        (let att = last (missing files (lg_messages l));
             a' = fst (chat_frames A looks ch [AttachmentGone (at_id att)] (a, im))
         in fst (log_action lk (ap_state a) ch im) = Some (Want_attachment att)
          \<and> ap_out a' = ap_out a @ replicate (length looks) (To_net (WantAttachment att)) \<and> ap_state a' = ap_state a))"
proof (intro conjI impI)
  have lk: "lk_files lk = files" "\<And>att. \<not> lk_opened lk att" and all: "only_looking files looks"
    using assms(1) by (auto simp: only_looking_def)
  note act = log_action_fst [OF lk(2) l]
  show "fst (log_action lk (ap_state a) ch im) =
      (if \<not> lg_loading l \<and> \<not> lg_complete l \<and> lg_messages l \<noteq> [] \<and> lk_older lk then Some (Load_older ch) else None)"
    if "missing files (lg_messages l) = []"
    using that by (simp add: act log_heading_def lk(1))
  assume some: "missing files (lg_messages l) \<noteq> []"
  let ?att = "last (missing files (lg_messages l))"
  have "ap_out (fst (chat_frames A ls ch [AttachmentGone (at_id ?att)] (b, im))) = ap_out b @ replicate (length ls) (To_net (WantAttachment ?att))
      \<and> ap_state (fst (chat_frames A ls ch [AttachmentGone (at_id ?att)] (b, im))) = ap_state b"
    if "ap_state b = ap_state a" "only_looking files ls" for ls b im
    using that
  proof (induction ls arbitrary: b im)
    case (Cons k ks)
    have k: "lk_files k = files" "\<And>att. \<not> lk_opened k att" and ks: "only_looking files ks"
      using Cons.prems(2) by (auto simp: only_looking_def)
    have "hget (cs_logs (ap_state b)) ch = Some l" using Cons.prems l by simp
    from gone_frame [OF k(2) this, of ?att] some obtain b' im' where
      f: "chat_frame A k ch [AttachmentGone (at_id ?att)] (b, im) = (b', im')" "ap_state b' = ap_state b"
      "ap_out b' = ap_out b @ [To_net (WantAttachment ?att)]" unfolding k(1) by blast
    show ?case using Cons.IH [OF _ ks, of b' im'] Cons.prems f by simp
  qed simp
  from this [OF refl all] show "let att = last (missing files (lg_messages l));
         a' = fst (chat_frames A looks ch [AttachmentGone (at_id att)] (a, im))
       in fst (log_action lk (ap_state a) ch im) = Some (Want_attachment att)
        \<and> ap_out a' = ap_out a @ replicate (length looks) (To_net (WantAttachment att)) \<and> ap_state a' = ap_state a"
    using some by (simp add: Let_def act lk(1))
qed

definition lost_picture :: attachment where
  "lost_picture = \<lparr>at_id = Id 9, at_name = str ''cat.png'', at_size = 100, at_content_type = str ''image/png'', at_width = 2, at_height = 2,
     at_sha256 = replicate 64 97, at_expires_at = 10\<rparr>"

definition old_log :: channel_log where
  "old_log = \<lparr>lg_messages = [\<lparr>msg_id = Id 1, msg_channel = Id 2, msg_author = Id 3, msg_content = [],
     msg_created_at = 5, msg_edited_at = None, msg_attachments = [lost_picture], msg_nonce = None\<rparr>], lg_complete = False,
     lg_loading = False, lg_visited = True\<rparr>"

definition looked :: look where
  "looked = \<lparr>lk_files = [], lk_why = [], lk_now = 19, lk_clock = 19, lk_older = False, lk_opened = (\<lambda>_. False)\<rparr>"

definition pressed :: look where
  "pressed = \<lparr>lk_files = [], lk_why = [], lk_now = 20, lk_clock = 20, lk_older = True, lk_opened = (\<lambda>_. False)\<rparr>"

theorem a_gone_picture_holds_up_its_channel_witness:
  "ap_out (fst (chat_frames plain_actions [looked, pressed] (Id 2) [AttachmentGone (Id 9)]
       ((app_new 0 home)\<lparr>ap_state := default_state\<lparr>cs_logs := [(Id 2, old_log)]\<rparr>\<rparr>, images_new)))
   = ap_out (app_new 0 home) @ [To_net (WantAttachment lost_picture), To_net (WantAttachment lost_picture)]"
proof -
  let ?a = "(app_new 0 home)\<lparr>ap_state := default_state\<lparr>cs_logs := [(Id 2, old_log)]\<rparr>\<rparr>"
  have lost: "missing (lk_files pressed) (lg_messages old_log) = [lost_picture]"
    by (simp add: missing_def old_log_def pressed_def cache_have_iff)
  have "only_looking [] [pressed, looked, pressed]" by (simp add: only_looking_def pressed_def looked_def)
  from a_gone_picture_holds_up_its_channel [OF this, where a = ?a and ch = "Id 2" and l = old_log
      and A = plain_actions and im = images_new]
  show ?thesis using lost by (simp add: Let_def lost_picture_def numeral_2_eq_2 pressed_def)
qed

end
