(* ===== verification/Panels.thy ===== *)
theory Panels
  imports Chat ClientProps
begin

text \<open>
  The panels around the log: the connect screen (\<open>ui/connect.rs\<close>), the sidebar (\<open>ui/sidebar.rs\<close>), the
  voice bar (\<open>ui/voice_bar.rs\<close>) and the settings (\<open>ui/settings_view.rs\<close>), all in
  \<open>crates/boa-client/src\<close>. What a frame brings from the hands of the user is a record; what is drawn is a
  value where it decides something, and colours, sizes and places are left out.
\<close>

section \<open>The connect screen\<close>

text \<open>A field is \<open>Some\<close> of its new content in the frame in which it is edited.\<close>

definition edited :: "'a option \<Rightarrow> 'a \<Rightarrow> 'a" where
  "edited e old = (case e of Some new \<Rightarrow> new | None \<Rightarrow> old)"

record connect_input =
  ci_url :: "rstring option"
  ci_url_enter :: bool
  ci_look_up :: bool
  ci_mode :: "form_mode option"
  ci_name :: "rstring option"
  ci_display_name :: "rstring option"
  ci_password :: "rstring option"
  ci_password_enter :: bool
  ci_submit :: bool

definition server_summary :: "server_probe \<Rightarrow> rstring list" where
  "server_summary p =
     [sp_name p, str ''protocol '' @ decimal (unat (sp_protocol_version p)),
      str ''attachments stay on the server for '' @ decimal (unat (sp_attachment_ttl_secs p div 86400))
        @ str '' days, then only on your own machine'',
      str ''voice and screens on UDP '' @ decimal (unat (sp_media_port p)) @ [32, 8212] @ str '' that port has to be open too'']"

definition password_hint :: "rstring \<Rightarrow> rstring \<times> tone" where
  "password_hint password =
     (let typed = length password
      in if typed = 0 then (str ''at least 12 characters '' @ [8212] @ str '' length, not punctuation'', Faint)
         else if typed < 12 then (decimal (12 - typed) @ str '' more to go'', Warn)
         else (str ''long enough'', Fine_tone))"

definition credential_form :: "connect_input \<Rightarrow> server_probe \<Rightarrow> form \<Rightarrow> action option \<times> form" where
  "credential_form i p f =
     (let f = (if fm_mode f = None then f\<lparr>fm_mode := Some Log_in\<rparr> else f);
          clicked = ci_mode i = Some Log_in \<or> (sp_registration_open p \<and> ci_mode i = Some Sign_up);
          f = (if clicked then f\<lparr>fm_mode := ci_mode i, fm_error := None\<rparr> else f);
          f = f\<lparr>fm_name := edited (ci_name i) (fm_name f)\<rparr>;
          f = (if fm_mode f = Some Sign_up then f\<lparr>fm_display_name := edited (ci_display_name i) (fm_display_name f)\<rparr> else f);
          f = f\<lparr>fm_password := edited (ci_password i) (fm_password f)\<rparr>
      in (case fm_busy f of
            Some _ \<Rightarrow> None
          | None \<Rightarrow>
              if (ci_submit i \<or> ci_password_enter i) \<and> form_complete f
              then Some (if fm_mode f = Some Sign_up then Do_register else Do_log_in)
              else None,
          f))"

definition connect_show :: "connect_input \<Rightarrow> form \<Rightarrow> action option \<times> form" where
  "connect_show i f =
     (let f = (case ci_url i of Some url \<Rightarrow> url_edited (f\<lparr>fm_url := url\<rparr>) | None \<Rightarrow> f);
          action = (if fm_probe f = None \<and> fm_busy f = None \<and> (ci_look_up i \<or> ci_url_enter i) then Some Ask_who else None)
      in case fm_probe f of
           Some p \<Rightarrow> (let (chosen, f) = credential_form i p f in (or_later action chosen, f))
         | None \<Rightarrow> (action, f))"

section \<open>The sidebar\<close>

datatype entry =
    Text_entry id
  | Voice_entry id bool
  | Member_entry voice_state
  | Idle_entry id
  | Offline_entry id

definition sidebar_entries :: "(rstring \<Rightarrow> rstring) \<Rightarrow> client_state \<Rightarrow> entry list" where
  "sidebar_entries lower s =
     map (\<lambda>c. Text_entry (ch_id c)) (filter (\<lambda>c. ch_kind c = channel_kind.Text) (cs_channels s))
   @ concat (map (\<lambda>c. Voice_entry (ch_id c) (my_channel s = Some (ch_id c)) # map Member_entry (voice_members lower s (ch_id c)))
       (filter (\<lambda>c. ch_kind c = channel_kind.Voice) (cs_channels s)))
   @ map (\<lambda>u. Idle_entry (u_id u)) (filter (\<lambda>u. u_online u \<and> hget (cs_voice s) (u_id u) = None) (map snd (cs_users s)))
   @ map (\<lambda>u. Offline_entry (u_id u)) (filter (\<lambda>u. \<not> u_online u) (map snd (cs_users s)))"

datatype menu_item = Send_a_file | Watch_the_screen

record sidebar_input =
  si_clicked :: "entry \<Rightarrow> bool"
  si_menu :: "entry \<Rightarrow> menu_item option"
  si_typed :: "rstring option"
  si_enter :: bool
  si_create :: bool

definition person_menu :: "menu_item option \<Rightarrow> client_state \<Rightarrow> id \<Rightarrow> action option" where
  "person_menu chosen s user =
     (if map_option u_id (cs_me s) = Some user then None
      else case chosen of
             None \<Rightarrow> None
           | Some Send_a_file \<Rightarrow> Some (Send_file_direct user)
           | Some Watch_the_screen \<Rightarrow>
               if Option.bind (hget (cs_voice s) user) vs_screen \<noteq> None then Some (Watch user) else None)"

fun entry_action :: "sidebar_input \<Rightarrow> client_state \<Rightarrow> entry \<Rightarrow> action option" where
  "entry_action i s (Text_entry ch) = (if si_clicked i (Text_entry ch) then Some (Open_channel ch) else None)"
| "entry_action i s (Voice_entry ch joined) =
     (if si_clicked i (Voice_entry ch joined) then Some (if joined then Open_channel ch else Join_voice ch) else None)"
| "entry_action i s (Member_entry v) =
     or_later (if si_clicked i (Member_entry v) \<and> vs_screen v \<noteq> None then Some (Watch (vs_user v)) else None)
       (person_menu (si_menu i (Member_entry v)) s (vs_user v))"
| "entry_action i s (Idle_entry u) = person_menu (si_menu i (Idle_entry u)) s u"
| "entry_action i s (Offline_entry u) = None"

definition sidebar_show ::
  "(rstring \<Rightarrow> rstring) \<Rightarrow> sidebar_input \<Rightarrow> client_state \<Rightarrow> rstring \<Rightarrow> action option \<times> rstring" where
  "sidebar_show lower i s new_channel =
     (let action = foldl or_later None (map (entry_action i s) (sidebar_entries lower s));
          new_channel = edited (si_typed i) new_channel
      in if (si_enter i \<or> si_create i) \<and> trim new_channel \<noteq> []
         then (Some (Create_channel new_channel channel_kind.Text), [])
         else (action, new_channel))"

text \<open>The badges of a member, from the right.\<close>

datatype badge = Sharing | Deafened | Muted

definition badges :: "voice_state \<Rightarrow> badge list" where
  "badges v =
     (if vs_screen v \<noteq> None then [Sharing] else []) @ (if voice_state.vs_deafened v then [Deafened] else [])
   @ (if voice_state.vs_muted v \<and> \<not> voice_state.vs_deafened v then [Muted] else [])"

section \<open>The voice bar\<close>

record bar_input =
  bi_leave :: bool
  bi_settings :: bool
  bi_screen :: bool
  bi_sound :: bool
  bi_microphone :: bool

record bar_view =
  bv_sharing :: "bool option"
  bv_sound_off :: bool
  bv_microphone_off :: bool
  bv_meter :: bool

definition voice_bar_show :: "bar_input \<Rightarrow> client_state \<Rightarrow> voice_settings \<Rightarrow> action option \<times> bar_view" where
  "voice_bar_show i s saved =
     (let action = (if my_channel s \<noteq> None \<and> bi_leave i then Some Leave_voice else None);
          action = (if bi_settings i then Some (Go Settings_view) else action);
          (muted, deafened) =
            (case my_voice s of
               Some v \<Rightarrow> (voice_state.vs_muted v, voice_state.vs_deafened v)
             | None \<Rightarrow> (vs_muted saved, vs_deafened saved));
          sharing = map_option (\<lambda>v. vs_screen v \<noteq> None) (my_voice s);
          action = (case sharing of
                      Some sharing \<Rightarrow> if bi_screen i then Some (if sharing then Stop_screen else Start_screen) else action
                    | None \<Rightarrow> action);
          action = (if bi_sound i then Some Toggle_deafen else action);
          action = (if bi_microphone i then Some Toggle_mute else action)
      in (action, \<lparr>bv_sharing = sharing, bv_sound_off = deafened, bv_microphone_off = muted \<or> deafened,
            bv_meter = my_voice s \<noteq> None \<and> \<not> (muted \<or> deafened)\<rparr>))"

text \<open>
  In a call the bar draws what the server says of the member, whatever is saved. With a mute that
  the server still has but that was taken back (between asking to join and the answer nothing is
  sent), the crossed-out microphone stands over a live one.
\<close>

lemma the_icon_can_lag:
  assumes "my_voice s = Some v"
  shows "bv_microphone_off (snd (voice_bar_show i s saved)) \<longleftrightarrow> voice_state.vs_muted v \<or> voice_state.vs_deafened v"
    and "bv_sound_off (snd (voice_bar_show i s saved)) \<longleftrightarrow> voice_state.vs_deafened v"
  using assms by (simp_all add: voice_bar_show_def Let_def)

definition status_line :: "client_state \<Rightarrow> Net.status \<Rightarrow> meter \<Rightarrow> rstring \<times> tone" where
  "status_line s status m =
     (case status of
        Offline \<Rightarrow> (str ''offline'', Faint)
      | Connecting \<Rightarrow> (str ''connecting'' @ [8230], Warn)
      | Reconnecting in_secs \<Rightarrow> (str ''reconnecting in '' @ decimal (unat in_secs) @ str ''s'', Warn)
      | Rejected _ \<Rightarrow> (str ''signed out'', Error_tone)
      | Connected \<Rightarrow>
          (case my_channel s of
             None \<Rightarrow> (case cs_server s of Some srv \<Rightarrow> si_name srv | None \<Rightarrow> str ''connected'', Faint)
           | Some ch \<Rightarrow>
               let name = (case state_channel s ch of Some c \<Rightarrow> ch_name c | None \<Rightarrow> [])
               in if mt_media_ok m then (name, Fine_tone)
                  else (name @ [32, 8212] @ str '' no voice connection'', Error_tone)))"

section \<open>The settings\<close>

text \<open>What the controls of the page give. A slider gives a number of its range, which is egui's to keep.\<close>

datatype share_size = P720 | P1080 | P1440 | P4K

record settings_input =
  ti_input_device :: "rstring option option"
  ti_gain :: "f32bits option"
  ti_noise :: "bool option"
  ti_threshold :: "f32bits option"
  ti_push_to_talk :: "bool option"
  ti_key :: "rstring option"
  ti_output_device :: "rstring option option"
  ti_volume :: "f32bits option"
  ti_jitter :: "f32bits option"
  ti_size :: "share_size option"
  ti_fps :: "f32bits option"
  ti_kbps :: "f32bits option"
  ti_sound :: "bool option"
  ti_reveal :: bool
  ti_keep :: "bool option"
  ti_days :: "f32bits option"
  ti_sign_out :: bool
  ti_new_voice :: bool

definition device_picker :: "rstring option option \<Rightarrow> rstring option \<Rightarrow> device_info list \<Rightarrow> bool \<times> rstring option" where
  "device_picker picked chosen available =
     (case picked of
        None \<Rightarrow> (False, chosen)
      | Some None \<Rightarrow> (True, None)
      | Some (Some name) \<Rightarrow> if has_device available name then (True, Some name) else (False, chosen))"

definition unplugged :: "rstring option \<Rightarrow> device_info list \<Rightarrow> rstring option" where
  "unplugged chosen available =
     (case chosen of
        Some name \<Rightarrow>
          if has_device available name then None
          else Some (name @ str '' is not plugged in '' @ [8212] @ str '' using the system default for now'')
      | None \<Rightarrow> None)"

definition voice_in_card :: "settings_input \<Rightarrow> device_info list \<Rightarrow> voice_settings \<Rightarrow> bool \<times> voice_settings" where
  "voice_in_card i inputs v =
     (let (picked, dev) = device_picker (ti_input_device i) (vs_input_device v) inputs;
          v = v\<lparr>vs_input_device := dev,
                vs_input_gain := edited (ti_gain i) (vs_input_gain v),
                vs_noise_suppression := edited (ti_noise i) (vs_noise_suppression v),
                vs_gate_threshold_db := edited (ti_threshold i) (vs_gate_threshold_db v),
                vs_push_to_talk := edited (ti_push_to_talk i) (vs_push_to_talk v)\<rparr>;
          changed = picked \<or> ti_gain i \<noteq> None \<or> ti_noise i \<noteq> None \<or> ti_threshold i \<noteq> None \<or> ti_push_to_talk i \<noteq> None
      in if vs_push_to_talk v
         then (changed \<or> ti_key i \<noteq> None, v\<lparr>vs_push_to_talk_key := edited (ti_key i) (vs_push_to_talk_key v)\<rparr>)
         else (changed, v))"

definition u32_of_slider :: "f32bits \<Rightarrow> u32" where
  "u32_of_slider b = word_of_nat (u32_trunc (of32 b))"

definition voice_out_card :: "settings_input \<Rightarrow> device_info list \<Rightarrow> voice_settings \<Rightarrow> bool \<times> voice_settings" where
  "voice_out_card i outputs v =
     (let (picked, dev) = device_picker (ti_output_device i) (vs_output_device v) outputs
      in (picked \<or> ti_volume i \<noteq> None \<or> ti_jitter i \<noteq> None,
          v\<lparr>vs_output_device := dev,
            vs_output_volume := edited (ti_volume i) (vs_output_volume v),
            vs_jitter_ms := edited (map_option u32_of_slider (ti_jitter i)) (vs_jitter_ms v)\<rparr>))"

fun edge_of :: "share_size \<Rightarrow> u32" where
  "edge_of P720 = 1280"
| "edge_of P1080 = 1920"
| "edge_of P1440 = 2560"
| "edge_of P4K = 3840"

definition screen_card :: "settings_input \<Rightarrow> screen_settings \<Rightarrow> bool \<times> screen_settings" where
  "screen_card i c =
     (ti_size i \<noteq> None \<or> ti_fps i \<noteq> None \<or> ti_kbps i \<noteq> None \<or> ti_sound i \<noteq> None,
      c\<lparr>ss_max_dimension := edited (map_option edge_of (ti_size i)) (ss_max_dimension c),
        ss_fps := edited (map_option u32_of_slider (ti_fps i)) (ss_fps c),
        ss_kbps := edited (map_option u32_of_slider (ti_kbps i)) (ss_kbps c),
        ss_with_audio := edited (ti_sound i) (ss_with_audio c)\<rparr>)"

definition sound_notice :: "bool \<Rightarrow> rstring + rstring \<Rightarrow> rstring \<times> tone" where
  "sound_notice macos loopback =
     (if macos
      then (str ''the screen capture carries it '' @ [8212] @ str '' nothing to install, and this app'' @ [39] @ str ''s own sound is left out so nobody hears themselves back'',
            Fine_tone)
      else case loopback of
             Inr device \<Rightarrow> (str ''sound will come from '' @ device, Fine_tone)
           | Inl advice \<Rightarrow> (advice, Warn))"

definition retention_card :: "settings_input \<Rightarrow> u32 \<Rightarrow> bool \<times> u32" where
  "retention_card i days =
     (let keep = edited (ti_keep i) (days = 0);
          days = (case ti_keep i of Some b \<Rightarrow> if b then 0 else 90 | None \<Rightarrow> days)
      in if keep then (ti_keep i \<noteq> None, days)
         else (ti_keep i \<noteq> None \<or> ti_days i \<noteq> None, edited (map_option u32_of_slider (ti_days i)) days))"

definition ttl_days :: "client_state \<Rightarrow> u64" where
  "ttl_days s = (case cs_server s of Some srv \<Rightarrow> si_attachment_ttl_secs srv div 86400 | None \<Rightarrow> ATTACHMENT_TTL_SECS div 86400)"

definition relays_line :: "server_info \<Rightarrow> rstring" where
  "relays_line srv =
     (case (si_wormhole_rendezvous srv, si_wormhole_transit srv) of
        (None, None) \<Rightarrow>
          str ''direct file transfers use the public wormhole relays '' @ [8212]
          @ str '' the files themselves still go peer to peer and encrypted''
      | (rendezvous, transit) \<Rightarrow>
          str ''file transfers use this server'' @ [39] @ str ''s own relays (''
          @ (case rendezvous of Some r \<Rightarrow> r | None \<Rightarrow> str ''default rendezvous'')
          @ (case transit of Some t \<Rightarrow> str '', '' @ t | None \<Rightarrow> []) @ str '')'')"

definition settings_show ::
  "settings_input \<Rightarrow> device_info list \<Rightarrow> device_info list \<Rightarrow> settings \<Rightarrow> action option \<times> settings" where
  "settings_show i inputs outputs s =
     (let (changed1, v) = voice_in_card i inputs (st_voice s);
          (changed2, v) = voice_out_card i outputs v;
          (changed3, c) = screen_card i (st_screen s);
          (changed4, days) = retention_card i (st_local_retention_days s);
          s = s\<lparr>st_voice := v, st_screen := c, st_local_retention_days := days\<rparr>;
          action = (if ti_reveal i then Some Reveal_attachments else None);
          action = (if ti_sign_out i then Some Log_out else action);
          action = (if ti_new_voice i then Some (Create_channel (str ''Voice'') channel_kind.Voice) else action)
      in if changed1 \<or> changed2 \<or> changed3 \<or> changed4
         then (case action of Some a \<Rightarrow> Some a | None \<Rightarrow> Some Settings_changed, Settings.sanitise s)
         else (action, s))"

section \<open>Where a token goes\<close>

text \<open>A frame of the connect screen: the network's events, the form, and what it asks for.\<close>

definition connect_frame :: "action_env \<Rightarrow> connect_input \<Rightarrow> net_event list \<Rightarrow> app \<Rightarrow> app" where
  "connect_frame A i events a =
     (let a = pump_network (ae_ui A) events a;
          (act, f) = connect_show i (ap_connect a);
          a = a\<lparr>ap_connect := f\<rparr>
      in case act of Some act \<Rightarrow> apply_action A act a | None \<Rightarrow> a)"

lemma credential_form_busy: "fm_busy f \<noteq> None \<Longrightarrow>
    fst (credential_form i p f) = None \<and> fm_busy (snd (credential_form i p f)) = fm_busy f"
  by (cases "fm_busy f") (simp_all add: credential_form_def Let_def)

lemma credential_form_url: "fm_url (snd (credential_form i p f)) = fm_url f"
  by (simp add: credential_form_def Let_def)

lemma connect_show_busy:
  assumes "fm_busy f \<noteq> None"
  shows "fst (connect_show i f) = None" "fm_busy (snd (connect_show i f)) = fm_busy f"
  using assms credential_form_busy [of "f\<lparr>fm_url := the (ci_url i)\<rparr>"] credential_form_busy [of f]
  by (simp_all add: connect_show_def url_edited_def Let_def or_later_def case_prod_beta split: option.split)

lemma connect_show_url: "fm_url (snd (connect_show i f)) = edited (ci_url i) (fm_url f)"
  by (simp add: connect_show_def url_edited_def edited_def Let_def case_prod_beta credential_form_url split: option.split)

lemma busy_frame:
  assumes "fm_busy (ap_connect a) \<noteq> None"
  shows "fm_busy (ap_connect (connect_frame A i [] a)) \<noteq> None
    \<and> fm_url (ap_connect (connect_frame A i [] a)) = edited (ci_url i) (fm_url (ap_connect a))
    \<and> ap_out (connect_frame A i [] a) = ap_out a"
  using connect_show_busy [OF assms, of i] connect_show_url [of i "ap_connect a"] assms
  by (cases "connect_show i (ap_connect a)") (simp add: connect_frame_def pump_network_def)

lemma busy_frames:
  assumes "fm_busy (ap_connect a) \<noteq> None"
  shows "fm_busy (ap_connect (foldl (\<lambda>a i. connect_frame A i [] a) a is)) \<noteq> None
    \<and> fm_url (ap_connect (foldl (\<lambda>a i. connect_frame A i [] a) a is)) = foldl (\<lambda>url i. edited (ci_url i) url) (fm_url (ap_connect a)) is
    \<and> ap_out (foldl (\<lambda>a i. connect_frame A i [] a) a is) = ap_out a"
  using assms by (induction "is" rule: rev_induct) (simp_all add: busy_frame)

lemma sign_in_frame:
  assumes "fst (connect_show i (ap_connect a)) = Some act" "act \<in> {Do_log_in, Do_register}"
  shows "fm_busy (ap_connect (connect_frame A i [] a)) \<noteq> None
    \<and> fm_url (ap_connect (connect_frame A i [] a)) = fm_url (ap_connect a)
    \<and> (\<exists>name password shown. ap_out (connect_frame A i [] a) = ap_out a
        @ [To_net (if act = Do_register then Register (normalise_url (fm_url (ap_connect a))) name password shown
                   else LogIn (normalise_url (fm_url (ap_connect a))) name password)])"
proof -
  obtain f where f: "connect_show i (ap_connect a) = (Some act, f)" using assms(1) by (cases "connect_show i (ap_connect a)") simp
  have "ci_url i = None"
  proof (rule ccontr)
    assume "ci_url i \<noteq> None"
    then have "fst (connect_show i (ap_connect a)) \<in> {None, Some Ask_who}"
      by (auto simp: connect_show_def url_edited_def Let_def)
    with assms show False by auto
  qed
  then have "fm_url f = fm_url (ap_connect a)"
    using connect_show_url [of i "ap_connect a"] f by (simp add: edited_def)
  then show ?thesis
    using assms(2) f by (auto simp: connect_frame_def pump_network_def apply_action_def do_sign_in_def typed_base_def base_url_def emit_def Let_def)
qed

text \<open>
  Claim C34. A token goes where the address points when it arrives. Signing in sends the name and the
  password to the server whose address stands in the field at that moment. The field can be edited
  while the answer is under way; whatever frames follow, the token of the answer is then saved with, and
  sent to, the address that stands there by then: another server, if it was edited, and the one that
  was signed in to if it was not.
\<close>

theorem a_token_goes_where_the_address_points:
  assumes "fst (connect_show i (ap_connect a)) = Some act" "act \<in> {Do_log_in, Do_register}"
  shows "let here = fm_url (ap_connect a);
             there = foldl (\<lambda>url i. edited (ci_url i) url) here later;
             a' = connect_frame A last_input [Authenticated (Inr ses)] (foldl (\<lambda>a i. connect_frame A i [] a) (connect_frame A i [] a) later)
         in \<exists>name password shown s.
              ap_out a' = ap_out a
                @ [To_net (if act = Do_register then Register (normalise_url here) name password shown
                           else LogIn (normalise_url here) name password),
                   Save_settings s, To_net (Connect (normalise_url there) (ss_token ses))]
            \<and> st_server_url s = there \<and> st_token s = Some (ss_token ses)
            \<and> (later = [] \<longrightarrow> there = here)"
proof -
  let ?one = "connect_frame A i [] a" and ?two = "foldl (\<lambda>a i. connect_frame A i [] a) (connect_frame A i [] a) later"
  note one = sign_in_frame [OF assms, of A]
  from one have busy: "fm_busy (ap_connect ?one) \<noteq> None" by blast
  from one obtain name password shown where out: "ap_out ?one = ap_out a
        @ [To_net (if act = Do_register then Register (normalise_url (fm_url (ap_connect a))) name password shown
                   else LogIn (normalise_url (fm_url (ap_connect a))) name password)]" by blast
  let ?there = "foldl (\<lambda>url i. edited (ci_url i) url) (fm_url (ap_connect a)) later"
  have two: "fm_url (ap_connect ?two) = ?there" "ap_out ?two = ap_out ?one"
    using busy_frames [OF busy, of A later] one by simp_all
  let ?b = "on_authenticated (Inr ses) ?two"
  let ?s = "(ap_settings ?two)\<lparr>st_token := Some (ss_token ses), st_user_name := u_name (ss_user ses), st_server_url := ?there\<rparr>"
  have b: "ap_out ?b = ap_out ?two @ [Save_settings ?s, To_net (Connect (normalise_url ?there) (ss_token ses))]"
      "fm_busy (ap_connect ?b) \<noteq> None"
    by (simp_all add: on_authenticated_def save_quietly_def emit_def Let_def two(1) base_url_def)
  have "connect_frame A last_input [Authenticated (Inr ses)] ?two = connect_frame A last_input [] ?b"
    by (simp add: connect_frame_def pump_network_def on_net_event_def)
  then have "ap_out (connect_frame A last_input [Authenticated (Inr ses)] ?two) = ap_out ?b"
    using busy_frame [OF b(2), of A last_input] by simp
  then show ?thesis
    unfolding Let_def b(1) two(2) out
    by (intro exI [of _ name] exI [of _ password] exI [of _ shown] exI [of _ ?s]) simp
qed

definition untouched :: connect_input where
  "untouched = \<lparr>ci_url = None, ci_url_enter = False, ci_look_up = False, ci_mode = None, ci_name = None,
     ci_display_name = None, ci_password = None, ci_password_enter = False, ci_submit = False\<rparr>"

definition signing_in :: app where
  "signing_in = (app_new 0 home)\<lparr>ap_connect := \<lparr>fm_url = str ''http://b'', fm_name = str ''ada'', fm_password = str ''pw'',
     fm_display_name = [], fm_mode = Some Log_in,
     fm_probe = Some \<lparr>sp_name = [], sp_protocol_version = 1, sp_media_port = 8788, sp_attachment_ttl_secs = 1,
       sp_max_upload_bytes = 1, sp_registration_open = False\<rparr>, fm_busy = None, fm_error = None\<rparr>\<rparr>"

definition ada :: user where
  "ada = \<lparr>u_id = Id 1, u_name = str ''ada'', u_display_name = [], u_online = True\<rparr>"

theorem a_token_goes_where_the_address_points_witness:
  "\<exists>name password s. ap_out (connect_frame plain_actions untouched [Authenticated (Inr \<lparr>ss_token = str ''secret'', ss_user = ada\<rparr>)]
       (connect_frame plain_actions (untouched\<lparr>ci_url := Some (str ''http://c'')\<rparr>) []
          (connect_frame plain_actions (untouched\<lparr>ci_submit := True\<rparr>) [] signing_in)))
     = ap_out signing_in @ [To_net (LogIn (str ''http://b'') name password), Save_settings s, To_net (Connect (str ''http://c'') (str ''secret''))]
   \<and> st_server_url s = str ''http://c''"
proof -
  have typed: "trim (str ''ada'') \<noteq> []" "str ''pw'' \<noteq> []" by code_simp+
  have sub: "fst (connect_show (untouched\<lparr>ci_submit := True\<rparr>) (ap_connect signing_in)) = Some Do_log_in"
    using typed by (simp add: connect_show_def credential_form_def untouched_def signing_in_def edited_def form_complete_def or_later_def Let_def)
  have "normalise_url (str ''http://b'') = str ''http://b''" "normalise_url (str ''http://c'') = str ''http://c''"
    by code_simp+
  moreover have "fm_url (ap_connect signing_in) = str ''http://b''" by (simp add: signing_in_def)
  moreover note a_token_goes_where_the_address_points [OF sub, of "[untouched\<lparr>ci_url := Some (str ''http://c'')\<rparr>]" plain_actions untouched
      "\<lparr>ss_token = str ''secret'', ss_user = ada\<rparr>"]
  ultimately show ?thesis by (simp add: Let_def edited_def) blast
qed

text \<open>
  The choice of a new account outlives the offer of one: logging out keeps it, and a form for the
  same address whose server has closed its registration since still registers.
\<close>

theorem registering_outlives_the_offer:
  assumes "fm_mode (ap_connect a) = Some Sign_up" "\<not> sp_registration_open p"
    "fm_busy (ap_connect a) = None" "trim (fm_name (ap_connect a)) \<noteq> []" "length (fm_password (ap_connect a)) \<ge> 12"
  shows "fst (connect_show (untouched\<lparr>ci_submit := True\<rparr>) (ap_connect (on_net_event E (Probed (Inr p)) (do_log_out a)))) = Some Do_register"
  using assms
  by (auto simp: connect_show_def credential_form_def untouched_def edited_def form_complete_def or_later_def Let_def
      on_net_event_def do_log_out_def save_quietly_def emit_def)

section \<open>Everybody is in the list once\<close>

fun person_of :: "entry \<Rightarrow> id option" where
  "person_of (Member_entry v) = Some (vs_user v)"
| "person_of (Idle_entry u) = Some u"
| "person_of (Offline_entry u) = Some u"
| "person_of _ = None"

definition times_listed :: "(rstring \<Rightarrow> rstring) \<Rightarrow> client_state \<Rightarrow> id \<Rightarrow> nat" where
  "times_listed lower s u = length (filter (\<lambda>e. person_of e = Some u) (sidebar_entries lower s))"

lemma length_filter_entries:
  assumes "hmap_ok m" "\<And>k v. hget m k = Some v \<Longrightarrow> key v = k"
  shows "length (filter (\<lambda>v. key v = k \<and> P v) (map snd m)) = (case hget m k of Some v \<Rightarrow> if P v then 1 else 0 | None \<Rightarrow> 0)"
  using assms
proof (induction m)
  case (Cons kv m)
  obtain k' v where kv: "kv = (k', v)" by fastforce
  have ok: "hmap_ok m" "k' \<notin> fst ` set m" using Cons.prems(1) kv by (simp_all add: hmap_ok_def)
  have keys: "key w = j" if "hget m j = Some w" for j w
  proof -
    have "j \<noteq> k'" using that ok(2) by (metis hget_keys option.distinct(1))
    then show ?thesis using Cons.prems(2) [of j w] that kv by simp
  qed
  have "hget m k' = None" using ok(2) by (metis hget_keys)
  moreover have "key v = k'" using Cons.prems(2) [of k' v] kv by simp
  ultimately show ?case using Cons.IH [OF ok(1) keys] kv by (auto split: option.split)
qed simp

lemma length_filter_sort_key: "length (filter P (sort_key f xs)) = length (filter P xs)"
  by (metis filter_sort length_sort)

lemma members_listed:
  assumes "roster_inv s"
  shows "length (filter (\<lambda>v. vs_user v = u) (voice_members lower s ch)) =
    (case hget (cs_voice s) u of Some v \<Rightarrow> if vs_channel v = ch then 1 else 0 | None \<Rightarrow> 0)"
proof -
  have "length (filter (\<lambda>v. vs_user v = u) (voice_members lower s ch)) =
      length (filter (\<lambda>v. vs_user v = u \<and> vs_channel v = ch) (map snd (cs_voice s)))"
    by (simp add: voice_members_def length_filter_sort_key conj_commute)
  then show ?thesis using assms length_filter_entries [of "cs_voice s" vs_user u "\<lambda>v. vs_channel v = ch"]
    by (simp add: roster_inv_def)
qed

lemma in_one_channel:
  "distinct (map ch_id cs) \<Longrightarrow> (\<Sum>c \<leftarrow> cs. if ch_id c = x then 1 else 0) = (if x \<in> ch_id ` set cs then 1 else (0::nat))"
  by (induction cs) auto

text \<open>
  Everybody is in the sidebar once. After any frames of the server, of which no \<open>Ready\<close> lists a
  channel twice, a person the client knows
  is in the list once: under a voice channel when in a call there, else among those online, or among
  those offline. The exceptions are exactly these: one who is offline and still in a call is
  listed twice, and one who is online in a call of a channel that is no voice channel of the list is not
  listed at all.
\<close>

theorem everybody_is_listed_once:
  assumes "(client_step frame_ok)\<^sup>*\<^sup>* default_state s"
  shows "times_listed lower s u =
    (case hget (cs_voice s) u of
       Some v \<Rightarrow> (if \<exists>c \<in> set (cs_channels s). ch_id c = vs_channel v \<and> ch_kind c = channel_kind.Voice then 1 else 0)
                + (if \<exists>x. hget (cs_users s) u = Some x \<and> \<not> u_online x then 1 else 0)
     | None \<Rightarrow> if hget (cs_users s) u \<noteq> None then 1 else 0)"
proof -
  from client.run_keeps [OF assms client_inv_default] have inv: "roster_inv s" by (simp add: client_inv_def)
  have once: "channels_once s"
    using listing.run_keeps [OF assms] by (simp add: channels_once_def default_state_def)
  let ?vcs = "filter (\<lambda>c. ch_kind c = channel_kind.Voice) (cs_channels s)"
  have d: "distinct (map ch_id ?vcs)" using once by (simp add: channels_once_def distinct_map_filter)
  have people: "length (filter (\<lambda>x. u_id x = u \<and> P x) (map snd (cs_users s))) =
      (case hget (cs_users s) u of Some x \<Rightarrow> if P x then 1 else 0 | None \<Rightarrow> 0)" for P
    using inv length_filter_entries [of "cs_users s" u_id u P] by (simp add: roster_inv_def)
  have voice: "length (filter (\<lambda>e. person_of e = Some u)
        (concat (map (\<lambda>c. Voice_entry (ch_id c) (my_channel s = Some (ch_id c)) # map Member_entry (voice_members lower s (ch_id c))) cs)))
      = (\<Sum>c \<leftarrow> cs. case hget (cs_voice s) u of Some v \<Rightarrow> if ch_id c = vs_channel v then 1 else 0 | None \<Rightarrow> 0)" for cs
    by (induction cs) (auto simp: filter_map comp_def members_listed [OF inv] split: option.split)
  have idle: "length (filter (\<lambda>e. person_of e = Some u) (map (\<lambda>x. Idle_entry (u_id x)) (filter P us))) = length (filter (\<lambda>x. u_id x = u \<and> P x) us)"
    "length (filter (\<lambda>e. person_of e = Some u) (map (\<lambda>x. Offline_entry (u_id x)) (filter P us))) = length (filter (\<lambda>x. u_id x = u \<and> P x) us)"
    for P us by (induction us) auto
  have texts: "filter (\<lambda>e. person_of e = Some u) (map (\<lambda>c. Text_entry (ch_id c)) cs) = []" for cs
    by (induction cs) auto
  have keyed: "u_id x = u" if "hget (cs_users s) u = Some x" for x using inv that by (simp add: roster_inv_def)
  have all: "times_listed lower s u =
      (\<Sum>c \<leftarrow> ?vcs. case hget (cs_voice s) u of Some v \<Rightarrow> if ch_id c = vs_channel v then 1 else 0 | None \<Rightarrow> 0)
    + (case hget (cs_users s) u of Some x \<Rightarrow> if u_online x \<and> hget (cs_voice s) u = None then 1 else 0 | None \<Rightarrow> 0)
    + (case hget (cs_users s) u of Some x \<Rightarrow> if \<not> u_online x then 1 else 0 | None \<Rightarrow> 0)"
    by (simp only: times_listed_def sidebar_entries_def filter_append length_append voice idle people texts list.size)
      (auto split: option.split dest: keyed)
  have voices: "x \<in> ch_id ` set ?vcs \<longleftrightarrow> (\<exists>c \<in> set (cs_channels s). ch_id c = x \<and> ch_kind c = channel_kind.Voice)" for x by auto
  show ?thesis
    by (simp only: all) (simp add: in_one_channel [OF d] voices del: set_filter split: option.split)
qed

text \<open>Ada is online and in a call of a voice channel.\<close>

definition call_room :: channel where
  "call_room = \<lparr>ch_id = Id 7, ch_name = [], ch_kind = channel_kind.Voice, ch_position = 0, ch_topic = []\<rparr>"

definition in_room :: voice_state where
  "in_room = \<lparr>vs_user = Id 1, vs_channel = Id 7, vs_muted = False, vs_deafened = False, vs_ssrc = 2, vs_screen = None\<rparr>"

theorem everybody_is_listed_once_witness:
  "times_listed (\<lambda>x. x) (foldl (apply_msg 0) default_state [UserUpdate ada, ChannelCreate call_room, VoiceState in_room]) (Id 1) = 1"
  (is "times_listed _ ?s _ = _")
proof -
  have "(client_step frame_ok)\<^sup>*\<^sup>* default_state (foldl (apply_msg 0) default_state msgs)" if "\<forall>m \<in> set msgs. frame_ok m" for msgs
    using that
  proof (induction msgs rule: rev_induct)
    case (snoc m msgs)
    then show ?case using client_frame [of frame_ok m "foldl (apply_msg 0) default_state msgs" 0]
      by (auto intro: rtranclp.rtrancl_into_rtrancl)
  qed simp
  from this [of "[UserUpdate ada, ChannelCreate call_room, VoiceState in_room]"]
  have "(client_step frame_ok)\<^sup>*\<^sup>* default_state ?s" by (simp del: foldl_Cons)
  from everybody_is_listed_once [OF this, of "\<lambda>x. x" "Id 1"]
  show ?thesis by (simp add: default_state_def ada_def call_room_def in_room_def)
qed

text \<open>
  The page of the settings changes nothing but what is on it: the switches of the voice bar stay, so the
  page is one of the edits of \<open>app_step\<close>, and a change that it reports leaves all of the settings within
  their bounds.
\<close>

lemma cards_keep_switches:
  "vs_muted (snd (voice_in_card i ds v)) = vs_muted v" "vs_deafened (snd (voice_in_card i ds v)) = vs_deafened v"
  "vs_muted (snd (voice_out_card i ds v)) = vs_muted v" "vs_deafened (snd (voice_out_card i ds v)) = vs_deafened v"
  by (simp_all add: voice_in_card_def voice_out_card_def Let_def case_prod_beta)

lemma settings_show_switches:
  "vs_muted (st_voice (snd (settings_show i ins outs s))) = vs_muted (st_voice s)"
  "vs_deafened (st_voice (snd (settings_show i ins outs s))) = vs_deafened (st_voice s)"
  "st_token (snd (settings_show i ins outs s)) = st_token s"
  "st_server_url (snd (settings_show i ins outs s)) = st_server_url s"
  using cards_keep_switches(1,2) [of i ins "st_voice s"] cards_keep_switches(3,4) [of i outs "snd (voice_in_card i ins (st_voice s))"]
  by (simp_all add: settings_show_def Settings.sanitise_def Let_def case_prod_beta)

theorem the_page_is_an_edit:
  "app_step L a (a\<lparr>ap_settings := snd (settings_show i ins outs (ap_settings a))\<rparr>)"
  using as_edit [where s = "snd (settings_show i ins outs (ap_settings a))" and a = a and f = "ap_connect a" and words = "ap_composer a" and L = L]
  by (simp add: settings_show_switches)

end
