(* ===== verification/Startup.thy ===== *)
theory Startup
  imports Settings Recv Config Voice Cache Sources
begin

text \<open>
  How things begin and end: the settings file (\<open>settings.rs\<close>), the devices and threads of a voice session
  (\<open>audio/pipeline.rs\<close>), what is said about a share's losses (\<open>screen/recv.rs\<close>), the log of the last
  run (\<open>diagnostics.rs\<close>), all in \<open>boa-client/src\<close>; the end of the server's \<open>main.rs\<close>; and small
  pieces of \<open>boa-proto\<close> that name paths and read the clock. What the operating system answers is an argument.
\<close>

section \<open>The settings file\<close>

text \<open>The files beside it in the data directory, by their names.\<close>

type_synonym data_files = "(rstring, rstring) hmap"

definition SETTINGS_FILE :: rstring where "SETTINGS_FILE = str ''settings.json''"

definition SETTINGS_TEMP :: rstring where "SETTINGS_TEMP = str ''settings.json.tmp''"

definition SETTINGS_BROKEN :: rstring where "SETTINGS_BROKEN = str ''settings.json.broken''"

lemma settings_names [simp]:
  "SETTINGS_TEMP \<noteq> SETTINGS_FILE" "SETTINGS_BROKEN \<noteq> SETTINGS_FILE" "SETTINGS_BROKEN \<noteq> SETTINGS_TEMP"
  "SETTINGS_FILE \<noteq> SETTINGS_TEMP" "SETTINGS_FILE \<noteq> SETTINGS_BROKEN" "SETTINGS_TEMP \<noteq> SETTINGS_BROKEN"
  by (code_simp, code_simp, code_simp, code_simp, code_simp, code_simp)

text \<open>How far a save gets: all the way, or not past one of its steps; a write that stops leaves a part.\<close>

datatype save_outcome = Saved | No_parent | Torn_text rstring | Not_renamed

definition settings_save ::
  "(settings \<Rightarrow> rstring option) \<Rightarrow> save_outcome \<Rightarrow> settings \<Rightarrow> data_files \<Rightarrow> bool \<times> data_files" where
  "settings_save print outcome s files =
     (if outcome = No_parent then (False, files)
      else case print s of
             None \<Rightarrow> (False, files)
           | Some words \<Rightarrow>
               (case outcome of
                  Torn_text part_ \<Rightarrow> (False, hinsert SETTINGS_TEMP part_ files)
                | Not_renamed \<Rightarrow> (False, hinsert SETTINGS_TEMP words files)
                | _ \<Rightarrow> (True, hinsert SETTINGS_FILE words (hremove SETTINGS_TEMP files))))"

text \<open>Loading moves a file aside that does not parse, if the system lets it.\<close>

definition settings_load ::
  "(rstring \<Rightarrow> settings option) \<Rightarrow> bool \<Rightarrow> bool \<Rightarrow> data_files \<Rightarrow> settings \<times> data_files" where
  "settings_load parse readable renames files =
     (let found = (case hget files SETTINGS_FILE of
                     None \<Rightarrow> NotFound
                   | Some words \<Rightarrow> if readable then read_outcome.Text words else Unreadable);
          (s, broken) = Settings.load parse found
      in (s, if broken \<and> renames
             then (case hget files SETTINGS_FILE of
                     Some words \<Rightarrow> hinsert SETTINGS_BROKEN words (hremove SETTINGS_FILE files)
                   | None \<Rightarrow> files)
             else files))"

definition save_all :: "(settings \<Rightarrow> rstring option) \<Rightarrow> (save_outcome \<times> settings) list \<Rightarrow> data_files \<Rightarrow> data_files" where
  "save_all print saves files = foldl (\<lambda>fs (outcome, s). snd (settings_save print outcome s fs)) files saves"

lemma settings_save_file:
  assumes "print s = Some words"
  shows "hget (snd (settings_save print outcome s files)) SETTINGS_FILE =
    (if outcome = Saved then Some words else hget files SETTINGS_FILE)"
  using assms by (cases outcome) (simp_all add: settings_save_def hmap_simps)

lemma save_all_file:
  assumes "\<And>s. s \<in> snd ` set saves \<Longrightarrow> print s \<noteq> None"
  shows "hget (save_all print saves files) SETTINGS_FILE =
    (case filter (\<lambda>(outcome, _). outcome = Saved) saves of [] \<Rightarrow> hget files SETTINGS_FILE | went_through \<Rightarrow> print (snd (last went_through)))"
  using assms
proof (induction saves rule: rev_induct)
  case (snoc save saves)
  obtain outcome s where save: "save = (outcome, s)" by fastforce
  obtain words where "print s = Some words" using snoc.prems [of s] save by auto
  then show ?case using snoc save settings_save_file [of print s words outcome "save_all print saves files"]
    by (auto simp: save_all_def split: list.splits)
qed (simp add: save_all_def)

lemma settings_load_fst:
  "hget files SETTINGS_FILE = hget files' SETTINGS_FILE \<Longrightarrow>
     fst (settings_load parse readable renames files) = fst (settings_load parse readable renames files')"
  by (simp add: settings_load_def case_prod_beta Let_def)

lemma settings_load_snd:
  "snd (settings_load parse True True files) = files \<longleftrightarrow> (\<forall>words. hget files SETTINGS_FILE = Some words \<longrightarrow> parse words \<noteq> None)"
proof -
  have "hinsert SETTINGS_BROKEN words (hremove SETTINGS_FILE files) \<noteq> files" if "hget files SETTINGS_FILE = Some words" for words
  proof
    assume "hinsert SETTINGS_BROKEN words (hremove SETTINGS_FILE files) = files"
    then have "hget files SETTINGS_FILE = hget (hinsert SETTINGS_BROKEN words (hremove SETTINGS_FILE files)) SETTINGS_FILE" by simp
    then show False using that by (simp add: hmap_simps)
  qed
  then show ?thesis by (auto simp: settings_load_def Settings.load_def split: option.splits)
qed

text \<open>
  Claim C18. Saving never spoils the settings. After any saves, each of which may fail or be cut off
  at any of its steps (before the directory is there, in the middle of writing the text, before the
  rename), the next start loads the settings of the last save that went through, and what was there
  before if none did; nothing is moved aside as broken. Of the JSON of the settings it is assumed
  that it is printed and read back, and of the file that was there that it could be read.
\<close>

theorem settings_survive_interruptions:
  assumes json: "\<And>s. s \<in> snd ` set saves \<Longrightarrow> \<exists>words. print s = Some words \<and> parse words = Some s"
    and before: "settings_load parse True True files = (old, files)"
  shows "settings_load parse True True (save_all print saves files) =
    (case filter (\<lambda>(outcome, _). outcome = Saved) saves of [] \<Rightarrow> old | went_through \<Rightarrow> snd (last went_through),
     save_all print saves files)"
proof (cases "filter (\<lambda>(outcome, _). outcome = Saved) saves")
  case Nil
  have "hget (save_all print saves files) SETTINGS_FILE = hget files SETTINGS_FILE"
    using save_all_file [of saves print files] json Nil by fastforce
  then show ?thesis using before Nil settings_load_fst [of "save_all print saves files" files parse True True]
      settings_load_snd [of parse "save_all print saves files"] settings_load_snd [of parse files]
    by (simp add: prod_eq_iff)
next
  case (Cons w ws)
  let ?s = "snd (last (w # ws))"
  have "last (w # ws) \<in> set saves" using Cons by (metis filter_is_subset last_in_set list.distinct(1) subsetD)
  then obtain words where words: "print ?s = Some words" "parse words = Some ?s" using json by blast
  have there: "hget (save_all print saves files) SETTINGS_FILE = Some words"
    using save_all_file [of saves print files] json Cons words(1) by fastforce
  have "fst (settings_load parse True True (save_all print saves files)) = ?s"
    by (simp add: settings_load_def there Settings.load_def words(2))
  then show ?thesis using settings_load_snd [of parse "save_all print saves files"] there words(2) Cons
    by (simp add: prod_eq_iff)
qed

text \<open>One save that went through, one that broke off in the text, one without its rename.\<close>

definition settings_at :: "rstring \<Rightarrow> settings" where
  "settings_at url = default_settings\<lparr>st_server_url := url\<rparr>"

theorem settings_survive_interruptions_witness:
  "fst (settings_load (\<lambda>words. Some (settings_at words)) True True
      (save_all (\<lambda>s. Some (st_server_url s))
        [(Saved, settings_at [1]), (Torn_text [9], settings_at [2]), (Not_renamed, settings_at [3])] [])) = settings_at [1]"
proof -
  have before: "settings_load (\<lambda>words. Some (settings_at words)) True True [] =
      (fst (settings_load (\<lambda>words. Some (settings_at words)) True True []), [])"
    by (simp add: settings_load_def Settings.load_def case_prod_beta)
  have "settings_load (\<lambda>words. Some (settings_at words)) True True
      (save_all (\<lambda>s. Some (st_server_url s))
        [(Saved, settings_at [1]), (Torn_text [9], settings_at [2]), (Not_renamed, settings_at [3])] []) =
    (settings_at [1], save_all (\<lambda>s. Some (st_server_url s))
        [(Saved, settings_at [1]), (Torn_text [9], settings_at [2]), (Not_renamed, settings_at [3])] [])"
    by (subst settings_survive_interruptions [OF _ before]) (auto simp: settings_at_def)
  then show ?thesis by simp
qed

section \<open>Devices of a voice session\<close>

datatype sample_format = F32 | I16 | Other_format rstring

text \<open>The answers of a device on the way to a running stream.\<close>

record device_answers =
  da_present :: bool
  da_config :: "(sample_format \<times> u32 \<times> u16) option"
  da_builds :: bool
  da_plays :: bool

text \<open>The rate is the device's own; only the size of the buffer is set.\<close>

definition pick_config :: "sample_format \<times> u32 \<times> u16 \<Rightarrow> u32 \<times> u16" where
  "pick_config supported = snd supported"

definition start_stream :: "rstring \<Rightarrow> rstring \<Rightarrow> device_answers \<Rightarrow> rstring + sample_format \<times> u32 \<times> u16" where
  "start_stream word verb d =
     (if \<not> da_present d then Inl (str ''no '' @ word @ str '' device'')
      else case da_config d of
             None \<Rightarrow> Inl (str ''asking for an '' @ word @ str '' config'')
           | Some (format, rest) \<Rightarrow>
               (case format of
                  Other_format name \<Rightarrow> Inl (str ''this build cannot '' @ verb @ [32] @ name @ str '' samples'')
                | _ \<Rightarrow>
                    if \<not> da_builds d then Inl (str ''building the '' @ word @ str '' stream'')
                    else if \<not> da_plays d then Inl (str ''starting the '' @ word @ str '' stream'')
                    else Inr (format, pick_config (format, rest))))"

definition start_capture :: "device_answers \<Rightarrow> rstring + sample_format \<times> u32 \<times> u16" where
  "start_capture d = start_stream (str ''input'') (str ''capture'') d"

definition start_playback :: "device_answers \<Rightarrow> rstring + sample_format \<times> u32 \<times> u16" where
  "start_playback d = start_stream (str ''output'') (str ''play'') d"

text \<open>What runs for a session.\<close>

datatype running = Capture_stream | Playback_stream | Tx_thread | Rx_thread

text \<open>
  \<open>VoiceSession::start\<close>: whether the socket opens, the two devices, and whether its handle can be copied
  the two times it has to be. Without a microphone the session listens. A failure drops the streams
  made so far, and nothing else.
\<close>

definition open_session ::
  "rstring option \<Rightarrow> device_answers \<Rightarrow> device_answers \<Rightarrow> bool \<Rightarrow> bool \<Rightarrow> (rstring + unit) \<times> running list" where
  "open_session no_socket input output first_copy second_copy =
     (case no_socket of
        Some e \<Rightarrow> (Inl e, [])
      | None \<Rightarrow>
          let microphone = (case start_capture input of Inr _ \<Rightarrow> [Capture_stream] | Inl _ \<Rightarrow> [])
          in case start_playback output of
               Inl _ \<Rightarrow> (Inl (str ''opening the output device''), [])
             | Inr _ \<Rightarrow>
                 if \<not> first_copy then (Inl (str ''cloning the media socket''), [])
                 else if \<not> second_copy then (Inl (str ''cloning the media socket''), [Tx_thread])
                 else (Inr (), microphone @ [Playback_stream, Tx_thread, Rx_thread]))"

text \<open>Dropping a session: the flag, the streams, and then both threads, each of which ends once it sees the flag.\<close>

datatype drop_step = Raise_stop | Stop_stream running | Join_thread running

definition drop_session :: "running list \<Rightarrow> drop_step list" where
  "drop_session rs =
     Raise_stop # map Stop_stream (filter (\<lambda>r. r \<in> {Capture_stream, Playback_stream}) rs)
       @ map Join_thread (filter (\<lambda>r. r \<in> {Tx_thread, Rx_thread}) rs)"

fun after_step :: "running list \<times> bool \<Rightarrow> drop_step \<Rightarrow> running list \<times> bool" where
  "after_step (rs, flag) Raise_stop = (rs, True)"
| "after_step (rs, flag) (Stop_stream r) = (removeAll r rs, flag)"
| "after_step (rs, flag) (Join_thread r) = (if flag then (removeAll r rs, flag) else (rs, flag))"

text \<open>
  A session ends whole, and starts whole but for one case. Dropping a session that started leaves nothing
  running. A start that fails leaves nothing running, unless the second copy of the socket is what
  fails: then the sending thread, started just before, goes on with nobody to stop it. A missing
  microphone never is what fails.
\<close>

theorem sessions_end_whole:
  "case open_session no_socket input output first_copy second_copy of (result, rs) \<Rightarrow>
     (result = Inr () \<longrightarrow> foldl after_step (rs, False) (drop_session rs) = ([], True) \<and> Tx_thread \<in> set rs)
   \<and> (result \<noteq> Inr () \<longrightarrow> rs = (if no_socket = None \<and> (\<exists>c. start_playback output = Inr c) \<and> first_copy \<and> \<not> second_copy
        then [Tx_thread] else []))
   \<and> (result = Inr () \<longleftrightarrow> no_socket = None \<and> (\<exists>c. start_playback output = Inr c) \<and> first_copy \<and> second_copy)"
  by (cases no_socket; cases "start_capture input"; cases "start_playback output")
    (auto simp: open_session_def drop_session_def Let_def)

section \<open>What is said of losses\<close>

definition loss_describe :: "loss \<Rightarrow> rstring option" where
  "loss_describe l =
     (if ls_incomplete l = 0 \<and> ls_no_room l = 0 then None
      else Some (joined [32, 183, 32]
        ((if ls_incomplete l > 0 then [decimal (unat (ls_incomplete l)) @ str '' incomplete on the wire''] else [])
         @ (if ls_no_room l > 0 then [decimal (unat (ls_no_room l)) @ str '' with nowhere to go (this machine)''] else [])
         @ (if ls_keyframes_lost l > 0 then [decimal (unat (ls_keyframes_lost l)) @ str '' of them keyframes''] else []))))"

section \<open>The log of the last run\<close>

datatype diagnostic = Note rstring | Panic rstring rstring rstring rstring | Clean_exit rstring

fun diagnostic_lines :: "diagnostic \<Rightarrow> rstring list" where
  "diagnostic_lines (Note what) = [str ''note   '' @ what]"
| "diagnostic_lines (Panic thread location message trace) =
     [str ''PANIC  in thread '' @ [39] @ thread @ [39] @ str '' at '' @ location @ str '': '' @ message,
      str ''       backtrace:'' @ [10] @ trace]"
| "diagnostic_lines (Clean_exit reason) = [str ''exit   '' @ reason]"

text \<open>Installing removes the log of the run before; a line that cannot be written is missing.\<close>

definition run_log :: "rstring \<Rightarrow> diagnostic list \<Rightarrow> rstring list" where
  "run_log started ds = (str ''start  '' @ started) # concat (map diagnostic_lines ds)"

text \<open>The log tells a panic from a clean exit, whatever else is in it.\<close>

theorem a_panic_shows:
  "(\<exists>line \<in> set (run_log started ds). take 5 line = str ''PANIC'') \<longleftrightarrow> (\<exists>t l m b. Panic t l m b \<in> set ds)"
proof -
  have "take 5 (str ''note   '') \<noteq> str ''PANIC'' \<and> 5 \<le> length (str ''note   '')"
    "take 5 (str ''exit   '') \<noteq> str ''PANIC'' \<and> 5 \<le> length (str ''exit   '')"
    "take 5 (str ''start  '') \<noteq> str ''PANIC'' \<and> 5 \<le> length (str ''start  '')"
    "take 5 (str ''       backtrace:'') \<noteq> str ''PANIC'' \<and> 5 \<le> length (str ''       backtrace:'')"
    "take 5 (str ''PANIC  in thread '') = str ''PANIC'' \<and> 5 \<le> length (str ''PANIC  in thread '')"
    by code_simp+
  then have heads: "take 5 (str ''note   '' @ w) \<noteq> str ''PANIC''" "take 5 (str ''exit   '' @ w) \<noteq> str ''PANIC''"
    "take 5 (str ''start  '' @ w) \<noteq> str ''PANIC''" "take 5 (str ''       backtrace:'' @ w) \<noteq> str ''PANIC''"
    "take 5 (str ''PANIC  in thread '' @ w) = str ''PANIC''" for w
    by simp_all
  have one: "(\<exists>line \<in> set (diagnostic_lines d). take 5 line = str ''PANIC'') \<longleftrightarrow> (\<exists>t l m b. d = Panic t l m b)" for d
    by (cases d) (simp_all only: diagnostic_lines.simps list.set bex_simps(5,7) bex_empty heads append_assoc simp_thms diagnostic.inject diagnostic.distinct ex_simps)
  have "(\<exists>line \<in> set (run_log started ds). P line) \<longleftrightarrow>
      P (str ''start  '' @ started) \<or> (\<exists>d \<in> set ds. \<exists>line \<in> set (diagnostic_lines d). P line)" for P :: "rstring \<Rightarrow> bool"
    unfolding run_log_def by (simp only: list.set set_concat set_map) blast
  then show ?thesis by (simp only: one heads(3)) blast
qed

section \<open>The server's main\<close>

datatype task_end = Task_returned | Task_failed rstring | Task_panicked rstring

datatype first_to_end = Control_ended task_end | Relay_ended task_end | Janitor_ended | Reporter_ended | Interrupted

definition describe_end :: "rstring \<Rightarrow> task_end \<Rightarrow> rstring" where
  "describe_end what e =
     (case e of
        Task_returned \<Rightarrow> what @ str '' stopped on its own''
      | Task_failed err \<Rightarrow> what @ str '' failed: '' @ err
      | Task_panicked err \<Rightarrow> what @ str '' panicked: '' @ err)"

definition server_outcome :: "first_to_end \<Rightarrow> rstring + unit" where
  "server_outcome e =
     (case e of
        Control_ended t \<Rightarrow> Inl (describe_end (str ''the control listener'') t)
      | Relay_ended t \<Rightarrow> Inl (describe_end (str ''the media relay'') t)
      | Janitor_ended \<Rightarrow> Inl (str ''the janitor stopped'')
      | Reporter_ended \<Rightarrow> Inl (str ''the reporter stopped'')
      | Interrupted \<Rightarrow> Inr ())"

text \<open>The reporter's turn: the relay's counters, how many are online, and whether a line is written.\<close>

definition report_turn :: "u64 \<times> u64 \<times> u64 \<Rightarrow> u64 \<times> u64 \<times> u64 \<Rightarrow> nat \<Rightarrow> bool \<times> (u64 \<times> u64 \<times> u64)" where
  "report_turn previous now present = (if now = previous \<and> present = 0 then (False, previous) else (True, now))"

section \<open>Paths and the clock\<close>

definition attachment_route :: "attachment \<Rightarrow> rstring" where
  "attachment_route att = str ''/attachments/'' @ decimal (unat (id_val (at_id att)))"

definition database_path :: "config \<Rightarrow> rstring list" where
  "database_path c = [cf_data_dir c, str ''boavoice.db'']"

definition blob_dir :: "config \<Rightarrow> rstring list" where
  "blob_dir c = [cf_data_dir c, str ''blobs'']"

text \<open>The system's clock is in nanoseconds from the epoch; both ways of it round towards the epoch.\<close>

definition now_millis :: "int \<Rightarrow> millis" where
  "now_millis nanos = (if nanos \<ge> 0 then nanos div 10 ^ 6 else - ((- nanos) div 10 ^ 6))"

end
