(* ===== verification/SpeakerThreads.thy ===== *)
theory SpeakerThreads
  imports VoiceProps
begin

text \<open>
  The speaker table under its three threads, \<open>slot_for\<close>, \<open>drop_speaker\<close> and what goes with them in
  \<open>crates/boa-client/src/audio/pipeline.rs\<close>. None of it is locked: the receive thread looks for a
  slot and claims it, the interface retires one, the playback callback reads and empties them, each by
  separate accesses to atomics. Here the operations are cut at these accesses, and a run interleaves
  them in any order, sequentially consistent. (The cells of a ring are stored together with the index
  that publishes them, which no other thread looks at before; \<open>RingThreads\<close> cuts these too.)
\<close>

section \<open>Where the threads are\<close>

text \<open>The receive thread, for a packet of a stream: the slot it is at, and what it has loaded.\<close>

datatype rx_at =
    Rx_free
  | Seeking u32 nat                          \<comment> \<open>about to load the stream of a slot, to find its own\<close>
  | Seeking_free u32 nat                     \<comment> \<open>the same, to find a free one\<close>
  | Clearing u32 nat
  | Clearing_to u32 nat u64
  | Unpriming u32 nat
  | Naming u32 nat
  | Naming_as u32 nat u64
  | Claiming u32 nat
  | Holding u32 nat                          \<comment> \<open>has its slot\<close>
  | Pushing u32 nat "sample list" u64
  | Publishing u32 nat "sample list" u64 nat
  | Checking u32 nat
  | Measuring u32 nat
  | Measuring_from u32 nat u64
  | Priming u32 nat

text \<open>The interface, retiring a stream.\<close>

datatype ui_at =
    Ui_free
  | Looking u32 nat
  | Zeroing u32 nat
  | Dropping u32 nat
  | Dropping_to u32 nat u64

text \<open>The playback callback, which wants so many samples of each speaker.\<close>

datatype play_at =
    Play_free
  | Visiting nat nat
  | Reading nat nat
  | Popping nat nat
  | Popping_from nat nat u64
  | Taking nat nat u64 nat
  | Running_dry nat nat

record threads =
  th_shared :: shared
  th_rx :: rx_at
  th_ui :: ui_at
  th_play :: play_at

section \<open>One access\<close>

abbreviation seat :: "shared \<Rightarrow> nat \<Rightarrow> speaker" where
  "seat sh i \<equiv> sh_speakers sh ! i"

definition set_seat :: "nat \<Rightarrow> (speaker \<Rightarrow> speaker) \<Rightarrow> shared \<Rightarrow> shared" where
  "set_seat i f sh = sh\<lparr>sh_speakers := (sh_speakers sh)[i := f (seat sh i)]\<rparr>"

text \<open>\<open>slot_for\<close>, access by access.\<close>

fun slot_access :: "rx_at \<Rightarrow> shared \<Rightarrow> rx_at \<times> shared" where
  "slot_access (Seeking s i) sh =
     (if i < length (sh_speakers sh)
      then if sk_ssrc (seat sh i) = s then (Holding s i, sh) else (Seeking s (i + 1), sh)
      else (Seeking_free s 0, sh))"
| "slot_access (Seeking_free s i) sh =
     (if i < length (sh_speakers sh)
      then if sk_ssrc (seat sh i) = 0 then (Clearing s i, sh) else (Seeking_free s (i + 1), sh)
      else (Rx_free, sh))"
| "slot_access (Clearing s i) sh = (Clearing_to s i (write_ix (sk_ring (seat sh i))), sh)"
| "slot_access (Clearing_to s i w) sh =
     (Unpriming s i, set_seat i (\<lambda>k. k\<lparr>sk_ring := (sk_ring k)\<lparr>read_ix := w\<rparr>\<rparr>) sh)"
| "slot_access (Unpriming s i) sh = (Naming s i, set_seat i (\<lambda>k. k\<lparr>sk_primed := False\<rparr>) sh)"
| "slot_access (Naming s i) sh =
     (Naming_as s i (id_val (case hget (sh_owners sh) s of Some u \<Rightarrow> u | None \<Rightarrow> Id 0)), sh)"
| "slot_access (Naming_as s i u) sh = (Claiming s i, set_seat i (\<lambda>k. k\<lparr>sk_user := u\<rparr>) sh)"
| "slot_access (Claiming s i) sh = (Holding s i, set_seat i (\<lambda>k. k\<lparr>sk_ssrc := s\<rparr>) sh)"
| "slot_access pc sh = (pc, sh)"

text \<open>What follows with the slot: \<open>Ring::push\<close>, and priming if enough is waiting.\<close>

fun fill_access :: "rx_at \<Rightarrow> shared \<Rightarrow> rx_at \<times> shared" where
  "fill_access (Pushing s i samples w) sh =
     (let r = sk_ring (seat sh i)
      in (Publishing s i samples w
            (min (length samples) (ring_capacity r - unat ((w - read_ix r) AND mask r))), sh))"
| "fill_access (Publishing s i samples w taken) sh =
     (Holding s i, set_seat i (\<lambda>k. k\<lparr>sk_ring := (store_from (sk_ring k) w 0 (take taken samples))
        \<lparr>write_ix := (w + word_of_nat taken) AND mask (sk_ring k)\<rparr>\<rparr>) sh)"
| "fill_access (Checking s i) sh = (if sk_primed (seat sh i) then Rx_free else Measuring s i, sh)"
| "fill_access (Measuring s i) sh = (Measuring_from s i (write_ix (sk_ring (seat sh i))), sh)"
| "fill_access (Measuring_from s i w) sh =
     (let r = sk_ring (seat sh i)
      in if unat ((w - read_ix r) AND mask r) \<ge> sh_prime_samples sh then (Priming s i, sh) else (Rx_free, sh))"
| "fill_access (Priming s i) sh = (Rx_free, set_seat i (\<lambda>k. k\<lparr>sk_primed := True\<rparr>) sh)"
| "fill_access pc sh = (pc, sh)"

text \<open>\<open>drop_speaker\<close>.\<close>

fun drop_access :: "ui_at \<Rightarrow> shared \<Rightarrow> ui_at \<times> shared" where
  "drop_access (Looking s i) sh =
     (if i < length (sh_speakers sh)
      then if sk_ssrc (seat sh i) = s then (Zeroing s i, sh) else (Looking s (i + 1), sh)
      else (Ui_free, sh))"
| "drop_access (Zeroing s i) sh = (Dropping s i, set_seat i (\<lambda>k. k\<lparr>sk_ssrc := 0\<rparr>) sh)"
| "drop_access (Dropping s i) sh = (Dropping_to s i (write_ix (sk_ring (seat sh i))), sh)"
| "drop_access (Dropping_to s i w) sh =
     (Looking s (i + 1), set_seat i (\<lambda>k. k\<lparr>sk_ring := (sk_ring k)\<lparr>read_ix := w\<rparr>\<rparr>) sh)"
| "drop_access Ui_free sh = (Ui_free, sh)"

text \<open>The callback's loop over the speakers.\<close>

fun play_access :: "play_at \<Rightarrow> shared \<Rightarrow> play_at \<times> shared" where
  "play_access (Visiting n i) sh =
     (if i < length (sh_speakers sh)
      then if sk_ssrc (seat sh i) = 0 then (Visiting n (i + 1), sh) else (Reading n i, sh)
      else (Play_free, sh))"
| "play_access (Reading n i) sh = (if sk_primed (seat sh i) then Popping n i else Visiting n (i + 1), sh)"
| "play_access (Popping n i) sh = (Popping_from n i (read_ix (sk_ring (seat sh i))), sh)"
| "play_access (Popping_from n i rd) sh =
     (let r = sk_ring (seat sh i) in (Taking n i rd (min n (unat ((write_ix r - rd) AND mask r))), sh))"
| "play_access (Taking n i rd taken) sh =
     (if taken < n then Running_dry n i else Visiting n (i + 1),
      set_seat i (\<lambda>k. k\<lparr>sk_ring := (sk_ring k)\<lparr>read_ix := (rd + word_of_nat taken) AND mask (sk_ring k)\<rparr>\<rparr>) sh)"
| "play_access (Running_dry n i) sh = (Visiting n (i + 1), set_seat i (\<lambda>k. k\<lparr>sk_primed := False\<rparr>) sh)"
| "play_access Play_free sh = (Play_free, sh)"

section \<open>Interleavings\<close>

text \<open>
  The interface's other writes (settings, volumes, who a stream belongs to) leave streams, rings and
  marks alone. The streams it retires are those the server gave, which are never zero.
\<close>

definition only_settings :: "shared \<Rightarrow> shared \<Rightarrow> bool" where
  "only_settings sh sh' \<longleftrightarrow> length (sh_speakers sh') = length (sh_speakers sh)
     \<and> (\<forall>i < length (sh_speakers sh). sk_ssrc (seat sh' i) = sk_ssrc (seat sh i)
          \<and> sk_ring (seat sh' i) = sk_ring (seat sh i) \<and> sk_primed (seat sh' i) = sk_primed (seat sh i))"

inductive thread_step :: "threads \<Rightarrow> threads \<Rightarrow> bool" where
  t_packet: "th_rx y = Rx_free \<Longrightarrow> thread_step y (y\<lparr>th_rx := Seeking s 0\<rparr>)"
| t_slot: "slot_access (th_rx y) (th_shared y) = (pc, sh) \<Longrightarrow> thread_step y (y\<lparr>th_rx := pc, th_shared := sh\<rparr>)"
| t_push: "th_rx y = Holding s i \<Longrightarrow>
    thread_step y (y\<lparr>th_rx := Pushing s i samples (write_ix (sk_ring (seat (th_shared y) i)))\<rparr>)"
| t_check: "th_rx y = Holding s i \<Longrightarrow> thread_step y (y\<lparr>th_rx := Checking s i\<rparr>)"
| t_leave: "th_rx y = Holding s i \<Longrightarrow> thread_step y (y\<lparr>th_rx := Rx_free\<rparr>)"
| t_fill: "fill_access (th_rx y) (th_shared y) = (pc, sh) \<Longrightarrow> thread_step y (y\<lparr>th_rx := pc, th_shared := sh\<rparr>)"
| t_forget: "th_ui y = Ui_free \<Longrightarrow> s \<noteq> 0 \<Longrightarrow> thread_step y (y\<lparr>th_ui := Looking s 0\<rparr>)"
| t_drop: "drop_access (th_ui y) (th_shared y) = (pc, sh) \<Longrightarrow> thread_step y (y\<lparr>th_ui := pc, th_shared := sh\<rparr>)"
| t_settings: "th_ui y = Ui_free \<Longrightarrow> only_settings (th_shared y) sh \<Longrightarrow> thread_step y (y\<lparr>th_shared := sh\<rparr>)"
| t_callback: "th_play y = Play_free \<Longrightarrow> thread_step y (y\<lparr>th_play := Visiting n 0\<rparr>)"
| t_play: "play_access (th_play y) (th_shared y) = (pc, sh) \<Longrightarrow> thread_step y (y\<lparr>th_play := pc, th_shared := sh\<rparr>)"

definition threads_start :: "voice_settings \<Rightarrow> threads" where
  "threads_start v = \<lparr>th_shared = shared_new v, th_rx = Rx_free, th_ui = Ui_free, th_play = Play_free\<rparr>"

section \<open>What each thread knows\<close>

definition once :: "shared \<Rightarrow> bool" where
  "once sh \<longleftrightarrow> length (sh_speakers sh) = MAX_SPEAKERS
     \<and> (\<forall>i < MAX_SPEAKERS. \<forall>j < MAX_SPEAKERS. sk_ssrc (seat sh i) = sk_ssrc (seat sh j) \<longrightarrow> sk_ssrc (seat sh i) \<noteq> 0 \<longrightarrow> i = j)"

definition unseen :: "u32 \<Rightarrow> nat \<Rightarrow> shared \<Rightarrow> bool" where
  "unseen s n sh \<longleftrightarrow> s \<noteq> 0 \<longrightarrow> (\<forall>j < n. sk_ssrc (seat sh j) \<noteq> s)"

definition vacant :: "u32 \<Rightarrow> nat \<Rightarrow> shared \<Rightarrow> bool" where
  "vacant s i sh \<longleftrightarrow> i < MAX_SPEAKERS \<and> sk_ssrc (seat sh i) = 0 \<and> unseen s MAX_SPEAKERS sh"

fun rx_knows :: "rx_at \<Rightarrow> shared \<Rightarrow> bool" where
  "rx_knows Rx_free sh \<longleftrightarrow> True"
| "rx_knows (Seeking s i) sh \<longleftrightarrow> i \<le> MAX_SPEAKERS \<and> unseen s i sh"
| "rx_knows (Seeking_free s i) sh \<longleftrightarrow> unseen s MAX_SPEAKERS sh"
| "rx_knows (Clearing s i) sh \<longleftrightarrow> vacant s i sh"
| "rx_knows (Clearing_to s i w) sh \<longleftrightarrow> vacant s i sh"
| "rx_knows (Unpriming s i) sh \<longleftrightarrow> vacant s i sh"
| "rx_knows (Naming s i) sh \<longleftrightarrow> vacant s i sh \<and> \<not> sk_primed (seat sh i)"
| "rx_knows (Naming_as s i u) sh \<longleftrightarrow> vacant s i sh \<and> \<not> sk_primed (seat sh i)"
| "rx_knows (Claiming s i) sh \<longleftrightarrow> vacant s i sh \<and> \<not> sk_primed (seat sh i)"
| "rx_knows (Measuring_from s i w) sh \<longleftrightarrow> i < MAX_SPEAKERS \<and> w = write_ix (sk_ring (seat sh i))"
| "rx_knows (Holding s i) sh \<longleftrightarrow> i < MAX_SPEAKERS"
| "rx_knows (Pushing s i samples w) sh \<longleftrightarrow> i < MAX_SPEAKERS"
| "rx_knows (Publishing s i samples w taken) sh \<longleftrightarrow> i < MAX_SPEAKERS"
| "rx_knows (Checking s i) sh \<longleftrightarrow> i < MAX_SPEAKERS"
| "rx_knows (Measuring s i) sh \<longleftrightarrow> i < MAX_SPEAKERS"
| "rx_knows (Priming s i) sh \<longleftrightarrow> i < MAX_SPEAKERS"

fun ui_knows :: "ui_at \<Rightarrow> shared \<Rightarrow> bool" where
  "ui_knows Ui_free sh \<longleftrightarrow> True"
| "ui_knows (Looking s i) sh \<longleftrightarrow> s \<noteq> 0"
| "ui_knows (Zeroing s i) sh \<longleftrightarrow> s \<noteq> 0 \<and> i < MAX_SPEAKERS \<and> sk_ssrc (seat sh i) = s"
| "ui_knows (Dropping s i) sh \<longleftrightarrow> s \<noteq> 0"
| "ui_knows (Dropping_to s i w) sh \<longleftrightarrow> s \<noteq> 0"

definition threads_ok :: "threads \<Rightarrow> bool" where
  "threads_ok y \<longleftrightarrow> once (th_shared y) \<and> rx_knows (th_rx y) (th_shared y) \<and> ui_knows (th_ui y) (th_shared y)"

section \<open>Non-interference\<close>

text \<open>
  What the interface and the callback do to a slot while the receive thread is at work: they may
  free it, empty it and take the mark away, but never give it to a stream, mark it or fill it.
\<close>

definition weaker :: "shared \<Rightarrow> shared \<Rightarrow> bool" where
  "weaker sh sh' \<longleftrightarrow> length (sh_speakers sh') = length (sh_speakers sh)
     \<and> (\<forall>i < length (sh_speakers sh). (sk_ssrc (seat sh' i) = sk_ssrc (seat sh i) \<or> sk_ssrc (seat sh' i) = 0)
          \<and> (sk_primed (seat sh' i) \<longrightarrow> sk_primed (seat sh i))
          \<and> write_ix (sk_ring (seat sh' i)) = write_ix (sk_ring (seat sh i)))"

definition same_streams :: "shared \<Rightarrow> shared \<Rightarrow> bool" where
  "same_streams sh sh' \<longleftrightarrow> length (sh_speakers sh') = length (sh_speakers sh)
     \<and> (\<forall>i < length (sh_speakers sh). sk_ssrc (seat sh' i) = sk_ssrc (seat sh i))"

lemma seat_set_seat:
  "seat (set_seat i f sh) j = (if j = i \<and> i < length (sh_speakers sh) then f (seat sh i) else seat sh j)"
  "length (sh_speakers (set_seat i f sh)) = length (sh_speakers sh)"
  "sh_prime_samples (set_seat i f sh) = sh_prime_samples sh" "sh_owners (set_seat i f sh) = sh_owners sh"
  by (auto simp: set_seat_def nth_list_update not_less list_update_beyond)

lemma weaker_set:
  assumes "\<And>k. (sk_ssrc (f k) = sk_ssrc k \<or> sk_ssrc (f k) = 0) \<and> (sk_primed (f k) \<longrightarrow> sk_primed k)
    \<and> write_ix (sk_ring (f k)) = write_ix (sk_ring k)"
  shows "weaker sh (set_seat i f sh)"
  using assms by (simp add: weaker_def seat_set_seat)

lemma same_streams_set: "(\<And>k. sk_ssrc (f k) = sk_ssrc k) \<Longrightarrow> same_streams sh (set_seat i f sh)"
  by (simp add: same_streams_def seat_set_seat)

lemma weaker_refl [simp]: "weaker sh sh" "same_streams sh sh"
  by (simp_all add: weaker_def same_streams_def)

lemma only_settings_weaker: "only_settings sh sh' \<Longrightarrow> weaker sh sh' \<and> same_streams sh sh'"
  by (simp add: only_settings_def weaker_def same_streams_def)

lemma weaker_once:
  assumes "weaker sh sh'" "once sh" shows "once sh'"
proof -
  have w: "sk_ssrc (seat sh' i) = sk_ssrc (seat sh i) \<or> sk_ssrc (seat sh' i) = 0" if "i < MAX_SPEAKERS" for i
    using that assms by (simp add: weaker_def once_def)
  show ?thesis unfolding once_def
  proof (intro conjI allI impI)
    show "length (sh_speakers sh') = MAX_SPEAKERS" using assms by (simp add: weaker_def once_def)
  next
    fix i j assume "i < MAX_SPEAKERS" "j < MAX_SPEAKERS" "sk_ssrc (seat sh' i) = sk_ssrc (seat sh' j)" "sk_ssrc (seat sh' i) \<noteq> 0"
    then show "i = j" using w [of i] w [of j] assms(2) unfolding once_def by metis
  qed
qed

lemma same_once: "same_streams sh sh' \<Longrightarrow> once sh \<Longrightarrow> once sh'"
  by (auto simp: same_streams_def once_def)

lemma weakerD:
  assumes "weaker sh sh'" "once sh" "i < MAX_SPEAKERS"
  shows "sk_ssrc (seat sh' i) = sk_ssrc (seat sh i) \<or> sk_ssrc (seat sh' i) = 0"
    "sk_primed (seat sh' i) \<Longrightarrow> sk_primed (seat sh i)"
    "write_ix (sk_ring (seat sh' i)) = write_ix (sk_ring (seat sh i))"
  using assms by (auto simp: weaker_def once_def)

lemma weaker_unseen: "weaker sh sh' \<Longrightarrow> once sh \<Longrightarrow> n \<le> MAX_SPEAKERS \<Longrightarrow> unseen s n sh \<Longrightarrow> unseen s n sh'"
  unfolding unseen_def by (metis less_le_trans weakerD(1))

lemma weaker_vacant:
  assumes "weaker sh sh'" "once sh" "vacant s i sh" shows "vacant s i sh'"
proof -
  have i: "i < MAX_SPEAKERS" "sk_ssrc (seat sh i) = 0" "unseen s MAX_SPEAKERS sh" using assms(3) by (simp_all add: vacant_def)
  from weakerD(1) [OF assms(1,2) i(1)] weaker_unseen [OF assms(1,2) order.refl i(3)] i
  show ?thesis by (simp add: vacant_def)
qed

lemma weaker_primed:
  "weaker sh sh' \<Longrightarrow> once sh \<Longrightarrow> vacant s i sh \<Longrightarrow> \<not> sk_primed (seat sh i) \<Longrightarrow> \<not> sk_primed (seat sh' i)"
  using weakerD(2) [of sh sh' i] by (auto simp: vacant_def)

lemma weaker_rx:
  assumes "weaker sh sh'" "once sh" "rx_knows pc sh" shows "rx_knows pc sh'"
proof (cases pc)
  case (Seeking s i)
  then show ?thesis using assms weaker_unseen by simp
next
  case (Seeking_free s)
  then show ?thesis using assms weaker_unseen by simp
next
  case (Measuring_from s i w)
  then show ?thesis using assms weakerD(3) by simp
qed (use assms weaker_vacant [OF assms(1,2)] weaker_primed [OF assms(1,2)] in auto)

lemma same_ui: "same_streams sh sh' \<Longrightarrow> once sh \<Longrightarrow> ui_knows pc sh \<Longrightarrow> ui_knows pc sh'"
  by (cases pc) (auto simp: same_streams_def once_def)

section \<open>Every interleaving\<close>

text \<open>A write to its slot that the receive thread makes before it has it.\<close>

lemma preparing:
  assumes "once sh" "vacant s i sh" "ui_knows ui sh"
    and f: "\<And>k. sk_ssrc (f k) = sk_ssrc k \<and> (sk_primed (f k) \<longrightarrow> sk_primed k) \<and> write_ix (sk_ring (f k)) = write_ix (sk_ring k)"
  shows "once (set_seat i f sh)" "vacant s i (set_seat i f sh)" "ui_knows ui (set_seat i f sh)"
    "sk_primed (seat (set_seat i f sh) i) \<longleftrightarrow> sk_primed (f (seat sh i))"
proof -
  have w: "weaker sh (set_seat i f sh)" "same_streams sh (set_seat i f sh)"
    using f by (auto intro: weaker_set same_streams_set)
  show "once (set_seat i f sh)" by (rule weaker_once [OF w(1) assms(1)])
  show "vacant s i (set_seat i f sh)" by (rule weaker_vacant [OF w(1) assms(1,2)])
  show "ui_knows ui (set_seat i f sh)" by (rule same_ui [OF w(2) assms(1,3)])
  show "sk_primed (seat (set_seat i f sh) i) \<longleftrightarrow> sk_primed (f (seat sh i))"
    using assms(1,2) by (simp add: seat_set_seat once_def vacant_def)
qed

lemma slot_access_ok:
  assumes "once sh" "rx_knows pc sh" "ui_knows ui sh" "slot_access pc sh = (pc', sh')"
  shows "once sh' \<and> rx_knows pc' sh' \<and> ui_knows ui sh'"
proof (cases pc)
  case (Seeking s i)
  have len: "length (sh_speakers sh) = MAX_SPEAKERS" using assms(1) by (simp add: once_def)
  have "unseen s (i + 1) sh" if "unseen s i sh" "sk_ssrc (seat sh i) \<noteq> s"
    using that by (auto simp: unseen_def less_Suc_eq)
  then show ?thesis using assms Seeking len by (auto split: if_splits simp: unseen_def)
next
  case (Seeking_free s i)
  then show ?thesis using assms by (auto simp: vacant_def once_def split: if_splits)
next
  case (Clearing_to s i w)
  then have "vacant s i sh" "pc' = Unpriming s i" "sh' = set_seat i (\<lambda>k. k\<lparr>sk_ring := (sk_ring k)\<lparr>read_ix := w\<rparr>\<rparr>) sh"
    using assms(2,4) by simp_all
  with preparing [OF assms(1) this(1) assms(3), of "\<lambda>k. k\<lparr>sk_ring := (sk_ring k)\<lparr>read_ix := w\<rparr>\<rparr>"]
  show ?thesis by simp
next
  case (Unpriming s i)
  then have "vacant s i sh" "pc' = Naming s i" "sh' = set_seat i (\<lambda>k. k\<lparr>sk_primed := False\<rparr>) sh"
    using assms(2,4) by simp_all
  with preparing [OF assms(1) this(1) assms(3), of "\<lambda>k. k\<lparr>sk_primed := False\<rparr>"] show ?thesis by simp
next
  case (Naming_as s i u)
  then have "vacant s i sh" "\<not> sk_primed (seat sh i)" "pc' = Claiming s i" "sh' = set_seat i (\<lambda>k. k\<lparr>sk_user := u\<rparr>) sh"
    using assms(2,4) by simp_all
  with preparing [OF assms(1) this(1) assms(3), of "\<lambda>k. k\<lparr>sk_user := u\<rparr>"] show ?thesis by simp
next
  case (Claiming s i)
  then have v: "i < MAX_SPEAKERS" "sk_ssrc (seat sh i) = 0" "unseen s MAX_SPEAKERS sh" "pc' = Holding s i"
    "sh' = set_seat i (\<lambda>k. k\<lparr>sk_ssrc := s\<rparr>) sh"
    using assms(2,4) by (simp_all add: vacant_def)
  have len: "length (sh_speakers sh) = MAX_SPEAKERS" using assms(1) by (simp add: once_def)
  have streams: "sk_ssrc (seat sh' j) = (if j = i then s else sk_ssrc (seat sh j))" for j
    unfolding v(5) using v(1) len by (simp add: seat_set_seat)
  have "once sh'"
    unfolding once_def
  proof (intro conjI allI impI)
    show "length (sh_speakers sh') = MAX_SPEAKERS" unfolding v(5) using len by (simp add: seat_set_seat)
  next
    fix a b assume "a < MAX_SPEAKERS" "b < MAX_SPEAKERS" "sk_ssrc (seat sh' a) = sk_ssrc (seat sh' b)" "sk_ssrc (seat sh' a) \<noteq> 0"
    then show "a = b" using v(3) assms(1) unfolding streams unseen_def once_def by (metis (full_types))
  qed
  moreover have "ui_knows ui sh'"
    using assms(3) v(2) by (cases ui) (auto simp: streams)
  ultimately show ?thesis using v(1,4) by simp
qed (use assms in auto)

lemma fill_access_ok:
  assumes "once sh" "rx_knows pc sh" "ui_knows ui sh" "fill_access pc sh = (pc', sh')"
  shows "once sh' \<and> rx_knows pc' sh' \<and> ui_knows ui sh'"
proof -
  have same: "same_streams sh sh'"
  proof (cases pc)
    case (Publishing s i samples w taken)
    then show ?thesis using assms(4) by (auto simp: Let_def intro!: same_streams_set)
  next
    case (Priming s i)
    then show ?thesis using assms(4) by (auto intro!: same_streams_set)
  qed (use assms(4) in \<open>auto simp: Let_def split: if_splits\<close>)
  have "rx_knows pc' sh'"
    using assms(2,4) by (cases pc) (auto simp: Let_def split: if_splits)
  with same same_once [OF same assms(1)] same_ui [OF same assms(1,3)] show ?thesis by simp
qed

lemma drop_access_ok:
  assumes "once sh" "rx_knows pc sh" "ui_knows ui sh" "drop_access ui sh = (ui', sh')"
  shows "once sh' \<and> rx_knows pc sh' \<and> ui_knows ui' sh'"
proof -
  have w: "weaker sh sh'"
    using assms(4) by (cases ui) (auto intro!: weaker_set split: if_splits)
  have "ui_knows ui' sh'"
    using assms(1,3,4) by (cases ui) (auto simp: once_def split: if_splits)
  with weaker_once [OF w assms(1)] weaker_rx [OF w assms(1,2)] show ?thesis by simp
qed

lemma play_access_ok:
  assumes "play_access p sh = (p', sh')" shows "weaker sh sh' \<and> same_streams sh sh'"
  using assms by (cases p) (auto intro!: weaker_set same_streams_set simp: Let_def split: if_splits)

lemma threads_ok_parts:
  "threads_ok y \<longleftrightarrow> once (th_shared y) \<and> rx_knows (th_rx y) (th_shared y) \<and> ui_knows (th_ui y) (th_shared y)"
  by (simp add: threads_ok_def)

lemma threads_ok_step: "thread_step y y' \<Longrightarrow> threads_ok y \<Longrightarrow> threads_ok y'"
proof (induction rule: thread_step.induct)
  case (t_packet y s)
  then show ?case by (simp add: threads_ok_parts unseen_def)
next
  case (t_slot y pc sh)
  then show ?case using slot_access_ok [OF _ _ _ t_slot.hyps, of "th_ui y"] by (simp add: threads_ok_parts)
next
  case (t_push y s i samples)
  then show ?case by (simp add: threads_ok_parts)
next
  case (t_check y s i)
  then show ?case by (simp add: threads_ok_parts)
next
  case (t_leave y s i)
  then show ?case by (simp add: threads_ok_parts)
next
  case (t_fill y pc sh)
  then show ?case using fill_access_ok [OF _ _ _ t_fill.hyps, of "th_ui y"] by (simp add: threads_ok_parts)
next
  case (t_forget y s)
  then show ?case by (simp add: threads_ok_parts)
next
  case (t_drop y pc sh)
  then show ?case using drop_access_ok [OF _ _ _ t_drop.hyps, of "th_rx y"] by (simp add: threads_ok_parts)
next
  case (t_settings y sh)
  have w: "weaker (th_shared y) sh" "same_streams (th_shared y) sh"
    using only_settings_weaker [OF t_settings.hyps(2)] by simp_all
  show ?case using t_settings.prems weaker_once [OF w(1)] weaker_rx [OF w(1)] same_ui [OF w(2)]
    by (simp add: threads_ok_parts)
next
  case (t_callback y n)
  then show ?case by (simp add: threads_ok_parts)
next
  case (t_play y pc sh)
  have w: "weaker (th_shared y) sh" "same_streams (th_shared y) sh"
    using play_access_ok [OF t_play.hyps] by simp_all
  show ?case using t_play.prems weaker_once [OF w(1)] weaker_rx [OF w(1)] same_ui [OF w(2)]
    by (simp add: threads_ok_parts)
qed

interpretation table: invariant_system threads_ok thread_step
  by unfold_locales (rule threads_ok_step)

lemma threads_ok_start: "threads_ok (threads_start v)"
  by (simp add: threads_ok_def threads_start_def once_def shared_new_def free_speaker_def)

section \<open>A thread that is left alone\<close>

text \<open>Without the others in between, the accesses come to what the operations of \<open>Voice\<close> do in one.\<close>

definition moves :: "('p \<Rightarrow> shared \<Rightarrow> 'p \<times> shared) \<Rightarrow> 'p \<times> shared \<Rightarrow> 'p \<times> shared \<Rightarrow> bool" where
  "moves access x y \<longleftrightarrow> y = access (fst x) (snd x)"

lemma moves_more: "(moves access)\<^sup>*\<^sup>* (access pc sh) z \<Longrightarrow> (moves access)\<^sup>*\<^sup>* (pc, sh) z"
  by (rule converse_rtranclp_into_rtranclp) (simp_all add: moves_def)

lemma seeking_alone:
  "(moves slot_access)\<^sup>*\<^sup>* (Seeking s i, sh)
     (case position (\<lambda>k. sk_ssrc k = s) (drop i (sh_speakers sh)) of
        Some k \<Rightarrow> (Holding s (i + k), sh) | None \<Rightarrow> (Seeking_free s 0, sh))"
proof (induction "length (sh_speakers sh) - i" arbitrary: i)
  case 0
  then show ?case by (intro moves_more) simp
next
  case (Suc n)
  then have i: "i < length (sh_speakers sh)" by simp
  then have d: "drop i (sh_speakers sh) = seat sh i # drop (i + 1) (sh_speakers sh)" by (simp add: Cons_nth_drop_Suc)
  show ?case
  proof (cases "sk_ssrc (seat sh i) = s")
    case True
    then show ?thesis using i by (intro moves_more) (simp add: d)
  next
    case False
    have "n = length (sh_speakers sh) - (i + 1)" using Suc.hyps(2) by simp
    from Suc.hyps(1) [OF this] show ?thesis using i False
      by (intro moves_more) (simp add: d split: option.splits)
  qed
qed

lemma seeking_free_alone:
  "(moves slot_access)\<^sup>*\<^sup>* (Seeking_free s i, sh)
     (case position (\<lambda>k. sk_ssrc k = 0) (drop i (sh_speakers sh)) of
        Some k \<Rightarrow> (Clearing s (i + k), sh) | None \<Rightarrow> (Rx_free, sh))"
proof (induction "length (sh_speakers sh) - i" arbitrary: i)
  case 0
  then show ?case by (intro moves_more) simp
next
  case (Suc n)
  then have i: "i < length (sh_speakers sh)" by simp
  then have d: "drop i (sh_speakers sh) = seat sh i # drop (i + 1) (sh_speakers sh)" by (simp add: Cons_nth_drop_Suc)
  show ?case
  proof (cases "sk_ssrc (seat sh i) = 0")
    case True
    then show ?thesis using i by (intro moves_more) (simp add: d)
  next
    case False
    have "n = length (sh_speakers sh) - (i + 1)" using Suc.hyps(2) by simp
    from Suc.hyps(1) [OF this] show ?thesis using i False
      by (intro moves_more) (simp add: d split: option.splits)
  qed
qed

lemma claiming_alone:
  assumes "i < length (sh_speakers sh)"
  shows "(moves slot_access)\<^sup>*\<^sup>* (Clearing s i, sh)
    (Holding s i, sh\<lparr>sh_speakers := (sh_speakers sh)[i := (seat sh i)\<lparr>sk_ring := clear (sk_ring (seat sh i)), sk_primed := False,
       sk_user := id_val (case hget (sh_owners sh) s of Some u \<Rightarrow> u | None \<Rightarrow> Id 0), sk_ssrc := s\<rparr>]\<rparr>)"
  using assms by (intro moves_more | simp add: set_seat_def clear_def)+

theorem slot_for_alone:
  "(moves slot_access)\<^sup>*\<^sup>* (Seeking s 0, sh)
     (case fst (slot_for s sh) of Some i \<Rightarrow> Holding s i | None \<Rightarrow> Rx_free, snd (slot_for s sh))"
proof (cases "position (\<lambda>k. sk_ssrc k = s) (sh_speakers sh)")
  case (Some k)
  then show ?thesis using seeking_alone [of s 0 sh] by (simp add: slot_for_def)
next
  case None
  then have one: "(moves slot_access)\<^sup>*\<^sup>* (Seeking s 0, sh) (Seeking_free s 0, sh)"
    using seeking_alone [of s 0 sh] by simp
  show ?thesis
  proof (cases "position (\<lambda>k. sk_ssrc k = 0) (sh_speakers sh)")
    case None
    then show ?thesis using one seeking_free_alone [of s 0 sh] \<open>position (\<lambda>k. sk_ssrc k = s) (sh_speakers sh) = None\<close>
      by (simp add: slot_for_def)
  next
    case (Some i)
    then have "i < length (sh_speakers sh)" using position_Some by blast
    from claiming_alone [OF this, of s] one seeking_free_alone [of s 0 sh] Some
      \<open>position (\<lambda>k. sk_ssrc k = s) (sh_speakers sh) = None\<close>
    show ?thesis by (auto simp: slot_for_def Let_def)
  qed
qed

lemma drop_from_alone:
  assumes "i \<le> length (sh_speakers sh)"
  shows "(moves drop_access)\<^sup>*\<^sup>* (Looking s i, sh)
    (Ui_free, sh\<lparr>sh_speakers := take i (sh_speakers sh) @ map (\<lambda>k. if sk_ssrc k = s
       then k\<lparr>sk_ssrc := 0, sk_ring := clear (sk_ring k)\<rparr> else k) (drop i (sh_speakers sh))\<rparr>)"
  using assms
proof (induction "length (sh_speakers sh) - i" arbitrary: i sh)
  case 0
  then show ?case by (intro moves_more) simp
next
  case (Suc n)
  then have i: "i < length (sh_speakers sh)" by simp
  then have d: "drop i (sh_speakers sh) = seat sh i # drop (i + 1) (sh_speakers sh)"
    "take (i + 1) (sh_speakers sh) = take i (sh_speakers sh) @ [seat sh i]"
    by (simp_all add: Cons_nth_drop_Suc take_Suc_conv_app_nth)
  show ?case
  proof (cases "sk_ssrc (seat sh i) = s")
    case True
    let ?sh = "sh\<lparr>sh_speakers := (sh_speakers sh)[i := (seat sh i)\<lparr>sk_ssrc := 0, sk_ring := clear (sk_ring (seat sh i))\<rparr>]\<rparr>"
    have start: "(moves drop_access)\<^sup>*\<^sup>* (Looking s (i + 1), ?sh) z \<Longrightarrow> (moves drop_access)\<^sup>*\<^sup>* (Looking s i, sh) z" for z
      using i True by (intro moves_more | simp add: set_seat_def clear_def)+
    have n: "n = length (sh_speakers ?sh) - (i + 1)" "i + 1 \<le> length (sh_speakers ?sh)" using Suc.hyps(2) i by simp_all
    show ?thesis using start [OF Suc.hyps(1) [OF n]] i True
      by (simp add: d take_update_swap upd_conv_take_nth_drop drop_update_swap)
  next
    case False
    have n: "n = length (sh_speakers sh) - (i + 1)" "i + 1 \<le> length (sh_speakers sh)" using Suc.hyps(2) i by simp_all
    from Suc.hyps(1) [OF n] show ?thesis using i False
      by (intro moves_more) (simp add: d(1) take_Suc_conv_app_nth)
  qed
qed

theorem drop_speaker_alone:
  "(moves drop_access)\<^sup>*\<^sup>* (Looking s 0, sh) (Ui_free, drop_speaker s sh)"
  using drop_from_alone [of 0 sh s] by (simp add: drop_speaker_def)

section \<open>No stream has two slots\<close>

lemma slot_access_streams:
  assumes "slot_access pc sh = (pc', sh')" "i < MAX_SPEAKERS" "once sh" "rx_knows pc sh"
  shows "(sk_ssrc (seat sh' i) = sk_ssrc (seat sh i)
      \<or> sk_ssrc (seat sh i) = 0 \<and> pc = Claiming (sk_ssrc (seat sh' i)) i \<and> \<not> sk_primed (seat sh' i))
    \<and> (sk_primed (seat sh' i) \<longrightarrow> sk_primed (seat sh i))"
  using assms by (cases pc) (auto simp: seat_set_seat vacant_def once_def split: if_splits)

lemma fill_access_streams:
  assumes "fill_access pc sh = (pc', sh')"
  shows "sk_ssrc (seat sh' i) = sk_ssrc (seat sh i)
    \<and> (sk_primed (seat sh' i) \<longrightarrow> sk_primed (seat sh i) \<or> (\<exists>s. pc = Priming s i))
    \<and> (\<forall>s j. pc' = Priming s j \<longrightarrow> pc \<noteq> Priming s j \<longrightarrow> (\<exists>w. pc = Measuring_from s j w
        \<and> sh_prime_samples sh \<le> unat ((w - read_ix (sk_ring (seat sh j))) AND mask (sk_ring (seat sh j)))))"
  using assms by (cases pc) (auto simp: seat_set_seat Let_def split: if_splits)

lemma drop_access_streams:
  assumes "drop_access ui sh = (ui', sh')" "i < MAX_SPEAKERS" "once sh" "ui_knows ui sh"
  shows "(sk_ssrc (seat sh' i) = sk_ssrc (seat sh i) \<or> sk_ssrc (seat sh' i) = 0 \<and> ui = Zeroing (sk_ssrc (seat sh i)) i)
    \<and> sk_primed (seat sh' i) = sk_primed (seat sh i)"
  using assms by (cases ui) (auto simp: seat_set_seat once_def split: if_splits)

definition change_of_hands :: "threads \<Rightarrow> threads \<Rightarrow> nat \<Rightarrow> bool" where
  "change_of_hands y y' i \<longleftrightarrow>
     (let before = seat (th_shared y) i; after = seat (th_shared y') i
      in (sk_ssrc after = sk_ssrc before
          \<or> sk_ssrc before = 0 \<and> th_rx y = Claiming (sk_ssrc after) i \<and> \<not> sk_primed after
          \<or> sk_ssrc after = 0 \<and> th_ui y = Zeroing (sk_ssrc before) i)
       \<and> (sk_primed after \<longrightarrow> sk_primed before \<or> (\<exists>s. th_rx y = Priming s i)))"

lemma changes_hands:
  assumes "thread_step y y'" "threads_ok y" "i < MAX_SPEAKERS"
  shows "change_of_hands y y' i"
  using assms
proof (induction rule: thread_step.induct)
  case (t_slot y pc sh)
  then show ?case using slot_access_streams [OF t_slot.hyps]
    by (simp add: threads_ok_parts change_of_hands_def Let_def) blast
next
  case (t_fill y pc sh)
  then show ?case using fill_access_streams [OF t_fill.hyps, of i]
    by (simp add: change_of_hands_def Let_def)
next
  case (t_drop y pc sh)
  then show ?case using drop_access_streams [OF t_drop.hyps]
    by (simp add: threads_ok_parts change_of_hands_def Let_def) blast
next
  case (t_settings y sh)
  then show ?case
    by (simp add: threads_ok_parts change_of_hands_def only_settings_def once_def Let_def)
next
  case (t_play y pc sh)
  then have "once (th_shared y)" by (simp add: threads_ok_parts)
  moreover have "weaker (th_shared y) sh" "same_streams (th_shared y) sh" using play_access_ok [OF t_play.hyps] by simp_all
  ultimately show ?case using t_play.prems(2)
    by (simp add: change_of_hands_def weaker_def same_streams_def once_def Let_def)
qed (simp_all add: change_of_hands_def)

lemma primes_when_measured:
  assumes "thread_step y y'" "threads_ok y" "th_rx y' = Priming s i" "th_rx y \<noteq> Priming s i"
  shows "sh_prime_samples (th_shared y) \<le> ring_len (sk_ring (seat (th_shared y) i))"
  using assms
proof (induction rule: thread_step.induct)
  case (t_slot y pc sh)
  then show ?case by (cases "th_rx y") (auto split: if_splits)
next
  case (t_fill y pc sh)
  then obtain w where w: "th_rx y = Measuring_from s i w"
    "sh_prime_samples (th_shared y) \<le> unat ((w - read_ix (sk_ring (seat (th_shared y) i))) AND mask (sk_ring (seat (th_shared y) i)))"
    using fill_access_streams [OF t_fill.hyps] by auto
  then have "w = write_ix (sk_ring (seat (th_shared y) i))" using t_fill.prems(1) by (simp add: threads_ok_parts)
  then show ?case using w(2) by (simp add: ring_len_def)
qed simp_all

text \<open>
  Claim C40. No stream ever has two slots, however the single accesses of the receive thread, the
  interface and the playback callback interleave: looking for a slot and claiming it take up to
  forty of them, without a lock. A slot becomes a stream's only by the receive thread's last store of
  a claim, from free, and not marked as ready; it is taken from a stream only by the interface
  retiring that very stream. Only the receive thread marks a slot as ready, and it decides to only when
  at that moment the ring holds at least the jitter buffer's samples. (That the samples are still
  there when the mark is set does not hold, see \<open>a_late_clear_empties_a_ready_slot\<close>.)
\<close>

theorem no_stream_has_two_slots:
  assumes "thread_step\<^sup>*\<^sup>* (threads_start v) y"
  shows "length (sh_speakers (th_shared y)) = MAX_SPEAKERS
    \<and> distinct (filter (\<lambda>ssrc. ssrc \<noteq> 0) (map sk_ssrc (sh_speakers (th_shared y))))
    \<and> (\<forall>y'. thread_step y y' \<longrightarrow>
        (\<forall>i < MAX_SPEAKERS. change_of_hands y y' i)
      \<and> (\<forall>s i. th_rx y' = Priming s i \<longrightarrow> th_rx y \<noteq> Priming s i \<longrightarrow>
           sh_prime_samples (th_shared y) \<le> ring_len (sk_ring (seat (th_shared y) i))))"
proof -
  have ok: "threads_ok y" by (rule table.run_keeps [OF assms threads_ok_start])
  then have once: "once (th_shared y)" by (simp add: threads_ok_parts)
  have "distinct (filter (\<lambda>ssrc. ssrc \<noteq> 0) (map sk_ssrc (sh_speakers (th_shared y))))"
    using once by (intro distinct_filter_map) (simp add: once_def)
  then show ?thesis using once changes_hands [OF _ ok] primes_when_measured [OF _ ok] by (auto simp: once_def)
qed

section \<open>A late clear\<close>

lemma run_rx_moves:
  assumes "(moves slot_access)\<^sup>*\<^sup>* x z"
  shows "thread_step\<^sup>*\<^sup>* (y\<lparr>th_rx := fst x, th_shared := snd x\<rparr>) (y\<lparr>th_rx := fst z, th_shared := snd z\<rparr>)"
  using assms
proof (induction rule: rtranclp_induct)
  case (step b c)
  have "thread_step (y\<lparr>th_rx := fst b, th_shared := snd b\<rparr>) (y\<lparr>th_rx := fst b, th_shared := snd b, th_rx := fst c, th_shared := snd c\<rparr>)"
    using step.hyps(2) by (intro t_slot) (simp add: moves_def)
  with step.IH show ?case by simp
qed simp

text \<open>A stream that finds the table free takes the first slot.\<close>

lemma takes_first:
  assumes "sh_speakers sh = k # rest" "sk_ssrc k = 0" "\<forall>r \<in> set rest. sk_ssrc r = 0" "s \<noteq> 0"
  shows "\<exists>k'. thread_step\<^sup>*\<^sup>* \<lparr>th_shared = sh, th_rx = Rx_free, th_ui = ui, th_play = p\<rparr>
      \<lparr>th_shared = sh\<lparr>sh_speakers := k' # rest\<rparr>, th_rx = Holding s 0, th_ui = ui, th_play = p\<rparr>
    \<and> sk_ssrc k' = s \<and> \<not> sk_primed k' \<and> sk_ring k' = clear (sk_ring k)"
proof -
  have "position (\<lambda>k. sk_ssrc k = s) (sh_speakers sh) = None" using assms by (auto simp: position_None)
  then obtain k' where slot: "slot_for s sh = (Some 0, sh\<lparr>sh_speakers := k' # rest\<rparr>)" "sk_ssrc k' = s" "\<not> sk_primed k'"
    "sk_ring k' = clear (sk_ring k)"
    using assms by (simp add: slot_for_def Let_def)
  let ?y = "\<lparr>th_shared = sh, th_rx = Rx_free, th_ui = ui, th_play = p\<rparr>"
  have "thread_step ?y (?y\<lparr>th_rx := Seeking s 0\<rparr>)" by (rule t_packet) simp
  moreover have "thread_step\<^sup>*\<^sup>* (?y\<lparr>th_rx := Seeking s 0\<rparr>) (?y\<lparr>th_rx := Holding s 0, th_shared := sh\<lparr>sh_speakers := k' # rest\<rparr>\<rparr>)"
    using run_rx_moves [OF slot_for_alone [of s sh], of ?y] slot(1) by simp
  ultimately show ?thesis using slot(2-4) by (intro exI [of _ k']) (auto intro: converse_rtranclp_into_rtranclp)
qed

text \<open>Samples for a slot that holds none, and the decision to mark it.\<close>

lemma fills_first:
  fixes samples :: "sample list"
  assumes "sh_speakers sh = k # rest" "\<not> sk_primed k" "ring_inv (sk_ring k)" "contents (sk_ring k) = []"
    and "sh_prime_samples sh \<le> length samples" "length samples \<le> ring_capacity (sk_ring k)"
  shows "\<exists>r. thread_step\<^sup>*\<^sup>* \<lparr>th_shared = sh, th_rx = Holding s 0, th_ui = ui, th_play = p\<rparr>
      \<lparr>th_shared = sh\<lparr>sh_speakers := k\<lparr>sk_ring := r\<rparr> # rest\<rparr>, th_rx = Priming s 0, th_ui = ui, th_play = p\<rparr>"
proof -
  let ?r = "sk_ring k"
  obtain n r where push: "push ?r samples = (n, r)" by fastforce
  have spec: "n = length samples" "length (contents r) = length samples"
    using push_spec [OF assms(3) push] assms(4,6) by simp_all
  let ?sh = "sh\<lparr>sh_speakers := k\<lparr>sk_ring := r\<rparr> # rest\<rparr>"
  let ?y = "\<lambda>pc sh. \<lparr>th_shared = sh, th_rx = pc, th_ui = ui, th_play = p\<rparr>"
  have fill: "thread_step (?y pc sh1) (?y pc' sh2)" if "fill_access pc sh1 = (pc', sh2)" for pc pc' sh1 sh2
    using t_fill [of "?y pc sh1" pc' sh2] that by simp
  have "thread_step (?y (Holding s 0) sh) (?y (Pushing s 0 samples (write_ix ?r)) sh)"
    using t_push [of "?y (Holding s 0) sh" s 0 samples] assms(1) by simp
  moreover have "thread_step (?y (Pushing s 0 samples (write_ix ?r)) sh) (?y (Publishing s 0 samples (write_ix ?r) n) sh)"
    using push assms(1) by (intro fill) (auto simp: push_def Let_def)
  moreover have "thread_step (?y (Publishing s 0 samples (write_ix ?r) n) sh) (?y (Holding s 0) ?sh)"
  proof (rule fill)
    have "store_from ?r (write_ix ?r) 0 (take n samples)
        \<lparr>write_ix := (write_ix ?r + word_of_nat n) AND mask ?r\<rparr> = r"
      using push spec(1) by (auto simp: push_def Let_def)
    then show "fill_access (Publishing s 0 samples (write_ix ?r) n) sh = (Holding s 0, ?sh)"
      using assms(1) by (simp add: set_seat_def Let_def)
  qed
  moreover have "thread_step (?y (Holding s 0) ?sh) (?y (Checking s 0) ?sh)"
    using t_check [of "?y (Holding s 0) ?sh" s 0] by simp
  moreover have "thread_step (?y (Checking s 0) ?sh) (?y (Measuring s 0) ?sh)"
    using assms(2) by (intro fill) simp
  moreover have "thread_step (?y (Measuring s 0) ?sh) (?y (Measuring_from s 0 (write_ix r)) ?sh)"
    by (intro fill) simp
  moreover have "sh_prime_samples sh \<le> ring_len r" using spec(2) assms(5) by simp
  then have "thread_step (?y (Measuring_from s 0 (write_ix r)) ?sh) (?y (Priming s 0) ?sh)"
    by (intro fill) (simp add: Let_def ring_len_def)
  ultimately show ?thesis by (intro exI [of _ r]) (meson converse_rtranclp_into_rtranclp rtranclp.rtrancl_refl)
qed


text \<open>
  The interface retires a stream: it frees the slot first, and empties its ring only after that. In
  between the receive thread can give the slot to somebody else and fill it. Then the late clear
  takes that speaker's first samples, and the slot is marked as ready with nothing in it: playback
  starts without the jitter buffer.
\<close>

theorem a_late_clear_empties_a_ready_slot:
  "\<exists>y. thread_step\<^sup>*\<^sup>* (threads_start default_voice) y
    \<and> sk_ssrc (seat (th_shared y) 0) = 8 \<and> sk_primed (seat (th_shared y) 0) \<and> ring_len (sk_ring (seat (th_shared y) 0)) = 0
    \<and> 0 < sh_prime_samples (th_shared y)"
proof -
  let ?sh = "shared_new default_voice" and ?rest = "replicate 15 free_speaker"
  have sh: "sh_speakers ?sh = free_speaker # ?rest" "sh_prime_samples ?sh = 5760"
    by (simp_all add: shared_new_def MAX_SPEAKERS_def numeral_eq_Suc)
       (simp add: default_voice_def prime_samples_def VOICE_SAMPLE_RATE_def u32_clamp_def)
  have free: "sk_ssrc free_speaker = 0" "\<forall>r \<in> set ?rest. sk_ssrc r = 0" "sk_ring free_speaker = ring_new PLAYBACK_RING"
    by (simp_all add: free_speaker_def)
  obtain k where one: "thread_step\<^sup>*\<^sup>* (threads_start default_voice)
      \<lparr>th_shared = ?sh\<lparr>sh_speakers := k # ?rest\<rparr>, th_rx = Holding 7 0, th_ui = Ui_free, th_play = Play_free\<rparr>"
    "sk_ssrc k = 7" "\<not> sk_primed k" "sk_ring k = clear (ring_new PLAYBACK_RING)"
    using takes_first [OF sh(1) free(1,2), of 7 Ui_free Play_free] free(3) by (auto simp: threads_start_def)
  let ?k0 = "k\<lparr>sk_ssrc := 0\<rparr>"
  let ?y = "\<lambda>ks rx ui. \<lparr>th_shared = ?sh\<lparr>sh_speakers := ks # ?rest\<rparr>, th_rx = rx, th_ui = ui, th_play = Play_free\<rparr>"
  have left: "thread_step (?y k (Holding 7 0) Ui_free) (?y k Rx_free Ui_free)"
    using t_leave [of "?y k (Holding 7 0) Ui_free" 7 0] by simp
  have retire: "thread_step (?y k Rx_free Ui_free) (?y k Rx_free (Looking 7 0))"
    "thread_step (?y k Rx_free (Looking 7 0)) (?y k Rx_free (Zeroing 7 0))"
    "thread_step (?y k Rx_free (Zeroing 7 0)) (?y ?k0 Rx_free (Dropping 7 0))"
    using t_forget [of "?y k Rx_free Ui_free" 7] one(2)
      t_drop [of "?y k Rx_free (Looking 7 0)"] t_drop [of "?y k Rx_free (Zeroing 7 0)"]
    by (simp_all add: set_seat_def)
  obtain k1 where two: "thread_step\<^sup>*\<^sup>* (?y ?k0 Rx_free (Dropping 7 0)) (?y k1 (Holding 8 0) (Dropping 7 0))"
    "sk_ssrc k1 = 8" "\<not> sk_primed k1" "sk_ring k1 = clear (clear (ring_new PLAYBACK_RING))"
    using takes_first [of "?sh\<lparr>sh_speakers := ?k0 # ?rest\<rparr>" ?k0 ?rest 8 "Dropping 7 0" Play_free] free(2) one(4) by auto
  have ring: "ring_inv (sk_ring k1)" "contents (sk_ring k1) = []" "ring_capacity (sk_ring k1) = 131071"
    unfolding two(4) using playback_ring clear_spec by simp_all
  have "sh_prime_samples (?sh\<lparr>sh_speakers := k1 # ?rest\<rparr>) \<le> length (replicate 5760 (0 :: sample))"
    "length (replicate 5760 (0 :: sample)) \<le> ring_capacity (sk_ring k1)"
    using sh(2) ring(3) by simp_all
  from fills_first [of "?sh\<lparr>sh_speakers := k1 # ?rest\<rparr>" k1 ?rest, OF _ two(3) ring(1,2) this, of 8 "Dropping 7 0" Play_free]
  obtain r where three: "thread_step\<^sup>*\<^sup>* (?y k1 (Holding 8 0) (Dropping 7 0)) (?y (k1\<lparr>sk_ring := r\<rparr>) (Priming 8 0) (Dropping 7 0))"
    by auto
  let ?k2 = "k1\<lparr>sk_ring := r\<rparr>" and ?k3 = "k1\<lparr>sk_ring := clear r\<rparr>"
  have clears: "thread_step (?y ?k2 (Priming 8 0) (Dropping 7 0)) (?y ?k2 (Priming 8 0) (Dropping_to 7 0 (write_ix r)))"
    "thread_step (?y ?k2 (Priming 8 0) (Dropping_to 7 0 (write_ix r))) (?y ?k3 (Priming 8 0) (Looking 7 1))"
    using t_drop [of "?y ?k2 (Priming 8 0) (Dropping 7 0)"] t_drop [of "?y ?k2 (Priming 8 0) (Dropping_to 7 0 (write_ix r))"]
    by (simp_all add: set_seat_def clear_def)
  have marks: "thread_step (?y ?k3 (Priming 8 0) (Looking 7 1)) (?y (?k3\<lparr>sk_primed := True\<rparr>) Rx_free (Looking 7 1))"
    using t_fill [of "?y ?k3 (Priming 8 0) (Looking 7 1)"] by (simp add: set_seat_def)
  have "thread_step\<^sup>*\<^sup>* (threads_start default_voice) (?y (?k3\<lparr>sk_primed := True\<rparr>) Rx_free (Looking 7 1))"
    using one(1) left retire two(1) three clears marks by (meson rtranclp.rtrancl_into_rtrancl rtranclp_trans)
  then show ?thesis using two(2) sh(2)
    by (intro exI [of _ "?y (?k3\<lparr>sk_primed := True\<rparr>) Rx_free (Looking 7 1)"]) (simp add: ring_len_def clear_def)
qed

text \<open>The first packet of a stream gives it a slot.\<close>

theorem no_stream_has_two_slots_witness:
  "\<exists>y. thread_step\<^sup>*\<^sup>* (threads_start default_voice) y \<and> sk_ssrc (seat (th_shared y) 0) = 7
    \<and> distinct (filter (\<lambda>ssrc. ssrc \<noteq> 0) (map sk_ssrc (sh_speakers (th_shared y))))"
proof -
  let ?sh = "shared_new default_voice" and ?rest = "replicate 15 free_speaker"
  have sh: "sh_speakers ?sh = free_speaker # ?rest" by (simp add: shared_new_def MAX_SPEAKERS_def numeral_eq_Suc)
  have free: "sk_ssrc free_speaker = 0" "\<forall>r \<in> set ?rest. sk_ssrc r = 0" by (simp_all add: free_speaker_def)
  obtain k where run: "thread_step\<^sup>*\<^sup>* (threads_start default_voice)
      \<lparr>th_shared = ?sh\<lparr>sh_speakers := k # ?rest\<rparr>, th_rx = Holding 7 0, th_ui = Ui_free, th_play = Play_free\<rparr>"
    "sk_ssrc k = 7"
    using takes_first [OF sh free, of 7 Ui_free Play_free] by (auto simp: threads_start_def)
  from no_stream_has_two_slots [OF run(1)] run show ?thesis by (intro exI conjI) (assumption, simp_all)
qed

end
