(* ===== verification/Spec2Isabelle.thy ===== *)
theory Spec2Isabelle
  imports Relay MediaProps RingThreads RecvOrder Governor ClientProps HistoryPaging HttpProps
    ShareProps ShareCall NetProps NetFetch WormholeProps CallBack
    Labels Nonces Native Sources Chat Panels Startup SpeakerThreads
begin

text \<open>
  A model of BoaVoice (\<open>crates/\<close> in the repository): a chat server with voice calls and screen
  sharing, its protocol, and the parts of its desktop client that decide things. A client logs
  in over HTTP, opens one control connection for chat and signalling, and sends voice and
  pictures as sealed datagrams through the server's relay. The server keeps who is connected
  and who is in which call in the hub, everything lasting in a SQLite store, and uploaded bytes
  as files named by their digest.

  The theories, and the files they translate:

  \<^item> \<open>Prelude\<close>: machine integers, hash maps (\<open>hmap\<close>: association lists with distinct keys), the
    interface \<open>invariant_machine\<close> of a state machine with an invariant.
  \<^item> \<open>Media\<close> (\<open>boa-proto/src/media.rs\<close>): header codec, nonces, sealing, registration,
    fragments. \<open>MediaProps\<close>: opening inverts sealing and nothing else opens; a cut frame crosses
    the wire.
  \<^item> \<open>Model\<close> (\<open>boa-proto/src/lib.rs\<close>, \<open>model.rs\<close>, \<open>control.rs\<close>): the values that travel.
  \<^item> \<open>Hub\<close>, \<open>HubInv\<close>, \<open>HubProps\<close> (\<open>boa-server/src/hub.rs\<close>): connections, calls, keys, streams and
    subscriptions; the invariant tying the four maps together, and what joining, leaving,
    sharing and routing do.
  \<^item> \<open>Relay\<close> (\<open>boa-server/src/relay.rs\<close>): the receive loop over the hub's interface
    \<open>media_router\<close>; who datagrams are sent to, and what a replayed registration does.
  \<^item> \<open>Config\<close> (\<open>boa-server/src/config.rs\<close>): settings, flags, environment.
  \<^item> \<open>Db\<close>, \<open>DbInv\<close>, \<open>DbProps\<close> (\<open>boa-server/src/db.rs\<close>): tables, constraints and methods; the
    interface \<open>store\<close>; resending, claiming of uploads.
  \<^item> \<open>Session\<close>, \<open>SessionProps\<close> (\<open>boa-server/src/session.rs\<close>): a connection from identification to
    teardown; authorisation, delivery of messages.
  \<^item> \<open>Blobs\<close>, \<open>Http\<close>, \<open>HttpProps\<close> (\<open>boa-server/src/blobs.rs\<close>, \<open>auth.rs\<close>, \<open>http.rs\<close>): files,
    the janitor, accounts, uploads; the interface \<open>site\<close> of the whole server over time.
  \<^item> \<open>ClientState\<close>, \<open>ClientLog\<close>, \<open>ClientProps\<close> (\<open>boa-client/src/state.rs\<close>): what the client
    believes; logs as maps (interface \<open>keyed_log\<close>), independence of order, reconnects.
  \<^item> \<open>Roster\<close>, \<open>World\<close>: client and server together. The hub's members are the abstract roster,
    the clients' voice tables refine it; \<open>serial_step\<close> interleaves connections, one handler after
    the other. Handlers of the server can overlap; \<open>World\<close> shows what a greeting loses by that.
  \<^item> \<open>HistoryPaging\<close>: client and store together, reading a channel page by page.
  \<^item> \<open>Ring\<close>, \<open>RingThreads\<close> (\<open>boa-client/src/audio/ring.rs\<close>): the sample queue as functions
    (interface \<open>bounded_fifo\<close>) and cut at each access to shared memory for its two threads.
  \<^item> \<open>Recv\<close>, \<open>RecvInv\<close>, \<open>RecvProps\<close>, \<open>RecvOrder\<close> (\<open>boa-client/src/screen/recv.rs\<close>): reassembly,
    the bounded queue to the decoder, the decoder's wait for a keyframe.
  \<^item> \<open>Annexb\<close>, \<open>AnnexbProps\<close>, \<open>Share\<close>, \<open>ShareProps\<close> (\<open>boa-client/src/screen/send.rs\<close>): the
    encoder's byte stream cut into pictures whatever the reads, the pacer, pictures put on the
    wire.
    \<open>ShareCall\<close>: a share from the encoder's bytes to the watcher's queue.
  \<^item> \<open>DesktopSound\<close> (\<open>boa-client/src/screen/audio.rs\<close>): the shared machine's sound, from bytes or
    samples of any number to packets of 20 ms. \<open>Nonces\<close>: the numbers every thread of a client
    gives its packets, and whether a call ever uses a nonce twice.
  \<^item> \<open>Native\<close> (\<open>screen/mac/capture.rs\<close>, \<open>encode.rs\<close>): what the hardware encoder hands over made
    into pictures and put on the wire, the heartbeat of a still screen, the handle of a share. \<open>Sources\<close>
    (\<open>screen/send.rs\<close>, \<open>audio.rs\<close>, \<open>ffmpeg.rs\<close>, \<open>mac/content.rs\<close>): what can be shared and with which
    program.
  \<^item> \<open>Governor\<close> (\<open>boa-client/src/screen/governor.rs\<close>): the bitrate controller with the rounding
    of its float products.
  \<^item> \<open>Floats\<close>: IEEE single and double arithmetic on bit patterns, rounding to nearest even.
    \<open>Settings\<close> (\<open>boa-client/src/settings.rs\<close>), \<open>Denoise\<close> and \<open>Resample\<close>
    (\<open>audio/denoise.rs\<close>, \<open>audio/resample.rs\<close>): limits and addresses; gain, gate and suppression;
    conversion of rates.
  \<^item> \<open>Transport\<close> (\<open>boa-client/src/media/mod.rs\<close>): the client's end of the media path.
  \<^item> \<open>Voice\<close>, \<open>VoiceTx\<close>, \<open>VoiceRx\<close>, \<open>Playback\<close> (\<open>boa-client/src/audio/pipeline.rs\<close>): what the
    threads of a voice session share, and one theory per thread. \<open>VoiceProps\<close>: the speaker table
    with their operations one at a time; \<open>SpeakerThreads\<close>: the same table with the operations cut at every
    access, what still holds and what does not; \<open>VoiceStreams\<close>: which packets of a stream are
    played. \<open>Journey\<close>: a stream through the relay; \<open>VoiceCall\<close>: a call from the captured frames of one
    member, through the encoder, to the decoder of another.
  \<^item> \<open>Api\<close>, \<open>Net\<close>, \<open>NetProps\<close> (\<open>boa-client/src/net/api.rs\<close>, \<open>net/mod.rs\<close>): the HTTP calls, the
    network thread's loop as a function of its input, and the thread with its tasks as a step
    relation. \<open>Cache\<close> (\<open>cache.rs\<close>, \<open>paths.rs\<close>): the client's own copies; \<open>NetFetch\<close>: an attachment
    from the upload on the server to a copy that outlives it.
  \<^item> \<open>Wormhole\<close>, \<open>WormholeProps\<close> (\<open>boa-client/src/transfer/mod.rs\<close>): files sent straight from
    one client to another, where they land, and what cancelling reaches.
  \<^item> \<open>App\<close>, \<open>AppActions\<close>, \<open>AppProps\<close> (\<open>boa-client/src/ui/mod.rs\<close>, the rows of
    \<open>ui/transfers.rs\<close>): the application behind the window, what each event, action and frame does
    to it, what holds of it in every run. \<open>CallBack\<close>: a call across a reconnection, client and
    server together.
  \<^item> \<open>Labels\<close> (\<open>boa-client/src/ui/widgets.rs\<close>): times, dates and expiry in words; the calendar.
    \<open>Chat\<close> (\<open>ui/chat.rs\<close>, \<open>ui/images.rs\<close>, \<open>audio/devices.rs\<close>): what the log of a channel asks for while it is
    drawn, pictures and their decoder, the composer, the list of devices. \<open>Panels\<close> (\<open>ui/connect.rs\<close>,
    \<open>sidebar.rs\<close>, \<open>voice_bar.rs\<close>, \<open>settings_view.rs\<close>): what the screens around it show and ask for; where
    a token goes, and how often a person is listed.
  \<^item> \<open>Startup\<close>: saving and loading the settings whatever interrupts it, starting and dropping the
    streams and threads of a voice session, the log of the last run, how the server's \<open>main.rs\<close> ends.

  Integers keep their width. A handler that holds a lock is one function from state to state;
  what it sends is a list it returns. What the program takes from outside (cipher, base64,
  digest, password hash, video decoder, random bytes, the clock, row identifiers SQLite picks) is
  an argument, with the documented behaviour a theorem needs as a named hypothesis. Two loops
  that need not end are partial functions: the search for a free stream identifier, proved to
  end while the identifiers are not exhausted, and the resampler's loop over one input sample,
  which ends only if its step is not lost in rounding. Nothing uses fuel.

  Not modelled: painting the window (places, colours, icons, glass), the window of a share and its
  keys; calls of the operating system for capture, encoding, audio devices, permissions and
  vibrancy; sockets, JSON and the routing of HTTP; SQLite itself; pixels of decoded pictures; the
  start of the two programs, which reads flags and sets going what is modelled.
\<close>

end
